(* ===== verification/Nmbl_Prelude.thy ===== *)
theory Nmbl_Prelude
  imports Main "HOL-Library.Word"
begin

text \<open>
  What the components share. Rust's \<open>Result<T, E>\<close> is the sum \<open>E + T\<close> with
  \<open>Inl\<close> for the error; \<open>Option<T>\<close> is \<open>'a option\<close>. A byte is an Isabelle
  \<^typ>\<open>char\<close> (256 values), so \<open>Vec<u8>\<close>, \<open>&[u8]\<close>, \<open>String\<close> and \<open>&str\<close> are
  all \<^typ>\<open>string\<close>; a \<open>str\<close> is the byte string of its UTF-8 encoding, as in
  Rust, and \<open>length\<close> is \<open>len()\<close>. The operations of Rust's standard library
  that the components call (\<open>trim\<close>, \<open>lines\<close>, \<open>split\<close>, \<open>parse::<u32>\<close>,
  \<open>position\<close>, \<open>find_map\<close>, \<open>from_utf8_lossy\<close>, \<open>saturating_add\<close>, \<dots>) are
  modelled here once.
\<close>

named_theorems result_simps \<open>unfolding of the error plumbing\<close>
named_theorems text_simps \<open>evaluation of the text operations\<close>

type_synonym bytes = string

subsection \<open>Results\<close>

definition rbind :: "'e + 'a \<Rightarrow> ('a \<Rightarrow> 'e + 'b) \<Rightarrow> 'e + 'b" where
  "rbind r f = (case r of Inl e \<Rightarrow> Inl e | Inr a \<Rightarrow> f a)"

definition ok_or :: "'e \<Rightarrow> 'a option \<Rightarrow> 'e + 'a" where
  "ok_or e x = (case x of None \<Rightarrow> Inl e | Some a \<Rightarrow> Inr a)"

definition ok :: "'e + 'a \<Rightarrow> 'a option" where
  "ok r = (case r of Inl _ \<Rightarrow> None | Inr a \<Rightarrow> Some a)"

definition map_err :: "('e \<Rightarrow> 'f) \<Rightarrow> 'e + 'a \<Rightarrow> 'f + 'a" where
  "map_err f r = (case r of Inl e \<Rightarrow> Inl (f e) | Inr a \<Rightarrow> Inr a)"

definition ensure :: "bool \<Rightarrow> 'e \<Rightarrow> 'e + unit" where
  "ensure b e = (if b then Inr () else Inl e)"

lemma rbind_simps [simp, result_simps]:
  "rbind (Inl e) f = Inl e"
  "rbind (Inr a) f = f a"
  by (simp_all add: rbind_def)

lemma ok_or_simps [simp, result_simps]:
  "ok_or e None = Inl e"
  "ok_or e (Some a) = Inr a"
  by (simp_all add: ok_or_def)

lemma ok_simps [simp, result_simps]:
  "ok (Inl e) = None"
  "ok (Inr a) = Some a"
  by (simp_all add: ok_def)

lemma ensure_simps [simp, result_simps]:
  "ensure True e = Inr ()"
  "ensure False e = Inl e"
  by (simp_all add: ensure_def)

lemma map_err_simps [simp, result_simps]:
  "map_err f (Inl e) = Inl (f e)"
  "map_err f (Inr a) = Inr a"
  by (simp_all add: map_err_def)

lemma map_err_Inr_iff [simp]: "map_err f r = Inr a \<longleftrightarrow> r = Inr a"
  by (cases r) auto

lemma rbind_Inr_iff: "rbind r f = Inr b \<longleftrightarrow> (\<exists>a. r = Inr a \<and> f a = Inr b)"
  by (cases r) auto

lemma ok_or_Inr_iff [simp]: "ok_or e x = Inr a \<longleftrightarrow> x = Some a"
  by (cases x) auto

lemma ensure_Inr_iff [simp]: "ensure b e = Inr u \<longleftrightarrow> b"
  by (simp add: ensure_def)

lemma rbind_assoc: "rbind (rbind r f) g = rbind r (\<lambda>a. rbind (f a) g)"
  by (cases r) auto

subsection \<open>Machine integers kept as bounded naturals\<close>

definition u32_max :: nat where
  "u32_max = 4294967295"

definition u64_max :: nat where
  "u64_max = 18446744073709551615"

definition sat_add :: "nat \<Rightarrow> nat \<Rightarrow> nat \<Rightarrow> nat" where
  "sat_add mx a b = min mx (a + b)"

definition checked_add :: "nat \<Rightarrow> nat \<Rightarrow> nat \<Rightarrow> nat option" where
  "checked_add mx a b = (if a + b \<le> mx then Some (a + b) else None)"

text \<open>\<open>NonMaxU32::new\<close>: every \<open>u32\<close> but the greatest.\<close>

definition nonmax_new :: "nat \<Rightarrow> nat option" where
  "nonmax_new n = (if n = u32_max then None else Some n)"

lemma sat_add_le [simp]: "sat_add mx a b \<le> mx"
  by (simp add: sat_add_def)

lemma sat_add_exact: "a + b \<le> mx \<Longrightarrow> sat_add mx a b = a + b"
  by (simp add: sat_add_def)

subsection \<open>Iterators over lists\<close>

fun position :: "('a \<Rightarrow> bool) \<Rightarrow> 'a list \<Rightarrow> nat option" where
  "position P [] = None"
| "position P (x # xs) = (if P x then Some 0 else map_option Suc (position P xs))"

fun find_map :: "('a \<Rightarrow> 'b option) \<Rightarrow> 'a list \<Rightarrow> 'b option" where
  "find_map f [] = None"
| "find_map f (x # xs) = (case f x of Some y \<Rightarrow> Some y | None \<Rightarrow> find_map f xs)"

text \<open>\<open>iter().flatten()\<close> over options.\<close>

fun flatten :: "'a option list \<Rightarrow> 'a list" where
  "flatten [] = []"
| "flatten (None # xs) = flatten xs"
| "flatten (Some x # xs) = x # flatten xs"

text \<open>\<open>get(i)\<close>: a checked index.\<close>

definition get_at :: "'a list \<Rightarrow> nat \<Rightarrow> 'a option" where
  "get_at xs i = (if i < length xs then Some (xs ! i) else None)"

text \<open>\<open>get(a..b)\<close>: a checked range, \<open>None\<close> when it runs past the end.\<close>

definition get_range :: "'a list \<Rightarrow> nat \<Rightarrow> nat \<Rightarrow> 'a list option" where
  "get_range xs a b = (if a \<le> b \<and> b \<le> length xs then Some (take (b - a) (drop a xs)) else None)"

lemma position_SomeD:
  "position P xs = Some i \<Longrightarrow> i < length xs \<and> P (xs ! i) \<and> (\<forall>j<i. \<not> P (xs ! j))"
proof (induction xs arbitrary: i)
  case Nil
  then show ?case by simp
next
  case (Cons x xs)
  then show ?case
    by (cases i) (auto split: if_splits simp: nth_Cons less_Suc_eq_0_disj)
qed

lemma position_None_iff: "position P xs = None \<longleftrightarrow> (\<forall>x\<in>set xs. \<not> P x)"
  by (induction xs) auto

lemma position_Some_ex: "x \<in> set xs \<Longrightarrow> P x \<Longrightarrow> \<exists>i. position P xs = Some i"
  using position_None_iff [of P xs] by (cases "position P xs") auto

lemma find_map_SomeD: "find_map f xs = Some y \<Longrightarrow> \<exists>x\<in>set xs. f x = Some y"
  by (induction xs) (auto split: option.splits)

lemma find_map_None_iff: "find_map f xs = None \<longleftrightarrow> (\<forall>x\<in>set xs. f x = None)"
  by (induction xs) (auto split: option.splits)

lemma set_flatten: "set (flatten xs) = {x. Some x \<in> set xs}"
  by (induction xs rule: flatten.induct) auto

lemma flatten_append [simp]: "flatten (xs @ ys) = flatten xs @ flatten ys"
  by (induction xs rule: flatten.induct) auto

lemma flatten_replicate_None [simp]: "flatten (replicate n None) = []"
  by (induction n) auto

definition keep_last :: "nat \<Rightarrow> 'a list \<Rightarrow> 'a list" where
  "keep_last c xs = drop (length xs - c) xs"

lemma length_keep_last [simp]: "length (keep_last c xs) = min c (length xs)"
  by (auto simp: keep_last_def)

lemma keep_last_id: "length xs \<le> c \<Longrightarrow> keep_last c xs = xs"
  by (simp add: keep_last_def)

lemma keep_last_drop: "k + c \<le> length zs \<Longrightarrow> keep_last c (drop k zs) = keep_last c zs"
  by (simp add: keep_last_def)

lemma keep_last_absorb: "keep_last c (keep_last c xs @ ys) = keep_last c (xs @ ys)"
proof (cases "length xs \<le> c")
  case True
  then show ?thesis by (simp add: keep_last_id)
next
  case False
  then have "keep_last c xs @ ys = drop (length xs - c) (xs @ ys)"
    by (simp add: keep_last_def)
  moreover have "length xs - c + c \<le> length (xs @ ys)" using False by simp
  ultimately show ?thesis by (simp only: keep_last_drop)
qed

lemma get_at_Some_iff: "get_at xs i = Some x \<longleftrightarrow> i < length xs \<and> x = xs ! i"
  by (auto simp: get_at_def)

lemma get_at_None_iff: "get_at xs i = None \<longleftrightarrow> length xs \<le> i"
  by (simp add: get_at_def not_less)

lemma get_range_append:
  "get_range (xs @ ys @ zs) (length xs) (length xs + length ys) = Some ys"
  by (simp add: get_range_def)

subsection \<open>Bytes and characters\<close>

definition byte :: "nat \<Rightarrow> char" where
  "byte n = char_of n"

definition ord :: "char \<Rightarrow> nat" where
  "ord c = of_char c"

lemma ord_byte [simp]: "ord (byte n) = n mod 256"
  by (simp add: ord_def byte_def)

lemma byte_ord [simp]: "byte (ord c) = c"
  by (simp add: ord_def byte_def)

lemma ord_less: "ord c < 256"
  by (metis byte_ord mod_less_divisor ord_byte zero_less_numeral)

definition is_digit :: "char \<Rightarrow> bool" where
  "is_digit c \<longleftrightarrow> 48 \<le> ord c \<and> ord c \<le> 57"

definition is_ascii :: "char \<Rightarrow> bool" where
  "is_ascii c \<longleftrightarrow> ord c < 128"

text \<open>Printable ASCII without the blank: no such byte is white space or part of a longer one.\<close>

definition is_graphic :: "char \<Rightarrow> bool" where
  "is_graphic c \<longleftrightarrow> 33 \<le> ord c \<and> ord c \<le> 126"

lemma is_digit_graphic: "is_digit c \<Longrightarrow> is_graphic c"
  by (simp add: is_digit_def is_graphic_def)

end
