(* ===== verification/Text.thy ===== *)
theory Text
  imports Nmbl_Prelude
begin

text \<open>
  The operations of \<open>str\<close> the components use, over the UTF-8 byte string:
  prefixes and suffixes, \<open>split\<close>, \<open>lines\<close>, \<open>trim\<close> (every Unicode
  \<open>White_Space\<close> character, by its encoding), decimal and hexadecimal numbers,
  and \<open>String::from_utf8_lossy\<close>.
\<close>

subsection \<open>Prefixes, suffixes, searching\<close>

definition starts_with :: "string \<Rightarrow> string \<Rightarrow> bool" where
  "starts_with p s \<longleftrightarrow> take (length p) s = p"

definition strip_prefix :: "string \<Rightarrow> string \<Rightarrow> string option" where
  "strip_prefix p s = (if starts_with p s then Some (drop (length p) s) else None)"

definition ends_with :: "string \<Rightarrow> string \<Rightarrow> bool" where
  "ends_with p s \<longleftrightarrow> length p \<le> length s \<and> drop (length s - length p) s = p"

definition strip_suffix :: "string \<Rightarrow> string \<Rightarrow> string option" where
  "strip_suffix p s = (if ends_with p s then Some (take (length s - length p) s) else None)"

fun str_contains :: "string \<Rightarrow> string \<Rightarrow> bool" where
  "str_contains p [] = (p = [])"
| "str_contains p (c # s) = (starts_with p (c # s) \<or> str_contains p s)"

text \<open>\<open>split_once(c)\<close>: the text before and after the first \<open>c\<close>.\<close>

fun split_once :: "char \<Rightarrow> string \<Rightarrow> (string \<times> string) option" where
  "split_once c [] = None"
| "split_once c (x # s) =
     (if x = c then Some ([], s)
      else map_option (\<lambda>(a, b). (x # a, b)) (split_once c s))"

lemma starts_with_append [simp, text_simps]: "starts_with p (p @ s)"
  by (simp add: starts_with_def)

lemma starts_with_self [simp]: "starts_with p p"
  by (simp add: starts_with_def)

lemma starts_with_Nil [simp]: "starts_with [] s"
  by (simp add: starts_with_def)

lemma starts_with_Cons [simp]: "starts_with (a # p) (b # s) \<longleftrightarrow> a = b \<and> starts_with p s"
  by (auto simp: starts_with_def)

lemma starts_with_Cons_Nil [simp]: "\<not> starts_with (a # p) []"
  by (simp add: starts_with_def)

lemma starts_with_iff: "starts_with p s \<longleftrightarrow> (\<exists>t. s = p @ t)"
  by (metis append_take_drop_id starts_with_append starts_with_def)

lemma strip_prefix_append [simp, text_simps]: "strip_prefix p (p @ s) = Some s"
  by (simp add: strip_prefix_def)

lemma strip_prefix_Some_iff: "strip_prefix p s = Some t \<longleftrightarrow> s = p @ t"
  by (auto simp: strip_prefix_def starts_with_iff)

lemma ends_with_append [simp]: "ends_with p (s @ p)"
  by (simp add: ends_with_def)

lemma strip_suffix_append [simp, text_simps]: "strip_suffix p (s @ p) = Some s"
  by (simp add: strip_suffix_def)

lemma strip_suffix_Some_iff: "strip_suffix p s = Some t \<longleftrightarrow> s = t @ p"
proof
  assume "strip_suffix p s = Some t"
  then have "length p \<le> length s" "drop (length s - length p) s = p"
    "t = take (length s - length p) s"
    by (auto simp: strip_suffix_def ends_with_def split: if_splits)
  then show "s = t @ p" by (metis append_take_drop_id)
qed simp

lemma split_once_append: "c \<notin> set a \<Longrightarrow> split_once c (a @ c # b) = Some (a, b)"
  by (induction a) auto

lemma split_once_SomeD: "split_once c s = Some (a, b) \<Longrightarrow> s = a @ c # b \<and> c \<notin> set a"
  by (induction s arbitrary: a) (auto split: if_splits)

lemma split_once_None_iff: "split_once c s = None \<longleftrightarrow> c \<notin> set s"
  by (induction s) auto

definition to_ascii_lowercase :: "string \<Rightarrow> string" where
  "to_ascii_lowercase s = map (\<lambda>c. if 65 \<le> ord c \<and> ord c \<le> 90 then byte (ord c + 32) else c) s"

definition eq_ignore_ascii_case :: "string \<Rightarrow> string \<Rightarrow> bool" where
  "eq_ignore_ascii_case a b \<longleftrightarrow> to_ascii_lowercase a = to_ascii_lowercase b"

text \<open>\<open>rfind\<close> of a character: the text before and after the last one.\<close>

definition rsplit_once :: "char \<Rightarrow> string \<Rightarrow> (string \<times> string) option" where
  "rsplit_once c s = map_option (\<lambda>(b, a). (rev a, rev b)) (split_once c (rev s))"

subsection \<open>Splitting\<close>

fun split_on :: "char \<Rightarrow> string \<Rightarrow> string list" where
  "split_on c [] = [[]]"
| "split_on c (x # xs) =
     (if x = c then [] # split_on c xs
      else (case split_on c xs of [] \<Rightarrow> [[x]] | y # ys \<Rightarrow> (x # y) # ys))"

fun join :: "string \<Rightarrow> string list \<Rightarrow> string" where
  "join sep [] = []"
| "join sep [x] = x"
| "join sep (x # y # ys) = x @ sep @ join sep (y # ys)"

definition newline :: char where
  "newline = CHR 0x0A"

definition carriage_return :: char where
  "carriage_return = CHR 0x0D"

lemma ord_newline [simp]: "ord newline = 10" "ord carriage_return = 13"
  by (simp_all add: newline_def carriage_return_def ord_def)

definition strip_cr :: "string \<Rightarrow> string" where
  "strip_cr l = (case strip_suffix [carriage_return] l of None \<Rightarrow> l | Some l' \<Rightarrow> l')"

text \<open>\<open>str::lines\<close>: a final line without \<open>\n\<close> is kept as it is, an empty one is dropped.\<close>

definition text_lines :: "string \<Rightarrow> string list" where
  "text_lines s =
     (let ps = split_on newline s
      in map strip_cr (butlast ps) @ (if last ps = [] then [] else [last ps]))"

lemma split_on_not_Nil [simp]: "split_on c s \<noteq> []"
  by (cases s) (auto split: list.splits)

lemma split_on_notin: "c \<notin> set s \<Longrightarrow> split_on c s = [s]"
  by (induction s) auto

lemma split_on_append: "c \<notin> set a \<Longrightarrow> split_on c (a @ c # b) = a # split_on c b"
  by (induction a) auto

lemma join_split_on: "join [c] (split_on c s) = s"
proof (induction s)
  case Nil
  then show ?case by simp
next
  case (Cons x s)
  then show ?case
    by (cases "split_on c s"; cases "tl (split_on c s)") (auto split: list.splits)
qed

lemma split_on_parts: "p \<in> set (split_on c s) \<Longrightarrow> c \<notin> set p"
proof (induction s arbitrary: p)
  case Nil
  then show ?case by simp
next
  case (Cons x s)
  then show ?case
    by (cases "split_on c s") (auto split: if_splits)
qed

lemma split_on_join:
  "\<forall>x\<in>set xs. c \<notin> set x \<Longrightarrow> xs \<noteq> [] \<Longrightarrow> split_on c (join [c] xs) = xs"
  by (induction "[c]" xs rule: join.induct) (auto simp: split_on_notin split_on_append)

lemma strip_cr_id: "last l \<noteq> carriage_return \<Longrightarrow> strip_cr l = l"
  by (auto simp: strip_cr_def strip_suffix_Some_iff split: option.splits)

lemma text_lines_single:
  assumes "newline \<notin> set l" "last (CHR ''x'' # l) \<noteq> carriage_return"
  shows "text_lines (l @ [newline]) = [l]"
proof -
  have "split_on newline (l @ [newline]) = [l, []]"
    using split_on_append [OF assms(1), of "[]"] by simp
  moreover have "strip_cr l = l"
  proof (cases l rule: rev_cases)
    case Nil
    then show ?thesis by (simp add: strip_cr_def strip_suffix_def ends_with_def)
  next
    case (snoc k c)
    with assms(2) show ?thesis by (simp add: strip_cr_def strip_suffix_def ends_with_def)
  qed
  ultimately show ?thesis by (simp add: text_lines_def)
qed

lemma split_on_lines:
  "\<forall>l\<in>set ls. c \<notin> set l \<Longrightarrow> split_on c (concat (map (\<lambda>l. l @ [c]) ls)) = ls @ [[]]"
  by (induction ls) (simp_all add: split_on_append)

text \<open>A text of lines, each ended by a newline and none by a carriage return, reads back.\<close>

lemma text_lines_concat:
  assumes "\<forall>l\<in>set ls. newline \<notin> set l \<and> strip_cr l = l"
  shows "text_lines (concat (map (\<lambda>l. l @ [newline]) ls)) = ls"
  using assms by (simp add: text_lines_def split_on_lines map_idI)

subsection \<open>White space\<close>

definition ws_seqs :: "string list" where
  "ws_seqs =
     map (\<lambda>n. [byte n]) [9, 10, 11, 12, 13, 32]
     @ [[byte 0xC2, byte 0x85], [byte 0xC2, byte 0xA0], [byte 0xE1, byte 0x9A, byte 0x80]]
     @ map (\<lambda>n. [byte 0xE2, byte 0x80, byte n])
         [0x80, 0x81, 0x82, 0x83, 0x84, 0x85, 0x86, 0x87, 0x88, 0x89, 0x8A, 0xA8, 0xA9, 0xAF]
     @ [[byte 0xE2, byte 0x81, byte 0x9F], [byte 0xE3, byte 0x80, byte 0x80]]"

function strip_seqs :: "string list \<Rightarrow> string \<Rightarrow> string" where
  "strip_seqs ws s =
     (case find (\<lambda>w. w \<noteq> [] \<and> starts_with w s) ws of
        None \<Rightarrow> s
      | Some w \<Rightarrow> strip_seqs ws (drop (length w) s))"
  by pat_completeness auto
termination
  by (relation "measure (\<lambda>(ws, s). length s)")
    (auto simp: find_Some_iff starts_with_iff)

declare strip_seqs.simps [simp del]

definition trim_start :: "string \<Rightarrow> string" where
  "trim_start s = strip_seqs ws_seqs s"

definition trim_end :: "string \<Rightarrow> string" where
  "trim_end s = rev (strip_seqs (map rev ws_seqs) (rev s))"

definition trim :: "string \<Rightarrow> string" where
  "trim s = trim_end (trim_start s)"

text \<open>\<open>split_whitespace\<close>: the parts between the white space, none of them empty.\<close>

definition ws_prefix :: "string \<Rightarrow> string option" where
  "ws_prefix s = find (\<lambda>w. w \<noteq> [] \<and> starts_with w s) ws_seqs"

function ws_words :: "string \<Rightarrow> string \<Rightarrow> string list" where
  "ws_words acc [] = (if acc = [] then [] else [acc])"
| "ws_words acc (c # s) =
     (case ws_prefix (c # s) of
        None \<Rightarrow> ws_words (acc @ [c]) s
      | Some w \<Rightarrow> (if acc = [] then [] else [acc]) @ ws_words [] (drop (length w) (c # s)))"
  by pat_completeness auto
termination
  by (relation "measure (\<lambda>(acc, s). length s)") (auto simp: ws_prefix_def find_Some_iff starts_with_iff)

definition split_whitespace :: "string \<Rightarrow> string list" where
  "split_whitespace s = ws_words [] s"

lemma strip_seqs_stop:
  "(\<And>w. w \<in> set ws \<Longrightarrow> w \<noteq> [] \<Longrightarrow> \<not> starts_with w s) \<Longrightarrow> strip_seqs ws s = s"
  by (subst strip_seqs.simps) (auto split: option.splits simp: find_Some_iff)

lemma strip_seqs_Nil [simp]: "strip_seqs ws [] = []"
  by (rule strip_seqs_stop) (auto simp: starts_with_def)

lemma ws_seqs_first: "w \<in> set ws_seqs \<Longrightarrow> \<exists>c v. w = c # v \<and> \<not> is_graphic c"
  by (auto simp: ws_seqs_def is_graphic_def)

lemma ws_seqs_last: "w \<in> set ws_seqs \<Longrightarrow> w \<noteq> [] \<and> \<not> is_graphic (last w)"
  by (auto simp: ws_seqs_def is_graphic_def)

lemma trim_start_graphic: "is_graphic c \<Longrightarrow> trim_start (c # s) = c # s"
  unfolding trim_start_def by (rule strip_seqs_stop) (auto dest: ws_seqs_first)

lemma trim_end_graphic: "is_graphic c \<Longrightarrow> trim_end (s @ [c]) = s @ [c]"
proof -
  assume "is_graphic c"
  then have "\<not> starts_with (rev w) (c # rev s)" if "w \<in> set ws_seqs" for w
    using ws_seqs_last [OF that] by (cases w rule: rev_cases) auto
  then have "strip_seqs (map rev ws_seqs) (c # rev s) = c # rev s"
    by (intro strip_seqs_stop) auto
  then show ?thesis by (simp add: trim_end_def)
qed

lemma trim_Nil [simp]: "trim [] = []"
  by (simp add: trim_def trim_start_def trim_end_def)

lemma ws_prefix_graphic: "is_graphic c \<Longrightarrow> ws_prefix (c # s) = None"
  by (auto simp: ws_prefix_def find_None_iff dest!: ws_seqs_first)

lemma ws_prefix_blank: "ws_prefix (CHR '' '' # s) = Some '' ''"
  by (simp add: ws_prefix_def ws_seqs_def byte_def char_of_def bit_0)

lemma ws_words_graphic:
  "\<forall>c\<in>set w. is_graphic c \<Longrightarrow> ws_words acc (w @ s) = ws_words (acc @ w) s"
  by (induction w arbitrary: acc) (simp_all add: ws_prefix_graphic)

lemma split_whitespace_words:
  assumes "\<forall>w\<in>set ws. w \<noteq> [] \<and> (\<forall>c\<in>set w. is_graphic c)"
  shows "split_whitespace (concat (map (\<lambda>w. CHR '' '' # w) ws)) = ws"
proof -
  have "ws_words acc (concat (map (\<lambda>w. CHR '' '' # w) ws)) = (if acc = [] then [] else [acc]) @ ws" for acc
    using assms by (induction ws arbitrary: acc) (simp_all add: ws_prefix_blank ws_words_graphic)
  then show ?thesis by (simp add: split_whitespace_def)
qed

text \<open>The instance all the file formats here need: text that begins and ends in a graphic byte.\<close>

lemma trim_graphic:
  assumes "s \<noteq> []" "is_graphic (hd s)" "is_graphic (last s)"
  shows "trim s = s"
proof -
  from assms(1,2) have "trim_start s = s"
    by (cases s) (auto simp: trim_start_graphic)
  moreover from assms(1,3) have "trim_end s = s"
    by (cases s rule: rev_cases) (auto simp: trim_end_graphic)
  ultimately show ?thesis by (simp add: trim_def)
qed

lemma trim_all_graphic: "(\<And>c. c \<in> set s \<Longrightarrow> is_graphic c) \<Longrightarrow> trim s = s"
  by (cases "s = []") (auto intro!: trim_graphic)

subsection \<open>Numbers\<close>

definition digit_val :: "char \<Rightarrow> nat option" where
  "digit_val c = (if is_digit c then Some (ord c - 48) else None)"

definition digit_of :: "nat \<Rightarrow> char" where
  "digit_of d = byte (48 + d)"

text \<open>The \<open>{}\<close> of an unsigned integer.\<close>

fun dec :: "nat \<Rightarrow> string" where
  "dec n = (if n < 10 then [digit_of n] else dec (n div 10) @ [digit_of (n mod 10)])"

declare dec.simps [simp del]

text \<open>The checked multiply and add of \<open>from_str_radix\<close>: \<open>None\<close> on a bad digit or an overflow.\<close>

fun digits_from :: "nat \<Rightarrow> nat \<Rightarrow> string \<Rightarrow> nat option" where
  "digits_from mx acc [] = Some acc"
| "digits_from mx acc (c # cs) =
     (case digit_val c of
        None \<Rightarrow> None
      | Some d \<Rightarrow> if acc * 10 + d \<le> mx then digits_from mx (acc * 10 + d) cs else None)"

text \<open>\<open>str::parse\<close> of an unsigned type with the greatest value \<open>mx\<close>; one leading plus is accepted.\<close>

definition parse_uint :: "nat \<Rightarrow> string \<Rightarrow> nat option" where
  "parse_uint mx s =
     (case s of
        [] \<Rightarrow> None
      | c # cs \<Rightarrow>
          if c = CHR ''+'' then (if cs = [] then None else digits_from mx 0 cs)
          else digits_from mx 0 s)"

abbreviation parse_u32 :: "string \<Rightarrow> nat option" where
  "parse_u32 \<equiv> parse_uint u32_max"

lemma digit_val_of [simp]: "d < 10 \<Longrightarrow> digit_val (digit_of d) = Some d"
  by (simp add: digit_val_def digit_of_def is_digit_def)

lemma is_digit_of [simp]: "d < 10 \<Longrightarrow> is_digit (digit_of d)"
  by (simp add: digit_of_def is_digit_def)

lemma dec_not_Nil [simp]: "dec n \<noteq> []"
  by (subst dec.simps) simp

lemma dec_digits: "c \<in> set (dec n) \<Longrightarrow> is_digit c"
proof (induction n rule: dec.induct)
  case (1 n)
  then show ?case by (subst (asm) dec.simps) (auto split: if_splits)
qed

lemma dec_graphic: "c \<in> set (dec n) \<Longrightarrow> is_graphic c"
  by (blast dest: dec_digits is_digit_graphic)

lemma digits_from_snoc:
  "digits_from mx acc (s @ [c]) =
     (case digits_from mx acc s of
        None \<Rightarrow> None
      | Some v \<Rightarrow> (case digit_val c of
            None \<Rightarrow> None
          | Some d \<Rightarrow> if v * 10 + d \<le> mx then Some (v * 10 + d) else None))"
  by (induction s arbitrary: acc) (auto split: option.splits)

lemma digits_from_le: "acc \<le> mx \<Longrightarrow> digits_from mx acc s = Some v \<Longrightarrow> v \<le> mx"
  by (induction s arbitrary: acc) (auto split: option.splits if_splits)

lemma digits_from_dec: "n \<le> mx \<Longrightarrow> digits_from mx 0 (dec n) = Some n"
proof (induction n rule: dec.induct)
  case (1 n)
  show ?case
  proof (cases "n < 10")
    case True
    with "1.prems" show ?thesis by (simp add: dec.simps [of n])
  next
    case False
    then have "digits_from mx 0 (dec (n div 10)) = Some (n div 10)"
      using "1.IH" "1.prems" by simp
    with False "1.prems" show ?thesis
      by (subst dec.simps) (simp add: digits_from_snoc)
  qed
qed

lemma dec_no_plus: "c = CHR ''+'' \<Longrightarrow> c \<notin> set (dec n)"
  using dec_digits [of c n] by (auto simp: is_digit_def ord_def)

theorem parse_uint_dec: "n \<le> mx \<Longrightarrow> parse_uint mx (dec n) = Some n"
  using dec_no_plus [of _ n] digits_from_dec [of n mx] dec_not_Nil [of n]
  by (cases "dec n") (auto simp: parse_uint_def)

lemma parse_uint_le: "parse_uint mx s = Some v \<Longrightarrow> v \<le> mx"
  by (auto simp: parse_uint_def simp del: digits_from.simps
      split: list.splits if_splits intro: digits_from_le [of 0])

lemma dec_inject: "dec m = dec n \<longleftrightarrow> m = n"
  by (metis max.cobounded1 max.cobounded2 option.inject parse_uint_dec)

lemma length_dec: "n < 10 ^ Suc k \<Longrightarrow> length (dec n) \<le> Suc k"
proof (induction n arbitrary: k rule: dec.induct)
  case (1 n)
  show ?case
  proof (cases "n < 10")
    case False
    with 1(2) obtain j where "k = Suc j" by (cases k) auto
    with 1(2) have "n div 10 < 10 ^ Suc j" by (simp add: less_mult_imp_div_less mult.commute)
    from 1(1) [OF False this] False \<open>k = Suc j\<close> show ?thesis by (simp add: dec.simps [of n])
  qed (simp add: dec.simps [of n])
qed

lemma trim_dec [simp]: "trim (dec n) = dec n"
  by (rule trim_all_graphic) (rule dec_graphic)

text \<open>Hexadecimal: \<open>{:0wx}\<close> and \<open>from_str_radix(16)\<close>.\<close>

definition hex_digit :: "nat \<Rightarrow> char" where
  "hex_digit d = (if d < 10 then byte (48 + d) else byte (87 + d))"

definition hex_val :: "char \<Rightarrow> nat option" where
  "hex_val c =
     (let k = ord c
      in if 48 \<le> k \<and> k \<le> 57 then Some (k - 48)
         else if 97 \<le> k \<and> k \<le> 102 then Some (k - 87)
         else if 65 \<le> k \<and> k \<le> 70 then Some (k - 55)
         else None)"

text \<open>\<open>hex_pad w n\<close>: the \<open>w\<close> low hexadecimal digits of \<open>n\<close>.\<close>

fun hex_pad :: "nat \<Rightarrow> nat \<Rightarrow> string" where
  "hex_pad 0 n = []"
| "hex_pad (Suc w) n = hex_pad w (n div 16) @ [hex_digit (n mod 16)]"

fun hex_from :: "nat \<Rightarrow> nat \<Rightarrow> string \<Rightarrow> nat option" where
  "hex_from mx acc [] = Some acc"
| "hex_from mx acc (c # cs) =
     (case hex_val c of
        None \<Rightarrow> None
      | Some d \<Rightarrow> if acc * 16 + d \<le> mx then hex_from mx (acc * 16 + d) cs else None)"

definition parse_hex :: "nat \<Rightarrow> string \<Rightarrow> nat option" where
  "parse_hex mx s =
     (case s of
        [] \<Rightarrow> None
      | c # cs \<Rightarrow>
          if c = CHR ''+'' then (if cs = [] then None else hex_from mx 0 cs)
          else hex_from mx 0 s)"

lemma hex_val_digit [simp]: "d < 16 \<Longrightarrow> hex_val (hex_digit d) = Some d"
  by (auto simp: hex_val_def hex_digit_def Let_def)

lemma hex_digit_graphic: "d < 16 \<Longrightarrow> is_graphic (hex_digit d)"
  by (simp add: hex_digit_def is_graphic_def)

lemma length_hex_pad [simp]: "length (hex_pad w n) = w"
  by (induction w arbitrary: n) auto

lemma hex_pad_graphic: "c \<in> set (hex_pad w n) \<Longrightarrow> is_graphic c"
  by (induction w arbitrary: n) (auto intro: hex_digit_graphic)

lemma hex_from_snoc:
  "hex_from mx acc (s @ [c]) =
     (case hex_from mx acc s of
        None \<Rightarrow> None
      | Some v \<Rightarrow> (case hex_val c of
            None \<Rightarrow> None
          | Some d \<Rightarrow> if v * 16 + d \<le> mx then Some (v * 16 + d) else None))"
  by (induction s arbitrary: acc) (auto split: option.splits)

lemma hex_from_pad: "n < 16 ^ w \<Longrightarrow> n \<le> mx \<Longrightarrow> hex_from mx 0 (hex_pad w n) = Some n"
proof (induction w arbitrary: n)
  case 0
  then show ?case by simp
next
  case (Suc w)
  then have "n div 16 < 16 ^ w" "n div 16 \<le> mx" by auto
  with Suc.IH have "hex_from mx 0 (hex_pad w (n div 16)) = Some (n div 16)" by blast
  with Suc.prems show ?case by (simp add: hex_from_snoc)
qed

lemma ord_plus [simp]: "ord (CHR ''+'') = 43"
  by (simp add: ord_def)

lemma hex_digit_not_plus: "hex_digit d = CHR ''+'' \<Longrightarrow> 16 \<le> d"
proof (rule ccontr)
  assume "hex_digit d = CHR ''+''" "\<not> 16 \<le> d"
  moreover from this(2) have "48 \<le> ord (hex_digit d)"
    by (simp add: hex_digit_def)
  ultimately show False by simp
qed

lemma hex_pad_no_plus: "CHR ''+'' \<notin> set (hex_pad w n)"
  by (induction w arbitrary: n) (auto dest: hex_digit_not_plus [OF sym])

theorem parse_hex_pad:
  assumes "0 < w" "n < 16 ^ w" "n \<le> mx"
  shows "parse_hex mx (hex_pad w n) = Some n"
proof (cases "hex_pad w n")
  case Nil
  with assms(1) show ?thesis by (metis length_hex_pad list.size(3) not_less_zero)
next
  case (Cons c cs)
  with hex_pad_no_plus [of w n] have "c \<noteq> CHR ''+''" by auto
  with Cons hex_from_pad [OF assms(2,3)] show ?thesis by (simp add: parse_hex_def)
qed

text \<open>\<open>{:0wx}\<close> of any number: at least \<open>w\<close> digits.\<close>

fun hex :: "nat \<Rightarrow> string" where
  "hex n = (if n < 16 then [hex_digit n] else hex (n div 16) @ [hex_digit (n mod 16)])"

declare hex.simps [simp del]

definition hex_fmt :: "nat \<Rightarrow> nat \<Rightarrow> string" where
  "hex_fmt w n = replicate (w - length (hex n)) (CHR ''0'') @ hex n"

lemma hex_digit_0: "hex_digit 0 = CHR ''0''"
  by code_simp

lemma hex_pad_0: "hex_pad w 0 = replicate w (CHR ''0'')"
  by (induction w) (auto simp: hex_digit_0 replicate_append_same)

lemma hex_fmt_pad: "n < 16 ^ w \<Longrightarrow> 0 < w \<Longrightarrow> hex_fmt w n = hex_pad w n"
proof (induction w arbitrary: n)
  case 0
  then show ?case by simp
next
  case (Suc w)
  show ?case
  proof (cases "n < 16")
    case True
    then show ?thesis by (simp add: hex_fmt_def hex.simps [of n] hex_pad_0)
  next
    case False
    with Suc.prems have "0 < w" "n div 16 < 16 ^ w" by (cases w; simp)+
    with Suc.IH have "hex_fmt w (n div 16) = hex_pad w (n div 16)" by blast
    then have "replicate (w - length (hex (n div 16))) (CHR ''0'') @ hex (n div 16) = hex_pad w (n div 16)"
      by (simp add: hex_fmt_def)
    with False show ?thesis by (simp add: hex_fmt_def hex.simps [of n] flip: append_assoc)
  qed
qed

subsection \<open>UTF-8\<close>

text \<open>
  The unit at the head of a byte string, as the standard library scans it: whether it is a
  character and how many bytes it takes; an ill-formed unit is the longest prefix
  a character could begin with.
\<close>

definition cont_byte :: "nat \<Rightarrow> bool" where
  "cont_byte b \<longleftrightarrow> 128 \<le> b \<and> b \<le> 191"

definition second_of_3 :: "nat \<Rightarrow> nat \<Rightarrow> bool" where
  "second_of_3 a b \<longleftrightarrow>
     (if a = 0xE0 then 0xA0 \<le> b \<and> b \<le> 0xBF
      else if a = 0xED then 0x80 \<le> b \<and> b \<le> 0x9F
      else cont_byte b)"

definition second_of_4 :: "nat \<Rightarrow> nat \<Rightarrow> bool" where
  "second_of_4 a b \<longleftrightarrow>
     (if a = 0xF0 then 0x90 \<le> b \<and> b \<le> 0xBF
      else if a = 0xF4 then 0x80 \<le> b \<and> b \<le> 0x8F
      else cont_byte b)"

definition byte_at :: "string \<Rightarrow> nat \<Rightarrow> nat" where
  "byte_at s i = (if i < length s then ord (s ! i) else 0)"

definition utf8_unit :: "string \<Rightarrow> bool \<times> nat" where
  "utf8_unit s =
     (let a = byte_at s 0
      in if a < 128 then (True, 1)
         else if 0xC2 \<le> a \<and> a \<le> 0xDF then
           (if cont_byte (byte_at s 1) then (True, 2) else (False, 1))
         else if 0xE0 \<le> a \<and> a \<le> 0xEF then
           (if \<not> second_of_3 a (byte_at s 1) then (False, 1)
            else if \<not> cont_byte (byte_at s 2) then (False, 2)
            else (True, 3))
         else if 0xF0 \<le> a \<and> a \<le> 0xF4 then
           (if \<not> second_of_4 a (byte_at s 1) then (False, 1)
            else if \<not> cont_byte (byte_at s 2) then (False, 2)
            else if \<not> cont_byte (byte_at s 3) then (False, 3)
            else (True, 4))
         else (False, 1))"

lemma utf8_unit_pos [simp]: "0 < snd (utf8_unit s)"
  by (simp add: utf8_unit_def Let_def)

definition replacement :: string where
  "replacement = [byte 0xEF, byte 0xBF, byte 0xBD]"

lemma drop_utf8_unit: "s \<noteq> [] \<Longrightarrow> length (drop (snd (utf8_unit s)) s) < length s"
  using utf8_unit_pos [of s] by (simp del: utf8_unit_pos)

function from_utf8_lossy :: "string \<Rightarrow> string" where
  "from_utf8_lossy s =
     (if s = [] then []
      else (let u = utf8_unit s
            in (if fst u then take (snd u) s else replacement) @ from_utf8_lossy (drop (snd u) s)))"
  by pat_completeness auto
termination
  by (relation "measure length") (simp_all add: drop_utf8_unit del: length_drop)

declare from_utf8_lossy.simps [simp del]

function valid_utf8 :: "string \<Rightarrow> bool" where
  "valid_utf8 s =
     (if s = [] then True
      else (let u = utf8_unit s in if fst u then valid_utf8 (drop (snd u) s) else False))"
  by pat_completeness auto
termination
  by (relation "measure length") (simp_all add: drop_utf8_unit del: length_drop)

declare valid_utf8.simps [simp del]

lemma from_utf8_lossy_valid: "valid_utf8 s \<Longrightarrow> from_utf8_lossy s = s"
proof (induction s rule: valid_utf8.induct)
  case (1 s)
  show ?case
  proof (cases "s = []")
    case True
    then show ?thesis by (simp add: from_utf8_lossy.simps [of "[]"])
  next
    case False
    with "1.prems" have v: "fst (utf8_unit s)" "valid_utf8 (drop (snd (utf8_unit s)) s)"
      by (simp_all add: valid_utf8.simps [of s] Let_def split: if_splits)
    from "1.IH" [OF False refl v] v(1) False show ?thesis
      by (simp add: from_utf8_lossy.simps [of s] Let_def)
  qed
qed

lemma valid_utf8_ascii: "(\<And>c. c \<in> set s \<Longrightarrow> is_ascii c) \<Longrightarrow> valid_utf8 s"
proof (induction s)
  case Nil
  then show ?case by (simp add: valid_utf8.simps [of "[]"])
next
  case (Cons c s)
  then have "utf8_unit (c # s) = (True, 1)"
    by (simp add: utf8_unit_def byte_at_def is_ascii_def)
  with Cons show ?case by (simp add: valid_utf8.simps [of "c # s"])
qed

end
