(* ===== verification/Interfaces.thy ===== *)
theory Interfaces
  imports Text
begin

text \<open>
  The contracts several components share, as locales: a text format with a writer and a
  reader (\<open>text_format\<close>), a bounded log that forgets its oldest entries
  (\<open>bounded_log\<close>), and a state machine with an invariant (\<open>guarded_machine\<close>). Each is
  interpreted on the definitions of the components that provide it.
\<close>

subsection \<open>A format with a writer and a reader\<close>

locale text_format =
  fixes render :: "'a \<Rightarrow> string"
    and parse :: "string \<Rightarrow> 'a option"
    and valid :: "'a \<Rightarrow> bool"
  assumes parse_render: "valid x \<Longrightarrow> parse (render x) = Some x"
begin

lemma render_inject:
  assumes "valid x" "valid y"
  shows "render x = render y \<longleftrightarrow> x = y"
  using parse_render [OF assms(1)] parse_render [OF assms(2)] by (metis option.inject)

lemma read_back: "valid x \<Longrightarrow> Option.bind (Some (render x)) parse = Some x"
  by (simp add: parse_render)

lemma inj_on_render: "inj_on render {x. valid x}"
  by (rule inj_onI) (simp add: render_inject)

end

subsection \<open>A bounded log\<close>

locale bounded_log =
  fixes push :: "'e \<Rightarrow> 'l \<Rightarrow> 'l"
    and contents :: "'l \<Rightarrow> 'a list"
    and items :: "'e \<Rightarrow> 'a list"
    and cap :: nat
    and invar :: "'l \<Rightarrow> bool"
  assumes invar_push: "invar l \<Longrightarrow> invar (push e l)"
    and invar_bound: "invar l \<Longrightarrow> length (contents l) \<le> cap"
    and contents_push:
      "invar l \<Longrightarrow> contents (push e l) = keep_last cap (contents l @ items e)"
begin

lemma invar_fold: "invar l \<Longrightarrow> invar (fold push es l)"
  by (induction es arbitrary: l) (auto intro: invar_push)

text \<open>After any pushes the log is the newest \<open>cap\<close> entries of all that was ever pushed.\<close>

lemma contents_fold:
  "invar l \<Longrightarrow> contents (fold push es l) = keep_last cap (contents l @ concat (map items es))"
proof (induction es arbitrary: l)
  case Nil
  then show ?case using invar_bound by (simp add: keep_last_id)
next
  case (Cons e es)
  then have "contents (fold push (e # es) l) =
      keep_last cap (contents (push e l) @ concat (map items es))"
    using invar_push by simp
  then show ?case
    using contents_push [OF Cons.prems, of e] by (simp add: keep_last_absorb)
qed

lemma contents_fold_small:
  assumes "invar l" "length (contents l @ concat (map items es)) \<le> cap"
  shows "contents (fold push es l) = contents l @ concat (map items es)"
  using assms contents_fold [OF assms(1), of es] by (simp add: keep_last_id)

lemma length_fold_bound: "invar l \<Longrightarrow> length (contents (fold push es l)) \<le> cap"
  by (rule invar_bound) (rule invar_fold)

end

subsection \<open>A deterministic machine with an invariant\<close>

locale guarded_machine =
  fixes step :: "'s \<Rightarrow> 'i \<Rightarrow> 's"
    and inv :: "'s \<Rightarrow> bool"
  assumes inv_step: "inv s \<Longrightarrow> inv (step s i)"
begin

lemma inv_run: "inv s \<Longrightarrow> inv (foldl step s is)"
  by (induction "is" arbitrary: s) (auto intro: inv_step)

lemma inv_prefix: "inv s \<Longrightarrow> inv (foldl step s (take n is))"
  by (rule inv_run)

end

end
