(* ===== verification/Boot_Selection.thy ===== *)
theory Boot_Selection
  imports Interfaces
begin

unbundle bit_operations_syntax

text \<open>
  \<open>src/boot_selection.rs\<close>: the \<open>boot-default\<close> and \<open>boot-once\<close> files, their format,
  the default they resolve to, and the one-use operator retry. A text file is the result
  of \<open>read_to_string\<close>: \<^const>\<open>None\<close> when it is missing, unreadable or not UTF-8.
  The retry marker is the view its descriptor gives (\<open>retry_marker\<close>).
\<close>

subsection \<open>Formats\<close>

record one_shot_selection =
  one_shot_generation :: nat

datatype default_selection = Latest | Generation nat

definition first_line :: "string \<Rightarrow> string option" where
  "first_line text = find (\<lambda>l. trim l \<noteq> []) (text_lines text)"

definition one_shot_render :: "one_shot_selection \<Rightarrow> string" where
  "one_shot_render s = ''generation '' @ dec (one_shot_generation s) @ [newline]"

definition one_shot_parse :: "string \<Rightarrow> one_shot_selection option" where
  "one_shot_parse text =
     Option.bind (first_line text) (\<lambda>line.
     Option.bind (strip_prefix ''generation '' (trim line)) (\<lambda>rest.
     Option.bind (parse_u32 (trim rest)) (\<lambda>n.
     Some \<lparr>one_shot_generation = n\<rparr>)))"

fun default_render :: "default_selection \<Rightarrow> string" where
  "default_render Latest = ''latest'' @ [newline]"
| "default_render (Generation n) = ''generation '' @ dec n @ [newline]"

definition default_parse :: "string \<Rightarrow> default_selection option" where
  "default_parse text =
     Option.bind (first_line text) (\<lambda>l.
     let line = trim l in
     if line = ''latest'' then Some Latest
     else Option.bind (strip_prefix ''generation '' line) (\<lambda>rest.
          Option.bind (parse_u32 (trim rest)) (\<lambda>n. Some (Generation n))))"

subsection \<open>The operator retry\<close>

record dir_meta =
  dir_is_dir :: bool
  dir_uid :: nat
  dir_mode :: nat

record file_meta =
  meta_is_file :: bool
  meta_uid :: nat
  meta_mode :: nat
  meta_nlink :: nat
  meta_len :: nat
  meta_text :: "string option"

datatype retry_marker = No_Marker | Marker_Unopenable | Marker file_meta

datatype retry_error =
    Retry_Open | Retry_Dir_Stat | Unsafe_Directory | Unsafe_Marker
  | Retry_Not_Text | Malformed_Marker | Retry_Remove | Retry_Sync | Not_Installed

definition safe_retry_dir :: "nat \<Rightarrow> dir_meta \<Rightarrow> bool" where
  "safe_retry_dir owner d \<longleftrightarrow>
     dir_is_dir d \<and> dir_uid d = owner \<and> (dir_mode d AND 18) = 0"

definition safe_retry_file :: "nat \<Rightarrow> file_meta \<Rightarrow> bool" where
  "safe_retry_file owner m \<longleftrightarrow>
     meta_is_file m \<and> meta_uid m = owner
     \<and> (meta_mode m AND 4095) \<in> {384, 448}
     \<and> meta_nlink m = 1 \<and> \<not> meta_len m > 64"

text \<open>
  \<open>removed\<close> and \<open>synced\<close> are the outcomes of deleting the marker and of syncing its
  directory. The second component is the marker that is left.
\<close>

definition take_retry_owned ::
  "dir_meta option \<Rightarrow> bool \<Rightarrow> bool \<Rightarrow> nat list \<Rightarrow> nat \<Rightarrow> retry_marker
   \<Rightarrow> (retry_error + nat option) \<times> retry_marker" where
  "take_retry_owned dir removed synced available owner marker =
     (case marker of
        No_Marker \<Rightarrow> (Inr None, marker)
      | Marker_Unopenable \<Rightarrow> (Inl Retry_Open, marker)
      | Marker m \<Rightarrow>
        (case dir of
           None \<Rightarrow> (Inl Retry_Dir_Stat, marker)
         | Some d \<Rightarrow>
           if \<not> safe_retry_dir owner d then (Inl Unsafe_Directory, marker)
           else if \<not> safe_retry_file owner m then (Inl Unsafe_Marker, marker)
           else
             (case meta_text m of
                None \<Rightarrow> (Inl Retry_Not_Text, marker)
              | Some text \<Rightarrow>
                (case one_shot_parse text of
                   None \<Rightarrow> (Inl Malformed_Marker, marker)
                 | Some sel \<Rightarrow>
                   if \<not> (one_shot_generation sel > 0 \<and> one_shot_generation sel < u32_max
                         \<and> one_shot_render sel = text)
                   then (Inl Malformed_Marker, marker)
                   else if \<not> removed then (Inl Retry_Remove, marker)
                   else if \<not> synced then (Inl Retry_Sync, No_Marker)
                   else if one_shot_generation sel \<notin> set available
                   then (Inl Not_Installed, No_Marker)
                   else (Inr (Some (one_shot_generation sel)), No_Marker)))))"

definition take_retry ::
  "dir_meta option \<Rightarrow> bool \<Rightarrow> bool \<Rightarrow> nat list \<Rightarrow> retry_marker
   \<Rightarrow> (retry_error + nat option) \<times> retry_marker" where
  "take_retry dir removed synced available marker =
     take_retry_owned dir removed synced available 0 marker"

subsection \<open>The remembered default\<close>

record selection_files =
  boot_once :: "string option"
  boot_default :: "string option"

definition read_one_shot :: "selection_files \<Rightarrow> one_shot_selection option" where
  "read_one_shot d = Option.bind (boot_once d) one_shot_parse"

definition read_default :: "selection_files \<Rightarrow> default_selection option" where
  "read_default d = Option.bind (boot_default d) default_parse"

text \<open>\<open>removable\<close>: whether deleting the file succeeds; a failure is only logged.\<close>

definition consume_one_shot :: "bool \<Rightarrow> selection_files \<Rightarrow> selection_files" where
  "consume_one_shot removable d = (if removable then d\<lparr>boot_once := None\<rparr> else d)"

definition max_number :: "nat list \<Rightarrow> nat option" where
  "max_number xs = (if xs = [] then None else Some (Max (set xs)))"

definition resolve_default_number :: "selection_files \<Rightarrow> nat list \<Rightarrow> nat \<Rightarrow> nat" where
  "resolve_default_number d available fallback =
     (case Option.bind (read_one_shot d)
             (\<lambda>one. if one_shot_generation one \<in> set available
                    then Some (one_shot_generation one) else None) of
        Some n \<Rightarrow> n
      | None \<Rightarrow>
          (case read_default d of
             Some Latest \<Rightarrow> (case max_number available of None \<Rightarrow> fallback | Some n \<Rightarrow> n)
           | Some (Generation n) \<Rightarrow> if n \<in> set available then n else fallback
           | None \<Rightarrow> fallback))"

subsection \<open>The formats read back what they write\<close>

lemma graphic_letters [simp]:
  "is_graphic (CHR ''g'')" "is_graphic (CHR ''l'')" "is_graphic (CHR ''t'')"
  by (simp_all add: is_graphic_def ord_def)

lemma newline_not_graphic: "is_graphic c \<Longrightarrow> c \<noteq> newline \<and> c \<noteq> carriage_return \<and> c \<noteq> CHR '' ''"
  by (auto simp: is_graphic_def newline_def carriage_return_def) (auto simp: ord_def)

lemma newline_notin_dec: "newline \<notin> set (dec n)"
  using dec_graphic newline_not_graphic by blast

lemma last_dec_graphic: "is_graphic (last (dec n))"
  using dec_not_Nil [of n] by (blast intro: dec_graphic last_in_set)

lemma generation_line:
  "newline \<notin> set (''generation '' @ dec n)"
  "trim (''generation '' @ dec n) = ''generation '' @ dec n"
  "last (CHR ''x'' # ''generation '' @ dec n) \<noteq> carriage_return"
proof -
  show "newline \<notin> set (''generation '' @ dec n)"
    using newline_notin_dec [of n] by (simp add: newline_def)
  show "trim (''generation '' @ dec n) = ''generation '' @ dec n"
    by (rule trim_graphic) (use last_dec_graphic [of n] in simp_all)
  show "last (CHR ''x'' # ''generation '' @ dec n) \<noteq> carriage_return"
    using last_dec_graphic [of n] newline_not_graphic by (auto split: if_splits)
qed

lemma first_line_generation: "first_line (''generation '' @ dec n @ [newline]) = Some (''generation '' @ dec n)"
  using text_lines_single [OF generation_line(1,3), of n] generation_line(2) [of n]
  by (simp add: first_line_def)

lemma one_shot_parse_render:
  assumes "one_shot_generation s \<le> u32_max"
  shows "one_shot_parse (one_shot_render s) = Some s"
proof -
  have "one_shot_parse (one_shot_render s) =
      Option.bind (strip_prefix ''generation '' (''generation '' @ dec (one_shot_generation s)))
        (\<lambda>rest. Option.bind (parse_u32 (trim rest)) (\<lambda>n. Some \<lparr>one_shot_generation = n\<rparr>))"
    unfolding one_shot_parse_def one_shot_render_def first_line_generation
    by (simp only: Option.bind.simps generation_line(2))
  then show ?thesis
    using assms by (simp only: strip_prefix_append Option.bind.simps trim_dec parse_uint_dec) simp
qed

lemma trim_latest: "trim ''latest'' = ''latest''"
  by (rule trim_graphic) simp_all

lemma first_line_latest: "first_line (''latest'' @ [newline]) = Some ''latest''"
proof -
  have "newline \<notin> set ''latest''" by (simp add: newline_def)
  moreover have "last (CHR ''x'' # ''latest'') \<noteq> carriage_return"
    using newline_not_graphic [of "CHR ''t''"] by simp
  ultimately have "text_lines (''latest'' @ [newline]) = [''latest'']"
    by (rule text_lines_single)
  then show ?thesis by (simp only: first_line_def find.simps trim_latest) simp
qed

lemma default_parse_render:
  assumes "\<And>n. s = Generation n \<Longrightarrow> n \<le> u32_max"
  shows "default_parse (default_render s) = Some s"
proof (cases s)
  case Latest
  then show ?thesis
    by (simp only: default_render.simps default_parse_def first_line_latest Option.bind.simps
        trim_latest Let_def simp_thms if_True)
next
  case (Generation n)
  have "''generation '' @ dec n \<noteq> ''latest''" by simp
  with Generation assms show ?thesis
    by (simp only: default_render.simps default_parse_def first_line_generation Option.bind.simps
        generation_line(2) Let_def if_False strip_prefix_append trim_dec parse_uint_dec)
qed

interpretation one_shot: text_format one_shot_render one_shot_parse
  "\<lambda>s. one_shot_generation s \<le> u32_max"
  by unfold_locales (rule one_shot_parse_render)

interpretation default_sel: text_format default_render default_parse
  "\<lambda>s. \<forall>n. s = Generation n \<longrightarrow> n \<le> u32_max"
  by unfold_locales (simp add: default_parse_render)

subsection \<open>Properties\<close>

lemmas retry_simps = take_retry_def take_retry_owned_def

text \<open>An operator retry is used at most once. When a call authorises generation \<open>n\<close>,
  the marker was a safe root-owned file naming exactly \<open>n\<close>, \<open>n\<close> is installed, the
  marker is gone, and a second call finds nothing.\<close>

theorem take_retry_once:
  assumes "take_retry dir removed synced available marker = (Inr (Some n), marker')"
  shows "n \<in> set available \<and> 0 < n \<and> n < u32_max \<and> marker' = No_Marker
    \<and> (\<exists>m d. marker = Marker m \<and> dir = Some d \<and> safe_retry_dir 0 d \<and> safe_retry_file 0 m
          \<and> meta_text m = Some (''generation '' @ dec n @ [newline]))
    \<and> take_retry dir' removed' synced' available' marker' = (Inr None, marker')"
  using assms
  by (auto simp: retry_simps one_shot_render_def split: retry_marker.splits option.splits if_splits)

definition demo_marker :: file_meta where
  "demo_marker = \<lparr>meta_is_file = True, meta_uid = 0, meta_mode = 33152, meta_nlink = 1,
     meta_len = 14, meta_text = Some (one_shot_render \<lparr>one_shot_generation = 42\<rparr>)\<rparr>"

definition demo_dir :: dir_meta where
  "demo_dir = \<lparr>dir_is_dir = True, dir_uid = 0, dir_mode = 16832\<rparr>"

theorem take_retry_once_witness:
  "take_retry (Some demo_dir) True True [41, 42] (Marker demo_marker) = (Inr (Some 42), No_Marker)
   \<and> (42::nat) \<in> set [41, 42]"
proof -
  have parse: "one_shot_parse (one_shot_render \<lparr>one_shot_generation = 42\<rparr>)
      = Some \<lparr>one_shot_generation = 42\<rparr>"
    by (rule one_shot_parse_render) (simp add: u32_max_def)
  have "take_retry (Some demo_dir) True True [41, 42] (Marker demo_marker)
      = (Inr (Some 42), No_Marker)"
    by (simp add: retry_simps demo_marker_def demo_dir_def parse safe_retry_dir_def
        safe_retry_file_def u32_max_def)
  with take_retry_once [OF this] show ?thesis by simp
qed

lemma max_number_SomeD: "max_number xs = Some n \<Longrightarrow> n \<in> set xs \<and> (\<forall>m\<in>set xs. m \<le> n)"
  by (auto simp: max_number_def split: if_splits intro: Max_in)

text \<open>The resolved default is an installed generation or the fallback, whatever the two
  files hold; an installed one-shot wins, then the persistent default, and \<open>latest\<close> is the
  greatest installed number.\<close>

theorem resolve_default_number_spec:
  "let r = resolve_default_number d available fallback in
   (r \<in> set available \<or> r = fallback)
   \<and> (\<forall>n. read_one_shot d = Some \<lparr>one_shot_generation = n\<rparr> \<and> n \<in> set available \<longrightarrow> r = n)
   \<and> (read_one_shot d = None \<and> read_default d = Some Latest \<and> available \<noteq> []
        \<longrightarrow> r = Max (set available))
   \<and> (\<forall>n. read_one_shot d = None \<and> read_default d = Some (Generation n)
        \<longrightarrow> r = (if n \<in> set available then n else fallback))
   \<and> (read_one_shot d = None \<and> read_default d = None \<longrightarrow> r = fallback)"
  by (auto simp: resolve_default_number_def Let_def max_number_def
      split: option.splits default_selection.splits bind_splits intro: Max_in)

definition demo_files :: selection_files where
  "demo_files = \<lparr>boot_once = Some (one_shot_render \<lparr>one_shot_generation = 7\<rparr>),
                boot_default = Some (default_render Latest)\<rparr>"

theorem resolve_default_number_spec_witness:
  "resolve_default_number demo_files [7, 9] 1 = 7"
proof -
  have "read_one_shot demo_files = Some \<lparr>one_shot_generation = 7\<rparr>"
    by (simp add: read_one_shot_def demo_files_def one_shot_parse_render u32_max_def)
  then show ?thesis
    using resolve_default_number_spec [of demo_files "[7, 9]" 1] by (simp add: Let_def)
qed

text \<open>What \<open>nmblctl\<close> renders into the two files, the boot selector parses back, and a
  one-shot that was consumed no longer selects anything.\<close>

theorem selection_files_round_trip:
  assumes "one_shot_generation s \<le> u32_max" "\<And>n. sel = Generation n \<Longrightarrow> n \<le> u32_max"
  shows "read_one_shot (d\<lparr>boot_once := Some (one_shot_render s)\<rparr>) = Some s
    \<and> read_default (d\<lparr>boot_default := Some (default_render sel)\<rparr>) = Some sel
    \<and> read_one_shot (consume_one_shot True d) = None"
  using one_shot.read_back [of s] default_sel.read_back [of sel] assms
  by (auto simp: read_one_shot_def read_default_def consume_one_shot_def)

theorem selection_files_round_trip_witness:
  "read_one_shot (demo_files\<lparr>boot_once := Some (one_shot_render \<lparr>one_shot_generation = 5\<rparr>)\<rparr>)
     = Some \<lparr>one_shot_generation = 5\<rparr>"
  using selection_files_round_trip [of "\<lparr>one_shot_generation = 5\<rparr>" Latest demo_files]
  by (simp add: u32_max_def)

text \<open>The one-shot parser reads the first non-blank line only, so a body with more lines
  is accepted, although its documentation says that anything but one line is refused.\<close>

theorem one_shot_parse_ignores_rest:
  assumes "n \<le> u32_max"
  shows "one_shot_parse (''generation '' @ dec n @ newline # rest) = Some \<lparr>one_shot_generation = n\<rparr>"
proof -
  let ?line = "''generation '' @ dec n"
  have eq: "''generation '' @ dec n @ newline # rest = ?line @ newline # rest" by simp
  have "split_on newline (?line @ newline # rest) = ?line # split_on newline rest"
    by (rule split_on_append [OF generation_line(1)])
  moreover have "last ?line \<noteq> carriage_return"
    using last_dec_graphic [of n] newline_not_graphic by simp
  then have "strip_cr ?line = ?line" by (rule strip_cr_id)
  ultimately have "\<exists>ls. text_lines (?line @ newline # rest) = ?line # ls"
    by (auto simp: text_lines_def Let_def)
  then have first: "first_line (''generation '' @ dec n @ newline # rest) = Some ?line"
    unfolding eq first_line_def by (elim exE) (simp add: generation_line(2) del: append.simps)
  show ?thesis
    unfolding one_shot_parse_def first
    by (simp only: Option.bind.simps generation_line(2) strip_prefix_append trim_dec
        parse_uint_dec [OF assms])
qed

theorem one_shot_parse_ignores_rest_witness:
  "one_shot_parse (''generation '' @ dec 5 @ newline # ''garbage'') = Some \<lparr>one_shot_generation = 5\<rparr>"
  by (rule one_shot_parse_ignores_rest) (simp add: u32_max_def)

end
