(* ===== verification/Fs_Path.thy ===== *)
theory Fs_Path
  imports Text
begin

text \<open>
  \<open>std::path\<close> on Unix: a path is its byte string, read as the components
  between slashes. Empty components and inner dots disappear, as
  \<open>Path::components\<close> specifies. What the operating system answers is never
  computed here; the components take it as a record of functions.
\<close>

datatype path_component = RootDir | CurDir | ParentDir | Normal string

definition slash :: char where
  "slash = CHR ''/''"

definition is_absolute :: "string \<Rightarrow> bool" where
  "is_absolute p \<longleftrightarrow> (\<exists>q. p = slash # q)"

lemma is_absolute_simps [simp, code]:
  "is_absolute [] \<longleftrightarrow> False"
  "is_absolute (c # p) \<longleftrightarrow> c = slash"
  by (auto simp: is_absolute_def)

definition part_component :: "string \<Rightarrow> path_component list" where
  "part_component s =
     (if s = [] \<or> s = ''.'' then [] else if s = ''..'' then [ParentDir] else [Normal s])"

definition components :: "string \<Rightarrow> path_component list" where
  "components p =
     (let ps = split_on slash p
      in if is_absolute p then RootDir # concat (map part_component ps)
         else (if hd ps = ''.'' then [CurDir] else []) @ concat (map part_component ps))"

fun component_text :: "path_component \<Rightarrow> string" where
  "component_text RootDir = ''''"
| "component_text CurDir = ''.''"
| "component_text ParentDir = ''..''"
| "component_text (Normal s) = s"

text \<open>The path of a component list, as \<open>Components::as_path\<close> gives it up to separators.\<close>

definition path_of :: "path_component list \<Rightarrow> string" where
  "path_of cs =
     (if cs = [RootDir] then [slash] else join [slash] (map component_text cs))"

definition parent :: "string \<Rightarrow> string option" where
  "parent p =
     (let cs = components p
      in if cs = [] \<or> last cs = RootDir then None else Some (path_of (butlast cs)))"

definition file_name :: "string \<Rightarrow> string option" where
  "file_name p =
     (let cs = components p
      in if cs = [] then None else (case last cs of Normal s \<Rightarrow> Some s | _ \<Rightarrow> None))"

text \<open>\<open>Path::join\<close>: an absolute right side replaces the left one.\<close>

definition path_join :: "string \<Rightarrow> string \<Rightarrow> string" where
  "path_join p q =
     (if is_absolute q then q
      else if p = [] \<or> last p = slash then p @ q
      else p @ slash # q)"

text \<open>\<open>strip_prefix("/")\<close> of an absolute path: the components after the root.\<close>

definition strip_root :: "string \<Rightarrow> string" where
  "strip_root p = path_of (filter (\<lambda>c. c \<noteq> RootDir) (components p))"

lemma path_join_relative:
  "\<not> is_absolute q \<Longrightarrow> p \<noteq> [] \<Longrightarrow> last p \<noteq> slash \<Longrightarrow> path_join p q = p @ slash # q"
  by (simp add: path_join_def)

lemma path_join_absolute: "is_absolute q \<Longrightarrow> path_join p q = q"
  by (simp add: path_join_def)

lemma components_Normal_part:
  "s \<noteq> [] \<Longrightarrow> s \<noteq> ''.'' \<Longrightarrow> s \<noteq> ''..'' \<Longrightarrow> slash \<notin> set s \<Longrightarrow> components s = [Normal s]"
  by (cases s) (auto simp: components_def part_component_def split_on_notin)

lemma Normal_in_components: "Normal s \<in> set (components p) \<Longrightarrow> slash \<notin> set s \<and> s \<noteq> [] \<and> s \<noteq> ''..''"
  by (auto simp: components_def part_component_def Let_def
      split: if_splits dest: split_on_parts)

lemma single_Normal_component:
  assumes "components p = [Normal s]" "\<not> is_absolute p"
  shows "slash \<notin> set s" "s \<noteq> []" "s \<noteq> ''.''" "s \<noteq> ''..''"
proof -
  have "Normal s \<in> set (components p)" by (simp add: assms(1))
  then show "slash \<notin> set s" "s \<noteq> []" "s \<noteq> ''..''"
    by (auto dest: Normal_in_components)
  from \<open>Normal s \<in> set (components p)\<close> show "s \<noteq> ''.''"
    by (auto simp: components_def part_component_def Let_def split: if_splits)
qed

end
