(* ===== verification/Generations.thy ===== *)
theory Generations
  imports Fs_Path
begin

text \<open>
  \<open>src/generations\<close>: the scan of \<open>system-<N>-link\<close> profile links
  (\<open>scan.rs\<close>), the mount-aware resolution of their targets (\<open>resolve.rs\<close>), and
  the classification of an empty scan (\<open>readiness.rs\<close>). The file system is the
  record \<open>profile_fs\<close> of what the operating system answers; a failed
  call is \<^const>\<open>None\<close>.
\<close>

record generation =
  number :: nat
  profile_link :: string
  toplevel :: string
  kernel :: string
  initrd :: string
  init_path :: string
  kernel_params :: "string list"
  gen_label :: string

datatype file_kind = Is_Symlink | Is_Other

record profile_fs =
  read_dir :: "string \<Rightarrow> string option list option"
  symlink_metadata :: "string \<Rightarrow> file_kind option"
  read_link :: "string \<Rightarrow> string option"
  read_to_string :: "string \<Rightarrow> string option"
  try_exists :: "string \<Rightarrow> bool option"
  stat_dev :: "string \<Rightarrow> nat option"

datatype scan_error =
    SystemRootNotMounted string
  | ProfilesDirMissing string string
  | NoGenerations string

subsection \<open>Path resolution\<close>

definition mount_aware_resolve :: "profile_fs \<Rightarrow> string \<Rightarrow> string \<Rightarrow> string option" where
  "mount_aware_resolve fs path mount_prefix =
     (case symlink_metadata fs path of
        None \<Rightarrow> None
      | Some Is_Other \<Rightarrow> Some path
      | Some Is_Symlink \<Rightarrow>
          (case read_link fs path of
             None \<Rightarrow> None
           | Some target \<Rightarrow>
               if is_absolute target then Some (path_join mount_prefix (strip_root target))
               else Some (path_join (case parent path of None \<Rightarrow> ''/'' | Some d \<Rightarrow> d) target)))"

text \<open>\<open>split_ascii_whitespace\<close>: blank, tab, line feed, form feed, carriage return.\<close>

definition is_ascii_ws :: "char \<Rightarrow> bool" where
  "is_ascii_ws c \<longleftrightarrow> ord c \<in> {9, 10, 12, 13, 32}"

fun ascii_words :: "string \<Rightarrow> string \<Rightarrow> string list" where
  "ascii_words acc [] = (if acc = [] then [] else [acc])"
| "ascii_words acc (c # s) =
     (if is_ascii_ws c
      then (if acc = [] then ascii_words [] s else acc # ascii_words [] s)
      else ascii_words (acc @ [c]) s)"

definition split_ascii_whitespace :: "string \<Rightarrow> string list" where
  "split_ascii_whitespace s = ascii_words [] s"

definition read_kernel_params :: "profile_fs \<Rightarrow> string \<Rightarrow> string list" where
  "read_kernel_params fs tlv =
     (case read_to_string fs (path_join tlv ''kernel-params'') of
        Some text \<Rightarrow> split_ascii_whitespace text
      | None \<Rightarrow> [])"

definition read_label :: "profile_fs \<Rightarrow> string \<Rightarrow> string" where
  "read_label fs tlv =
     (case read_to_string fs (path_join tlv ''nixos-version'') of
        Some text \<Rightarrow> trim text
      | None \<Rightarrow> [])"

definition resolve_kernel_initrd :: "profile_fs \<Rightarrow> string \<Rightarrow> string \<Rightarrow> (string \<times> string) option" where
  "resolve_kernel_initrd fs tlv mount_prefix =
     (case mount_aware_resolve fs (path_join tlv ''kernel'') mount_prefix of
        None \<Rightarrow> None
      | Some k \<Rightarrow>
          (case mount_aware_resolve fs (path_join tlv ''initrd'') mount_prefix of
             None \<Rightarrow> None
           | Some i \<Rightarrow> Some (k, i)))"

definition resolve_init_path :: "profile_fs \<Rightarrow> string \<Rightarrow> string \<Rightarrow> string option" where
  "resolve_init_path fs link tlv =
     (case symlink_metadata fs (path_join tlv ''init'') of
        None \<Rightarrow> None
      | Some _ \<Rightarrow> Some (path_join link ''init''))"

subsection \<open>Why a scan found nothing\<close>

definition is_mountpoint :: "profile_fs \<Rightarrow> string \<Rightarrow> bool" where
  "is_mountpoint fs path =
     (case stat_dev fs path of
        None \<Rightarrow> False
      | Some here \<Rightarrow>
          (case parent path of
             None \<Rightarrow> True
           | Some up \<Rightarrow>
               (case stat_dev fs (if up = [] then ''.'' else up) of
                  Some d \<Rightarrow> here \<noteq> d
                | None \<Rightarrow> False)))"

definition classify_scan_failure :: "profile_fs \<Rightarrow> string \<Rightarrow> string \<Rightarrow> bool \<Rightarrow> scan_error" where
  "classify_scan_failure fs profiles_dir mountpoint mounted =
     (let dir_present = (case try_exists fs profiles_dir of None \<Rightarrow> False | Some b \<Rightarrow> b)
      in if dir_present then NoGenerations profiles_dir
         else if mounted then ProfilesDirMissing profiles_dir mountpoint
         else SystemRootNotMounted mountpoint)"

definition classify_scan_failure_live :: "profile_fs \<Rightarrow> string \<Rightarrow> string \<Rightarrow> scan_error" where
  "classify_scan_failure_live fs profiles_dir mountpoint =
     classify_scan_failure fs profiles_dir mountpoint (is_mountpoint fs mountpoint)"

subsection \<open>The scan\<close>

definition parse_generation_number :: "string \<Rightarrow> nat option" where
  "parse_generation_number name =
     Option.bind (strip_prefix ''system-'' name)
       (\<lambda>r. Option.bind (strip_suffix ''-link'' r) parse_u32)"

definition scan_entry :: "profile_fs \<Rightarrow> string \<Rightarrow> string \<Rightarrow> string option \<Rightarrow> generation option" where
  "scan_entry fs dir mount_prefix name_os =
     (case name_os of None \<Rightarrow> None | Some name \<Rightarrow>
     (case parse_generation_number name of None \<Rightarrow> None | Some n \<Rightarrow>
      let link = path_join dir name in
     (case mount_aware_resolve fs link mount_prefix of None \<Rightarrow> None | Some tlv \<Rightarrow>
     (case resolve_kernel_initrd fs tlv mount_prefix of None \<Rightarrow> None | Some (k, i) \<Rightarrow>
     (case resolve_init_path fs link tlv of None \<Rightarrow> None | Some init \<Rightarrow>
      Some \<lparr>number = n, profile_link = link, toplevel = tlv, kernel = k, initrd = i,
            init_path = init, kernel_params = read_kernel_params fs tlv,
            gen_label = read_label fs tlv\<rparr>)))))"

definition newest_first :: "generation list \<Rightarrow> generation list" where
  "newest_first gs = sort_key (\<lambda>g. - int (number g)) gs"

definition scan_generations ::
  "profile_fs \<Rightarrow> string \<Rightarrow> string \<Rightarrow> scan_error + generation list" where
  "scan_generations fs dir mount_prefix =
     (case read_dir fs dir of
        None \<Rightarrow> Inl (classify_scan_failure_live fs dir mount_prefix)
      | Some entries \<Rightarrow>
          (let gs = List.map_filter (scan_entry fs dir mount_prefix) entries
           in if gs = [] then Inl (classify_scan_failure_live fs dir mount_prefix)
              else Inr (newest_first gs)))"

definition active_profile_generation :: "profile_fs \<Rightarrow> string \<Rightarrow> nat option" where
  "active_profile_generation fs profiles_dir =
     Option.bind (read_link fs (path_join profiles_dir ''system''))
       (\<lambda>target. Option.bind (file_name target) parse_generation_number)"

definition profile_generation_system :: "profile_fs \<Rightarrow> string \<Rightarrow> nat \<Rightarrow> string option" where
  "profile_generation_system fs profiles_dir n =
     read_link fs (path_join profiles_dir (''system-'' @ dec n @ ''-link''))"

definition active_generation_index :: "profile_fs \<Rightarrow> generation list \<Rightarrow> string \<Rightarrow> nat" where
  "active_generation_index fs gens profiles_dir =
     (case active_profile_generation fs profiles_dir of
        None \<Rightarrow> 0
      | Some n \<Rightarrow>
          (case position (\<lambda>g. number g = n) gens of
             Some idx \<Rightarrow> idx
           | None \<Rightarrow> 0))"

subsection \<open>Lemmas\<close>

definition newest_first_sorted :: "generation list \<Rightarrow> bool" where
  "newest_first_sorted gs \<longleftrightarrow> sorted_wrt (\<lambda>a b. number b \<le> number a) gs"

lemma newest_first_sorted [simp]: "newest_first_sorted (newest_first gs)"
proof -
  have "sorted (map (\<lambda>g. - int (number g)) (newest_first gs))"
    by (simp add: newest_first_def)
  then show ?thesis
    by (simp add: newest_first_sorted_def sorted_wrt_map)
qed

lemma set_newest_first [simp]: "set (newest_first gs) = set gs"
  by (simp add: newest_first_def)

lemma newest_first_Nil_iff [simp]: "newest_first gs = [] \<longleftrightarrow> gs = []"
  by (metis set_empty set_newest_first)

lemma parse_generation_number_link:
  "n \<le> u32_max \<Longrightarrow> parse_generation_number (''system-'' @ dec n @ ''-link'') = Some n"
  using strip_prefix_append [of "''system-''" "dec n @ ''-link''"]
  by (simp only: parse_generation_number_def Option.bind.simps strip_suffix_append parse_uint_dec)

lemma parse_generation_number_le: "parse_generation_number s = Some n \<Longrightarrow> n \<le> u32_max"
  by (auto simp: parse_generation_number_def bind_eq_Some_conv dest: parse_uint_le)

lemma scan_entry_SomeD:
  assumes "scan_entry fs dir mp e = Some g"
  shows "\<exists>name. e = Some name \<and> parse_generation_number name = Some (number g)
           \<and> profile_link g = path_join dir name
           \<and> init_path g = path_join (path_join dir name) ''init''"
  using assms
  by (auto simp: scan_entry_def resolve_init_path_def Let_def split: option.splits prod.splits)

lemma scan_generations_InrD:
  assumes "scan_generations fs dir mp = Inr gs"
  obtains entries where
    "read_dir fs dir = Some entries" "gs \<noteq> []"
    "gs = newest_first (List.map_filter (scan_entry fs dir mp) entries)"
  using assms by (auto simp: scan_generations_def Let_def split: option.splits if_splits)

lemma active_generation_index_less:
  "gens \<noteq> [] \<Longrightarrow> active_generation_index fs gens dir < length gens"
  by (auto simp: active_generation_index_def split: option.splits dest: position_SomeD)

end
