(* ===== verification/Boot_State.thy ===== *)
theory Boot_State
  imports Generations
begin

text \<open>
  \<open>src/state\<close>: the persistent boot state (\<open>types.rs\<close>) and the rollback decision
  (\<open>decide.rs\<close>). A generation number is a \<open>u32\<close>; an \<open>Option<NonMaxU32>\<close> is a
  \<^typ>\<open>nat option\<close> whose value stays below \<^const>\<open>u32_max\<close>, which
  \<open>state_ok\<close> records together with the ring's length and the distinctness of
  its entries. \<open>decide\<close> mutates the state, so it returns the new one.
\<close>

subsection \<open>The state\<close>

definition KNOWN_VERSION :: nat where
  "KNOWN_VERSION = 1"

definition FILE_SIZE :: nat where
  "FILE_SIZE = 16 * 1024"

definition RING_LEN :: nat where
  "RING_LEN = 20"

record boot_state =
  state_format_version :: nat
  last_attempted_generation :: "nat option"
  last_boot_succeeded :: bool
  recovery_attempt :: nat
  rescue_booted_generation :: "nat option"
  rescue_exit_retry_in_progress :: bool
  known_good_generations :: "nat option list"
  unproven_generation :: "nat option"
  unproven_failed :: bool
  unproven_system :: "string option"

definition default_known_good :: "nat option list" where
  "default_known_good = replicate RING_LEN None"

definition default_state :: boot_state where
  "default_state =
     \<lparr>state_format_version = KNOWN_VERSION,
      last_attempted_generation = None,
      last_boot_succeeded = True,
      recovery_attempt = 0,
      rescue_booted_generation = None,
      rescue_exit_retry_in_progress = False,
      known_good_generations = default_known_good,
      unproven_generation = None,
      unproven_failed = False,
      unproven_system = None\<rparr>"

datatype stateful_decision = HonourTui | ForcePick nat | Exhausted

subsection \<open>The ring of known-good generations\<close>

text \<open>\<open>for i in (1..=n).rev() { ring[i] = ring[i - 1] }\<close>\<close>

fun shift_right :: "nat \<Rightarrow> 'a list \<Rightarrow> 'a list" where
  "shift_right 0 xs = xs"
| "shift_right (Suc i) xs = shift_right i (xs[Suc i := xs ! i])"

definition rotate_known_good :: "boot_state \<Rightarrow> generation list \<Rightarrow> nat \<Rightarrow> boot_state" where
  "rotate_known_good st gens active_index =
     (case last_attempted_generation st of
        None \<Rightarrow> st
      | Some n \<Rightarrow>
          if \<exists>g\<in>set gens. number g = n then
            (let ring = known_good_generations st in
             case position (\<lambda>slot. slot = Some n) ring of
               None \<Rightarrow>
                 st\<lparr>known_good_generations := (shift_right (length ring - 1) ring)[0 := Some n]\<rparr>
             | Some pos \<Rightarrow>
                 (let active_n = map_option number (get_at gens active_index) in
                  if Some n = active_n \<and> pos > 0
                  then st\<lparr>known_good_generations := (shift_right pos ring)[0 := ring ! pos]\<rparr>
                  else st))
          else st)"

subsection \<open>The decision\<close>

definition avoid_failed_unproven :: "boot_state \<Rightarrow> generation list \<Rightarrow> nat \<Rightarrow> stateful_decision" where
  "avoid_failed_unproven st gens active_index =
     (case unproven_generation st of
        None \<Rightarrow> HonourTui
      | Some unproven \<Rightarrow>
          if \<not> unproven_failed st then HonourTui
          else if map_option number (get_at gens active_index) \<noteq> Some unproven then HonourTui
          else
            (case find_map
                 (\<lambda>n. if n \<noteq> unproven then position (\<lambda>g. number g = n) gens else None)
                 (flatten (known_good_generations st)) of
               Some idx \<Rightarrow> ForcePick idx
             | None \<Rightarrow> HonourTui))"

definition ring_pick :: "boot_state \<Rightarrow> generation list \<Rightarrow> nat option" where
  "ring_pick st gens =
     (case get_at (known_good_generations st) (recovery_attempt st) of
        Some (Some n) \<Rightarrow>
          if Some n \<noteq> unproven_generation st then position (\<lambda>g. number g = n) gens else None
      | _ \<Rightarrow> None)"

definition skip_fallback :: "boot_state \<Rightarrow> nat \<Rightarrow> bool" where
  "skip_fallback st n \<longleftrightarrow>
     Some n \<in> set (known_good_generations st)
     \<or> last_attempted_generation st = Some n
     \<or> unproven_generation st = Some n"

definition pick_fallback :: "boot_state \<Rightarrow> generation list \<Rightarrow> nat \<Rightarrow> nat option" where
  "pick_fallback st gens active_index =
     (case ring_pick st gens of
        Some i \<Rightarrow> Some i
      | None \<Rightarrow>
          find_map (\<lambda>(idx, g). if skip_fallback st (number g) then None else Some idx)
            (drop (active_index + 1) (zip [0..<length gens] gens)))"

definition decide ::
  "boot_state \<Rightarrow> generation list \<Rightarrow> nat \<Rightarrow> nat \<Rightarrow> boot_state \<times> stateful_decision" where
  "decide st gens active_index max_recovery_attempts =
     (if last_boot_succeeded st then
        (let st1 = (rotate_known_good st gens active_index)\<lparr>recovery_attempt := 0\<rparr>
         in (st1, avoid_failed_unproven st1 gens active_index))
      else if rescue_exit_retry_in_progress st then (st, Exhausted)
      else if last_attempted_generation st = None then (st, HonourTui)
      else if max_recovery_attempts \<le> recovery_attempt st then (st, Exhausted)
      else
        (let st1 = (if unproven_generation st \<noteq> None
                       \<and> last_attempted_generation st = unproven_generation st
                    then st\<lparr>unproven_failed := True\<rparr> else st)
         in case pick_fallback st1 gens active_index of
              Some idx \<Rightarrow>
                (st1\<lparr>recovery_attempt := sat_add u32_max (recovery_attempt st1) 1\<rparr>, ForcePick idx)
            | None \<Rightarrow> (st1, Exhausted)))"

definition record_operator_retry ::
  "boot_state \<Rightarrow> generation list \<Rightarrow> nat \<Rightarrow> boot_state \<times> nat option" where
  "record_operator_retry st gens n =
     (case (if n > 0 then nonmax_new n else None) of
        None \<Rightarrow> (st, None)
      | Some generation \<Rightarrow>
          (case position (\<lambda>g. number g = n) gens of
             None \<Rightarrow> (st, None)
           | Some index \<Rightarrow>
               (st\<lparr>rescue_booted_generation := None,
                   rescue_exit_retry_in_progress := False,
                   last_attempted_generation := Some generation,
                   last_boot_succeeded := False\<rparr>, Some index)))"

definition active_is_unproven :: "boot_state \<Rightarrow> nat option \<Rightarrow> bool" where
  "active_is_unproven st active_profile =
     (case unproven_generation st of
        None \<Rightarrow> False
      | Some unproven \<Rightarrow> (case active_profile of None \<Rightarrow> True | Some n \<Rightarrow> n = unproven))"

subsection \<open>The shift loop against its specification\<close>

lemma length_shift_right [simp]: "length (shift_right n xs) = length xs"
  by (induction n xs rule: shift_right.induct) auto

lemma nth_shift_right:
  "n < length xs \<Longrightarrow> i < length xs \<Longrightarrow>
   shift_right n xs ! i = (if 1 \<le> i \<and> i \<le> n then xs ! (i - 1) else xs ! i)"
proof (induction n xs arbitrary: i rule: shift_right.induct)
  case (1 xs)
  then show ?case by simp
next
  case (2 n xs)
  then show ?case by (cases "i = Suc n") (auto simp: nth_list_update)
qed

lemma shift_right_insert:
  assumes "n < length xs"
  shows "(shift_right n xs)[0 := y] = y # take n xs @ drop (Suc n) xs"
proof (rule nth_equalityI)
  show "length ((shift_right n xs)[0 := y]) = length (y # take n xs @ drop (Suc n) xs)"
    using assms by simp
next
  fix i
  assume i: "i < length ((shift_right n xs)[0 := y])"
  show "(shift_right n xs)[0 := y] ! i = (y # take n xs @ drop (Suc n) xs) ! i"
  proof (cases i)
    case 0
    then show ?thesis using i by simp
  next
    case (Suc j)
    then have "i < length xs" using i by simp
    with assms Suc nth_shift_right [OF assms, of i]
    have "(shift_right n xs)[0 := y] ! i = (if i \<le> n then xs ! j else xs ! i)" by simp
    moreover have "(take n xs @ drop (Suc n) xs) ! j = (if j < n then xs ! j else xs ! Suc j)"
      using assms \<open>i < length xs\<close> Suc by (auto simp: nth_append)
    ultimately show ?thesis using Suc by simp
  qed
qed

text \<open>Move-to-front on the ring: what the two loops of \<open>rotate_known_good\<close> compute.\<close>

definition ring_push_front :: "nat \<Rightarrow> nat option list \<Rightarrow> nat option list" where
  "ring_push_front n ring =
     (case position (\<lambda>slot. slot = Some n) ring of
        None \<Rightarrow> Some n # butlast ring
      | Some pos \<Rightarrow> Some n # take pos ring @ drop (Suc pos) ring)"

lemma insert_absent:
  "ring \<noteq> [] \<Longrightarrow> (shift_right (length ring - 1) ring)[0 := y] = y # butlast ring"
  by (subst shift_right_insert) (auto simp: butlast_conv_take)


subsection \<open>Well-formed states\<close>

definition number_ok :: "nat option \<Rightarrow> bool" where
  "number_ok x \<longleftrightarrow> (\<forall>n. x = Some n \<longrightarrow> n < u32_max)"

definition ring_ok :: "nat option list \<Rightarrow> bool" where
  "ring_ok ring \<longleftrightarrow>
     length ring = RING_LEN \<and> distinct (flatten ring) \<and> list_all number_ok ring"

definition state_ok :: "boot_state \<Rightarrow> bool" where
  "state_ok st \<longleftrightarrow>
     ring_ok (known_good_generations st)
     \<and> number_ok (last_attempted_generation st)
     \<and> number_ok (unproven_generation st)
     \<and> number_ok (rescue_booted_generation st)
     \<and> recovery_attempt st \<le> u32_max"

lemma number_ok_simps [simp]: "number_ok None" "number_ok (Some n) \<longleftrightarrow> n < u32_max"
  by (auto simp: number_ok_def)

lemma default_state_ok: "state_ok default_state"
  by (simp add: state_ok_def default_state_def ring_ok_def default_known_good_def RING_LEN_def
      list_all_iff)

lemma ring_push_front_ok:
  assumes "ring_ok ring" "n < u32_max"
  shows "ring_ok (ring_push_front n ring)"
proof (cases "position (\<lambda>slot. slot = Some n) ring")
  case None
  with assms(1) have "ring \<noteq> []" by (auto simp: ring_ok_def RING_LEN_def)
  then obtain r x where ring: "ring = r @ [x]" by (cases ring rule: rev_cases) auto
  from None have "ring_push_front n ring = Some n # butlast ring"
    by (simp add: ring_push_front_def)
  moreover from None have "Some n \<notin> set ring"
    by (auto simp: position_None_iff)
  ultimately show ?thesis using assms ring
      by (auto simp: ring_ok_def set_flatten)
next
  case (Some pos)
  then have pos: "pos < length ring" "ring ! pos = Some n"
    by (auto dest: position_SomeD)
  define a b where "a = take pos ring" and "b = drop (Suc pos) ring"
  have "ring = a @ Some n # b" unfolding a_def b_def
    using pos by (metis id_take_nth_drop)
  moreover have "ring_push_front n ring = Some n # a @ b"
    using Some by (simp add: ring_push_front_def a_def b_def)
  ultimately show ?thesis using assms
    by (auto simp: ring_ok_def set_flatten)
qed

text \<open>The rotation is the move-to-front, guarded as the code guards it.\<close>

lemma rotate_known_good_spec:
  assumes "known_good_generations st \<noteq> []"
  shows "rotate_known_good st gens active_index =
    (case last_attempted_generation st of
       None \<Rightarrow> st
     | Some n \<Rightarrow>
         if (\<exists>g\<in>set gens. number g = n)
            \<and> (Some n \<notin> set (known_good_generations st)
               \<or> map_option number (get_at gens active_index) = Some n)
         then st\<lparr>known_good_generations := ring_push_front n (known_good_generations st)\<rparr>
         else st)"
proof (cases "last_attempted_generation st")
  case None
  then show ?thesis by (simp add: rotate_known_good_def)
next
  case (Some n)
  let ?ring = "known_good_generations st"
  show ?thesis
  proof (cases "position (\<lambda>slot. slot = Some n) ?ring")
    case None
    then have "Some n \<notin> set ?ring" by (auto simp: position_None_iff)
    moreover have "ring_push_front n ?ring = (shift_right (length ?ring - 1) ?ring)[0 := Some n]"
      using None insert_absent [OF assms] by (simp add: ring_push_front_def)
    ultimately show ?thesis
      using Some None by (simp add: rotate_known_good_def Let_def)
  next
    case pos: (Some pos)
    then have p: "pos < length ?ring" "?ring ! pos = Some n"
      by (auto dest: position_SomeD)
    then have "Some n \<in> set ?ring" by (metis nth_mem)
    moreover have "ring_push_front n ?ring = ?ring" if "pos = 0"
      using that pos p by (cases ?ring) (auto simp: ring_push_front_def)
    moreover have "(shift_right pos ?ring)[0 := ?ring ! pos] = ring_push_front n ?ring"
      using pos p by (simp add: ring_push_front_def shift_right_insert)
    ultimately show ?thesis
      using Some pos
      by (cases "get_at gens active_index") (auto simp: rotate_known_good_def Let_def)
  qed
qed

lemma rotate_known_good_frame [simp]:
  "last_boot_succeeded (rotate_known_good st gens ai) = last_boot_succeeded st"
  "last_attempted_generation (rotate_known_good st gens ai) = last_attempted_generation st"
  "unproven_generation (rotate_known_good st gens ai) = unproven_generation st"
  "unproven_failed (rotate_known_good st gens ai) = unproven_failed st"
  "unproven_system (rotate_known_good st gens ai) = unproven_system st"
  "rescue_booted_generation (rotate_known_good st gens ai) = rescue_booted_generation st"
  "rescue_exit_retry_in_progress (rotate_known_good st gens ai) = rescue_exit_retry_in_progress st"
  "recovery_attempt (rotate_known_good st gens ai) = recovery_attempt st"
  "state_format_version (rotate_known_good st gens ai) = state_format_version st"
  by (auto simp: rotate_known_good_def Let_def split: option.splits)

lemma rotate_known_good_ok:
  assumes "state_ok st"
  shows "state_ok (rotate_known_good st gens ai)"
proof -
  from assms have "known_good_generations st \<noteq> []"
    by (auto simp: state_ok_def ring_ok_def RING_LEN_def)
  from rotate_known_good_spec [OF this, of gens ai] assms show ?thesis
    by (auto simp: state_ok_def ring_push_front_ok split: option.splits if_splits)
qed

subsection \<open>What a forced pick can be\<close>

lemma position_number_SomeD:
  "position (\<lambda>g. number g = n) gens = Some i \<Longrightarrow> i < length gens \<and> number (gens ! i) = n"
  by (auto dest: position_SomeD)

lemma avoid_failed_unproven_ForcePickD:
  assumes "avoid_failed_unproven st gens ai = ForcePick i"
  shows "i < length gens \<and> Some (number (gens ! i)) \<noteq> unproven_generation st
         \<and> Some (number (gens ! i)) \<in> set (known_good_generations st)"
proof -
  from assms obtain u n where "unproven_generation st = Some u" "n \<noteq> u"
    "n \<in> set (flatten (known_good_generations st))"
    "position (\<lambda>g. number g = n) gens = Some i"
    by (auto simp: avoid_failed_unproven_def split: option.splits if_splits
        dest!: find_map_SomeD)
  then show ?thesis by (auto simp: set_flatten dest: position_number_SomeD)
qed

lemma ring_pick_SomeD:
  assumes "ring_pick st gens = Some i"
  shows "i < length gens \<and> Some (number (gens ! i)) \<noteq> unproven_generation st
         \<and> Some (number (gens ! i)) \<in> set (known_good_generations st)"
  using assms
  by (auto simp: ring_pick_def get_at_def split: option.splits if_splits
      dest!: position_number_SomeD dest: nth_mem)

lemma mem_drop_enumerate:
  "(i, g) \<in> set (drop k (zip [0..<length gens] gens)) \<Longrightarrow>
   k \<le> i \<and> i < length gens \<and> gens ! i = g"
  by (auto simp: in_set_conv_nth)

lemma pick_fallback_SomeD:
  assumes "pick_fallback st gens ai = Some i"
  shows "i < length gens \<and> Some (number (gens ! i)) \<noteq> unproven_generation st
    \<and> (Some (number (gens ! i)) \<in> set (known_good_generations st)
       \<or> ai < i \<and> last_attempted_generation st \<noteq> Some (number (gens ! i)))"
proof (cases "ring_pick st gens")
  case None
  with assms obtain g where
    "(i, g) \<in> set (drop (ai + 1) (zip [0..<length gens] gens))" "\<not> skip_fallback st (number g)"
    by (auto simp: pick_fallback_def split: if_splits dest!: find_map_SomeD)
  then show ?thesis by (auto simp: skip_fallback_def dest!: mem_drop_enumerate)
next
  case (Some j)
  with assms show ?thesis by (auto simp: pick_fallback_def dest: ring_pick_SomeD)
qed

lemma decide_frame:
  assumes "decide st gens ai mx = (st', d)"
  shows "unproven_generation st' = unproven_generation st"
    and "last_attempted_generation st' = last_attempted_generation st"
    and "last_boot_succeeded st' = last_boot_succeeded st"
  using assms
  by (auto simp: decide_def Let_def split: if_splits option.splits)

lemmas decision_simps = decide_def avoid_failed_unproven_def pick_fallback_def ring_pick_def
  rotate_known_good_def skip_fallback_def Let_def get_at_def

text \<open>C3: a generation the rollback decision forces is one of the scanned ones, and it is
  never the unproven generation, on the healthy path and on the failure path alike.\<close>

theorem decide_never_forces_unproven:
  assumes "decide st gens ai mx = (st', ForcePick i)"
  shows "i < length gens \<and> unproven_generation st \<noteq> Some (number (gens ! i))"
proof (cases "last_boot_succeeded st")
  case True
  then have "avoid_failed_unproven ((rotate_known_good st gens ai)\<lparr>recovery_attempt := 0\<rparr>)
      gens ai = ForcePick i"
    using assms by (auto simp: decide_def Let_def)
  then show ?thesis by (auto dest!: avoid_failed_unproven_ForcePickD)
next
  case False
  then obtain st1 where "pick_fallback st1 gens ai = Some i"
    "unproven_generation st1 = unproven_generation st"
    using assms by (auto simp: decide_def Let_def split: if_splits option.splits)
  then show ?thesis by (auto dest!: pick_fallback_SomeD)
qed

definition demo_generation :: "nat \<Rightarrow> generation" where
  "demo_generation n =
     \<lparr>number = n, profile_link = [], toplevel = [], kernel = [], initrd = [],
      init_path = [], kernel_params = [], gen_label = []\<rparr>"

definition demo_failed_state :: boot_state where
  "demo_failed_state = default_state
     \<lparr>last_boot_succeeded := False, last_attempted_generation := Some 3,
      unproven_generation := Some 3,
      known_good_generations := Some 2 # replicate 19 None\<rparr>"

theorem decide_never_forces_unproven_witness:
  "(1::nat) < length (map demo_generation [3, 2, 1])
   \<and> unproven_generation demo_failed_state \<noteq> Some (number (map demo_generation [3, 2, 1] ! 1))"
proof (rule decide_never_forces_unproven)
  show "decide demo_failed_state (map demo_generation [3, 2, 1]) 0 3
      = (demo_failed_state\<lparr>unproven_failed := True, recovery_attempt := 1\<rparr>, ForcePick 1)"
    by (simp add: demo_failed_state_def demo_generation_def default_state_def decision_simps
        sat_add_def u32_max_def)
qed

text \<open>Every decision keeps the state well-formed: the ring has its twenty slots, no
  generation twice, and every recorded number fits a \<open>NonMaxU32\<close>.\<close>

theorem decide_keeps_state_ok:
  assumes "state_ok st"
  shows "state_ok (fst (decide st gens ai mx))"
proof -
  have "state_ok ((rotate_known_good st gens ai)\<lparr>recovery_attempt := 0\<rparr>)"
    using rotate_known_good_ok [OF assms, of gens ai] by (simp add: state_ok_def)
  with assms show ?thesis
    by (auto simp: decide_def Let_def state_ok_def split: option.splits)
qed

theorem decide_keeps_state_ok_witness:
  "state_ok (fst (decide default_state (map demo_generation [3, 2, 1]) 0 3))"
  by (rule decide_keeps_state_ok) (rule default_state_ok)

text \<open>An exhausted recovery is not free of effects on the state. When the failed generation is the
  unproven one and no candidate is left, the state comes back with that generation marked as failed.\<close>

theorem decide_exhausted_marks_unproven:
  assumes "\<not> last_boot_succeeded st" "\<not> rescue_exit_retry_in_progress st"
    and "last_attempted_generation st = Some n" "unproven_generation st = Some n"
    and "recovery_attempt st < mx"
    and "pick_fallback (st\<lparr>unproven_failed := True\<rparr>) gens ai = None"
  shows "decide st gens ai mx = (st\<lparr>unproven_failed := True\<rparr>, Exhausted)"
  using assms by (simp add: decide_def Let_def)

theorem decide_exhausted_marks_unproven_witness:
  "decide (demo_failed_state\<lparr>known_good_generations := default_known_good\<rparr>) [demo_generation 3] 0 3
    = (demo_failed_state\<lparr>known_good_generations := default_known_good, unproven_failed := True\<rparr>, Exhausted)
   \<and> \<not> unproven_failed demo_failed_state"
proof -
  let ?st = "demo_failed_state\<lparr>known_good_generations := default_known_good\<rparr>"
  have "decide ?st [demo_generation 3] 0 3 = (?st\<lparr>unproven_failed := True\<rparr>, Exhausted)"
    by (rule decide_exhausted_marks_unproven [of _ 3])
      (simp_all add: demo_failed_state_def demo_generation_def default_state_def decision_simps
        default_known_good_def RING_LEN_def)
  then show ?thesis by (simp add: demo_failed_state_def default_state_def)
qed

end
