(* ===== verification/State_Io.thy ===== *)
theory State_Io
  imports Boot_State
begin

text \<open>
  \<open>src/state/io.rs\<close> and \<open>src/state/rescue_exit.rs\<close>: reading and writing
  \<open>state.bin\<close>, the installer's entry points, and the one-use retry after a rescue.

  The file is a \<open>state_file\<close>, what opening and reading it yields. A write takes the
  outcome the operating system will give it (\<open>write_outcome\<close>) and returns the file it
  leaves behind, a truncated one included. The CBOR codec is the third-party crate
  \<open>ciborium\<close>: the record \<open>codec\<close> of its four calls, a parameter. Its documented
  behaviour is \<open>codec_ok\<close>: decoding reads one item and ignores what follows it.
\<close>

datatype state_file = Absent | Unopenable | Unreadable | Content bytes

datatype write_outcome = Write_Done | Fail_Open | Fail_Write nat | Fail_Flush | Fail_Fsync

datatype state_error =
    Io_Open | Io_Read | Io_Over_Cap | Io_Decode | Io_Encode
  | State_Too_Large nat
  | Io_Open_Write | Io_Write | Io_Flush | Io_Fsync
  | Io_Create_Dir
  | State_Roundtrip_Mismatch

record 'v codec =
  into_writer :: "boot_state \<Rightarrow> bytes option"
  from_reader :: "bytes \<Rightarrow> boot_state option"
  value_from_reader :: "bytes \<Rightarrow> 'v option"
  value_into_writer :: "'v \<Rightarrow> bytes option"

definition codec_ok :: "'v codec \<Rightarrow> bool" where
  "codec_ok cd \<longleftrightarrow>
     (\<forall>st b k. into_writer cd st = Some b \<longrightarrow> from_reader cd (b @ replicate k (byte 0)) = Some st)"

definition READ_CAP :: nat where
  "READ_CAP = FILE_SIZE * 2"

subsection \<open>Read and write\<close>

definition read_state :: "'v codec \<Rightarrow> state_file \<Rightarrow> state_error + boot_state option" where
  "read_state cd f =
     (case f of
        Absent \<Rightarrow> Inr None
      | Unopenable \<Rightarrow> Inl Io_Open
      | Unreadable \<Rightarrow> Inl Io_Read
      | Content buf \<Rightarrow>
          if length (take (READ_CAP + 1) buf) > READ_CAP then Inl Io_Over_Cap
          else
            (case from_reader cd buf of
               None \<Rightarrow> Inl Io_Decode
             | Some decoded \<Rightarrow>
                 if state_format_version decoded > KNOWN_VERSION then Inr None
                 else Inr (Some decoded)))"

definition pad_to_slot :: "bytes \<Rightarrow> bytes" where
  "pad_to_slot b = b @ replicate (FILE_SIZE - length b) (byte 0)"

definition write_padded ::
  "'v codec \<Rightarrow> write_outcome \<Rightarrow> boot_state \<Rightarrow> state_file \<Rightarrow> (state_error + unit) \<times> state_file" where
  "write_padded cd w st f =
     (case into_writer cd st of
        None \<Rightarrow> (Inl Io_Encode, f)
      | Some buf \<Rightarrow>
          if length buf > FILE_SIZE - 1 then (Inl (State_Too_Large (length buf)), f)
          else
            (case w of
               Fail_Open \<Rightarrow> (Inl Io_Open_Write, f)
             | Fail_Write k \<Rightarrow> (Inl Io_Write, Content (take k (pad_to_slot buf)))
             | Fail_Flush \<Rightarrow> (Inl Io_Flush, Content (pad_to_slot buf))
             | Fail_Fsync \<Rightarrow> (Inl Io_Fsync, Content (pad_to_slot buf))
             | Write_Done \<Rightarrow> (Inr (), Content (pad_to_slot buf))))"

subsection \<open>The installer\<close>

text \<open>
  \<open>validate_existing\<close> reads the file a second time; \<open>g\<close> is what that read finds.
\<close>

definition validate_existing :: "'v codec \<Rightarrow> state_file \<Rightarrow> boot_state \<Rightarrow> state_error + boot_state" where
  "validate_existing cd g st =
     rbind (ok_or Io_Encode (into_writer cd st)) (\<lambda>reencoded.
     rbind (ensure (\<not> length reencoded > FILE_SIZE - 1) (State_Too_Large (length reencoded))) (\<lambda>_.
     rbind (ok_or Io_Decode (from_reader cd reencoded)) (\<lambda>round_tripped.
     rbind (ensure (round_tripped = st) State_Roundtrip_Mismatch) (\<lambda>_.
     rbind (case g of Content b \<Rightarrow> Inr (take (READ_CAP + 1) b)
                    | Unreadable \<Rightarrow> Inl Io_Read | _ \<Rightarrow> Inl Io_Open) (\<lambda>on_disk.
     rbind (ensure (\<not> length on_disk > READ_CAP) State_Roundtrip_Mismatch) (\<lambda>_.
     rbind (ok_or Io_Decode (from_reader cd on_disk)) (\<lambda>reread.
     rbind (ensure (reread = st) State_Roundtrip_Mismatch) (\<lambda>_.
     rbind (ok_or Io_Decode (value_from_reader cd on_disk)) (\<lambda>original.
     rbind (ok_or Io_Encode (value_into_writer cd original)) (\<lambda>canonical.
     rbind (ensure (\<not> length canonical > FILE_SIZE - 1) (State_Too_Large (length canonical))) (\<lambda>_.
     rbind (ensure (on_disk = pad_to_slot canonical) State_Roundtrip_Mismatch) (\<lambda>_.
     Inr st))))))))))))"

text \<open>
  \<open>exists\<close> is the answer of \<open>path.exists()\<close>, which races with the opening;
  \<open>mk\<close> is whether the directory could be made.
\<close>

definition init_or_validate ::
  "'v codec \<Rightarrow> bool \<Rightarrow> bool \<Rightarrow> write_outcome \<Rightarrow> state_file \<Rightarrow> state_file
   \<Rightarrow> (state_error + boot_state) \<times> state_file" where
  "init_or_validate cd mk exists w f g =
     (if \<not> mk then (Inl Io_Create_Dir, f)
      else if exists then
        (rbind (read_state cd f) (\<lambda>r.
           case r of Some st \<Rightarrow> validate_existing cd g st
                   | None \<Rightarrow> Inl State_Roundtrip_Mismatch), f)
      else
        (case write_padded cd w default_state f of
           (Inl e, f') \<Rightarrow> (Inl e, f')
         | (Inr _, f') \<Rightarrow>
             (rbind (read_state cd f') (\<lambda>r.
                if r = Some default_state then Inr default_state
                else Inl State_Roundtrip_Mismatch), f')))"

subsection \<open>Marking a boot\<close>

definition clear_unproven :: "boot_state \<Rightarrow> boot_state" where
  "clear_unproven st =
     st\<lparr>unproven_generation := None, unproven_failed := False, unproven_system := None\<rparr>"

text \<open>The update of \<open>mark_boot_succeeded\<close> between its read and its write.\<close>

definition bless :: "boot_state \<Rightarrow> boot_state" where
  "bless st =
     (let st1 = st\<lparr>rescue_booted_generation := None,
                   rescue_exit_retry_in_progress := False,
                   last_boot_succeeded := True,
                   recovery_attempt := 0\<rparr>
      in if unproven_generation st1 \<noteq> None
            \<and> unproven_generation st1 = last_attempted_generation st1
         then clear_unproven st1 else st1)"

definition mark_boot_succeeded ::
  "'v codec \<Rightarrow> write_outcome \<Rightarrow> state_file \<Rightarrow> (state_error + unit) \<times> state_file" where
  "mark_boot_succeeded cd w f =
     (case read_state cd f of
        Inl e \<Rightarrow> (Inl e, f)
      | Inr None \<Rightarrow> (Inr (), f)
      | Inr (Some st) \<Rightarrow> write_padded cd w (bless st) f)"

definition apply_unproven_mark :: "boot_state \<Rightarrow> nat \<Rightarrow> string option \<Rightarrow> boot_state" where
  "apply_unproven_mark st active system =
     (let marked = st\<lparr>unproven_generation := Some active,
                      unproven_failed := False,
                      unproven_system := system\<rparr>
      in if last_boot_succeeded st \<and> last_attempted_generation st = Some active
         then clear_unproven st
         else if Some active \<in> set (known_good_generations st) then st
         else if unproven_generation st = Some active then
           (case (unproven_system st, system) of
              (Some was, Some now) \<Rightarrow> if was \<noteq> now then marked else st
            | (None, Some now) \<Rightarrow> st\<lparr>unproven_system := Some now\<rparr>
            | _ \<Rightarrow> st)
         else marked)"

definition mark_unproven ::
  "'v codec \<Rightarrow> write_outcome \<Rightarrow> profile_fs \<Rightarrow> string \<Rightarrow> state_file
   \<Rightarrow> (state_error + unit) \<times> state_file" where
  "mark_unproven cd w fs profiles_dir f =
     (case read_state cd f of
        Inl e \<Rightarrow> (Inl e, f)
      | Inr None \<Rightarrow> (Inr (), f)
      | Inr (Some st) \<Rightarrow>
          (case active_profile_generation fs profiles_dir of
             None \<Rightarrow> (Inr (), f)
           | Some n \<Rightarrow>
               (case nonmax_new n of
                  None \<Rightarrow> (Inr (), f)
                | Some generation \<Rightarrow>
                    (let st' = apply_unproven_mark st generation
                                 (profile_generation_system fs profiles_dir n)
                     in if st' = st then (Inr (), f) else write_padded cd w st' f))))"

subsection \<open>The rescue exit\<close>

definition record_rescue_booted ::
  "'v codec \<Rightarrow> write_outcome \<Rightarrow> state_file \<Rightarrow> (state_error + bool) \<times> state_file" where
  "record_rescue_booted cd w f =
     (case read_state cd f of
        Inl e \<Rightarrow> (Inl e, f)
      | Inr None \<Rightarrow> (Inr False, f)
      | Inr (Some st) \<Rightarrow>
          (case write_padded cd w
                  (st\<lparr>rescue_booted_generation :=
                        (if last_boot_succeeded st then None else last_attempted_generation st),
                      rescue_exit_retry_in_progress := False\<rparr>) f of
             (Inl e, f') \<Rightarrow> (Inl e, f')
           | (Inr _, f') \<Rightarrow> (Inr True, f')))"

definition take_rescue_exit_retry ::
  "'v codec \<Rightarrow> write_outcome \<Rightarrow> nat list \<Rightarrow> state_file \<Rightarrow> (state_error + nat option) \<times> state_file" where
  "take_rescue_exit_retry cd w available f =
     (case read_state cd f of
        Inl e \<Rightarrow> (Inl e, f)
      | Inr None \<Rightarrow> (Inr None, f)
      | Inr (Some st) \<Rightarrow>
          (case rescue_booted_generation st of
             None \<Rightarrow> (Inr None, f)
           | Some generation \<Rightarrow>
               (let st1 = st\<lparr>rescue_booted_generation := None\<rparr>;
                    retry = (\<not> last_boot_succeeded st1
                             \<and> last_attempted_generation st1 = Some generation
                             \<and> generation \<in> set available);
                    st2 = (if retry then st1\<lparr>rescue_exit_retry_in_progress := True\<rparr> else st1)
                in case write_padded cd w st2 f of
                     (Inl e, f') \<Rightarrow> (Inl e, f')
                   | (Inr _, f') \<Rightarrow> (Inr (if retry then Some generation else None), f'))))"

subsection \<open>Lemmas\<close>

lemma length_pad_to_slot: "length b \<le> FILE_SIZE \<Longrightarrow> length (pad_to_slot b) = FILE_SIZE"
  by (simp add: pad_to_slot_def)

lemma write_padded_doneD:
  assumes "write_padded cd w st f = (Inr (), f')"
  obtains b where "into_writer cd st = Some b" "length b < FILE_SIZE"
    "w = Write_Done" "f' = Content (pad_to_slot b)"
  using assms
  by (auto simp: write_padded_def FILE_SIZE_def split: option.splits write_outcome.splits if_splits)

lemma read_after_write:
  assumes "codec_ok cd" "write_padded cd w st f = (Inr (), f')"
  shows "read_state cd f' =
    Inr (if state_format_version st > KNOWN_VERSION then None else Some st)"
proof -
  from assms(2) obtain b where b: "into_writer cd st = Some b" "length b < FILE_SIZE"
    "f' = Content (pad_to_slot b)"
    by (rule write_padded_doneD)
  from assms(1) b(1) have "from_reader cd (pad_to_slot b) = Some st"
    by (simp add: codec_ok_def pad_to_slot_def)
  moreover have "length (pad_to_slot b) \<le> READ_CAP"
    using b(2) by (simp add: length_pad_to_slot READ_CAP_def)
  ultimately show ?thesis using b(3) by (simp add: read_state_def)
qed

lemma read_state_versionD: "read_state cd f = Inr (Some st) \<Longrightarrow> state_format_version st \<le> KNOWN_VERSION"
  by (auto simp: read_state_def split: state_file.splits if_splits option.splits)

lemma bless_frame [simp]:
  "state_format_version (bless st) = state_format_version st"
  "last_attempted_generation (bless st) = last_attempted_generation st"
  "known_good_generations (bless st) = known_good_generations st"
  "last_boot_succeeded (bless st)"
  "recovery_attempt (bless st) = 0"
  "\<not> rescue_exit_retry_in_progress (bless st)"
  "rescue_booted_generation (bless st) = None"
  by (simp_all add: bless_def Let_def clear_unproven_def)

lemma apply_unproven_mark_frame [simp]:
  "state_format_version (apply_unproven_mark st a s) = state_format_version st"
  "last_attempted_generation (apply_unproven_mark st a s) = last_attempted_generation st"
  "known_good_generations (apply_unproven_mark st a s) = known_good_generations st"
  "last_boot_succeeded (apply_unproven_mark st a s) = last_boot_succeeded st"
  "recovery_attempt (apply_unproven_mark st a s) = recovery_attempt st"
  "rescue_booted_generation (apply_unproven_mark st a s) = rescue_booted_generation st"
  "rescue_exit_retry_in_progress (apply_unproven_mark st a s) = rescue_exit_retry_in_progress st"
  by (auto simp: apply_unproven_mark_def Let_def clear_unproven_def split: option.splits)

lemma bless_ok: "state_ok st \<Longrightarrow> state_ok (bless st)"
  by (auto simp: state_ok_def bless_def Let_def clear_unproven_def)

lemma apply_unproven_mark_ok:
  "state_ok st \<Longrightarrow> n < u32_max \<Longrightarrow> state_ok (apply_unproven_mark st n s)"
  by (auto simp: state_ok_def apply_unproven_mark_def Let_def clear_unproven_def split: option.splits)

lemmas state_ops_defs = mark_boot_succeeded_def mark_unproven_def record_rescue_booted_def
  take_rescue_exit_retry_def

subsection \<open>A codec that satisfies the hypotheses\<close>

text \<open>States of a table, each written as the byte of its position: an instance of
  \<open>codec_ok\<close> on which the properties are evaluated.\<close>

definition table_codec :: "boot_state list \<Rightarrow> unit codec" where
  "table_codec sts =
     \<lparr>into_writer = (\<lambda>st. map_option (\<lambda>i. [byte (Suc i)]) (position (\<lambda>s. s = st) sts)),
      from_reader = (\<lambda>b. case b of [] \<Rightarrow> None | c # _ \<Rightarrow> get_at sts (ord c - 1)),
      value_from_reader = (\<lambda>_. None),
      value_into_writer = (\<lambda>_. None)\<rparr>"

lemma table_codec_ok: "length sts < 255 \<Longrightarrow> codec_ok (table_codec sts)"
  by (auto simp: codec_ok_def table_codec_def get_at_def dest!: position_SomeD)

lemma table_codec_read:
  "i < length sts \<Longrightarrow> i < 255 \<Longrightarrow> state_format_version (sts ! i) \<le> KNOWN_VERSION \<Longrightarrow>
   read_state (table_codec sts) (Content [byte (Suc i)]) = Inr (Some (sts ! i))"
  by (simp add: read_state_def table_codec_def get_at_def READ_CAP_def FILE_SIZE_def)

lemma table_codec_write:
  "position (\<lambda>s. s = st) sts = Some i \<Longrightarrow>
   write_padded (table_codec sts) Write_Done st f = (Inr (), Content (pad_to_slot [byte (Suc i)]))"
  by (simp add: write_padded_def table_codec_def FILE_SIZE_def)

subsection \<open>Properties\<close>

lemma mark_boot_succeeded_InrD:
  assumes "codec_ok cd" "read_state cd f = Inr (Some st)" "mark_boot_succeeded cd w f = (Inr (), f')"
  shows "read_state cd f' = Inr (Some (bless st))"
proof -
  from assms(2,3) have w: "write_padded cd w (bless st) f = (Inr (), f')"
    by (simp add: mark_boot_succeeded_def)
  from read_after_write [OF assms(1) w] read_state_versionD [OF assms(2)] show ?thesis by simp
qed

lemma ring_push_front_hd: "Some n \<in> set (ring_push_front n ring)"
  by (auto simp: ring_push_front_def split: option.splits)

lemma rotate_remembers:
  assumes "known_good_generations st \<noteq> []" "last_attempted_generation st = Some n" "\<exists>g\<in>set gens. number g = n"
  shows "Some n \<in> set (known_good_generations (rotate_known_good st gens ai))"
  using rotate_known_good_spec [OF assms(1), of gens ai] assms(2,3) ring_push_front_hd
  by (auto split: if_splits)

text \<open>A boot that marks its success is trusted afterwards. The next decision finds the attempt
  in the known-good ring, the recovery budget restored and no reason to give up; and if the proven
  generation was the unproven one, the mark is gone and the operator's choice is honoured.\<close>

theorem success_is_remembered:
  assumes "codec_ok cd" "read_state cd f = Inr (Some st)" "state_ok st"
    and "last_attempted_generation st = Some n" "\<exists>g\<in>set gens. number g = n"
    and "mark_boot_succeeded cd w f = (Inr (), f')"
  shows "\<exists>st' st'' r. read_state cd f' = Inr (Some st') \<and> decide st' gens ai mx = (st'', r)
    \<and> state_ok st'' \<and> recovery_attempt st'' = 0 \<and> Some n \<in> set (known_good_generations st'')
    \<and> r \<noteq> Exhausted
    \<and> (unproven_generation st = Some n \<longrightarrow> unproven_generation st'' = None \<and> r = HonourTui)"
proof -
  define st'' where "st'' = (rotate_known_good (bless st) gens ai)\<lparr>recovery_attempt := 0\<rparr>"
  have dec: "decide (bless st) gens ai mx = (st'', avoid_failed_unproven st'' gens ai)"
    by (simp add: decide_def st''_def Let_def)
  have "known_good_generations (bless st) \<noteq> []"
    using assms(3) by (auto simp: state_ok_def ring_ok_def RING_LEN_def)
  with assms(4,5) have "Some n \<in> set (known_good_generations st'')"
    using rotate_remembers [of "bless st" n gens ai] by (simp add: st''_def)
  moreover have "state_ok st''"
    using rotate_known_good_ok [OF bless_ok [OF assms(3)], of gens ai]
    by (simp add: st''_def state_ok_def)
  moreover have "avoid_failed_unproven st'' gens ai \<noteq> Exhausted"
    by (auto simp: avoid_failed_unproven_def split: option.splits)
  moreover have "unproven_generation st'' = None" if "unproven_generation st = Some n"
    using that assms(4) by (simp add: st''_def bless_def Let_def clear_unproven_def)
  ultimately show ?thesis
    using mark_boot_succeeded_InrD [OF assms(1,2,6)] dec
    by (auto simp: st''_def avoid_failed_unproven_def)
qed

theorem success_is_remembered_witness:
  "\<exists>st'' r. decide (bless demo_failed_state) [demo_generation 3] 0 3 = (st'', r)
     \<and> unproven_generation st'' = None \<and> r = HonourTui \<and> Some 3 \<in> set (known_good_generations st'')"
proof -
  let ?cd = "table_codec [demo_failed_state, bless demo_failed_state]"
  have cd: "codec_ok ?cd" by (simp add: table_codec_ok)
  have ne: "demo_failed_state \<noteq> bless demo_failed_state"
    by (auto simp: demo_failed_state_def bless_def default_state_def Let_def clear_unproven_def)
  have read: "read_state ?cd (Content [byte 1]) = Inr (Some demo_failed_state)"
    using table_codec_read [of 0 "[demo_failed_state, bless demo_failed_state]"]
    by (simp add: demo_failed_state_def default_state_def)
  have st: "state_ok demo_failed_state" "last_attempted_generation demo_failed_state = Some 3"
    "unproven_generation demo_failed_state = Some 3"
    by (simp_all add: demo_failed_state_def default_state_def state_ok_def ring_ok_def RING_LEN_def
        list_all_iff u32_max_def)
  have wr: "write_padded ?cd Write_Done (bless demo_failed_state) (Content [byte 1])
      = (Inr (), Content (pad_to_slot [byte 2]))"
    using table_codec_write [of "bless demo_failed_state" "[demo_failed_state, bless demo_failed_state]" 1] ne
    by (simp add: numeral_2_eq_2)
  with read have mark: "mark_boot_succeeded ?cd Write_Done (Content [byte 1])
      = (Inr (), Content (pad_to_slot [byte 2]))"
    by (simp add: mark_boot_succeeded_def)
  have "\<exists>g\<in>set [demo_generation 3]. number g = 3" by (simp add: demo_generation_def)
  from success_is_remembered [OF cd read st(1,2) this mark, of 0 3]
  show ?thesis using mark_boot_succeeded_InrD [OF cd read mark] st(3) by auto
qed

text \<open>Installing is idempotent and leaves an existing file alone. After a first installation that
  reports success, the next one validates the file and answers with the same state; and
  whenever the file exists no outcome of the call changes it.\<close>

theorem install_is_idempotent:
  assumes "codec_ok cd"
    and "\<And>st b. into_writer cd st = Some b \<Longrightarrow>
      \<exists>v. value_from_reader cd (pad_to_slot b) = Some v \<and> value_into_writer cd v = Some b"
    and "init_or_validate cd True False w f g = (Inr st, f')"
  shows "st = default_state \<and> init_or_validate cd True True w' f' f' = (Inr st, f')
    \<and> snd (init_or_validate cd mk True w' h g') = h"
proof -
  from assms(3) have st: "st = default_state"
    and wr: "write_padded cd w default_state f = (Inr (), f')"
    by (auto simp: init_or_validate_def rbind_Inr_iff split: prod.splits sum.splits if_splits)
  from wr obtain b where b: "into_writer cd default_state = Some b" "length b < FILE_SIZE"
    "f' = Content (pad_to_slot b)"
    by (rule write_padded_doneD)
  from assms(2) [OF b(1)] obtain v where v: "value_from_reader cd (pad_to_slot b) = Some v"
    "value_into_writer cd v = Some b" by blast
  have rd: "from_reader cd b = Some default_state" "from_reader cd (pad_to_slot b) = Some default_state"
    using assms(1) b(1) unfolding codec_ok_def pad_to_slot_def by (metis append_Nil2 replicate_0)+
  have len: "length (pad_to_slot b) = FILE_SIZE" using b(2) by (simp add: length_pad_to_slot)
  have "read_state cd f' = Inr (Some default_state)"
    using read_after_write [OF assms(1) wr] by (simp add: default_state_def)
  moreover have "validate_existing cd f' default_state = Inr default_state"
    using b v rd len by (simp add: validate_existing_def READ_CAP_def FILE_SIZE_def)
  ultimately show ?thesis using st by (simp add: init_or_validate_def)
qed

definition demo_value_codec :: "boot_state codec" where
  "demo_value_codec =
     \<lparr>into_writer = (\<lambda>st. if st = default_state then Some [byte 1] else None),
      from_reader = (\<lambda>b. Some default_state),
      value_from_reader = (\<lambda>b. Some default_state),
      value_into_writer = (\<lambda>_. Some [byte 1])\<rparr>"

theorem install_is_idempotent_witness:
  "\<exists>f'. init_or_validate demo_value_codec True False Write_Done Absent Absent = (Inr default_state, f')
     \<and> init_or_validate demo_value_codec True True Fail_Open f' f' = (Inr default_state, f')"
proof -
  have cd: "codec_ok demo_value_codec" by (simp add: codec_ok_def demo_value_codec_def)
  have v: "\<exists>v. value_from_reader demo_value_codec (pad_to_slot b) = Some v
      \<and> value_into_writer demo_value_codec v = Some b"
    if "into_writer demo_value_codec st = Some b" for st b
    using that by (simp add: demo_value_codec_def split: if_splits)
  have wr: "write_padded demo_value_codec Write_Done default_state Absent
      = (Inr (), Content (pad_to_slot [byte 1]))"
    by (simp add: write_padded_def demo_value_codec_def FILE_SIZE_def)
  with read_after_write [OF cd wr] have first:
    "init_or_validate demo_value_codec True False Write_Done Absent Absent
      = (Inr default_state, Content (pad_to_slot [byte 1]))"
    by (simp add: init_or_validate_def default_state_def)
  have "init_or_validate demo_value_codec True True Fail_Open
      (Content (pad_to_slot [byte 1])) (Content (pad_to_slot [byte 1]))
      = (Inr default_state, Content (pad_to_slot [byte 1]))"
    using install_is_idempotent [OF cd _ first, where w' = Fail_Open] v by blast
  with first show ?thesis by blast
qed

end
