(* ===== verification/Generation_State.thy ===== *)
theory Generation_State
  imports Interfaces
begin

text \<open>
  \<open>src/generation_state.rs\<close>: the selectors \<open>active\<close>, \<open>attempted\<close>, \<open>pending\<close> and
  \<open>tested\<close> of the signed EROFS generations, the boot-time rollback and the success mark.

  A selector is what reading its symbolic link yields. Every mutation is one atomic
  step on the directory (a rename or an unlink followed by a sync), so an operation is
  computed as the list of its steps, and a fault is the number of steps that took effect
  before an error or a loss of power. \<open>complete\<close> tells which content ids have both
  bundle files.
\<close>

datatype link_view = No_Link | Bad_Link | Link string

record gen_state =
  links :: "string \<Rightarrow> link_view"
  rollback_event :: "string option"

datatype boot_state_outcome = Proceed | RolledBack | Failed

datatype gs_error = Gs_Io | Gs_Invalid

datatype gs_op = Replace_Link string string | Remove_State string | Write_Event string

abbreviation "active_sel \<equiv> ''active''"
abbreviation "attempted_sel \<equiv> ''attempted''"
abbreviation "pending_sel \<equiv> ''pending''"
abbreviation "tested_sel \<equiv> ''tested''"
abbreviation "event_sel \<equiv> ''rollback-event''"

subsection \<open>Reading a selector\<close>

definition is_lower_hex :: "char \<Rightarrow> bool" where
  "is_lower_hex c \<longleftrightarrow> is_digit c \<or> (97 \<le> ord c \<and> ord c \<le> 102)"

definition valid_id :: "string \<Rightarrow> bool" where
  "valid_id i \<longleftrightarrow> length i = 128 \<and> list_all is_lower_hex i"

definition parse_target :: "(string \<Rightarrow> bool) \<Rightarrow> string \<Rightarrow> gs_error + string" where
  "parse_target complete target =
     (case strip_prefix ''generations/'' target of
        None \<Rightarrow> Inl Gs_Invalid
      | Some i \<Rightarrow>
          if \<not> valid_id i then Inl Gs_Invalid
          else if \<not> complete i then Inl Gs_Invalid
          else Inr i)"

definition optional_id :: "(string \<Rightarrow> bool) \<Rightarrow> gen_state \<Rightarrow> string \<Rightarrow> gs_error + string option" where
  "optional_id complete s name =
     (case links s name of
        No_Link \<Rightarrow> Inr None
      | Bad_Link \<Rightarrow> Inl Gs_Io
      | Link target \<Rightarrow> rbind (parse_target complete target) (\<lambda>i. Inr (Some i)))"

definition required_id :: "(string \<Rightarrow> bool) \<Rightarrow> gen_state \<Rightarrow> string \<Rightarrow> gs_error + string" where
  "required_id complete s name =
     rbind (optional_id complete s name) (\<lambda>r. ok_or Gs_Invalid r)"

subsection \<open>The steps\<close>

definition link_to :: "string \<Rightarrow> link_view" where
  "link_to i = Link (''generations/'' @ i)"

fun apply_op :: "gen_state \<Rightarrow> gs_op \<Rightarrow> gen_state" where
  "apply_op s (Replace_Link name i) = s\<lparr>links := (links s)(name := link_to i)\<rparr>"
| "apply_op s (Remove_State name) =
     (if name = event_sel then s\<lparr>rollback_event := None\<rparr>
      else s\<lparr>links := (links s)(name := No_Link)\<rparr>)"
| "apply_op s (Write_Event text) = s\<lparr>rollback_event := Some text\<rparr>"

abbreviation apply_ops :: "gen_state \<Rightarrow> gs_op list \<Rightarrow> gen_state" where
  "apply_ops \<equiv> foldl apply_op"

text \<open>
  \<open>fault_with io fault r s\<close> runs the planned steps of \<open>r\<close>; a fault \<open>Some k\<close> stops after
  the first \<open>k\<close> of them with the error \<open>io\<close>. No fault, and the operation returns its value.
\<close>

definition fault_with ::
  "'e \<Rightarrow> nat option \<Rightarrow> 'e + ('a \<times> gs_op list) \<Rightarrow> gen_state \<Rightarrow> ('e + 'a) \<times> gen_state" where
  "fault_with io fault r s =
     (case r of
        Inl e \<Rightarrow> (Inl e, s)
      | Inr (a, ops) \<Rightarrow>
          (case fault of
             None \<Rightarrow> (Inr a, apply_ops s ops)
           | Some k \<Rightarrow> (Inl io, apply_ops s (take k ops))))"

abbreviation with_fault ::
  "nat option \<Rightarrow> gs_error + ('a \<times> gs_op list) \<Rightarrow> gen_state \<Rightarrow> (gs_error + 'a) \<times> gen_state" where
  "with_fault \<equiv> fault_with Gs_Io"

definition prepare_plan ::
  "(string \<Rightarrow> bool) \<Rightarrow> bool \<Rightarrow> gen_state \<Rightarrow> gs_error + (boot_state_outcome \<times> gs_op list)" where
  "prepare_plan complete automatic_rollback s =
     rbind (required_id complete s active_sel) (\<lambda>active.
     rbind (optional_id complete s attempted_sel) (\<lambda>attempted.
     rbind (optional_id complete s pending_sel) (\<lambda>pending.
     rbind (optional_id complete s tested_sel) (\<lambda>tested.
     case attempted of
       Some failed \<Rightarrow>
         if pending = Some failed then
           (case tested of
              Some good \<Rightarrow>
                if automatic_rollback \<and> good \<noteq> failed then
                  Inr (RolledBack,
                    [Replace_Link active_sel good,
                     Replace_Link attempted_sel good,
                     Remove_State pending_sel,
                     Write_Event (failed @ '' '' @ good @ [newline])])
                else Inr (Failed, [])
            | None \<Rightarrow> Inr (Failed, []))
         else Inr (Failed, [])
     | None \<Rightarrow> Inr (Proceed, [Replace_Link attempted_sel active])))))"

definition prepare_boot ::
  "(string \<Rightarrow> bool) \<Rightarrow> bool \<Rightarrow> bool \<Rightarrow> nat option \<Rightarrow> gen_state
   \<Rightarrow> (gs_error + boot_state_outcome) \<times> gen_state" where
  "prepare_boot complete lock_ok automatic_rollback fault s =
     (if \<not> lock_ok then (Inl Gs_Io, s)
      else with_fault fault (prepare_plan complete automatic_rollback s) s)"

definition success_plan :: "(string \<Rightarrow> bool) \<Rightarrow> gen_state \<Rightarrow> gs_error + (unit \<times> gs_op list)" where
  "success_plan complete s =
     rbind (required_id complete s active_sel) (\<lambda>active.
     rbind (required_id complete s attempted_sel) (\<lambda>attempted.
     if active \<noteq> attempted then Inl Gs_Invalid
     else Inr ((),
       [Replace_Link tested_sel active,
        Remove_State pending_sel,
        Remove_State event_sel,
        Remove_State attempted_sel])))"

definition mark_success ::
  "(string \<Rightarrow> bool) \<Rightarrow> bool \<Rightarrow> nat option \<Rightarrow> gen_state \<Rightarrow> (gs_error + unit) \<times> gen_state" where
  "mark_success complete lock_ok fault s =
     (if \<not> lock_ok then (Inl Gs_Io, s) else with_fault fault (success_plan complete s) s)"

subsection \<open>The health summary\<close>

record generation_health =
  active_is_tested :: bool
  pending_present :: bool
  attempted_unresolved :: bool

definition inspect_health :: "(string \<Rightarrow> bool) \<Rightarrow> gen_state \<Rightarrow> gs_error + generation_health option" where
  "inspect_health complete s =
     rbind (optional_id complete s active_sel) (\<lambda>act.
     case act of
       None \<Rightarrow> Inr None
     | Some active \<Rightarrow>
         rbind (optional_id complete s tested_sel) (\<lambda>tested.
         rbind (optional_id complete s pending_sel) (\<lambda>pending.
         rbind (optional_id complete s attempted_sel) (\<lambda>attempted.
         Inr (Some
           \<lparr>active_is_tested = (tested = Some active),
            pending_present = (pending \<noteq> None),
            attempted_unresolved =
              (case attempted of None \<Rightarrow> False | Some a \<Rightarrow> a \<noteq> active)\<rparr>)))))"

subsection \<open>What a selector can hold\<close>

definition good_id :: "(string \<Rightarrow> bool) \<Rightarrow> string \<Rightarrow> bool" where
  "good_id complete i \<longleftrightarrow> valid_id i \<and> complete i"

definition gs_inv :: "(string \<Rightarrow> bool) \<Rightarrow> gen_state \<Rightarrow> bool" where
  "gs_inv complete s \<longleftrightarrow>
     (\<exists>i. good_id complete i \<and> links s active_sel = link_to i)
     \<and> (\<forall>name\<in>{attempted_sel, pending_sel, tested_sel}.
          links s name = No_Link \<or> (\<exists>i. good_id complete i \<and> links s name = link_to i))"

lemma parse_target_link [simp]:
  "good_id complete i \<Longrightarrow> parse_target complete (''generations/'' @ i) = Inr i"
  by (simp only: parse_target_def strip_prefix_append) (simp add: good_id_def)

lemma optional_id_link:
  "good_id complete i \<Longrightarrow> links s name = link_to i \<Longrightarrow> optional_id complete s name = Inr (Some i)"
  by (simp only: optional_id_def link_to_def link_view.case parse_target_link rbind_simps)

lemma optional_id_none: "links s name = No_Link \<Longrightarrow> optional_id complete s name = Inr None"
  by (simp add: optional_id_def)

lemma optional_id_SomeD:
  "optional_id complete s name = Inr (Some i) \<Longrightarrow> good_id complete i \<and> links s name = link_to i"
  by (auto simp: optional_id_def parse_target_def good_id_def link_to_def strip_prefix_Some_iff
      rbind_Inr_iff split: link_view.splits option.splits if_splits)

lemma required_id_Inr_iff: "required_id complete s name = Inr i \<longleftrightarrow> optional_id complete s name = Inr (Some i)"
  by (auto simp: required_id_def rbind_Inr_iff)

lemma link_to_inject [simp]: "link_to i = link_to j \<longleftrightarrow> i = j" "link_to i \<noteq> No_Link" "No_Link \<noteq> link_to i"
  by (simp_all add: link_to_def)

text \<open>Every step a plan can contain keeps the invariant.\<close>

fun op_ok :: "(string \<Rightarrow> bool) \<Rightarrow> gs_op \<Rightarrow> bool" where
  "op_ok complete (Replace_Link name i) = good_id complete i"
| "op_ok complete (Remove_State name) = (name \<noteq> active_sel)"
| "op_ok complete (Write_Event text) = True"

lemma apply_op_inv: "gs_inv complete s \<Longrightarrow> op_ok complete op \<Longrightarrow> gs_inv complete (apply_op s op)"
  by (cases op) (auto simp: gs_inv_def)

lemma apply_ops_inv:
  "gs_inv complete s \<Longrightarrow> list_all (op_ok complete) ops \<Longrightarrow> gs_inv complete (apply_ops s ops)"
  by (induction ops arbitrary: s) (auto intro: apply_op_inv)

lemma list_all_take: "list_all P xs \<Longrightarrow> list_all P (take k xs)"
  by (meson in_set_takeD list_all_iff)

lemma fault_with_inv:
  assumes "gs_inv complete s" "\<And>a ops. r = Inr (a, ops) \<Longrightarrow> list_all (op_ok complete) ops"
  shows "gs_inv complete (snd (fault_with io fault r s))"
  using assms
  by (auto simp: fault_with_def list_all_take intro!: apply_ops_inv split: sum.splits option.splits)

lemma prepare_plan_cases:
  assumes "prepare_plan complete rb s = Inr (out, ops)"
  obtains
    (proceed) i where "links s active_sel = link_to i" "good_id complete i"
      "links s attempted_sel = No_Link" "out = Proceed" "ops = [Replace_Link attempted_sel i]"
  | (rolled) failed good where "links s attempted_sel = link_to failed"
      "links s pending_sel = link_to failed" "links s tested_sel = link_to good" "good_id complete good"
      "rb" "good \<noteq> failed" "out = RolledBack"
      "ops = [Replace_Link active_sel good, Replace_Link attempted_sel good,
              Remove_State pending_sel, Write_Event (failed @ '' '' @ good @ [newline])]"
  | (failed) failed where "links s attempted_sel = link_to failed" "out = Failed" "ops = []"
proof -
  from assms obtain active attempted pending tested where
    act: "optional_id complete s active_sel = Inr (Some active)" and
    att: "optional_id complete s attempted_sel = Inr attempted" and
    pen: "optional_id complete s pending_sel = Inr pending" and
    tes: "optional_id complete s tested_sel = Inr tested"
    by (auto simp: prepare_plan_def rbind_Inr_iff required_id_Inr_iff)
  note plan = assms [unfolded prepare_plan_def required_id_def act att pen tes rbind_simps ok_or_simps]
  show thesis
  proof (cases attempted)
    case None
    with att have "links s attempted_sel = No_Link"
      by (auto simp: optional_id_def rbind_Inr_iff split: link_view.splits)
    with None plan act show thesis
      by (auto dest: optional_id_SomeD intro: proceed)
  next
    case (Some f)
    with att have f: "links s attempted_sel = link_to f" by (auto dest: optional_id_SomeD)
    show thesis
    proof (cases "pending = Some f \<and> rb \<and> (\<exists>g. tested = Some g \<and> g \<noteq> f)")
      case True
      then obtain g where g: "tested = Some g" "g \<noteq> f" "rb" "pending = Some f" by auto
      with pen tes have "links s pending_sel = link_to f" "links s tested_sel = link_to g"
        "good_id complete g" by (auto dest: optional_id_SomeD)
      with g f Some plan show thesis by (auto intro!: rolled)
    next
      case False
      with Some plan have "out = Failed" "ops = []" by (auto split: option.splits if_splits)
      with f show thesis by (rule failed)
    qed
  qed
qed

lemma prepare_plan_ok: "prepare_plan complete rb s = Inr (out, ops) \<Longrightarrow> list_all (op_ok complete) ops"
  by (erule prepare_plan_cases) auto

lemma success_plan_ok: "success_plan complete s = Inr (u, ops) \<Longrightarrow> list_all (op_ok complete) ops"
  by (auto simp: success_plan_def rbind_Inr_iff required_id_Inr_iff
      dest!: optional_id_SomeD split: if_splits)

text \<open>
  The machine of boots and success marks, each of which may be cut short anywhere. The
  deployments that publish a new image are in the theory of the receiver.
\<close>

datatype gs_event = Boot bool bool "nat option" | Success bool "nat option"

fun gs_step :: "(string \<Rightarrow> bool) \<Rightarrow> gen_state \<Rightarrow> gs_event \<Rightarrow> gen_state" where
  "gs_step complete s (Boot lk rb fault) = snd (prepare_boot complete lk rb fault s)"
| "gs_step complete s (Success lk fault) = snd (mark_success complete lk fault s)"

interpretation gs: guarded_machine "gs_step complete" "gs_inv complete" for complete
proof
  fix s and e :: gs_event
  assume "gs_inv complete s"
  then show "gs_inv complete (gs_step complete s e)"
    by (cases e) (auto simp: prepare_boot_def mark_success_def
        intro: fault_with_inv prepare_plan_ok success_plan_ok)
qed

subsection \<open>Properties\<close>

lemma selectors_differ [simp]:
  "active_sel \<noteq> attempted_sel" "active_sel \<noteq> pending_sel" "active_sel \<noteq> tested_sel"
  "attempted_sel \<noteq> pending_sel" "attempted_sel \<noteq> tested_sel" "pending_sel \<noteq> tested_sel"
  "active_sel \<noteq> event_sel" "attempted_sel \<noteq> event_sel" "pending_sel \<noteq> event_sel"
  by simp_all

lemma fault_with_NoneD: "fault_with io None r s = (Inr a, s') \<Longrightarrow> \<exists>ops. r = Inr (a, ops) \<and> s' = apply_ops s ops"
  by (auto simp: fault_with_def split: sum.splits)

text \<open>Whatever sequence of boots and success marks runs, each of them interrupted anywhere
  or not at all, \<open>active\<close> names a complete bundle and so does every selector that is present.\<close>

theorem selectors_stay_complete:
  assumes "gs_inv complete s"
  shows "gs_inv complete (foldl (gs_step complete) s events)"
  using assms by (rule gs.inv_run)

definition demo_id :: "char \<Rightarrow> string" where
  "demo_id c = replicate 128 c"

definition demo_selectors :: gen_state where
  "demo_selectors =
     \<lparr>links = (\<lambda>_. No_Link)
        (active_sel := link_to (demo_id (CHR ''b'')), attempted_sel := link_to (demo_id (CHR ''b'')),
         pending_sel := link_to (demo_id (CHR ''b'')), tested_sel := link_to (demo_id (CHR ''a''))),
      rollback_event = None\<rparr>"

lemma demo_id_good: "good_id (\<lambda>_. True) (demo_id (CHR ''a''))" "good_id (\<lambda>_. True) (demo_id (CHR ''b''))"
  by (auto simp: good_id_def valid_id_def demo_id_def list_all_iff is_lower_hex_def ord_def)

lemma demo_id_differ: "demo_id (CHR ''a'') \<noteq> demo_id (CHR ''b'')"
proof
  assume "demo_id (CHR ''a'') = demo_id (CHR ''b'')"
  then have "hd (demo_id (CHR ''a'')) = hd (demo_id (CHR ''b''))" by (rule arg_cong)
  then show False by (simp add: demo_id_def hd_replicate)
qed

lemma demo_selectors_inv: "gs_inv (\<lambda>_. True) demo_selectors"
  using demo_id_good by (auto simp: gs_inv_def demo_selectors_def)

theorem selectors_stay_complete_witness:
  "gs_inv (\<lambda>_. True) (foldl (gs_step (\<lambda>_. True)) demo_selectors
     [Boot True True (Some 2), Boot True True None, Success True (Some 1)])"
  by (rule selectors_stay_complete) (rule demo_selectors_inv)

text \<open>A rollback selects the tested image and no other: the image that failed was the pending
  one, the tested image becomes active and attempted, nothing stays pending, the tested selector
  is untouched, and the event names both images.\<close>

theorem rollback_selects_tested:
  assumes "prepare_boot complete True rb None s = (Inr RolledBack, s')"
  shows "\<exists>failed good. rb \<and> good \<noteq> failed
    \<and> links s attempted_sel = link_to failed \<and> links s pending_sel = link_to failed
    \<and> links s tested_sel = link_to good
    \<and> links s' active_sel = link_to good \<and> links s' attempted_sel = link_to good
    \<and> links s' pending_sel = No_Link \<and> links s' tested_sel = link_to good
    \<and> rollback_event s' = Some (failed @ '' '' @ good @ [newline])"
proof -
  from assms obtain ops where plan: "prepare_plan complete rb s = Inr (RolledBack, ops)"
    and s': "s' = apply_ops s ops"
    by (auto simp: prepare_boot_def dest!: fault_with_NoneD)
  from plan show ?thesis by (rule prepare_plan_cases) (auto simp: s')
qed

lemma prepare_plan_rolls:
  assumes "gs_inv complete s" "links s attempted_sel = link_to failed"
    "links s pending_sel = link_to failed" "links s tested_sel = link_to good" "good \<noteq> failed"
  shows "prepare_plan complete True s = Inr (RolledBack,
      [Replace_Link active_sel good, Replace_Link attempted_sel good,
       Remove_State pending_sel, Write_Event (failed @ '' '' @ good @ [newline])])"
proof -
  from assms(1) obtain a where "optional_id complete s active_sel = Inr (Some a)"
    by (auto simp: gs_inv_def intro: optional_id_link)
  moreover from assms have "good_id complete failed" "good_id complete good"
    by (auto simp: gs_inv_def)
  with assms have "optional_id complete s attempted_sel = Inr (Some failed)"
    "optional_id complete s pending_sel = Inr (Some failed)"
    "optional_id complete s tested_sel = Inr (Some good)"
    by (auto intro: optional_id_link)
  ultimately show ?thesis using assms(5) by (simp add: prepare_plan_def required_id_def)
qed

lemma prepare_plan_fails:
  assumes "gs_inv complete s" "links s attempted_sel = link_to a" "links s pending_sel \<noteq> link_to a"
  shows "prepare_plan complete rb s = Inr (Failed, [])"
proof -
  have present: "\<exists>r. optional_id complete s name = Inr r \<and> (links s name = No_Link \<longrightarrow> r = None)
      \<and> (\<forall>i. r = Some i \<longrightarrow> links s name = link_to i)"
    if "name \<in> {active_sel, attempted_sel, pending_sel, tested_sel}" for name
    using assms(1) that by (auto simp: gs_inv_def optional_id_link optional_id_none)
  from assms(1) obtain i where "optional_id complete s active_sel = Inr (Some i)"
    by (auto simp: gs_inv_def intro: optional_id_link)
  moreover from assms(1,2) have "optional_id complete s attempted_sel = Inr (Some a)"
    by (auto simp: gs_inv_def intro: optional_id_link)
  moreover obtain p where "optional_id complete s pending_sel = Inr p" "p \<noteq> Some a"
    using present [of pending_sel] assms(3) by auto
  moreover obtain t where "optional_id complete s tested_sel = Inr t"
    using present [of tested_sel] by auto
  ultimately show ?thesis by (simp add: prepare_plan_def required_id_def)
qed



lemma prepare_plan_proceeds:
  assumes "gs_inv complete s" "links s attempted_sel = No_Link" "links s active_sel = link_to i"
  shows "prepare_plan complete rb s = Inr (Proceed, [Replace_Link attempted_sel i])"
proof -
  have "optional_id complete s attempted_sel = Inr None" "optional_id complete s active_sel = Inr (Some i)"
    using assms by (auto simp: gs_inv_def optional_id_none intro: optional_id_link)
  moreover have "\<exists>p t. optional_id complete s pending_sel = Inr p \<and> optional_id complete s tested_sel = Inr t"
    using assms(1) by (auto simp: gs_inv_def intro: optional_id_none optional_id_link)
  ultimately show ?thesis by (auto simp: prepare_plan_def required_id_def)
qed

text \<open>A boot that proceeds and then reaches its success target ends the cycle: the active
  image is tested, nothing is pending, attempted or recorded as an event, the health summary says
  so, and the next boot proceeds again.\<close>

theorem success_closes_the_cycle:
  assumes "gs_inv complete s" "links s attempted_sel = No_Link"
  shows "\<exists>i s1 s2. links s active_sel = link_to i
    \<and> prepare_boot complete True rb None s = (Inr Proceed, s1)
    \<and> mark_success complete True None s1 = (Inr (), s2)
    \<and> links s2 active_sel = link_to i \<and> links s2 tested_sel = link_to i
    \<and> links s2 pending_sel = No_Link \<and> links s2 attempted_sel = No_Link
    \<and> rollback_event s2 = None
    \<and> inspect_health complete s2 =
        Inr (Some \<lparr>active_is_tested = True, pending_present = False, attempted_unresolved = False\<rparr>)
    \<and> fst (prepare_boot complete True rb None s2) = Inr Proceed"
proof -
  from assms(1) obtain i where i: "good_id complete i" "links s active_sel = link_to i"
    by (auto simp: gs_inv_def)
  define s1 where "s1 = apply_op s (Replace_Link attempted_sel i)"
  have one: "prepare_boot complete True rb None s = (Inr Proceed, s1)"
    by (simp add: prepare_boot_def fault_with_def prepare_plan_proceeds [OF assms i(2)] s1_def)
  have l1: "links s1 active_sel = link_to i" "links s1 attempted_sel = link_to i"
    using i(2) by (simp_all add: s1_def)
  define s2 where "s2 = apply_ops s1
      [Replace_Link tested_sel i, Remove_State pending_sel, Remove_State event_sel, Remove_State attempted_sel]"
  have two: "mark_success complete True None s1 = (Inr (), s2)"
    using l1 i(1) by (simp add: mark_success_def fault_with_def success_plan_def required_id_def
        optional_id_link [OF i(1)] s2_def)
  have l2: "links s2 active_sel = link_to i" "links s2 tested_sel = link_to i"
    "links s2 pending_sel = No_Link" "links s2 attempted_sel = No_Link" "rollback_event s2 = None"
    using i(2) by (simp_all add: s2_def s1_def)
  have inv2: "gs_inv complete s2" using i(1) l2 by (auto simp: gs_inv_def)
  have "inspect_health complete s2 =
      Inr (Some \<lparr>active_is_tested = True, pending_present = False, attempted_unresolved = False\<rparr>)"
    using l2 by (simp add: inspect_health_def optional_id_link [OF i(1)] optional_id_none)
  moreover have "fst (prepare_boot complete True rb None s2) = Inr Proceed"
    by (simp add: prepare_boot_def fault_with_def prepare_plan_proceeds [OF inv2 l2(4,1)])
  ultimately show ?thesis using i(2) one two l2 by blast
qed

theorem success_closes_the_cycle_witness:
  "\<exists>i. links (demo_selectors\<lparr>links := (links demo_selectors)(attempted_sel := No_Link)\<rparr>) active_sel = link_to i"
proof -
  let ?s = "demo_selectors\<lparr>links := (links demo_selectors)(attempted_sel := No_Link)\<rparr>"
  have "gs_inv (\<lambda>_. True) ?s" "links ?s attempted_sel = No_Link"
    using demo_selectors_inv by (auto simp: gs_inv_def)
  from success_closes_the_cycle [OF this, of True] show ?thesis by blast
qed

theorem rollback_selects_tested_witness:
  "\<exists>s'. prepare_boot (\<lambda>_. True) True True None demo_selectors = (Inr RolledBack, s')
     \<and> links s' active_sel = link_to (demo_id (CHR ''a''))"
proof -
  have "prepare_plan (\<lambda>_. True) True demo_selectors = Inr (RolledBack,
      [Replace_Link active_sel (demo_id (CHR ''a'')), Replace_Link attempted_sel (demo_id (CHR ''a'')),
       Remove_State pending_sel,
       Write_Event (demo_id (CHR ''b'') @ '' '' @ demo_id (CHR ''a'') @ [newline])])"
    by (rule prepare_plan_rolls [OF demo_selectors_inv])
      (use demo_id_differ in \<open>auto simp: demo_selectors_def\<close>)
  then obtain s' where s': "prepare_boot (\<lambda>_. True) True True None demo_selectors = (Inr RolledBack, s')"
    by (simp add: prepare_boot_def fault_with_def)
  from rollback_selects_tested [OF s'] have "links s' active_sel = links demo_selectors tested_sel" by auto
  with s' show ?thesis by (auto simp: demo_selectors_def)
qed

end
