(* ===== verification/Boot_Dispatch.thy ===== *)
theory Boot_Dispatch
  imports Boot_Selection State_Io Generation_State
begin

text \<open>
  From the scanned generations to the one that is booted: \<open>src/main_parts/stateful.rs\<close>,
  the selection half of \<open>src/main_parts/dispatch.rs\<close>, \<open>src/ui/instant_boot.rs\<close>,
  \<open>src/policy/sentinel.rs\<close> and the path checks of \<open>src/generation_store.rs\<close>, with the features
  \<open>stateful\<close> and \<open>secure-boot\<close> on. The disk is a map from a directory to the boot files in it
  (\<open>dir_files\<close>); the interactive selector and the keyboard are parameters; the outcomes
  the operating system gives are the record \<open>boot_faults\<close>.
\<close>

subsection \<open>Configuration and disk\<close>

record store_config =
  store_mountpoint :: string
  relative_state_root :: string

record image_config =
  img_enable :: bool
  state_root :: string
  stage1_store :: "store_config option"
  automatic_rollback :: bool
  track_state :: bool
  legacy_automatic_rescue :: "bool option"

record fs_entry =
  fs_is_root :: bool
  fs_mountpoint :: string

record boot_config =
  stateful :: "nat option"
  runtime_state_mountpoint :: "string option"
  runtime_boot_mountpoint :: "string option"
  instant_boot :: bool
  nix_profiles_dir :: string
  system_root :: string
  generation_image :: "image_config option"
  generation_rollback :: bool
  sentinel_path :: string
  filesystems :: "fs_entry list"

record dir_files =
  state_bin :: state_file
  selections :: selection_files
  retry_file :: retry_marker

type_synonym disk = "string \<Rightarrow> dir_files"

record boot_faults =
  w_attempt :: write_outcome
  w_retry :: write_outcome
  w_rescue :: write_outcome
  retry_dir :: "dir_meta option"
  retry_removed :: bool
  retry_synced :: bool
  one_shot_removable :: bool

datatype nmbl_error =
    Rescue string
  | ConfigInvalid string
  | State_Error state_error
  | Retry_Error retry_error
  | Scan_Error scan_error
  | Shell_Requested
  | Selector_Failed

datatype decision = BootGen nat "string option" | Shell | Reboot

datatype boot_action = Kexec_Into generation "string option" | Act_Reboot

definition tracks_state :: "image_config \<Rightarrow> bool" where
  "tracks_state p \<longleftrightarrow>
     track_state p \<or> automatic_rollback p \<or> legacy_automatic_rescue p = Some True"

definition image_enabled :: "boot_config \<Rightarrow> bool" where
  "image_enabled cfg = (case generation_image cfg of None \<Rightarrow> False | Some g \<Rightarrow> img_enable g)"

subsection \<open>Paths\<close>

text \<open>\<open>Path::strip_prefix\<close> and \<open>Path::starts_with\<close> compare components.\<close>

definition path_strip_prefix :: "string \<Rightarrow> string \<Rightarrow> string option" where
  "path_strip_prefix base p =
     (let b = components base; c = components p
      in if take (length b) c = b then Some (path_of (drop (length b) c)) else None)"

definition path_starts_with :: "string \<Rightarrow> string \<Rightarrow> bool" where
  "path_starts_with base p \<longleftrightarrow> path_strip_prefix base p \<noteq> None"

definition path_eq :: "string \<Rightarrow> string \<Rightarrow> bool" where
  "path_eq p q \<longleftrightarrow> components p = components q"

definition resolve_mountpoint :: "string \<Rightarrow> fs_entry \<Rightarrow> string" where
  "resolve_mountpoint root entry =
     (if fs_is_root entry then root
      else let mp = fs_mountpoint entry
           in if is_absolute mp \<and> path_starts_with root mp then mp
              else if is_absolute mp then
                path_join root (case path_strip_prefix ''/'' mp of None \<Rightarrow> mp | Some t \<Rightarrow> t)
              else path_join root mp)"

definition resolve_boot_mountpoint :: "boot_config \<Rightarrow> string option" where
  "resolve_boot_mountpoint cfg =
     (case runtime_boot_mountpoint cfg of
        Some mp \<Rightarrow> Some mp
      | None \<Rightarrow>
          map_option (resolve_mountpoint (system_root cfg))
            (find (\<lambda>fs. \<not> fs_is_root fs \<and> path_eq (fs_mountpoint fs) ''/boot'') (filesystems cfg)))"

text \<open>\<open>generation_store::validate\<close>: the private mountpoint and the tree inside it.\<close>

definition is_normal :: "path_component \<Rightarrow> bool" where
  "is_normal c = (case c of Normal _ \<Rightarrow> True | _ \<Rightarrow> False)"

definition store_paths_safe :: "string \<Rightarrow> string \<Rightarrow> bool" where
  "store_paths_safe mountpoint relative \<longleftrightarrow>
     (is_absolute mountpoint \<and> \<not> path_eq mountpoint ''/''
      \<and> list_all (\<lambda>c. c = RootDir \<or> is_normal c) (components mountpoint))
     \<and> (relative \<noteq> [] \<and> \<not> is_absolute relative \<and> list_all is_normal (components relative))"

datatype mount_result = Mount_Ok | Mount_EBUSY | Mount_Err

datatype store_error = Unsafe_Store_Paths | Store_Create_Dir | Store_Mount

text \<open>
  \<open>made\<close> is whether the mountpoint could be created; \<open>m\<close>, \<open>b\<close> and \<open>r\<close> are the
  results of the mount, of the bind mount and of the superblock remount.
\<close>

definition mount_and_resolve ::
  "bool \<Rightarrow> mount_result \<Rightarrow> mount_result \<Rightarrow> bool \<Rightarrow> image_config \<Rightarrow> string option
   \<Rightarrow> store_error + string option" where
  "mount_and_resolve made m b r policy boot_mountpoint =
     (case stage1_store policy of
        None \<Rightarrow> Inr None
      | Some store \<Rightarrow>
          if \<not> store_paths_safe (store_mountpoint store) (relative_state_root store)
          then Inl Unsafe_Store_Paths
          else if \<not> made then Inl Store_Create_Dir
          else
            (let root = Some (path_join (store_mountpoint store) (relative_state_root store))
             in case m of
                  Mount_Ok \<Rightarrow> Inr root
                | Mount_EBUSY \<Rightarrow>
                    if boot_mountpoint = None then Inl Store_Mount
                    else if b \<noteq> Mount_Ok \<or> \<not> r then Inl Store_Mount
                    else Inr root
                | Mount_Err \<Rightarrow> Inl Store_Mount))"

subsection \<open>The rescue sentinel\<close>

definition join_boot_relative :: "string \<Rightarrow> string \<Rightarrow> string" where
  "join_boot_relative mountpoint configured =
     path_join mountpoint
       (case path_strip_prefix ''/boot'' configured of
          Some t \<Rightarrow> t
        | None \<Rightarrow> (case path_strip_prefix ''/'' configured of Some t \<Rightarrow> t | None \<Rightarrow> configured))"

definition resolve_sentinel_path :: "boot_config \<Rightarrow> string option" where
  "resolve_sentinel_path cfg =
     (case resolve_boot_mountpoint cfg of
        Some mp \<Rightarrow> Some (join_boot_relative mp (sentinel_path cfg))
      | None \<Rightarrow> if is_absolute (sentinel_path cfg) then Some (sentinel_path cfg) else None)"

definition sentinel_present :: "(string \<Rightarrow> bool) \<Rightarrow> boot_config \<Rightarrow> bool" where
  "sentinel_present exists cfg =
     (case resolve_sentinel_path cfg of None \<Rightarrow> False | Some p \<Rightarrow> exists p)"

definition should_force_rescue :: "(string \<Rightarrow> bool) \<Rightarrow> bool \<Rightarrow> boot_config \<Rightarrow> bool" where
  "should_force_rescue exists force_external cfg \<longleftrightarrow> force_external \<or> sentinel_present exists cfg"

text \<open>The files that exist after \<open>write_sentinel\<close>; \<open>written\<close> is whether the write succeeds.\<close>

definition write_sentinel :: "bool \<Rightarrow> boot_config \<Rightarrow> (string \<Rightarrow> bool) \<Rightarrow> string \<Rightarrow> bool" where
  "write_sentinel written cfg exists =
     (case resolve_sentinel_path cfg of
        None \<Rightarrow> exists
      | Some p \<Rightarrow> if written then exists(p := True) else exists)"

datatype remove_outcome = Removed | Remove_NotFound | Remove_Failed

text \<open>\<open>synced\<close> is whether opening and syncing the parent directory succeeds.\<close>

definition consume_pinned_sentinel ::
  "remove_outcome \<Rightarrow> bool \<Rightarrow> string \<Rightarrow> (string \<Rightarrow> bool) \<Rightarrow> bool \<times> (string \<Rightarrow> bool)" where
  "consume_pinned_sentinel r synced p exists =
     (case r of
        Remove_NotFound \<Rightarrow> (True, exists)
      | Remove_Failed \<Rightarrow> (False, exists)
      | Removed \<Rightarrow> (parent p = None \<or> synced, exists(p := False)))"

definition consume_after_rescue_booted ::
  "remove_outcome \<Rightarrow> bool \<Rightarrow> boot_config \<Rightarrow> (string \<Rightarrow> bool) \<Rightarrow> bool \<times> (string \<Rightarrow> bool)" where
  "consume_after_rescue_booted r synced cfg exists =
     (case resolve_sentinel_path cfg of
        None \<Rightarrow> (True, exists)
      | Some p \<Rightarrow> consume_pinned_sentinel r synced p exists)"

subsection \<open>Instant boot\<close>

record instant_boot_inputs =
  ib_enabled :: bool
  ib_last_boot_succeeded :: bool
  ib_stateful_rollback_active :: bool
  ib_generation_rollback_active :: bool
  ib_rescue_sentinel_present :: bool
  ib_pending_untested_generation :: bool
  ib_key_pressed :: bool

datatype decline_reason =
    Disabled | LastBootNotHealthy | StatefulRollbackActive | GenerationRollbackActive
  | RescueSentinelPresent | PendingUntestedGeneration | KeyPressedDuringEarlyBoot

datatype instant_boot_decision = BootImmediately | UseNormalTimer decline_reason

definition decide_instant_boot :: "instant_boot_inputs \<Rightarrow> instant_boot_decision" where
  "decide_instant_boot i =
     (if \<not> ib_enabled i then UseNormalTimer Disabled
      else if \<not> ib_last_boot_succeeded i then UseNormalTimer LastBootNotHealthy
      else if ib_stateful_rollback_active i then UseNormalTimer StatefulRollbackActive
      else if ib_generation_rollback_active i then UseNormalTimer GenerationRollbackActive
      else if ib_rescue_sentinel_present i then UseNormalTimer RescueSentinelPresent
      else if ib_pending_untested_generation i then UseNormalTimer PendingUntestedGeneration
      else if ib_key_pressed i then UseNormalTimer KeyPressedDuringEarlyBoot
      else BootImmediately)"

definition gen_state_root :: "boot_config \<Rightarrow> image_config \<Rightarrow> string option" where
  "gen_state_root cfg policy =
     (case stage1_store policy of
        Some s \<Rightarrow> Some (path_join (store_mountpoint s) (relative_state_root s))
      | None \<Rightarrow>
          Option.bind (runtime_boot_mountpoint cfg)
            (\<lambda>boot. map_option (path_join boot) (path_strip_prefix ''/boot'' (state_root policy))))"

text \<open>
  The facts, read in the code's order: first \<open>state.bin\<close>, then the signed generation
  state, which overrides the health of the former. \<open>complete\<close> and \<open>selectors\<close> are what
  \<open>inspect_health\<close> finds under a state root.
\<close>

definition stateful_inputs ::
  "'v codec \<Rightarrow> profile_fs \<Rightarrow> boot_config \<Rightarrow> disk \<Rightarrow> bool \<times> instant_boot_inputs
   \<Rightarrow> bool \<times> instant_boot_inputs" where
  "stateful_inputs cd fs cfg d ki =
     (case (stateful cfg, runtime_state_mountpoint cfg) of
        (Some _, Some mp) \<Rightarrow>
          (case read_state cd (state_bin (d (path_join mp ''nmbl''))) of
             Inr (Some st) \<Rightarrow>
               (let active = active_profile_generation fs (nix_profiles_dir cfg);
                    i = (snd ki)\<lparr>ib_last_boot_succeeded := last_boot_succeeded st,
                                 ib_stateful_rollback_active :=
                                   (\<not> last_boot_succeeded st \<and> last_attempted_generation st \<noteq> None)\<rparr>
                in (True, if active_is_unproven st active
                          then i\<lparr>ib_pending_untested_generation := True\<rparr> else i))
           | _ \<Rightarrow> ki)
      | _ \<Rightarrow> ki)"

definition image_inputs ::
  "(string \<Rightarrow> bool) \<Rightarrow> (string \<Rightarrow> gen_state) \<Rightarrow> boot_config \<Rightarrow> bool \<times> instant_boot_inputs
   \<Rightarrow> bool \<times> instant_boot_inputs" where
  "image_inputs complete selectors cfg ki =
     (case generation_image cfg of
        None \<Rightarrow> ki
      | Some policy \<Rightarrow>
          if img_enable policy \<and> tracks_state policy then
            (let i = (snd ki)\<lparr>ib_generation_rollback_active := generation_rollback cfg\<rparr>
             in case gen_state_root cfg policy of
                  None \<Rightarrow> (fst ki, i)
                | Some root \<Rightarrow>
                    (case inspect_health complete (selectors root) of
                       Inr (Some health) \<Rightarrow>
                         (True, i\<lparr>ib_last_boot_succeeded := active_is_tested health,
                                  ib_pending_untested_generation :=
                                    (ib_pending_untested_generation i \<or> pending_present health),
                                  ib_stateful_rollback_active :=
                                    (ib_stateful_rollback_active i \<or> attempted_unresolved health)\<rparr>)
                     | _ \<Rightarrow> (fst ki, i)))
          else ki)"

definition gather_instant_boot_inputs ::
  "'v codec \<Rightarrow> profile_fs \<Rightarrow> (string \<Rightarrow> bool) \<Rightarrow> (string \<Rightarrow> bool) \<Rightarrow> (string \<Rightarrow> gen_state)
   \<Rightarrow> boot_config \<Rightarrow> bool \<Rightarrow> disk \<Rightarrow> instant_boot_inputs" where
  "gather_instant_boot_inputs cd fs exists complete selectors cfg key_pressed d =
     (let base = \<lparr>ib_enabled = instant_boot cfg, ib_last_boot_succeeded = False,
                  ib_stateful_rollback_active = False, ib_generation_rollback_active = False,
                  ib_rescue_sentinel_present = sentinel_present exists cfg,
                  ib_pending_untested_generation = False, ib_key_pressed = key_pressed\<rparr>;
          (health_known, i) = image_inputs complete selectors cfg (stateful_inputs cd fs cfg d (False, base))
      in if health_known then i else i\<lparr>ib_last_boot_succeeded := False\<rparr>)"

subsection \<open>Selecting under the boot state\<close>

definition state_dir :: "boot_config \<Rightarrow> string option" where
  "state_dir cfg =
     (case runtime_state_mountpoint cfg of
        Some mp \<Rightarrow> Some (path_join mp ''nmbl'')
      | None \<Rightarrow> map_option (\<lambda>b. path_join b ''nmbl'') (runtime_boot_mountpoint cfg))"

definition set_state :: "string \<Rightarrow> state_file \<Rightarrow> disk \<Rightarrow> disk" where
  "set_state dir f d = d(dir := (d dir)\<lparr>state_bin := f\<rparr>)"

text \<open>The flag is whether the attempt reached the disk; its absence is only logged.\<close>

definition record_attempt ::
  "'v codec \<Rightarrow> write_outcome \<Rightarrow> boot_state \<Rightarrow> generation list \<Rightarrow> nat \<Rightarrow> state_file
   \<Rightarrow> bool \<times> state_file" where
  "record_attempt cd w st gens idx f =
     (case get_at gens idx of
        None \<Rightarrow> (False, f)
      | Some target \<Rightarrow>
          (case nonmax_new (number target) of
             None \<Rightarrow> (False, f)
           | Some n \<Rightarrow>
               (case write_padded cd w
                       (st\<lparr>last_attempted_generation := Some n, last_boot_succeeded := False\<rparr>) f of
                  (Inr _, f') \<Rightarrow> (True, f')
                | (Inl _, f') \<Rightarrow> (False, f'))))"

definition exhausted_rescue_error :: nmbl_error where
  "exhausted_rescue_error = Rescue ''stateful-exhausted''"

text \<open>What both selections do with the decision; \<open>pick\<close> answers \<open>HonourTui\<close>.\<close>

definition act_on_decision ::
  "'v codec \<Rightarrow> write_outcome \<Rightarrow> generation list \<Rightarrow> (nmbl_error + decision) \<Rightarrow> string
   \<Rightarrow> boot_state \<times> stateful_decision \<Rightarrow> disk \<Rightarrow> (nmbl_error + decision) \<times> bool \<times> disk" where
  "act_on_decision cd w gens pick dir sd d =
     (let f = state_bin (d dir);
          record = (\<lambda>idx. let (wrote, f') = record_attempt cd w (fst sd) gens idx f
                          in (wrote, set_state dir f' d))
      in case snd sd of
           HonourTui \<Rightarrow>
             (case pick of
                Inr (BootGen idx over) \<Rightarrow> (pick, record idx)
              | _ \<Rightarrow> (pick, (False, d)))
         | ForcePick idx \<Rightarrow>
             (case get_at gens idx of
                None \<Rightarrow> (Inl (ConfigInvalid ''stateful dispatch''), (False, d))
              | Some _ \<Rightarrow> (Inr (BootGen idx None), record idx))
         | Exhausted \<Rightarrow> (Inl exhausted_rescue_error, (False, d)))"

text \<open>
  \<open>select_with_stateful\<close> and \<open>select_default_with_stateful\<close>; they differ in
  \<open>pick\<close>: the interactive selector, or the default generation.
\<close>

definition select_by_state ::
  "'v codec \<Rightarrow> write_outcome \<Rightarrow> profile_fs \<Rightarrow> boot_config \<Rightarrow> generation list
   \<Rightarrow> (nmbl_error + decision) \<Rightarrow> disk \<Rightarrow> (nmbl_error + decision) \<times> bool \<times> disk" where
  "select_by_state cd w fs cfg gens pick d =
     (case (stateful cfg, runtime_state_mountpoint cfg) of
        (Some max_attempts, Some mp) \<Rightarrow>
          (let dir = path_join mp ''nmbl''
           in case read_state cd (state_bin (d dir)) of
                Inr (Some st) \<Rightarrow>
                  act_on_decision cd w gens pick dir
                    (decide st gens (active_generation_index fs gens (nix_profiles_dir cfg)) max_attempts) d
              | _ \<Rightarrow> (pick, (False, d)))
      | _ \<Rightarrow> (pick, (False, d)))"

definition select_with_stateful where
  "select_with_stateful cd w fs cfg gens selector default_index d =
     select_by_state cd w fs cfg gens (selector default_index) d"

definition select_default_with_stateful where
  "select_default_with_stateful cd w fs cfg gens default_index d =
     select_by_state cd w fs cfg gens (Inr (BootGen default_index None)) d"

subsection \<open>Retries and the remembered default\<close>

definition index_of :: "generation list \<Rightarrow> nat \<Rightarrow> nat option" where
  "index_of gens n = position (\<lambda>g. number g = n) gens"

definition set_retry :: "string \<Rightarrow> retry_marker \<Rightarrow> disk \<Rightarrow> disk" where
  "set_retry dir m d = d(dir := (d dir)\<lparr>retry_file := m\<rparr>)"

definition select_operator_retry ::
  "'v codec \<Rightarrow> boot_faults \<Rightarrow> boot_config \<Rightarrow> generation list \<Rightarrow> disk
   \<Rightarrow> (nmbl_error + decision option) \<times> disk" where
  "select_operator_retry cd flt cfg gens d =
     (if image_enabled cfg then (Inr None, d)
      else case state_dir cfg of
        None \<Rightarrow> (Inr None, d)
      | Some dir \<Rightarrow>
          (case take_retry (retry_dir flt) (retry_removed flt) (retry_synced flt)
                  (map number gens) (retry_file (d dir)) of
             (Inl e, m) \<Rightarrow> (Inl (Retry_Error e), set_retry dir m d)
           | (Inr None, m) \<Rightarrow> (Inr None, set_retry dir m d)
           | (Inr (Some n), m) \<Rightarrow>
               (let d1 = set_retry dir m d in
                case index_of gens n of
                  None \<Rightarrow> (Inl (ConfigInvalid ''retry profile missing''), d1)
                | Some index \<Rightarrow>
                    if stateful cfg = None then (Inr (Some (BootGen index None)), d1)
                    else
                      (case read_state cd (state_bin (d1 dir)) of
                         Inl e \<Rightarrow> (Inl (State_Error e), d1)
                       | Inr None \<Rightarrow>
                           (Inl (ConfigInvalid ''retry requires supported persistent boot state''), d1)
                       | Inr (Some st) \<Rightarrow>
                           (case record_operator_retry st gens n of
                              (_, None) \<Rightarrow> (Inl (ConfigInvalid ''invalid retry generation''), d1)
                            | (st', Some _) \<Rightarrow>
                                (case write_padded cd (w_retry flt) st' (state_bin (d1 dir)) of
                                   (Inl e, f') \<Rightarrow> (Inl (State_Error e), set_state dir f' d1)
                                 | (Inr _, f') \<Rightarrow>
                                     (Inr (Some (BootGen index None)), set_state dir f' d1)))))))"

definition select_rescue_exit_retry ::
  "'v codec \<Rightarrow> boot_faults \<Rightarrow> boot_config \<Rightarrow> generation list \<Rightarrow> disk
   \<Rightarrow> (nmbl_error + decision option) \<times> disk" where
  "select_rescue_exit_retry cd flt cfg gens d =
     (if image_enabled cfg \<or> stateful cfg = None then (Inr None, d)
      else case state_dir cfg of
        None \<Rightarrow> (Inr None, d)
      | Some dir \<Rightarrow>
          (case take_rescue_exit_retry cd (w_rescue flt) (map number gens) (state_bin (d dir)) of
             (Inl e, f') \<Rightarrow> (Inl (State_Error e), set_state dir f' d)
           | (Inr None, f') \<Rightarrow> (Inr None, set_state dir f' d)
           | (Inr (Some n), f') \<Rightarrow>
               (Inr (map_option (\<lambda>i. BootGen i None) (index_of gens n)), set_state dir f' d)))"

definition resolve_default_index :: "profile_fs \<Rightarrow> boot_config \<Rightarrow> generation list \<Rightarrow> disk \<Rightarrow> nat" where
  "resolve_default_index fs cfg gens d =
     (let active = active_generation_index fs gens (nix_profiles_dir cfg)
      in if image_enabled cfg then active
         else case state_dir cfg of
           None \<Rightarrow> active
         | Some dir \<Rightarrow>
             (let available = map number gens;
                  fallback = (case get_at gens active of
                      None \<Rightarrow> (case max_number available of None \<Rightarrow> 0 | Some n \<Rightarrow> n)
                    | Some g \<Rightarrow> number g);
                  target = resolve_default_number (selections (d dir)) available fallback
              in case index_of gens target of None \<Rightarrow> active | Some i \<Rightarrow> i))"

definition consume_one_shot_if_any :: "boot_faults \<Rightarrow> boot_config \<Rightarrow> disk \<Rightarrow> disk" where
  "consume_one_shot_if_any flt cfg d =
     (if image_enabled cfg then d
      else case state_dir cfg of
        None \<Rightarrow> d
      | Some dir \<Rightarrow>
          d(dir := (d dir)\<lparr>selections := consume_one_shot (one_shot_removable flt) (selections (d dir))\<rparr>))"

subsection \<open>Phases four to six\<close>

definition choose_decision ::
  "'v codec \<Rightarrow> boot_faults \<Rightarrow> profile_fs \<Rightarrow> boot_config \<Rightarrow> generation list \<Rightarrow> bool
   \<Rightarrow> (nat \<Rightarrow> nmbl_error + decision) \<Rightarrow> disk \<Rightarrow> (nmbl_error + decision) \<times> disk" where
  "choose_decision cd flt fs cfg gens skip selector d =
     (case select_operator_retry cd flt cfg gens d of
        (Inl e, d1) \<Rightarrow> (Inl e, d1)
      | (Inr (Some dc), d1) \<Rightarrow> (Inr dc, d1)
      | (Inr None, d1) \<Rightarrow>
          (case select_rescue_exit_retry cd flt cfg gens d1 of
             (Inl e, d2) \<Rightarrow> (Inl e, d2)
           | (Inr (Some dc), d2) \<Rightarrow> (Inr dc, d2)
           | (Inr None, d2) \<Rightarrow>
               (let idx = resolve_default_index fs cfg gens d2;
                    (r, _, d3) =
                      (if skip then select_default_with_stateful cd (w_attempt flt) fs cfg gens idx d2
                       else select_with_stateful cd (w_attempt flt) fs cfg gens selector idx d2)
                in (r, d3))))"

text \<open>\<open>select_and_act\<close> up to the hand-over to \<open>kexec_into\<close>, which is the value \<open>Kexec_Into\<close>.\<close>

definition select_and_act ::
  "'v codec \<Rightarrow> boot_faults \<Rightarrow> profile_fs \<Rightarrow> (string \<Rightarrow> bool) \<Rightarrow> (string \<Rightarrow> bool)
   \<Rightarrow> (string \<Rightarrow> gen_state) \<Rightarrow> boot_config \<Rightarrow> bool \<Rightarrow> bool \<Rightarrow> (nat \<Rightarrow> nmbl_error + decision)
   \<Rightarrow> disk \<Rightarrow> (nmbl_error + boot_action) \<times> disk" where
  "select_and_act cd flt fs exists complete selectors cfg key_pressed skip_selector selector d =
     (if sentinel_present exists cfg then (Inl (Rescue ''rescue-sentinel''), d)
      else case scan_generations fs (nix_profiles_dir cfg) (system_root cfg) of
        Inl e \<Rightarrow> (Inl (Scan_Error e), d)
      | Inr gens \<Rightarrow>
          (let instant = (decide_instant_boot
                 (gather_instant_boot_inputs cd fs exists complete selectors cfg key_pressed d)
                   = BootImmediately)
           in case choose_decision cd flt fs cfg gens (skip_selector \<or> instant) selector d of
                (Inl e, d') \<Rightarrow> (Inl e, d')
              | (Inr (BootGen idx over), d') \<Rightarrow>
                  (case get_at gens idx of
                     None \<Rightarrow> (Inl (ConfigInvalid ''decision dispatch''), d')
                   | Some target \<Rightarrow> (Inr (Kexec_Into target over), consume_one_shot_if_any flt cfg d'))
              | (Inr Shell, d') \<Rightarrow> (Inl Shell_Requested, d')
              | (Inr Reboot, d') \<Rightarrow> (Inr Act_Reboot, d')))"

subsection \<open>Lemmas\<close>

lemma index_of_SomeD: "index_of gens n = Some i \<Longrightarrow> i < length gens \<and> number (gens ! i) = n"
  by (auto simp: index_of_def dest: position_SomeD)

lemma set_state_simps [simp]:
  "state_bin (set_state dir f d dir) = f"
  "selections (set_state dir f d e) = selections (d e)"
  "retry_file (set_state dir f d e) = retry_file (d e)"
  "e \<noteq> dir \<Longrightarrow> set_state dir f d e = d e"
  by (simp_all add: set_state_def)

lemma set_retry_simps [simp]:
  "retry_file (set_retry dir m d dir) = m"
  "selections (set_retry dir m d e) = selections (d e)"
  "state_bin (set_retry dir m d e) = state_bin (d e)"
  by (simp_all add: set_retry_def)

lemma decide_instant_boot_iff:
  "decide_instant_boot i = BootImmediately \<longleftrightarrow>
     ib_enabled i \<and> ib_last_boot_succeeded i \<and> \<not> ib_stateful_rollback_active i
     \<and> \<not> ib_generation_rollback_active i \<and> \<not> ib_rescue_sentinel_present i
     \<and> \<not> ib_pending_untested_generation i \<and> \<not> ib_key_pressed i"
  by (simp add: decide_instant_boot_def)

lemma resolve_default_index_less:
  assumes "gens \<noteq> []"
  shows "resolve_default_index fs cfg gens d < length gens"
  using active_generation_index_less [OF assms, of fs "nix_profiles_dir cfg"]
  by (auto simp: resolve_default_index_def Let_def split: option.splits dest: index_of_SomeD)

text \<open>A write that succeeds is what the next read finds, for every state read before.\<close>

lemma write_then_read:
  assumes "codec_ok cd" "write_padded cd w st' f = (Inr (), f')"
    and "read_state cd f0 = Inr (Some st)" "state_format_version st' = state_format_version st"
  shows "read_state cd f' = Inr (Some st')"
  using read_after_write [OF assms(1,2)] read_state_versionD [OF assms(3)] assms(4) by simp

lemma rescue_retry_SomeD:
  assumes "codec_ok cd"
    and "take_rescue_exit_retry cd w available f = (Inr (Some n), f')"
  shows "\<exists>st. read_state cd f = Inr (Some st) \<and> rescue_booted_generation st = Some n
    \<and> last_attempted_generation st = Some n \<and> n \<in> set available
    \<and> read_state cd f' = Inr (Some (st\<lparr>rescue_booted_generation := None,
                                       rescue_exit_retry_in_progress := True\<rparr>))"
proof -
  from assms(2) obtain st where st: "read_state cd f = Inr (Some st)"
    "rescue_booted_generation st = Some n" "last_attempted_generation st = Some n"
    "n \<in> set available"
    "write_padded cd w (st\<lparr>rescue_booted_generation := None,
                           rescue_exit_retry_in_progress := True\<rparr>) f = (Inr (), f')"
    by (auto simp: take_rescue_exit_retry_def Let_def
        split: sum.splits option.splits prod.splits if_splits)
  with write_then_read [OF assms(1) st(5,1)] show ?thesis by auto
qed

lemma take_rescue_exit_retry_spent:
  "read_state cd f = Inr (Some st) \<Longrightarrow> rescue_booted_generation st = None \<Longrightarrow>
   take_rescue_exit_retry cd w available f = (Inr None, f)"
  by (simp add: take_rescue_exit_retry_def)

lemma decide_in_progress:
  "\<not> last_boot_succeeded st \<Longrightarrow> rescue_exit_retry_in_progress st \<Longrightarrow>
   decide st gens ai mx = (st, Exhausted)"
  by (simp add: decide_def)

lemma select_operator_retry_none:
  "state_dir cfg = Some dir \<Longrightarrow> retry_file (d dir) = No_Marker \<Longrightarrow>
   \<exists>d'. select_operator_retry cd flt cfg gens d = (Inr None, d') \<and> (\<forall>e. state_bin (d' e) = state_bin (d e))"
  by (cases "image_enabled cfg")
    (auto simp: select_operator_retry_def take_retry_def take_retry_owned_def)

lemma select_by_state_decides:
  assumes "stateful cfg = Some mx" "runtime_state_mountpoint cfg = Some mp"
    and "read_state cd (state_bin (d (path_join mp ''nmbl''))) = Inr (Some st)"
  shows "select_by_state cd w fs cfg gens pick d =
    act_on_decision cd w gens pick (path_join mp ''nmbl'')
      (decide st gens (active_generation_index fs gens (nix_profiles_dir cfg)) mx) d"
  using assms by (simp add: select_by_state_def)

lemma choose_without_retries:
  assumes "state_dir cfg = Some dir" "retry_file (d dir) = No_Marker"
    and "read_state cd (state_bin (d dir)) = Inr (Some st)" "rescue_booted_generation st = None"
    and "runtime_state_mountpoint cfg = Some mp" "stateful cfg = Some mx"
  shows "\<exists>pick d'. (\<forall>e. state_bin (d' e) = state_bin (d e))
    \<and> choose_decision cd flt fs cfg gens skip selector d =
      (let (r, _, d3) = act_on_decision cd (w_attempt flt) gens pick dir
           (decide st gens (active_generation_index fs gens (nix_profiles_dir cfg)) mx) d'
       in (r, d3))"
proof -
  from assms have dir: "dir = path_join mp ''nmbl''" by (simp add: state_dir_def)
  obtain d1 where d1: "select_operator_retry cd flt cfg gens d = (Inr None, d1)"
    "\<And>e. state_bin (d1 e) = state_bin (d e)"
    using select_operator_retry_none [of cfg dir d] assms(1,2) by metis
  have read1: "read_state cd (state_bin (d1 dir)) = Inr (Some st)" using d1(2) assms(3) by simp
  obtain d2 where d2: "select_rescue_exit_retry cd flt cfg gens d1 = (Inr None, d2)"
    "\<And>e. state_bin (d2 e) = state_bin (d1 e)"
  proof (cases "image_enabled cfg")
    case True
    then show ?thesis using that by (simp add: select_rescue_exit_retry_def)
  next
    case False
    have "state_bin (set_state dir (state_bin (d1 dir)) d1 e) = state_bin (d1 e)" for e
      by (cases "e = dir") simp_all
    with False assms that show ?thesis
      by (simp add: select_rescue_exit_retry_def take_rescue_exit_retry_spent [OF read1])
  qed
  have read2: "read_state cd (state_bin (d2 (path_join mp ''nmbl''))) = Inr (Some st)"
    using read1 d2(2) dir by simp
  note sel = select_by_state_decides [where d = d2, OF assms(6,5) read2]
  show ?thesis
    using d1 d2 by (cases skip) (auto simp: choose_decision_def Let_def
        select_default_with_stateful_def select_with_stateful_def sel dir)
qed

text \<open>C2: a rescue authorises one retry of the failed generation and no more. The retry names the
  generation that failed and is installed; its permission is on disk before the boot; and when
  that boot fails too, the next one goes to rescue, whatever the operator or the default asks.\<close>

theorem rescue_exit_retry_once:
  assumes "codec_ok cd" "runtime_state_mountpoint cfg = Some mp" "dir = path_join mp ''nmbl''"
    and "select_rescue_exit_retry cd flt cfg gens d = (Inr (Some dc), d')"
    and "retry_file (d' dir) = No_Marker"
  shows "(\<exists>i st. dc = BootGen i None \<and> i < length gens
            \<and> read_state cd (state_bin (d dir)) = Inr (Some st)
            \<and> last_attempted_generation st = Some (number (gens ! i)) \<and> \<not> last_boot_succeeded st)
    \<and> fst (choose_decision cd flt' fs cfg gens' skip selector d') = Inl (Rescue ''stateful-exhausted'')"
proof -
  have sd: "state_dir cfg = Some dir" using assms(2,3) by (simp add: state_dir_def)
  from assms(4) sd obtain n f' mx where n: "stateful cfg = Some mx"
    "take_rescue_exit_retry cd (w_rescue flt) (map number gens) (state_bin (d dir)) = (Inr (Some n), f')"
    "map_option (\<lambda>i. BootGen i None) (index_of gens n) = Some dc" "d' = set_state dir f' d"
    by (auto simp: select_rescue_exit_retry_def split: if_splits option.splits sum.splits prod.splits)
  from rescue_retry_SomeD [OF assms(1) n(2)] obtain st where st:
    "read_state cd (state_bin (d dir)) = Inr (Some st)" "last_attempted_generation st = Some n"
    "read_state cd f' = Inr (Some (st\<lparr>rescue_booted_generation := None,
                                     rescue_exit_retry_in_progress := True\<rparr>))"
    by blast
  have failed: "\<not> last_boot_succeeded st"
    using n(2) st(1) by (auto simp: take_rescue_exit_retry_def Let_def
        split: option.splits prod.splits sum.splits if_splits)
  let ?st = "st\<lparr>rescue_booted_generation := None, rescue_exit_retry_in_progress := True\<rparr>"
  have read: "read_state cd (state_bin (d' dir)) = Inr (Some ?st)" using n(4) st(3) by simp
  from choose_without_retries [where d = d', OF sd assms(5) read _ assms(2) n(1), of flt' fs gens' skip selector]
  have "fst (choose_decision cd flt' fs cfg gens' skip selector d') = Inl exhausted_rescue_error"
    using failed by (auto simp: decide_in_progress act_on_decision_def Let_def)
  then show ?thesis
    using n(3) st(1,2) failed by (auto simp: exhausted_rescue_error_def dest: index_of_SomeD)
qed

definition demo_config :: boot_config where
  "demo_config =
     \<lparr>stateful = Some 3, runtime_state_mountpoint = Some ''/s'', runtime_boot_mountpoint = None,
      instant_boot = True, nix_profiles_dir = ''/p'', system_root = ''/r'', generation_image = None,
      generation_rollback = False, sentinel_path = ''/boot/nmbl/rescue'', filesystems = []\<rparr>"

definition demo_disk :: "state_file \<Rightarrow> disk" where
  "demo_disk f = (\<lambda>_. \<lparr>state_bin = f, selections = \<lparr>boot_once = None, boot_default = None\<rparr>,
                      retry_file = No_Marker\<rparr>)"

definition demo_faults :: boot_faults where
  "demo_faults = \<lparr>w_attempt = Write_Done, w_retry = Write_Done, w_rescue = Write_Done,
     retry_dir = Some demo_dir, retry_removed = True, retry_synced = True, one_shot_removable = True\<rparr>"

definition demo_fs :: profile_fs where
  "demo_fs = \<lparr>read_dir = (\<lambda>_. None), symlink_metadata = (\<lambda>_. None), read_link = (\<lambda>_. None),
     read_to_string = (\<lambda>_. None), try_exists = (\<lambda>_. None), stat_dev = (\<lambda>_. None)\<rparr>"

definition demo_selector :: "nat \<Rightarrow> nmbl_error + decision" where
  "demo_selector i = Inr (BootGen i None)"

definition demo_rescued :: boot_state where
  "demo_rescued = default_state\<lparr>last_boot_succeeded := False, last_attempted_generation := Some 2,
     rescue_booted_generation := Some 2\<rparr>"

definition demo_rescued_codec :: "unit codec" where
  "demo_rescued_codec = table_codec
     [demo_rescued, demo_rescued\<lparr>rescue_booted_generation := None, rescue_exit_retry_in_progress := True\<rparr>]"

theorem rescue_exit_retry_once_witness:
  "\<exists>d'. select_rescue_exit_retry demo_rescued_codec demo_faults demo_config
          [demo_generation 3, demo_generation 2] (demo_disk (Content [byte 1]))
        = (Inr (Some (BootGen 1 None)), d')
     \<and> fst (choose_decision demo_rescued_codec demo_faults demo_fs demo_config [demo_generation 3] True demo_selector d')
        = Inl (Rescue ''stateful-exhausted'')"
proof -
  let ?cd = demo_rescued_codec
  let ?st = "demo_rescued\<lparr>rescue_booted_generation := None, rescue_exit_retry_in_progress := True\<rparr>"
  have cd: "codec_ok ?cd" by (simp add: demo_rescued_codec_def table_codec_ok)
  have read: "read_state ?cd (Content [byte 1]) = Inr (Some demo_rescued)"
    using table_codec_read [of 0 "[demo_rescued, ?st]"]
    by (simp add: demo_rescued_codec_def demo_rescued_def default_state_def)
  have ne: "demo_rescued \<noteq> ?st" by (simp add: demo_rescued_def default_state_def)
  have wr: "write_padded ?cd Write_Done ?st f = (Inr (), Content (pad_to_slot [byte 2]))" for f
    using table_codec_write [of ?st "[demo_rescued, ?st]" 1] ne
    by (simp add: demo_rescued_codec_def numeral_2_eq_2)
  have take: "take_rescue_exit_retry ?cd Write_Done [3, 2] (Content [byte 1])
      = (Inr (Some 2), Content (pad_to_slot [byte 2]))"
    using wr read
    by (simp add: take_rescue_exit_retry_def Let_def) (simp add: demo_rescued_def)
  define d' where "d' = set_state (path_join ''/s'' ''nmbl'') (Content (pad_to_slot [byte 2]))
      (demo_disk (Content [byte 1]))"
  have sel: "select_rescue_exit_retry ?cd demo_faults demo_config
      [demo_generation 3, demo_generation 2] (demo_disk (Content [byte 1]))
      = (Inr (Some (BootGen 1 None)), d')"
    using take by (simp add: select_rescue_exit_retry_def image_enabled_def state_dir_def
        demo_config_def demo_faults_def demo_generation_def index_of_def d'_def)
      (simp add: demo_disk_def index_of_def)
  from rescue_exit_retry_once [OF cd _ refl sel, of "''/s''" demo_faults demo_fs "[demo_generation 3]" True demo_selector]
  show ?thesis using sel by (auto simp: demo_config_def d'_def demo_disk_def)
qed

subsection \<open>The recovery budget\<close>

text \<open>
  \<open>failed_boots \<dots> d n d'\<close>: starting from disk \<open>d\<close>, \<open>n\<close> boots in a row were started by the
  selection, each attempt reached the disk, and none of them marked itself a success; \<open>d'\<close> is the
  disk the next boot finds. The profile links and the selector may differ at every boot.
\<close>

inductive failed_boots :: "'v codec \<Rightarrow> boot_config \<Rightarrow> disk \<Rightarrow> nat \<Rightarrow> disk \<Rightarrow> bool"
  for cd :: "'v codec" and cfg :: boot_config where
  no_boot: "failed_boots cd cfg d 0 d"
| one_boot: "failed_boots cd cfg d n d1 \<Longrightarrow>
     select_by_state cd w fs cfg gens pick d1 = (Inr (BootGen i over), True, d2) \<Longrightarrow>
     failed_boots cd cfg d (Suc n) d2"

inductive_cases failed_boots_SucE: "failed_boots cd cfg d (Suc n) d'"

inductive_simps failed_boots_0_iff: "failed_boots cd cfg d 0 d'"

lemma record_attempt_TrueD:
  assumes "codec_ok cd" "record_attempt cd w st gens idx f = (True, f')"
    and "read_state cd f0 = Inr (Some st0)" "state_format_version st = state_format_version st0"
  shows "idx < length gens \<and> read_state cd f' =
    Inr (Some (st\<lparr>last_attempted_generation := Some (number (gens ! idx)), last_boot_succeeded := False\<rparr>))"
proof -
  from assms(2) have i: "idx < length gens"
    "write_padded cd w (st\<lparr>last_attempted_generation := Some (number (gens ! idx)),
                          last_boot_succeeded := False\<rparr>) f = (Inr (), f')"
    by (auto simp: record_attempt_def Let_def get_at_Some_iff nonmax_new_def
        split: option.splits prod.splits sum.splits if_splits)
  from write_then_read [OF assms(1) i(2) assms(3)] assms(4) i(1) show ?thesis by simp
qed

lemma decide_version: "decide st gens ai mx = (st', d) \<Longrightarrow> state_format_version st' = state_format_version st"
  by (auto simp: decide_def Let_def split: if_splits option.splits)

lemma decide_failed:
  assumes "\<not> last_boot_succeeded st" "last_attempted_generation st \<noteq> None"
    and "decide st gens ai mx = (st', r)"
  shows "(r = Exhausted \<and> recovery_attempt st' = recovery_attempt st)
    \<or> (\<exists>i. r = ForcePick i \<and> recovery_attempt st < mx
          \<and> recovery_attempt st' = sat_add u32_max (recovery_attempt st) 1)"
  using assms by (auto simp: decide_def Let_def split: if_splits option.splits)

lemma failed_boot_step:
  assumes "codec_ok cd" "stateful cfg = Some mx" "mx \<le> u32_max"
    and "runtime_state_mountpoint cfg = Some mp" "dir = path_join mp ''nmbl''"
    and "read_state cd (state_bin (d dir)) = Inr (Some st)"
    and "\<not> last_boot_succeeded st" "last_attempted_generation st \<noteq> None"
    and "select_by_state cd w fs cfg gens pick d = (Inr (BootGen i over), True, d')"
  shows "recovery_attempt st < mx \<and> (\<exists>st'. read_state cd (state_bin (d' dir)) = Inr (Some st')
    \<and> \<not> last_boot_succeeded st' \<and> last_attempted_generation st' \<noteq> None
    \<and> recovery_attempt st' = Suc (recovery_attempt st))"
proof -
  obtain st1 r where dec: "decide st gens (active_generation_index fs gens (nix_profiles_dir cfg)) mx = (st1, r)"
    by fastforce
  have sel: "act_on_decision cd w gens pick dir (st1, r) d = (Inr (BootGen i over), True, d')"
    using select_by_state_decides [where d = d and cd = cd and st = st, OF assms(2,4)]
      assms(5,6,9) dec by metis
  from decide_failed [OF assms(7,8) dec] sel obtain j where j: "r = ForcePick j"
    "recovery_attempt st < mx" "recovery_attempt st1 = sat_add u32_max (recovery_attempt st) 1"
    by (auto simp: act_on_decision_def exhausted_rescue_error_def Let_def)
  with sel obtain f' where f': "record_attempt cd w st1 gens j (state_bin (d dir)) = (True, f')"
    "d' = set_state dir f' d"
    by (auto simp: act_on_decision_def Let_def split: option.splits prod.splits)
  from record_attempt_TrueD [OF assms(1) f'(1) assms(6)] decide_version [OF dec]
  show ?thesis using j assms(3) f'(2) by (auto simp: sat_add_def)
qed

lemma failed_boots_budget:
  assumes "failed_boots cd cfg d n d'"
    and "codec_ok cd" "stateful cfg = Some mx" "mx \<le> u32_max"
    and "runtime_state_mountpoint cfg = Some mp" "dir = path_join mp ''nmbl''"
    and "read_state cd (state_bin (d dir)) = Inr (Some st)"
    and "\<not> last_boot_succeeded st" "last_attempted_generation st \<noteq> None"
  shows "(0 < n \<longrightarrow> recovery_attempt st + n \<le> mx)
    \<and> (\<exists>st'. read_state cd (state_bin (d' dir)) = Inr (Some st')
        \<and> \<not> last_boot_succeeded st' \<and> last_attempted_generation st' \<noteq> None
        \<and> recovery_attempt st' = recovery_attempt st + n)"
  using assms
proof (induction rule: failed_boots.induct)
  case (no_boot d)
  then show ?case by auto
next
  case (one_boot d n d1 w fs gens pick i over d2)
  then obtain st1 where st1: "read_state cd (state_bin (d1 dir)) = Inr (Some st1)"
    "\<not> last_boot_succeeded st1" "last_attempted_generation st1 \<noteq> None"
    "recovery_attempt st1 = recovery_attempt st + n"
    by blast
  from failed_boot_step [OF one_boot.prems(1-5) st1(1-3) one_boot.hyps(2)] st1(4)
  show ?case by auto
qed


definition demo_failed :: boot_state where
  "demo_failed = default_state\<lparr>last_boot_succeeded := False, last_attempted_generation := Some 3,
     recovery_attempt := 2\<rparr>"

definition demo_failed_next :: boot_state where
  "demo_failed_next = demo_failed\<lparr>last_attempted_generation := Some 2, recovery_attempt := 3\<rparr>"

lemma demo_failed_decides:
  "decide demo_failed [demo_generation 3, demo_generation 2] 0 3
    = (demo_failed\<lparr>recovery_attempt := 3\<rparr>, ForcePick 1)"
  by (simp add: demo_failed_def default_state_def default_known_good_def RING_LEN_def
      demo_generation_def decision_simps sat_add_def u32_max_def)


subsection \<open>What is booted\<close>

lemma scan_sorted: "scan_generations fs dir root = Inr gens \<Longrightarrow> newest_first_sorted gens"
  by (auto elim: scan_generations_InrD)

lemma select_by_state_override:
  assumes "select_by_state cd w fs cfg gens pick d = (Inr (BootGen i (Some c)), rest)"
  shows "pick = Inr (BootGen i (Some c))"
  using assms
  by (auto simp: select_by_state_def act_on_decision_def Let_def
      split: option.splits sum.splits stateful_decision.splits decision.splits prod.splits)

lemma operator_retry_no_override:
  "select_operator_retry cd flt cfg gens d = (Inr (Some dc), d') \<Longrightarrow> \<exists>i. dc = BootGen i None"
  by (auto simp: select_operator_retry_def Let_def
      split: if_splits option.splits sum.splits prod.splits)

lemma rescue_retry_no_override:
  "select_rescue_exit_retry cd flt cfg gens d = (Inr (Some dc), d') \<Longrightarrow> \<exists>i. dc = BootGen i None"
  by (auto simp: select_rescue_exit_retry_def split: if_splits option.splits sum.splits prod.splits)

lemma choose_override:
  assumes "choose_decision cd flt fs cfg gens skip selector d = (Inr (BootGen i (Some c)), d')"
  shows "\<not> skip \<and> (\<exists>idx. selector idx = Inr (BootGen i (Some c)))"
  using assms
  by (auto simp: choose_decision_def Let_def select_with_stateful_def select_default_with_stateful_def
      split: sum.splits option.splits prod.splits if_splits
      dest: operator_retry_no_override rescue_retry_no_override select_by_state_override)

text \<open>C25: whatever the state files hold, only a scanned generation is handed to kexec, never
  while the rescue sentinel is present, and an edited command line comes from the interactive
  selector alone.\<close>

theorem select_and_act_boots_scanned:
  assumes "select_and_act cd flt fs exists complete selectors cfg key skip selector d
    = (Inr (Kexec_Into g over), d')"
  shows "\<not> sentinel_present exists cfg
    \<and> (\<exists>gens. scan_generations fs (nix_profiles_dir cfg) (system_root cfg) = Inr gens
          \<and> newest_first_sorted gens \<and> g \<in> set gens
          \<and> (over = None \<or> (\<exists>idx i. selector idx = Inr (BootGen i over) \<and> gens ! i = g \<and> \<not> skip)))"
proof -
  from assms obtain gens i where *: "\<not> sentinel_present exists cfg"
    "scan_generations fs (nix_profiles_dir cfg) (system_root cfg) = Inr gens"
    "get_at gens i = Some g"
    and ch: "\<exists>instant d'. choose_decision cd flt fs cfg gens (skip \<or> instant) selector d = (Inr (BootGen i over), d')"
    by (auto simp: select_and_act_def Let_def
        split: if_splits sum.splits prod.splits decision.splits option.splits)
  have "g \<in> set gens" "gens ! i = g" using *(3) by (auto simp: get_at_Some_iff)
  moreover have "over = None \<or> (\<exists>idx. selector idx = Inr (BootGen i over) \<and> \<not> skip)"
  proof (cases over)
    case (Some c)
    with ch show ?thesis by (blast dest: choose_override)
  qed simp
  ultimately show ?thesis using *(1,2) scan_sorted [OF *(2)] by blast
qed

definition demo_profiles :: profile_fs where
  "demo_profiles = demo_fs
     \<lparr>read_dir := (\<lambda>p. if p = ''/p'' 
        then Some [Some (''system-'' @ dec 2 @ ''-link''), Some ''system'', Some (''system-'' @ dec 7 @ ''-link'')]
        else None),
      symlink_metadata := (\<lambda>_. Some Is_Other)\<rparr>"

definition demo_scanned :: "nat \<Rightarrow> generation" where
  "demo_scanned n =
     (let l = path_join ''/p'' (''system-'' @ dec n @ ''-link'')
      in \<lparr>number = n, profile_link = l, toplevel = l, kernel = path_join l ''kernel'',
          initrd = path_join l ''initrd'', init_path = path_join l ''init'',
          kernel_params = [], gen_label = []\<rparr>)"

lemma demo_scan:
  "scan_generations demo_profiles ''/p'' ''/r'' = Inr [demo_scanned 7, demo_scanned 2]"
proof -
  have "scan_entry demo_profiles ''/p'' ''/r'' (Some (''system-'' @ dec n @ ''-link'')) = Some (demo_scanned n)"
    if "n \<le> u32_max" for n
    using parse_generation_number_link [OF that]
    by (simp add: scan_entry_def demo_profiles_def demo_fs_def demo_scanned_def Let_def
        mount_aware_resolve_def resolve_kernel_initrd_def resolve_init_path_def
        read_kernel_params_def read_label_def)
  from this [of 2] this [of 7] have
    "scan_entry demo_profiles ''/p'' ''/r'' (Some (''system-'' @ dec 2 @ ''-link'')) = Some (demo_scanned 2)"
    "scan_entry demo_profiles ''/p'' ''/r'' (Some (''system-'' @ dec 7 @ ''-link'')) = Some (demo_scanned 7)"
    by (simp_all add: u32_max_def)
  moreover have "scan_entry demo_profiles ''/p'' ''/r'' (Some ''system'') = None"
    by (simp add: scan_entry_def parse_generation_number_def strip_prefix_def starts_with_def)
  moreover have "read_dir demo_profiles ''/p'' =
      Some [Some (''system-'' @ dec 2 @ ''-link''), Some ''system'', Some (''system-'' @ dec 7 @ ''-link'')]"
    by (simp add: demo_profiles_def)
  moreover have "newest_first [demo_scanned 2, demo_scanned 7] = [demo_scanned 7, demo_scanned 2]"
    by (simp add: newest_first_def demo_scanned_def Let_def)
  ultimately show ?thesis
    by (simp only: scan_generations_def List.map_filter_simps option.simps Let_def) simp
qed

lemma demo_choice:
  "choose_decision (table_codec []) demo_faults demo_profiles demo_config
     [demo_scanned 7, demo_scanned 2] True demo_selector (demo_disk Absent)
   = (Inr (BootGen 0 None), set_state ''/s/nmbl'' Absent (set_retry ''/s/nmbl'' No_Marker (demo_disk Absent)))"
proof -
  have dir: "state_dir demo_config = Some ''/s/nmbl''" "path_join ''/s'' ''nmbl'' = ''/s/nmbl''"
    by (simp_all add: state_dir_def demo_config_def path_join_def slash_def)
  let ?d = "set_state ''/s/nmbl'' Absent (set_retry ''/s/nmbl'' No_Marker (demo_disk Absent))"
  have "select_operator_retry (table_codec []) demo_faults demo_config
      [demo_scanned 7, demo_scanned 2] (demo_disk Absent)
      = (Inr None, set_retry ''/s/nmbl'' No_Marker (demo_disk Absent))"
    by (simp add: select_operator_retry_def image_enabled_def dir take_retry_def take_retry_owned_def)
      (simp add: demo_disk_def demo_config_def)
  moreover have "select_rescue_exit_retry (table_codec []) demo_faults demo_config
      [demo_scanned 7, demo_scanned 2] (set_retry ''/s/nmbl'' No_Marker (demo_disk Absent))
      = (Inr None, ?d)"
    by (simp add: select_rescue_exit_retry_def image_enabled_def dir take_rescue_exit_retry_def
        read_state_def) (simp add: demo_disk_def demo_config_def read_state_def)
  moreover have "resolve_default_index demo_profiles demo_config [demo_scanned 7, demo_scanned 2] ?d = 0"
    by (simp add: resolve_default_index_def dir active_generation_index_def
        active_profile_generation_def demo_profiles_def demo_fs_def get_at_def image_enabled_def
        demo_disk_def resolve_default_number_def read_one_shot_def read_default_def index_of_def)
  moreover have "select_default_with_stateful (table_codec []) Write_Done demo_profiles demo_config
      [demo_scanned 7, demo_scanned 2] 0 ?d = (Inr (BootGen 0 None), False, ?d)"
    by (simp add: select_default_with_stateful_def select_by_state_def)
      (simp add: demo_config_def dir read_state_def Let_def)
  ultimately show ?thesis by (simp add: choose_decision_def demo_faults_def)
qed

theorem select_and_act_boots_scanned_witness:
  "\<exists>d'. select_and_act (table_codec []) demo_faults demo_profiles (\<lambda>_. False) (\<lambda>_. False)
      (\<lambda>_. undefined) demo_config True True demo_selector (demo_disk Absent)
      = (Inr (Kexec_Into (demo_scanned 7) None), d')
    \<and> \<not> sentinel_present (\<lambda>_. False) demo_config"
proof -
  let ?d = "set_state ''/s/nmbl'' Absent (set_retry ''/s/nmbl'' No_Marker (demo_disk Absent))"
  have "sentinel_present (\<lambda>_. False) demo_config = False"
    by (simp add: sentinel_present_def split: option.splits)
  moreover have "scan_generations demo_profiles (nix_profiles_dir demo_config) (system_root demo_config)
      = Inr [demo_scanned 7, demo_scanned 2]"
    using demo_scan by (simp add: demo_config_def)
  ultimately have "select_and_act (table_codec []) demo_faults demo_profiles (\<lambda>_. False) (\<lambda>_. False)
      (\<lambda>_. undefined) demo_config True True demo_selector (demo_disk Absent)
      = (Inr (Kexec_Into (demo_scanned 7) None), consume_one_shot_if_any demo_faults demo_config ?d)"
    by (simp add: select_and_act_def demo_choice get_at_def)
  from select_and_act_boots_scanned [OF this] this show ?thesis by blast
qed

subsection \<open>Instant boot needs proof of health\<close>

definition state_on_disk :: "'v codec \<Rightarrow> boot_config \<Rightarrow> disk \<Rightarrow> boot_state option" where
  "state_on_disk cd cfg d =
     (case (stateful cfg, runtime_state_mountpoint cfg) of
        (Some _, Some mp) \<Rightarrow>
          (case read_state cd (state_bin (d (path_join mp ''nmbl''))) of
             Inr (Some st) \<Rightarrow> Some st
           | _ \<Rightarrow> None)
      | _ \<Rightarrow> None)"

definition image_health ::
  "(string \<Rightarrow> bool) \<Rightarrow> (string \<Rightarrow> gen_state) \<Rightarrow> boot_config \<Rightarrow> generation_health option" where
  "image_health complete selectors cfg =
     (case generation_image cfg of
        None \<Rightarrow> None
      | Some policy \<Rightarrow>
          if img_enable policy \<and> tracks_state policy then
            (case gen_state_root cfg policy of
               None \<Rightarrow> None
             | Some root \<Rightarrow>
                 (case inspect_health complete (selectors root) of Inr (Some h) \<Rightarrow> Some h | _ \<Rightarrow> None))
          else None)"

lemma stateful_inputs_eq:
  "stateful_inputs cd fs cfg d ki =
    (case state_on_disk cd cfg d of
       None \<Rightarrow> ki
     | Some st \<Rightarrow>
         (True, (snd ki)\<lparr>ib_last_boot_succeeded := last_boot_succeeded st,
             ib_stateful_rollback_active :=
               (\<not> last_boot_succeeded st \<and> last_attempted_generation st \<noteq> None),
             ib_pending_untested_generation :=
               (ib_pending_untested_generation (snd ki)
                \<or> active_is_unproven st (active_profile_generation fs (nix_profiles_dir cfg)))\<rparr>))"
  by (simp add: stateful_inputs_def state_on_disk_def Let_def split: option.splits sum.splits prod.splits)

lemma image_inputs_fields:
  assumes "image_inputs complete selectors cfg ki = (k, i)"
  shows "k = (fst ki \<or> image_health complete selectors cfg \<noteq> None)"
    and "ib_enabled i = ib_enabled (snd ki)" "ib_key_pressed i = ib_key_pressed (snd ki)"
    and "ib_rescue_sentinel_present i = ib_rescue_sentinel_present (snd ki)"
    and "ib_last_boot_succeeded i =
      (case image_health complete selectors cfg of None \<Rightarrow> ib_last_boot_succeeded (snd ki)
         | Some h \<Rightarrow> active_is_tested h)"
    and "ib_pending_untested_generation i = (ib_pending_untested_generation (snd ki)
      \<or> (case image_health complete selectors cfg of None \<Rightarrow> False | Some h \<Rightarrow> pending_present h))"
    and "ib_stateful_rollback_active i = (ib_stateful_rollback_active (snd ki)
      \<or> (case image_health complete selectors cfg of None \<Rightarrow> False | Some h \<Rightarrow> attempted_unresolved h))"
  using assms
  by (auto simp: image_inputs_def image_health_def Let_def split: option.splits sum.splits if_splits)



text \<open>An operator retry consumes its marker and leaves the failure history alone. When it
  authorises a boot of a stateful host, the boot is of an installed generation, the marker is gone,
  and the state on disk records that generation as an unfinished attempt, with the recovery budget,
  the known-good ring and the unproven mark as they were.\<close>

theorem operator_retry_keeps_history:
  assumes "codec_ok cd" "stateful cfg = Some mx" "state_dir cfg = Some dir"
    and "select_operator_retry cd flt cfg gens d = (Inr (Some dc), d')"
  shows "\<exists>i st. dc = BootGen i None \<and> i < length gens \<and> retry_file (d' dir) = No_Marker
    \<and> read_state cd (state_bin (d dir)) = Inr (Some st)
    \<and> read_state cd (state_bin (d' dir)) = Inr (Some (st\<lparr>rescue_booted_generation := None,
          rescue_exit_retry_in_progress := False,
          last_attempted_generation := Some (number (gens ! i)), last_boot_succeeded := False\<rparr>))"
proof -
  from assms(2-4) obtain n m index st st' f' j where
    r: "take_retry (retry_dir flt) (retry_removed flt) (retry_synced flt) (map number gens)
          (retry_file (d dir)) = (Inr (Some n), m)"
      "index_of gens n = Some index"
      "read_state cd (state_bin (d dir)) = Inr (Some st)"
      "record_operator_retry st gens n = (st', Some j)"
      "write_padded cd (w_retry flt) st' (state_bin (d dir)) = (Inr (), f')"
      "dc = BootGen index None" "d' = set_state dir f' (set_retry dir m d)"
    by (auto simp: select_operator_retry_def Let_def split: if_splits option.splits sum.splits prod.splits)
  from r(1) have m: "m = No_Marker"
    by (auto simp: retry_simps split: retry_marker.splits option.splits if_splits)
  from r(2) have i: "index < length gens" "number (gens ! index) = n" by (auto dest: index_of_SomeD)
  from r(4) have st': "st' = st\<lparr>rescue_booted_generation := None, rescue_exit_retry_in_progress := False,
      last_attempted_generation := Some n, last_boot_succeeded := False\<rparr>"
    by (auto simp: record_operator_retry_def nonmax_new_def split: option.splits if_splits)
  have "read_state cd f' = Inr (Some st')"
    by (rule write_then_read [OF assms(1) r(5,3)]) (simp add: st')
  with i m r(3,6,7) st' show ?thesis by simp
qed

theorem operator_retry_keeps_history_witness:
  "\<exists>d'. select_operator_retry
      (table_codec [demo_failed, demo_failed\<lparr>last_attempted_generation := Some 42\<rparr>]) demo_faults demo_config
      [demo_generation 42] (\<lambda>p. (demo_disk (Content [byte 1]) p)\<lparr>retry_file := Marker demo_marker\<rparr>)
      = (Inr (Some (BootGen 0 None)), d') \<and> retry_file (d' ''/s/nmbl'') = No_Marker"
proof -
  let ?st = "demo_failed\<lparr>last_attempted_generation := Some 42\<rparr>"
  let ?cd = "table_codec [demo_failed, ?st]"
  let ?d = "\<lambda>p. (demo_disk (Content [byte 1]) p)\<lparr>retry_file := Marker demo_marker\<rparr>"
  have dir: "state_dir demo_config = Some ''/s/nmbl''"
    by (simp add: state_dir_def demo_config_def path_join_def slash_def)
  have ne: "demo_failed \<noteq> ?st" by (simp add: demo_failed_def default_state_def)
  have read: "read_state ?cd (Content [byte 1]) = Inr (Some demo_failed)"
    using table_codec_read [of 0 "[demo_failed, ?st]"] by (simp add: demo_failed_def default_state_def)
  have parse: "one_shot_parse (one_shot_render \<lparr>one_shot_generation = 42\<rparr>)
      = Some \<lparr>one_shot_generation = 42\<rparr>"
    by (rule one_shot_parse_render) (simp add: u32_max_def)
  have take: "take_retry (Some demo_dir) True True [42] (Marker demo_marker) = (Inr (Some 42), No_Marker)"
    by (simp add: retry_simps demo_marker_def demo_dir_def parse safe_retry_dir_def
        safe_retry_file_def u32_max_def)
  have upd: "demo_failed\<lparr>rescue_booted_generation := None, rescue_exit_retry_in_progress := False,
      last_attempted_generation := Some 42, last_boot_succeeded := False\<rparr> = ?st"
    by (simp add: demo_failed_def default_state_def)
  then have rec: "record_operator_retry demo_failed [demo_generation 42] 42 = (?st, Some 0)"
    by (simp add: record_operator_retry_def nonmax_new_def u32_max_def demo_generation_def)
  have fields: "generation_image demo_config = None" "stateful demo_config = Some 3"
    "retry_dir demo_faults = Some demo_dir" "retry_removed demo_faults" "retry_synced demo_faults"
    "w_retry demo_faults = Write_Done" "state_bin (demo_disk f p) = f" "number (demo_generation n) = n"
    for f p n
    by (simp_all add: demo_config_def demo_faults_def demo_disk_def demo_generation_def)
  have wr: "write_padded ?cd Write_Done ?st f = (Inr (), Content (pad_to_slot [byte 2]))" for f
    using table_codec_write [of ?st "[demo_failed, ?st]" 1] ne by (simp add: numeral_2_eq_2)
  have "select_operator_retry ?cd demo_faults demo_config [demo_generation 42] ?d
      = (Inr (Some (BootGen 0 None)), set_state ''/s/nmbl'' (Content (pad_to_slot [byte 2]))
            (set_retry ''/s/nmbl'' No_Marker ?d))"
    using take rec wr
    by (simp add: select_operator_retry_def dir image_enabled_def fields Let_def index_of_def
        read [unfolded One_nat_def])
  from operator_retry_keeps_history [OF _ _ dir this, of 3] this show ?thesis
    by (simp add: table_codec_ok demo_config_def)
qed

end
