(* ===== verification/Logs.thy ===== *)
theory Logs
  imports Interfaces
begin

unbundle bit_operations_syntax

text \<open>
  The boot transcript: the ring of recent lines (\<open>src/log/ring.rs\<close>), the byte ring
  that is flushed before kexec (\<open>src/log/byte_ring.rs\<close>), the kernel log reader
  (\<open>src/log/kmsg_read.rs\<close>) and the decoder of a handed-over transcript
  (\<open>src/handover/logbuf.rs\<close>). A \<open>Mutex<Option<T>>\<close> is a \<open>T option\<close>; the flag
  \<open>contended\<close> is a failed \<open>try_lock\<close>. Both rings meet the contract \<open>bounded_log\<close>.
\<close>

subsection \<open>The ring of lines\<close>

definition LOG_RING_CAPACITY :: nat where
  "LOG_RING_CAPACITY = 256"

definition ring_push :: "string list \<Rightarrow> string \<Rightarrow> string list" where
  "ring_push ring line =
     (let ring' = (if length ring = LOG_RING_CAPACITY then tl ring else ring) in ring' @ [line])"

definition ring_snapshot :: "string list \<Rightarrow> nat \<Rightarrow> string list" where
  "ring_snapshot ring n =
     (if n = 0 then []
      else (let tk = min n (length ring) in drop (length ring - tk) ring))"

definition push_ring :: "bool \<Rightarrow> string list option \<Rightarrow> string \<Rightarrow> string list option" where
  "push_ring contended guard line =
     (if contended then guard
      else Some (ring_push (case guard of None \<Rightarrow> [] | Some r \<Rightarrow> r) line))"

definition snapshot :: "string list option \<Rightarrow> nat \<Rightarrow> string list" where
  "snapshot guard n =
     (if n = 0 then [] else case guard of None \<Rightarrow> [] | Some ring \<Rightarrow> ring_snapshot ring n)"

subsection \<open>The byte ring\<close>

definition BYTE_RING_CAPACITY :: nat where
  "BYTE_RING_CAPACITY = 1024 * 1024"

record byte_log =
  buf :: bytes
  dropped_bytes :: nat

definition byte_log_new :: byte_log where
  "byte_log_new = \<lparr>buf = [], dropped_bytes = 0\<rparr>"

definition log_append :: "byte_log \<Rightarrow> bytes \<Rightarrow> byte_log" where
  "log_append l bs =
     (let b = buf l @ bs
      in if length b > BYTE_RING_CAPACITY then
           (let dropped = length b - BYTE_RING_CAPACITY
            in \<lparr>buf = drop dropped b, dropped_bytes = sat_add u64_max (dropped_bytes l) dropped\<rparr>)
         else l\<lparr>buf := b\<rparr>)"

definition append_line :: "byte_log \<Rightarrow> string \<Rightarrow> byte_log" where
  "append_line l line = log_append l (line @ [newline])"

definition flush_header :: "byte_log \<Rightarrow> string option" where
  "flush_header l =
     (if dropped_bytes l > 0
      then Some (''=== nmbl-init: log truncated, earlier '' @ dec (dropped_bytes l)
                 @ '' bytes dropped ==='' @ [newline])
      else None)"

definition ellipsis :: string where
  "ellipsis = [byte 0xE2, byte 0x80, byte 0xA6]"

definition decode_snapshot_lines :: "nat \<Rightarrow> bytes \<Rightarrow> string list" where
  "decode_snapshot_lines dropped body =
     (let ls = split_on newline (from_utf8_lossy body);
          ls' = (if last ls = [] then butlast ls else ls)
      in if dropped > 0
         then (ellipsis @ '' '' @ dec dropped @ '' earlier bytes truncated '' @ ellipsis) # ls'
         else ls')"

definition push_byte_ring :: "bool \<Rightarrow> byte_log option \<Rightarrow> string \<Rightarrow> byte_log option" where
  "push_byte_ring contended guard line =
     (if contended then guard
      else Some (append_line (case guard of None \<Rightarrow> byte_log_new | Some l \<Rightarrow> l) line))"

text \<open>The bytes the flushed file holds when every write succeeds.\<close>

definition flush_to :: "byte_log option \<Rightarrow> bytes" where
  "flush_to guard =
     (case guard of
        None \<Rightarrow> []
      | Some l \<Rightarrow> (case flush_header l of None \<Rightarrow> [] | Some h \<Rightarrow> h) @ buf l)"

definition snapshot_full :: "byte_log option \<Rightarrow> string list" where
  "snapshot_full guard =
     (case guard of None \<Rightarrow> [] | Some l \<Rightarrow> decode_snapshot_lines (dropped_bytes l) (buf l))"

subsection \<open>The kernel log\<close>

definition MAX_RECORDS :: nat where
  "MAX_RECORDS = 100000"

datatype read_result = Read_Bytes bytes | Read_Eagain | Read_Epipe | Read_Eintr | Read_Error

text \<open>
  \<open>drain n rs\<close>: at most \<open>n\<close> more reads, the results of which are \<open>rs\<close>; a device with
  nothing more to give answers \<open>EAGAIN\<close>.
\<close>

fun drain :: "nat \<Rightarrow> read_result list \<Rightarrow> string option" where
  "drain 0 rs = Some []"
| "drain (Suc n) [] = Some []"
| "drain (Suc n) (r # rs) =
     (case r of
        Read_Bytes b \<Rightarrow>
          if b = [] then Some [] else map_option (\<lambda>s. from_utf8_lossy b @ s) (drain n rs)
      | Read_Eagain \<Rightarrow> Some []
      | Read_Epipe \<Rightarrow> drain n rs
      | Read_Eintr \<Rightarrow> drain n rs
      | Read_Error \<Rightarrow> None)"

definition drain_records :: "read_result list \<Rightarrow> string option" where
  "drain_records rs = drain MAX_RECORDS rs"

definition backslash :: char where
  "backslash = CHR 0x5C"

text \<open>\<open>String::push(b as char)\<close>: the code point \<open>b\<close>, encoded.\<close>

definition push_char :: "nat \<Rightarrow> string" where
  "push_char b =
     (if b < 128 then [byte b] else [byte (0xC0 + b div 64), byte (0x80 + b mod 64)])"

fun unescape_bytes :: "string \<Rightarrow> string" where
  "unescape_bytes (a # x # h # l # s) =
     (if a = backslash \<and> x = CHR ''x'' then
        (case (hex_val h, hex_val l) of
           (Some hi, Some lo) \<Rightarrow> push_char (hi * 16 + lo) @ unescape_bytes s
         | _ \<Rightarrow> push_char (ord a) @ unescape_bytes (x # h # l # s))
      else push_char (ord a) @ unescape_bytes (x # h # l # s))"
| "unescape_bytes (a # s) = push_char (ord a) @ unescape_bytes s"
| "unescape_bytes [] = []"

definition unescape_kmsg :: "string \<Rightarrow> string" where
  "unescape_kmsg m = (if backslash \<notin> set m then m else unescape_bytes m)"

definition pad_left :: "nat \<Rightarrow> char \<Rightarrow> string \<Rightarrow> string" where
  "pad_left w c s = replicate (w - length s) c @ s"

definition format_ts :: "nat \<Rightarrow> string" where
  "format_ts ts =
     ''['' @ pad_left 5 (CHR '' '') (dec (ts div 1000000)) @ ''.''
     @ pad_left 6 (CHR ''0'') (dec (ts mod 1000000)) @ '']''"

definition parse_record :: "string \<Rightarrow> string option" where
  "parse_record rec =
     Option.bind (split_once (CHR '';'') rec) (\<lambda>(header, message).
     case split_on (CHR '','') header of
       _ # _ # ts # _ \<Rightarrow>
         Option.bind (parse_uint u64_max (trim ts)) (\<lambda>ts_usec.
           Some (format_ts ts_usec @ '' '' @ unescape_kmsg message))
     | _ \<Rightarrow> None)"

definition parse_kmsg :: "string \<Rightarrow> string list" where
  "parse_kmsg raw =
     List.map_filter
       (\<lambda>r. if r = [] \<or> hd r = CHR '' '' \<or> hd r = CHR 0x09 then None else parse_record r)
       (split_on newline raw)"

definition snapshot_kernel :: "string option \<Rightarrow> string \<Rightarrow> string list" where
  "snapshot_kernel raw err =
     (case raw of
        Some r \<Rightarrow> if r = [] then [''(kernel log is empty)''] else parse_kmsg r
      | None \<Rightarrow> [''kernel log unavailable: '' @ err])"

subsection \<open>The handed-over transcript\<close>

datatype log_level = Meta | Warn | Info

record log_line =
  level :: log_level
  message :: string

definition strip_kmsg_prefix :: "string \<Rightarrow> string" where
  "strip_kmsg_prefix line =
     (let l = (case strip_prefix ''<'' line of
                 Some rest \<Rightarrow> (case split_once (CHR ''>'') rest of None \<Rightarrow> line | Some (_, r) \<Rightarrow> r)
               | None \<Rightarrow> line)
      in case strip_prefix ''[nmbl] '' l of None \<Rightarrow> l | Some m \<Rightarrow> m)"

definition ascii_lower :: "char \<Rightarrow> char" where
  "ascii_lower c = (if 65 \<le> ord c \<and> ord c \<le> 90 then byte (ord c + 32) else c)"

definition classify_level :: "string \<Rightarrow> log_level" where
  "classify_level m =
     (let lower = map ascii_lower m
      in if \<exists>w\<in>set [''warn'', ''error'', ''failed'', ''fail:'', ''refuse'', ''panic'']. str_contains w lower
         then Warn else Info)"

definition decode_line :: "string \<Rightarrow> log_line" where
  "decode_line line =
     (if starts_with ''=== nmbl-init:'' line \<or> str_contains ''earlier bytes truncated'' line
         \<or> str_contains ''bytes dropped'' line
      then \<lparr>level = Meta, message = line\<rparr>
      else (let m = strip_kmsg_prefix line in \<lparr>level = classify_level m, message = m\<rparr>))"

definition decode_log_buffer :: "string \<Rightarrow> log_line list" where
  "decode_log_buffer text = map decode_line (filter (\<lambda>l. l \<noteq> []) (split_on newline text))"

subsection \<open>Both rings keep the newest entries\<close>

lemma tl_drop: "tl xs = drop 1 xs"
  by (cases xs) auto

interpretation ring: bounded_log "\<lambda>line r. ring_push r line" "\<lambda>r. r" "\<lambda>line. [line]"
  LOG_RING_CAPACITY "\<lambda>r. length r \<le> LOG_RING_CAPACITY"
proof unfold_locales
  fix l :: "string list" and e
  assume l: "length l \<le> LOG_RING_CAPACITY"
  then show "length (ring_push l e) \<le> LOG_RING_CAPACITY"
    by (auto simp: ring_push_def Let_def LOG_RING_CAPACITY_def)
  show "ring_push l e = keep_last LOG_RING_CAPACITY (l @ [e])"
    using l by (auto simp: ring_push_def keep_last_def tl_drop LOG_RING_CAPACITY_def)
qed

lemma buf_log_append: "buf (log_append l bs) = keep_last BYTE_RING_CAPACITY (buf l @ bs)"
  by (simp add: log_append_def keep_last_def Let_def)

lemma length_buf_log_append: "length (buf (log_append l bs)) \<le> BYTE_RING_CAPACITY"
  by (simp add: buf_log_append)

interpretation byte_ring: bounded_log "\<lambda>line l. append_line l line" buf "\<lambda>line. line @ [newline]"
  BYTE_RING_CAPACITY "\<lambda>l. length (buf l) \<le> BYTE_RING_CAPACITY"
  by unfold_locales
    (simp_all add: append_line_def buf_log_append)

lemma ring_snapshot_keep_last: "ring_snapshot r n = keep_last n r"
  by (simp add: ring_snapshot_def keep_last_def min_def)

lemma keep_last_keep_last: "keep_last m (keep_last n xs) = keep_last (min m n) xs"
  by (auto simp: keep_last_def min_def intro: arg_cong [where f = "\<lambda>k. drop k xs"])

text \<open>Whatever was logged, the visible tail is exactly the newest lines: at most \<open>n\<close>
  of them, at most the ring's capacity, in the order they were logged.\<close>

theorem snapshot_is_newest_lines:
  "ring_snapshot (fold (\<lambda>line r. ring_push r line) lines []) n
    = keep_last (min n LOG_RING_CAPACITY) lines"
  using ring.contents_fold [of "[]" lines]
  by (simp add: ring_snapshot_keep_last keep_last_keep_last concat_map_singleton)

lemma append_line_total:
  "length (buf l) \<le> BYTE_RING_CAPACITY \<Longrightarrow> dropped_bytes l + length (buf l) + length line + 1 \<le> u64_max \<Longrightarrow>
   dropped_bytes (append_line l line) + length (buf (append_line l line))
     = dropped_bytes l + length (buf l) + length line + 1"
  by (auto simp: append_line_def log_append_def Let_def sat_add_def)

definition transcript :: "string list \<Rightarrow> bytes" where
  "transcript lines = concat (map (\<lambda>line. line @ [newline]) lines)"

lemma transcript_simps [simp]:
  "transcript [] = []"
  "transcript (x # xs) = x @ newline # transcript xs"
  "transcript (xs @ ys) = transcript xs @ transcript ys"
  by (simp_all add: transcript_def)

lemma byte_ring_total:
  assumes "length (transcript lines) \<le> u64_max"
  shows "dropped_bytes (fold (\<lambda>line l. append_line l line) lines byte_log_new)
      + length (buf (fold (\<lambda>line l. append_line l line) lines byte_log_new)) = length (transcript lines)"
  using assms
proof (induction lines rule: rev_induct)
  case Nil
  then show ?case by (simp add: byte_log_new_def)
next
  case (snoc x xs)
  let ?l = "fold (\<lambda>line l. append_line l line) xs byte_log_new"
  have "length (buf ?l) \<le> BYTE_RING_CAPACITY"
    using byte_ring.length_fold_bound [of byte_log_new xs] by (simp add: byte_log_new_def)
  with snoc append_line_total [of ?l x] show ?case by simp
qed

lemma lines_of_transcript:
  assumes "\<And>l. l \<in> set lines \<Longrightarrow> newline \<notin> set l"
  shows "split_on newline (transcript lines) = lines @ [[]]"
  using assms by (induction lines) (auto simp: split_on_append)

text \<open>The flushed transcript loses nothing unnoticed. The ring holds exactly the newest
  bytes of all that was logged, the dropped count is the rest, the flushed file opens with a
  truncation header exactly if something is missing, and without overflow the full snapshot is
  the list of logged lines.\<close>

theorem flushed_transcript_is_complete:
  assumes "length (transcript lines) \<le> u64_max"
    and "l = fold (\<lambda>line l. append_line l line) lines byte_log_new"
  shows "buf l = keep_last BYTE_RING_CAPACITY (transcript lines)
    \<and> dropped_bytes l = length (transcript lines) - BYTE_RING_CAPACITY
    \<and> flush_to (Some l) =
        (if length (transcript lines) \<le> BYTE_RING_CAPACITY then transcript lines
         else ''=== nmbl-init: log truncated, earlier ''
              @ dec (length (transcript lines) - BYTE_RING_CAPACITY) @ '' bytes dropped ==='' @ newline # buf l)
    \<and> (length (transcript lines) \<le> BYTE_RING_CAPACITY \<and> valid_utf8 (transcript lines)
          \<and> (\<forall>line\<in>set lines. newline \<notin> set line) \<longrightarrow> snapshot_full (Some l) = lines)"
proof -
  have b: "buf l = keep_last BYTE_RING_CAPACITY (transcript lines)"
    using byte_ring.contents_fold [of byte_log_new lines]
    by (simp add: assms(2) byte_log_new_def transcript_def)
  have d: "dropped_bytes l = length (transcript lines) - BYTE_RING_CAPACITY"
    using byte_ring_total [OF assms(1)] b by (simp add: assms(2) min_def split: if_splits)
  have "snapshot_full (Some l) = lines"
    if "length (transcript lines) \<le> BYTE_RING_CAPACITY" "valid_utf8 (transcript lines)"
      "\<forall>line\<in>set lines. newline \<notin> set line"
    using that b d lines_of_transcript [of lines]
    by (simp add: snapshot_full_def decode_snapshot_lines_def keep_last_id from_utf8_lossy_valid)
  moreover have "flush_to (Some l) = transcript lines"
    if "length (transcript lines) \<le> BYTE_RING_CAPACITY"
    using that b d by (simp add: flush_to_def flush_header_def keep_last_id)
  ultimately show ?thesis
    using b d by (auto simp: flush_to_def flush_header_def)
qed

theorem flushed_transcript_is_complete_witness:
  "snapshot_full (Some (fold (\<lambda>line l. append_line l line) [''phase 1'', ''phase 2''] byte_log_new))
    = [''phase 1'', ''phase 2'']"
proof -
  have "valid_utf8 (transcript [''phase 1'', ''phase 2''])"
    by (rule valid_utf8_ascii) (auto simp: is_ascii_def ord_def newline_def)
  then show ?thesis
    using flushed_transcript_is_complete [of "[''phase 1'', ''phase 2'']", OF _ refl]
    by (simp add: BYTE_RING_CAPACITY_def u64_max_def) (simp add: newline_def)
qed

text \<open>The oldest surviving line may be cut. An overflow drops bytes, not lines: when
  one more line is logged than fits, the ring starts inside the oldest one.\<close>

theorem overflow_cuts_a_line:
  assumes "length (line @ newline # rest) = BYTE_RING_CAPACITY" "length new < length line"
  shows "buf (append_line \<lparr>buf = line @ newline # rest, dropped_bytes = k\<rparr> new)
    = drop (Suc (length new)) line @ newline # rest @ new @ [newline]"
  using assms(2) by (simp add: append_line_def buf_log_append keep_last_def flip: assms(1))

theorem overflow_cuts_a_line_witness:
  "buf (append_line \<lparr>buf = replicate (BYTE_RING_CAPACITY - 1) (CHR ''a'') @ [newline], dropped_bytes = 0\<rparr> ''b'')
    = replicate (BYTE_RING_CAPACITY - 3) (CHR ''a'') @ newline # ''b'' @ [newline]"
  using overflow_cuts_a_line [of "replicate (BYTE_RING_CAPACITY - 1) (CHR ''a'')" "[]" "''b''" 0]
  by (simp add: BYTE_RING_CAPACITY_def)

text \<open>Escapes above ASCII do not come back as the bytes they stand for. The two escapes the
  kernel writes for the UTF-8 bytes of one accented letter decode to two characters, four bytes.\<close>

theorem unescape_high_bytes:
  assumes "128 \<le> n" "n < 256"
  shows "unescape_kmsg (backslash # CHR ''x'' # hex_pad 2 n) = [byte (0xC0 + n div 64), byte (0x80 + n mod 64)]
    \<and> unescape_kmsg (backslash # CHR ''x'' # hex_pad 2 n) \<noteq> [byte n]"
proof -
  have "n div 16 < 16" using assms by simp
  then have p: "hex_pad 2 n = [hex_digit (n div 16), hex_digit (n mod 16)]"
    by (simp add: numeral_2_eq_2)
  have "n div 16 * 16 + n mod 16 = n" by simp
  with p \<open>n div 16 < 16\<close> assms show ?thesis
    by (simp add: unescape_kmsg_def push_char_def)
qed

theorem unescape_high_bytes_witness:
  "length (unescape_kmsg (backslash # CHR ''x'' # hex_pad 2 0xC3)) = 2"
  using unescape_high_bytes [of "0xC3"] by simp

end
