(* ===== verification/Cpio.thy ===== *)
theory Cpio
  imports Text Fs_Path
begin

unbundle bit_operations_syntax

text \<open>
  The newc cpio fragment appended to the kexec'd initrd: its writer (\<open>src/sys/cpio.rs\<close>) and
  the decoder that lists what was handed over (\<open>src/handover/cpio.rs\<close>). The writer works on
  the whole output buffer, as in the code; the lemmas show that each record it adds is
  four-byte aligned, so that the decoder, which aligns record by record, finds it again.
\<close>

subsection \<open>The writer\<close>

definition MODE_DIR :: nat where
  "MODE_DIR = 16877"

definition MODE_FILE_RO :: nat where
  "MODE_FILE_RO = 33024"

definition TRAILER :: string where
  "TRAILER = ''TRAILER!!!''"

record injection_entry =
  inj_path :: string
  inj_content :: bytes

definition nul :: char where
  "nul = byte 0"

definition pad_to_4 :: "bytes \<Rightarrow> bytes" where
  "pad_to_4 out = out @ replicate ((4 - length out mod 4) mod 4) nul"

definition cpio_header :: "string \<Rightarrow> bytes \<Rightarrow> nat \<Rightarrow> string" where
  "cpio_header name content mode =
     ''070701'' @ concat (map (hex_fmt 8)
       [0, mode, 0, 0, if mode AND 61440 = 16384 then 2 else 1, 0, length content, 0, 0, 0, 0,
        length name + 1, 0])"

definition write_entry :: "bytes \<Rightarrow> string \<Rightarrow> bytes \<Rightarrow> nat \<Rightarrow> bytes" where
  "write_entry out name content mode =
     pad_to_4 (pad_to_4 (out @ cpio_header name content mode @ name @ [nul]) @ content)"

definition trim_slashes :: "string \<Rightarrow> string" where
  "trim_slashes s = dropWhile (\<lambda>c. c = slash) s"

definition parent_dirs_of :: "string \<Rightarrow> string list" where
  "parent_dirs_of path =
     (let parts = filter (\<lambda>p. p \<noteq> []) (split_on slash (trim_slashes (from_utf8_lossy path)))
      in map (\<lambda>i. join [slash] (take i parts)) [1..<length parts])"

definition in_cpio_name :: "string \<Rightarrow> string" where
  "in_cpio_name path = trim_slashes (from_utf8_lossy path)"

fun add_dirs :: "string list \<Rightarrow> string list \<Rightarrow> string list" where
  "add_dirs dirs [] = dirs"
| "add_dirs dirs (d # ds) = add_dirs (if d \<in> set dirs then dirs else dirs @ [d]) ds"

definition fragment_dirs :: "injection_entry list \<Rightarrow> string list" where
  "fragment_dirs entries = fold (\<lambda>e dirs. add_dirs dirs (parent_dirs_of (inj_path e))) entries []"

definition build_fragment :: "injection_entry list \<Rightarrow> bytes" where
  "build_fragment entries =
     (let out = fold (\<lambda>d out. write_entry out d [] MODE_DIR) (fragment_dirs entries) [];
          out = fold (\<lambda>e out. write_entry out (in_cpio_name (inj_path e)) (inj_content e) MODE_FILE_RO)
                  entries out
      in write_entry out TRAILER [] 0)"

subsection \<open>The decoder\<close>

datatype cpio_kind = Directory | File | Trailer | Other

record cpio_entry =
  ce_name :: string
  ce_kind :: cpio_kind
  ce_mode :: nat
  ce_size :: nat
  ce_data_offset :: nat
  ce_hint :: "string option"

definition HEADER_LEN :: nat where
  "HEADER_LEN = 110"

definition parse_hex_field :: "bytes \<Rightarrow> nat option" where
  "parse_hex_field b = (if valid_utf8 b then parse_hex u32_max b else None)"

definition align4 :: "nat \<Rightarrow> nat" where
  "align4 n = (n + 3) div 4 * 4"

definition plain_byte :: "char \<Rightarrow> bool" where
  "plain_byte c \<longleftrightarrow> ord c = 10 \<or> ord c = 9 \<or> (32 \<le> ord c \<and> ord c \<le> 126)"

definition guess_content :: "string \<Rightarrow> bytes \<Rightarrow> string" where
  "guess_content name body =
     (if name = ''nmbl-log/nmbl.log'' \<or> ends_with ''/nmbl.log'' name then ''nmbl log transcript''
      else if starts_with ''etc/nmbl-luks/'' name \<or> str_contains ''nmbl-luks'' name
      then ''LUKS keyfile (secret)''
      else if body = [] then ''empty''
      else if list_all plain_byte body then ''text''
      else ''binary'')"

definition header_field :: "bytes \<Rightarrow> nat \<Rightarrow> nat option" where
  "header_field header i =
     Option.bind (get_range header (6 + i * 8) (6 + i * 8 + 8)) parse_hex_field"

definition entry_kind :: "nat \<Rightarrow> string \<Rightarrow> cpio_kind" where
  "entry_kind mode name =
     (if name = TRAILER then Trailer
      else if mode AND 61440 = 16384 then Directory
      else if mode AND 61440 = 32768 then File
      else Other)"

definition make_entry :: "nat \<Rightarrow> string \<Rightarrow> nat \<Rightarrow> nat \<Rightarrow> bytes option \<Rightarrow> cpio_entry" where
  "make_entry mode name len data_start body =
     \<lparr>ce_name = name, ce_kind = entry_kind mode name, ce_mode = mode, ce_size = len,
      ce_data_offset = data_start,
      ce_hint = (if mode AND 61440 = 32768
                 then Some (guess_content name (case body of None \<Rightarrow> [] | Some b \<Rightarrow> b))
                 else None)\<rparr>"

function decode_from :: "bytes \<Rightarrow> nat \<Rightarrow> cpio_entry list" where
  "decode_from b off =
     (case get_range b off (off + HEADER_LEN) of
        None \<Rightarrow> []
      | Some header \<Rightarrow>
          if take 6 header \<noteq> ''070701'' then []
          else
            (case (header_field header 1, header_field header 6, header_field header 11) of
               (Some mode, Some filesize, Some namesize) \<Rightarrow>
                 (case get_range b (off + HEADER_LEN) (off + HEADER_LEN + namesize) of
                    None \<Rightarrow> []
                  | Some name_bytes \<Rightarrow>
                      (let name = from_utf8_lossy (butlast name_bytes);
                           data_start = off + align4 (HEADER_LEN + namesize);
                           body = get_range b data_start (data_start + filesize)
                       in make_entry mode name filesize data_start body
                          # (if name = TRAILER then []
                             else decode_from b (data_start + align4 filesize))))
             | _ \<Rightarrow> []))"
  by pat_completeness auto
termination
  by (relation "measure (\<lambda>(b, off). length b - off)")
    (auto simp: get_range_def HEADER_LEN_def align4_def split: if_splits)

declare decode_from.simps [simp del]

definition decode_cpio_fragment :: "bytes \<Rightarrow> cpio_entry list" where
  "decode_cpio_fragment b = decode_from b 0"

subsection \<open>Alignment\<close>

definition entry_bytes :: "string \<Rightarrow> bytes \<Rightarrow> nat \<Rightarrow> bytes" where
  "entry_bytes name content mode = write_entry [] name content mode"

lemma pad_length: "n + (4 - n mod 4) mod 4 = align4 n"
proof -
  define q r where "q = n div 4" and "r = n mod 4"
  then have "n = 4 * q + r" "r = 0 \<or> r = 1 \<or> r = 2 \<or> r = 3" by auto
  then show ?thesis by (auto simp: align4_def)
qed

lemma length_pad_to_4: "length (pad_to_4 out) = align4 (length out)"
  by (simp add: pad_to_4_def pad_length)

lemma pad_to_4_dvd: "4 dvd length (pad_to_4 out)"
  by (simp add: length_pad_to_4 align4_def)

lemma pad_to_4_append: "4 dvd length out \<Longrightarrow> pad_to_4 (out @ b) = out @ pad_to_4 b"
  by (auto simp: pad_to_4_def elim!: dvdE)

lemma write_entry_append:
  "4 dvd length out \<Longrightarrow> write_entry out name content mode = out @ entry_bytes name content mode"
  by (simp add: write_entry_def entry_bytes_def pad_to_4_append)

lemma entry_bytes_dvd: "4 dvd length (entry_bytes name content mode)"
  by (simp add: entry_bytes_def write_entry_def pad_to_4_dvd)

lemma fold_write_entry:
  "4 dvd length out \<Longrightarrow>
   fold (\<lambda>x out. write_entry out (n x) (c x) m) xs out = out @ concat (map (\<lambda>x. entry_bytes (n x) (c x) m) xs)"
  by (induction xs arbitrary: out) (auto simp: write_entry_append entry_bytes_dvd)

lemma concat_entry_dvd: "4 dvd length (concat (map (\<lambda>x. entry_bytes (n x) (c x) m) xs))"
  by (induction xs) (auto simp: entry_bytes_dvd)

lemma build_fragment_eq:
  "build_fragment entries =
     concat (map (\<lambda>d. entry_bytes d [] MODE_DIR) (fragment_dirs entries))
     @ concat (map (\<lambda>e. entry_bytes (in_cpio_name (inj_path e)) (inj_content e) MODE_FILE_RO) entries)
     @ entry_bytes TRAILER [] 0"
  by (simp add: build_fragment_def Let_def fold_write_entry [where n = "\<lambda>d. d" and c = "\<lambda>_. []"]
      fold_write_entry concat_entry_dvd write_entry_append)

subsection \<open>The decoder finds each record\<close>

lemma length_cpio_header:
  assumes "mode \<le> u32_max" "length content \<le> u32_max" "length name + 1 \<le> u32_max"
  shows "length (cpio_header name content mode) = HEADER_LEN"
    and "take 6 (cpio_header name content mode) = ''070701''"
proof -
  have len: "length (hex_fmt 8 n) = 8" if "n \<le> u32_max" for n
    using that hex_fmt_pad [of n 8] by (simp add: u32_max_def)
  show "length (cpio_header name content mode) = HEADER_LEN"
    unfolding cpio_header_def HEADER_LEN_def using assms len [of 2] by (simp add: len u32_max_def)
  show "take 6 (cpio_header name content mode) = ''070701''"
    by (simp add: cpio_header_def)
qed

lemma hex_pad_ascii: "c \<in> set (hex_pad w n) \<Longrightarrow> is_ascii c"
  by (auto dest!: hex_pad_graphic simp: is_ascii_def is_graphic_def)

lemma parse_hex_field_fmt: "n \<le> u32_max \<Longrightarrow> parse_hex_field (hex_fmt 8 n) = Some n"
  using hex_fmt_pad [of n 8] parse_hex_pad [of 8 n u32_max]
  by (simp add: parse_hex_field_def u32_max_def valid_utf8_ascii hex_pad_ascii)

lemma get_range_middle:
  "length a = i \<Longrightarrow> length b = k \<Longrightarrow> get_range (a @ b @ c) i (i + k) = Some b"
  by (auto simp: get_range_def)

lemma header_fields:
  assumes "mode \<le> u32_max" "length content \<le> u32_max" "length name + 1 \<le> u32_max"
  shows "header_field (cpio_header name content mode) 1 = Some mode"
    and "header_field (cpio_header name content mode) 6 = Some (length content)"
    and "header_field (cpio_header name content mode) 11 = Some (length name + 1)"
proof -
  have len: "length (hex_fmt 8 n) = 8" if "n \<le> u32_max" for n
    using that hex_fmt_pad [of n 8] by (simp add: u32_max_def)
  have small: "length (hex_fmt 8 0) = 8" "length (hex_fmt 8 1) = 8" "length (hex_fmt 8 2) = 8"
    by (simp_all add: len u32_max_def)
  let ?h = "hex_fmt 8" and ?l = "hex_fmt 8 (if mode AND 61440 = 16384 then 2 else 1)"
  have l: "length ?l = 8" using small by simp
  note range = get_range_middle [where k = 8, simplified]
  have "get_range (cpio_header name content mode) 14 22 = Some (?h mode)"
    using range [of "''070701'' @ ?h 0" 14 "?h mode"] assms small
    by (simp add: cpio_header_def len)
  then show "header_field (cpio_header name content mode) 1 = Some mode"
    using assms by (simp add: header_field_def parse_hex_field_fmt)
  have "get_range (cpio_header name content mode) 54 62 = Some (?h (length content))"
    using range [of "''070701'' @ ?h 0 @ ?h mode @ ?h 0 @ ?h 0 @ ?l @ ?h 0" 54 "?h (length content)"] assms small l
    by (simp add: cpio_header_def len)
  then show "header_field (cpio_header name content mode) 6 = Some (length content)"
    using assms by (simp add: header_field_def parse_hex_field_fmt)
  have "get_range (cpio_header name content mode) 94 102 = Some (?h (length name + 1))"
    using range [of "''070701'' @ ?h 0 @ ?h mode @ ?h 0 @ ?h 0 @ ?l @ ?h 0 @ ?h (length content)
        @ ?h 0 @ ?h 0 @ ?h 0 @ ?h 0" 94 "?h (length name + 1)"] assms small l
    by (simp add: cpio_header_def len)
  then show "header_field (cpio_header name content mode) 11 = Some (length name + 1)"
    using assms by (simp add: header_field_def parse_hex_field_fmt)
qed

definition name_ok :: "string \<Rightarrow> bool" where
  "name_ok n \<longleftrightarrow> valid_utf8 n \<and> length n + 1 \<le> u32_max"

definition body_offset :: "string \<Rightarrow> nat" where
  "body_offset name = align4 (HEADER_LEN + length name + 1)"

lemma entry_bytes_split:
  assumes "mode \<le> u32_max" "length content \<le> u32_max" "length name + 1 \<le> u32_max"
  obtains p q where
    "entry_bytes name content mode = cpio_header name content mode @ (name @ [nul]) @ p @ content @ q"
    "length (cpio_header name content mode @ (name @ [nul]) @ p) = body_offset name"
    "length (entry_bytes name content mode) = body_offset name + align4 (length content)"
proof -
  let ?h = "cpio_header name content mode @ name @ [nul]"
  define p q where "p = replicate ((4 - length ?h mod 4) mod 4) nul"
    and "q = replicate ((4 - length content mod 4) mod 4) nul"
  have ph: "pad_to_4 ?h = ?h @ p" by (simp add: pad_to_4_def p_def)
  have len: "length (pad_to_4 ?h) = body_offset name"
    using length_cpio_header(1) [OF assms] by (simp add: length_pad_to_4 body_offset_def)
  have e: "entry_bytes name content mode = pad_to_4 ?h @ pad_to_4 content"
    by (simp add: entry_bytes_def write_entry_def pad_to_4_append [OF pad_to_4_dvd])
  show ?thesis
  proof (rule that [of p q])
    show "entry_bytes name content mode = cpio_header name content mode @ (name @ [nul]) @ p @ content @ q"
      using e ph by (simp add: pad_to_4_def [of content] q_def)
    show "length (cpio_header name content mode @ (name @ [nul]) @ p) = body_offset name"
      using ph len by simp
    show "length (entry_bytes name content mode) = body_offset name + align4 (length content)"
      using e len by (simp add: length_pad_to_4 [of content])
  qed
qed

lemma decode_entry:
  assumes "mode \<le> u32_max" "length content \<le> u32_max" "name_ok name"
  shows "decode_from (out @ entry_bytes name content mode @ rest) (length out) =
    make_entry mode name (length content) (length out + body_offset name) (Some content)
    # (if name = TRAILER then []
       else decode_from (out @ entry_bytes name content mode @ rest)
              (length (out @ entry_bytes name content mode)))"
proof -
  let ?h = "cpio_header name content mode"
  let ?b = "out @ entry_bytes name content mode @ rest"
  from assms(3) have n: "length name + 1 \<le> u32_max" "from_utf8_lossy name = name"
    by (auto simp: name_ok_def from_utf8_lossy_valid)
  obtain p q where e: "entry_bytes name content mode = ?h @ (name @ [nul]) @ p @ content @ q"
    "length (?h @ (name @ [nul]) @ p) = body_offset name"
    "length (entry_bytes name content mode) = body_offset name + align4 (length content)"
    by (rule entry_bytes_split [OF assms(1,2) n(1)])
  have h: "length ?h = HEADER_LEN" by (rule length_cpio_header(1) [OF assms(1,2) n(1)])
  have "get_range ?b (length out) (length out + HEADER_LEN) = Some ?h"
    by (simp only: e append_assoc) (rule get_range_middle, simp_all add: h)
  moreover have "get_range ?b (length out + HEADER_LEN) (length out + HEADER_LEN + (length name + 1))
      = Some (name @ [nul])"
    using get_range_middle [of "out @ ?h" "length out + HEADER_LEN" "name @ [nul]" "length name + 1"
        "p @ content @ q @ rest"] h e(1) by simp
  moreover have "get_range ?b (length out + body_offset name) (length out + body_offset name + length content)
      = Some content"
    using get_range_middle [of "out @ ?h @ (name @ [nul]) @ p" "length out + body_offset name" content
        "length content" "q @ rest"] e(1,2) by simp
  moreover have "align4 (HEADER_LEN + (length name + 1)) = body_offset name"
    by (simp add: body_offset_def)
  ultimately show ?thesis
    using n(2) e(3) length_cpio_header(2) [OF assms(1,2) n(1)] header_fields [OF assms(1,2) n(1)]
    by (subst decode_from.simps) (simp add: Let_def add.assoc)
qed

subsection \<open>Round trip\<close>

text \<open>What a record says: its name, kind and mode, and the bytes its size and offset select.\<close>

definition entry_view :: "bytes \<Rightarrow> cpio_entry \<Rightarrow> string \<times> cpio_kind \<times> nat \<times> bytes option" where
  "entry_view b e =
     (ce_name e, ce_kind e, ce_mode e, get_range b (ce_data_offset e) (ce_data_offset e + ce_size e))"

lemma decode_entry_view:
  assumes "mode \<le> u32_max" "length content \<le> u32_max" "name_ok name"
    and "b = out @ entry_bytes name content mode @ rest"
  shows "map (entry_view b) (decode_from b (length out)) =
    (name, entry_kind mode name, mode, Some content)
    # (if name = TRAILER then []
       else map (entry_view b) (decode_from b (length (out @ entry_bytes name content mode))))"
proof -
  obtain p q where e:
    "entry_bytes name content mode = cpio_header name content mode @ (name @ [nul]) @ p @ content @ q"
    "length (cpio_header name content mode @ (name @ [nul]) @ p) = body_offset name"
    using assms(3) by (auto simp: name_ok_def intro: entry_bytes_split [OF assms(1,2)])
  have "get_range b (length out + body_offset name) (length out + body_offset name + length content)
      = Some content"
    using get_range_middle [of "out @ cpio_header name content mode @ (name @ [nul]) @ p"
        "length out + body_offset name" content "length content" "q @ rest"] e assms(4) by simp
  then show ?thesis
    using decode_entry [OF assms(1-3), of out rest] assms(4)
    by (simp add: make_entry_def entry_view_def)
qed

lemma decode_entries_view:
  assumes "mode \<le> u32_max" "b = out @ concat (map (\<lambda>x. entry_bytes (n x) (c x) mode) xs) @ rest"
    and "\<And>x. x \<in> set xs \<Longrightarrow> length (c x) \<le> u32_max \<and> name_ok (n x) \<and> n x \<noteq> TRAILER"
  shows "map (entry_view b) (decode_from b (length out)) =
    map (\<lambda>x. (n x, entry_kind mode (n x), mode, Some (c x))) xs
    @ map (entry_view b) (decode_from b (length (out @ concat (map (\<lambda>x. entry_bytes (n x) (c x) mode) xs))))"
  using assms(2,3)
proof (induction xs arbitrary: out)
  case Nil
  then show ?case by simp
next
  case (Cons x xs)
  have "map (entry_view b) (decode_from b (length out)) =
      (n x, entry_kind mode (n x), mode, Some (c x))
      # map (entry_view b) (decode_from b (length (out @ entry_bytes (n x) (c x) mode)))"
    using decode_entry_view [of mode "c x" "n x" b out
        "concat (map (\<lambda>x. entry_bytes (n x) (c x) mode) xs) @ rest"] Cons.prems assms(1) by simp
  with Cons.IH [of "out @ entry_bytes (n x) (c x) mode"] Cons.prems show ?case by simp
qed

lemma entry_kind_simps [simp]:
  "n \<noteq> TRAILER \<Longrightarrow> entry_kind MODE_DIR n = Directory"
  "n \<noteq> TRAILER \<Longrightarrow> entry_kind MODE_FILE_RO n = File"
  "entry_kind m TRAILER = Trailer"
  by (simp_all add: entry_kind_def MODE_DIR_def MODE_FILE_RO_def)

lemma modes_small: "MODE_DIR \<le> u32_max" "MODE_FILE_RO \<le> u32_max" "0 \<le> u32_max"
  by (simp_all add: MODE_DIR_def MODE_FILE_RO_def u32_max_def)

lemma trailer_ok: "name_ok TRAILER"
  by (auto simp: name_ok_def TRAILER_def u32_max_def is_ascii_def ord_def intro!: valid_utf8_ascii)

lemma add_dirs_distinct: "distinct dirs \<Longrightarrow> distinct (add_dirs dirs ds)"
  by (induction dirs ds rule: add_dirs.induct) auto

lemma set_add_dirs: "set (add_dirs dirs ds) = set dirs \<union> set ds"
  by (induction dirs ds rule: add_dirs.induct) auto

lemma fragment_dirs_fold:
  "distinct dirs \<Longrightarrow>
   distinct (fold (\<lambda>e dirs. add_dirs dirs (parent_dirs_of (inj_path e))) es dirs)
   \<and> set (fold (\<lambda>e dirs. add_dirs dirs (parent_dirs_of (inj_path e))) es dirs)
      = set dirs \<union> (\<Union>e\<in>set es. set (parent_dirs_of (inj_path e)))"
  by (induction es arbitrary: dirs) (auto simp: add_dirs_distinct set_add_dirs)

lemma fragment_round_trip:
  assumes "\<forall>n\<in>set (fragment_dirs es) \<union> (\<lambda>e. in_cpio_name (inj_path e)) ` set es. name_ok n \<and> n \<noteq> TRAILER"
    and "\<forall>e\<in>set es. length (inj_content e) \<le> u32_max"
  shows "map (entry_view (build_fragment es)) (decode_cpio_fragment (build_fragment es)) =
      map (\<lambda>d. (d, Directory, MODE_DIR, Some [])) (fragment_dirs es)
      @ map (\<lambda>e. (in_cpio_name (inj_path e), File, MODE_FILE_RO, Some (inj_content e))) es
      @ [(TRAILER, Trailer, 0, Some [])]
    \<and> distinct (fragment_dirs es)
    \<and> set (fragment_dirs es) = (\<Union>e\<in>set es. set (parent_dirs_of (inj_path e)))"
proof -
  let ?b = "build_fragment es"
  let ?dirs = "concat (map (\<lambda>d. entry_bytes d [] MODE_DIR) (fragment_dirs es))"
  let ?files = "concat (map (\<lambda>e. entry_bytes (in_cpio_name (inj_path e)) (inj_content e) MODE_FILE_RO) es)"
  have b: "?b = ?dirs @ ?files @ entry_bytes TRAILER [] 0" by (rule build_fragment_eq)
  have "map (entry_view ?b) (decode_from ?b 0) =
      map (\<lambda>d. (d, entry_kind MODE_DIR d, MODE_DIR, Some [])) (fragment_dirs es)
      @ map (entry_view ?b) (decode_from ?b (length ?dirs))"
    using decode_entries_view [OF modes_small(1), of ?b "[]" "\<lambda>d. d" "\<lambda>_. []" "fragment_dirs es"
        "?files @ entry_bytes TRAILER [] 0"] assms b by simp
  moreover have "map (entry_view ?b) (decode_from ?b (length ?dirs)) =
      map (\<lambda>e. (in_cpio_name (inj_path e), entry_kind MODE_FILE_RO (in_cpio_name (inj_path e)), MODE_FILE_RO,
                 Some (inj_content e))) es
      @ map (entry_view ?b) (decode_from ?b (length (?dirs @ ?files)))"
    using decode_entries_view [OF modes_small(2), of ?b ?dirs "\<lambda>e. in_cpio_name (inj_path e)" inj_content es
        "entry_bytes TRAILER [] 0"] assms b by simp
  moreover have "map (entry_view ?b) (decode_from ?b (length (?dirs @ ?files))) = [(TRAILER, Trailer, 0, Some [])]"
    using decode_entry_view [OF modes_small(3) _ trailer_ok, of "[]" ?b "?dirs @ ?files" "[]"] b by simp
  moreover have "map (\<lambda>d. (d, entry_kind MODE_DIR d, MODE_DIR, Some [])) (fragment_dirs es)
      = map (\<lambda>d. (d, Directory, MODE_DIR, Some [])) (fragment_dirs es)"
    using assms(1) by (intro map_cong) auto
  moreover have "map (\<lambda>e. (in_cpio_name (inj_path e), entry_kind MODE_FILE_RO (in_cpio_name (inj_path e)),
        MODE_FILE_RO, Some (inj_content e))) es
      = map (\<lambda>e. (in_cpio_name (inj_path e), File, MODE_FILE_RO, Some (inj_content e))) es"
    using assms(1) by (intro map_cong) auto
  ultimately show ?thesis
    using fragment_dirs_fold [of "[]" es] by (simp add: decode_cpio_fragment_def fragment_dirs_def)
qed

text \<open>C26: the decoder lists exactly what the writer appended: each parent directory once and before
  any file, then every file with its mode and its content byte for byte, then the trailer.\<close>

theorem cpio_fragment_round_trip:
  assumes "\<forall>n\<in>set (fragment_dirs es) \<union> (\<lambda>e. in_cpio_name (inj_path e)) ` set es. name_ok n \<and> n \<noteq> TRAILER"
    and "\<forall>e\<in>set es. length (inj_content e) \<le> u32_max"
  shows "map (entry_view (build_fragment es)) (decode_cpio_fragment (build_fragment es)) =
      map (\<lambda>d. (d, Directory, MODE_DIR, Some [])) (fragment_dirs es)
      @ map (\<lambda>e. (in_cpio_name (inj_path e), File, MODE_FILE_RO, Some (inj_content e))) es
      @ [(TRAILER, Trailer, 0, Some [])]
    \<and> distinct (fragment_dirs es)
    \<and> set (fragment_dirs es) = (\<Union>e\<in>set es. set (parent_dirs_of (inj_path e)))"
  using assms by (rule fragment_round_trip)

definition demo_key :: injection_entry where
  "demo_key = \<lparr>inj_path = ''/etc/k'', inj_content = ''secret''\<rparr>"

lemma demo_key_names:
  "fragment_dirs [demo_key] = [''etc'']" "in_cpio_name (inj_path demo_key) = ''etc/k''"
proof -
  have "from_utf8_lossy ''/etc/k'' = ''/etc/k''"
    by (auto simp: is_ascii_def ord_def intro!: from_utf8_lossy_valid valid_utf8_ascii)
  then show "fragment_dirs [demo_key] = [''etc'']" "in_cpio_name (inj_path demo_key) = ''etc/k''"
    by (simp_all add: fragment_dirs_def parent_dirs_of_def demo_key_def trim_slashes_def slash_def
        in_cpio_name_def upt_rec)
qed

theorem cpio_fragment_round_trip_witness:
  "map (entry_view (build_fragment [demo_key])) (decode_cpio_fragment (build_fragment [demo_key])) =
    [(''etc'', Directory, MODE_DIR, Some []), (''etc/k'', File, MODE_FILE_RO, Some ''secret''),
     (TRAILER, Trailer, 0, Some [])]"
proof -
  have ok: "name_ok ''etc''" "name_ok ''etc/k''"
    by (auto simp: name_ok_def u32_max_def is_ascii_def ord_def intro!: valid_utf8_ascii)
  have c: "inj_content demo_key = ''secret''" by (simp add: demo_key_def)
  have "\<forall>n\<in>set (fragment_dirs [demo_key]) \<union> (\<lambda>e. in_cpio_name (inj_path e)) ` set [demo_key].
      name_ok n \<and> n \<noteq> TRAILER"
    using ok by (auto simp: demo_key_names TRAILER_def)
  from cpio_fragment_round_trip [OF this]
  show ?thesis by (simp add: demo_key_names c u32_max_def)
qed

end
