(* ===== verification/Sig_Wire.thy ===== *)
theory Sig_Wire
  imports Interfaces
begin

unbundle bit_operations_syntax

text \<open>
  The signature sidecar on disk: algorithm identifiers (\<open>src/sig/alg.rs\<close>), the fixed-width
  header codec (\<open>src/sig/wire.rs\<close>) and the parsed view (\<open>src/sig/sidecar.rs\<close>). The key hint
  is a \<^typ>\<open>32 word\<close>; SHA-256 is a parameter.
\<close>

subsection \<open>Algorithms\<close>

datatype alg_id = MlDsa65 | MlDsa87

datatype hash_id = Sha512

definition alg_from_u8 :: "nat \<Rightarrow> alg_id option" where
  "alg_from_u8 v = (if v = 1 then Some MlDsa65 else if v = 2 then Some MlDsa87 else None)"

fun alg_to_u8 :: "alg_id \<Rightarrow> nat" where
  "alg_to_u8 MlDsa65 = 1"
| "alg_to_u8 MlDsa87 = 2"

fun pk_len :: "alg_id \<Rightarrow> nat" where
  "pk_len MlDsa65 = 1952"
| "pk_len MlDsa87 = 2592"

fun sig_len :: "alg_id \<Rightarrow> nat" where
  "sig_len MlDsa65 = 3309"
| "sig_len MlDsa87 = 4627"

definition hash_from_u8 :: "nat \<Rightarrow> hash_id option" where
  "hash_from_u8 v = (if v = 1 then Some Sha512 else None)"

fun hash_to_u8 :: "hash_id \<Rightarrow> nat" where
  "hash_to_u8 Sha512 = 1"

subsection \<open>The header\<close>

definition MAGIC :: string where
  "MAGIC = ''NMBLSIG1''"

definition VERSION :: nat where
  "VERSION = 1"

definition OFF_VERSION :: nat where "OFF_VERSION = 8"
definition OFF_ALG_ID :: nat where "OFF_ALG_ID = 9"
definition OFF_HASH_ID :: nat where "OFF_HASH_ID = 10"
definition OFF_RESERVED :: nat where "OFF_RESERVED = 11"
definition OFF_KEY_ID :: nat where "OFF_KEY_ID = 12"
definition OFF_DOMAIN :: nat where "OFF_DOMAIN = 16"
definition DOMAIN_LEN :: nat where "DOMAIN_LEN = 32"
definition SIG_HEADER_LEN :: nat where "SIG_HEADER_LEN = OFF_DOMAIN + DOMAIN_LEN"

lemmas offset_defs = OFF_VERSION_def OFF_ALG_ID_def OFF_HASH_ID_def OFF_RESERVED_def OFF_KEY_ID_def
  OFF_DOMAIN_def DOMAIN_LEN_def SIG_HEADER_LEN_def

record sig_header =
  h_alg :: alg_id
  h_hash :: hash_id
  h_key_id :: "32 word"
  h_domain :: bytes

datatype decode_error = TooShort | BadMagic | BadVersion nat | BadAlg nat | BadHash nat

definition sidecar_len :: "alg_id \<Rightarrow> nat" where
  "sidecar_len alg = SIG_HEADER_LEN + sig_len alg"

definition to_le_bytes :: "32 word \<Rightarrow> bytes" where
  "to_le_bytes k = map (\<lambda>i. byte (unat (drop_bit (8 * i) k AND 255))) [0, 1, 2, 3]"

fun from_le_bytes :: "bytes \<Rightarrow> 32 word" where
  "from_le_bytes [] = 0"
| "from_le_bytes (b # bs) = word_of_nat (ord b) OR push_bit 8 (from_le_bytes bs)"

text \<open>\<open>try_into\<close> an array of \<open>n\<close> bytes.\<close>

definition array_of :: "nat \<Rightarrow> bytes \<Rightarrow> bytes option" where
  "array_of n bs = (if length bs = n then Some bs else None)"

definition split_at_checked :: "bytes \<Rightarrow> nat \<Rightarrow> (bytes \<times> bytes) option" where
  "split_at_checked b n = (if n \<le> length b then Some (take n b, drop n b) else None)"

definition decode_header :: "bytes \<Rightarrow> decode_error + sig_header" where
  "decode_header b =
     rbind (ok_or TooShort (split_at_checked b SIG_HEADER_LEN)) (\<lambda>(head, _).
     rbind (ok_or TooShort (get_range head 0 OFF_VERSION)) (\<lambda>magic.
     rbind (ensure (magic = MAGIC) BadMagic) (\<lambda>_.
     rbind (ok_or TooShort (get_at head OFF_VERSION)) (\<lambda>v.
     rbind (ensure (ord v = VERSION) (BadVersion (ord v))) (\<lambda>_.
     rbind (ok_or TooShort (get_at head OFF_ALG_ID)) (\<lambda>a.
     rbind (ok_or (BadAlg (ord a)) (alg_from_u8 (ord a))) (\<lambda>alg.
     rbind (ok_or TooShort (get_at head OFF_HASH_ID)) (\<lambda>h.
     rbind (ok_or (BadHash (ord h)) (hash_from_u8 (ord h))) (\<lambda>hash.
     rbind (ok_or TooShort (Option.bind (get_range head OFF_KEY_ID OFF_DOMAIN) (array_of 4))) (\<lambda>key_id.
     rbind (ok_or TooShort (Option.bind (get_range head OFF_DOMAIN SIG_HEADER_LEN) (array_of DOMAIN_LEN))) (\<lambda>domain.
     Inr \<lparr>h_alg = alg, h_hash = hash, h_key_id = from_le_bytes key_id, h_domain = domain\<rparr>)))))))))))"

text \<open>\<open>copy_from_slice\<close> into the range that starts at \<open>off\<close>.\<close>

definition put_at :: "nat \<Rightarrow> bytes \<Rightarrow> bytes \<Rightarrow> bytes" where
  "put_at off bs out = take off out @ bs @ drop (off + length bs) out"

definition encode_header :: "sig_header \<Rightarrow> bytes" where
  "encode_header h =
     (let out = replicate SIG_HEADER_LEN (byte 0);
          out = put_at 0 MAGIC out;
          out = put_at OFF_VERSION [byte VERSION] out;
          out = put_at OFF_ALG_ID [byte (alg_to_u8 (h_alg h))] out;
          out = put_at OFF_HASH_ID [byte (hash_to_u8 (h_hash h))] out;
          out = put_at OFF_KEY_ID (to_le_bytes (h_key_id h)) out
      in put_at OFF_DOMAIN (h_domain h) out)"

definition domain_tag :: "(bytes \<Rightarrow> bytes) \<Rightarrow> bytes \<Rightarrow> bytes" where
  "domain_tag sha256 domain = sha256 (''nmbl:sigdom:v1'' @ domain)"

definition key_fp :: "(bytes \<Rightarrow> bytes) \<Rightarrow> bytes \<Rightarrow> bytes" where
  "key_fp sha256 pubkey = sha256 (''nmbl:keyfp:v1'' @ pubkey)"

subsection \<open>The sidecar\<close>

datatype sidecar_error =
    Header_Error decode_error
  | SignatureTruncated nat nat
  | TrailingBytes nat nat

record sig_sidecar =
  sc_header :: sig_header
  sc_signature :: bytes

definition parse_sidecar :: "bytes \<Rightarrow> sidecar_error + sig_sidecar" where
  "parse_sidecar b =
     (case decode_header b of
        Inl e \<Rightarrow> Inl (Header_Error e)
      | Inr header \<Rightarrow>
          (let expected = sidecar_len (h_alg header)
           in case split_at_checked b SIG_HEADER_LEN of
                None \<Rightarrow> Inl (SignatureTruncated expected (length b))
              | Some (_, rest) \<Rightarrow>
                  (case split_at_checked rest (sig_len (h_alg header)) of
                     Some (sg, []) \<Rightarrow> Inr \<lparr>sc_header = header, sc_signature = sg\<rparr>
                   | Some _ \<Rightarrow> Inl (TrailingBytes expected (length b))
                   | None \<Rightarrow> Inl (SignatureTruncated expected (length b)))))"

subsection \<open>Round trip\<close>

lemma alg_from_to [simp]: "alg_from_u8 (alg_to_u8 a) = Some a"
  by (cases a) (simp_all add: alg_from_u8_def)

lemma alg_to_small [simp]: "alg_to_u8 a < 256"
  by (cases a) simp_all

lemma alg_from_SomeD: "alg_from_u8 v = Some a \<Longrightarrow> v = alg_to_u8 a"
  by (auto simp: alg_from_u8_def split: if_splits)

lemma hash_from_to [simp]: "hash_from_u8 (hash_to_u8 h) = Some h"
  by (cases h) (simp add: hash_from_u8_def)

lemma hash_to_small [simp]: "hash_to_u8 h < 256"
  by (cases h) simp

lemma hash_from_SomeD: "hash_from_u8 v = Some h \<Longrightarrow> v = hash_to_u8 h"
  by (auto simp: hash_from_u8_def split: if_splits)

lemma length_to_le_bytes [simp]: "length (to_le_bytes k) = 4"
  by (simp add: to_le_bytes_def)

lemma bit_255_word: "bit (255 :: 32 word) i \<longleftrightarrow> i < 8"
  using bit_mask_iff [of 8 i, where 'a="32 word"] by (auto simp: mask_eq_decr_exp)

lemma low_byte: "word_of_nat (unat (x AND 255) mod 256) = (x AND 255 :: 32 word)"
proof -
  have "x AND 255 \<le> (255 :: 32 word)" by (rule word_and_le1)
  then have "unat (x AND 255) \<le> 255" by (simp add: word_le_nat_alt)
  then show ?thesis by simp
qed

definition glue :: "32 word \<Rightarrow> 32 word" where
  "glue k = (drop_bit 0 k AND 255) OR push_bit 8 ((drop_bit 8 k AND 255)
     OR push_bit 8 ((drop_bit 16 k AND 255) OR push_bit 8 ((drop_bit 24 k AND 255) OR push_bit 8 0)))"

lemma bit_glue:
  "n < 32 \<Longrightarrow> bit (glue k) n =
    (n < 8 \<and> bit k n
     \<or> 8 \<le> n \<and> (n - 8 < 8 \<and> bit k (8 + (n - 8))
     \<or> 8 \<le> n - 8 \<and> (n - 8 - 8 < 8 \<and> bit k (16 + (n - 8 - 8))
     \<or> 8 \<le> n - 8 - 8 \<and> (n - 8 - 8 - 8 < 8 \<and> bit k (24 + (n - 8 - 8 - 8))))))"
  unfolding glue_def
  by (simp only: bit_or_iff bit_and_iff bit_push_bit_iff bit_drop_bit_eq bit_255_word comp_def add_0) auto

lemma glue_id: "glue k = k"
proof (rule bit_word_eqI)
  fix n
  assume "n < LENGTH(32)"
  then have n: "n < 32" by simp
  consider "n < 8" | "8 \<le> n" "n < 16" | "16 \<le> n" "n < 24" | "24 \<le> n" "n < 32" using n by fastforce
  then show "bit (glue k) n = bit k n"
    unfolding bit_glue [OF n] by cases auto
qed

lemma from_to_le_bytes [simp]: "from_le_bytes (to_le_bytes k) = k"
proof -
  have "from_le_bytes (to_le_bytes k) = glue k"
    unfolding to_le_bytes_def list.map from_le_bytes.simps ord_byte low_byte glue_def by simp
  then show ?thesis by (simp add: glue_id)
qed

lemma length_encode_header:
  "length (h_domain h) = DOMAIN_LEN \<Longrightarrow> length (encode_header h) = SIG_HEADER_LEN"
  by (simp add: encode_header_def put_at_def offset_defs MAGIC_def Let_def)

lemma encode_header_eq:
  assumes "length (h_domain h) = DOMAIN_LEN"
  shows "encode_header h = MAGIC @ [byte VERSION, byte (alg_to_u8 (h_alg h)), byte (hash_to_u8 (h_hash h)), byte 0]
    @ to_le_bytes (h_key_id h) @ h_domain h"
  using assms
  by (simp add: encode_header_def put_at_def offset_defs MAGIC_def Let_def numeral_eq_Suc)

text \<open>What \<open>decode\<close> accepts: the canonical header with any reserved byte.\<close>

definition with_reserved :: "char \<Rightarrow> bytes \<Rightarrow> bytes" where
  "with_reserved r b = b[OFF_RESERVED := r]"

lemma with_reserved_encode:
  assumes "length (h_domain h) = DOMAIN_LEN"
  shows "with_reserved r (encode_header h) =
    MAGIC @ [byte VERSION, byte (alg_to_u8 (h_alg h)), byte (hash_to_u8 (h_hash h)), r]
    @ to_le_bytes (h_key_id h) @ h_domain h"
  using encode_header_eq [OF assms] by (simp add: with_reserved_def offset_defs MAGIC_def)

lemma decode_with_reserved:
  assumes "length (h_domain h) = DOMAIN_LEN"
  shows "decode_header (with_reserved r (encode_header h) @ rest) = Inr h"
proof -
  obtain a b c d where k: "to_le_bytes (h_key_id h) = [a, b, c, d]"
    by (simp add: to_le_bytes_def)
  then have "from_le_bytes [a, b, c, d] = h_key_id h" by (metis from_to_le_bytes)
  then show ?thesis
    unfolding with_reserved_encode [OF assms] k using assms
    by (simp add: decode_header_def split_at_checked_def get_range_def get_at_def offset_defs MAGIC_def
        array_of_def VERSION_def del: from_le_bytes.simps)
qed

lemma small_bit: "x < 256 \<Longrightarrow> bit (x::nat) n \<Longrightarrow> n < 8"
proof (rule ccontr)
  assume x: "x < 256" and bit: "bit x n" and "\<not> n < 8"
  then have n: "8 \<le> n" by simp
  have "(2::nat) ^ 8 \<le> 2 ^ n" using n by (intro power_increasing) auto
  with x have "x div 2 ^ n = 0" by simp
  with bit show False by (simp add: bit_iff_odd)
qed

lemma bit_word_of_nat_32: "bit (word_of_nat x :: 32 word) n \<longleftrightarrow> n < 32 \<and> bit x n"
  by (simp add: bit_of_nat_iff)

lemma le_bytes_fields:
  assumes "w = from_le_bytes [a, b, c, d]"
  shows "drop_bit 0 w AND 255 = word_of_nat (ord a)" "drop_bit 8 w AND 255 = word_of_nat (ord b)"
    "drop_bit 16 w AND 255 = word_of_nat (ord c)" "drop_bit 24 w AND 255 = word_of_nat (ord d)"
proof -
  have w: "bit w n = (n < 32 \<and> (bit (ord a) n \<or> 8 \<le> n \<and> (bit (ord b) (n - 8)
      \<or> 8 \<le> n - 8 \<and> (bit (ord c) (n - 8 - 8) \<or> 8 \<le> n - 8 - 8 \<and> bit (ord d) (n - 8 - 8 - 8)))))" for n
    unfolding assms from_le_bytes.simps
    by (simp only: bit_or_iff bit_push_bit_iff bit_word_of_nat_32 comp_def) auto
  note sb = small_bit [OF ord_less [of a]] small_bit [OF ord_less [of b]]
    small_bit [OF ord_less [of c]] small_bit [OF ord_less [of d]]
  note norm = bit_and_iff bit_drop_bit_eq bit_255_word comp_def w bit_word_of_nat_32 add_0
  show "drop_bit 0 w AND 255 = word_of_nat (ord a)"
    by (rule bit_word_eqI) (simp only: norm, use sb in fastforce)
  show "drop_bit 8 w AND 255 = word_of_nat (ord b)"
    by (rule bit_word_eqI) (simp only: norm, use sb in fastforce)
  show "drop_bit 16 w AND 255 = word_of_nat (ord c)"
    by (rule bit_word_eqI) (simp only: norm, use sb in fastforce)
  show "drop_bit 24 w AND 255 = word_of_nat (ord d)"
    by (rule bit_word_eqI) (simp only: norm, use sb in fastforce)
qed

lemma byte_of_word: "byte (unat (word_of_nat (ord a) :: 32 word)) = a"
proof -
  have "unat (word_of_nat (ord a) :: 32 word) = ord a"
    using ord_less [of a] by (simp add: unat_of_nat)
  then show ?thesis by simp
qed

lemma to_from_le_bytes:
  assumes "length bs = 4"
  shows "to_le_bytes (from_le_bytes bs) = bs"
proof -
  obtain a b c d where bs: "bs = [a, b, c, d]"
    using assms by (auto simp: numeral_eq_Suc length_Suc_conv)
  have m: "8 * 0 = (0::nat)" "8 * 1 = (8::nat)" "8 * 2 = (16::nat)" "8 * 3 = (24::nat)" by simp_all
  note f = le_bytes_fields [of "from_le_bytes bs" a b c d, unfolded bs, OF refl]
  show ?thesis
    unfolding to_le_bytes_def bs list.map by (simp only: m f byte_of_word)
qed

lemma decode_header_InrD:
  assumes "decode_header b = Inr h"
  shows "length (h_domain h) = DOMAIN_LEN
    \<and> (\<exists>r. take SIG_HEADER_LEN b = with_reserved r (encode_header h))"
proof -
  let ?head = "take SIG_HEADER_LEN b"
  from assms obtain k where len: "SIG_HEADER_LEN \<le> length b"
    and magic: "take 8 ?head = MAGIC" and v: "ord (?head ! 8) = VERSION"
    and alg: "alg_from_u8 (ord (?head ! 9)) = Some (h_alg h)"
    and hash: "hash_from_u8 (ord (?head ! 10)) = Some (h_hash h)"
    and k: "k = take 4 (drop 12 ?head)" "h_key_id h = from_le_bytes k"
    and dom: "h_domain h = take 32 (drop 16 ?head)"
    by (auto simp: decode_header_def split_at_checked_def get_range_def get_at_def offset_defs
        array_of_def rbind_Inr_iff bind_eq_Some_conv split: if_splits)
  have hl: "length ?head = 48" using len by (simp add: offset_defs)
  have l: "length k = 4" "length (h_domain h) = DOMAIN_LEN" using k(1) dom hl by (auto simp: offset_defs)
  have kb: "to_le_bytes (h_key_id h) = k" using to_from_le_bytes [OF l(1)] k(2) by simp
  have bytes: "?head ! 8 = byte VERSION" "?head ! 9 = byte (alg_to_u8 (h_alg h))"
    "?head ! 10 = byte (hash_to_u8 (h_hash h))"
    using v alg_from_SomeD [OF alg] hash_from_SomeD [OF hash] by (metis byte_ord)+
  have "?head = take 8 ?head @ [?head ! 8, ?head ! 9, ?head ! 10, ?head ! 11]
      @ take 4 (drop 12 ?head) @ take 32 (drop 16 ?head)"
  proof (rule nth_equalityI)
    fix i
    assume "i < length ?head"
    then have "i < 8 \<or> i = 8 \<or> i = 9 \<or> i = 10 \<or> i = 11 \<or> 12 \<le> i \<and> i < 16 \<or> 16 \<le> i \<and> i < 48"
      using hl by linarith
    then show "?head ! i = (take 8 ?head @ [?head ! 8, ?head ! 9, ?head ! 10, ?head ! 11]
      @ take 4 (drop 12 ?head) @ take 32 (drop 16 ?head)) ! i"
      using hl by (auto simp: nth_append nth_Cons')
  qed (use hl in simp)
  then have "?head = MAGIC @ [byte VERSION, byte (alg_to_u8 (h_alg h)), byte (hash_to_u8 (h_hash h)), ?head ! 11]
      @ to_le_bytes (h_key_id h) @ h_domain h"
    using magic bytes k(1) kb dom by simp
  then show ?thesis using l(2) with_reserved_encode [OF l(2)] by metis
qed

lemma decode_header_encode: "length (h_domain h) = DOMAIN_LEN \<Longrightarrow> decode_header (encode_header h @ rest) = Inr h"
proof -
  assume l: "length (h_domain h) = DOMAIN_LEN"
  have "with_reserved (byte 0) (encode_header h) = encode_header h"
    by (rule trans [OF with_reserved_encode [OF l] encode_header_eq [OF l, symmetric]])
  then show ?thesis using decode_with_reserved [OF l, of "byte 0" rest] by simp
qed

interpretation header_codec: text_format encode_header "\<lambda>b. ok (decode_header b)"
  "\<lambda>h. length (h_domain h) = DOMAIN_LEN"
  by unfold_locales (use decode_header_encode [where rest = "[]"] in simp)

subsection \<open>Properties\<close>

lemma parse_sidecar_InrD:
  assumes "parse_sidecar b = Inr sc"
  shows "decode_header b = Inr (sc_header sc)" "length (sc_signature sc) = sig_len (h_alg (sc_header sc))"
    "b = take SIG_HEADER_LEN b @ sc_signature sc"
proof -
  from assms show "decode_header b = Inr (sc_header sc)"
    by (auto simp: parse_sidecar_def Let_def split_at_checked_def
        split: sum.splits option.splits prod.splits list.splits if_splits)
  then show "length (sc_signature sc) = sig_len (h_alg (sc_header sc))" "b = take SIG_HEADER_LEN b @ sc_signature sc"
    using assms
    by (cases sc; auto simp: parse_sidecar_def Let_def split_at_checked_def
        split: option.splits prod.splits list.splits if_splits)+
qed

text \<open>The sidecar parser accepts exactly the writer's output, with any value of the reserved
  byte: the header the writer makes of the parsed fields, then one signature of the algorithm's
  length, and not one byte more.\<close>

theorem sidecar_accepts_exactly:
  "parse_sidecar b = Inr sc \<longleftrightarrow>
    length (h_domain (sc_header sc)) = DOMAIN_LEN
    \<and> length (sc_signature sc) = sig_len (h_alg (sc_header sc))
    \<and> (\<exists>r. b = with_reserved r (encode_header (sc_header sc)) @ sc_signature sc)"
proof
  assume p: "parse_sidecar b = Inr sc"
  note d = parse_sidecar_InrD [OF p]
  from decode_header_InrD [OF d(1)] d show "length (h_domain (sc_header sc)) = DOMAIN_LEN
    \<and> length (sc_signature sc) = sig_len (h_alg (sc_header sc))
    \<and> (\<exists>r. b = with_reserved r (encode_header (sc_header sc)) @ sc_signature sc)"
    by metis
next
  assume *: "length (h_domain (sc_header sc)) = DOMAIN_LEN
    \<and> length (sc_signature sc) = sig_len (h_alg (sc_header sc))
    \<and> (\<exists>r. b = with_reserved r (encode_header (sc_header sc)) @ sc_signature sc)"
  then obtain r where b: "b = with_reserved r (encode_header (sc_header sc)) @ sc_signature sc" by blast
  have "length (with_reserved r (encode_header (sc_header sc))) = SIG_HEADER_LEN"
    using * length_encode_header by (simp add: with_reserved_def)
  with * b decode_with_reserved show "parse_sidecar b = Inr sc"
    by (simp add: parse_sidecar_def split_at_checked_def Let_def)
qed

end
