(* ===== verification/Signatures.thy ===== *)
theory Signatures
  imports Sig_Wire Boot_Dispatch "HOL-Library.Multiset"
begin

text \<open>
  The signature check in front of kexec: the baked keys (\<open>src/sig/keys.rs\<close>), the any-of
  verification (\<open>src/sig/verify.rs\<close>), the sidecar location (\<open>src/sig/scan.rs\<close>,
  \<open>src/generations/gen_id.rs\<close>), the policy gate (\<open>src/sig/gate.rs\<close>) and the external boot
  configuration (\<open>src/sig/boot_config.rs\<close>). The crates \<open>fips204\<close> and \<open>sha2\<close> are the record
  \<open>crypto\<close>, a parameter. An opened image is what reading its descriptor yields.
\<close>

subsection \<open>Keys\<close>

record crypto =
  sha256 :: "bytes \<Rightarrow> bytes"
  sha512 :: "bytes \<Rightarrow> bytes"
  key_decodes :: "alg_id \<Rightarrow> bytes \<Rightarrow> bool"
  hash_verify :: "alg_id \<Rightarrow> bytes \<Rightarrow> bytes \<Rightarrow> bytes \<Rightarrow> bytes \<Rightarrow> bool"

datatype sig_error =
    Sig_Io string
  | Sig_Error string

datatype verifying_key = VK_MlDsa65 bytes | VK_MlDsa87 bytes

datatype key_verify = Accept | Reject | BadSigLen

record baked_key =
  bk_key :: verifying_key
  bk_alg :: alg_id
  bk_pubkey :: bytes

text \<open>\<open>digest\<close>, \<open>sig\<close> and \<open>ctx\<close> in the code's order.\<close>

fun hash_verify_digest :: "crypto \<Rightarrow> verifying_key \<Rightarrow> bytes \<Rightarrow> bytes \<Rightarrow> bytes \<Rightarrow> key_verify" where
  "hash_verify_digest cr (VK_MlDsa65 pk) digest sg ctx =
     (case array_of (sig_len MlDsa65) sg of
        None \<Rightarrow> BadSigLen
      | Some s \<Rightarrow> if hash_verify cr MlDsa65 pk digest s ctx then Accept else Reject)"
| "hash_verify_digest cr (VK_MlDsa87 pk) digest sg ctx =
     (case array_of (sig_len MlDsa87) sg of
        None \<Rightarrow> BadSigLen
      | Some s \<Rightarrow> if hash_verify cr MlDsa87 pk digest s ctx then Accept else Reject)"

fun make_key :: "alg_id \<Rightarrow> bytes \<Rightarrow> verifying_key" where
  "make_key MlDsa65 b = VK_MlDsa65 b"
| "make_key MlDsa87 b = VK_MlDsa87 b"

definition parse_key :: "crypto \<Rightarrow> bytes \<Rightarrow> alg_id \<Rightarrow> sig_error + baked_key" where
  "parse_key cr b alg =
     (case array_of (pk_len alg) b of
        None \<Rightarrow> Inl (Sig_Error ''baked-key-length'')
      | Some arr \<Rightarrow>
          if key_decodes cr alg arr
          then Inr \<lparr>bk_key = make_key alg arr, bk_alg = alg, bk_pubkey = b\<rparr>
          else Inl (Sig_Error ''baked-key-parse''))"

fun parse_key_set :: "crypto \<Rightarrow> (bytes \<times> alg_id) list \<Rightarrow> sig_error + baked_key list" where
  "parse_key_set cr [] = Inr []"
| "parse_key_set cr ((b, alg) # ps) =
     rbind (parse_key cr b alg) (\<lambda>k. rbind (parse_key_set cr ps) (\<lambda>ks. Inr (k # ks)))"

definition fingerprint :: "crypto \<Rightarrow> baked_key \<Rightarrow> bytes" where
  "fingerprint cr k = key_fp (sha256 cr) (bk_pubkey k)"

text \<open>The stable sort by \<open>u8::from(head != want)\<close>.\<close>

definition order_by_hint :: "crypto \<Rightarrow> baked_key list \<Rightarrow> 32 word \<Rightarrow> baked_key list" where
  "order_by_hint cr keys key_id =
     sort_key (\<lambda>k. if take 4 (fingerprint cr k) \<noteq> to_le_bytes key_id then 1 else 0 :: nat) keys"

definition resolve_allowed_keys :: "crypto \<Rightarrow> baked_key list \<Rightarrow> bytes list \<Rightarrow> baked_key list" where
  "resolve_allowed_keys cr baked allowed =
     (if allowed = [] then baked else filter (\<lambda>k. fingerprint cr k \<in> set allowed) baked)"

subsection \<open>Verification\<close>

record signing_config =
  sg_enable :: bool
  sg_enforce :: bool
  sg_suffix :: string

datatype verify_policy = Enforce | Audit

definition policy_from_config :: "signing_config \<Rightarrow> verify_policy" where
  "policy_from_config sg = (if sg_enable sg \<and> \<not> sg_enforce sg then Audit else Enforce)"

definition DOMAIN_GEN_KERNEL :: bytes where "DOMAIN_GEN_KERNEL = ''nmbl:gen-kernel:v1''"
definition DOMAIN_GEN_INITRD :: bytes where "DOMAIN_GEN_INITRD = ''nmbl:gen-initrd:v1''"
definition DOMAIN_BOOT_CONFIG :: bytes where "DOMAIN_BOOT_CONFIG = ''nmbl:boot-config:v1''"

fun try_keys :: "crypto \<Rightarrow> alg_id \<Rightarrow> bytes \<Rightarrow> bytes \<Rightarrow> bytes \<Rightarrow> nat \<Rightarrow> baked_key list \<Rightarrow> sig_error + unit" where
  "try_keys cr alg digest sg domain tried [] = Inl (Sig_Error ''no-valid-key'')"
| "try_keys cr alg digest sg domain tried (k # ks) =
     (if bk_alg k \<noteq> alg then try_keys cr alg digest sg domain tried ks
      else (case hash_verify_digest cr (bk_key k) digest sg domain of
              Accept \<Rightarrow> Inr ()
            | Reject \<Rightarrow> try_keys cr alg digest sg domain (tried + 1) ks
            | BadSigLen \<Rightarrow> Inl (Sig_Error ''internal-siglen'')))"

definition verify_digest ::
  "crypto \<Rightarrow> bytes \<Rightarrow> bytes \<Rightarrow> sig_sidecar \<Rightarrow> baked_key list \<Rightarrow> verify_policy \<Rightarrow> sig_error + unit" where
  "verify_digest cr digest domain sc keys policy =
     (if h_domain (sc_header sc) \<noteq> domain_tag (sha256 cr) domain
      then Inl (Sig_Error ''domain-mismatch'')
      else try_keys cr (h_alg (sc_header sc)) digest (sc_signature sc) domain 0
             (order_by_hint cr keys (h_key_id (sc_header sc))))"

definition verify_digest_sidecar_bytes ::
  "crypto \<Rightarrow> (bytes \<times> alg_id) list \<Rightarrow> bytes \<Rightarrow> bytes \<Rightarrow> bytes \<Rightarrow> signing_config \<Rightarrow> sig_error + unit" where
  "verify_digest_sidecar_bytes cr baked digest sig_bytes domain sg =
     (case parse_sidecar sig_bytes of
        Inl e \<Rightarrow> Inl (Sig_Error ''sidecar-parse'')
      | Inr sc \<Rightarrow>
          rbind (parse_key_set cr baked) (\<lambda>keys.
            verify_digest cr digest domain sc keys (policy_from_config sg)))"

text \<open>\<open>img\<close> is what the descriptor reads, \<open>sig_file\<close> what \<open>fs::read\<close> of the sidecar
  path gives; no path at all is the outer \<^const>\<open>None\<close>.\<close>

definition verify_image_fd_digest ::
  "crypto \<Rightarrow> (bytes \<times> alg_id) list \<Rightarrow> bytes option \<Rightarrow> bytes option option \<Rightarrow> bytes \<Rightarrow> signing_config
   \<Rightarrow> sig_error + bytes" where
  "verify_image_fd_digest cr baked img sig_file domain sg =
     rbind (ok_or (Sig_Error ''sidecar-missing'') sig_file) (\<lambda>file.
     rbind (ok_or (Sig_Io ''sha512_fd'') img) (\<lambda>content.
     rbind (ok_or (Sig_Io ''read sidecar'') file) (\<lambda>sig_bytes.
     rbind (verify_digest_sidecar_bytes cr baked (sha512 cr content) sig_bytes domain sg) (\<lambda>_.
     Inr (sha512 cr content)))))"

definition verify_image_fd ::
  "crypto \<Rightarrow> (bytes \<times> alg_id) list \<Rightarrow> bytes option \<Rightarrow> bytes option option \<Rightarrow> bytes \<Rightarrow> signing_config
   \<Rightarrow> sig_error + unit" where
  "verify_image_fd cr baked img sig_file domain sg =
     rbind (verify_image_fd_digest cr baked img sig_file domain sg) (\<lambda>_. Inr ())"

definition verify_image_fd_sidecar_bytes ::
  "crypto \<Rightarrow> (bytes \<times> alg_id) list \<Rightarrow> bytes option \<Rightarrow> bytes \<Rightarrow> bytes \<Rightarrow> signing_config
   \<Rightarrow> sig_error + bytes" where
  "verify_image_fd_sidecar_bytes cr baked img sig_bytes domain sg =
     rbind (ok_or (Sig_Io ''sha512_fd'') img) (\<lambda>content.
     rbind (verify_digest_sidecar_bytes cr baked (sha512 cr content) sig_bytes domain sg) (\<lambda>_.
     Inr (sha512 cr content)))"

subsection \<open>Where the sidecars are\<close>

definition SIGS_SUBDIR :: string where
  "SIGS_SUBDIR = ''nmbl/sigs''"

datatype gen_blob = Kernel | Initrd

fun stem :: "gen_blob \<Rightarrow> string" where
  "stem Kernel = ''kernel''"
| "stem Initrd = ''initrd''"

text \<open>\<open>canon\<close> is \<open>fs::canonicalize\<close>; a name that is not UTF-8 has no \<open>to_str\<close>.\<close>

definition gen_id_of_path :: "(string \<Rightarrow> string option) \<Rightarrow> string \<Rightarrow> sig_error + string" where
  "gen_id_of_path canon tlv =
     rbind (ok_or (Sig_Io ''canonicalize'') (canon tlv)) (\<lambda>c.
     ok_or (Sig_Error ''gen-id'')
       (Option.bind (file_name c) (\<lambda>n. if valid_utf8 n then Some n else None)))"

definition gen_id :: "(string \<Rightarrow> string option) \<Rightarrow> generation \<Rightarrow> sig_error + string" where
  "gen_id canon g = gen_id_of_path canon (toplevel g)"

definition generation_sig_dir ::
  "(string \<Rightarrow> string option) \<Rightarrow> boot_config \<Rightarrow> generation \<Rightarrow> sig_error + string" where
  "generation_sig_dir canon cfg g =
     rbind (ok_or (Sig_Error ''gen-sig-dir'') (resolve_boot_mountpoint cfg)) (\<lambda>boot.
     case Option.bind (generation_image cfg)
            (\<lambda>p. if img_enable p then stage1_store p else None) of
       Some store \<Rightarrow> Inr (path_join (path_join boot (relative_state_root store)) ''active'')
     | None \<Rightarrow>
         rbind (gen_id canon g) (\<lambda>i. Inr (path_join (path_join boot SIGS_SUBDIR) i)))"

datatype meta_result = Meta_File | Meta_Not_File | Meta_NotFound | Meta_Error

definition resolve_sig_sidecar ::
  "(string \<Rightarrow> string option) \<Rightarrow> (string \<Rightarrow> meta_result) \<Rightarrow> boot_config \<Rightarrow> signing_config \<Rightarrow> generation
   \<Rightarrow> gen_blob \<Rightarrow> sig_error + string \<times> bool" where
  "resolve_sig_sidecar canon meta cfg sg g blob =
     rbind (generation_sig_dir canon cfg g) (\<lambda>dir.
     let path = path_join dir (stem blob @ sg_suffix sg)
     in case meta path of
          Meta_File \<Rightarrow> Inr (path, True)
        | Meta_Not_File \<Rightarrow> Inr (path, False)
        | Meta_NotFound \<Rightarrow> Inr (path, False)
        | Meta_Error \<Rightarrow> Inl (Sig_Io ''stat generation sidecar''))"

subsection \<open>A generation\<close>

text \<open>\<open>open_file\<close> pins a descriptor and gives its content, \<open>read_file\<close> is \<open>fs::read\<close>.\<close>

record file_access =
  open_file :: "string \<Rightarrow> bytes option option"
  read_file :: "string \<Rightarrow> bytes option"

definition verify_generation_blob_pinned ::
  "crypto \<Rightarrow> (bytes \<times> alg_id) list \<Rightarrow> file_access \<Rightarrow> signing_config \<Rightarrow> string \<Rightarrow> string \<Rightarrow> bytes
   \<Rightarrow> sig_error + bytes option \<times> bytes" where
  "verify_generation_blob_pinned cr baked fa sg blob sig_path domain =
     rbind (ok_or (Sig_Io ''open for verify'') (open_file fa blob)) (\<lambda>fd.
     rbind (verify_image_fd_digest cr baked fd (Some (read_file fa sig_path)) domain sg) (\<lambda>digest.
     Inr (fd, digest)))"

definition verify_generation_blob ::
  "crypto \<Rightarrow> (bytes \<times> alg_id) list \<Rightarrow> file_access \<Rightarrow> signing_config \<Rightarrow> string \<Rightarrow> string \<Rightarrow> bytes
   \<Rightarrow> sig_error + unit" where
  "verify_generation_blob cr baked fa sg blob sig_path domain =
     rbind (ok_or (Sig_Io ''open for verify'') (open_file fa blob)) (\<lambda>fd.
     verify_image_fd cr baked fd (Some (read_file fa sig_path)) domain sg)"

definition ensure_generation_signed ::
  "crypto \<Rightarrow> (bytes \<times> alg_id) list \<Rightarrow> file_access \<Rightarrow> (string \<Rightarrow> string option) \<Rightarrow> boot_config
   \<Rightarrow> signing_config \<Rightarrow> generation \<Rightarrow> sig_error + unit" where
  "ensure_generation_signed cr baked fa canon cfg sg g =
     rbind (generation_sig_dir canon cfg g) (\<lambda>dir.
     rbind (verify_generation_blob cr baked fa sg (kernel g)
              (path_join dir (''kernel'' @ sg_suffix sg)) DOMAIN_GEN_KERNEL) (\<lambda>_.
     rbind (verify_generation_blob cr baked fa sg (initrd g)
              (path_join dir (''initrd'' @ sg_suffix sg)) DOMAIN_GEN_INITRD) (\<lambda>_.
     Inr ())))"

record verified_generation =
  kernel_fd :: "bytes option"
  initrd_fd :: "bytes option"
  kernel_digest :: bytes
  initrd_digest :: bytes

definition verify_generation_pinned ::
  "crypto \<Rightarrow> (bytes \<times> alg_id) list \<Rightarrow> file_access \<Rightarrow> (string \<Rightarrow> string option) \<Rightarrow> boot_config
   \<Rightarrow> signing_config \<Rightarrow> generation \<Rightarrow> sig_error + verified_generation" where
  "verify_generation_pinned cr baked fa canon cfg sg g =
     rbind (generation_sig_dir canon cfg g) (\<lambda>dir.
     rbind (ok_or (Sig_Io ''open for verify'') (open_file fa (kernel g))) (\<lambda>kfd.
     rbind (verify_image_fd_digest cr baked kfd
              (Some (read_file fa (path_join dir (''kernel'' @ sg_suffix sg)))) DOMAIN_GEN_KERNEL sg) (\<lambda>kdig.
     rbind (verify_generation_blob_pinned cr baked fa sg (initrd g)
              (path_join dir (''initrd'' @ sg_suffix sg)) DOMAIN_GEN_INITRD) (\<lambda>(ifd, idig).
     Inr \<lparr>kernel_fd = kfd, initrd_fd = ifd, kernel_digest = kdig, initrd_digest = idig\<rparr>))))"

subsection \<open>The gate\<close>

datatype policy_decision = Gate_Proceed | Gate_Refuse sig_error

definition apply_policy :: "signing_config \<Rightarrow> sig_error + unit \<Rightarrow> policy_decision" where
  "apply_policy sg r =
     (case r of
        Inr _ \<Rightarrow> Gate_Proceed
      | Inl e \<Rightarrow> (case policy_from_config sg of Enforce \<Rightarrow> Gate_Refuse e | Audit \<Rightarrow> Gate_Proceed))"

definition ensure_generation_signed_gated ::
  "crypto \<Rightarrow> (bytes \<times> alg_id) list \<Rightarrow> file_access \<Rightarrow> (string \<Rightarrow> string option) \<Rightarrow> boot_config
   \<Rightarrow> signing_config \<Rightarrow> generation \<Rightarrow> policy_decision" where
  "ensure_generation_signed_gated cr baked fa canon cfg sg g =
     (if \<not> sg_enable sg then Gate_Proceed
      else apply_policy sg (ensure_generation_signed cr baked fa canon cfg sg g))"

subsection \<open>The external boot configuration\<close>

text \<open>
  \<open>first\<close> is what the descriptor reads while it is hashed, \<open>second\<close> what it reads
  after the rewind; a read error is \<^const>\<open>None\<close>.
\<close>

definition load_verified ::
  "crypto \<Rightarrow> (bytes \<times> alg_id) list \<Rightarrow> bool \<Rightarrow> bytes option \<Rightarrow> bytes option \<Rightarrow> bytes option
   \<Rightarrow> sig_error + string" where
  "load_verified cr baked opened first sig_bytes second =
     rbind (ensure opened (Sig_Io ''open external boot config'')) (\<lambda>_.
     rbind (ok_or (Sig_Io ''sha512_fd'') first) (\<lambda>content.
     rbind (ok_or (Sig_Io ''read boot-config signature'') sig_bytes) (\<lambda>sb.
     rbind (case parse_sidecar sb of Inl _ \<Rightarrow> Inl (Sig_Error ''boot-config-sidecar'') | Inr sc \<Rightarrow> Inr sc) (\<lambda>sc.
     rbind (parse_key_set cr baked) (\<lambda>keys.
     rbind (verify_digest cr (sha512 cr content) DOMAIN_BOOT_CONFIG sc keys Enforce) (\<lambda>_.
     rbind (ok_or (Sig_Io ''read verified boot config'')
              (Option.bind second (\<lambda>t. if valid_utf8 t then Some t else None))) (\<lambda>text.
     Inr text)))))))"

subsection \<open>What the checks decide\<close>

text \<open>The specification of one detached signature: a parsed sidecar of the role, and a baked key of
  its algorithm that verifies the digest.\<close>

definition key_signs :: "crypto \<Rightarrow> sig_sidecar \<Rightarrow> bytes \<Rightarrow> bytes \<Rightarrow> bytes \<times> alg_id \<Rightarrow> bool" where
  "key_signs cr sc digest domain p \<longleftrightarrow>
     snd p = h_alg (sc_header sc) \<and> hash_verify cr (snd p) (fst p) digest (sc_signature sc) domain"

definition blob_signed ::
  "crypto \<Rightarrow> (bytes \<times> alg_id) list \<Rightarrow> bytes \<Rightarrow> bytes \<Rightarrow> bytes \<Rightarrow> bool" where
  "blob_signed cr baked digest sig_bytes domain \<longleftrightarrow>
     (\<exists>sc. parse_sidecar sig_bytes = Inr sc
         \<and> h_domain (sc_header sc) = domain_tag (sha256 cr) domain
         \<and> (\<exists>p\<in>set baked. key_signs cr sc digest domain p))"

definition key_of :: "bytes \<times> alg_id \<Rightarrow> baked_key" where
  "key_of p = \<lparr>bk_key = make_key (snd p) (fst p), bk_alg = snd p, bk_pubkey = fst p\<rparr>"

definition pair_ok :: "crypto \<Rightarrow> bytes \<times> alg_id \<Rightarrow> bool" where
  "pair_ok cr p \<longleftrightarrow> length (fst p) = pk_len (snd p) \<and> key_decodes cr (snd p) (fst p)"

lemma parse_key_Inr_iff: "parse_key cr b alg = Inr k \<longleftrightarrow> pair_ok cr (b, alg) \<and> k = key_of (b, alg)"
  by (auto simp: parse_key_def array_of_def pair_ok_def key_of_def split: if_splits)

lemma parse_key_set_iff:
  "parse_key_set cr baked = Inr keys \<longleftrightarrow> list_all (pair_ok cr) baked \<and> keys = map key_of baked"
proof (induction baked arbitrary: keys)
  case Nil
  then show ?case by auto
next
  case (Cons p ps)
  obtain b alg where "p = (b, alg)" by fastforce
  with Cons show ?case by (auto simp: rbind_Inr_iff parse_key_Inr_iff)
qed

text \<open>The baked key set is trusted as a whole or not at all: every entry must have its
  algorithm's length and decode, and then the parsed keys are all of them, in order. Narrowing
  keeps the keys whose full fingerprint is allowed, and ordering by the hint drops none.\<close>

theorem key_set_all_or_nothing:
  "(parse_key_set cr baked = Inr keys \<longleftrightarrow> list_all (pair_ok cr) baked \<and> keys = map key_of baked)
   \<and> mset (order_by_hint cr keys hint) = mset keys
   \<and> set (resolve_allowed_keys cr keys allowed)
      = {k \<in> set keys. allowed = [] \<or> fingerprint cr k \<in> set allowed}"
  by (simp add: parse_key_set_iff order_by_hint_def resolve_allowed_keys_def)

lemma hash_verify_digest_key_of:
  "length sg = sig_len (snd p) \<Longrightarrow>
   hash_verify_digest cr (bk_key (key_of p)) digest sg domain
     = (if hash_verify cr (snd p) (fst p) digest sg domain then Accept else Reject)"
  by (cases "snd p") (simp_all add: key_of_def array_of_def)

lemma try_keys_iff:
  assumes "length sg = sig_len alg" "\<And>k. k \<in> set ks \<Longrightarrow> k \<in> range key_of"
  shows "try_keys cr alg digest sg domain tried ks = Inr () \<longleftrightarrow>
    (\<exists>p. key_of p \<in> set ks \<and> snd p = alg \<and> hash_verify cr alg (fst p) digest sg domain)"
  using assms(2)
proof (induction ks arbitrary: tried)
  case Nil
  then show ?case by simp
next
  case (Cons k ks)
  then have "k \<in> range key_of" by simp
  then obtain pk a where q: "k = key_of (pk, a)" by auto
  have inj: "key_of p = key_of (pk, a) \<longleftrightarrow> p = (pk, a)" for p
    by (auto simp: key_of_def prod_eq_iff)
  from Cons have IH: "\<And>tried. try_keys cr alg digest sg domain tried ks = Inr () \<longleftrightarrow>
    (\<exists>p. key_of p \<in> set ks \<and> snd p = alg \<and> hash_verify cr alg (fst p) digest sg domain)" by simp
  have alg: "bk_alg k = a" by (simp add: q key_of_def)
  show ?case
  proof (cases "a = alg")
    case True
    then have "hash_verify_digest cr (bk_key k) digest sg domain
        = (if hash_verify cr alg pk digest sg domain then Accept else Reject)"
      using hash_verify_digest_key_of [of sg "(pk, a)"] assms(1) q by simp
    then show ?thesis using True alg IH q inj by auto
  next
    case False
    then show ?thesis using alg IH q inj by auto
  qed
qed

lemma set_order_by_hint [simp]: "set (order_by_hint cr keys h) = set keys"
  by (simp add: order_by_hint_def)

lemma verify_digest_iff:
  assumes "length (sc_signature sc) = sig_len (h_alg (sc_header sc))"
  shows "verify_digest cr digest domain sc (map key_of baked) policy = Inr () \<longleftrightarrow>
    h_domain (sc_header sc) = domain_tag (sha256 cr) domain
    \<and> (\<exists>p\<in>set baked. key_signs cr sc digest domain p)"
proof -
  have inj: "key_of p = key_of q \<longleftrightarrow> p = q" for p q
    by (auto simp: key_of_def prod_eq_iff)
  have "try_keys cr (h_alg (sc_header sc)) digest (sc_signature sc) domain 0
      (order_by_hint cr (map key_of baked) (h_key_id (sc_header sc))) = Inr ()
    \<longleftrightarrow> (\<exists>p\<in>set baked. key_signs cr sc digest domain p)"
    by (subst try_keys_iff) (force simp: assms key_signs_def inj image_iff)+
  then show ?thesis by (simp add: verify_digest_def)
qed

text \<open>C22: the any-of verification accepts exactly the signed digests: the whole baked set parses, the
  sidecar is of the role, and some baked key of its algorithm verifies the signature. The key
  hint of the sidecar has no say in it.\<close>

theorem verification_is_any_of:
  "verify_digest_sidecar_bytes cr baked digest sig_bytes domain sg = Inr () \<longleftrightarrow>
    list_all (pair_ok cr) baked \<and> blob_signed cr baked digest sig_bytes domain"
proof (cases "parse_sidecar sig_bytes")
  case (Inl e)
  then show ?thesis by (simp add: verify_digest_sidecar_bytes_def blob_signed_def)
next
  case (Inr sc)
  show ?thesis
    using verify_digest_iff [OF parse_sidecar_InrD(2) [OF Inr], of cr digest domain baked]
    by (auto simp: verify_digest_sidecar_bytes_def Inr rbind_Inr_iff parse_key_set_iff blob_signed_def)
qed

lemma verify_image_fd_InrD:
  assumes "verify_image_fd_digest cr baked img (Some sb) domain sg = Inr d"
  shows "\<exists>content sig_bytes. img = Some content \<and> sb = Some sig_bytes \<and> d = sha512 cr content
    \<and> blob_signed cr baked (sha512 cr content) sig_bytes domain"
proof -
  from assms obtain content sig_bytes where c: "img = Some content" "sb = Some sig_bytes"
    "verify_digest_sidecar_bytes cr baked (sha512 cr content) sig_bytes domain sg = Inr ()"
    "d = sha512 cr content"
    by (auto simp: verify_image_fd_digest_def rbind_Inr_iff)
  have "blob_signed cr baked (sha512 cr content) sig_bytes domain"
  proof (cases "parse_sidecar sig_bytes")
    case (Inl e)
    with c(3) show ?thesis by (simp add: verify_digest_sidecar_bytes_def)
  next
    case (Inr sc)
    with c(3) show ?thesis
      using verify_digest_iff [OF parse_sidecar_InrD(2) [OF Inr], of cr "sha512 cr content" domain baked]
      by (auto simp: verify_digest_sidecar_bytes_def rbind_Inr_iff parse_key_set_iff blob_signed_def)
  qed
  with c show ?thesis by blast
qed

definition generation_signed ::
  "crypto \<Rightarrow> (bytes \<times> alg_id) list \<Rightarrow> file_access \<Rightarrow> string \<Rightarrow> string \<Rightarrow> bytes \<Rightarrow> bool" where
  "generation_signed cr baked fa blob sig_path domain \<longleftrightarrow>
     (\<exists>content sig_bytes. open_file fa blob = Some (Some content) \<and> read_file fa sig_path = Some sig_bytes
        \<and> blob_signed cr baked (sha512 cr content) sig_bytes domain)"

lemma verify_generation_blob_InrD:
  "verify_generation_blob cr baked fa sg blob sig_path domain = Inr () \<Longrightarrow>
   generation_signed cr baked fa blob sig_path domain"
  by (fastforce simp: verify_generation_blob_def verify_image_fd_def rbind_Inr_iff generation_signed_def
      dest!: verify_image_fd_InrD)

text \<open>C4: under enforcement the gate lets a generation through only when its kernel and its initrd
  are both signed, each under its own role, by a baked key. A disabled or auditing policy is the
  only other way past the gate.\<close>

theorem gate_enforces_signatures:
  assumes "ensure_generation_signed_gated cr baked fa canon cfg sg g = Gate_Proceed"
  shows "\<not> sg_enable sg \<or> \<not> sg_enforce sg
    \<or> (\<exists>dir. generation_sig_dir canon cfg g = Inr dir
         \<and> generation_signed cr baked fa (kernel g) (path_join dir (''kernel'' @ sg_suffix sg)) DOMAIN_GEN_KERNEL
         \<and> generation_signed cr baked fa (initrd g) (path_join dir (''initrd'' @ sg_suffix sg)) DOMAIN_GEN_INITRD)"
proof (rule ccontr)
  assume neg: "\<not> ?thesis"
  then have "ensure_generation_signed cr baked fa canon cfg sg g = Inr ()"
    using assms
    by (auto simp: ensure_generation_signed_gated_def apply_policy_def policy_from_config_def
        split: sum.splits)
  then have "\<exists>dir. generation_sig_dir canon cfg g = Inr dir
     \<and> generation_signed cr baked fa (kernel g) (path_join dir (''kernel'' @ sg_suffix sg)) DOMAIN_GEN_KERNEL
     \<and> generation_signed cr baked fa (initrd g) (path_join dir (''initrd'' @ sg_suffix sg)) DOMAIN_GEN_INITRD"
    by (auto simp: ensure_generation_signed_def rbind_Inr_iff dest!: verify_generation_blob_InrD)
  with neg show False by blast
qed

text \<open>A host with one key, a toy cipher and signed files, on which the hypotheses hold.\<close>

definition demo_crypto :: crypto where
  "demo_crypto = \<lparr>sha256 = (\<lambda>b. replicate DOMAIN_LEN (byte (length b))), sha512 = (\<lambda>b. b),
     key_decodes = (\<lambda>_ _. True), hash_verify = (\<lambda>_ pk d s _. hd pk = CHR ''k'' \<and> hd s = hd d)\<rparr>"

definition demo_pair :: "bytes \<times> alg_id" where
  "demo_pair = (replicate 1952 (CHR ''k''), MlDsa65)"

definition demo_sidecar :: "bytes \<Rightarrow> char \<Rightarrow> bytes" where
  "demo_sidecar domain c = encode_header \<lparr>h_alg = MlDsa65, h_hash = Sha512, h_key_id = 0,
      h_domain = domain_tag (sha256 demo_crypto) domain\<rparr> @ replicate 3309 c"

definition demo_files_signed :: file_access where
  "demo_files_signed = \<lparr>open_file = (\<lambda>p. if p = ''K'' then Some (Some ''kern'') else if p = ''I'' then Some (Some ''init'') else None),
     read_file = (\<lambda>p. if p = ''/b/nmbl/sigs/abc/kernel.sig'' then Some (demo_sidecar DOMAIN_GEN_KERNEL (CHR ''k''))
       else if p = ''/b/nmbl/sigs/abc/initrd.sig'' then Some (demo_sidecar DOMAIN_GEN_INITRD (CHR ''i'')) else None)\<rparr>"

lemma demo_sidecar_parses:
  "parse_sidecar (demo_sidecar domain c) =
    Inr \<lparr>sc_header = \<lparr>h_alg = MlDsa65, h_hash = Sha512, h_key_id = 0,
          h_domain = domain_tag (sha256 demo_crypto) domain\<rparr>, sc_signature = replicate 3309 c\<rparr>"
proof -
  let ?h = "\<lparr>h_alg = MlDsa65, h_hash = Sha512, h_key_id = 0, h_domain = domain_tag (sha256 demo_crypto) domain\<rparr>"
  have l: "length (h_domain ?h) = DOMAIN_LEN" by (simp add: domain_tag_def demo_crypto_def)
  show ?thesis
    using decode_header_encode [OF l] length_encode_header [OF l]
    by (simp add: demo_sidecar_def parse_sidecar_def split_at_checked_def Let_def)
qed

lemma demo_blob_signed:
  "verify_digest_sidecar_bytes demo_crypto [demo_pair] (c # d) (demo_sidecar domain c) domain sg = Inr ()"
proof -
  have "parse_key_set demo_crypto [demo_pair] = Inr (map key_of [demo_pair])"
    by (simp only: parse_key_set_iff) (simp add: pair_ok_def demo_pair_def demo_crypto_def)
  moreover have "key_signs demo_crypto (the (ok (parse_sidecar (demo_sidecar domain c)))) (c # d) domain demo_pair"
    by (simp add: key_signs_def demo_sidecar_parses demo_pair_def demo_crypto_def)
  ultimately show ?thesis
    using verify_digest_iff [of "the (ok (parse_sidecar (demo_sidecar domain c)))" demo_crypto "c # d" domain "[demo_pair]"]
    by (simp add: verify_digest_sidecar_bytes_def demo_sidecar_parses)
qed

definition demo_signed_config :: boot_config where
  "demo_signed_config = demo_config\<lparr>runtime_boot_mountpoint := Some ''/b''\<rparr>"

definition demo_signed_generation :: generation where
  "demo_signed_generation = (demo_generation 3)\<lparr>kernel := ''K'', initrd := ''I'', toplevel := ''T''\<rparr>"

definition demo_canon :: "string \<Rightarrow> string option" where
  "demo_canon p = Some ''/nix/store/abc''"

definition demo_signing :: signing_config where
  "demo_signing = \<lparr>sg_enable = True, sg_enforce = True, sg_suffix = ''.sig''\<rparr>"

lemma demo_sig_dir: "generation_sig_dir demo_canon demo_signed_config demo_signed_generation = Inr ''/b/nmbl/sigs/abc''"
proof -
  have "file_name ''/nix/store/abc'' = Some ''abc''"
    by (simp add: file_name_def components_def part_component_def slash_def)
  moreover have "valid_utf8 ''abc''" by (rule valid_utf8_ascii) (auto simp: is_ascii_def ord_def)
  ultimately show ?thesis
    by (simp add: generation_sig_dir_def gen_id_def gen_id_of_path_def demo_canon_def
        demo_signed_config_def demo_config_def resolve_boot_mountpoint_def path_join_def slash_def SIGS_SUBDIR_def)
qed

theorem gate_enforces_signatures_witness:
  "ensure_generation_signed_gated demo_crypto [demo_pair] demo_files_signed demo_canon demo_signed_config
      demo_signing demo_signed_generation = Gate_Proceed
   \<and> generation_signed demo_crypto [demo_pair] demo_files_signed ''K'' ''/b/nmbl/sigs/abc/kernel.sig'' DOMAIN_GEN_KERNEL"
proof -
  have "verify_generation_blob demo_crypto [demo_pair] demo_files_signed demo_signing ''K''
      ''/b/nmbl/sigs/abc/kernel.sig'' DOMAIN_GEN_KERNEL = Inr ()"
    "verify_generation_blob demo_crypto [demo_pair] demo_files_signed demo_signing ''I''
      ''/b/nmbl/sigs/abc/initrd.sig'' DOMAIN_GEN_INITRD = Inr ()"
    using demo_blob_signed
    by (simp_all add: verify_generation_blob_def verify_image_fd_def verify_image_fd_digest_def
        demo_files_signed_def) (simp_all add: demo_crypto_def)
  then have p: "ensure_generation_signed_gated demo_crypto [demo_pair] demo_files_signed demo_canon demo_signed_config
      demo_signing demo_signed_generation = Gate_Proceed"
    by (simp add: ensure_generation_signed_gated_def ensure_generation_signed_def demo_sig_dir)
      (simp add: demo_signed_generation_def demo_signing_def apply_policy_def path_join_def slash_def)
  from gate_enforces_signatures [OF p] p show ?thesis
    by (simp add: demo_sig_dir) (simp add: demo_signing_def demo_signed_generation_def path_join_def slash_def)
qed

lemma load_verified_InrD:
  assumes "load_verified cr baked opened first sig_bytes second = Inr text"
  obtains content sb sc where "opened" "first = Some content" "sig_bytes = Some sb" "parse_sidecar sb = Inr sc"
    "parse_key_set cr baked = Inr (map key_of baked)"
    "verify_digest cr (sha512 cr content) DOMAIN_BOOT_CONFIG sc (map key_of baked) Enforce = Inr ()"
    "second = Some text" "valid_utf8 text"
proof -
  from assms obtain content sb where 1: "opened" "first = Some content" "sig_bytes = Some sb"
    by (auto simp: load_verified_def rbind_Inr_iff)
  with assms obtain sc where 2: "parse_sidecar sb = Inr sc"
    by (cases "parse_sidecar sb") (auto simp: load_verified_def)
  with assms 1 obtain keys t where "parse_key_set cr baked = Inr keys"
    "verify_digest cr (sha512 cr content) DOMAIN_BOOT_CONFIG sc keys Enforce = Inr ()"
    and 3: "second = Some t" "(if valid_utf8 t then Some t else None) = Some text"
    by (auto simp: load_verified_def rbind_Inr_iff bind_eq_Some_conv)
  moreover from 3 have "second = Some text" "valid_utf8 text" by (auto split: if_splits)
  moreover note 1 2
  ultimately have "opened" "first = Some content" "sig_bytes = Some sb" "parse_sidecar sb = Inr sc"
    "parse_key_set cr baked = Inr keys"
    "verify_digest cr (sha512 cr content) DOMAIN_BOOT_CONFIG sc keys Enforce = Inr ()"
    "second = Some text" "valid_utf8 text"
    by blast+
  with parse_key_set_iff [of cr baked keys] that show ?thesis by blast
qed

text \<open>An external configuration is only used after its signature was checked, but the text that
  is used comes from a second read. The signature binds what was read first; whatever UTF-8 text
  the second read gives is returned under the same verdict.\<close>

theorem boot_config_text_is_reread:
  assumes "load_verified cr baked opened first sig_bytes second = Inr text"
  shows "(\<exists>content sb. first = Some content \<and> sig_bytes = Some sb
        \<and> blob_signed cr baked (sha512 cr content) sb DOMAIN_BOOT_CONFIG)
    \<and> (second = first \<longrightarrow> first = Some text)
    \<and> (valid_utf8 other \<longrightarrow> load_verified cr baked opened first sig_bytes (Some other) = Inr other)"
  using assms
proof (rule load_verified_InrD)
  fix content sb sc
  assume *: "opened" "first = Some content" "sig_bytes = Some sb" "parse_sidecar sb = Inr sc"
    "parse_key_set cr baked = Inr (map key_of baked)"
    "verify_digest cr (sha512 cr content) DOMAIN_BOOT_CONFIG sc (map key_of baked) Enforce = Inr ()"
    "second = Some text" "valid_utf8 text"
  then have "blob_signed cr baked (sha512 cr content) sb DOMAIN_BOOT_CONFIG"
    using verify_digest_iff [OF parse_sidecar_InrD(2) [OF *(4)]] by (auto simp: blob_signed_def)
  with * show ?thesis by (simp add: load_verified_def)
qed

theorem boot_config_text_is_reread_witness:
  "load_verified demo_crypto [demo_pair] True (Some ''good'') (Some (demo_sidecar DOMAIN_BOOT_CONFIG (CHR ''g'')))
     (Some ''evil'') = Inr ''evil''"
proof -
  have "verify_digest_sidecar_bytes demo_crypto [demo_pair] ''good'' (demo_sidecar DOMAIN_BOOT_CONFIG (CHR ''g''))
      DOMAIN_BOOT_CONFIG demo_signing = Inr ()"
    by (rule demo_blob_signed)
  moreover have "sha512 demo_crypto ''good'' = ''good''" by (simp add: demo_crypto_def)
  moreover have "valid_utf8 ''good''" "valid_utf8 ''evil''"
    by (rule valid_utf8_ascii; auto simp: is_ascii_def ord_def)+
  moreover have "policy_from_config demo_signing = Enforce"
    by (simp add: policy_from_config_def demo_signing_def)
  ultimately have "load_verified demo_crypto [demo_pair] True (Some ''good'')
      (Some (demo_sidecar DOMAIN_BOOT_CONFIG (CHR ''g''))) (Some ''good'') = Inr ''good''"
    by (auto simp: load_verified_def verify_digest_sidecar_bytes_def demo_sidecar_parses rbind_Inr_iff
        parse_key_set_iff)
  from boot_config_text_is_reread [OF this, of "''evil''"] \<open>valid_utf8 ''evil''\<close> show ?thesis by simp
qed

end
