(* ===== verification/Mount_Options.thy ===== *)
theory Mount_Options
  imports Text
begin

text \<open>
  \<open>src/sys/mount.rs\<close>: the translation of an option string to mount flags and filesystem
  data. The kernel's \<open>MS_*\<close> bits are distinct, so a flag word is the set of the bits set in it.
\<close>

datatype ms_flag =
    MS_RDONLY | MS_NOSUID | MS_NODEV | MS_NOEXEC | MS_SYNCHRONOUS | MS_DIRSYNC | MS_REMOUNT
  | MS_BIND | MS_REC | MS_SHARED | MS_PRIVATE | MS_SLAVE | MS_NOATIME | MS_NODIRATIME
  | MS_RELATIME | MS_STRICTATIME | MS_MANDLOCK | MS_LAZYTIME | MS_I_VERSION | MS_SILENT

record option_entry =
  oe_name :: string
  oe_set :: "ms_flag set"
  oe_clear :: "ms_flag set"

definition opt_entry :: "string \<Rightarrow> ms_flag set \<Rightarrow> ms_flag set \<Rightarrow> option_entry" where
  "opt_entry n s c = \<lparr>oe_name = n, oe_set = s, oe_clear = c\<rparr>"

definition OPTION_TABLE :: "option_entry list" where
  "OPTION_TABLE =
     [opt_entry ''defaults'' {} {},
      opt_entry ''ro'' {MS_RDONLY} {},
      opt_entry ''rw'' {} {MS_RDONLY},
      opt_entry ''nosuid'' {MS_NOSUID} {},
      opt_entry ''suid'' {} {MS_NOSUID},
      opt_entry ''nodev'' {MS_NODEV} {},
      opt_entry ''dev'' {} {MS_NODEV},
      opt_entry ''noexec'' {MS_NOEXEC} {},
      opt_entry ''exec'' {} {MS_NOEXEC},
      opt_entry ''sync'' {MS_SYNCHRONOUS} {},
      opt_entry ''async'' {} {MS_SYNCHRONOUS},
      opt_entry ''dirsync'' {MS_DIRSYNC} {},
      opt_entry ''remount'' {MS_REMOUNT} {},
      opt_entry ''bind'' {MS_BIND} {},
      opt_entry ''rbind'' {MS_BIND, MS_REC} {},
      opt_entry ''shared'' {MS_SHARED} {},
      opt_entry ''rshared'' {MS_SHARED, MS_REC} {},
      opt_entry ''private'' {MS_PRIVATE} {},
      opt_entry ''rprivate'' {MS_PRIVATE, MS_REC} {},
      opt_entry ''slave'' {MS_SLAVE} {},
      opt_entry ''rslave'' {MS_SLAVE, MS_REC} {},
      opt_entry ''noatime'' {MS_NOATIME} {},
      opt_entry ''atime'' {} {MS_NOATIME},
      opt_entry ''nodiratime'' {MS_NODIRATIME} {},
      opt_entry ''diratime'' {} {MS_NODIRATIME},
      opt_entry ''relatime'' {MS_RELATIME} {},
      opt_entry ''norelatime'' {} {MS_RELATIME},
      opt_entry ''strictatime'' {MS_STRICTATIME} {},
      opt_entry ''nostrictatime'' {} {MS_STRICTATIME},
      opt_entry ''mand'' {MS_MANDLOCK} {},
      opt_entry ''lazytime'' {MS_LAZYTIME} {},
      opt_entry ''nolazytime'' {} {MS_LAZYTIME},
      opt_entry ''iversion'' {MS_I_VERSION} {},
      opt_entry ''noiversion'' {} {MS_I_VERSION},
      opt_entry ''silent'' {MS_SILENT} {},
      opt_entry ''loud'' {} {MS_SILENT}]"

definition option_entry_of :: "string \<Rightarrow> option_entry option" where
  "option_entry_of token = find (\<lambda>e. oe_name e = token) (rev OPTION_TABLE)"

fun fold_tokens :: "ms_flag set \<times> string list \<Rightarrow> string list \<Rightarrow> ms_flag set \<times> string list" where
  "fold_tokens acc [] = acc"
| "fold_tokens (flags, parts) (token # ts) =
     (if token = [] then fold_tokens (flags, parts) ts
      else (case option_entry_of token of
              Some e \<Rightarrow> fold_tokens (flags - oe_clear e \<union> oe_set e, parts) ts
            | None \<Rightarrow> fold_tokens (flags, parts @ [token]) ts))"

definition fold_options :: "string \<Rightarrow> ms_flag set \<times> string" where
  "fold_options options =
     (let (flags, parts) = fold_tokens ({}, []) (split_on (CHR '','') options)
      in (flags, join '','' parts))"

text \<open>The flags and the data that reach \<open>mount(2)\<close>.\<close>

definition data_arg :: "string \<Rightarrow> string option" where
  "data_arg d = (if d = [] then None else Some d)"

definition mount_fs_args :: "string \<Rightarrow> ms_flag set \<times> string option" where
  "mount_fs_args options = (let (flags, d) = fold_options options in (flags, data_arg d))"

definition remount_bind_args :: "string \<Rightarrow> ms_flag set \<times> string option" where
  "remount_bind_args options =
     (let (flags, d) = fold_options options in (flags \<union> {MS_BIND, MS_REMOUNT}, data_arg d))"

definition remount_superblock_args :: "string \<Rightarrow> ms_flag set \<times> string option" where
  "remount_superblock_args options =
     (let (flags, d) = fold_options options in (flags \<union> {MS_REMOUNT}, data_arg d))"

subsection \<open>The last word wins\<close>

definition token_set :: "string \<Rightarrow> ms_flag set" where
  "token_set t = (case option_entry_of t of None \<Rightarrow> {} | Some e \<Rightarrow> oe_set e)"

definition token_clear :: "string \<Rightarrow> ms_flag set" where
  "token_clear t = (case option_entry_of t of None \<Rightarrow> {} | Some e \<Rightarrow> oe_clear e)"

lemma option_entry_of_Nil: "option_entry_of [] = None"
  by (simp add: option_entry_of_def OPTION_TABLE_def opt_entry_def)

lemma fold_tokens_flags:
  "fst (fold_tokens (flags, parts) ts) =
    foldl (\<lambda>fl t. fl - token_clear t \<union> token_set t) flags ts"
  by (induction ts arbitrary: flags parts)
    (auto simp: token_set_def token_clear_def option_entry_of_Nil split: option.splits)

lemma fold_tokens_parts:
  "snd (fold_tokens (flags, parts) ts) =
    parts @ filter (\<lambda>t. t \<noteq> [] \<and> option_entry_of t = None) ts"
  by (induction ts arbitrary: flags parts) (auto split: option.splits)

lemma foldl_flags_iff:
  "f \<in> foldl (\<lambda>fl t. fl - token_clear t \<union> token_set t) flags ts \<longleftrightarrow>
    (\<exists>us t vs. ts = us @ t # vs \<and> f \<in> token_set t \<and> (\<forall>v\<in>set vs. f \<notin> token_clear v \<or> f \<in> token_set v))
    \<or> f \<in> flags \<and> (\<forall>v\<in>set ts. f \<notin> token_clear v \<or> f \<in> token_set v)"
proof (induction ts rule: rev_induct)
  case Nil
  then show ?case by simp
next
  case (snoc x xs)
  show ?case
  proof (cases "f \<in> token_set x")
    case True
    then have "f \<in> foldl (\<lambda>fl t. fl - token_clear t \<union> token_set t) flags (xs @ [x])" by simp
    moreover have "\<exists>us t vs. xs @ [x] = us @ t # vs \<and> f \<in> token_set t
        \<and> (\<forall>v\<in>set vs. f \<notin> token_clear v \<or> f \<in> token_set v)"
      using True by (intro exI [of _ xs] exI [of _ x] exI [of _ "[]"]) simp
    ultimately show ?thesis by blast
  next
    case False
    have split: "(\<exists>us t vs. xs @ [x] = us @ t # vs \<and> f \<in> token_set t
          \<and> (\<forall>v\<in>set vs. f \<notin> token_clear v \<or> f \<in> token_set v))
      \<longleftrightarrow> f \<notin> token_clear x \<and> (\<exists>us t vs. xs = us @ t # vs \<and> f \<in> token_set t
          \<and> (\<forall>v\<in>set vs. f \<notin> token_clear v \<or> f \<in> token_set v))"
      (is "?L \<longleftrightarrow> ?R")
    proof
      assume ?L
      then obtain us t vs where *: "xs @ [x] = us @ t # vs" "f \<in> token_set t"
        "\<forall>v\<in>set vs. f \<notin> token_clear v \<or> f \<in> token_set v" by blast
      with False obtain vs' where "vs = vs' @ [x]"
        by (cases vs rule: rev_cases) auto
      with * False show ?R by auto
    next
      assume ?R
      then obtain us t vs where "xs = us @ t # vs" "f \<in> token_set t" "f \<notin> token_clear x"
        "\<forall>v\<in>set vs. f \<notin> token_clear v \<or> f \<in> token_set v" by blast
      then show ?L by (intro exI [of _ us] exI [of _ t] exI [of _ "vs @ [x]"]) auto
    qed
    have step: "f \<in> foldl (\<lambda>fl t. fl - token_clear t \<union> token_set t) flags (xs @ [x])
        \<longleftrightarrow> f \<in> foldl (\<lambda>fl t. fl - token_clear t \<union> token_set t) flags xs \<and> f \<notin> token_clear x"
      using False by simp
    have all: "(\<forall>v\<in>set (xs @ [x]). f \<notin> token_clear v \<or> f \<in> token_set v)
        \<longleftrightarrow> (\<forall>v\<in>set xs. f \<notin> token_clear v \<or> f \<in> token_set v) \<and> f \<notin> token_clear x"
      using False by auto
    show ?thesis unfolding split step snoc.IH all by argo
  qed
qed

text \<open>A mount flag is set exactly when some option sets it and no later option clears it,
  and the data handed to the filesystem is the list of the unknown options in their order.\<close>

theorem last_option_wins:
  "(f \<in> fst (fold_options options) \<longleftrightarrow>
      (\<exists>us t vs. split_on (CHR '','') options = us @ t # vs \<and> f \<in> token_set t
        \<and> (\<forall>v\<in>set vs. f \<notin> token_clear v \<or> f \<in> token_set v)))
   \<and> snd (fold_options options) =
      join '','' (filter (\<lambda>t. t \<noteq> [] \<and> option_entry_of t = None) (split_on (CHR '','') options))"
  using fold_tokens_flags [of "{}" "[]" "split_on (CHR '','') options"]
    fold_tokens_parts [of "{}" "[]" "split_on (CHR '','') options"]
  by (simp add: fold_options_def case_prod_beta foldl_flags_iff)

theorem last_option_wins_witness:
  "MS_RDONLY \<notin> fst (fold_options ''ro,rw,noexec'') \<and> MS_NOEXEC \<in> fst (fold_options ''ro,rw,noexec'')"
proof -
  have s: "split_on (CHR '','') ''ro,rw,noexec'' = [''ro'', ''rw'', ''noexec'']" by simp
  have t: "token_set ''ro'' = {MS_RDONLY}" "token_clear ''rw'' = {MS_RDONLY}" "token_set ''rw'' = {}"
    "token_set ''noexec'' = {MS_NOEXEC}" "token_clear ''noexec'' = {}"
    by (simp_all add: token_set_def token_clear_def option_entry_of_def OPTION_TABLE_def opt_entry_def)
  have "\<exists>us u vs. [''ro'', ''rw'', ''noexec''] = us @ u # vs \<and> MS_NOEXEC \<in> token_set u
      \<and> (\<forall>v\<in>set vs. MS_NOEXEC \<notin> token_clear v \<or> MS_NOEXEC \<in> token_set v)"
    by (rule exI [of _ "[''ro'', ''rw'']"], rule exI [of _ "''noexec''"], rule exI [of _ "[]"]) (simp add: t)
  then have "MS_NOEXEC \<in> fst (fold_options ''ro,rw,noexec'')"
    using last_option_wins [of MS_NOEXEC "''ro,rw,noexec''"] unfolding s by blast
  moreover have "\<not> (\<exists>us u vs. [''ro'', ''rw'', ''noexec''] = us @ u # vs \<and> MS_RDONLY \<in> token_set u
      \<and> (\<forall>v\<in>set vs. MS_RDONLY \<notin> token_clear v \<or> MS_RDONLY \<in> token_set v))"
    by (auto simp: Cons_eq_append_conv t)
  then have "MS_RDONLY \<notin> fst (fold_options ''ro,rw,noexec'')"
    using last_option_wins [of MS_RDONLY "''ro,rw,noexec''"] unfolding s by blast
  ultimately show ?thesis by blast
qed

end
