(* ===== verification/Priority_Gate.thy ===== *)
theory Priority_Gate
  imports Signatures Mount_Options
begin

text \<open>
  The signed priority file in front of the boot: hexadecimal fingerprints (\<open>src/util/hex.rs\<close>) and
  the two-phase gate (\<open>src/policy/gate.rs\<close>). The kernel's answers are parameters: \<open>mkdir\<close> for
  the mountpoint and \<open>mounts\<close> for a mount with its device, target, type, flags and data.
\<close>

subsection \<open>Hexadecimal fingerprints\<close>

definition hex_lower :: "bytes \<Rightarrow> string" where
  "hex_lower bs = concat (map (\<lambda>b. [hex_digit (ord b div 16), hex_digit (ord b mod 16)]) bs)"

text \<open>The loop of \<open>decode_fixed\<close>: two digits for each of the \<open>n\<close> slots.\<close>

fun decode_slots :: "nat \<Rightarrow> string \<Rightarrow> bytes option" where
  "decode_slots 0 s = Some []"
| "decode_slots (Suc n) (h # l # s) =
     Option.bind (hex_val h) (\<lambda>hi. Option.bind (hex_val l) (\<lambda>lo.
     map_option (\<lambda>bs. byte (hi * 16 + lo) # bs) (decode_slots n s)))"
| "decode_slots (Suc n) s = None"

definition decode_fixed :: "nat \<Rightarrow> string \<Rightarrow> bytes option" where
  "decode_fixed n s = (if length s \<noteq> n * 2 then None else decode_slots n s)"

lemma decode_slots_hex: "decode_slots (length bs) (hex_lower bs) = Some bs"
proof (induction bs)
  case Nil
  then show ?case by simp
next
  case (Cons b bs)
  have "ord b div 16 < 16" "ord b mod 16 < 16" using ord_less [of b] by auto
  moreover have "ord b div 16 * 16 + ord b mod 16 = ord b" by simp
  ultimately show ?case using Cons by (simp add: hex_lower_def)
qed

lemma length_hex_lower [simp]: "length (hex_lower bs) = length bs * 2"
  by (induction bs) (simp_all add: hex_lower_def)

lemma decode_fixed_hex: "length bs = n \<Longrightarrow> decode_fixed n (hex_lower bs) = Some bs"
  using decode_slots_hex [of bs] by (auto simp: decode_fixed_def)

lemma decode_slots_length: "decode_slots n s = Some bs \<Longrightarrow> length bs = n"
  by (induction n s arbitrary: bs rule: decode_slots.induct) (auto simp: bind_eq_Some_conv)

interpretation fingerprint_hex: text_format hex_lower "decode_fixed 32" "\<lambda>bs. length bs = 32"
  by unfold_locales (rule decode_fixed_hex)

subsection \<open>The gate\<close>

record priority_volume =
  pv_device :: string
  pv_fstype :: string
  pv_options :: string
  pv_mountpoint :: string
  inside_luks :: bool

record secure_boot_config =
  sb_enable :: bool
  sb_enforce :: bool
  sb_volume :: "priority_volume option"
  sb_signed_file :: string
  allowed_key_ids :: "string list"

datatype gate_phase = PrePlainBoot | PostUnlock

fun phase_matches :: "gate_phase \<Rightarrow> priority_volume \<Rightarrow> bool" where
  "phase_matches PrePlainBoot vol = (\<not> inside_luks vol)"
| "phase_matches PostUnlock vol = inside_luks vol"

record attested_volume =
  av_mountpoint :: string
  av_owned_mount :: "string option"

datatype gate_error = Gate_Io string | Gate_Mount | Gate_Sig sig_error | PolicyRefused gate_error

datatype gate_decision = Attested attested_volume | Refuse gate_error | AuditProceed attested_volume

record gate_os =
  mkdir :: "string \<Rightarrow> bool"
  mounts :: "string \<Rightarrow> string \<Rightarrow> string \<Rightarrow> ms_flag set \<times> string option \<Rightarrow> bool"
  gate_files :: file_access

definition DOMAIN_PRIORITY_FILE :: bytes where
  "DOMAIN_PRIORITY_FILE = ''nmbl:priority-file:v1''"

definition ensure_ro :: "string \<Rightarrow> string" where
  "ensure_ro options =
     (if ''ro'' \<in> set (split_on (CHR '','') options) then options
      else if options = [] then ''ro''
      else ''ro,'' @ options)"

definition mount_priority_volume ::
  "gate_os \<Rightarrow> gate_phase \<Rightarrow> boot_config \<Rightarrow> priority_volume \<Rightarrow> gate_error + attested_volume" where
  "mount_priority_volume os phase cfg vol =
     (case phase of
        PrePlainBoot \<Rightarrow>
          Inr \<lparr>av_mountpoint = (case runtime_boot_mountpoint cfg of None \<Rightarrow> pv_mountpoint vol | Some m \<Rightarrow> m),
               av_owned_mount = None\<rparr>
      | PostUnlock \<Rightarrow>
          rbind (ensure (mkdir os (pv_mountpoint vol)) (Gate_Io ''create mountpoint'')) (\<lambda>_.
          rbind (ensure (mounts os (pv_device vol) (pv_mountpoint vol) (pv_fstype vol)
                           (mount_fs_args (ensure_ro (pv_options vol)))) Gate_Mount) (\<lambda>_.
          Inr \<lparr>av_mountpoint = pv_mountpoint vol, av_owned_mount = Some (pv_mountpoint vol)\<rparr>)))"

fun allowed_fingerprints :: "string list \<Rightarrow> gate_error + bytes list" where
  "allowed_fingerprints [] = Inr []"
| "allowed_fingerprints (i # ids) =
     rbind (ok_or (Gate_Sig (Sig_Error ''priority-allowed-key-id'')) (decode_fixed 32 i)) (\<lambda>fp.
     rbind (allowed_fingerprints ids) (\<lambda>fps. Inr (fp # fps)))"

definition lift_sig :: "sig_error + 'a \<Rightarrow> gate_error + 'a" where
  "lift_sig r = (case r of Inl e \<Rightarrow> Inl (Gate_Sig e) | Inr a \<Rightarrow> Inr a)"

definition verify_priority_against ::
  "crypto \<Rightarrow> secure_boot_config \<Rightarrow> signing_config \<Rightarrow> bytes \<Rightarrow> bytes \<Rightarrow> baked_key list \<Rightarrow> gate_error + unit" where
  "verify_priority_against cr sb sg digest sig_bytes baked =
     (case parse_sidecar sig_bytes of
        Inl _ \<Rightarrow> Inl (Gate_Sig (Sig_Error ''priority-sidecar-parse''))
      | Inr sc \<Rightarrow>
          rbind (allowed_fingerprints (allowed_key_ids sb)) (\<lambda>allowed.
          lift_sig (verify_digest cr digest DOMAIN_PRIORITY_FILE sc
                      (resolve_allowed_keys cr baked allowed) (policy_from_config sg))))"

definition verify_signed_file ::
  "crypto \<Rightarrow> (bytes \<times> alg_id) list \<Rightarrow> file_access \<Rightarrow> secure_boot_config \<Rightarrow> signing_config \<Rightarrow> string
   \<Rightarrow> gate_error + unit" where
  "verify_signed_file cr baked fa sb sg path =
     rbind (ok_or (Gate_Io ''open signed file'') (open_file fa path)) (\<lambda>fd.
     rbind (ok_or (Gate_Io ''sha512_fd'') fd) (\<lambda>content.
     rbind (ok_or (Gate_Io ''read sidecar'') (read_file fa (path @ sg_suffix sg))) (\<lambda>sig_bytes.
     rbind (lift_sig (parse_key_set cr baked)) (\<lambda>keys.
     verify_priority_against cr sb sg (sha512 cr content) sig_bytes keys))))"

definition evaluate_gate ::
  "crypto \<Rightarrow> (bytes \<times> alg_id) list \<Rightarrow> gate_os \<Rightarrow> gate_phase \<Rightarrow> boot_config \<Rightarrow> secure_boot_config
   \<Rightarrow> signing_config \<Rightarrow> priority_volume \<Rightarrow> gate_decision" where
  "evaluate_gate cr baked os phase cfg sb sg vol =
     (case mount_priority_volume os phase cfg vol of
        Inl e \<Rightarrow>
          if sb_enforce sb then Refuse e
          else AuditProceed \<lparr>av_mountpoint = [], av_owned_mount = None\<rparr>
      | Inr attested \<Rightarrow>
          (case verify_signed_file cr baked (gate_files os) sb sg
                  (path_join (av_mountpoint attested) (sb_signed_file sb)) of
             Inr _ \<Rightarrow> Attested attested
           | Inl cause \<Rightarrow> if sb_enforce sb then Refuse cause else AuditProceed attested))"

definition run_priority_gate_at ::
  "crypto \<Rightarrow> (bytes \<times> alg_id) list \<Rightarrow> gate_os \<Rightarrow> gate_phase \<Rightarrow> boot_config \<Rightarrow> secure_boot_config
   \<Rightarrow> signing_config \<Rightarrow> gate_error + attested_volume option" where
  "run_priority_gate_at cr baked os phase cfg sb sg =
     (if \<not> sb_enable sb then Inr None
      else case sb_volume sb of
        None \<Rightarrow> Inr None
      | Some vol \<Rightarrow>
          if \<not> phase_matches phase vol then Inr None
          else (case evaluate_gate cr baked os phase cfg sb sg vol of
                  Attested v \<Rightarrow> Inr (Some v)
                | AuditProceed v \<Rightarrow> Inr (Some v)
                | Refuse cause \<Rightarrow> Inl (PolicyRefused cause)))"

definition run_priority_gate ::
  "crypto \<Rightarrow> (bytes \<times> alg_id) list \<Rightarrow> gate_os \<Rightarrow> boot_config \<Rightarrow> secure_boot_config
   \<Rightarrow> signing_config \<Rightarrow> gate_error + attested_volume" where
  "run_priority_gate cr baked os cfg sb sg =
     rbind (run_priority_gate_at cr baked os PostUnlock cfg sb sg)
       (ok_or (Gate_Sig (Sig_Error ''priority-gate-not-configured'')))"

subsection \<open>Properties\<close>

lemma allowed_fingerprints_InrD:
  "allowed_fingerprints ids = Inr fps \<Longrightarrow> list_all2 (\<lambda>i fp. decode_fixed 32 i = Some fp) ids fps"
  by (induction ids arbitrary: fps) (auto simp: rbind_Inr_iff)

lemma resolve_allowed_keys_key_of:
  "\<exists>ps. resolve_allowed_keys cr (map key_of baked) allowed = map key_of ps \<and> set ps \<subseteq> set baked
    \<and> (\<forall>p\<in>set ps. allowed = [] \<or> key_fp (sha256 cr) (fst p) \<in> set allowed)"
proof (cases "allowed = []")
  case True
  then show ?thesis by (auto simp: resolve_allowed_keys_def)
next
  case False
  let ?ps = "filter (\<lambda>p. fingerprint cr (key_of p) \<in> set allowed) baked"
  have "resolve_allowed_keys cr (map key_of baked) allowed = map key_of ?ps"
    using False by (simp add: resolve_allowed_keys_def filter_map comp_def)
  then show ?thesis
    by (intro exI [of _ ?ps]) (auto simp: fingerprint_def key_of_def)
qed

lemma lift_sig_Inr [simp]: "lift_sig r = Inr a \<longleftrightarrow> r = Inr a"
  by (cases r) (auto simp: lift_sig_def)

text \<open>C19: under enforcement the gate lets a configured boot through only on a priority file that one
  of the allowed baked keys signed for this very role: the allowed identifiers all parse, and
  the signing key's full fingerprint is among them unless none are listed.\<close>

theorem priority_gate_enforces:
  assumes "run_priority_gate_at cr baked os phase cfg sb sg = Inr r" "sb_enforce sb"
  shows "\<not> sb_enable sb \<or> sb_volume sb = None \<or> (\<exists>vol. sb_volume sb = Some vol \<and> \<not> phase_matches phase vol)
    \<or> (\<exists>v content sig_bytes fps sc. r = Some v
        \<and> open_file (gate_files os) (path_join (av_mountpoint v) (sb_signed_file sb)) = Some (Some content)
        \<and> read_file (gate_files os) (path_join (av_mountpoint v) (sb_signed_file sb) @ sg_suffix sg) = Some sig_bytes
        \<and> list_all2 (\<lambda>i fp. decode_fixed 32 i = Some fp) (allowed_key_ids sb) fps
        \<and> parse_sidecar sig_bytes = Inr sc
        \<and> h_domain (sc_header sc) = domain_tag (sha256 cr) DOMAIN_PRIORITY_FILE
        \<and> (\<exists>p\<in>set baked. key_signs cr sc (sha512 cr content) DOMAIN_PRIORITY_FILE p
              \<and> (fps = [] \<or> key_fp (sha256 cr) (fst p) \<in> set fps)))"
proof (rule ccontr)
  assume neg: "\<not> ?thesis"
  with assms obtain vol where vol: "sb_volume sb = Some vol" "sb_enable sb" "phase_matches phase vol"
    by (auto simp: run_priority_gate_at_def)
  with assms obtain v where v: "r = Some v"
    "verify_signed_file cr baked (gate_files os) sb sg (path_join (av_mountpoint v) (sb_signed_file sb)) = Inr ()"
    by (auto simp: run_priority_gate_at_def evaluate_gate_def
        split: gate_decision.splits sum.splits if_splits)
  let ?path = "path_join (av_mountpoint v) (sb_signed_file sb)"
  from v(2) obtain content sig_bytes keys where c: "open_file (gate_files os) ?path = Some (Some content)"
    "read_file (gate_files os) (?path @ sg_suffix sg) = Some sig_bytes"
    "parse_key_set cr baked = Inr keys"
    "verify_priority_against cr sb sg (sha512 cr content) sig_bytes keys = Inr ()"
    by (auto simp: verify_signed_file_def rbind_Inr_iff)
  from c(3) have keys: "keys = map key_of baked" by (simp add: parse_key_set_iff)
  from c(4) obtain sc fps where s: "parse_sidecar sig_bytes = Inr sc"
    "allowed_fingerprints (allowed_key_ids sb) = Inr fps"
    "verify_digest cr (sha512 cr content) DOMAIN_PRIORITY_FILE sc
       (resolve_allowed_keys cr (map key_of baked) fps) (policy_from_config sg) = Inr ()"
    by (auto simp: verify_priority_against_def rbind_Inr_iff keys split: sum.splits)
  obtain ps where ps: "resolve_allowed_keys cr (map key_of baked) fps = map key_of ps" "set ps \<subseteq> set baked"
    "\<forall>p\<in>set ps. fps = [] \<or> key_fp (sha256 cr) (fst p) \<in> set fps"
    using resolve_allowed_keys_key_of [of cr baked fps] by blast
  have "h_domain (sc_header sc) = domain_tag (sha256 cr) DOMAIN_PRIORITY_FILE
      \<and> (\<exists>p\<in>set ps. key_signs cr sc (sha512 cr content) DOMAIN_PRIORITY_FILE p)"
    using s(3) verify_digest_iff [OF parse_sidecar_InrD(2) [OF s(1)]] by (simp add: ps(1))
  with neg v(1) c(1,2) s(1) allowed_fingerprints_InrD [OF s(2)] ps(2,3) show False by blast
qed

lemma rdonly_set_by_ro: "MS_RDONLY \<in> token_set t \<longleftrightarrow> t = ''ro''"
proof
  assume "MS_RDONLY \<in> token_set t"
  then obtain e where e: "find (\<lambda>e. oe_name e = t) (rev OPTION_TABLE) = Some e" "MS_RDONLY \<in> oe_set e"
    by (auto simp: token_set_def option_entry_of_def split: option.splits)
  then have "e \<in> set OPTION_TABLE" "oe_name e = t" by (auto simp: find_Some_iff rev_nth)
  with e(2) show "t = ''ro''" by (auto simp: OPTION_TABLE_def opt_entry_def)
qed (simp add: token_set_def option_entry_of_def OPTION_TABLE_def opt_entry_def)

lemma flag_stays_clear:
  "f \<notin> flags \<Longrightarrow> (\<And>t. t \<in> set ts \<Longrightarrow> f \<notin> token_set t) \<Longrightarrow>
   f \<notin> foldl (\<lambda>fl t. fl - token_clear t \<union> token_set t) flags ts"
  by (induction ts arbitrary: flags) auto

text \<open>A volume configured read-write is mounted read-write. The gate puts \<open>ro\<close> in front of the
  configured options, and the option parser lets a later \<open>rw\<close> take it back.\<close>

theorem ensure_ro_is_overridden:
  assumes "split_on (CHR '','') options = us @ ''rw'' # vs" "''ro'' \<notin> set (us @ vs)"
  shows "MS_RDONLY \<notin> fst (mount_fs_args (ensure_ro options))"
proof -
  have "options \<noteq> []"
  proof
    assume "options = []"
    with assms(1) show False by (cases us) auto
  qed
  moreover have "''ro'' \<notin> set (split_on (CHR '','') options)" using assms by auto
  ultimately have "ensure_ro options = ''ro'' @ CHR '','' # options" by (simp add: ensure_ro_def)
  then have split: "split_on (CHR '','') (ensure_ro options) = ''ro'' # us @ ''rw'' # vs"
    using split_on_append [of "CHR '',''" "''ro''" options] assms(1) by simp
  let ?step = "\<lambda>fl t. fl - token_clear t \<union> token_set t"
  have "MS_RDONLY \<notin> ?step (foldl ?step (?step {} ''ro'') us) ''rw''"
    using rdonly_set_by_ro [of "''rw''"]
    by (simp add: token_clear_def option_entry_of_def OPTION_TABLE_def opt_entry_def)
  then have "MS_RDONLY \<notin> foldl ?step (?step (foldl ?step (?step {} ''ro'') us) ''rw'') vs"
    by (rule flag_stays_clear) (use assms(2) rdonly_set_by_ro in auto)
  then have "MS_RDONLY \<notin> fst (fold_tokens ({}, []) (''ro'' # us @ ''rw'' # vs))"
    by (simp only: fold_tokens_flags foldl_append foldl_Cons not_False_eq_True)
  then show ?thesis by (simp add: mount_fs_args_def fold_options_def split case_prod_beta)
qed

theorem ensure_ro_is_overridden_witness:
  "MS_RDONLY \<notin> fst (mount_fs_args (ensure_ro ''rw,noexec''))"
  by (rule ensure_ro_is_overridden [of _ "[]" "[''noexec'']"]) simp_all

definition demo_secure_boot :: secure_boot_config where
  "demo_secure_boot = \<lparr>sb_enable = True, sb_enforce = True,
     sb_volume = Some \<lparr>pv_device = ''d'', pv_fstype = ''ext4'', pv_options = [], pv_mountpoint = ''/b'', inside_luks = False\<rparr>,
     sb_signed_file = ''prio'',
     allowed_key_ids = [hex_lower (key_fp (sha256 demo_crypto) (fst demo_pair))]\<rparr>"

definition demo_gate_os :: gate_os where
  "demo_gate_os = \<lparr>mkdir = (\<lambda>_. False), mounts = (\<lambda>_ _ _ _. False),
     gate_files = \<lparr>open_file = (\<lambda>p. Some (Some ''policy'')),
       read_file = (\<lambda>p. Some (demo_sidecar DOMAIN_PRIORITY_FILE (CHR ''p'')))\<rparr>\<rparr>"

theorem priority_gate_enforces_witness:
  "run_priority_gate_at demo_crypto [demo_pair] demo_gate_os PrePlainBoot demo_signed_config
     demo_secure_boot demo_signing = Inr (Some \<lparr>av_mountpoint = ''/b'', av_owned_mount = None\<rparr>)
   \<and> (\<exists>p\<in>set [demo_pair]. \<exists>sc. key_signs demo_crypto sc ''policy'' DOMAIN_PRIORITY_FILE p)"
proof -
  let ?fp = "key_fp (sha256 demo_crypto) (fst demo_pair)"
  have sha: "sha512 demo_crypto b = b" for b by (simp add: demo_crypto_def)
  have "length ?fp = 32" by (simp add: key_fp_def demo_crypto_def DOMAIN_LEN_def)
  then have fps: "allowed_fingerprints (allowed_key_ids demo_secure_boot) = Inr [?fp]"
    by (simp add: demo_secure_boot_def decode_fixed_hex)
  have keys: "parse_key_set demo_crypto [demo_pair] = Inr [key_of demo_pair]"
    by (simp only: parse_key_set_iff) (simp add: pair_ok_def demo_pair_def demo_crypto_def)
  have narrowed: "resolve_allowed_keys demo_crypto [key_of demo_pair] [?fp] = [key_of demo_pair]"
    by (simp add: resolve_allowed_keys_def fingerprint_def key_of_def)
  have "verify_digest_sidecar_bytes demo_crypto [demo_pair] ''policy''
      (demo_sidecar DOMAIN_PRIORITY_FILE (CHR ''p'')) DOMAIN_PRIORITY_FILE demo_signing = Inr ()"
    by (rule demo_blob_signed)
  then have "verify_priority_against demo_crypto demo_secure_boot demo_signing ''policy''
      (demo_sidecar DOMAIN_PRIORITY_FILE (CHR ''p'')) [key_of demo_pair] = Inr ()"
    by (simp add: verify_priority_against_def demo_sidecar_parses fps narrowed
        verify_digest_sidecar_bytes_def keys)
  then have "verify_signed_file demo_crypto [demo_pair] (gate_files demo_gate_os) demo_secure_boot
      demo_signing path = Inr ()" for path
    by (simp add: verify_signed_file_def keys sha) (simp add: demo_gate_os_def lift_sig_def sha)
  moreover have fields: "sb_enable demo_secure_boot" "\<not> inside_luks vol"
    "runtime_boot_mountpoint demo_signed_config = Some ''/b''"
    if "sb_volume demo_secure_boot = Some vol" for vol
    using that by (auto simp: demo_secure_boot_def demo_signed_config_def)
  moreover obtain vol where "sb_volume demo_secure_boot = Some vol"
    by (simp add: demo_secure_boot_def)
  ultimately have run: "run_priority_gate_at demo_crypto [demo_pair] demo_gate_os PrePlainBoot demo_signed_config
     demo_secure_boot demo_signing = Inr (Some \<lparr>av_mountpoint = ''/b'', av_owned_mount = None\<rparr>)"
    by (simp add: run_priority_gate_at_def evaluate_gate_def mount_priority_volume_def fields)
  have "sb_enforce demo_secure_boot" by (simp add: demo_secure_boot_def)
  from priority_gate_enforces [OF run this] run show ?thesis
    by (auto simp: demo_secure_boot_def demo_gate_os_def sha)
qed

end
