(* ===== verification/Host_Tools.thy ===== *)
theory Host_Tools
  imports Priority_Gate
begin

unbundle bit_operations_syntax

text \<open>
  The signer and the verifier of the host side, the crate \<open>nmbl-host-tools\<close>: the roles
  (\<open>domain.rs\<close>), the private key container (\<open>keyfile.rs\<close>), detached sidecars (\<open>sign.rs\<close>)
  and their verification with one public key (\<open>verify.rs\<close>). The signing half of the crate
  \<open>fips204\<close> is the parameter record \<open>signer\<close>; \<open>signer_ok\<close> is its documented contract with
  the verifying half.
\<close>

subsection \<open>Roles\<close>

definition DOMAIN_DRIVER_IMAGE :: bytes where "DOMAIN_DRIVER_IMAGE = ''nmbl:driver-image:v1''"
definition DOMAIN_STAGED_FRAGMENT :: bytes where "DOMAIN_STAGED_FRAGMENT = ''nmbl:staged-fragment:v1''"
definition DOMAIN_RESCUE_SFS :: bytes where "DOMAIN_RESCUE_SFS = ''nmbl:rescue-sfs:v1''"
definition DOMAIN_NETWORK_STAGE :: bytes where "DOMAIN_NETWORK_STAGE = ''nmbl:network-stage:v1''"
definition DOMAIN_RESCUE_TOOLS :: bytes where "DOMAIN_RESCUE_TOOLS = ''nmbl:rescue-tools:v1''"
definition DOMAIN_GENERATION_IMAGE :: bytes where "DOMAIN_GENERATION_IMAGE = ''nmbl:generation-image:v1''"
definition DOMAIN_BOOT_SET_MANIFEST :: bytes where "DOMAIN_BOOT_SET_MANIFEST = ''nmbl:boot-set-manifest:v1''"
definition DOMAIN_BOOT_SET_ARTIFACT :: bytes where "DOMAIN_BOOT_SET_ARTIFACT = ''nmbl:boot-set-artifact:v1''"

lemmas domain_defs = DOMAIN_GEN_KERNEL_def DOMAIN_GEN_INITRD_def DOMAIN_BOOT_CONFIG_def
  DOMAIN_PRIORITY_FILE_def DOMAIN_DRIVER_IMAGE_def DOMAIN_STAGED_FRAGMENT_def DOMAIN_RESCUE_SFS_def
  DOMAIN_NETWORK_STAGE_def DOMAIN_RESCUE_TOOLS_def DOMAIN_GENERATION_IMAGE_def
  DOMAIN_BOOT_SET_MANIFEST_def DOMAIN_BOOT_SET_ARTIFACT_def

definition ROLES :: "(string \<times> bytes) list" where
  "ROLES =
     [(''gen-kernel'', DOMAIN_GEN_KERNEL), (''gen-initrd'', DOMAIN_GEN_INITRD),
      (''driver-image'', DOMAIN_DRIVER_IMAGE), (''staged-fragment'', DOMAIN_STAGED_FRAGMENT),
      (''priority-file'', DOMAIN_PRIORITY_FILE), (''rescue-sfs'', DOMAIN_RESCUE_SFS),
      (''boot-config'', DOMAIN_BOOT_CONFIG), (''network-stage'', DOMAIN_NETWORK_STAGE),
      (''rescue-tools'', DOMAIN_RESCUE_TOOLS), (''generation-image'', DOMAIN_GENERATION_IMAGE),
      (''boot-set-manifest'', DOMAIN_BOOT_SET_MANIFEST),
      (''boot-set-artifact'', DOMAIN_BOOT_SET_ARTIFACT)]"

definition domain_for :: "string \<Rightarrow> bytes option" where
  "domain_for token = map_option snd (List.find (\<lambda>r. fst r = token) ROLES)"

lemma domain_for_simps [simp]:
  "domain_for ''gen-kernel'' = Some DOMAIN_GEN_KERNEL"
  "domain_for ''gen-initrd'' = Some DOMAIN_GEN_INITRD"
  "domain_for ''rescue-sfs'' = Some DOMAIN_RESCUE_SFS"
  "domain_for ''boot-config'' = Some DOMAIN_BOOT_CONFIG"
  "domain_for ''network-stage'' = Some DOMAIN_NETWORK_STAGE"
  "domain_for ''rescue-tools'' = Some DOMAIN_RESCUE_TOOLS"
  "domain_for ''generation-image'' = Some DOMAIN_GENERATION_IMAGE"
  "domain_for ''boot-set-manifest'' = Some DOMAIN_BOOT_SET_MANIFEST"
  "domain_for ''boot-set-artifact'' = Some DOMAIN_BOOT_SET_ARTIFACT"
  by (simp_all add: domain_for_def ROLES_def)

lemma distinct_roles: "distinct (map fst ROLES)" "distinct (map snd ROLES)"
  by (simp_all add: ROLES_def domain_defs)

lemma domain_for_SomeD: "domain_for t = Some d \<Longrightarrow> (t, d) \<in> set ROLES"
  by (auto simp: domain_for_def find_Some_iff) (metis nth_mem prod.collapse snd_conv)

text \<open>No two roles share a domain.\<close>

lemma domain_for_inject: "domain_for s = Some d \<Longrightarrow> domain_for t = Some d \<Longrightarrow> s = t"
  using distinct_roles(2) by (metis domain_for_SomeD distinct_map fst_conv inj_onD snd_conv)

subsection \<open>The private key container\<close>

datatype sign_error =
    Sign_Io string
  | Sign_Key string
  | Sign_Crypto string
  | Sign_Usage string

definition PRIV_MAGIC :: bytes where "PRIV_MAGIC = ''NMBLSK01''"
definition PRIV_ALG_OFF :: nat where "PRIV_ALG_OFF = 8"
definition PRIV_KEY_OFF :: nat where "PRIV_KEY_OFF = 9"
definition MAX_PRIVATE_CONTAINER :: nat where "MAX_PRIVATE_CONTAINER = 16 * 1024"

record private_key_file =
  pk_alg :: alg_id
  pk_sk :: bytes

definition write_public :: "alg_id \<Rightarrow> bytes \<Rightarrow> sign_error + bytes" where
  "write_public alg pubkey =
     (if length pubkey \<noteq> pk_len alg then Inl (Sign_Key ''public key length'') else Inr pubkey)"

definition encode_private :: "alg_id \<Rightarrow> bytes \<Rightarrow> bytes" where
  "encode_private alg sk = PRIV_MAGIC @ [byte (alg_to_u8 alg)] @ sk"

text \<open>\<open>raw.get(n..)\<close>: the rest from \<open>n\<close>, which may be empty.\<close>

definition get_from :: "nat \<Rightarrow> 'a list \<Rightarrow> 'a list option" where
  "get_from n xs = (if n \<le> length xs then Some (drop n xs) else None)"

definition parse_private :: "bytes \<Rightarrow> sign_error + private_key_file" where
  "parse_private raw =
     rbind (ok_or (Sign_Key ''shorter than its header'') (get_range raw 0 PRIV_ALG_OFF)) (\<lambda>magic.
     rbind (ensure (magic = PRIV_MAGIC) (Sign_Key ''bad magic'')) (\<lambda>_.
     rbind (ok_or (Sign_Key ''missing its algorithm tag'') (get_at raw PRIV_ALG_OFF)) (\<lambda>tag.
     rbind (ok_or (Sign_Key ''unknown algorithm tag'') (alg_from_u8 (ord tag))) (\<lambda>alg.
     rbind (ok_or (Sign_Key ''no key body'') (get_from PRIV_KEY_OFF raw)) (\<lambda>body.
     Inr \<lparr>pk_alg = alg, pk_sk = body\<rparr>)))))"

text \<open>\<open>input\<close> is all the reader would give; \<open>take\<close> stops one byte past the bound.\<close>

definition read_private_from :: "bytes \<Rightarrow> sign_error + private_key_file" where
  "read_private_from input =
     (let raw = take (MAX_PRIVATE_CONTAINER + 1) input
      in if length raw > MAX_PRIVATE_CONTAINER then Inl (Sign_Key ''exceeds the bound'')
         else if raw = [] then Inl (Sign_Key ''no private key on stdin'')
         else parse_private raw)"

lemma parse_private_encode:
  "parse_private (encode_private alg sk) = Inr \<lparr>pk_alg = alg, pk_sk = sk\<rparr>"
  by (simp add: parse_private_def encode_private_def get_range_def get_at_def get_from_def
      PRIV_MAGIC_def PRIV_ALG_OFF_def PRIV_KEY_OFF_def)

lemma encode_private_parse:
  "parse_private raw = Inr k \<Longrightarrow> raw = encode_private (pk_alg k) (pk_sk k)"
proof -
  assume "parse_private raw = Inr k"
  then obtain tag where h: "length raw > 8" "take 8 raw = PRIV_MAGIC" "raw ! 8 = tag"
    "alg_from_u8 (ord tag) = Some (pk_alg k)" "pk_sk k = drop 9 raw"
    by (auto simp: parse_private_def rbind_Inr_iff get_range_def get_at_def get_from_def
        PRIV_ALG_OFF_def PRIV_KEY_OFF_def split: if_splits)
  have "tag = byte (alg_to_u8 (pk_alg k))"
    using alg_from_SomeD [OF h(4)] by (metis byte_ord)
  then show ?thesis
    using id_take_nth_drop [OF h(1)] h by (simp add: encode_private_def)
qed

interpretation key_container: text_format
  "\<lambda>k. encode_private (pk_alg k) (pk_sk k)" "\<lambda>raw. ok (parse_private raw)" "\<lambda>_. True"
  by unfold_locales (simp add: parse_private_encode)

subsection \<open>Signing\<close>

record signer =
  sk_len :: "alg_id \<Rightarrow> nat"
  sk_decodes :: "alg_id \<Rightarrow> bytes \<Rightarrow> bool"
  try_hash_sign :: "alg_id \<Rightarrow> bytes \<Rightarrow> bytes \<Rightarrow> bytes \<Rightarrow> bytes option"
  public_of :: "alg_id \<Rightarrow> bytes \<Rightarrow> bytes"

definition ml_dsa_sign :: "signer \<Rightarrow> bytes \<Rightarrow> private_key_file \<Rightarrow> bytes \<Rightarrow> sign_error + bytes \<times> bytes" where
  "ml_dsa_sign sn digest key domain =
     (if length (pk_sk key) \<noteq> sk_len sn (pk_alg key) then Inl (Sign_Key ''wrong length'')
      else rbind (ensure (sk_decodes sn (pk_alg key) (pk_sk key)) (Sign_Crypto ''decode private key'')) (\<lambda>_.
           rbind (ok_or (Sign_Crypto ''sign'') (try_hash_sign sn (pk_alg key) (pk_sk key) digest domain)) (\<lambda>sg.
           Inr (sg, public_of sn (pk_alg key) (pk_sk key)))))"

definition key_id_hint :: "(bytes \<Rightarrow> bytes) \<Rightarrow> bytes \<Rightarrow> 32 word" where
  "key_id_hint sha pubkey =
     (let fp = key_fp sha pubkey;
          head = (case get_range fp 0 4 of Some h \<Rightarrow> h | None \<Rightarrow> replicate 4 (byte 0));
          n = min (length head) 4
      in from_le_bytes (put_at 0 (take n head) (replicate 4 (byte 0))))"

definition sidecar_for_digest ::
  "crypto \<Rightarrow> signer \<Rightarrow> bytes \<Rightarrow> private_key_file \<Rightarrow> bytes \<Rightarrow> sign_error + bytes" where
  "sidecar_for_digest cr sn digest key domain =
     rbind (ml_dsa_sign sn digest key domain) (\<lambda>(sg, pubkey).
     let header = \<lparr>h_alg = pk_alg key, h_hash = Sha512, h_key_id = key_id_hint (sha256 cr) pubkey,
                    h_domain = domain_tag (sha256 cr) domain\<rparr>
     in Inr (encode_header header @ sg))"

text \<open>\<open>input\<close> is what reading the file gives.\<close>

definition sign_file ::
  "crypto \<Rightarrow> signer \<Rightarrow> bytes option \<Rightarrow> private_key_file \<Rightarrow> bytes \<Rightarrow> sign_error + bytes" where
  "sign_file cr sn input key domain =
     rbind (ok_or (Sign_Io ''hash input'') input) (\<lambda>content.
     sidecar_for_digest cr sn (sha512 cr content) key domain)"

definition default_sig_path :: "string \<Rightarrow> string" where
  "default_sig_path input = input @ ''.sig''"

subsection \<open>Verification with one key\<close>

definition verify_reader ::
  "crypto \<Rightarrow> bytes option \<Rightarrow> bytes \<Rightarrow> bytes \<Rightarrow> bytes \<Rightarrow> sign_error + unit" where
  "verify_reader cr input public domain sidecar_bytes =
     rbind (map_err (\<lambda>_. Sign_Key ''invalid sidecar'') (parse_sidecar sidecar_bytes)) (\<lambda>sc.
     rbind (map_err (\<lambda>_. Sign_Key ''invalid public key'')
              (parse_key cr public (h_alg (sc_header sc)))) (\<lambda>key.
     rbind (ok_or (Sign_Io ''hash input'') input) (\<lambda>content.
     rbind (map_err (\<lambda>_. Sign_Crypto ''verify input'')
              (verify_digest cr (sha512 cr content) domain sc [key] Enforce)) (\<lambda>_.
     Inr ()))))"

text \<open>One public key accepts the sidecar: for some algorithm it is a key, and it signs the digest.\<close>

definition signed_by :: "crypto \<Rightarrow> bytes \<Rightarrow> bytes \<Rightarrow> bytes \<Rightarrow> bytes \<Rightarrow> bool" where
  "signed_by cr public content domain sidecar_bytes \<longleftrightarrow>
     (\<exists>alg. pair_ok cr (public, alg) \<and> blob_signed cr [(public, alg)] (sha512 cr content) sidecar_bytes domain)"

lemma verify_reader_iff:
  "verify_reader cr input public domain sb = Inr () \<longleftrightarrow>
    (\<exists>content. input = Some content \<and> signed_by cr public content domain sb)"
proof (cases "parse_sidecar sb")
  case (Inl e)
  then show ?thesis by (simp add: verify_reader_def signed_by_def blob_signed_def)
next
  case (Inr sc)
  let ?alg = "h_alg (sc_header sc)"
  have v: "verify_digest cr d domain sc [key_of (public, ?alg)] Enforce = Inr () \<longleftrightarrow>
      h_domain (sc_header sc) = domain_tag (sha256 cr) domain \<and> key_signs cr sc d domain (public, ?alg)" for d
    using verify_digest_iff [OF parse_sidecar_InrD(2) [OF Inr], of cr d domain "[(public, ?alg)]"] by simp
  have s: "signed_by cr public content domain sb \<longleftrightarrow> pair_ok cr (public, ?alg)
      \<and> h_domain (sc_header sc) = domain_tag (sha256 cr) domain
      \<and> key_signs cr sc (sha512 cr content) domain (public, ?alg)" for content
    by (auto simp: signed_by_def blob_signed_def Inr key_signs_def)
  show ?thesis
    by (auto simp: verify_reader_def Inr s v rbind_Inr_iff parse_key_Inr_iff)
qed

subsection \<open>What is signed verifies, and under its own role only\<close>

definition signer_ok :: "crypto \<Rightarrow> signer \<Rightarrow> bool" where
  "signer_ok cr sn \<longleftrightarrow>
     (\<forall>b. length (sha256 cr b) = DOMAIN_LEN)
     \<and> (\<forall>alg sk digest ctx sg. sk_decodes sn alg sk \<and> try_hash_sign sn alg sk digest ctx = Some sg
          \<longrightarrow> length sg = sig_len alg \<and> pair_ok cr (public_of sn alg sk, alg)
            \<and> hash_verify cr alg (public_of sn alg sk) digest sg ctx)"

lemma key_id_hint_bytes:
  assumes "length (key_fp sha pubkey) = DOMAIN_LEN"
  shows "to_le_bytes (key_id_hint sha pubkey) = take 4 (key_fp sha pubkey)"
proof -
  have "get_range (key_fp sha pubkey) 0 4 = Some (take 4 (key_fp sha pubkey))"
    using assms by (simp add: get_range_def DOMAIN_LEN_def)
  moreover have "length (take 4 (key_fp sha pubkey)) = 4"
    using assms by (simp add: DOMAIN_LEN_def)
  ultimately show ?thesis
    by (simp add: key_id_hint_def Let_def put_at_def to_from_le_bytes)
qed

lemma sign_file_InrD:
  assumes "signer_ok cr sn" "sign_file cr sn (Some content) key domain = Inr sb"
  shows "\<exists>sg. let pk = public_of sn (pk_alg key) (pk_sk key) in
    parse_sidecar sb = Inr \<lparr>sc_header = \<lparr>h_alg = pk_alg key, h_hash = Sha512,
        h_key_id = key_id_hint (sha256 cr) pk, h_domain = domain_tag (sha256 cr) domain\<rparr>, sc_signature = sg\<rparr>
    \<and> length sb = sidecar_len (pk_alg key)
    \<and> pair_ok cr (pk, pk_alg key) \<and> hash_verify cr (pk_alg key) pk (sha512 cr content) sg domain"
proof -
  let ?pk = "public_of sn (pk_alg key) (pk_sk key)"
  let ?h = "\<lparr>h_alg = pk_alg key, h_hash = Sha512, h_key_id = key_id_hint (sha256 cr) ?pk,
    h_domain = domain_tag (sha256 cr) domain\<rparr>"
  from assms(2) obtain sg where sg: "sk_decodes sn (pk_alg key) (pk_sk key)"
    "try_hash_sign sn (pk_alg key) (pk_sk key) (sha512 cr content) domain = Some sg"
    "sb = encode_header ?h @ sg"
    by (auto simp: sign_file_def sidecar_for_digest_def ml_dsa_sign_def rbind_Inr_iff Let_def split: if_splits)
  then have v: "length sg = sig_len (pk_alg key)" "pair_ok cr (?pk, pk_alg key)"
    "hash_verify cr (pk_alg key) ?pk (sha512 cr content) sg domain"
    using assms(1) by (auto simp: signer_ok_def)
  have l: "length (h_domain ?h) = DOMAIN_LEN" using assms(1) by (simp add: signer_ok_def domain_tag_def)
  have "parse_sidecar sb = Inr \<lparr>sc_header = ?h, sc_signature = sg\<rparr>"
    using decode_header_encode [OF l] length_encode_header [OF l] v(1)
    by (simp add: sg(3) parse_sidecar_def split_at_checked_def Let_def)
  with v sg(3) length_encode_header [OF l] show ?thesis by (auto simp: Let_def sidecar_len_def)
qed

lemma signed_by_sign_file:
  assumes "signer_ok cr sn" "sign_file cr sn (Some content) key domain = Inr sb"
  shows "signed_by cr (public_of sn (pk_alg key) (pk_sk key)) content domain sb"
  using sign_file_InrD [OF assms]
  by (auto simp: signed_by_def blob_signed_def key_signs_def Let_def)

lemma signed_by_domain:
  "signed_by cr pk content d sb \<Longrightarrow> parse_sidecar sb = Inr sc \<Longrightarrow> h_domain (sc_header sc) = domain_tag (sha256 cr) d"
  by (auto simp: signed_by_def blob_signed_def)

text \<open>What the signer writes, the verifier accepts under the signer's public key, the same
  file and the same role; a role whose tag differs is refused, whatever the file and the key. The
  key hint in the header is the head of the key's fingerprint, and the sidecar has the one length
  its algorithm allows.\<close>

theorem signed_file_verifies:
  assumes "signer_ok cr sn" "sign_file cr sn (Some content) key domain = Inr sb"
  shows "verify_reader cr (Some content) (public_of sn (pk_alg key) (pk_sk key)) domain sb = Inr ()
    \<and> (domain_tag (sha256 cr) other \<noteq> domain_tag (sha256 cr) domain
         \<longrightarrow> verify_reader cr input pk other sb \<noteq> Inr ())
    \<and> length sb = sidecar_len (pk_alg key)
    \<and> (\<exists>sc. parse_sidecar sb = Inr sc
         \<and> to_le_bytes (h_key_id (sc_header sc))
           = take 4 (key_fp (sha256 cr) (public_of sn (pk_alg key) (pk_sk key))))"
proof -
  have "length (key_fp (sha256 cr) p) = DOMAIN_LEN" for p
    using assms(1) by (simp add: signer_ok_def key_fp_def)
  then show ?thesis
    using signed_by_sign_file [OF assms] sign_file_InrD [OF assms]
    by (auto simp: verify_reader_iff Let_def key_id_hint_bytes dest: signed_by_domain)
qed

definition demo_signer :: signer where
  "demo_signer = \<lparr>sk_len = (\<lambda>_. 1), sk_decodes = (\<lambda>_ _. True),
     try_hash_sign = (\<lambda>alg _ d _. if d = [] then None else Some (replicate (sig_len alg) (hd d))),
     public_of = (\<lambda>alg _. replicate (pk_len alg) (CHR ''k''))\<rparr>"

definition demo_key :: private_key_file where
  "demo_key = \<lparr>pk_alg = MlDsa65, pk_sk = ''s''\<rparr>"

lemma demo_signer_ok: "signer_ok demo_crypto demo_signer"
proof -
  have "hd (replicate (sig_len alg) c) = c" "hd (replicate (pk_len alg) c) = c" for alg and c :: char
    by (cases alg; simp)+
  then show ?thesis
    by (auto simp: signer_ok_def demo_crypto_def demo_signer_def pair_ok_def split: if_splits)
qed

lemma demo_sign_file:
  "content \<noteq> [] \<Longrightarrow> \<exists>sb. sign_file demo_crypto demo_signer (Some content) demo_key domain = Inr sb"
  by (simp add: sign_file_def sidecar_for_digest_def ml_dsa_sign_def demo_signer_def demo_key_def
      demo_crypto_def Let_def)

theorem signed_file_verifies_witness:
  "\<exists>sb. sign_file demo_crypto demo_signer (Some ''kernel'') demo_key DOMAIN_GEN_KERNEL = Inr sb
    \<and> verify_reader demo_crypto (Some ''kernel'') (public_of demo_signer MlDsa65 ''s'') DOMAIN_GEN_KERNEL sb = Inr ()
    \<and> verify_reader demo_crypto (Some ''kernel'') (public_of demo_signer MlDsa65 ''s'') DOMAIN_BOOT_CONFIG sb \<noteq> Inr ()"
proof -
  obtain sb where sb: "sign_file demo_crypto demo_signer (Some ''kernel'') demo_key DOMAIN_GEN_KERNEL = Inr sb"
    using demo_sign_file by blast
  have "domain_tag (sha256 demo_crypto) DOMAIN_BOOT_CONFIG \<noteq> domain_tag (sha256 demo_crypto) DOMAIN_GEN_KERNEL"
    by (simp add: domain_tag_def demo_crypto_def domain_defs DOMAIN_LEN_def byte_def)
  then show ?thesis
    using signed_file_verifies [OF demo_signer_ok sb] sb by (auto simp: demo_key_def)
qed

end
