(* ===== verification/Boot_Bundle.thy ===== *)
theory Boot_Bundle
  imports Host_Tools
begin

text \<open>
  A boot set on its way to the disk, the crate \<open>nmbl-boot-update\<close>: the manifest and its shape
  (\<open>manifest.rs\<close>), the check of a bundle directory (\<open>validate.rs\<close>) and the producer of bundles
  (\<open>prepare.rs\<close>). A directory is an association list from names to nodes. The crate
  \<open>serde_json\<close> is a parameter: \<open>json\<close> is \<open>from_slice\<close> to a manifest.
\<close>

datatype update_error =
    Invalid string
  | Upd_Io string
  | Upd_Signature

subsection \<open>The manifest\<close>

datatype role = Bootloader | Kernel | Initrd | Rescue | Network | Tools | Config

text \<open>The derived \<open>Ord\<close> is the order of declaration.\<close>

fun role_index :: "role \<Rightarrow> nat" where
  "role_index Bootloader = 0"
| "role_index Kernel = 1"
| "role_index Initrd = 2"
| "role_index Rescue = 3"
| "role_index Network = 4"
| "role_index Tools = 5"
| "role_index Config = 6"

lemma role_index_inject [simp]: "role_index r = role_index s \<longleftrightarrow> r = s"
  by (cases r; cases s) simp_all

instantiation role :: linorder
begin

definition less_eq_role :: "role \<Rightarrow> role \<Rightarrow> bool" where
  "less_eq_role r s \<longleftrightarrow> role_index r \<le> role_index s"

definition less_role :: "role \<Rightarrow> role \<Rightarrow> bool" where
  "less_role r s \<longleftrightarrow> role_index r < role_index s"

instance
  by standard (auto simp: less_eq_role_def less_role_def)

end

record entry =
  e_role :: role
  e_destination :: string
  e_payload :: string
  e_signature :: string
  e_domain :: string
  e_sha512 :: string

record manifest =
  m_version :: nat
  m_set_id :: string
  m_target_slot :: string
  m_files :: "entry list"

fun role_domain :: "role \<Rightarrow> string" where
  "role_domain Config = ''boot-config''"
| "role_domain Rescue = ''rescue-sfs''"
| "role_domain Network = ''network-stage''"
| "role_domain Tools = ''rescue-tools''"
| "role_domain Bootloader = ''boot-set-artifact''"
| "role_domain Kernel = ''boot-set-artifact''"
| "role_domain Initrd = ''boot-set-artifact''"

fun role_destination :: "role \<Rightarrow> string" where
  "role_destination Bootloader = ''bootloader''"
| "role_destination Kernel = ''kernel''"
| "role_destination Initrd = ''initrd''"
| "role_destination Rescue = ''rescue''"
| "role_destination Network = ''network''"
| "role_destination Tools = ''tools''"
| "role_destination Config = ''config''"

fun is_normal :: "path_component \<Rightarrow> bool" where
  "is_normal (Normal _) = True"
| "is_normal _ = False"

definition validate_relative :: "string \<Rightarrow> bool \<Rightarrow> update_error + unit" where
  "validate_relative path allow_subdirs =
     rbind (ensure (path \<noteq> [] \<and> \<not> is_absolute path) (Invalid ''unsafe relative path'')) (\<lambda>_.
     let count = length (components path)
     in if (\<exists>c\<in>set (components path). \<not> is_normal c) \<or> (\<not> allow_subdirs \<and> count \<noteq> 1)
        then Inl (Invalid ''unsafe relative path'') else Inr ())"

definition is_hexdigit :: "char \<Rightarrow> bool" where
  "is_hexdigit c \<longleftrightarrow> is_digit c \<or> 97 \<le> ord c \<and> ord c \<le> 102 \<or> 65 \<le> ord c \<and> ord c \<le> 70"

definition hex_digest :: "string \<Rightarrow> bool" where
  "hex_digest s \<longleftrightarrow> length s = 128 \<and> list_all is_hexdigit s"

text \<open>The loop over the files; the three sets are the code's \<open>BTreeSet\<close>s.\<close>

fun validate_files ::
  "role set \<Rightarrow> string set \<Rightarrow> string set \<Rightarrow> entry list \<Rightarrow> update_error + role set" where
  "validate_files roles destinations sources [] = Inr roles"
| "validate_files roles destinations sources (e # es) =
     rbind (validate_relative (e_destination e) False) (\<lambda>_.
     rbind (validate_relative (e_payload e) False) (\<lambda>_.
     rbind (validate_relative (e_signature e) False) (\<lambda>_.
     rbind (ensure (e_payload e = e_destination e \<and> e_signature e = e_destination e @ ''.sig'')
       (Invalid ''payload/signature names must match the slot destination'')) (\<lambda>_.
     rbind (ensure (e_destination e = role_destination (e_role e))
       (Invalid ''role must use destination'')) (\<lambda>_.
     rbind (ensure (e_domain e = role_domain (e_role e))
       (Invalid ''role must be signed under domain'')) (\<lambda>_.
     rbind (ensure (hex_digest (e_sha512 e)) (Invalid ''artifact SHA-512 is malformed'')) (\<lambda>_.
     rbind (ensure (e_role e \<notin> roles) (Invalid ''duplicate role'')) (\<lambda>_.
     rbind (ensure (e_destination e \<notin> destinations) (Invalid ''duplicate destination'')) (\<lambda>_.
     rbind (ensure (e_payload e \<notin> sources \<and> e_signature e \<notin> insert (e_payload e) sources)
       (Invalid ''duplicate bundle filename'')) (\<lambda>_.
     validate_files (insert (e_role e) roles) (insert (e_destination e) destinations)
       (insert (e_signature e) (insert (e_payload e) sources)) es))))))))))"

definition required_roles :: "role list" where
  "required_roles = [Bootloader, Kernel, Initrd, Rescue, Config]"

definition validate_shape :: "manifest \<Rightarrow> update_error + unit" where
  "validate_shape m =
     rbind (ensure (m_version m = 1) (Invalid ''manifest version must be 1'')) (\<lambda>_.
     rbind (ensure (hex_digest (m_set_id m)) (Invalid ''set_id must be a SHA-512 hex digest'')) (\<lambda>_.
     rbind (ensure (m_target_slot m = ''A'' \<or> m_target_slot m = ''B'')
       (Invalid ''target_slot must be A or B'')) (\<lambda>_.
     rbind (validate_files {} {} {} (m_files m)) (\<lambda>roles.
     if list_all (\<lambda>r. r \<in> roles) required_roles then Inr ()
     else Inl (Invalid ''missing required role'')))))"

definition parse_manifest :: "(bytes \<Rightarrow> manifest option) \<Rightarrow> bytes \<Rightarrow> update_error + manifest" where
  "parse_manifest json b =
     rbind (ok_or (Invalid ''invalid manifest JSON'') (json b)) (\<lambda>value.
     rbind (validate_shape value) (\<lambda>_. Inr value))"

definition manifest_slot :: "manifest \<Rightarrow> char" where
  "manifest_slot m = (if m_target_slot m = ''A'' then CHR ''A'' else CHR ''B'')"

subsection \<open>What the manifest check accepts\<close>

definition entry_for :: "role \<Rightarrow> string \<Rightarrow> entry" where
  "entry_for r digest =
     \<lparr>e_role = r, e_destination = role_destination r, e_payload = role_destination r,
      e_signature = role_destination r @ ''.sig'', e_domain = role_domain r, e_sha512 = digest\<rparr>"

lemma role_destination_inject [simp]: "role_destination r = role_destination s \<longleftrightarrow> r = s"
  by (cases r; cases s) simp_all

lemma role_destination_sig [simp]: "role_destination r \<noteq> role_destination s @ ''.sig''"
  "role_destination s @ ''.sig'' \<noteq> role_destination r"
  by (cases r; cases s; simp)+

lemma validate_relative_role [simp]:
  "validate_relative (role_destination r) False = Inr ()"
  "validate_relative (role_destination r @ ''.sig'') False = Inr ()"
  by (cases r; simp add: validate_relative_def components_Normal_part slash_def Let_def)+

lemma e_fields: "e = entry_for (e_role e) (e_sha512 e) \<longleftrightarrow>
  e_payload e = e_destination e \<and> e_signature e = e_destination e @ ''.sig''
  \<and> e_destination e = role_destination (e_role e) \<and> e_domain e = role_domain (e_role e)"
  by (cases e) (auto simp: entry_for_def)

lemma validate_files_iff:
  assumes "D = role_destination ` R" "S = role_destination ` R \<union> (\<lambda>r. role_destination r @ ''.sig'') ` R"
  shows "validate_files R D S es = Inr R' \<longleftrightarrow>
    (\<forall>e\<in>set es. e = entry_for (e_role e) (e_sha512 e) \<and> hex_digest (e_sha512 e))
    \<and> distinct (map e_role es) \<and> set (map e_role es) \<inter> R = {} \<and> R' = R \<union> set (map e_role es)"
  using assms
proof (induction es arbitrary: R D S)
  case Nil
  then show ?case by auto
next
  case (Cons e es)
  let ?r = "e_role e"
  show ?case
  proof (cases "e = entry_for ?r (e_sha512 e) \<and> hex_digest (e_sha512 e) \<and> ?r \<notin> R")
    case False
    then show ?thesis by (subst validate_files.simps, subst e_fields) (auto simp: rbind_Inr_iff e_fields)
  next
    case True
    then have f: "e_destination e = role_destination ?r" "e_payload e = role_destination ?r"
      "e_signature e = role_destination ?r @ ''.sig''" "e_domain e = role_domain ?r"
      by (simp_all add: e_fields)
    have "validate_files R D S (e # es) = Inr R' \<longleftrightarrow>
        validate_files (insert ?r R) (insert (role_destination ?r) D)
          (insert (role_destination ?r @ ''.sig'') (insert (role_destination ?r) S)) es = Inr R'"
    proof -
      have "role_destination ?r \<notin> D" "role_destination ?r \<notin> S" "role_destination ?r @ ''.sig'' \<notin> S"
        using True by (auto simp: Cons.prems)
      then show ?thesis using True by (simp add: f)
    qed
    also have "\<dots> \<longleftrightarrow> (\<forall>e\<in>set es. e = entry_for (e_role e) (e_sha512 e) \<and> hex_digest (e_sha512 e))
      \<and> distinct (map e_role es) \<and> set (map e_role es) \<inter> insert ?r R = {}
      \<and> R' = insert ?r R \<union> set (map e_role es)"
      by (rule Cons.IH) (auto simp: Cons.prems)
    also have "\<dots> \<longleftrightarrow> (\<forall>e\<in>set (e # es). e = entry_for (e_role e) (e_sha512 e) \<and> hex_digest (e_sha512 e))
      \<and> distinct (map e_role (e # es)) \<and> set (map e_role (e # es)) \<inter> R = {} \<and> R' = R \<union> set (map e_role (e # es))"
      using True by auto
    finally show ?thesis .
  qed
qed

definition full_role_lists :: "role list list" where
  "full_role_lists =
     [[Bootloader, Kernel, Initrd, Rescue, Config],
      [Bootloader, Kernel, Initrd, Rescue, Network, Config],
      [Bootloader, Kernel, Initrd, Rescue, Tools, Config],
      [Bootloader, Kernel, Initrd, Rescue, Network, Tools, Config]]"

lemma role_sets:
  assumes "set required_roles \<subseteq> R"
  shows "\<exists>rs\<in>set full_role_lists. R = set rs"
proof -
  let ?all = "[Bootloader, Kernel, Initrd, Rescue, Network, Tools, Config]"
  have a: "\<And>r. r \<in> set ?all" by (case_tac r) simp_all
  have R: "R = set (filter (\<lambda>r. r \<in> R) ?all)"
    unfolding set_filter using a by blast
  have m: "Bootloader \<in> R" "Kernel \<in> R" "Initrd \<in> R" "Rescue \<in> R" "Config \<in> R"
    using assms by (simp_all add: required_roles_def)
  have "filter (\<lambda>r. r \<in> R) ?all \<in> set full_role_lists"
    by (cases "Network \<in> R"; cases "Tools \<in> R") (simp_all add: m full_role_lists_def)
  with R show ?thesis by blast
qed

lemma full_role_lists_sorted:
  "rs \<in> set full_role_lists \<Longrightarrow> sorted rs \<and> distinct rs \<and> set required_roles \<subseteq> set rs"
  by (auto simp: full_role_lists_def required_roles_def less_eq_role_def)

lemma role_lists_iff:
  "distinct rs \<and> set required_roles \<subseteq> set rs \<longleftrightarrow> sort rs \<in> set full_role_lists"
proof
  assume *: "distinct rs \<and> set required_roles \<subseteq> set rs"
  then obtain ls where ls: "ls \<in> set full_role_lists" "set rs = set ls"
    using role_sets by blast
  then have "sort rs = ls"
    using * full_role_lists_sorted [OF ls(1)] by (intro sorted_distinct_set_unique) auto
  with ls(1) show "sort rs \<in> set full_role_lists" by simp
next
  assume "sort rs \<in> set full_role_lists"
  from full_role_lists_sorted [OF this] show "distinct rs \<and> set required_roles \<subseteq> set rs" by simp
qed

lemma parse_manifest_iff:
  "parse_manifest json b = Inr m \<longleftrightarrow>
    json b = Some m \<and> m_version m = 1 \<and> hex_digest (m_set_id m)
    \<and> m_target_slot m \<in> {''A'', ''B''}
    \<and> (\<forall>e\<in>set (m_files m). e = entry_for (e_role e) (e_sha512 e) \<and> hex_digest (e_sha512 e))
    \<and> distinct (map e_role (m_files m)) \<and> set required_roles \<subseteq> set (map e_role (m_files m))"
  by (auto simp: parse_manifest_def validate_shape_def rbind_Inr_iff validate_files_iff
      list_all_iff subset_iff)

text \<open>The manifests that are accepted are exactly those of the fixed layout: version 1, a slot,
  well-formed digests, the five required roles and at most the two optional ones, each once, and
  every name and signing role in an entry determined by its role. No manifest reaches outside
  the slot directory.\<close>

theorem manifest_accepts_exactly:
  "parse_manifest json b = Inr m \<longleftrightarrow>
    json b = Some m \<and> m_version m = 1 \<and> hex_digest (m_set_id m)
    \<and> m_target_slot m \<in> {''A'', ''B''}
    \<and> (\<forall>e\<in>set (m_files m). e = entry_for (e_role e) (e_sha512 e) \<and> hex_digest (e_sha512 e))
    \<and> sort (map e_role (m_files m)) \<in> set full_role_lists"
  unfolding parse_manifest_iff role_lists_iff [symmetric] ..

subsection \<open>The check of a bundle directory\<close>

datatype node = File_Node bytes | Other_Node

type_synonym bundle_dir = "(string \<times> node) list"

record artifact =
  a_entry_index :: nat
  a_payload :: bytes
  a_signature :: bytes
  a_payload_len :: nat
  a_signature_len :: nat

record validated_bundle =
  v_manifest :: manifest
  v_manifest_bytes :: bytes
  v_manifest_signature :: bytes
  v_artifacts :: "artifact list"
  v_allocated_bytes :: nat

definition allocation :: "nat \<Rightarrow> nat" where
  "allocation len = sat_add u64_max len 4095 div 4096 * 4096"

definition open_member :: "bundle_dir \<Rightarrow> string \<Rightarrow> update_error + node" where
  "open_member d name = ok_or (Upd_Io ''open'') (map_of d name)"

definition reject_non_file :: "node \<Rightarrow> update_error + bytes" where
  "reject_non_file n =
     (case n of File_Node b \<Rightarrow> Inr b | Other_Node \<Rightarrow> Inl (Invalid ''bundle member is not a file''))"

definition read_open :: "bytes \<Rightarrow> nat \<Rightarrow> update_error + bytes" where
  "read_open b limit = (if length b > limit then Inl (Invalid ''input exceeds'') else Inr b)"

definition read_limited :: "bundle_dir \<Rightarrow> string \<Rightarrow> nat \<Rightarrow> update_error + bytes" where
  "read_limited d name limit =
     rbind (open_member d name) (\<lambda>n.
     rbind (reject_non_file n) (\<lambda>b. read_open b limit))"

definition verify_artifact ::
  "crypto \<Rightarrow> bytes \<Rightarrow> entry \<Rightarrow> bytes \<Rightarrow> bytes \<Rightarrow> update_error + unit" where
  "verify_artifact cr payload e public_bytes sg =
     rbind (ensure (hex_lower (sha512 cr payload) = to_ascii_lowercase (e_sha512 e))
       (Invalid ''digest mismatch'')) (\<lambda>_.
     rbind (ok_or (Invalid ''unknown signature domain'') (domain_for (e_domain e))) (\<lambda>domain.
     map_err (\<lambda>_. Upd_Signature) (verify_reader cr (Some payload) public_bytes domain sg)))"

fun check_files ::
  "crypto \<Rightarrow> bytes \<Rightarrow> bundle_dir \<Rightarrow> nat \<Rightarrow> nat \<Rightarrow> entry list \<Rightarrow> update_error + artifact list \<times> nat" where
  "check_files cr public_bytes d index allocated [] = Inr ([], allocated)"
| "check_files cr public_bytes d index allocated (e # es) =
     rbind (open_member d (e_payload e)) (\<lambda>pn.
     rbind (open_member d (e_signature e)) (\<lambda>sn.
     rbind (reject_non_file pn) (\<lambda>payload.
     rbind (reject_non_file sn) (\<lambda>signature.
     rbind (read_open signature (64 * 1024)) (\<lambda>signature_bytes.
     rbind (verify_artifact cr payload e public_bytes signature_bytes) (\<lambda>_.
     rbind (ok_or (Invalid ''boot set size overflow'')
       (Option.bind (checked_add u64_max allocated (allocation (length payload)))
          (\<lambda>n. checked_add u64_max n (allocation (length signature))))) (\<lambda>allocated'.
     rbind (check_files cr public_bytes d (index + 1) allocated' es) (\<lambda>(as, tot).
     Inr (\<lparr>a_entry_index = index, a_payload = payload, a_signature = signature,
            a_payload_len = length payload, a_signature_len = length signature\<rparr> # as, tot)))))))))"

text \<open>\<open>dir\<close> is \<^const>\<open>None\<close> when the directory does not open, \<open>public\<close> what reading the key gives.\<close>

definition check_bundle ::
  "crypto \<Rightarrow> (bytes \<Rightarrow> manifest option) \<Rightarrow> bundle_dir option \<Rightarrow> bytes option
   \<Rightarrow> update_error + validated_bundle" where
  "check_bundle cr json dir public =
     rbind (ok_or (Upd_Io ''open bundle'') dir) (\<lambda>d.
     rbind (read_limited d ''manifest.json'' (1024 * 1024)) (\<lambda>manifest_bytes.
     rbind (read_limited d ''manifest.json.sig'' (64 * 1024)) (\<lambda>manifest_signature.
     rbind (ok_or (Upd_Io ''read public key'') public) (\<lambda>public_bytes.
     rbind (ok_or (Invalid ''boot-set manifest domain is unavailable'') (domain_for ''boot-set-manifest'')) (\<lambda>domain.
     rbind (map_err (\<lambda>_. Upd_Signature)
       (verify_reader cr (Some manifest_bytes) public_bytes domain manifest_signature)) (\<lambda>_.
     rbind (parse_manifest json manifest_bytes) (\<lambda>m.
     rbind (ok_or (Invalid ''boot set size overflow'')
       (checked_add u64_max (allocation (length manifest_bytes)) (allocation (length manifest_signature)))) (\<lambda>allocated.
     rbind (check_files cr public_bytes d 0 allocated (m_files m)) (\<lambda>(artifacts, tot).
     Inr \<lparr>v_manifest = m, v_manifest_bytes = manifest_bytes, v_manifest_signature = manifest_signature,
           v_artifacts = artifacts, v_allocated_bytes = tot\<rparr>)))))))))"

subsection \<open>What a checked bundle is\<close>

text \<open>One artefact, as the specification sees it: a digest the manifest names and a sidecar of the
  entry's role by the public key.\<close>

definition artifact_good :: "crypto \<Rightarrow> bytes \<Rightarrow> entry \<Rightarrow> bytes \<Rightarrow> bytes \<Rightarrow> bool" where
  "artifact_good cr pub e payload sg \<longleftrightarrow>
     length sg \<le> 64 * 1024 \<and> hex_lower (sha512 cr payload) = to_ascii_lowercase (e_sha512 e)
     \<and> (\<exists>domain. domain_for (e_domain e) = Some domain \<and> signed_by cr pub payload domain sg)"

definition artifact_for :: "crypto \<Rightarrow> bytes \<Rightarrow> bundle_dir \<Rightarrow> entry \<Rightarrow> artifact \<Rightarrow> bool" where
  "artifact_for cr pub d e a \<longleftrightarrow>
     map_of d (e_payload e) = Some (File_Node (a_payload a))
     \<and> map_of d (e_signature e) = Some (File_Node (a_signature a))
     \<and> a_payload_len a = length (a_payload a) \<and> a_signature_len a = length (a_signature a)
     \<and> artifact_good cr pub e (a_payload a) (a_signature a)"

definition allocated :: "artifact \<Rightarrow> nat" where
  "allocated a = allocation (a_payload_len a) + allocation (a_signature_len a)"

lemma reject_non_file_Inr_iff [simp]: "reject_non_file n = Inr b \<longleftrightarrow> n = File_Node b"
  by (cases n) (auto simp: reject_non_file_def)

lemma open_member_Inr_iff [simp]: "open_member d name = Inr n \<longleftrightarrow> map_of d name = Some n"
  by (simp add: open_member_def)

lemma read_open_Inr_iff [simp]: "read_open b limit = Inr c \<longleftrightarrow> c = b \<and> length b \<le> limit"
  by (auto simp: read_open_def)

lemma read_limited_Inr_iff:
  "read_limited d name limit = Inr b \<longleftrightarrow> map_of d name = Some (File_Node b) \<and> length b \<le> limit"
  by (auto simp: read_limited_def rbind_Inr_iff)

lemma verify_artifact_iff:
  "length sg \<le> 64 * 1024 \<Longrightarrow>
   verify_artifact cr payload e pub sg = Inr () \<longleftrightarrow> artifact_good cr pub e payload sg"
  by (auto simp: verify_artifact_def artifact_good_def rbind_Inr_iff verify_reader_iff)

lemma checked_add_Some_iff: "checked_add mx a b = Some c \<longleftrightarrow> c = a + b \<and> a + b \<le> mx"
  by (auto simp: checked_add_def)

lemma check_files_iff:
  "check_files cr pub d i n es = Inr (as, tot) \<longleftrightarrow>
    list_all2 (artifact_for cr pub d) es as \<and> map a_entry_index as = [i..<i + length es]
    \<and> tot = n + sum_list (map allocated as) \<and> (es \<noteq> [] \<longrightarrow> tot \<le> u64_max)"
proof (induction es arbitrary: i n as tot)
  case Nil
  then show ?case by (cases as) auto
next
  case (Cons e es)
  have u: "[i..<i + length (e # es)] = i # [i + 1..<i + 1 + length es]"
    by (simp add: upt_conv_Cons del: upt_Suc)
  show ?case (is "?L \<longleftrightarrow> ?R")
  proof
    assume ?L
    then obtain p s as' n' where *: "map_of d (e_payload e) = Some (File_Node p)"
      "map_of d (e_signature e) = Some (File_Node s)" "length s \<le> 64 * 1024"
      "artifact_good cr pub e p s" "n' = n + (allocation (length p) + allocation (length s))"
      "n' \<le> u64_max" "check_files cr pub d (i + 1) n' es = Inr (as', tot)"
      "as = \<lparr>a_entry_index = i, a_payload = p, a_signature = s, a_payload_len = length p,
              a_signature_len = length s\<rparr> # as'"
      by (auto simp: rbind_Inr_iff verify_artifact_iff bind_eq_Some_conv checked_add_Some_iff add.assoc
          split: prod.splits)
    obtain a where a: "as = a # as'" "artifact_for cr pub d e a" "allocated a = allocation (length p) + allocation (length s)"
      "a_entry_index a = i"
      by (rule that [OF *(8)]) (use * in \<open>simp_all add: artifact_for_def allocated_def\<close>)
    from *(7) have "list_all2 (artifact_for cr pub d) es as'" "map a_entry_index as' = [i + 1..<i + 1 + length es]"
      "tot = n' + sum_list (map allocated as')" "es \<noteq> [] \<longrightarrow> tot \<le> u64_max"
      unfolding Cons.IH by auto
    with a *(5,6) show ?R
      unfolding u by (cases "es = []") (simp_all add: add.assoc)
  next
    assume R: ?R
    then obtain a as' where as: "as = a # as'" "artifact_for cr pub d e a" "list_all2 (artifact_for cr pub d) es as'"
      by (auto simp: list_all2_Cons1)
    from as(2) have l: "length (a_signature a) \<le> 64 * 1024" "artifact_good cr pub e (a_payload a) (a_signature a)"
      by (auto simp: artifact_for_def artifact_good_def)
    have i: "a_entry_index a = i" "map a_entry_index as' = [i + 1..<i + 1 + length es]"
      using R unfolding u as(1) by auto
    have "check_files cr pub d (i + 1) (n + allocated a) es = Inr (as', tot)"
      unfolding Cons.IH using R as i by auto
    moreover have "n + allocated a \<le> u64_max" using R as(1) by simp
    then have "Option.bind (checked_add u64_max n (allocation (length (a_payload a))))
        (\<lambda>n. checked_add u64_max n (allocation (length (a_signature a)))) = Some (n + allocated a)"
      using as(2) by (simp add: bind_eq_Some_conv checked_add_Some_iff artifact_for_def allocated_def)
    moreover have "\<lparr>a_entry_index = i, a_payload = a_payload a, a_signature = a_signature a,
        a_payload_len = length (a_payload a), a_signature_len = length (a_signature a)\<rparr> = a"
      using as(2) i(1) by (cases a) (simp add: artifact_for_def)
    moreover have "verify_artifact cr (a_payload a) e pub (a_signature a) = Inr ()"
      using l by (simp add: verify_artifact_iff)
    ultimately show ?L
      using as(2) l(1) by (simp add: artifact_for_def as(1) open_member_def reject_non_file_def read_open_def)
  qed
qed

lemma check_files_cong:
  assumes "\<forall>e\<in>set es. map_of d (e_payload e) = map_of d' (e_payload e) \<and> map_of d (e_signature e) = map_of d' (e_signature e)"
  shows "check_files cr pub d i n es = check_files cr pub d' i n es"
  using assms by (induction es arbitrary: i n) (simp_all add: open_member_def)

lemma check_bundle_iff:
  "check_bundle cr json dir pub = Inr v \<longleftrightarrow>
    (\<exists>d pk. dir = Some d \<and> pub = Some pk
       \<and> map_of d ''manifest.json'' = Some (File_Node (v_manifest_bytes v))
       \<and> length (v_manifest_bytes v) \<le> 1024 * 1024
       \<and> map_of d ''manifest.json.sig'' = Some (File_Node (v_manifest_signature v))
       \<and> length (v_manifest_signature v) \<le> 64 * 1024
       \<and> signed_by cr pk (v_manifest_bytes v) DOMAIN_BOOT_SET_MANIFEST (v_manifest_signature v)
       \<and> parse_manifest json (v_manifest_bytes v) = Inr (v_manifest v)
       \<and> list_all2 (artifact_for cr pk d) (m_files (v_manifest v)) (v_artifacts v)
       \<and> map a_entry_index (v_artifacts v) = [0..<length (m_files (v_manifest v))]
       \<and> v_allocated_bytes v = allocation (length (v_manifest_bytes v))
           + allocation (length (v_manifest_signature v)) + sum_list (map allocated (v_artifacts v))
       \<and> v_allocated_bytes v \<le> u64_max)"
  (is "_ \<longleftrightarrow> (\<exists>d pk. ?P d pk)")
proof
  assume "check_bundle cr json dir pub = Inr v"
  then obtain d pk mb ms m as tot where *: "dir = Some d" "pub = Some pk"
    "map_of d ''manifest.json'' = Some (File_Node mb)" "length mb \<le> 1024 * 1024"
    "map_of d ''manifest.json.sig'' = Some (File_Node ms)" "length ms \<le> 64 * 1024"
    "signed_by cr pk mb DOMAIN_BOOT_SET_MANIFEST ms" "parse_manifest json mb = Inr m"
    "allocation (length mb) + allocation (length ms) \<le> u64_max"
    "check_files cr pk d 0 (allocation (length mb) + allocation (length ms)) (m_files m) = Inr (as, tot)"
    "v = \<lparr>v_manifest = m, v_manifest_bytes = mb, v_manifest_signature = ms, v_artifacts = as,
          v_allocated_bytes = tot\<rparr>"
    by (auto simp: check_bundle_def rbind_Inr_iff read_limited_Inr_iff verify_reader_iff
        checked_add_Some_iff split: prod.splits)
  then show "\<exists>d pk. ?P d pk" unfolding check_files_iff by auto
next
  assume "\<exists>d pk. ?P d pk"
  then obtain d pk where *: "?P d pk" by blast
  then have "check_files cr pk d 0 (allocation (length (v_manifest_bytes v))
      + allocation (length (v_manifest_signature v))) (m_files (v_manifest v))
    = Inr (v_artifacts v, v_allocated_bytes v)"
    unfolding check_files_iff by simp
  with * show "check_bundle cr json dir pub = Inr v"
    by (auto simp: check_bundle_def rbind_Inr_iff read_limited_Inr_iff verify_reader_iff
        checked_add_Some_iff)
qed

lemma parse_manifest_InrD:
  assumes "parse_manifest json b = Inr m"
  shows "json b = Some m" "\<forall>r\<in>set required_roles. \<exists>e\<in>set (m_files m). e_role e = r"
    "\<forall>e\<in>set (m_files m). e = entry_for (e_role e) (e_sha512 e)" "m_target_slot m \<in> {''A'', ''B''}"
  using assms unfolding parse_manifest_iff by (auto simp: subset_iff image_iff)


subsection \<open>The producer of bundles\<close>

text \<open>What a name in the source directory is: a regular file, something else, or a dangling link, which
  does not \<open>exist\<close> for \<open>Path::exists\<close>.\<close>

datatype source_node = Src_File bytes | Src_Other | Src_Dangling

definition source_exists :: "(string \<Rightarrow> source_node option) \<Rightarrow> string \<Rightarrow> bool" where
  "source_exists source name =
     (case source name of None \<Rightarrow> False | Some Src_Dangling \<Rightarrow> False | Some _ \<Rightarrow> True)"

definition copy_regular ::
  "(string \<Rightarrow> source_node option) \<Rightarrow> string \<Rightarrow> bundle_dir \<Rightarrow> update_error + bytes \<times> bundle_dir" where
  "copy_regular source name out =
     (case source name of
        None \<Rightarrow> Inl (Upd_Io ''inspect source'')
      | Some (Src_File b) \<Rightarrow>
          if map_of out name \<noteq> None then Inl (Upd_Io ''create bundle member'')
          else Inr (b, (name, File_Node b) # out)
      | Some _ \<Rightarrow> Inl (Invalid ''source is not a regular file''))"

definition prepare_roles :: "(role \<times> bool) list" where
  "prepare_roles =
     [(Bootloader, True), (Kernel, True), (Initrd, True), (Rescue, True), (Config, True),
      (Network, False), (Tools, False)]"

fun populate_files ::
  "crypto \<Rightarrow> signer \<Rightarrow> private_key_file \<Rightarrow> (string \<Rightarrow> source_node option)
   \<Rightarrow> bundle_dir \<Rightarrow> bytes \<Rightarrow> (role \<times> bool) list
   \<Rightarrow> update_error + entry list \<times> bundle_dir \<times> bytes" where
  "populate_files cr sn key source out identity [] = Inr ([], out, identity)"
| "populate_files cr sn key source out identity ((r, required) # rs) =
     (let name = role_destination r in
      if \<not> source_exists source name \<and> \<not> required
      then populate_files cr sn key source out identity rs
      else
        rbind (copy_regular source name out) (\<lambda>(content, out1).
        let digest = hex_lower (sha512 cr content);
            identity1 = identity @ name @ digest;
            signature = name @ ''.sig''
        in rbind (ok_or (Invalid ''signature domain missing'') (domain_for (role_domain r))) (\<lambda>domain.
           rbind (map_err (\<lambda>_. Invalid ''sign'') (sign_file cr sn (Some content) key domain)) (\<lambda>sb.
           rbind (populate_files cr sn key source ((signature, File_Node sb) # out1) identity1 rs)
             (\<lambda>(entries, out2, identity2).
           Inr (\<lparr>e_role = r, e_destination = name, e_payload = name, e_signature = signature,
                  e_domain = role_domain r, e_sha512 = digest\<rparr> # entries, out2, identity2))))))"

text \<open>\<open>to_json\<close> is \<open>serde_json::to_vec\<close>, \<open>public\<close> what the public key file reads.\<close>

definition populate ::
  "crypto \<Rightarrow> signer \<Rightarrow> (bytes \<Rightarrow> manifest option) \<Rightarrow> (manifest \<Rightarrow> bytes option) \<Rightarrow> char
   \<Rightarrow> (string \<Rightarrow> source_node option) \<Rightarrow> private_key_file \<Rightarrow> bytes option \<Rightarrow> update_error + bundle_dir" where
  "populate cr sn json to_json slot source key public =
     rbind (populate_files cr sn key source [] [slot] prepare_roles) (\<lambda>(entries, out, identity).
     let m = \<lparr>m_version = 1, m_set_id = hex_lower (sha512 cr identity), m_target_slot = [slot],
              m_files = entries\<rparr>
     in rbind (ok_or (Invalid ''encode manifest'') (to_json m)) (\<lambda>b.
        rbind (ok_or (Invalid ''manifest signature domain missing'') (domain_for ''boot-set-manifest'')) (\<lambda>domain.
        rbind (map_err (\<lambda>_. Invalid ''sign manifest'') (sign_file cr sn (Some b) key domain)) (\<lambda>sb.
        let out1 = (''manifest.json.sig'', File_Node sb) # (''manifest.json'', File_Node b) # out
        in rbind (check_bundle cr json (Some out1) public) (\<lambda>_. Inr out1)))))"

text \<open>The new directory: \<^const>\<open>None\<close> when it was not created or was removed after an error.\<close>

definition prepare_with_key ::
  "crypto \<Rightarrow> signer \<Rightarrow> (bytes \<Rightarrow> manifest option) \<Rightarrow> (manifest \<Rightarrow> bytes option) \<Rightarrow> bool \<Rightarrow> char
   \<Rightarrow> (string \<Rightarrow> source_node option) \<Rightarrow> private_key_file \<Rightarrow> bytes option
   \<Rightarrow> (update_error + unit) \<times> bundle_dir option" where
  "prepare_with_key cr sn json to_json created slot source key public =
     (if slot \<noteq> CHR ''A'' \<and> slot \<noteq> CHR ''B'' then (Inl (Invalid ''slot must be A or B''), None)
      else if \<not> created then (Inl (Upd_Io ''create output bundle''), None)
      else case populate cr sn json to_json slot source key public of
             Inl e \<Rightarrow> (Inl e, None)
           | Inr out \<Rightarrow> (Inr (), Some out))"

definition reject_store_private_key :: "(string \<Rightarrow> string option) \<Rightarrow> string \<Rightarrow> update_error + unit" where
  "reject_store_private_key canon path =
     rbind (ok_or (Upd_Io ''resolve private key'') (canon path)) (\<lambda>canonical.
     ensure (take 3 (components canonical) \<noteq> [RootDir, Normal ''nix'', Normal ''store''])
       (Invalid ''private key must remain outside /nix/store''))"

definition prepare ::
  "crypto \<Rightarrow> signer \<Rightarrow> (bytes \<Rightarrow> manifest option) \<Rightarrow> (manifest \<Rightarrow> bytes option)
   \<Rightarrow> (string \<Rightarrow> string option) \<Rightarrow> (string \<Rightarrow> bytes option) \<Rightarrow> bool \<Rightarrow> char
   \<Rightarrow> (string \<Rightarrow> source_node option) \<Rightarrow> string \<Rightarrow> bytes option
   \<Rightarrow> (update_error + unit) \<times> bundle_dir option" where
  "prepare cr sn json to_json canon read created slot source private_key public =
     (if slot \<noteq> CHR ''A'' \<and> slot \<noteq> CHR ''B'' then (Inl (Invalid ''slot must be A or B''), None)
      else case reject_store_private_key canon private_key of
        Inl e \<Rightarrow> (Inl e, None)
      | Inr _ \<Rightarrow>
          (case rbind (ok_or (Sign_Io ''read private key'') (read private_key)) parse_private of
             Inl _ \<Rightarrow> (Inl (Invalid ''load private key''), None)
           | Inr key \<Rightarrow> prepare_with_key cr sn json to_json created slot source key public))"

text \<open>What the loop leaves: one entry for each role that was taken, in its canonical form, and a
  directory with the two files of each.\<close>

lemma hex_lower_digest:
  assumes "length b = 64"
  shows "hex_digest (hex_lower b)" "to_ascii_lowercase (hex_lower b) = hex_lower b"
proof -
  have d: "is_hexdigit (hex_digit k) \<and> \<not> (65 \<le> ord (hex_digit k) \<and> ord (hex_digit k) \<le> 90)" if "k < 16" for k
    using that by (auto simp: hex_digit_def is_hexdigit_def is_digit_def)
  have "\<forall>c\<in>set (hex_lower b). is_hexdigit c \<and> \<not> (65 \<le> ord c \<and> ord c \<le> 90)"
    using d ord_less by (auto simp: hex_lower_def less_mult_imp_div_less)
  then show "hex_digest (hex_lower b)" "to_ascii_lowercase (hex_lower b) = hex_lower b"
    using assms by (auto simp: hex_digest_def list_all_iff to_ascii_lowercase_def intro!: map_idI)
qed

definition can_sign :: "signer \<Rightarrow> private_key_file \<Rightarrow> bool" where
  "can_sign sn key \<longleftrightarrow> length (pk_sk key) = sk_len sn (pk_alg key) \<and> sk_decodes sn (pk_alg key) (pk_sk key)
     \<and> (\<forall>digest domain. try_hash_sign sn (pk_alg key) (pk_sk key) digest domain \<noteq> None)"

lemma can_sign_file: "can_sign sn key \<Longrightarrow> \<exists>sb. sign_file cr sn (Some content) key domain = Inr sb"
proof -
  assume *: "can_sign sn key"
  then obtain sg where "try_hash_sign sn (pk_alg key) (pk_sk key) (sha512 cr content) domain = Some sg"
    by (fastforce simp: can_sign_def)
  with * show ?thesis
    by (simp add: can_sign_def sign_file_def sidecar_for_digest_def ml_dsa_sign_def Let_def)
qed

lemma sign_file_length:
  "signer_ok cr sn \<Longrightarrow> sign_file cr sn (Some content) key domain = Inr sb \<Longrightarrow> length sb \<le> 4675"
  using sign_file_InrD [of cr sn content key domain sb]
  by (cases "pk_alg key") (auto simp: Let_def sidecar_len_def offset_defs)

lemma domain_for_role: "\<exists>dom. domain_for (role_domain r) = Some dom"
  by (cases r) simp_all

definition member_names :: "role \<Rightarrow> string set" where
  "member_names r = {role_destination r, role_destination r @ ''.sig''}"

lemma member_names_disjoint: "r \<noteq> s \<Longrightarrow> member_names r \<inter> member_names s = {}"
  by (auto simp: member_names_def)

definition member_good ::
  "crypto \<Rightarrow> bytes \<Rightarrow> (string \<Rightarrow> source_node option) \<Rightarrow> bundle_dir \<Rightarrow> entry \<Rightarrow> bool" where
  "member_good cr pub source d e \<longleftrightarrow>
     (\<exists>p. source (e_destination e) = Some (Src_File p) \<and> e = entry_for (e_role e) (hex_lower (sha512 cr p))
        \<and> (\<exists>sb. length sb \<le> 4675 \<and> map_of d (e_destination e) = Some (File_Node p)
             \<and> map_of d (e_signature e) = Some (File_Node sb)
             \<and> signed_by cr pub p (the (domain_for (e_domain e))) sb))"

lemma populate_files_ok:
  assumes "signer_ok cr sn" "can_sign sn key" "distinct (map fst rs)"
    and "\<forall>(r, req)\<in>set rs. (source (role_destination r) = None \<and> \<not> req)
          \<or> (\<exists>p. source (role_destination r) = Some (Src_File p))"
    and "\<forall>r\<in>fst ` set rs. member_names r \<inter> fst ` set out = {}"
  shows "\<exists>entries new identity'.
    populate_files cr sn key source out identity rs = Inr (entries, new @ out, identity')
    \<and> fst ` set new \<subseteq> \<Union> (member_names ` fst ` set rs)
    \<and> map e_role entries = filter (\<lambda>r. source (role_destination r) \<noteq> None) (map fst rs)
    \<and> (\<forall>e\<in>set entries. member_good cr (public_of sn (pk_alg key) (pk_sk key)) source (new @ out) e)"
  using assms(3-)
proof (induction rs arbitrary: out identity)
  case Nil
  then show ?case by simp
next
  case (Cons x rs)
  obtain r req where x: "x = (r, req)" by fastforce
  let ?n = "role_destination r" and ?pub = "public_of sn (pk_alg key) (pk_sk key)"
  show ?case
  proof (cases "source ?n")
    case None
    then have "\<not> req" using Cons.prems(2) x by auto
    then have s: "populate_files cr sn key source out identity (x # rs) = populate_files cr sn key source out identity rs"
      using None x by (simp add: source_exists_def Let_def)
    show ?thesis
    proof -
      obtain entries new identity' where IH:
        "populate_files cr sn key source out identity rs = Inr (entries, new @ out, identity')"
        "fst ` set new \<subseteq> \<Union> (member_names ` fst ` set rs)"
        "map e_role entries = filter (\<lambda>r. source (role_destination r) \<noteq> None) (map fst rs)"
        "\<forall>e\<in>set entries. member_good cr ?pub source (new @ out) e"
        using Cons.IH [of out identity] Cons.prems x by auto
      then show ?thesis
        unfolding s using None x by (intro exI [of _ entries] exI [of _ new] exI [of _ identity']) auto
    qed
  next
    case (Some src)
    then obtain p where p: "source ?n = Some (Src_File p)" using Cons.prems(2) x by auto
    obtain dom where dom: "domain_for (role_domain r) = Some dom" using domain_for_role by blast
    obtain sb where sb: "sign_file cr sn (Some p) key dom = Inr sb" using can_sign_file [OF assms(2)] by blast
    let ?out = "(?n @ ''.sig'', File_Node sb) # (?n, File_Node p) # out"
    have fresh: "?n \<notin> fst ` set out" using Cons.prems(3) x by (auto simp: member_names_def)
    have "\<forall>s\<in>fst ` set rs. member_names s \<inter> fst ` set ?out = {}"
    proof
      fix s
      assume s: "s \<in> fst ` set rs"
      then have "s \<noteq> r" using Cons.prems(1) x by auto
      with s show "member_names s \<inter> fst ` set ?out = {}"
        using Cons.prems(3) x by (auto simp: member_names_def)
    qed
    then obtain entries new identity' where IH:
      "populate_files cr sn key source ?out (identity @ ?n @ hex_lower (sha512 cr p)) rs = Inr (entries, new @ ?out, identity')"
      "fst ` set new \<subseteq> \<Union> (member_names ` fst ` set rs)"
      "map e_role entries = filter (\<lambda>r. source (role_destination r) \<noteq> None) (map fst rs)"
      "\<forall>e\<in>set entries. member_good cr ?pub source (new @ ?out) e"
      using Cons.IH [of ?out "identity @ ?n @ hex_lower (sha512 cr p)"] Cons.prems x by auto
    let ?e = "entry_for r (hex_lower (sha512 cr p))"
    have "map_of out ?n = None" using fresh by (simp add: map_of_eq_None_iff)
    then have run: "populate_files cr sn key source out identity (x # rs) = Inr (?e # entries, new @ ?out, identity')"
      using p sb IH(1) by (simp add: x source_exists_def copy_regular_def Let_def dom entry_for_def)
    have "r \<notin> fst ` set rs" using Cons.prems(1) x by auto
    then have "\<forall>s\<in>fst ` set rs. member_names s \<inter> member_names r = {}"
      using member_names_disjoint by metis
    then have "fst ` set new \<inter> member_names r = {}" using IH(2) by blast
    then have "?n \<notin> fst ` set new" "?n @ ''.sig'' \<notin> fst ` set new"
      unfolding member_names_def by blast+
    then have "map_of new ?n = None" "map_of new (?n @ ''.sig'') = None"
      by (simp_all add: map_of_eq_None_iff)
    then have "member_good cr ?pub source (new @ ?out) ?e"
      using p sign_file_length [OF assms(1) sb] signed_by_sign_file [OF assms(1) sb]
      by (simp add: member_good_def entry_for_def map_add_def dom)
    with IH run p show ?thesis
      by (intro exI [of _ "?e # entries"] exI [of _ "new @ [(?n @ ''.sig'', File_Node sb), (?n, File_Node p)]"] exI [of _ identity'])
        (auto simp: x entry_for_def member_names_def)
  qed
qed

lemma check_files_succeeds:
  assumes "\<forall>e\<in>set es. \<exists>a. artifact_for cr pub d e a \<and> allocated a \<le> c"
    and "n + length es * c \<le> u64_max"
  shows "\<exists>as tot. check_files cr pub d i n es = Inr (as, tot)"
proof -
  obtain f where f: "\<And>e. e \<in> set es \<Longrightarrow> artifact_for cr pub d e (f e) \<and> allocated (f e) \<le> c"
    using assms(1) by metis
  let ?as = "map (\<lambda>k. (f (es ! k))\<lparr>a_entry_index := i + k\<rparr>) [0..<length es]"
  have "list_all2 (artifact_for cr pub d) es ?as"
    using f by (auto simp: list_all2_conv_all_nth artifact_for_def)
  moreover have "map a_entry_index ?as = [i..<i + length es]"
    by (auto intro: nth_equalityI)
  moreover have "sum_list (map allocated ?as) \<le> length es * c"
  proof -
    have "sum_list (map allocated ?as) \<le> sum_list (map (\<lambda>_. c) [0..<length es])"
      unfolding map_map comp_def by (rule sum_list_mono) (use f in \<open>auto simp: allocated_def\<close>)
    then show ?thesis by (simp add: sum_list_triv)
  qed
  ultimately have "check_files cr pub d i n es = Inr (?as, n + sum_list (map allocated ?as))"
    unfolding check_files_iff using assms(2) by simp
  then show ?thesis by blast
qed

definition source_content :: "(string \<Rightarrow> source_node option) \<Rightarrow> role \<Rightarrow> bytes" where
  "source_content source r = (case source (role_destination r) of Some (Src_File p) \<Rightarrow> p | _ \<Rightarrow> [])"

definition manifest_of ::
  "crypto \<Rightarrow> (string \<Rightarrow> source_node option) \<Rightarrow> char \<Rightarrow> string \<Rightarrow> manifest" where
  "manifest_of cr source slot set_id =
     \<lparr>m_version = 1, m_set_id = set_id, m_target_slot = [slot],
      m_files = map (\<lambda>r. entry_for r (hex_lower (sha512 cr (source_content source r))))
        (filter (\<lambda>r. source (role_destination r) \<noteq> None) (map fst prepare_roles))\<rparr>"

lemma allocation_le: "allocation n \<le> n + 4095"
proof -
  have "sat_add u64_max n 4095 div 4096 * 4096 \<le> sat_add u64_max n 4095" by (rule div_times_less_eq_dividend)
  then show ?thesis by (simp add: allocation_def sat_add_def)
qed

lemma manifest_names [simp]:
  "role_destination r \<noteq> ''manifest.json''" "role_destination r \<noteq> ''manifest.json.sig''"
  "role_destination r @ ''.sig'' \<noteq> ''manifest.json''" "role_destination r @ ''.sig'' \<noteq> ''manifest.json.sig''"
  by (cases r; simp)+

lemma member_good_artifact:
  assumes "member_good cr pub source out e" "\<forall>b. length (sha512 cr b) = 64"
    and "\<forall>r p. source (role_destination r) = Some (Src_File p) \<longrightarrow> length p \<le> 2 ^ 56"
  shows "\<exists>a. artifact_for cr pub ((''manifest.json.sig'', x) # (''manifest.json'', y) # out) e a
    \<and> allocated a \<le> 2 ^ 57"
proof -
  from assms(1) obtain p sb where *: "source (e_destination e) = Some (Src_File p)"
    "e = entry_for (e_role e) (hex_lower (sha512 cr p))" "length sb \<le> 4675"
    "map_of out (e_destination e) = Some (File_Node p)" "map_of out (e_signature e) = Some (File_Node sb)"
    "signed_by cr pub p (the (domain_for (e_domain e))) sb"
    unfolding member_good_def by blast
  have f: "e_destination e = role_destination (e_role e)" "e_payload e = role_destination (e_role e)"
    "e_signature e = role_destination (e_role e) @ ''.sig''" "e_domain e = role_domain (e_role e)"
    "e_sha512 e = hex_lower (sha512 cr p)"
    by (subst *(2), simp add: entry_for_def)+
  have len: "length p \<le> 2 ^ 56" using assms(3) *(1) f(1) by simp
  obtain dom where dom: "domain_for (role_domain (e_role e)) = Some dom" using domain_for_role by blast
  let ?a = "\<lparr>a_entry_index = 0, a_payload = p, a_signature = sb, a_payload_len = length p, a_signature_len = length sb\<rparr>"
  have "allocated ?a \<le> 2 ^ 57"
    using allocation_le [of "length p"] allocation_le [of "length sb"] len *(3) by (simp add: allocated_def)
  moreover have "artifact_for cr pub ((''manifest.json.sig'', x) # (''manifest.json'', y) # out) e ?a"
    using * f dom hex_lower_digest(2) assms(2) by (simp add: artifact_for_def artifact_good_def)
  ultimately show ?thesis by blast
qed

lemma entry_for_simps [simp]:
  "e_role (entry_for r d) = r" "e_sha512 (entry_for r d) = d" "e_destination (entry_for r d) = role_destination r"
  "e_domain (entry_for r d) = role_domain r" "e_signature (entry_for r d) = role_destination r @ ''.sig''"
  by (simp_all add: entry_for_def)

lemma member_good_entry:
  assumes "member_good cr pub source out e"
  shows "entry_for (e_role e) (hex_lower (sha512 cr (source_content source (e_role e)))) = e"
    "e_destination e = role_destination (e_role e)"
proof -
  from assms obtain p where p: "source (e_destination e) = Some (Src_File p)"
    "e = entry_for (e_role e) (hex_lower (sha512 cr p))"
    by (auto simp: member_good_def)
  then show d: "e_destination e = role_destination (e_role e)" by (metis entry_for_simps(3))
  show "entry_for (e_role e) (hex_lower (sha512 cr (source_content source (e_role e)))) = e"
    using p d by (simp add: source_content_def)
qed

lemma manifest_of_parses:
  assumes "json b = Some (manifest_of cr source slot i)" "hex_digest i" "\<forall>b. length (sha512 cr b) = 64"
    and "slot \<in> {CHR ''A'', CHR ''B''}" "\<forall>r\<in>set required_roles. source (role_destination r) \<noteq> None"
  shows "parse_manifest json b = Inr (manifest_of cr source slot i)"
proof -
  have "set required_roles \<subseteq> set (filter (\<lambda>r. source (role_destination r) \<noteq> None) (map fst prepare_roles))"
    using assms(5) by (auto simp: required_roles_def prepare_roles_def)
  moreover have "distinct (filter (\<lambda>r. source (role_destination r) \<noteq> None) (map fst prepare_roles))"
    by (rule distinct_filter) (simp add: prepare_roles_def)
  ultimately show ?thesis
    using assms(1-4) hex_lower_digest(1) unfolding parse_manifest_iff
    by (auto simp: manifest_of_def comp_def)
qed

lemma check_bundle_succeeds:
  assumes "map_of d ''manifest.json'' = Some (File_Node b)" "length b \<le> 1024 * 1024"
    and "map_of d ''manifest.json.sig'' = Some (File_Node sb)" "length sb \<le> 4675"
    and "signed_by cr pub b DOMAIN_BOOT_SET_MANIFEST sb" "parse_manifest json b = Inr m"
    and "length (m_files m) \<le> 7"
    and "\<forall>e\<in>set (m_files m). \<exists>a. artifact_for cr pub d e a \<and> allocated a \<le> 2 ^ 57"
  shows "\<exists>v. check_bundle cr json (Some d) (Some pub) = Inr v \<and> v_manifest v = m"
proof -
  let ?n = "allocation (length b) + allocation (length sb)"
  have n: "?n \<le> 2 ^ 57" "?n \<le> u64_max"
    using allocation_le [of "length b"] allocation_le [of "length sb"] assms(2,4) by (simp_all add: u64_max_def)
  then have "?n + length (m_files m) * 2 ^ 57 \<le> u64_max" using assms(7) by (simp add: u64_max_def)
  then obtain as tot where "check_files cr pub d 0 ?n (m_files m) = Inr (as, tot)"
    using check_files_succeeds [OF assms(8)] by blast
  then have "check_bundle cr json (Some d) (Some pub) = Inr \<lparr>v_manifest = m, v_manifest_bytes = b,
      v_manifest_signature = sb, v_artifacts = as, v_allocated_bytes = tot\<rparr>"
    using assms n(2) unfolding check_bundle_iff check_files_iff by (cases "m_files m = []") simp_all
  then show ?thesis by auto
qed

lemma prepared_bundle:
  assumes "signer_ok cr sn" "can_sign sn key" "\<forall>b. length (sha512 cr b) = 64" "slot \<in> {CHR ''A'', CHR ''B''}"
    and "\<forall>(r, required)\<in>set prepare_roles. (source (role_destination r) = None \<and> \<not> required)
          \<or> (\<exists>p. source (role_destination r) = Some (Src_File p))"
    and "\<forall>r p. source (role_destination r) = Some (Src_File p) \<longrightarrow> length p \<le> 2 ^ 56"
    and "\<forall>i. hex_digest i \<longrightarrow> (\<exists>b. to_json (manifest_of cr source slot i) = Some b
          \<and> json b = Some (manifest_of cr source slot i) \<and> length b \<le> 1024 * 1024)"
    and "pub = public_of sn (pk_alg key) (pk_sk key)"
  shows "\<exists>out v i. prepare_with_key cr sn json to_json True slot source key (Some pub) = (Inr (), Some out)
    \<and> check_bundle cr json (Some out) (Some pub) = Inr v \<and> v_manifest v = manifest_of cr source slot i
    \<and> (\<forall>r p. source (role_destination r) = Some (Src_File p) \<longrightarrow>
          map_of out (role_destination r) = Some (File_Node p))"
proof -
  have "distinct (map fst prepare_roles)" by (simp add: prepare_roles_def)
  then obtain entries out identity where loop:
    "populate_files cr sn key source [] [slot] prepare_roles = Inr (entries, out, identity)"
    "map e_role entries = filter (\<lambda>r. source (role_destination r) \<noteq> None) (map fst prepare_roles)"
    "\<forall>e\<in>set entries. member_good cr pub source out e"
    using populate_files_ok [OF assms(1,2) _ assms(5), where out = "[]" and identity = "[slot]"] assms(8) by auto
  let ?i = "hex_lower (sha512 cr identity)" and ?m = "manifest_of cr source slot (hex_lower (sha512 cr identity))"
  have m: "\<lparr>m_version = 1, m_set_id = ?i, m_target_slot = [slot], m_files = entries\<rparr> = ?m"
    unfolding manifest_of_def loop(2) [symmetric]
    using loop(3) by (simp add: comp_def map_idI member_good_entry(1) [of cr pub source out])
  have hex: "hex_digest ?i" using hex_lower_digest(1) assms(3) by blast
  then obtain b where b: "to_json ?m = Some b" "json b = Some ?m" "length b \<le> 1024 * 1024"
    using assms(7) by blast
  obtain sb where sb: "sign_file cr sn (Some b) key DOMAIN_BOOT_SET_MANIFEST = Inr sb"
    using can_sign_file [OF assms(2)] by blast
  let ?out = "(''manifest.json.sig'', File_Node sb) # (''manifest.json'', File_Node b) # out"
  have files: "\<forall>e\<in>set (m_files ?m). \<exists>a. artifact_for cr pub ?out e a \<and> allocated a \<le> 2 ^ 57"
    using loop(3) member_good_artifact [OF _ assms(3,6)] m [symmetric] by auto
  have "length (m_files ?m) \<le> 7"
    using length_filter_le [of _ "map fst prepare_roles"] by (auto simp: manifest_of_def prepare_roles_def)
  moreover have "parse_manifest json b = Inr ?m"
    using assms(5) by (intro manifest_of_parses [where json = json] b(2) hex assms(3,4))
      (auto simp: prepare_roles_def required_roles_def)
  ultimately obtain v where v: "check_bundle cr json (Some ?out) (Some pub) = Inr v" "v_manifest v = ?m"
    using check_bundle_succeeds [of ?out b sb cr pub json] b(3) sign_file_length [OF assms(1) sb]
      signed_by_sign_file [OF assms(1) sb] files assms(8) by auto
  have "prepare_with_key cr sn json to_json True slot source key (Some pub) = (Inr (), Some ?out)"
    using assms(4) loop(1) m b sb v by (auto simp: prepare_with_key_def populate_def Let_def)
  moreover have "map_of ?out (role_destination r) = Some (File_Node p)"
    if "source (role_destination r) = Some (Src_File p)" for r p
  proof -
    have "r \<in> set (map e_role entries)"
      unfolding loop(2) using that by (cases r) (auto simp: prepare_roles_def)
    then obtain e where "e \<in> set entries" "e_role e = r" by auto
    with loop(3) that show ?thesis by (fastforce simp: member_good_def dest: arg_cong [of _ _ e_destination])
  qed
  ultimately show ?thesis using v by (intro exI [of _ ?out] exI [of _ v] exI [of _ ?i]) simp
qed

text \<open>The producer never refuses its own work: from regular source files and a key that signs, it makes
  a bundle that its own last check, and so the same check of the service, accepts under the
  signer's public key, with one entry for each source that is there and the sources' contents.\<close>

theorem prepared_bundle_checks:
  assumes "signer_ok cr sn" "can_sign sn key" "\<forall>b. length (sha512 cr b) = 64" "slot \<in> {CHR ''A'', CHR ''B''}"
    and "\<forall>(r, required)\<in>set prepare_roles. (source (role_destination r) = None \<and> \<not> required)
          \<or> (\<exists>p. source (role_destination r) = Some (Src_File p))"
    and "\<forall>r p. source (role_destination r) = Some (Src_File p) \<longrightarrow> length p \<le> 2 ^ 56"
    and "\<forall>i. hex_digest i \<longrightarrow> (\<exists>b. to_json (manifest_of cr source slot i) = Some b
          \<and> json b = Some (manifest_of cr source slot i) \<and> length b \<le> 1024 * 1024)"
    and "pub = public_of sn (pk_alg key) (pk_sk key)"
  shows "\<exists>out v i. prepare_with_key cr sn json to_json True slot source key (Some pub) = (Inr (), Some out)
    \<and> check_bundle cr json (Some out) (Some pub) = Inr v \<and> v_manifest v = manifest_of cr source slot i
    \<and> (\<forall>r p. source (role_destination r) = Some (Src_File p) \<longrightarrow>
          map_of out (role_destination r) = Some (File_Node p))"
  by (rule prepared_bundle [OF assms])

text \<open>A source directory with the five required files, each holding its own name.\<close>

definition upd_crypto :: crypto where
  "upd_crypto = demo_crypto\<lparr>sha512 := (\<lambda>b. take 64 (b @ replicate 64 (byte 0)))\<rparr>"

definition upd_signer :: signer where
  "upd_signer = demo_signer\<lparr>try_hash_sign := (\<lambda>alg _ d _. Some (replicate (sig_len alg) (hd d)))\<rparr>"

definition upd_source :: "string \<Rightarrow> source_node option" where
  "upd_source name = (if name \<in> role_destination ` set required_roles then Some (Src_File name) else None)"

definition upd_json :: "char \<Rightarrow> bytes \<Rightarrow> manifest option" where
  "upd_json slot b = Some (manifest_of upd_crypto upd_source slot b)"

definition upd_pub :: bytes where
  "upd_pub = public_of upd_signer MlDsa65 ''s''"

lemma upd_signer_ok: "signer_ok upd_crypto upd_signer"
proof -
  have "hd (replicate (sig_len alg) c) = c" "hd (replicate (pk_len alg) c) = c" for alg and c :: char
    by (cases alg; simp)+
  then show ?thesis
    by (auto simp: signer_ok_def upd_crypto_def upd_signer_def demo_crypto_def demo_signer_def pair_ok_def)
qed

lemma upd_can_sign: "can_sign upd_signer demo_key"
  by (simp add: can_sign_def upd_signer_def demo_signer_def demo_key_def)

lemma upd_digest_length: "length (sha512 upd_crypto b) = 64"
  by (simp add: upd_crypto_def)

lemma upd_sources:
  "\<forall>(r, required)\<in>set prepare_roles. (upd_source (role_destination r) = None \<and> \<not> required)
     \<or> (\<exists>p. upd_source (role_destination r) = Some (Src_File p))"
  by (auto simp: prepare_roles_def upd_source_def required_roles_def)

lemma upd_source_content: "upd_source (role_destination r) = Some (Src_File p) \<Longrightarrow> p = role_destination r"
  by (auto simp: upd_source_def split: if_splits)

lemma length_role_destination: "length (role_destination r) \<le> 10"
  by (cases r) simp_all

lemma upd_prems:
  "\<forall>b. length (sha512 upd_crypto b) = 64"
  "\<forall>r p. upd_source (role_destination r) = Some (Src_File p) \<longrightarrow> length p \<le> 2 ^ 56"
  "\<forall>i. hex_digest i \<longrightarrow> (\<exists>b. (Some \<circ> m_set_id) (manifest_of upd_crypto upd_source slot i) = Some b
     \<and> upd_json slot b = Some (manifest_of upd_crypto upd_source slot i) \<and> length b \<le> 1024 * 1024)"
  "upd_pub = public_of upd_signer (pk_alg demo_key) (pk_sk demo_key)"
proof -
  show "\<forall>b. length (sha512 upd_crypto b) = 64" by (simp add: upd_digest_length)
  show "\<forall>r p. upd_source (role_destination r) = Some (Src_File p) \<longrightarrow> length p \<le> 2 ^ 56"
  proof (intro allI impI)
    fix r p
    assume "upd_source (role_destination r) = Some (Src_File p)"
    then show "length p \<le> 2 ^ 56" using length_role_destination [of r] upd_source_content by fastforce
  qed
  show "\<forall>i. hex_digest i \<longrightarrow> (\<exists>b. (Some \<circ> m_set_id) (manifest_of upd_crypto upd_source slot i) = Some b
     \<and> upd_json slot b = Some (manifest_of upd_crypto upd_source slot i) \<and> length b \<le> 1024 * 1024)"
    by (simp add: manifest_of_def upd_json_def hex_digest_def)
  show "upd_pub = public_of upd_signer (pk_alg demo_key) (pk_sk demo_key)"
    by (simp add: upd_pub_def demo_key_def)
qed

lemma upd_bundle:
  assumes "slot \<in> {CHR ''A'', CHR ''B''}"
  shows "\<exists>out v i. check_bundle upd_crypto (upd_json slot) (Some out) (Some upd_pub) = Inr v
    \<and> v_manifest v = manifest_of upd_crypto upd_source slot i"
  using prepared_bundle [OF upd_signer_ok upd_can_sign upd_prems(1) assms upd_sources upd_prems(2,3,4)]
  by blast

theorem manifest_accepts_exactly_witness:
  "let m = manifest_of upd_crypto upd_source (CHR ''A'') (replicate 128 (CHR ''0'')) in
   parse_manifest (\<lambda>_. Some m) [] = Inr m \<and> sort (map e_role (m_files m)) = hd full_role_lists"
proof -
  let ?m = "manifest_of upd_crypto upd_source (CHR ''A'') (replicate 128 (CHR ''0''))"
  have hex: "hex_digest (replicate 128 (CHR ''0''))"
    by (simp add: hex_digest_def list_all_iff is_hexdigit_def is_digit_def ord_def)
  have roles: "map e_role (m_files ?m) = [Bootloader, Kernel, Initrd, Rescue, Config]"
    by (simp add: manifest_of_def prepare_roles_def upd_source_def required_roles_def)
  have "\<forall>e\<in>set (m_files ?m). e = entry_for (e_role e) (e_sha512 e) \<and> hex_digest (e_sha512 e)"
    using hex_lower_digest(1) upd_digest_length by (auto simp: manifest_of_def)
  moreover have "sort (map e_role (m_files ?m)) = hd full_role_lists"
    unfolding roles by (simp add: full_role_lists_def less_eq_role_def)
  ultimately show ?thesis
    using manifest_accepts_exactly [of "\<lambda>_. Some ?m" "[]" ?m] hex
    by (simp add: Let_def manifest_of_def full_role_lists_def)
qed


theorem prepared_bundle_checks_witness:
  "\<exists>out v. prepare_with_key upd_crypto upd_signer (upd_json (CHR ''A'')) (Some \<circ> m_set_id) True (CHR ''A'')
      upd_source demo_key (Some upd_pub) = (Inr (), Some out)
    \<and> check_bundle upd_crypto (upd_json (CHR ''A'')) (Some out) (Some upd_pub) = Inr v
    \<and> map_of out ''kernel'' = Some (File_Node ''kernel'')"
proof -
  have s: "CHR ''A'' \<in> {CHR ''A'', CHR ''B''}" by simp
  have k: "upd_source (role_destination Kernel) = Some (Src_File ''kernel'')"
    by (simp add: upd_source_def required_roles_def)
  from prepared_bundle_checks [OF upd_signer_ok upd_can_sign upd_prems(1) s upd_sources upd_prems(2,3,4)] k
  show ?thesis by (metis role_destination.simps(2))
qed

end
