(* ===== verification/Slot_Transaction.thy ===== *)
theory Slot_Transaction
  imports Boot_Bundle "HOL-Library.AList"
begin

text \<open>
  The installation of a boot set into one of two slots, \<open>transaction.rs\<close> and \<open>protocol.rs\<close> of the
  crate \<open>nmbl-boot-update\<close>. The directory \<open>nmbl-boot-sets\<close> is a map from names to nodes. Every
  call that changes it is one effect, and a \<open>fate\<close> says for each effect whether it succeeds, fails
  or is cut off by a loss of power, and how far it got. A completed effect is taken to last: the
  order in which a disk without barriers may lose finished writes is not modelled.
\<close>

subsection \<open>Effects\<close>

text \<open>A link carries what it resolves to, nothing when it dangles.\<close>

datatype root_node = Dir_Node bundle_dir | Text_Node bytes | Link_Node "root_node option"

type_synonym root_tree = "string \<Rightarrow> root_node option"

datatype fate = Fine | Fails nat | Cut nat

datatype stop = Err update_error | Power_Lost

record io_state =
  tree :: root_tree
  clock :: nat

type_synonym 'a run = "io_state \<Rightarrow> (stop + 'a) \<times> io_state"

definition give :: "'a \<Rightarrow> 'a run" where
  "give a s = (Inr a, s)"

definition throw :: "update_error \<Rightarrow> 'a run" where
  "throw e s = (Inl (Err e), s)"

definition and_then :: "'a run \<Rightarrow> ('a \<Rightarrow> 'b run) \<Rightarrow> 'b run" where
  "and_then m f s = (case m s of (Inl e, s') \<Rightarrow> (Inl e, s') | (Inr a, s') \<Rightarrow> f a s')"

definition lift_pure :: "update_error + 'a \<Rightarrow> 'a run" where
  "lift_pure r = (case r of Inl e \<Rightarrow> throw e | Inr a \<Rightarrow> give a)"

definition get_tree :: "root_tree run" where
  "get_tree s = (Inr (tree s), s)"

text \<open>\<open>done\<close> is what a completed call makes of the tree, \<open>part k\<close> what an interrupted one leaves.\<close>

definition effect ::
  "(nat \<Rightarrow> fate) \<Rightarrow> (root_tree \<Rightarrow> root_tree) \<Rightarrow> (nat \<Rightarrow> root_tree \<Rightarrow> root_tree) \<Rightarrow> unit run" where
  "effect fate full part s =
     (case fate (clock s) of
        Fine \<Rightarrow> (Inr (), s\<lparr>tree := full (tree s), clock := clock s + 1\<rparr>)
      | Fails k \<Rightarrow> (Inl (Err (Upd_Io ''io'')), s\<lparr>tree := part k (tree s), clock := clock s + 1\<rparr>)
      | Cut k \<Rightarrow> (Inl Power_Lost, s\<lparr>tree := part k (tree s), clock := clock s + 1\<rparr>))"

definition quiet :: "(nat \<Rightarrow> fate) \<Rightarrow> unit run" where
  "quiet fate = effect fate id (\<lambda>_. id)"

definition atomic :: "(nat \<Rightarrow> fate) \<Rightarrow> (root_tree \<Rightarrow> root_tree) \<Rightarrow> unit run" where
  "atomic fate f = effect fate f (\<lambda>_. id)"

subsection \<open>Reading\<close>

fun resolve_node :: "root_node option \<Rightarrow> root_node option" where
  "resolve_node None = None"
| "resolve_node (Some (Link_Node n)) = resolve_node n"
| "resolve_node (Some n) = Some n"

text \<open>\<open>Path::exists\<close>.\<close>

definition node_exists :: "root_tree \<Rightarrow> string \<Rightarrow> bool" where
  "node_exists t name \<longleftrightarrow> resolve_node (t name) \<noteq> None"

definition opened_dir :: "root_tree \<Rightarrow> string \<Rightarrow> bundle_dir option" where
  "opened_dir t name = (case resolve_node (t name) of Some (Dir_Node d) \<Rightarrow> Some d | _ \<Rightarrow> None)"

definition selector_text :: "char \<Rightarrow> bytes" where
  "selector_text slot = ''set nmbl_slot='' @ [slot, newline]"

definition read_active :: "root_tree \<Rightarrow> update_error + char option" where
  "read_active t =
     (case resolve_node (t ''active'') of
        None \<Rightarrow> Inr None
      | Some (Text_Node v) \<Rightarrow>
          if \<not> valid_utf8 v then Inl (Upd_Io ''read active selector'')
          else if v = selector_text (CHR ''A'') then Inr (Some (CHR ''A''))
          else if v = selector_text (CHR ''B'') then Inr (Some (CHR ''B''))
          else Inl (Invalid ''active selector is malformed'')
      | Some _ \<Rightarrow> Inl (Upd_Io ''read active selector''))"

text \<open>\<open>blocks\<close> is the number of 512 byte blocks the filesystem reports for a file.\<close>

fun allocated_entries :: "(bytes \<Rightarrow> nat) \<Rightarrow> nat \<Rightarrow> bundle_dir \<Rightarrow> update_error + nat" where
  "allocated_entries blocks acc [] = Inr acc"
| "allocated_entries blocks acc ((_, File_Node b) # es) =
     allocated_entries blocks (sat_add u64_max acc (min u64_max (blocks b * 512))) es"
| "allocated_entries blocks acc ((_, Other_Node) # es) = Inl (Invalid ''inactive slot contains non-file'')"

definition allocated_tree :: "(bytes \<Rightarrow> nat) \<Rightarrow> root_tree \<Rightarrow> string \<Rightarrow> update_error + nat" where
  "allocated_tree blocks t name =
     (case resolve_node (t name) of
        None \<Rightarrow> Inr 0
      | Some (Dir_Node d) \<Rightarrow> allocated_entries blocks 0 d
      | Some _ \<Rightarrow> Inl (Upd_Io ''read inactive slot''))"

subsection \<open>Changing\<close>

definition edit_dir :: "string \<Rightarrow> (bundle_dir \<Rightarrow> bundle_dir) \<Rightarrow> root_tree \<Rightarrow> root_tree" where
  "edit_dir name f t =
     (case t name of Some (Dir_Node d) \<Rightarrow> t(name := Some (Dir_Node (f d))) | _ \<Rightarrow> t)"

definition sync_dir :: "(nat \<Rightarrow> fate) \<Rightarrow> unit run" where
  "sync_dir fate = quiet fate"

text \<open>An interrupted \<open>remove_dir_all\<close> has removed the first \<open>k\<close> entries.\<close>

definition remove_dir_all :: "(nat \<Rightarrow> fate) \<Rightarrow> string \<Rightarrow> unit run" where
  "remove_dir_all fate name = effect fate (\<lambda>t. t(name := None)) (\<lambda>k. edit_dir name (drop k))"

definition remove_confined :: "(nat \<Rightarrow> fate) \<Rightarrow> string \<Rightarrow> unit run" where
  "remove_confined fate name =
     and_then get_tree (\<lambda>t.
     if \<not> node_exists t name then give ()
     else case t name of
            Some (Dir_Node _) \<Rightarrow> remove_dir_all fate name
          | _ \<Rightarrow> throw (Invalid ''boot slot is not a plain directory''))"

text \<open>\<open>create_new\<close>, the write, \<open>sync_all\<close>; an interrupted write leaves a prefix.\<close>

definition create_member :: "(nat \<Rightarrow> fate) \<Rightarrow> string \<Rightarrow> string \<Rightarrow> unit run" where
  "create_member fate dir name =
     and_then get_tree (\<lambda>t.
     case t dir of
       Some (Dir_Node d) \<Rightarrow>
         if map_of d name = None then atomic fate (edit_dir dir (AList.update name (File_Node [])))
         else throw (Upd_Io ''create'')
     | _ \<Rightarrow> throw (Upd_Io ''create''))"

definition fill_member :: "(nat \<Rightarrow> fate) \<Rightarrow> string \<Rightarrow> string \<Rightarrow> bytes \<Rightarrow> unit run" where
  "fill_member fate dir name b =
     effect fate (edit_dir dir (AList.update name (File_Node b)))
       (\<lambda>k. edit_dir dir (AList.update name (File_Node (take k b))))"

definition write_bytes :: "(nat \<Rightarrow> fate) \<Rightarrow> string \<Rightarrow> string \<Rightarrow> bytes \<Rightarrow> unit run" where
  "write_bytes fate dir name b =
     and_then (create_member fate dir name) (\<lambda>_.
     and_then (fill_member fate dir name b) (\<lambda>_.
     quiet fate))"

definition copy_open :: "(nat \<Rightarrow> fate) \<Rightarrow> bytes \<Rightarrow> string \<Rightarrow> string \<Rightarrow> nat \<Rightarrow> unit run" where
  "copy_open fate source dir name expected =
     and_then (create_member fate dir name) (\<lambda>_.
     and_then (fill_member fate dir name source) (\<lambda>_.
     if length source \<noteq> expected then throw (Invalid ''artifact changed while copying'')
     else quiet fate))"

text \<open>The loop of \<open>stage_bundle\<close>; \<open>again i\<close> is what the two descriptors of artefact \<open>i\<close> read now.\<close>

fun stage_artifacts ::
  "(nat \<Rightarrow> fate) \<Rightarrow> string \<Rightarrow> entry list \<Rightarrow> nat option \<Rightarrow> (nat \<Rightarrow> bytes \<times> bytes) \<Rightarrow> nat
   \<Rightarrow> artifact list \<Rightarrow> unit run" where
  "stage_artifacts fate stage files fail_after again written [] = give ()"
| "stage_artifacts fate stage files fail_after again written (a # as) =
     (if fail_after = Some written then throw (Upd_Io ''injected staged-write failure'')
      else
        and_then (lift_pure (ok_or (Invalid ''artifact index out of range'') (get_at files (a_entry_index a)))) (\<lambda>e.
        and_then (quiet fate) (\<lambda>_.
        and_then (quiet fate) (\<lambda>_.
        and_then (copy_open fate (fst (again written)) stage (e_destination e) (a_payload_len a)) (\<lambda>_.
        and_then (copy_open fate (snd (again written)) stage (e_signature e) (a_signature_len a)) (\<lambda>_.
        stage_artifacts fate stage files fail_after again (written + 1) as))))))"

definition stage_bundle ::
  "(nat \<Rightarrow> fate) \<Rightarrow> string \<Rightarrow> nat option \<Rightarrow> (nat \<Rightarrow> bytes \<times> bytes) \<Rightarrow> validated_bundle \<Rightarrow> unit run" where
  "stage_bundle fate stage fail_after again v =
     and_then (write_bytes fate stage ''manifest.json'' (v_manifest_bytes v)) (\<lambda>_.
     and_then (write_bytes fate stage ''manifest.json.sig'' (v_manifest_signature v)) (\<lambda>_.
     stage_artifacts fate stage (m_files (v_manifest v)) fail_after again 0 (v_artifacts v)))"

text \<open>The selector: \<open>active.new\<close> is written beside it and renamed over it.\<close>

definition write_selector :: "(nat \<Rightarrow> fate) \<Rightarrow> char \<Rightarrow> unit run" where
  "write_selector fate slot =
     and_then get_tree (\<lambda>t.
     and_then (if node_exists t ''active.new''
               then (case t ''active.new'' of
                       Some (Dir_Node _) \<Rightarrow> throw (Upd_Io ''remove stale selector'')
                     | _ \<Rightarrow> atomic fate (\<lambda>t. t(''active.new'' := None)))
               else give ()) (\<lambda>_.
     and_then get_tree (\<lambda>t.
     and_then (if t ''active.new'' \<noteq> None then throw (Upd_Io ''create staged metadata'')
               else atomic fate (\<lambda>t. t(''active.new'' := Some (Text_Node [])))) (\<lambda>_.
     and_then (effect fate (\<lambda>t. t(''active.new'' := Some (Text_Node (selector_text slot))))
       (\<lambda>k t. t(''active.new'' := Some (Text_Node (take k (selector_text slot)))))) (\<lambda>_.
     and_then (quiet fate) (\<lambda>_.
     and_then get_tree (\<lambda>t.
     and_then (case t ''active'' of
                 Some (Dir_Node _) \<Rightarrow> throw (Upd_Io ''activate boot set'')
               | _ \<Rightarrow> atomic fate (\<lambda>t. t(''active'' := t ''active.new'', ''active.new'' := None))) (\<lambda>_.
     sync_dir fate))))))))"

subsection \<open>The transaction\<close>

datatype outcome = Activated char | Unchanged char

record limits =
  available_bytes :: "nat option"
  fail_after_files :: "nat option"

text \<open>What the host answers: the free bytes of the boot filesystem, nothing when \<open>statvfs\<close> fails.\<close>

definition preflight ::
  "(nat \<Rightarrow> fate) \<Rightarrow> (bytes \<Rightarrow> nat) \<Rightarrow> nat option \<Rightarrow> char \<Rightarrow> nat \<Rightarrow> limits \<Rightarrow> unit run" where
  "preflight fate blocks free inactive need limits =
     and_then get_tree (\<lambda>t.
     and_then (lift_pure (ok_or (Upd_Io ''stat boot filesystem'') free)) (\<lambda>f.
     let available = (case available_bytes limits of Some a \<Rightarrow> a | None \<Rightarrow> f)
     in if available \<ge> need then give ()
        else and_then (lift_pure (allocated_tree blocks t [inactive])) (\<lambda>reclaim.
             if sat_add u64_max available reclaim < need
             then throw (Invalid ''insufficient boot space'')
             else remove_confined fate [inactive])))"

definition inactive_slot :: "char option \<Rightarrow> char" where
  "inactive_slot active = (if active = Some (CHR ''A'') then CHR ''B'' else CHR ''A'')"

definition stage_name :: "char \<Rightarrow> string" where
  "stage_name slot = slot # ''.new''"

text \<open>The slot that is selected already holds this very manifest and still checks.\<close>

definition already_installed ::
  "crypto \<Rightarrow> (bytes \<Rightarrow> manifest option) \<Rightarrow> bytes option \<Rightarrow> root_tree \<Rightarrow> char \<Rightarrow> bytes \<Rightarrow> bool" where
  "already_installed cr json pub t slot manifest_bytes =
     (case opened_dir t [slot] of
        None \<Rightarrow> False
      | Some d \<Rightarrow> map_of d ''manifest.json'' \<noteq> None
          \<and> (case check_bundle cr json (Some d) pub of
               Inl _ \<Rightarrow> False | Inr v \<Rightarrow> v_manifest_bytes v = manifest_bytes))"

text \<open>The error path of the staging: the staged directory goes, whatever comes of it. A loss of
  power leaves it.\<close>

definition or_discard :: "(nat \<Rightarrow> fate) \<Rightarrow> string \<Rightarrow> unit run \<Rightarrow> unit run" where
  "or_discard fate stage m s =
     (case m s of
        (Inl (Err e), s') \<Rightarrow>
          (case remove_dir_all fate stage s' of
             (Inl Power_Lost, s'') \<Rightarrow> (Inl Power_Lost, s'')
           | (_, s'') \<Rightarrow> (Inl (Err e), s''))
      | r \<Rightarrow> r)"

record host =
  h_fate :: "nat \<Rightarrow> fate"
  h_blocks :: "bytes \<Rightarrow> nat"
  h_free :: "nat option"
  h_public :: "bytes option"
  h_limits :: limits
  h_again :: "nat \<Rightarrow> bytes \<times> bytes"

text \<open>From the choice of the slot to its publication; then the selector.\<close>

definition publish ::
  "crypto \<Rightarrow> (bytes \<Rightarrow> manifest option) \<Rightarrow> host \<Rightarrow> validated_bundle \<Rightarrow> char \<Rightarrow> unit run" where
  "publish cr json h v inactive =
     (let fate = h_fate h; stage = stage_name inactive in
     and_then (preflight fate (h_blocks h) (h_free h) inactive (v_allocated_bytes v) (h_limits h)) (\<lambda>_.
     and_then (remove_confined fate stage) (\<lambda>_.
     and_then get_tree (\<lambda>t.
     and_then (if t stage \<noteq> None then throw (Upd_Io ''create inactive staging slot'')
               else atomic fate (\<lambda>t. t(stage := Some (Dir_Node [])))) (\<lambda>_.
     and_then (or_discard fate stage
       (stage_bundle fate stage (fail_after_files (h_limits h)) (h_again h) v)) (\<lambda>_.
     and_then (sync_dir fate) (\<lambda>_.
     and_then get_tree (\<lambda>t.
     and_then (lift_pure (check_bundle cr json (opened_dir t stage) (h_public h))) (\<lambda>_.
     and_then (remove_confined fate [inactive]) (\<lambda>_.
     and_then get_tree (\<lambda>t.
     and_then (if t [inactive] \<noteq> None then throw (Upd_Io ''publish inactive slot'')
               else atomic fate (\<lambda>t. t([inactive] := t stage, stage := None))) (\<lambda>_.
     sync_dir fate))))))))))))"

definition install ::
  "crypto \<Rightarrow> (bytes \<Rightarrow> manifest option) \<Rightarrow> host \<Rightarrow> bundle_dir option \<Rightarrow> outcome run" where
  "install cr json h bundle_path =
     (let fate = h_fate h in
     and_then (lift_pure (check_bundle cr json bundle_path (h_public h))) (\<lambda>v.
     and_then (quiet fate) (\<lambda>_.
     and_then (quiet fate) (\<lambda>_.
     and_then get_tree (\<lambda>t.
     and_then (lift_pure (read_active t)) (\<lambda>active.
     if (case active of None \<Rightarrow> False
         | Some slot \<Rightarrow> already_installed cr json (h_public h) t slot (v_manifest_bytes v))
     then give (Unchanged (the active))
     else
       let inactive = inactive_slot active in
       if manifest_slot (v_manifest v) \<noteq> inactive
       then throw (Invalid ''bundle targets the other slot'')
       else and_then (publish cr json h v inactive) (\<lambda>_.
            and_then (write_selector fate inactive) (\<lambda>_.
            give (Activated inactive)))))))))"

lemma run_simps [simp]:
  "and_then (give a) f = f a"
  "and_then (throw e) g = throw e"
  "lift_pure (Inr a) = give a"
  "lift_pure (Inl e) = throw e"
  by (simp_all add: fun_eq_iff and_then_def give_def throw_def lift_pure_def)

subsection \<open>Triples\<close>

text \<open>From a tree with \<open>P\<close>, a run that returns leaves \<open>Q\<close>, one that stops, by an error or a loss of
  power, leaves \<open>E\<close>.\<close>

definition triple ::
  "(root_tree \<Rightarrow> bool) \<Rightarrow> 'a run \<Rightarrow> ('a \<Rightarrow> root_tree \<Rightarrow> bool) \<Rightarrow> (root_tree \<Rightarrow> bool) \<Rightarrow> bool" where
  "triple P m Q E \<longleftrightarrow>
     (\<forall>s. P (tree s) \<longrightarrow> (case m s of (Inr a, s') \<Rightarrow> Q a (tree s') | (Inl e, s') \<Rightarrow> E (tree s')))"

named_theorems run_rules \<open>the triple of each construct\<close>

lemma triple_weaken:
  assumes "triple P' m Q' E'" "\<And>t. P t \<Longrightarrow> P' t" "\<And>a t. Q' a t \<Longrightarrow> Q a t" "\<And>t. E' t \<Longrightarrow> E t"
  shows "triple P m Q E"
  using assms by (fastforce simp: triple_def split: prod.splits sum.splits)

lemma triple_stopD: "triple P m Q E \<Longrightarrow> m s = (Inl e, s') \<Longrightarrow> P (tree s) \<Longrightarrow> E (tree s')"
  unfolding triple_def by (metis (no_types, lifting) case_prod_conv sum.case(1))

lemma triple_doneD: "triple P m Q E \<Longrightarrow> m s = (Inr a, s') \<Longrightarrow> P (tree s) \<Longrightarrow> Q a (tree s')"
  unfolding triple_def by (metis (no_types, lifting) case_prod_conv sum.case(2))

lemma triple_pre: "triple P' m Q E \<Longrightarrow> (\<And>t. P t \<Longrightarrow> P' t) \<Longrightarrow> triple P m Q E"
  by (rule triple_weaken)

lemma triple_give [run_rules]: "triple (Q a) (give a) Q E"
  by (simp add: triple_def give_def)

lemma triple_throw [run_rules]: "triple E (throw e) Q E"
  by (simp add: triple_def throw_def)

lemma triple_get [run_rules]: "triple (\<lambda>t. Q t t) get_tree Q E"
  by (simp add: triple_def get_tree_def)

lemma triple_then:
  assumes "triple P m R E" "\<And>a. triple (R a) (f a) Q E"
  shows "triple P (and_then m f) Q E"
  using assms unfolding triple_def and_then_def by (fastforce split: prod.splits sum.splits)

lemma triple_lift [run_rules]:
  "triple (\<lambda>t. case r of Inl _ \<Rightarrow> E t | Inr a \<Rightarrow> Q a t) (lift_pure r) Q E"
  by (cases r) (simp_all add: lift_pure_def triple_give triple_throw)

lemma triple_effect [run_rules]:
  "triple (\<lambda>t. Q () (full t) \<and> (\<forall>k. E (part k t))) (effect fate full part) Q E"
  by (simp add: triple_def effect_def split: fate.splits)

lemma triple_quiet [run_rules]: "triple (\<lambda>t. Q () t \<and> E t) (quiet fate) Q E"
  unfolding quiet_def by (rule triple_pre [OF triple_effect]) simp

lemma triple_atomic [run_rules]: "triple (\<lambda>t. Q () (f t) \<and> E t) (atomic fate f) Q E"
  unfolding atomic_def by (rule triple_pre [OF triple_effect]) simp

lemma triple_sync [run_rules]: "triple (\<lambda>t. Q () t \<and> E t) (sync_dir fate) Q E"
  unfolding sync_dir_def by (rule triple_quiet)

lemma triple_if:
  assumes "b \<Longrightarrow> triple P m Q E" "\<not> b \<Longrightarrow> triple P' m' Q E"
  shows "triple (\<lambda>t. if b then P t else P' t) (if b then m else m') Q E"
  using assms by (cases b) simp_all

text \<open>Frames: what an operation does not name it leaves alone.\<close>

definition frames :: "string set \<Rightarrow> 'a run \<Rightarrow> bool" where
  "frames N m \<longleftrightarrow> (\<forall>s n. n \<notin> N \<longrightarrow> tree (snd (m s)) n = tree s n)"

named_theorems frame_rules \<open>what each construct leaves alone\<close>

lemma frames_mono: "frames M m \<Longrightarrow> M \<subseteq> N \<Longrightarrow> frames N m"
  by (auto simp: frames_def)

lemma frames_basic [frame_rules]:
  "frames N (give a)" "frames N (throw e)" "frames N get_tree" "frames N (quiet fate)" "frames N (sync_dir fate)"
  by (simp_all add: frames_def give_def throw_def get_tree_def quiet_def sync_dir_def effect_def split: fate.splits)

lemma frames_lift [frame_rules]: "frames N (lift_pure r)"
  by (cases r) (simp_all add: lift_pure_def frames_basic)

lemma frames_then [frame_rules]:
  assumes "frames N m" "\<And>a. frames N (f a)"
  shows "frames N (and_then m f)"
  using assms unfolding frames_def and_then_def by (auto split: prod.splits sum.splits) (metis snd_conv)+

lemma frames_effect:
  assumes "\<And>t n. n \<notin> N \<Longrightarrow> full t n = t n" "\<And>k t n. n \<notin> N \<Longrightarrow> part k t n = t n"
  shows "frames N (effect fate full part)"
  using assms by (simp add: frames_def effect_def split: fate.splits)

lemma frames_atomic: "(\<And>t n. n \<notin> N \<Longrightarrow> f t n = t n) \<Longrightarrow> frames N (atomic fate f)"
  unfolding atomic_def by (rule frames_effect) simp_all

lemma frames_if [frame_rules]: "frames N m \<Longrightarrow> frames N m' \<Longrightarrow> frames N (if b then m else m')"
  by simp

lemma edit_dir_other [simp]: "n \<noteq> name \<Longrightarrow> edit_dir name f t n = t n"
  by (auto simp: edit_dir_def split: option.splits root_node.splits)

lemma edit_dir_frame [simp]: "name \<in> N \<Longrightarrow> n \<notin> N \<Longrightarrow> edit_dir name f t n = t n"
  by (rule edit_dir_other) auto

lemma frames_atomic_upd [frame_rules]:
  "x \<in> N \<Longrightarrow> frames N (atomic fate (\<lambda>t. t(x := f t)))"
  "x \<in> N \<Longrightarrow> y \<in> N \<Longrightarrow> frames N (atomic fate (\<lambda>t. t(x := f t, y := g t)))"
  by (rule frames_atomic; auto)+

lemma frames_remove [frame_rules]: "name \<in> N \<Longrightarrow> frames N (remove_dir_all fate name)"
  unfolding remove_dir_all_def by (rule frames_effect) auto

lemma frames_remove_confined [frame_rules]: "name \<in> N \<Longrightarrow> frames N (remove_confined fate name)"
  unfolding remove_confined_def
  by (intro frame_rules) (auto intro: frame_rules split: option.splits root_node.splits)

lemma frames_create_member [frame_rules]: "dir \<in> N \<Longrightarrow> frames N (create_member fate dir name)"
  unfolding create_member_def
  by (intro frame_rules) (auto intro!: frame_rules frames_atomic split: option.splits root_node.splits)

lemma frames_fill_member [frame_rules]: "dir \<in> N \<Longrightarrow> frames N (fill_member fate dir name b)"
  unfolding fill_member_def by (rule frames_effect) auto

lemma frames_write_bytes [frame_rules]: "dir \<in> N \<Longrightarrow> frames N (write_bytes fate dir name b)"
  unfolding write_bytes_def by (intro frame_rules)

lemma frames_copy_open [frame_rules]: "dir \<in> N \<Longrightarrow> frames N (copy_open fate b dir name n)"
  unfolding copy_open_def by (intro frame_rules)

lemma frames_stage_artifacts [frame_rules]:
  "dir \<in> N \<Longrightarrow> frames N (stage_artifacts fate dir files fail_after again i as)"
  by (induction as arbitrary: i) (auto intro!: frame_rules)

lemma frames_stage_bundle [frame_rules]: "dir \<in> N \<Longrightarrow> frames N (stage_bundle fate dir fail_after again v)"
  unfolding stage_bundle_def by (intro frame_rules)

lemma frames_or_discard [frame_rules]:
  "stage \<in> N \<Longrightarrow> frames N m \<Longrightarrow> frames N (or_discard fate stage m)"
  using frames_remove [of stage N fate]
  by (auto simp: frames_def or_discard_def split: prod.splits sum.splits stop.splits) (metis snd_conv)+

lemma frames_preflight [frame_rules]:
  "[inactive] \<in> N \<Longrightarrow> frames N (preflight fate blocks free inactive need limits)"
  unfolding preflight_def Let_def by (intro frame_rules)

lemma frames_publish: "frames {[inactive], stage_name inactive} (publish cr json h v inactive)"
  unfolding publish_def Let_def by (intro frame_rules) auto

lemma frames_write_selector: "frames {''active'', ''active.new''} (write_selector fate slot)"
  unfolding write_selector_def
  by (intro frame_rules frames_effect; (simp split: option.split root_node.split; intro conjI allI impI)?;
      (intro frame_rules)?; simp?)

subsection \<open>The staged copy\<close>

lemma triple_frame:
  assumes "frames N m" "\<And>t t'. \<forall>n. n \<notin> N \<longrightarrow> t' n = t n \<Longrightarrow> P t \<Longrightarrow> P t'"
  shows "triple P m (\<lambda>_. P) P"
  using assms unfolding triple_def frames_def by (auto split: prod.splits sum.splits) (metis snd_conv)+

definition staged :: "string \<Rightarrow> bytes \<Rightarrow> root_tree \<Rightarrow> bool" where
  "staged stage mb t \<longleftrightarrow>
     (\<exists>d. t stage = Some (Dir_Node d) \<and> map_of d ''manifest.json'' = Some (File_Node mb))"

definition is_plain_dir :: "string \<Rightarrow> root_tree \<Rightarrow> bool" where
  "is_plain_dir stage t \<longleftrightarrow> (\<exists>d. t stage = Some (Dir_Node d))"

lemma edit_dir_same: "t name = Some (Dir_Node d) \<Longrightarrow> edit_dir name f t name = Some (Dir_Node (f d))"
  by (simp add: edit_dir_def)

lemma triple_create_member:
  "triple (is_plain_dir dir) (create_member fate dir name) (\<lambda>_. is_plain_dir dir) (\<lambda>_. True)"
  unfolding create_member_def
  by (rule triple_then [OF triple_get])
    (auto simp: is_plain_dir_def edit_dir_same intro!: triple_pre [OF triple_atomic] triple_pre [OF triple_throw]
      split: option.splits root_node.splits)

lemma triple_create_member_staged:
  "name \<noteq> ''manifest.json'' \<Longrightarrow>
   triple (staged dir mb) (create_member fate dir name) (\<lambda>_. staged dir mb) (\<lambda>_. True)"
  unfolding create_member_def
  by (rule triple_then [OF triple_get])
    (auto simp: staged_def edit_dir_same update_conv' intro!: triple_pre [OF triple_atomic] triple_pre [OF triple_throw]
      split: option.splits root_node.splits)

lemma triple_fill_manifest:
  "triple (is_plain_dir dir) (fill_member fate dir ''manifest.json'' mb) (\<lambda>_. staged dir mb) (\<lambda>_. True)"
  unfolding fill_member_def
  by (rule triple_pre [OF triple_effect]) (auto simp: is_plain_dir_def staged_def edit_dir_same update_conv')

lemma triple_fill_staged:
  "name \<noteq> ''manifest.json'' \<Longrightarrow>
   triple (staged dir mb) (fill_member fate dir name b) (\<lambda>_. staged dir mb) (\<lambda>_. True)"
  unfolding fill_member_def
  by (rule triple_pre [OF triple_effect]) (auto simp: staged_def edit_dir_same update_conv')

lemma triple_quiet_keeps: "triple P (quiet fate) (\<lambda>_. P) (\<lambda>_. True)"
  by (rule triple_pre [OF triple_quiet]) simp

lemma triple_write_manifest:
  "triple (is_plain_dir dir) (write_bytes fate dir ''manifest.json'' mb) (\<lambda>_. staged dir mb) (\<lambda>_. True)"
  unfolding write_bytes_def
  by (intro triple_then [OF triple_create_member] triple_then [OF triple_fill_manifest] triple_quiet_keeps)

lemma triple_write_staged:
  "name \<noteq> ''manifest.json'' \<Longrightarrow>
   triple (staged dir mb) (write_bytes fate dir name b) (\<lambda>_. staged dir mb) (\<lambda>_. True)"
  unfolding write_bytes_def
  by (intro triple_then [OF triple_create_member_staged] triple_then [OF triple_fill_staged] triple_quiet_keeps)

lemma triple_copy_staged:
  "name \<noteq> ''manifest.json'' \<Longrightarrow>
   triple (staged dir mb) (copy_open fate b dir name n) (\<lambda>_. staged dir mb) (\<lambda>_. True)"
  unfolding copy_open_def
  by (intro triple_then [OF triple_create_member_staged] triple_then [OF triple_fill_staged])
    (auto intro: triple_quiet_keeps triple_pre [OF triple_throw])

lemma triple_stage_artifacts:
  assumes "\<forall>e\<in>set files. e_destination e \<noteq> ''manifest.json'' \<and> e_signature e \<noteq> ''manifest.json''"
  shows "triple (staged dir mb) (stage_artifacts fate dir files fail_after again i as) (\<lambda>_. staged dir mb) (\<lambda>_. True)"
proof (induction as arbitrary: i)
  case Nil
  show ?case using triple_give [of "\<lambda>_. staged dir mb"] by simp
next
  case (Cons a as)
  show ?case
  proof (cases "fail_after = Some i \<or> get_at files (a_entry_index a) = None")
    case True
    then show ?thesis by (auto intro: triple_pre [OF triple_throw])
  next
    case False
    then obtain e where e: "get_at files (a_entry_index a) = Some e" by auto
    then have "e \<in> set files" by (auto simp: get_at_Some_iff)
    then have n: "e_destination e \<noteq> ''manifest.json''" "e_signature e \<noteq> ''manifest.json''" using assms by auto
    have "triple (staged dir mb)
        (and_then (quiet fate) (\<lambda>_. and_then (quiet fate) (\<lambda>_.
         and_then (copy_open fate (fst (again i)) dir (e_destination e) (a_payload_len a)) (\<lambda>_.
         and_then (copy_open fate (snd (again i)) dir (e_signature e) (a_signature_len a)) (\<lambda>_.
         stage_artifacts fate dir files fail_after again (i + 1) as)))))
        (\<lambda>_. staged dir mb) (\<lambda>_. True)"
      by (intro triple_then [OF triple_quiet_keeps] triple_then [OF triple_copy_staged] n Cons.IH)
    with False e show ?thesis by simp
  qed
qed

lemma triple_stage_bundle:
  assumes "\<forall>e\<in>set (m_files (v_manifest v)). e_destination e \<noteq> ''manifest.json'' \<and> e_signature e \<noteq> ''manifest.json''"
  shows "triple (is_plain_dir dir) (stage_bundle fate dir fail_after again v)
    (\<lambda>_. staged dir (v_manifest_bytes v)) (\<lambda>_. True)"
  unfolding stage_bundle_def
  by (intro triple_then [OF triple_write_manifest] triple_then [OF triple_write_staged]
      triple_stage_artifacts assms) simp

lemma triple_or_discard:
  "triple P m Q (\<lambda>_. True) \<Longrightarrow> triple P (or_discard fate stage m) Q (\<lambda>_. True)"
  unfolding triple_def or_discard_def by (fastforce split: prod.splits sum.splits stop.splits)

subsection \<open>Publication\<close>

text \<open>A slot holds a boot set that checks, with this manifest.\<close>

definition slot_holds ::
  "crypto \<Rightarrow> (bytes \<Rightarrow> manifest option) \<Rightarrow> bytes option \<Rightarrow> char \<Rightarrow> bytes \<Rightarrow> root_tree \<Rightarrow> bool" where
  "slot_holds cr json pub slot mb t \<longleftrightarrow>
     (\<exists>d v. t [slot] = Some (Dir_Node d) \<and> check_bundle cr json (Some d) pub = Inr v
        \<and> v_manifest_bytes v = mb)"

definition checked_stage ::
  "crypto \<Rightarrow> (bytes \<Rightarrow> manifest option) \<Rightarrow> bytes option \<Rightarrow> string \<Rightarrow> bytes \<Rightarrow> root_tree \<Rightarrow> bool" where
  "checked_stage cr json pub stage mb t \<longleftrightarrow>
     (\<exists>d v. t stage = Some (Dir_Node d) \<and> check_bundle cr json (Some d) pub = Inr v
        \<and> v_manifest_bytes v = mb)"

lemma opened_plain: "t name = Some (Dir_Node d) \<Longrightarrow> opened_dir t name = Some d"
  by (simp add: opened_dir_def)

lemma check_bundle_manifest:
  "check_bundle cr json (Some d) pub = Inr v \<Longrightarrow>
   map_of d ''manifest.json'' = Some (File_Node (v_manifest_bytes v))"
  unfolding check_bundle_iff by blast

lemma triple_check_stage:
  "triple (staged stage mb)
     (and_then get_tree (\<lambda>t. and_then (lift_pure (check_bundle cr json (opened_dir t stage) pub)) f)) Q (\<lambda>_. True)"
  if "\<And>v. triple (checked_stage cr json pub stage mb) (f v) Q (\<lambda>_. True)"
proof -
  have *: "triple (\<lambda>t'. t' = t \<and> staged stage mb t) (lift_pure (check_bundle cr json (opened_dir t stage) pub))
      (\<lambda>v. checked_stage cr json pub stage mb) (\<lambda>_. True)" for t
    by (rule triple_pre [OF triple_lift])
      (fastforce simp: staged_def checked_stage_def opened_plain dest: check_bundle_manifest split: sum.splits)
  show ?thesis
    by (rule triple_then [where R = "\<lambda>t t'. t' = t \<and> staged stage mb t"])
      (auto intro: triple_pre [OF triple_get] triple_then [OF *] that)
qed

lemma bundle_names:
  assumes "check_bundle cr json dir pub = Inr v"
  shows "\<forall>e\<in>set (m_files (v_manifest v)). e_destination e \<noteq> ''manifest.json'' \<and> e_signature e \<noteq> ''manifest.json''"
proof -
  from assms have "parse_manifest json (v_manifest_bytes v) = Inr (v_manifest v)"
    unfolding check_bundle_iff by blast
  then have "\<forall>e\<in>set (m_files (v_manifest v)). e = entry_for (e_role e) (e_sha512 e)"
    by (rule parse_manifest_InrD(3))
  then show ?thesis by (metis entry_for_simps(3,5) manifest_names(1,3))
qed

lemma triple_publish:
  assumes "check_bundle cr json dir (h_public h) = Inr v"
  shows "triple (\<lambda>_. True) (publish cr json h v slot)
    (\<lambda>_. slot_holds cr json (h_public h) slot (v_manifest_bytes v)) (\<lambda>_. True)"
proof -
  let ?mb = "v_manifest_bytes v" and ?stage = "stage_name slot" and ?pub = "h_public h"
  let ?fate = "h_fate h"
  have any: "triple (\<lambda>_. True) m (\<lambda>_ _. True) (\<lambda>_. True)" for m :: "'a run"
    by (simp add: triple_def split: prod.splits sum.splits)
  have create: "triple (\<lambda>_. True) (if b then throw e else atomic ?fate (\<lambda>t. t(?stage := Some (Dir_Node []))))
      (\<lambda>_. is_plain_dir ?stage) (\<lambda>_. True)" for b e
    by (cases b) (auto simp: is_plain_dir_def intro: triple_pre [OF triple_throw] triple_pre [OF triple_atomic])
  have last: "triple (checked_stage cr json ?pub ?stage ?mb) (remove_confined ?fate [slot])
      (\<lambda>_. checked_stage cr json ?pub ?stage ?mb) (\<lambda>_. True)"
    by (rule triple_weaken [OF triple_frame [where N = "{[slot]}"]])
      (auto simp: checked_stage_def stage_name_def intro: frame_rules)
  have rename: "triple (\<lambda>t'. t' = t \<and> checked_stage cr json ?pub ?stage ?mb t)
      (if t [slot] \<noteq> None then throw e else atomic ?fate (\<lambda>t. t([slot] := t ?stage, ?stage := None)))
      (\<lambda>_. slot_holds cr json ?pub slot ?mb) (\<lambda>_. True)" for t e
    by (auto simp: checked_stage_def slot_holds_def stage_name_def
        intro!: triple_pre [OF triple_throw] triple_pre [OF triple_atomic])
  have sync: "triple P (sync_dir ?fate) (\<lambda>_. P) (\<lambda>_. True)" for P
    by (rule triple_pre [OF triple_sync]) simp
  have get: "triple P get_tree (\<lambda>t t'. t' = t \<and> P t) (\<lambda>_. True)" for P
    by (rule triple_pre [OF triple_get]) simp
  show ?thesis
    unfolding publish_def Let_def
    by (rule triple_then [OF any], rule triple_then [OF any], rule triple_then [OF any],
        rule triple_then [OF create], rule triple_then [OF triple_or_discard [OF
          triple_stage_bundle [OF bundle_names [OF assms]]]], rule triple_then [OF sync],
        rule triple_check_stage, rule triple_then [OF last], rule triple_then [OF get],
        rule triple_then [OF rename], rule sync)
qed

subsection \<open>Safety\<close>

definition selects :: "root_node option \<Rightarrow> char \<Rightarrow> root_node option \<Rightarrow> bool" where
  "selects old slot n \<longleftrightarrow> n = old \<or> n = Some (Text_Node (selector_text slot))"

text \<open>The selector is the old one until it is the new one; nothing else is ever there.\<close>

lemma triple_write_selector:
  "triple (\<lambda>t. t ''active'' = old) (write_selector fate slot)
     (\<lambda>_ t. t ''active'' = Some (Text_Node (selector_text slot))) (\<lambda>t. selects old slot (t ''active''))"
proof -
  let ?new = "Some (Text_Node (selector_text slot))" and ?E = "\<lambda>t. selects old slot (t ''active'')"
  let ?I = "\<lambda>t. t ''active'' = old" and ?W = "\<lambda>t. t ''active'' = old \<and> t ''active.new'' = Some (Text_Node (selector_text slot))"
  have get: "triple P get_tree (\<lambda>t t'. t' = t \<and> P t) ?E" for P
    by (rule triple_pre [OF triple_get]) simp
  have drop: "triple (\<lambda>t'. t' = t \<and> ?I t) (if b then (case t ''active.new'' of
        Some (Dir_Node _) \<Rightarrow> throw e | _ \<Rightarrow> atomic fate (\<lambda>t. t(''active.new'' := None))) else give ()) (\<lambda>_. ?I) ?E" for t b e
    by (auto simp: selects_def intro!: triple_pre [OF triple_throw] triple_pre [OF triple_atomic] triple_pre [OF triple_give]
        split: option.split root_node.split)
  have create: "triple (\<lambda>t'. t' = t \<and> ?I t) (if b then throw e else atomic fate (\<lambda>t. t(''active.new'' := Some (Text_Node []))))
      (\<lambda>_. ?I) ?E" for t b e
    by (auto simp: selects_def intro!: triple_pre [OF triple_throw] triple_pre [OF triple_atomic])
  have fill: "triple ?I (effect fate (\<lambda>t. t(''active.new'' := ?new)) (\<lambda>k t. t(''active.new'' := Some (Text_Node (f k)))))
      (\<lambda>_. ?W) ?E" for f
    by (rule triple_pre [OF triple_effect]) (simp add: selects_def)
  have quiet: "triple ?W (quiet fate) (\<lambda>_. ?W) ?E"
    by (rule triple_pre [OF triple_quiet]) (simp add: selects_def)
  have rename: "triple (\<lambda>t'. t' = t \<and> ?W t) (case t ''active'' of Some (Dir_Node _) \<Rightarrow> throw e
      | _ \<Rightarrow> atomic fate (\<lambda>t. t(''active'' := t ''active.new'', ''active.new'' := None))) (\<lambda>_ t. t ''active'' = ?new) ?E" for t e
    by (auto simp: selects_def intro!: triple_pre [OF triple_throw] triple_pre [OF triple_atomic]
        split: option.split root_node.split)
  have sync: "triple (\<lambda>t. t ''active'' = ?new) (sync_dir fate) (\<lambda>_ t. t ''active'' = ?new) ?E"
    by (rule triple_pre [OF triple_sync]) (simp add: selects_def)
  show ?thesis
    unfolding write_selector_def
    by (rule triple_then [OF get], rule triple_then [OF drop], rule triple_then [OF get],
        rule triple_then [OF create], rule triple_then [OF fill], rule triple_then [OF quiet],
        rule triple_then [OF get], rule triple_then [OF rename], rule sync)
qed

lemma read_active_selector [simp]:
  "slot \<in> {CHR ''A'', CHR ''B''} \<Longrightarrow> t ''active'' = Some (Text_Node (selector_text slot)) \<Longrightarrow>
   read_active t = Inr (Some slot)"
proof -
  assume "slot \<in> {CHR ''A'', CHR ''B''}" "t ''active'' = Some (Text_Node (selector_text slot))"
  moreover from this have "valid_utf8 (selector_text slot)"
    by (intro valid_utf8_ascii) (auto simp: selector_text_def newline_def byte_def is_ascii_def ord_def)
  ultimately show ?thesis by (auto simp: read_active_def selector_text_def)
qed

lemma read_active_slot: "read_active t = Inr (Some slot) \<Longrightarrow> slot \<in> {CHR ''A'', CHR ''B''}"
  by (auto simp: read_active_def split: option.splits root_node.splits if_splits)

lemma read_active_cong: "t' ''active'' = t ''active'' \<Longrightarrow> read_active t' = read_active t"
  by (simp add: read_active_def)

lemma inactive_other: "inactive_slot active \<in> {CHR ''A'', CHR ''B''}" "active = Some s \<Longrightarrow> inactive_slot active \<noteq> s"
  by (auto simp: inactive_slot_def)

text \<open>The boot directory is usable: nothing is selected yet, or a slot that checks.\<close>

definition bootable ::
  "crypto \<Rightarrow> (bytes \<Rightarrow> manifest option) \<Rightarrow> bytes option \<Rightarrow> root_tree \<Rightarrow> bool" where
  "bootable cr json pub t \<longleftrightarrow>
     read_active t = Inr None
     \<or> (\<exists>slot mb. read_active t = Inr (Some slot) \<and> slot_holds cr json pub slot mb t)"

text \<open>What the abstract view of the directory is: the manifest that would be booted.\<close>

definition selected ::
  "crypto \<Rightarrow> (bytes \<Rightarrow> manifest option) \<Rightarrow> bytes option \<Rightarrow> root_tree \<Rightarrow> (char \<times> bundle_dir) option" where
  "selected cr json pub t =
     (case read_active t of
        Inr (Some slot) \<Rightarrow> (case t [slot] of Some (Dir_Node d) \<Rightarrow> Some (slot, d) | _ \<Rightarrow> None)
      | _ \<Rightarrow> None)"

lemma slot_name_distinct [simp]:
  "[slot] \<noteq> ''active''" "[slot] \<noteq> ''active.new''" "''active'' \<noteq> [slot]" "''active.new'' \<noteq> [slot]"
  "[slot] \<noteq> stage_name s" "stage_name s \<noteq> [slot]" "''active'' \<noteq> stage_name s"
  by (auto simp: stage_name_def)

lemma triple_quietI: "(\<And>t. P t \<Longrightarrow> E t) \<Longrightarrow> triple P (quiet fate) (\<lambda>_. P) E"
  by (rule triple_pre [OF triple_quiet]) simp

lemma triple_get_at:
  "triple (\<lambda>t. t = t0) (f t0) Q E \<Longrightarrow> triple (\<lambda>t. t = t0) (and_then get_tree f) Q E"
  by (simp add: triple_def and_then_def get_tree_def)

lemma triple_conj:
  "triple P m Q E \<Longrightarrow> triple P' m Q' E' \<Longrightarrow>
   triple (\<lambda>t. P t \<and> P' t) m (\<lambda>a t. Q a t \<and> Q' a t) (\<lambda>t. E t \<and> E' t)"
  unfolding triple_def by (fastforce split: prod.splits sum.splits)

text \<open>What an installation leaves when it stops or fails before the switch, and after it.\<close>

definition kept :: "root_tree \<Rightarrow> root_tree \<Rightarrow> bool" where
  "kept t0 t \<longleftrightarrow> t ''active'' = t0 ''active''
     \<and> (\<forall>slot. read_active t0 = Inr (Some slot) \<longrightarrow> t [slot] = t0 [slot])"

definition switched ::
  "crypto \<Rightarrow> (bytes \<Rightarrow> manifest option) \<Rightarrow> bytes option \<Rightarrow> char \<Rightarrow> bytes \<Rightarrow> root_tree \<Rightarrow> bool" where
  "switched cr json pub slot mb t \<longleftrightarrow>
     t ''active'' = Some (Text_Node (selector_text slot)) \<and> slot_holds cr json pub slot mb t"

lemma kept_refl [simp]: "kept t t"
  by (simp add: kept_def)

lemma triple_switch:
  assumes "check_bundle cr json dir (h_public h) = Inr v" "read_active t0 = Inr active" "slot = inactive_slot active"
  shows "triple (\<lambda>t. t = t0)
    (and_then (publish cr json h v slot) (\<lambda>_. and_then (write_selector (h_fate h) slot) (\<lambda>_. give (Activated slot))))
    (\<lambda>r t. r = Activated slot \<and> switched cr json (h_public h) slot (v_manifest_bytes v) t)
    (\<lambda>t. kept t0 t \<or> switched cr json (h_public h) slot (v_manifest_bytes v) t)"
proof -
  let ?holds = "slot_holds cr json (h_public h) slot (v_manifest_bytes v)"
  have other: "s \<noteq> slot" if "active = Some s" for s
    using inactive_other(2) that assms(3) by blast
  have "triple (kept t0) (publish cr json h v slot) (\<lambda>_. kept t0) (kept t0)"
    by (rule triple_frame [OF frames_publish]) (use other assms(2) in \<open>auto simp: kept_def stage_name_def\<close>)
  from triple_conj [OF this triple_publish [OF assms(1)]]
  have pub: "triple (\<lambda>t. t = t0) (publish cr json h v slot) (\<lambda>_ t. kept t0 t \<and> ?holds t)
      (\<lambda>t. kept t0 t \<or> switched cr json (h_public h) slot (v_manifest_bytes v) t)"
    by (rule triple_weaken) auto
  let ?F = "\<lambda>t. (\<forall>s. read_active t0 = Inr (Some s) \<longrightarrow> t [s] = t0 [s]) \<and> ?holds t"
  have "triple ?F (write_selector (h_fate h) slot) (\<lambda>_. ?F) ?F"
    by (rule triple_frame [OF frames_write_selector]) (auto simp: slot_holds_def)
  from triple_conj [OF this triple_write_selector]
  have "triple (\<lambda>t. kept t0 t \<and> ?holds t) (write_selector (h_fate h) slot)
      (\<lambda>_. switched cr json (h_public h) slot (v_manifest_bytes v))
      (\<lambda>t. kept t0 t \<or> switched cr json (h_public h) slot (v_manifest_bytes v) t)"
    by (rule triple_weaken [where P' = "\<lambda>t. ?F t \<and> t ''active'' = t0 ''active''"])
      (auto simp: kept_def switched_def selects_def)
  then show ?thesis
    by (intro triple_then [OF pub] triple_then) (auto intro: triple_pre [OF triple_give])
qed

lemma triple_install:
  assumes "bootable cr json (h_public h) t0"
  shows "triple (\<lambda>t. t = t0) (install cr json h dir)
    (\<lambda>r t. \<exists>v. check_bundle cr json dir (h_public h) = Inr v \<and>
       (case r of
          Unchanged slot \<Rightarrow> t = t0 \<and> read_active t0 = Inr (Some slot)
            \<and> already_installed cr json (h_public h) t0 slot (v_manifest_bytes v)
        | Activated slot \<Rightarrow> slot = manifest_slot (v_manifest v) \<and> read_active t0 \<noteq> Inr (Some slot)
            \<and> slot \<in> {CHR ''A'', CHR ''B''} \<and> switched cr json (h_public h) slot (v_manifest_bytes v) t))
    (\<lambda>t. kept t0 t \<or> (\<exists>v. check_bundle cr json dir (h_public h) = Inr v \<and>
       (let slot = manifest_slot (v_manifest v) in read_active t0 \<noteq> Inr (Some slot)
          \<and> slot \<in> {CHR ''A'', CHR ''B''} \<and> switched cr json (h_public h) slot (v_manifest_bytes v) t)))"
    (is "triple ?P _ ?Q ?E")
proof -
  from assms obtain active where a: "read_active t0 = Inr active" by (auto simp: bootable_def)
  have stop: "triple ?P (throw e) ?Q ?E" for e by (rule triple_pre [OF triple_throw]) simp
  show ?thesis
  proof (cases "check_bundle cr json dir (h_public h)")
    case (Inl e)
    then show ?thesis using stop by (simp add: install_def)
  next
    case (Inr v)
    let ?inst = "case active of None \<Rightarrow> False
         | Some slot \<Rightarrow> already_installed cr json (h_public h) t0 slot (v_manifest_bytes v)"
    let ?slot = "inactive_slot active"
    have rest: "triple ?P (and_then (lift_pure (read_active t0)) (\<lambda>active.
     if (case active of None \<Rightarrow> False
         | Some slot \<Rightarrow> already_installed cr json (h_public h) t0 slot (v_manifest_bytes v))
     then give (Unchanged (the active))
     else if manifest_slot (v_manifest v) \<noteq> inactive_slot active
       then throw (Invalid ''bundle targets the other slot'')
       else and_then (publish cr json h v (inactive_slot active)) (\<lambda>_.
            and_then (write_selector (h_fate h) (inactive_slot active)) (\<lambda>_.
            give (Activated (inactive_slot active)))))) ?Q ?E"
    proof -
      consider "?inst" | "\<not> ?inst" "manifest_slot (v_manifest v) \<noteq> ?slot"
        | "\<not> ?inst" "manifest_slot (v_manifest v) = ?slot" by blast
      then show ?thesis
      proof cases
        case 1
        then show ?thesis
          using a Inr by (auto intro!: triple_pre [OF triple_give] split: option.splits)
      next
        case 2
        then show ?thesis using a stop by simp
      next
        case 3
        note sw = triple_switch [OF Inr a 3(2)]
        have n: "read_active t0 \<noteq> Inr (Some (manifest_slot (v_manifest v)))"
          "manifest_slot (v_manifest v) \<in> {CHR ''A'', CHR ''B''}"
          unfolding 3(2) using a inactive_other(1) [of active] inactive_other(2) [of active] by (auto simp: inactive_slot_def)
        have eq: "(case active of None \<Rightarrow> False
            | Some slot \<Rightarrow> already_installed cr json (h_public h) t0 slot (v_manifest_bytes v)) = False"
          using 3(1) by simp
        have "triple ?P
          (and_then (publish cr json h v (manifest_slot (v_manifest v))) (\<lambda>_.
            and_then (write_selector (h_fate h) (manifest_slot (v_manifest v))) (\<lambda>_.
            give (Activated (manifest_slot (v_manifest v)))))) ?Q ?E"
          by (rule triple_weaken [OF sw]) (use Inr n in \<open>auto simp: Let_def\<close>)
        then show ?thesis
          using eq by (simp add: a 3(2) [symmetric])
      qed
    qed
    show ?thesis
      using rest unfolding install_def Let_def Inr run_simps
      by (intro triple_then [OF triple_quietI] triple_get_at) simp_all
  qed
qed

subsection \<open>Refinement of an atomic switch\<close>

text \<open>The abstract view: the slot that would be booted and the manifest it holds, when it checks.\<close>

definition booted ::
  "crypto \<Rightarrow> (bytes \<Rightarrow> manifest option) \<Rightarrow> bytes option \<Rightarrow> root_tree \<Rightarrow> (char \<times> bytes) option" where
  "booted cr json pub t =
     (case read_active t of
        Inr (Some slot) \<Rightarrow>
          (case check_bundle cr json (opened_dir t [slot]) pub of
             Inr v \<Rightarrow> Some (slot, v_manifest_bytes v)
           | Inl _ \<Rightarrow> None)
      | _ \<Rightarrow> None)"

lemma slot_holds_booted:
  "read_active t = Inr (Some slot) \<Longrightarrow> slot_holds cr json pub slot mb t \<Longrightarrow> booted cr json pub t = Some (slot, mb)"
  by (auto simp: slot_holds_def booted_def opened_plain)

lemma switched_booted:
  assumes "switched cr json pub slot mb t" "slot \<in> {CHR ''A'', CHR ''B''}"
  shows "bootable cr json pub t \<and> booted cr json pub t = Some (slot, mb) \<and> read_active t = Inr (Some slot)"
proof -
  have "read_active t = Inr (Some slot)"
    using assms by (intro read_active_selector) (simp_all add: switched_def)
  with assms show ?thesis by (auto simp: bootable_def switched_def slot_holds_booted)
qed

lemma kept_booted:
  assumes "kept t0 t" "bootable cr json pub t0"
  shows "bootable cr json pub t \<and> booted cr json pub t = booted cr json pub t0"
proof -
  have r: "read_active t = read_active t0" using assms(1) by (intro read_active_cong) (simp add: kept_def)
  then have "t [slot] = t0 [slot]" if "read_active t0 = Inr (Some slot)" for slot
    using assms(1) that by (simp add: kept_def)
  then show ?thesis
    using assms(2) r by (auto simp: bootable_def booted_def slot_holds_def opened_dir_def split: sum.splits option.splits)
qed

lemma already_installed_booted:
  "read_active t = Inr (Some slot) \<Longrightarrow> already_installed cr json pub t slot mb \<Longrightarrow>
   booted cr json pub t = Some (slot, mb)"
  by (auto simp: already_installed_def booted_def split: option.splits sum.splits)

lemma install_atomic:
  assumes "bootable cr json (h_public h) (tree s)" "install cr json h dir s = (r, s')"
  shows "bootable cr json (h_public h) (tree s')
    \<and> (booted cr json (h_public h) (tree s') = booted cr json (h_public h) (tree s)
       \<or> (\<exists>v. check_bundle cr json dir (h_public h) = Inr v
            \<and> read_active (tree s) \<noteq> Inr (Some (manifest_slot (v_manifest v)))
            \<and> booted cr json (h_public h) (tree s') = Some (manifest_slot (v_manifest v), v_manifest_bytes v)))
    \<and> (\<forall>slot. r = Inr (Activated slot) \<longrightarrow> (\<exists>v. check_bundle cr json dir (h_public h) = Inr v
            \<and> booted cr json (h_public h) (tree s') = Some (slot, v_manifest_bytes v)
            \<and> read_active (tree s) \<noteq> Inr (Some slot)))
    \<and> (\<forall>slot. r = Inr (Unchanged slot) \<longrightarrow> tree s' = tree s
            \<and> (\<exists>v. check_bundle cr json dir (h_public h) = Inr v
                 \<and> booted cr json (h_public h) (tree s) = Some (slot, v_manifest_bytes v)))"
proof (cases r)
  case (Inl e)
  with triple_stopD [OF triple_install [OF assms(1)], of dir s e s'] assms(2)
  have "kept (tree s) (tree s') \<or> (\<exists>v. check_bundle cr json dir (h_public h) = Inr v \<and>
       (let slot = manifest_slot (v_manifest v) in read_active (tree s) \<noteq> Inr (Some slot)
          \<and> slot \<in> {CHR ''A'', CHR ''B''} \<and> switched cr json (h_public h) slot (v_manifest_bytes v) (tree s')))"
    by simp
  then show ?thesis
  proof
    assume k: "kept (tree s) (tree s')"
    from kept_booted [OF k assms(1)] show ?thesis by (simp add: Inl)
  next
    assume "\<exists>v. check_bundle cr json dir (h_public h) = Inr v \<and>
       (let slot = manifest_slot (v_manifest v) in read_active (tree s) \<noteq> Inr (Some slot)
          \<and> slot \<in> {CHR ''A'', CHR ''B''} \<and> switched cr json (h_public h) slot (v_manifest_bytes v) (tree s'))"
    then obtain v where v: "check_bundle cr json dir (h_public h) = Inr v"
      "read_active (tree s) \<noteq> Inr (Some (manifest_slot (v_manifest v)))"
      "manifest_slot (v_manifest v) \<in> {CHR ''A'', CHR ''B''}"
      "switched cr json (h_public h) (manifest_slot (v_manifest v)) (v_manifest_bytes v) (tree s')"
      by (auto simp: Let_def)
    from switched_booted [OF v(4,3)] v(1,2) show ?thesis unfolding Inl by simp
  qed
next
  case (Inr out)
  with triple_doneD [OF triple_install [OF assms(1)], of dir s out s'] assms(2) obtain v where v: "check_bundle cr json dir (h_public h) = Inr v"
    "case out of
        Unchanged slot \<Rightarrow> tree s' = tree s \<and> read_active (tree s) = Inr (Some slot)
          \<and> already_installed cr json (h_public h) (tree s) slot (v_manifest_bytes v)
      | Activated slot \<Rightarrow> slot = manifest_slot (v_manifest v) \<and> read_active (tree s) \<noteq> Inr (Some slot)
            \<and> slot \<in> {CHR ''A'', CHR ''B''} \<and> switched cr json (h_public h) slot (v_manifest_bytes v) (tree s')"
    by auto
  show ?thesis
  proof (cases out)
    case (Activated slot)
    with v(2) have sw: "slot = manifest_slot (v_manifest v)" "read_active (tree s) \<noteq> Inr (Some slot)"
      "switched cr json (h_public h) slot (v_manifest_bytes v) (tree s')" "slot \<in> {CHR ''A'', CHR ''B''}"
      unfolding Activated outcome.case by blast+
    from switched_booted [OF sw(3,4)] sw(1,2) v(1) show ?thesis by (simp add: Inr Activated)
  next
    case (Unchanged slot)
    with v(2) have "tree s' = tree s" "booted cr json (h_public h) (tree s) = Some (slot, v_manifest_bytes v)"
      using already_installed_booted by simp_all
    with v(1) assms(1) show ?thesis by (simp add: Inr Unchanged)
  qed
qed

text \<open>C23: an update is an atomic switch, whatever goes wrong. From a usable boot directory, an installation
  that returns, fails or loses power at any point leaves a usable one: either the same slot with the
  same manifest is booted as before, or the other slot with the manifest of the checked bundle.
  When it reports the activation the switch has happened, and when it reports no change the tree
  is as it was.\<close>

theorem update_is_atomic_switch:
  assumes "bootable cr json (h_public h) (tree s)" "install cr json h dir s = (r, s')"
  shows "bootable cr json (h_public h) (tree s')
    \<and> (booted cr json (h_public h) (tree s') = booted cr json (h_public h) (tree s)
       \<or> (\<exists>v. check_bundle cr json dir (h_public h) = Inr v
            \<and> read_active (tree s) \<noteq> Inr (Some (manifest_slot (v_manifest v)))
            \<and> booted cr json (h_public h) (tree s') = Some (manifest_slot (v_manifest v), v_manifest_bytes v)))
    \<and> (\<forall>slot. r = Inr (Activated slot) \<longrightarrow> (\<exists>v. check_bundle cr json dir (h_public h) = Inr v
            \<and> booted cr json (h_public h) (tree s') = Some (slot, v_manifest_bytes v)
            \<and> read_active (tree s) \<noteq> Inr (Some slot)))
    \<and> (\<forall>slot. r = Inr (Unchanged slot) \<longrightarrow> tree s' = tree s
            \<and> (\<exists>v. check_bundle cr json dir (h_public h) = Inr v
                 \<and> booted cr json (h_public h) (tree s) = Some (slot, v_manifest_bytes v)))"
  by (rule install_atomic [OF assms])

text \<open>Any number of attempts, each with its own bundle and its own faults.\<close>

definition attempt ::
  "crypto \<Rightarrow> (bytes \<Rightarrow> manifest option) \<Rightarrow> bytes option \<Rightarrow> root_tree \<Rightarrow> host \<times> bundle_dir option \<Rightarrow> root_tree" where
  "attempt cr json pub t e =
     tree (snd (install cr json ((fst e)\<lparr>h_public := pub\<rparr>) (snd e) \<lparr>tree = t, clock = 0\<rparr>))"

lemma bootable_attempt: "bootable cr json pub t \<Longrightarrow> bootable cr json pub (attempt cr json pub t e)"
proof -
  assume b: "bootable cr json pub t"
  let ?h = "(fst e)\<lparr>h_public := pub\<rparr>" and ?s = "\<lparr>tree = t, clock = 0\<rparr>"
  obtain r s' where run: "install cr json ?h (snd e) ?s = (r, s')" by fastforce
  have "bootable cr json pub (tree s')"
  proof (cases r)
    case (Inl stop)
    from triple_stopD [OF triple_install [of cr json ?h t] run [unfolded Inl]] b
    show ?thesis using kept_booted [OF _ b] switched_booted by (auto simp: Let_def)
  next
    case (Inr out)
    from triple_doneD [OF triple_install [of cr json ?h t] run [unfolded Inr]] b
    show ?thesis using switched_booted by (fastforce split: outcome.splits)
  qed
  then show ?thesis by (simp add: attempt_def run)
qed

interpretation slots: guarded_machine "attempt cr json pub" "bootable cr json pub" for cr json pub
  by unfold_locales (rule bootable_attempt)

subsection \<open>An undisturbed update\<close>

text \<open>With every effect fine, a run that cannot stop: a triple whose third part is false.\<close>

abbreviation returns :: "(root_tree \<Rightarrow> bool) \<Rightarrow> 'a run \<Rightarrow> ('a \<Rightarrow> root_tree \<Rightarrow> bool) \<Rightarrow> bool" where
  "returns P m Q \<equiv> triple P m Q (\<lambda>_. False)"

lemma returns_effect:
  "returns (\<lambda>t. Q () (full t)) (effect (\<lambda>_. Fine) full part) Q"
  by (simp add: triple_def effect_def)

lemma returns_atomic: "returns (\<lambda>t. Q () (f t)) (atomic (\<lambda>_. Fine) f) Q"
  unfolding atomic_def by (rule returns_effect)

lemma returns_quiet: "returns P (quiet (\<lambda>_. Fine)) (\<lambda>_. P)" "returns P (sync_dir (\<lambda>_. Fine)) (\<lambda>_. P)"
  unfolding quiet_def sync_dir_def by (rule triple_pre [OF returns_effect], simp)+

text \<open>The staged directory agrees with the bundle on the names written so far and has no others.\<close>

definition staging :: "string \<Rightarrow> bundle_dir \<Rightarrow> string set \<Rightarrow> root_tree \<Rightarrow> bool" where
  "staging stage b W t \<longleftrightarrow> (\<exists>d. t stage = Some (Dir_Node d) \<and> map_of d = map_of b |` W)"

lemma returns_create_member:
  assumes "name \<notin> W"
  shows "returns (staging dir b W) (create_member (\<lambda>_. Fine) dir name)
    (\<lambda>_ t. \<exists>d. t dir = Some (Dir_Node d) \<and> map_of d = (map_of b |` W)(name \<mapsto> File_Node []))"
  using assms
  by (auto simp: create_member_def triple_def and_then_def get_tree_def staging_def atomic_def effect_def
      edit_dir_same update_conv')

lemma returns_fill_member:
  assumes "map_of b name = Some (File_Node c)"
  shows "returns (\<lambda>t. \<exists>d. t dir = Some (Dir_Node d) \<and> map_of d = (map_of b |` W)(name \<mapsto> File_Node []))
    (fill_member (\<lambda>_. Fine) dir name c) (\<lambda>_. staging dir b (insert name W))"
  unfolding fill_member_def
  by (rule triple_pre [OF returns_effect])
    (auto simp: staging_def edit_dir_same update_conv' fun_eq_iff restrict_map_def assms)

lemma returns_write_bytes:
  assumes "map_of b name = Some (File_Node c)" "name \<notin> W"
  shows "returns (staging dir b W) (write_bytes (\<lambda>_. Fine) dir name c) (\<lambda>_. staging dir b (insert name W))"
  unfolding write_bytes_def
  by (intro triple_then [OF returns_create_member] triple_then [OF returns_fill_member] returns_quiet assms)

lemma returns_copy_open:
  assumes "map_of b name = Some (File_Node c)" "name \<notin> W" "length c = n"
  shows "returns (staging dir b W) (copy_open (\<lambda>_. Fine) c dir name n) (\<lambda>_. staging dir b (insert name W))"
  unfolding copy_open_def using assms
  by (auto intro!: triple_then [OF returns_create_member] triple_then [OF returns_fill_member] returns_quiet)

lemma returns_stage_artifacts:
  assumes "list_all2 (artifact_for cr pk b) es as" "map a_entry_index as = [i..<i + length es]"
    and "drop i files = es" "distinct (map e_role es)" "\<forall>e\<in>set es. e = entry_for (e_role e) (e_sha512 e)"
    and "\<forall>r\<in>set (map e_role es). member_names r \<inter> W = {}"
    and "\<forall>k<length as. again (i + k) = (a_payload (as ! k), a_signature (as ! k))"
  shows "returns (staging dir b W) (stage_artifacts (\<lambda>_. Fine) dir files None again i as)
    (\<lambda>_. staging dir b (W \<union> \<Union> (member_names ` set (map e_role es))))"
  using assms
proof (induction es as arbitrary: i W rule: list_all2_induct)
  case Nil
  show ?case using triple_give [of "\<lambda>_. staging dir b W"] by simp
next
  case (Cons e es a as)
  let ?r = "e_role e"
  have u: "[i..<i + length (e # es)] = i # [i + 1..<i + 1 + length es]"
    by (simp add: upt_conv_Cons del: upt_Suc)
  have idx: "a_entry_index a = i" "map a_entry_index as = [i + 1..<i + 1 + length es]"
    using Cons.prems(1) unfolding u by simp_all
  have get: "get_at files (a_entry_index a) = Some e" "drop (i + 1) files = es"
    using Cons.prems(2) idx(1) nth_via_drop [OF Cons.prems(2)] by (auto simp: get_at_def not_less drop_Suc tl_drop [symmetric])
  have "again (i + k) = (a_payload ((a # as) ! k), a_signature ((a # as) ! k))" if "k < length (a # as)" for k
    using Cons.prems(6) that by blast
  from this [of 0] this [of "Suc k" for k]
  have ag: "again i = (a_payload a, a_signature a)"
    "\<forall>k<length as. again (i + 1 + k) = (a_payload (as ! k), a_signature (as ! k))" by auto
  have e: "e = entry_for ?r (e_sha512 e)" using Cons.prems(4) by simp
  then have names: "e_destination e = role_destination ?r" "e_signature e = role_destination ?r @ ''.sig''"
    "e_payload e = role_destination ?r"
    by (metis entry_for_simps(3), metis entry_for_simps(5), metis e_fields)
  have files: "map_of b (role_destination ?r) = Some (File_Node (a_payload a))"
    "map_of b (role_destination ?r @ ''.sig'') = Some (File_Node (a_signature a))"
    "a_payload_len a = length (a_payload a)" "a_signature_len a = length (a_signature a)"
    using Cons.hyps(1) names by (auto simp: artifact_for_def)
  have fresh: "role_destination ?r \<notin> W" "role_destination ?r @ ''.sig'' \<notin> insert (role_destination ?r) W"
    using Cons.prems(5) by (auto simp: member_names_def)
  let ?W = "insert (role_destination ?r @ ''.sig'') (insert (role_destination ?r) W)"
  have "member_names r \<inter> ?W = {}" if "r \<in> set (map e_role es)" for r
  proof -
    have "?r \<notin> set (map e_role es)" using Cons.prems(3) by simp
    with that have "r \<noteq> ?r" by metis
    then have "member_names r \<inter> member_names ?r = {}" by (rule member_names_disjoint)
    moreover have "member_names r \<inter> W = {}" using that Cons.prems(5) by auto
    ultimately show ?thesis by (auto simp: member_names_def)
  qed
  then have "returns (staging dir b ?W) (stage_artifacts (\<lambda>_. Fine) dir files None again (i + 1) as)
    (\<lambda>_. staging dir b (?W \<union> \<Union> (member_names ` set (map e_role es))))"
    using Cons.prems(3,4) by (intro Cons.IH idx(2) get(2) ag(2)) auto
  moreover have "?W \<union> \<Union> (member_names ` set (map e_role es)) = W \<union> \<Union> (member_names ` set (map e_role (e # es)))"
    by (auto simp: member_names_def)
  ultimately have rest: "returns (staging dir b ?W) (stage_artifacts (\<lambda>_. Fine) dir files None again (i + 1) as)
    (\<lambda>_. staging dir b (W \<union> \<Union> (member_names ` set (map e_role (e # es)))))" by simp
  have "returns (staging dir b W)
      (and_then (quiet (\<lambda>_. Fine)) (\<lambda>_. and_then (quiet (\<lambda>_. Fine)) (\<lambda>_.
       and_then (copy_open (\<lambda>_. Fine) (a_payload a) dir (role_destination ?r) (a_payload_len a)) (\<lambda>_.
       and_then (copy_open (\<lambda>_. Fine) (a_signature a) dir (role_destination ?r @ ''.sig'') (a_signature_len a)) (\<lambda>_.
       stage_artifacts (\<lambda>_. Fine) dir files None again (i + 1) as)))))
      (\<lambda>_. staging dir b (W \<union> \<Union> (member_names ` set (map e_role (e # es)))))"
    using files fresh
    by (intro triple_then [OF returns_quiet(1)] triple_then [OF returns_copy_open] rest) auto
  then show ?case by (simp add: get(1) ag(1) names)
qed

definition bundle_names_of :: "validated_bundle \<Rightarrow> string set" where
  "bundle_names_of v = {''manifest.json'', ''manifest.json.sig''}
     \<union> \<Union> (member_names ` set (map e_role (m_files (v_manifest v))))"

lemma returns_stage_bundle:
  assumes "check_bundle cr json (Some b) pub = Inr v"
    and "\<forall>i<length (v_artifacts v). again i = (a_payload (v_artifacts v ! i), a_signature (v_artifacts v ! i))"
  shows "returns (\<lambda>t. t dir = Some (Dir_Node [])) (stage_bundle (\<lambda>_. Fine) dir None again v)
    (\<lambda>_. staging dir b (bundle_names_of v))"
proof -
  from assms(1) obtain pk where *: "map_of b ''manifest.json'' = Some (File_Node (v_manifest_bytes v))"
    "map_of b ''manifest.json.sig'' = Some (File_Node (v_manifest_signature v))"
    "parse_manifest json (v_manifest_bytes v) = Inr (v_manifest v)"
    "list_all2 (artifact_for cr pk b) (m_files (v_manifest v)) (v_artifacts v)"
    "map a_entry_index (v_artifacts v) = [0..<length (m_files (v_manifest v))]"
    unfolding check_bundle_iff by blast
  have m: "distinct (map e_role (m_files (v_manifest v)))"
    "\<forall>e\<in>set (m_files (v_manifest v)). e = entry_for (e_role e) (e_sha512 e)"
    using *(3) unfolding parse_manifest_iff by blast+
  have "returns (staging dir b {}) (stage_bundle (\<lambda>_. Fine) dir None again v) (\<lambda>_. staging dir b (bundle_names_of v))"
    unfolding stage_bundle_def
  proof (intro triple_then [OF returns_write_bytes [OF *(1)]] triple_then [OF returns_write_bytes [OF *(2)]])
    show "returns (staging dir b {''manifest.json.sig'', ''manifest.json''})
       (stage_artifacts (\<lambda>_. Fine) dir (m_files (v_manifest v)) None again 0 (v_artifacts v))
       (\<lambda>_. staging dir b (bundle_names_of v))"
      using returns_stage_artifacts [OF *(4), where i = 0 and files = "m_files (v_manifest v)" and again = again and dir = dir
          and W = "{''manifest.json.sig'', ''manifest.json''}"] *(5) m assms(2)
      by (simp add: bundle_names_of_def member_names_def insert_commute)
  qed simp_all
  then show ?thesis by (rule triple_pre) (simp add: staging_def)
qed

lemma check_bundle_restrict:
  assumes "check_bundle cr json (Some b) pub = Inr v" "map_of d = map_of b |` bundle_names_of v"
  shows "check_bundle cr json (Some d) pub = Inr v"
proof -
  from assms(1) obtain pk where pk: "pub = Some pk"
    "parse_manifest json (v_manifest_bytes v) = Inr (v_manifest v)"
    "list_all2 (artifact_for cr pk b) (m_files (v_manifest v)) (v_artifacts v)"
    unfolding check_bundle_iff by blast
  have "artifact_for cr pk d e a" if "e \<in> set (m_files (v_manifest v))" "artifact_for cr pk b e a" for e a
  proof -
    have "e = entry_for (e_role e) (e_sha512 e)" using parse_manifest_InrD(3) [OF pk(2)] that(1) by blast
    then have "e_payload e \<in> bundle_names_of v" "e_signature e \<in> bundle_names_of v"
      using that(1) unfolding e_fields by (auto simp: bundle_names_of_def member_names_def)
    with that(2) show ?thesis by (simp add: artifact_for_def assms(2))
  qed
  then have "list_all2 (artifact_for cr pk d) (m_files (v_manifest v)) (v_artifacts v)"
    using pk(3) by (rule list.rel_mono_strong [rotated]) 
  moreover have "map_of d ''manifest.json'' = map_of b ''manifest.json''"
    "map_of d ''manifest.json.sig'' = map_of b ''manifest.json.sig''"
    by (simp_all add: assms(2) bundle_names_of_def)
  ultimately show ?thesis
    using assms(1) pk unfolding check_bundle_iff by auto
qed

definition plain_or_absent :: "root_tree \<Rightarrow> string \<Rightarrow> bool" where
  "plain_or_absent t name \<longleftrightarrow> t name = None \<or> (\<exists>d. t name = Some (Dir_Node d))"

lemma returns_remove_confined:
  "returns (\<lambda>t. plain_or_absent t name \<and> P (t(name := None))) (remove_confined (\<lambda>_. Fine) name) (\<lambda>_. P)"
  by (auto simp: remove_confined_def triple_def and_then_def get_tree_def plain_or_absent_def node_exists_def
      remove_dir_all_def effect_def give_def fun_upd_idem)

lemma returns_or_discard: "returns P m Q \<Longrightarrow> returns P (or_discard fate stage m) Q"
  unfolding triple_def or_discard_def by (fastforce split: prod.splits sum.splits)

lemma returns_lift: "r = Inr a \<Longrightarrow> returns P (lift_pure r) (\<lambda>x t. x = a \<and> P t)"
  by (simp add: triple_def give_def)

lemma returns_publish:
  assumes "check_bundle cr json (Some b) (h_public h) = Inr v" "h_fate h = (\<lambda>_. Fine)"
    and "h_free h = Some f" "v_allocated_bytes v \<le> (case available_bytes (h_limits h) of Some a \<Rightarrow> a | None \<Rightarrow> f)"
    and "fail_after_files (h_limits h) = None"
    and "\<forall>i<length (v_artifacts v). h_again h i = (a_payload (v_artifacts v ! i), a_signature (v_artifacts v ! i))"
  shows "returns (\<lambda>t. plain_or_absent t [slot] \<and> plain_or_absent t (stage_name slot))
    (publish cr json h v slot)
    (\<lambda>_ t. \<exists>d. t [slot] = Some (Dir_Node d) \<and> map_of d = map_of b |` bundle_names_of v)"
proof -
  let ?stage = "stage_name slot" and ?fate = "\<lambda>_::nat. Fine"
  let ?P = "\<lambda>t. plain_or_absent t [slot]"
  let ?S = "\<lambda>t. staging ?stage b (bundle_names_of v) t"
  let ?Q = "\<lambda>t::root_tree. \<exists>d. t [slot] = Some (Dir_Node d) \<and> map_of d = map_of b |` bundle_names_of v"
  have pre: "returns P (preflight ?fate (h_blocks h) (h_free h) slot (v_allocated_bytes v) (h_limits h)) (\<lambda>_. P)" for P
    using assms(3,4) by (auto simp: preflight_def Let_def triple_def and_then_def get_tree_def give_def split: option.splits)
  have rm: "returns (\<lambda>t. ?P t \<and> plain_or_absent t ?stage) (remove_confined ?fate ?stage)
      (\<lambda>_ t. ?P t \<and> t ?stage = None)"
    by (rule triple_pre [OF returns_remove_confined]) (auto simp: plain_or_absent_def)
  have create: "returns (\<lambda>t'. t' = t \<and> ?P t \<and> t ?stage = None)
      (if t ?stage \<noteq> None then throw e else atomic ?fate (\<lambda>t. t(?stage := Some (Dir_Node []))))
      (\<lambda>_ t. t ?stage = Some (Dir_Node []) \<and> ?P t)" for t e
    by (auto simp: triple_def atomic_def effect_def plain_or_absent_def)
  have "returns (\<lambda>t. t ?stage = Some (Dir_Node [])) (or_discard ?fate ?stage (stage_bundle ?fate ?stage None (h_again h) v)) (\<lambda>_. ?S)"
    by (rule returns_or_discard [OF returns_stage_bundle [OF assms(1,6)]])
  moreover have "triple ?P (or_discard ?fate ?stage (stage_bundle ?fate ?stage None (h_again h) v)) (\<lambda>_. ?P) ?P"
    by (rule triple_frame [where N = "{?stage}"]) (auto intro: frame_rules simp: plain_or_absent_def)
  ultimately have stage: "returns (\<lambda>t. t ?stage = Some (Dir_Node []) \<and> ?P t)
      (or_discard ?fate ?stage (stage_bundle ?fate ?stage None (h_again h) v)) (\<lambda>_ t. ?S t \<and> ?P t)"
    by (rule triple_weaken [OF triple_conj]) auto
  have check: "returns (\<lambda>t'. t' = t \<and> ?S t \<and> ?P t) (lift_pure (check_bundle cr json (opened_dir t ?stage) (h_public h)))
      (\<lambda>_ t. ?S t \<and> ?P t)" for t
    using check_bundle_restrict [OF assms(1)] by (auto simp: triple_def staging_def opened_plain give_def)
  have rm2: "returns (\<lambda>t. ?S t \<and> ?P t) (remove_confined ?fate [slot]) (\<lambda>_ t. ?S t \<and> t [slot] = None)"
    by (rule triple_pre [OF returns_remove_confined]) (auto simp: staging_def)
  have rename: "returns (\<lambda>t'. t' = t \<and> ?S t \<and> t [slot] = None)
      (if t [slot] \<noteq> None then throw e else atomic ?fate (\<lambda>t. t([slot] := t ?stage, ?stage := None))) (\<lambda>_. ?Q)" for t e
    by (auto simp: triple_def atomic_def effect_def staging_def)
  have get: "returns P get_tree (\<lambda>t t'. t' = t \<and> P t)" for P
    by (rule triple_pre [OF triple_get]) simp
  show ?thesis
    unfolding publish_def Let_def assms(2,5)
    by (rule triple_then [OF pre], rule triple_then [OF rm], rule triple_then [OF get], rule triple_then [OF create],
        rule triple_then [OF stage], rule triple_then [OF returns_quiet(2)], rule triple_then [OF get],
        rule triple_then [OF check], rule triple_then [OF rm2], rule triple_then [OF get],
        rule triple_then [OF rename], rule returns_quiet(2))
qed

lemma returns_write_selector:
  "returns (\<lambda>t. (t ''active.new'' = None \<or> node_exists t ''active.new'')
       \<and> (\<nexists>d. t ''active.new'' = Some (Dir_Node d)) \<and> (\<nexists>d. t ''active'' = Some (Dir_Node d)))
     (write_selector (\<lambda>_. Fine) slot) (\<lambda>_ t. t ''active'' = Some (Text_Node (selector_text slot)))"
proof -
  let ?fate = "\<lambda>_::nat. Fine" and ?new = "Some (Text_Node (selector_text slot))"
  let ?A = "\<lambda>t. \<nexists>d. t ''active'' = Some (Dir_Node d)"
  let ?P = "\<lambda>t. (t ''active.new'' = None \<or> node_exists t ''active.new'')
       \<and> (\<nexists>d. t ''active.new'' = Some (Dir_Node d)) \<and> ?A t"
  have get: "returns P get_tree (\<lambda>t t'. t' = t \<and> P t)" for P
    by (rule triple_pre [OF triple_get]) simp
  have drop: "returns (\<lambda>t'. t' = t \<and> ?P t) (if node_exists t ''active.new'' then (case t ''active.new'' of
        Some (Dir_Node _) \<Rightarrow> throw e | _ \<Rightarrow> atomic ?fate (\<lambda>t. t(''active.new'' := None))) else give ())
      (\<lambda>_ t. t ''active.new'' = None \<and> ?A t)" for t e
    by (auto simp: triple_def atomic_def effect_def give_def split: option.split root_node.split)
  have create: "returns (\<lambda>t'. t' = t \<and> t ''active.new'' = None \<and> ?A t)
      (if t ''active.new'' \<noteq> None then throw e else atomic ?fate (\<lambda>t. t(''active.new'' := Some (Text_Node []))))
      (\<lambda>_. ?A)" for t e
    by (auto simp: triple_def atomic_def effect_def)
  have fill: "returns ?A (effect ?fate (\<lambda>t. t(''active.new'' := ?new)) (\<lambda>k t. t(''active.new'' := Some (Text_Node (f k)))))
      (\<lambda>_ t. t ''active.new'' = ?new \<and> ?A t)" for f
    by (rule triple_pre [OF returns_effect]) simp
  have rename: "returns (\<lambda>t'. t' = t \<and> t ''active.new'' = ?new \<and> ?A t) (case t ''active'' of Some (Dir_Node _) \<Rightarrow> throw e
      | _ \<Rightarrow> atomic ?fate (\<lambda>t. t(''active'' := t ''active.new'', ''active.new'' := None))) (\<lambda>_ t. t ''active'' = ?new)" for t e
    by (auto simp: triple_def atomic_def effect_def split: option.split root_node.split)
  show ?thesis
    unfolding write_selector_def
    by (rule triple_then [OF get], rule triple_then [OF drop], rule triple_then [OF get],
        rule triple_then [OF create], rule triple_then [OF fill], rule triple_then [OF returns_quiet(1)],
        rule triple_then [OF get], rule triple_then [OF rename], rule returns_quiet(2))
qed

lemma returns_run: "returns P m Q \<Longrightarrow> P (tree s) \<Longrightarrow> \<exists>a s'. m s = (Inr a, s') \<and> Q a (tree s')"
  unfolding triple_def by (cases "m s"; cases "fst (m s)") fastforce+

text \<open>The part of an installation in front of the decision.\<close>

lemma returns_install:
  assumes "check_bundle cr json dir (h_public h) = Inr v" "h_fate h = (\<lambda>_. Fine)" "read_active t0 = Inr active"
    and "returns (\<lambda>t. t = t0)
      (if (case active of None \<Rightarrow> False
           | Some slot \<Rightarrow> already_installed cr json (h_public h) t0 slot (v_manifest_bytes v))
       then give (Unchanged (the active))
       else if manifest_slot (v_manifest v) \<noteq> inactive_slot active
       then throw (Invalid ''bundle targets the other slot'')
       else and_then (publish cr json h v (inactive_slot active)) (\<lambda>_.
            and_then (write_selector (h_fate h) (inactive_slot active)) (\<lambda>_.
            give (Activated (inactive_slot active))))) Q"
  shows "returns (\<lambda>t. t = t0) (install cr json h dir) Q"
proof -
  have "returns (\<lambda>t. t = t0) (and_then (lift_pure (read_active t0)) (\<lambda>active.
      if (case active of None \<Rightarrow> False
           | Some slot \<Rightarrow> already_installed cr json (h_public h) t0 slot (v_manifest_bytes v))
       then give (Unchanged (the active))
       else if manifest_slot (v_manifest v) \<noteq> inactive_slot active
       then throw (Invalid ''bundle targets the other slot'')
       else and_then (publish cr json h v (inactive_slot active)) (\<lambda>_.
            and_then (write_selector (h_fate h) (inactive_slot active)) (\<lambda>_.
            give (Activated (inactive_slot active)))))) Q"
    using assms(4) by (simp add: assms(3))
  then show ?thesis
    unfolding install_def Let_def assms(1) run_simps unfolding assms(2)
    by (intro triple_then [OF returns_quiet(1)] triple_get_at)
qed

text \<open>C35: an undisturbed update does its work. With enough space, readable sources and no leftovers that are
  not plain directories, a checked bundle for the inactive slot is activated: the slot holds the
  bundle's files, the selector names it, and installing the same bundle again changes nothing.\<close>

theorem undisturbed_update_activates:
  assumes "check_bundle cr json (Some b) (h_public h) = Inr v" "h_fate h = (\<lambda>_. Fine)"
    and "h_free h = Some f" "v_allocated_bytes v \<le> (case available_bytes (h_limits h) of Some a \<Rightarrow> a | None \<Rightarrow> f)"
    and "fail_after_files (h_limits h) = None"
    and "\<forall>i<length (v_artifacts v). h_again h i = (a_payload (v_artifacts v ! i), a_signature (v_artifacts v ! i))"
    and "read_active (tree s) = Inr active" "slot = inactive_slot active" "manifest_slot (v_manifest v) = slot"
    and "\<forall>a. active = Some a \<longrightarrow> \<not> already_installed cr json (h_public h) (tree s) a (v_manifest_bytes v)"
    and "plain_or_absent (tree s) [slot]" "plain_or_absent (tree s) (stage_name slot)"
    and "tree s ''active.new'' = None" "\<nexists>d. tree s ''active'' = Some (Dir_Node d)"
  shows "\<exists>s' d. install cr json h (Some b) s = (Inr (Activated slot), s')
    \<and> booted cr json (h_public h) (tree s') = Some (slot, v_manifest_bytes v)
    \<and> tree s' [slot] = Some (Dir_Node d) \<and> map_of d = map_of b |` bundle_names_of v
    \<and> (\<exists>s''. install cr json h (Some b) s' = (Inr (Unchanged slot), s'') \<and> tree s'' = tree s')"
proof -
  let ?Q = "\<lambda>t::root_tree. \<exists>d. t [slot] = Some (Dir_Node d) \<and> map_of d = map_of b |` bundle_names_of v"
  let ?new = "Some (Text_Node (selector_text slot))" and ?fate = "\<lambda>_::nat. Fine"
  let ?F = "\<lambda>t. \<forall>n. n \<notin> {[slot], stage_name slot} \<longrightarrow> t n = tree s n"
  have "triple ?F (publish cr json h v slot) (\<lambda>_. ?F) ?F"
    by (rule triple_frame [OF frames_publish]) auto
  from triple_conj [OF returns_publish [OF assms(1-6)] this]
  have pub: "returns (\<lambda>t. t = tree s) (publish cr json h v slot) (\<lambda>_ t. ?Q t \<and> ?F t)"
    by (rule triple_weaken) (use assms(11,12) in auto)
  have "triple ?Q (write_selector ?fate slot) (\<lambda>_. ?Q) ?Q"
    by (rule triple_frame [OF frames_write_selector]) auto
  from triple_conj [OF returns_write_selector this]
  have sel: "returns (\<lambda>t. ?Q t \<and> ?F t) (write_selector ?fate slot) (\<lambda>_ t. t ''active'' = ?new \<and> ?Q t)"
    by (rule triple_weaken) (use assms(13,14) in \<open>auto simp: stage_name_def\<close>)
  have fin: "returns (\<lambda>t. t ''active'' = ?new \<and> ?Q t) (give (Activated slot))
      (\<lambda>r t. r = Activated slot \<and> t ''active'' = ?new \<and> ?Q t)"
    by (rule triple_pre [OF triple_give]) simp
  have "returns (\<lambda>t. t = tree s) (install cr json h (Some b)) (\<lambda>r t. r = Activated slot \<and> t ''active'' = ?new \<and> ?Q t)"
    using triple_then [OF pub triple_then [OF sel fin]] assms(8,9,10)
    by (intro returns_install [OF assms(1,2,7)]) (auto simp: assms(2) split: option.splits)
  from returns_run [OF this refl] obtain s' d where s': "install cr json h (Some b) s = (Inr (Activated slot), s')"
    "tree s' ''active'' = ?new" "tree s' [slot] = Some (Dir_Node d)" "map_of d = map_of b |` bundle_names_of v"
    by blast
  have ab: "slot \<in> {CHR ''A'', CHR ''B''}" using assms(8) inactive_other(1) by blast
  then have act: "read_active (tree s') = Inr (Some slot)" using s'(2) by (intro read_active_selector)
  have chk: "check_bundle cr json (Some d) (h_public h) = Inr v" by (rule check_bundle_restrict [OF assms(1) s'(4)])
  then have inst: "already_installed cr json (h_public h) (tree s') slot (v_manifest_bytes v)"
    using check_bundle_manifest [OF chk] s'(3) by (simp add: already_installed_def opened_plain)
  have bt: "booted cr json (h_public h) (tree s') = Some (slot, v_manifest_bytes v)"
    using act s'(3) chk by (simp add: booted_def opened_plain)
  have "returns (\<lambda>t. t = tree s') (install cr json h (Some b)) (\<lambda>r t. r = Unchanged slot \<and> t = tree s')"
    by (rule returns_install [OF assms(1,2) act]) (use inst in \<open>simp add: triple_def give_def\<close>)
  from returns_run [OF this refl] s' bt show ?thesis by blast
qed

text \<open>A host on which every call succeeds, and one that loses power at the call \<open>n\<close>.\<close>

definition upd_host :: "(nat \<Rightarrow> fate) \<Rightarrow> validated_bundle \<Rightarrow> host" where
  "upd_host fate v =
     \<lparr>h_fate = fate, h_blocks = (\<lambda>_. 8), h_free = Some u64_max, h_public = Some upd_pub,
      h_limits = \<lparr>available_bytes = None, fail_after_files = None\<rparr>,
      h_again = (\<lambda>i. (a_payload (v_artifacts v ! i), a_signature (v_artifacts v ! i)))\<rparr>"

definition upd_start :: io_state where
  "upd_start = \<lparr>tree = (\<lambda>_. None), clock = 0\<rparr>"

lemma upd_start_active: "read_active (tree upd_start) = Inr None"
  by (simp add: read_active_def upd_start_def)

theorem update_is_atomic_switch_witness:
  "\<exists>out v r s'. check_bundle upd_crypto (upd_json (CHR ''A'')) (Some out) (Some upd_pub) = Inr v
    \<and> install upd_crypto (upd_json (CHR ''A'')) (upd_host (\<lambda>n. if n = 9 then Cut 3 else Fine) v) (Some out) upd_start = (r, s')
    \<and> bootable upd_crypto (upd_json (CHR ''A'')) (Some upd_pub) (tree s')"
proof -
  obtain out v where v: "check_bundle upd_crypto (upd_json (CHR ''A'')) (Some out) (Some upd_pub) = Inr v"
    using upd_bundle [of "CHR ''A''"] by blast
  let ?h = "upd_host (\<lambda>n. if n = 9 then Cut 3 else Fine) v"
  obtain r s' where run: "install upd_crypto (upd_json (CHR ''A'')) ?h (Some out) upd_start = (r, s')" by fastforce
  have "bootable upd_crypto (upd_json (CHR ''A'')) (h_public ?h) (tree upd_start)"
    using upd_start_active by (simp add: bootable_def)
  from update_is_atomic_switch [OF this run] v run show ?thesis by (auto simp: upd_host_def)
qed

theorem undisturbed_update_activates_witness:
  "\<exists>out v s'. check_bundle upd_crypto (upd_json (CHR ''A'')) (Some out) (Some upd_pub) = Inr v
    \<and> install upd_crypto (upd_json (CHR ''A'')) (upd_host (\<lambda>_. Fine) v) (Some out) upd_start = (Inr (Activated (CHR ''A'')), s')
    \<and> booted upd_crypto (upd_json (CHR ''A'')) (Some upd_pub) (tree s') = Some (CHR ''A'', v_manifest_bytes v)"
proof -
  obtain out v i where v: "check_bundle upd_crypto (upd_json (CHR ''A'')) (Some out) (Some upd_pub) = Inr v"
    "v_manifest v = manifest_of upd_crypto upd_source (CHR ''A'') i"
    using upd_bundle [of "CHR ''A''"] by blast
  let ?h = "upd_host (\<lambda>_. Fine) v" and ?j = "upd_json (CHR ''A'')"
  have alloc: "v_allocated_bytes v \<le> u64_max" using v(1) unfolding check_bundle_iff by blast
  have slot: "manifest_slot (v_manifest v) = CHR ''A''" by (simp add: v(2) manifest_of_def manifest_slot_def)
  have "\<exists>s' d. install upd_crypto ?j ?h (Some out) upd_start = (Inr (Activated (CHR ''A'')), s')
    \<and> booted upd_crypto ?j (h_public ?h) (tree s') = Some (CHR ''A'', v_manifest_bytes v)
    \<and> tree s' [CHR ''A''] = Some (Dir_Node d) \<and> map_of d = map_of out |` bundle_names_of v
    \<and> (\<exists>s''. install upd_crypto ?j ?h (Some out) s' = (Inr (Unchanged (CHR ''A'')), s'') \<and> tree s'' = tree s')"
    by (rule undisturbed_update_activates [where f = u64_max and active = None])
      (use v(1) alloc slot upd_start_active in
        \<open>simp_all add: upd_host_def inactive_slot_def plain_or_absent_def upd_start_def\<close>)
  then obtain s' where "install upd_crypto ?j ?h (Some out) upd_start = (Inr (Activated (CHR ''A'')), s')"
    "booted upd_crypto ?j (h_public ?h) (tree s') = Some (CHR ''A'', v_manifest_bytes v)" by blast
  then show ?thesis using v(1) by (intro exI [of _ out] exI [of _ v] exI [of _ s']) (simp add: upd_host_def)
qed

end
