(* ===== verification/Update_Service.thy ===== *)
theory Update_Service
  imports Slot_Transaction
begin

text \<open>
  The privileged side of the update service, \<open>protocol.rs\<close> of \<open>nmbl-boot-update\<close>: who may ask, which
  bundle a request may name, and the mirrors it is installed on one after the other.
\<close>

subsection \<open>The peer\<close>

text \<open>The identity of an executable is its device and inode.\<close>

type_synonym exe_id = "nat \<times> nat"

record peer_answers =
  credentials :: "(nat \<times> nat) option"
  own_exe :: "exe_id option"
  peer_exe :: "nat \<Rightarrow> exe_id option"

definition require_same_executable :: "peer_answers \<Rightarrow> nat \<Rightarrow> update_error + unit" where
  "require_same_executable p pid =
     rbind (ok_or (Upd_Io ''stat service executable'') (own_exe p)) (\<lambda>ours.
     rbind (ok_or (Upd_Io ''stat peer executable'') (peer_exe p pid)) (\<lambda>peer.
     ensure (fst ours = fst peer \<and> snd ours = snd peer) (Invalid ''peer is not the same update binary'')))"

definition authenticate_peer :: "peer_answers \<Rightarrow> nat \<Rightarrow> update_error + nat" where
  "authenticate_peer p allowed_uid =
     rbind (ok_or (Upd_Io ''read peer credentials'') (credentials p)) (\<lambda>(uid, pid).
     rbind (ensure (uid = allowed_uid) (Invalid ''peer UID is not authorized'')) (\<lambda>_.
     rbind (require_same_executable p pid) (\<lambda>_. Inr pid)))"

subsection \<open>The request\<close>

text \<open>\<open>read_line\<close>: up to the first newline, included.\<close>

fun line_of :: "bytes \<Rightarrow> bytes" where
  "line_of [] = []"
| "line_of (c # cs) = (if c = newline then [c] else c # line_of cs)"

definition read_request :: "(bytes \<Rightarrow> string option) \<Rightarrow> bytes \<Rightarrow> update_error + string" where
  "read_request request_json sent =
     (let line = line_of (take (64 * 1024) sent)
      in if \<not> valid_utf8 line then Inl (Upd_Io ''read update request'')
         else ok_or (Invalid ''invalid request'') (request_json (trim_end line)))"

definition confined_bundle ::
  "(string \<Rightarrow> string option) \<Rightarrow> string \<Rightarrow> string \<Rightarrow> update_error + string" where
  "confined_bundle canon spool requested =
     rbind (ok_or (Upd_Io ''resolve spool'') (canon spool)) (\<lambda>s.
     rbind (ok_or (Upd_Io ''resolve bundle'') (canon requested)) (\<lambda>r.
     if map_option components (parent r) \<noteq> Some (components s)
     then Inl (Invalid ''bundle must be one direct child of the update spool'')
     else Inr r))"

subsection \<open>The mirrors\<close>

record mirror =
  mi_host :: host
  mi_state :: io_state

text \<open>\<open>open_bundle k\<close> is the bundle directory as the installation on mirror \<open>k\<close> finds it.\<close>

fun install_mirrors ::
  "crypto \<Rightarrow> (bytes \<Rightarrow> manifest option) \<Rightarrow> (nat \<Rightarrow> bundle_dir option) \<Rightarrow> nat \<Rightarrow> mirror list
   \<Rightarrow> (stop + outcome list) \<times> mirror list" where
  "install_mirrors cr json open_bundle k [] = (Inr [], [])"
| "install_mirrors cr json open_bundle k (m # ms) =
     (case install cr json (mi_host m) (open_bundle k) (mi_state m) of
        (Inl e, s) \<Rightarrow> (Inl e, m\<lparr>mi_state := s\<rparr> # ms)
      | (Inr out, s) \<Rightarrow>
          (case install_mirrors cr json open_bundle (k + 1) ms of
             (Inl e, ms') \<Rightarrow> (Inl e, m\<lparr>mi_state := s\<rparr> # ms')
           | (Inr outs, ms') \<Rightarrow> (Inr (out # outs), m\<lparr>mi_state := s\<rparr> # ms')))"

text \<open>What the service learns from the system while it handles one connection.\<close>

record connection =
  c_first :: peer_answers
  c_sent :: bytes
  c_second :: peer_answers
  c_canon :: "string \<Rightarrow> string option"
  c_open :: "string \<Rightarrow> nat \<Rightarrow> bundle_dir option"

definition lift_stop :: "update_error + 'a \<Rightarrow> stop + 'a" where
  "lift_stop = map_err Err"

definition accept_request ::
  "(bytes \<Rightarrow> string option) \<Rightarrow> connection \<Rightarrow> string \<Rightarrow> nat \<Rightarrow> update_error + string" where
  "accept_request request_json c spool allowed_uid =
     rbind (authenticate_peer (c_first c) allowed_uid) (\<lambda>peer_pid.
     rbind (read_request request_json (c_sent c)) (\<lambda>bundle.
     rbind (authenticate_peer (c_second c) allowed_uid) (\<lambda>pid.
     rbind (ensure (pid = peer_pid) (Invalid ''update peer changed while reading request'')) (\<lambda>_.
     confined_bundle (c_canon c) spool bundle))))"

definition handle ::
  "crypto \<Rightarrow> (bytes \<Rightarrow> manifest option) \<Rightarrow> (bytes \<Rightarrow> string option) \<Rightarrow> connection \<Rightarrow> string \<Rightarrow> nat
   \<Rightarrow> mirror list \<Rightarrow> (stop + outcome list) \<times> mirror list" where
  "handle cr json request_json c spool allowed_uid mirrors =
     (case accept_request request_json c spool allowed_uid of
        Inl e \<Rightarrow> (Inl (Err e), mirrors)
      | Inr bundle \<Rightarrow>
          if mirrors = [] then (Inl (Err (Invalid ''at least one boot root is required'')), mirrors)
          else install_mirrors cr json (c_open c bundle) 0 mirrors)"

subsection \<open>The answer\<close>

definition response_line :: "(outcome list \<Rightarrow> string) \<Rightarrow> (update_error \<Rightarrow> string) \<Rightarrow> update_error + outcome list \<Rightarrow> string" where
  "response_line debug display r =
     (case r of Inr outs \<Rightarrow> ''OK '' @ debug outs @ [newline]
      | Inl e \<Rightarrow> ''ERROR '' @ display e @ [newline])"

definition read_response :: "string \<Rightarrow> update_error + string" where
  "read_response response =
     (case strip_prefix ''OK '' response of
        Some message \<Rightarrow> Inr (trim message)
      | None \<Rightarrow> Inl (Invalid (trim response)))"

subsection \<open>Properties\<close>

text \<open>Requests are accepted from the allowed user only, running this very executable before and after the
  request was read, for a direct child of the spool.\<close>

lemma accept_request_InrD:
  assumes "accept_request request_json c spool allowed_uid = Inr bundle"
  shows "\<exists>pid exe s. credentials (c_first c) = Some (allowed_uid, pid) \<and> credentials (c_second c) = Some (allowed_uid, pid)
    \<and> own_exe (c_first c) = Some exe \<and> peer_exe (c_first c) pid = Some exe
    \<and> own_exe (c_second c) = peer_exe (c_second c) pid
    \<and> c_canon c spool = Some s \<and> map_option components (parent bundle) = Some (components s)"
  using assms
  by (auto simp: accept_request_def authenticate_peer_def require_same_executable_def confined_bundle_def
      rbind_Inr_iff prod_eq_iff split: if_splits prod.splits)

definition mirror_bootable :: "crypto \<Rightarrow> (bytes \<Rightarrow> manifest option) \<Rightarrow> mirror \<Rightarrow> bool" where
  "mirror_bootable cr json m \<longleftrightarrow> bootable cr json (h_public (mi_host m)) (tree (mi_state m))"

definition mirror_booted :: "crypto \<Rightarrow> (bytes \<Rightarrow> manifest option) \<Rightarrow> mirror \<Rightarrow> (char \<times> bytes) option" where
  "mirror_booted cr json m = booted cr json (h_public (mi_host m)) (tree (mi_state m))"

lemma install_Inr:
  assumes "bootable cr json (h_public h) (tree s)" "install cr json h dir s = (Inr out, s')"
  shows "\<exists>v slot. check_bundle cr json dir (h_public h) = Inr v
    \<and> booted cr json (h_public h) (tree s') = Some (slot, v_manifest_bytes v)"
  using install_atomic [OF assms] by (cases out) auto

lemma install_mirrors_outcomes:
  "install_mirrors cr json open_bundle k ms = (Inr outs, ms') \<Longrightarrow> length outs = length ms"
  by (induction ms arbitrary: k outs ms') (auto split: prod.splits sum.splits)

lemma install_mirrors_result:
  assumes "list_all (mirror_bootable cr json) ms" "install_mirrors cr json open_bundle k ms = (r, ms')"
  shows "length ms' = length ms \<and> list_all (mirror_bootable cr json) ms'
    \<and> (\<exists>n \<le> length ms.
         (\<forall>i<n. \<exists>v slot. check_bundle cr json (open_bundle (k + i)) (h_public (mi_host (ms ! i))) = Inr v
            \<and> mirror_booted cr json (ms' ! i) = Some (slot, v_manifest_bytes v))
         \<and> (\<forall>i. n < i \<and> i < length ms \<longrightarrow> ms' ! i = ms ! i)
         \<and> ((\<exists>outs. r = Inr outs \<and> length outs = length ms) \<longleftrightarrow> n = length ms))"
  using assms
proof (induction ms arbitrary: k r ms')
  case Nil
  then show ?case by auto
next
  case (Cons m ms)
  obtain r1 s where run: "install cr json (mi_host m) (open_bundle k) (mi_state m) = (r1, s)" by fastforce
  have b: "bootable cr json (h_public (mi_host m)) (tree (mi_state m))"
    using Cons.prems(1) by (simp add: mirror_bootable_def)
  have m': "mirror_bootable cr json (m\<lparr>mi_state := s\<rparr>)"
    using install_atomic [OF b run] by (simp add: mirror_bootable_def)
  show ?case
  proof (cases r1)
    case (Inl e)
    with Cons.prems run have "r = Inl e" "ms' = m\<lparr>mi_state := s\<rparr> # ms" by auto
    with m' Cons.prems(1) show ?thesis by (intro conjI exI [of _ 0]) (auto simp: nth_Cons')
  next
    case (Inr out)
    obtain r2 ms2 where rest: "install_mirrors cr json open_bundle (k + 1) ms = (r2, ms2)" by fastforce
    have r: "r = (case r2 of Inl e \<Rightarrow> Inl e | Inr outs \<Rightarrow> Inr (out # outs))" "ms' = m\<lparr>mi_state := s\<rparr> # ms2"
      using Cons.prems(2) run Inr rest by (auto split: sum.splits)
    from Cons.IH [OF _ rest] Cons.prems(1) obtain n where IH: "length ms2 = length ms"
      "list_all (mirror_bootable cr json) ms2" "n \<le> length ms"
      "\<forall>i<n. \<exists>v slot. check_bundle cr json (open_bundle (k + 1 + i)) (h_public (mi_host (ms ! i))) = Inr v
            \<and> mirror_booted cr json (ms2 ! i) = Some (slot, v_manifest_bytes v)"
      "\<forall>i. n < i \<and> i < length ms \<longrightarrow> ms2 ! i = ms ! i"
      "(\<exists>outs. r2 = Inr outs \<and> length outs = length ms) \<longleftrightarrow> n = length ms" by auto
    from install_Inr [OF b run [unfolded Inr]] obtain v slot where
      v: "check_bundle cr json (open_bundle k) (h_public (mi_host m)) = Inr v"
      "mirror_booted cr json (m\<lparr>mi_state := s\<rparr>) = Some (slot, v_manifest_bytes v)"
      by (auto simp: mirror_booted_def)
    have "\<exists>v slot. check_bundle cr json (open_bundle (k + i)) (h_public (mi_host ((m # ms) ! i))) = Inr v
            \<and> mirror_booted cr json (ms' ! i) = Some (slot, v_manifest_bytes v)" if "i < Suc n" for i
      using that v IH(4) r(2) by (cases i) auto
    moreover have "ms' ! i = (m # ms) ! i" if "Suc n < i \<and> i < length (m # ms)" for i
      using that IH(5) r(2) by (cases i) auto
    moreover have "(\<exists>outs. r = Inr outs \<and> length outs = length (m # ms)) \<longleftrightarrow> Suc n = length (m # ms)"
      using IH(6) r(1) by (cases r2) auto
    ultimately show ?thesis
      using IH(1-3) m' r(2) by (intro conjI exI [of _ "Suc n"]) auto
  qed
qed

text \<open>The service touches a mirror only for the allowed user, running this very executable before and
  after the request was read, and for a bundle that is a direct child of the spool. It goes through
  the mirrors in order and stops at the first that fails: those before it boot the bundle's manifest, those
  after it are untouched, and every one stays usable; success means that all of them boot it.\<close>

theorem service_updates_in_order:
  assumes "list_all (mirror_bootable cr json) mirrors"
    and "handle cr json request_json c spool allowed_uid mirrors = (r, mirrors')"
  shows "list_all (mirror_bootable cr json) mirrors' \<and> length mirrors' = length mirrors
    \<and> (mirrors' = mirrors \<or>
        (\<exists>pid s bundle n. credentials (c_first c) = Some (allowed_uid, pid) \<and> credentials (c_second c) = Some (allowed_uid, pid)
          \<and> own_exe (c_first c) = peer_exe (c_first c) pid \<and> own_exe (c_second c) = peer_exe (c_second c) pid
          \<and> c_canon c spool = Some s \<and> map_option components (parent bundle) = Some (components s)
          \<and> n \<le> length mirrors
          \<and> (\<forall>i<n. \<exists>v slot. check_bundle cr json (c_open c bundle i) (h_public (mi_host (mirrors ! i))) = Inr v
               \<and> mirror_booted cr json (mirrors' ! i) = Some (slot, v_manifest_bytes v))
          \<and> (\<forall>i. n < i \<and> i < length mirrors \<longrightarrow> mirrors' ! i = mirrors ! i)
          \<and> ((\<exists>outs. r = Inr outs) \<longrightarrow> n = length mirrors)))"
proof (cases "accept_request request_json c spool allowed_uid")
  case (Inl e)
  then show ?thesis using assms by (simp add: handle_def)
next
  case (Inr path)
  show ?thesis
  proof (cases "mirrors = []")
    case True
    then show ?thesis using assms Inr by (simp add: handle_def)
  next
    case False
    then have run: "install_mirrors cr json (c_open c path) 0 mirrors = (r, mirrors')"
      using assms(2) Inr by (simp add: handle_def)
    have outs: "length outs = length mirrors" if "r = Inr outs" for outs
      using install_mirrors_outcomes [OF run [unfolded that]] .
    from install_mirrors_result [OF assms(1) run] obtain n where n: "length mirrors' = length mirrors"
      "list_all (mirror_bootable cr json) mirrors'" "n \<le> length mirrors"
      "\<forall>i<n. \<exists>v slot. check_bundle cr json (c_open c path i) (h_public (mi_host (mirrors ! i))) = Inr v
            \<and> mirror_booted cr json (mirrors' ! i) = Some (slot, v_manifest_bytes v)"
      "\<forall>i. n < i \<and> i < length mirrors \<longrightarrow> mirrors' ! i = mirrors ! i"
      "(\<exists>outs. r = Inr outs \<and> length outs = length mirrors) \<longleftrightarrow> n = length mirrors"
      unfolding add_0 by blast
    from accept_request_InrD [OF Inr] obtain pid s where
      "credentials (c_first c) = Some (allowed_uid, pid)" "credentials (c_second c) = Some (allowed_uid, pid)"
      "own_exe (c_first c) = peer_exe (c_first c) pid" "own_exe (c_second c) = peer_exe (c_second c) pid"
      "c_canon c spool = Some s" "map_option components (parent path) = Some (components s)" by auto
    moreover have "(\<exists>outs. r = Inr outs) \<longrightarrow> n = length mirrors" using outs n(6) by blast
    ultimately show ?thesis
      using n(1-5)
      by (intro conjI disjI2 exI [of _ pid] exI [of _ s] exI [of _ path] exI [of _ n])
  qed
qed

text \<open>A service on an empty boot directory, asked by the allowed user.\<close>

definition demo_peer :: peer_answers where
  "demo_peer = \<lparr>credentials = Some (1000, 42), own_exe = Some (1, 7), peer_exe = (\<lambda>_. Some (1, 7))\<rparr>"

definition demo_connection :: "bundle_dir \<Rightarrow> connection" where
  "demo_connection b =
     \<lparr>c_first = demo_peer, c_sent = ''x'' @ [newline], c_second = demo_peer, c_canon = Some,
      c_open = (\<lambda>_ _. Some b)\<rparr>"

theorem service_updates_in_order_witness:
  "\<exists>out v r ms. check_bundle upd_crypto (upd_json (CHR ''A'')) (Some out) (Some upd_pub) = Inr v
    \<and> handle upd_crypto (upd_json (CHR ''A'')) (\<lambda>_. Some ''/spool/x'') (demo_connection out) ''/spool'' 1000
        [\<lparr>mi_host = upd_host (\<lambda>_. Fine) v, mi_state = upd_start\<rparr>] = (r, ms)
    \<and> list_all (mirror_bootable upd_crypto (upd_json (CHR ''A''))) ms"
proof -
  obtain out v where v: "check_bundle upd_crypto (upd_json (CHR ''A'')) (Some out) (Some upd_pub) = Inr v"
    using upd_bundle [of "CHR ''A''"] by blast
  let ?ms = "[\<lparr>mi_host = upd_host (\<lambda>_. Fine) v, mi_state = upd_start\<rparr>]"
  obtain r ms where run: "handle upd_crypto (upd_json (CHR ''A'')) (\<lambda>_. Some ''/spool/x'') (demo_connection out)
      ''/spool'' 1000 ?ms = (r, ms)" by fastforce
  have "list_all (mirror_bootable upd_crypto (upd_json (CHR ''A''))) ?ms"
    using upd_start_active by (simp add: mirror_bootable_def bootable_def)
  from service_updates_in_order [OF this run] v run show ?thesis by blast
qed

end
