(* ===== verification/Bundle_Receive.thy ===== *)
theory Bundle_Receive
  imports Host_Tools Generation_State
begin

text \<open>
  \<open>nmbl-host-tools/src/receive.rs\<close>: the program behind a restricted SSH key that receives a
  generation bundle as one stream, verifies every payload, installs the generation and makes it
  active. The stream is its bytes and how it ends; the store is its generation directories and
  the selectors of \<^theory_text>\<open>Generation_State\<close>, which the loader reads at the next boot. An error is
  its message; of an I/O error only the context is kept, the text of the operating system is not
  part of the model.
\<close>

subsection \<open>The header\<close>

definition BUNDLE_MAGIC :: string where "BUNDLE_MAGIC = ''NMBL-EROFS-BUNDLE-4''"
definition PREVIOUS_MAGIC :: string where "PREVIOUS_MAGIC = ''NMBL-EROFS-BUNDLE-3''"
definition MAX_PAYLOAD :: nat where "MAX_PAYLOAD = 68719476736"
definition MAX_HEADER_LINE :: nat where "MAX_HEADER_LINE = 256"

record input_stream =
  unread :: bytes
  breaks :: bool

record bundle_header =
  bh_id :: string
  bh_image :: nat
  bh_image_signature :: nat
  bh_system :: nat
  bh_config_id :: string
  bh_config :: nat
  bh_config_signature :: nat
  bh_kernel :: nat
  bh_kernel_signature :: nat
  bh_initrd :: nat
  bh_initrd_signature :: nat
  bh_rescue :: nat
  bh_rescue_signature :: nat
  bh_network :: nat
  bh_network_signature :: nat
  bh_tools :: nat
  bh_tools_signature :: nat
  bh_reboot :: bool

text \<open>\<open>take(257).read_until(newline)\<close>; \<open>breaks\<close> says that reading past the last byte is an
  error and not the end of the file.\<close>

definition read_line :: "input_stream \<Rightarrow> string + string \<times> input_stream" where
  "read_line st =
     (let window = take (MAX_HEADER_LINE + 1) (unread st) in
      case split_once newline window of
        Some (line, _) \<Rightarrow>
          if valid_utf8 line then Inr (line, st\<lparr>unread := drop (Suc (length line)) (unread st)\<rparr>)
          else Inl ''protocol header is not UTF-8''
      | None \<Rightarrow>
          if length window \<le> MAX_HEADER_LINE \<and> breaks st then Inl ''read protocol header''
          else if length window > MAX_HEADER_LINE then Inl ''protocol header line is too long''
          else Inl ''truncated protocol header'')"

fun read_lines :: "nat \<Rightarrow> input_stream \<Rightarrow> string + string list \<times> input_stream" where
  "read_lines 0 st = Inr ([], st)"
| "read_lines (Suc n) st =
     rbind (read_line st) (\<lambda>(l, st1).
     rbind (read_lines n st1) (\<lambda>(ls, st2). Inr (l # ls, st2)))"

definition payload_size :: "string \<Rightarrow> string + nat" where
  "payload_size v =
     (if v = [] \<or> \<not> list_all is_digit v then Inl (''invalid payload size: '' @ v)
      else rbind (ok_or ''payload is too large'' (parse_uint u64_max v)) (\<lambda>n.
        if n > MAX_PAYLOAD then Inl ''payload is too large'' else Inr n))"

text \<open>\<open>map(size).collect()\<close>: the first error, or all the sizes.\<close>

fun payload_sizes :: "string list \<Rightarrow> string + nat list" where
  "payload_sizes [] = Inr []"
| "payload_sizes (v # vs) =
     rbind (payload_size v) (\<lambda>n. rbind (payload_sizes vs) (\<lambda>ns. Inr (n # ns)))"

definition field :: "string list \<Rightarrow> nat \<Rightarrow> string" where
  "field ls i = (case get_at ls i of None \<Rightarrow> [] | Some l \<Rightarrow> l)"

definition reboot_flag :: "string \<Rightarrow> string + bool" where
  "reboot_flag r =
     (if r = ''0'' then Inr False else if r = ''1'' then Inr True else Inl ''invalid reboot flag'')"

definition required_sizes :: "bundle_header \<Rightarrow> nat list" where
  "required_sizes h =
     [bh_image h, bh_image_signature h, bh_config h, bh_config_signature h, bh_kernel h,
      bh_kernel_signature h, bh_initrd h, bh_initrd_signature h, bh_rescue h, bh_rescue_signature h]"

definition check_sizes :: "bundle_header \<Rightarrow> string + bundle_header" where
  "check_sizes h =
     rbind (ensure (0 \<notin> set (required_sizes h)) ''empty payload or signature'') (\<lambda>_.
     rbind (ensure ((bh_network h = 0) = (bh_network_signature h = 0)) ''incomplete network payload'') (\<lambda>_.
     rbind (ensure ((bh_tools h = 0) = (bh_tools_signature h = 0)) ''incomplete rescue tools payload'') (\<lambda>_.
     Inr h)))"

text \<open>\<open>at(i)\<close> of the source is \<open>nums ! i\<close>: all thirteen sizes are there.\<close>

definition parse_header :: "input_stream \<Rightarrow> string + bundle_header \<times> input_stream" where
  "parse_header st =
     rbind (read_lines 16 st) (\<lambda>(first, st1).
     let magic = field first 0 in
     if magic = PREVIOUS_MAGIC
     then Inl ''sender speaks NMBL-EROFS-BUNDLE-3; NMBL-EROFS-BUNDLE-4 adds the rescue tools image''
     else if magic \<noteq> BUNDLE_MAGIC then Inl ''invalid protocol magic''
     else
       rbind (read_line st1) (\<lambda>(tools, st2).
       rbind (read_line st2) (\<lambda>(tools_signature, st3).
       rbind (read_line st3) (\<lambda>(reboot, st4).
       let i = field first 1; config_id = field first 5 in
       rbind (ensure (valid_id i) ''invalid generation id'') (\<lambda>_.
       rbind (ensure (valid_id config_id) ''invalid config id'') (\<lambda>_.
       rbind (payload_sizes (map (field first) [2, 3, 4, 6, 7, 8, 9, 10, 11, 12, 13, 14, 15])) (\<lambda>nums.
       rbind (payload_size tools) (\<lambda>t.
       rbind (payload_size tools_signature) (\<lambda>ts.
       rbind (reboot_flag reboot) (\<lambda>rb.
       rbind (check_sizes
         \<lparr>bh_id = i, bh_image = nums ! 0, bh_image_signature = nums ! 1, bh_system = nums ! 2,
          bh_config_id = config_id, bh_config = nums ! 3, bh_config_signature = nums ! 4,
          bh_kernel = nums ! 5, bh_kernel_signature = nums ! 6, bh_initrd = nums ! 7,
          bh_initrd_signature = nums ! 8, bh_rescue = nums ! 9, bh_rescue_signature = nums ! 10,
          bh_network = nums ! 11, bh_network_signature = nums ! 12, bh_tools = t,
          bh_tools_signature = ts, bh_reboot = rb\<rparr>) (\<lambda>h.
       Inr (h, st4))))))))))))"

subsection \<open>Payloads\<close>

type_synonym members = "string \<Rightarrow> bytes option"

text \<open>\<open>members\<close>: what opening and reading a file of a directory gives. \<open>creatable\<close> says
  which files of the scratch directory can be created and written.\<close>

definition receive_file ::
  "(string \<Rightarrow> bool) \<Rightarrow> input_stream \<Rightarrow> nat \<Rightarrow> string \<Rightarrow> string + bytes \<times> input_stream" where
  "receive_file creatable st n name =
     (if \<not> creatable name then Inl name
      else let content = take n (unread st) in
        if length content < n then Inl (if breaks st then name else ''truncated payload'')
        else Inr (content, st\<lparr>unread := drop n (unread st)\<rparr>))"

fun receive_payloads ::
  "(string \<Rightarrow> bool) \<Rightarrow> input_stream \<Rightarrow> (nat \<times> string) list \<Rightarrow> members \<Rightarrow> string + members \<times> input_stream" where
  "receive_payloads creatable st [] tmp = Inr (tmp, st)"
| "receive_payloads creatable st ((n, name) # ps) tmp =
     rbind (receive_file creatable st n name) (\<lambda>(content, st1).
     receive_payloads creatable st1 ps (tmp(name \<mapsto> content)))"

definition payload_list :: "bundle_header \<Rightarrow> (nat \<times> string) list" where
  "payload_list h =
     [(bh_image h, ''nix.erofs''), (bh_image_signature h, ''nix.erofs.sig'')]
     @ (if bh_system h > 0 then [(bh_system h, ''system'')] else [])
     @ [(bh_config h, ''config.toml''), (bh_config_signature h, ''config.toml.sig''),
        (bh_kernel h, ''kernel''), (bh_kernel_signature h, ''kernel.sig''),
        (bh_initrd h, ''initrd''), (bh_initrd_signature h, ''initrd.sig''),
        (bh_rescue h, ''rescue.sfs''), (bh_rescue_signature h, ''rescue.sfs.sig'')]
     @ (if bh_network h > 0
        then [(bh_network h, ''network.erofs''), (bh_network_signature h, ''network.erofs.sig'')] else [])
     @ (if bh_tools h > 0
        then [(bh_tools h, ''rescue-tools.erofs''), (bh_tools_signature h, ''rescue-tools.erofs.sig'')] else [])"

subsection \<open>Comparing and verifying files\<close>

text \<open>
  \<open>BufReader\<close>: the buffers \<open>fill_buf\<close> gives, one after the other, none of them empty; an empty
  list is the end of the file. How long they are depends on the reads, so the comparison is
  defined for any division of the two files. \<^const>\<open>None\<close> at the end is a read error.
\<close>

type_synonym buffers = "bytes list \<times> bool"

definition fill_buf :: "buffers \<Rightarrow> bytes option" where
  "fill_buf r = (case r of
     (b # bs, broken) \<Rightarrow> Some b
   | ([], broken) \<Rightarrow> if broken then None else Some [])"

fun consume :: "nat \<Rightarrow> buffers \<Rightarrow> buffers" where
  "consume n ([], broken) = ([], broken)"
| "consume n (b # bs, broken) = (if n < length b then drop n b # bs else bs, broken)"

definition buffered :: "buffers \<Rightarrow> nat" where
  "buffered r = length (concat (fst r)) + length (fst r)"

lemma consume_less:
  "fill_buf r = Some b \<Longrightarrow> b \<noteq> [] \<Longrightarrow> 0 < n \<Longrightarrow> buffered (consume n r) < buffered r"
  by (cases "(n, r)" rule: consume.cases) (auto simp: fill_buf_def buffered_def split: if_splits)

lemma consume_le: "buffered (consume n r) \<le> buffered r"
  by (cases "(n, r)" rule: consume.cases) (auto simp: buffered_def)

lemma consume_both_less:
  "fill_buf l = Some a \<Longrightarrow> \<not> (a = [] \<or> b = []) \<Longrightarrow> n = min (length a) (length b)
   \<Longrightarrow> buffered (consume n l) + buffered (consume n r) < buffered l + buffered r"
  using consume_less [of l a n] consume_le [of n r] by simp

function same_loop :: "buffers \<Rightarrow> buffers \<Rightarrow> bool" where
  "same_loop l r =
     (case (fill_buf l, fill_buf r) of
        (Some a, Some b) \<Rightarrow>
          if a = [] \<or> b = [] then a = [] \<and> b = []
          else let n = min (length a) (length b) in
            if take n a \<noteq> take n b then False else same_loop (consume n l) (consume n r)
      | _ \<Rightarrow> False)"
  by pat_completeness auto

termination
  by (relation "measure (\<lambda>(l, r). buffered l + buffered r)") 
    (simp, simp only: in_measure prod.case, rule consume_both_less, auto)

declare same_loop.simps [simp del]

lemma consume_inv: "[] \<notin> set (fst r) \<Longrightarrow> [] \<notin> set (fst (consume n r))"
  by (cases "(n, r)" rule: consume.cases) auto

lemma snd_consume [simp]: "snd (consume n r) = snd r"
  by (cases "(n, r)" rule: consume.cases) auto

lemma concat_consume:
  "fill_buf r = Some b \<Longrightarrow> b \<noteq> [] \<Longrightarrow> n \<le> length b
    \<Longrightarrow> concat (fst r) = take n b @ concat (fst (consume n r))"
  by (cases "(n, r)" rule: consume.cases) (auto simp: fill_buf_def split: if_splits)

lemma fill_buf_end:
  "fill_buf r = None \<longleftrightarrow> fst r = [] \<and> snd r"
  "[] \<notin> set (fst r) \<Longrightarrow> fill_buf r = Some [] \<longleftrightarrow> fst r = [] \<and> \<not> snd r"
  by (auto simp: fill_buf_def split: prod.splits list.splits if_splits)

lemma same_loop_iff:
  assumes "[] \<notin> set (fst l)" "[] \<notin> set (fst r)"
  shows "same_loop l r \<longleftrightarrow> \<not> snd l \<and> \<not> snd r \<and> concat (fst l) = concat (fst r)"
  using assms
proof (induction l r rule: same_loop.induct)
  case (1 l r)
  consider (bad) "fill_buf l = None \<or> fill_buf r = None"
    | (stop) a b where "fill_buf l = Some a" "fill_buf r = Some b" "a = [] \<or> b = []"
    | (more) a b where "fill_buf l = Some a" "fill_buf r = Some b" "a \<noteq> []" "b \<noteq> []"
    by (cases "fill_buf l"; cases "fill_buf r") auto
  then show ?case
  proof cases
    case bad
    then have "\<not> same_loop l r" by (subst same_loop.simps) (auto split: option.splits)
    moreover from bad have "snd l \<or> snd r" by (auto simp: fill_buf_end(1))
    ultimately show ?thesis by blast
  next
    case stop
    then show ?thesis using 1(2,3)
      by (subst same_loop.simps)
        (auto simp: fill_buf_def split: prod.splits list.splits if_splits)
  next
    case more
    let ?n = "min (length a) (length b)"
    have c: "concat (fst l) = take ?n a @ concat (fst (consume ?n l))"
      "concat (fst r) = take ?n b @ concat (fst (consume ?n r))"
      using more by (auto intro: concat_consume)
    show ?thesis
    proof (cases "take ?n a = take ?n b")
      case True
      have "same_loop l r = same_loop (consume ?n l) (consume ?n r)"
        using more True by (subst same_loop.simps) (simp add: Let_def)
      also have "\<dots> \<longleftrightarrow> \<not> snd l \<and> \<not> snd r \<and> concat (fst (consume ?n l)) = concat (fst (consume ?n r))"
        using 1(1) [of "Some a" "Some b" a b ?n] 1(2,3) more True by (simp add: consume_inv)
      finally show ?thesis using c True by simp
    next
      case False
      then have "\<not> same_loop l r" using more by (subst same_loop.simps) (simp add: Let_def)
      moreover have "concat (fst l) \<noteq> concat (fst r)"
        using False c by (auto simp: append_eq_append_conv)
      ultimately show ?thesis by simp
    qed
  qed
qed

text \<open>The standard reader: buffers of 8192 bytes, the last one shorter.\<close>

function buffers_of :: "bytes \<Rightarrow> bytes list" where
  "buffers_of b = (if b = [] then [] else take 8192 b # buffers_of (drop 8192 b))"
  by pat_completeness auto

termination
  by (relation "measure length") auto

declare buffers_of.simps [simp del]

lemma buffers_of: "concat (buffers_of b) = b \<and> [] \<notin> set (buffers_of b)"
proof (induction b rule: buffers_of.induct)
  case (1 b)
  then show ?case by (subst (1 2) buffers_of.simps) auto
qed

definition same_file :: "bytes option \<Rightarrow> bytes option \<Rightarrow> bool" where
  "same_file left right =
     (case (left, right) of
        (Some a, Some b) \<Rightarrow> same_loop (buffers_of a, False) (buffers_of b, False)
      | _ \<Rightarrow> False)"

lemma same_file_iff: "same_file a b \<longleftrightarrow> a \<noteq> None \<and> a = b"
  by (auto simp: same_file_def same_loop_iff buffers_of split: option.splits)

definition verify_member ::
  "crypto \<Rightarrow> bytes \<Rightarrow> string \<Rightarrow> string \<Rightarrow> members \<Rightarrow> string + unit" where
  "verify_member cr public_key role name dir =
     rbind (ok_or (''unknown signing role '' @ role) (domain_for role)) (\<lambda>domain.
     rbind (ok_or (name @ ''.sig'') (dir (name @ ''.sig''))) (\<lambda>sidecar.
     rbind (ok_or name (dir name)) (\<lambda>input.
     map_err (\<lambda>_. name) (verify_reader cr (Some input) public_key domain sidecar))))"

definition pins_rescue_tools :: "bytes \<Rightarrow> bool" where
  "pins_rescue_tools config \<longleftrightarrow> ''[rescue.tools]'' \<in> set (split_on newline config)"

lemma verify_member_iff:
  "verify_member cr public_key role name dir = Inr () \<longleftrightarrow>
    (\<exists>domain content sb. domain_for role = Some domain \<and> dir name = Some content
      \<and> dir (name @ ''.sig'') = Some sb \<and> signed_by cr public_key content domain sb)"
  by (auto simp: verify_member_def rbind_Inr_iff verify_reader_iff)

subsection \<open>The store\<close>

text \<open>
  What is under \<open>generations\<close>: a directory with what its files read, or something that is no
  directory. Directories whose name starts with a dot (a copy in progress) are not entries.
\<close>

datatype store_entry = Other_Entry | Gen_Dir members

record image_store =
  store_entries :: "string \<Rightarrow> store_entry option"
  selectors :: gen_state

definition store_dir :: "image_store \<Rightarrow> string \<Rightarrow> members option" where
  "store_dir st i = (case store_entries st i of Some (Gen_Dir m) \<Rightarrow> Some m | _ \<Rightarrow> None)"

definition in_store :: "image_store \<Rightarrow> string \<Rightarrow> string \<Rightarrow> bytes option" where
  "in_store st i name = (case store_dir st i of Some m \<Rightarrow> m name | None \<Rightarrow> None)"

definition validate_generation :: "crypto \<Rightarrow> image_store \<Rightarrow> string \<Rightarrow> string + unit" where
  "validate_generation cr st i =
     rbind (ensure (valid_id i) (''invalid generation id: '' @ i)) (\<lambda>_.
     rbind (ok_or (''generation '' @ i @ '' has no image'') (in_store st i ''nix.erofs'')) (\<lambda>img.
     rbind (ok_or (''generation '' @ i @ '' has no signature'') (in_store st i ''nix.erofs.sig'')) (\<lambda>_.
     let actual = hex_lower (sha512 cr img) in
     ensure (actual = i) (''generation '' @ i @ '' content hash is '' @ actual))))"

definition EXTRA_MEMBERS :: "string list" where
  "EXTRA_MEMBERS = [''kernel.sig'', ''initrd.sig'', ''rescue.sfs'', ''rescue.sfs.sig'',
     ''network.erofs'', ''network.erofs.sig'', ''rescue-tools.erofs'', ''rescue-tools.erofs.sig'']"

definition REQUIRED_MEMBERS :: "string list" where
  "REQUIRED_MEMBERS = [''kernel.sig'', ''initrd.sig'', ''rescue.sfs'', ''rescue.sfs.sig'']"

fun copy_members :: "members \<Rightarrow> string list \<Rightarrow> members \<Rightarrow> members" where
  "copy_members bundle_dir [] out = out"
| "copy_members bundle_dir (name # names) out =
     (case bundle_dir name of
        None \<Rightarrow> copy_members bundle_dir names out
      | Some content \<Rightarrow> copy_members bundle_dir names (out(name \<mapsto> content)))"

text \<open>
  Where an installation can stop with an I/O error or a loss of power: before the target is
  looked at, while the copy is made (the guard removes it, and until the rename it has a name that
  is no entry), or in the sync after the rename.
\<close>

datatype install_fault = Install_Fine | Dirs_Fail | Copy_Fails | Sync_Fails

definition install_generation ::
  "crypto \<Rightarrow> install_fault \<Rightarrow> members \<Rightarrow> image_store \<Rightarrow> string \<Rightarrow> (string + unit) \<times> image_store" where
  "install_generation cr fault bundle_dir st i =
     (case bundle_dir ''nix.erofs'' of
        None \<Rightarrow> (Inl ''nix.erofs'', st)
      | Some img \<Rightarrow>
          if hex_lower (sha512 cr img) \<noteq> i
          then (Inl ''bundle image hash does not match generation id'', st)
          else if fault = Dirs_Fail then (Inl ''create'', st)
          else if store_dir st i \<noteq> None then (validate_generation cr st i, st)
          else if fault = Copy_Fails \<or> store_entries st i \<noteq> None then (Inl i, st)
          else let
            copied = copy_members bundle_dir
              ([''nix.erofs'', ''nix.erofs.sig'', ''system'', ''config.toml'', ''config.toml.sig'']
               @ EXTRA_MEMBERS) (\<lambda>_. None);
            st1 = st\<lparr>store_entries := (store_entries st)
              (i \<mapsto> Gen_Dir (copied(''generation'' \<mapsto> i @ [newline])))\<rparr>
          in if fault = Sync_Fails then (Inl ''sync'', st1)
             else (validate_generation cr st1 i, st1))"

subsection \<open>Activation\<close>

abbreviation "previous_sel \<equiv> ''previous''"

definition target_id :: "image_store \<Rightarrow> string \<Rightarrow> string option" where
  "target_id st name =
     (case links (selectors st) name of
        Link target \<Rightarrow>
          (case strip_prefix ''generations/'' target of
             None \<Rightarrow> None
           | Some i \<Rightarrow> if valid_id i \<and> store_dir st i \<noteq> None then Some i else None)
      | _ \<Rightarrow> None)"

definition activate_plan :: "crypto \<Rightarrow> image_store \<Rightarrow> string \<Rightarrow> string + unit \<times> gs_op list" where
  "activate_plan cr st i =
     rbind (validate_generation cr st i) (\<lambda>_.
     let old = target_id st active_sel; tested = target_id st tested_sel
     in Inr ((),
          (case old of Some old \<Rightarrow> if old \<noteq> i then [Replace_Link previous_sel old] else [] | None \<Rightarrow> [])
          @ [Replace_Link active_sel i]
          @ (if tested = Some i then [Remove_State pending_sel] else [Replace_Link pending_sel i])
          @ [Remove_State attempted_sel, Remove_State event_sel]))"

definition activate ::
  "crypto \<Rightarrow> bool \<Rightarrow> nat option \<Rightarrow> image_store \<Rightarrow> string \<Rightarrow> (string + unit) \<times> image_store" where
  "activate cr lock_ok fault st i =
     (if \<not> lock_ok then (Inl ''lock'', st)
      else case fault_with ''sync'' fault (activate_plan cr st i) (selectors st) of
        (r, s) \<Rightarrow> (r, st\<lparr>selectors := s\<rparr>))"

subsection \<open>Receiving\<close>

text \<open>The answers of the operating system: the key file, whether the scratch directory and its
  files can be made, whether modes can be set, and the faults of the installation and the activation.\<close>

record receive_env =
  re_key_is_file :: bool
  re_key :: "bytes option"
  re_scratch_ok :: bool
  re_creatable :: "string \<Rightarrow> bool"
  re_modes_ok :: bool
  re_install :: install_fault
  re_lock_ok :: bool
  re_fault :: "nat option"

definition absolute_outside_store :: "string \<Rightarrow> bool" where
  "absolute_outside_store path \<longleftrightarrow> is_absolute path \<and> \<not> starts_with ''/nix/store'' path"

definition at_end :: "input_stream \<Rightarrow> string + unit" where
  "at_end st =
     (if unread st \<noteq> [] then Inl ''trailing protocol data''
      else if breaks st then Inl ''read trailing data'' else Inr ())"

definition signed_members :: "bundle_header \<Rightarrow> (string \<times> string) list" where
  "signed_members h =
     [(''generation-image'', ''nix.erofs''), (''boot-config'', ''config.toml''),
      (''gen-kernel'', ''kernel''), (''gen-initrd'', ''initrd''), (''rescue-sfs'', ''rescue.sfs'')]
     @ (if bh_network h > 0 then [(''network-stage'', ''network.erofs'')] else [])
     @ (if bh_tools h > 0 then [(''rescue-tools'', ''rescue-tools.erofs'')] else [])"

fun verify_members ::
  "crypto \<Rightarrow> bytes \<Rightarrow> members \<Rightarrow> (string \<times> string) list \<Rightarrow> string + unit" where
  "verify_members cr public_key dir [] = Inr ()"
| "verify_members cr public_key dir ((role, name) # ps) =
     rbind (verify_member cr public_key role name dir) (\<lambda>_. verify_members cr public_key dir ps)"

definition compared :: "bundle_header \<Rightarrow> string list" where
  "compared h = REQUIRED_MEMBERS
     @ (if bh_network h > 0 then [''network.erofs'', ''network.erofs.sig''] else [])
     @ (if bh_tools h > 0 then [''rescue-tools.erofs'', ''rescue-tools.erofs.sig''] else [])"

fun compare_members :: "string \<Rightarrow> members \<Rightarrow> members \<Rightarrow> string list \<Rightarrow> string + unit" where
  "compare_members what tmp dir [] = Inr ()"
| "compare_members what tmp dir (name # names) =
     rbind (ensure (same_file (tmp name) (dir name)) (what @ '' '' @ name @ '' differs'')) (\<lambda>_.
     compare_members what tmp dir names)"

definition check_hash :: "crypto \<Rightarrow> members \<Rightarrow> string \<Rightarrow> string \<Rightarrow> string \<Rightarrow> string + unit" where
  "check_hash cr tmp name i e =
     rbind (ok_or name (tmp name)) (\<lambda>content. ensure (hex_lower (sha512 cr content) = i) e)"

text \<open>The rescue tools image comes with the bundle exactly when the configuration pins it.\<close>

definition check_tools_pin :: "bundle_header \<Rightarrow> members \<Rightarrow> string + unit" where
  "check_tools_pin h tmp =
     rbind (ok_or ''config.toml'' (tmp ''config.toml'')) (\<lambda>config.
     if pins_rescue_tools config
     then ensure (bh_tools h \<noteq> 0) ''config pins a rescue tools image the bundle lacks''
     else ensure (bh_tools h = 0) ''bundle carries a rescue tools image its config does not pin'')"

text \<open>The part of \<open>receive\<close> that fills the scratch directory and verifies it.\<close>

definition receive_verified ::
  "crypto \<Rightarrow> receive_env \<Rightarrow> input_stream \<Rightarrow> string + bytes \<times> bundle_header \<times> members" where
  "receive_verified cr env input =
     rbind (parse_header input) (\<lambda>(h, st1).
     rbind (ok_or ''public key'' (re_key env)) (\<lambda>public_key.
     rbind (ensure (re_scratch_ok env) ''incoming'') (\<lambda>_.
     rbind (receive_payloads (re_creatable env) st1 (payload_list h) (\<lambda>_. None)) (\<lambda>(received, st2).
     rbind (at_end st2) (\<lambda>_.
     rbind (ensure (re_creatable env ''generation'') ''write generation'') (\<lambda>_.
     let tmp = received(''generation'' \<mapsto> bh_id h @ [newline]) in
     rbind (check_hash cr tmp ''nix.erofs'' (bh_id h) ''image hash does not match generation id'') (\<lambda>_.
     rbind (check_hash cr tmp ''config.toml'' (bh_config_id h) ''config hash does not match config id'') (\<lambda>_.
     rbind (check_tools_pin h tmp) (\<lambda>_.
     rbind (verify_members cr public_key tmp (signed_members h)) (\<lambda>_.
     rbind (ensure (re_modes_ok env) ''mode'') (\<lambda>_.
     Inr (public_key, h, tmp))))))))))))"

definition compare_existing ::
  "crypto \<Rightarrow> bytes \<Rightarrow> image_store \<Rightarrow> bundle_header \<Rightarrow> members \<Rightarrow> string + unit" where
  "compare_existing cr public_key st h tmp =
     (case store_entries st (bh_id h) of
        None \<Rightarrow> Inr ()
      | Some Other_Entry \<Rightarrow> Inl ''existing generation path is not a directory''
      | Some (Gen_Dir dir) \<Rightarrow>
          rbind (ensure (same_file (tmp ''nix.erofs'') (dir ''nix.erofs''))
                   ''existing generation image differs'') (\<lambda>_.
          rbind (verify_member cr public_key ''generation-image'' ''nix.erofs'' dir) (\<lambda>_.
          rbind (ensure (same_file (tmp ''config.toml'') (dir ''config.toml''))
                   ''existing config differs'') (\<lambda>_.
          rbind (verify_member cr public_key ''boot-config'' ''config.toml'' dir) (\<lambda>_.
          compare_members ''existing'' tmp dir (compared h))))))"

definition compare_installed ::
  "crypto \<Rightarrow> bytes \<Rightarrow> image_store \<Rightarrow> bundle_header \<Rightarrow> members \<Rightarrow> string + unit" where
  "compare_installed cr public_key st h tmp =
     (let dir = in_store st (bh_id h) in
     rbind (ensure (same_file (tmp ''config.toml'') (dir ''config.toml''))
              ''installed config differs'') (\<lambda>_.
     rbind (verify_member cr public_key ''boot-config'' ''config.toml'' dir) (\<lambda>_.
     compare_members ''installed'' tmp dir (compared h))))"

definition receive ::
  "crypto \<Rightarrow> receive_env \<Rightarrow> input_stream \<Rightarrow> string \<Rightarrow> string \<Rightarrow> image_store
   \<Rightarrow> (string + string \<times> bool) \<times> image_store" where
  "receive cr env input incoming image_root st =
     (if \<not> absolute_outside_store incoming then (Inl ''invalid incoming root'', st)
      else if \<not> absolute_outside_store image_root then (Inl ''invalid image root'', st)
      else if \<not> re_key_is_file env then (Inl ''trusted public key is missing'', st)
      else case receive_verified cr env input of
        Inl e \<Rightarrow> (Inl e, st)
      | Inr (public_key, h, tmp) \<Rightarrow>
          (case compare_existing cr public_key st h tmp of
             Inl e \<Rightarrow> (Inl e, st)
           | Inr _ \<Rightarrow>
               (case install_generation cr (re_install env) tmp st (bh_id h) of
                  (Inl e, st1) \<Rightarrow> (Inl e, st1)
                | (Inr _, st1) \<Rightarrow>
                    (case compare_installed cr public_key st1 h tmp of
                       Inl e \<Rightarrow> (Inl e, st1)
                     | Inr _ \<Rightarrow>
                         (case activate cr (re_lock_ok env) (re_fault env) st1 (bh_id h) of
                            (Inl e, st2) \<Rightarrow> (Inl e, st2)
                          | (Inr _, st2) \<Rightarrow> (Inr (bh_id h, bh_reboot h), st2))))))"

text \<open>The entry point: \<open>args\<close> are the arguments, \<open>systemctl\<close> how the reboot command ends (\<^const>\<open>None\<close>
  when it cannot be run); the last component of the result is what is printed.\<close>

definition receive_main ::
  "crypto \<Rightarrow> receive_env \<Rightarrow> input_stream \<Rightarrow> bool \<Rightarrow> bool option \<Rightarrow> string list \<Rightarrow> image_store
   \<Rightarrow> (string + unit) \<times> image_store \<times> string list" where
  "receive_main cr env input stdout_ok systemctl args st =
     (case args of
        [incoming, image_root, public_key] \<Rightarrow>
          (case receive cr env input incoming image_root st of
             (Inl e, st1) \<Rightarrow> (Inl e, st1, [])
           | (Inr (i, reboot), st1) \<Rightarrow>
               if \<not> stdout_ok then (Inl ''write generation id'', st1, [])
               else if reboot
               then (rbind (ok_or ''systemctl'' systemctl) (\<lambda>success. ensure success ''systemctl reboot''), st1, [i])
               else (Inr (), st1, [i]))
      | _ \<Rightarrow> (Inl ''usage: nmbl-erofs-receive INCOMING_ROOT IMAGE_ROOT PUBLIC_KEY'', st, []))"

subsection \<open>What the parts establish\<close>

lemma validate_generation_iff:
  "validate_generation cr st i = Inr () \<longleftrightarrow>
    valid_id i \<and> (\<exists>img sb. in_store st i ''nix.erofs'' = Some img
      \<and> in_store st i ''nix.erofs.sig'' = Some sb \<and> hex_lower (sha512 cr img) = i)"
  by (auto simp: validate_generation_def rbind_Inr_iff Let_def)

lemma copy_members:
  "copy_members b names out name = (if name \<in> set names \<and> b name \<noteq> None then b name else out name)"
  by (induction names arbitrary: out) (auto split: option.splits)

lemma verify_members_iff:
  "verify_members cr pk dir ps = Inr () \<longleftrightarrow>
    (\<forall>(role, name)\<in>set ps. verify_member cr pk role name dir = Inr ())"
  by (induction ps) (auto simp: rbind_Inr_iff)

lemma compare_members_iff:
  "compare_members what tmp dir names = Inr () \<longleftrightarrow>
    (\<forall>name\<in>set names. tmp name \<noteq> None \<and> dir name = tmp name)"
  by (induction names) (auto simp: rbind_Inr_iff same_file_iff)

text \<open>A member is signed for a role: both files are there and the key accepts them.\<close>

definition member_signed :: "crypto \<Rightarrow> bytes \<Rightarrow> string \<Rightarrow> string \<Rightarrow> members \<Rightarrow> bool" where
  "member_signed cr pk role name m \<longleftrightarrow>
     (\<exists>domain content sb. domain_for role = Some domain \<and> m name = Some content
        \<and> m (name @ ''.sig'') = Some sb \<and> signed_by cr pk content domain sb)"

lemma verify_member_signed: "verify_member cr pk role name m = Inr () \<longleftrightarrow> member_signed cr pk role name m"
  by (simp add: verify_member_iff member_signed_def)

lemma member_signed_cong:
  "member_signed cr pk role name m \<Longrightarrow> m' name = m name \<Longrightarrow> m' (name @ ''.sig'') = m (name @ ''.sig'')
    \<Longrightarrow> member_signed cr pk role name m'"
  by (simp add: member_signed_def)

text \<open>A stored image is named by its hash and signed as a generation image.\<close>

definition image_ok :: "crypto \<Rightarrow> bytes \<Rightarrow> string \<Rightarrow> members \<Rightarrow> bool" where
  "image_ok cr pk i m \<longleftrightarrow>
     member_signed cr pk ''generation-image'' ''nix.erofs'' m
     \<and> map_option (\<lambda>img. hex_lower (sha512 cr img)) (m ''nix.erofs'') = Some i"

definition store_ok :: "crypto \<Rightarrow> bytes \<Rightarrow> image_store \<Rightarrow> bool" where
  "store_ok cr pk st \<longleftrightarrow> (\<forall>i m. store_dir st i = Some m \<longrightarrow> image_ok cr pk i m)"

lemma receive_verified_InrD:
  assumes "receive_verified cr env input = Inr (pk, h, tmp)"
  shows "re_key env = Some pk"
    and "\<exists>st1. parse_header input = Inr (h, st1)"
    and "image_ok cr pk (bh_id h) tmp"
    and "map_option (\<lambda>c. hex_lower (sha512 cr c)) (tmp ''config.toml'') = Some (bh_config_id h)"
    and "\<And>role name. (role, name) \<in> set (signed_members h) \<Longrightarrow> member_signed cr pk role name tmp"
    and "tmp ''generation'' = Some (bh_id h @ [newline])"
  using assms
  by (auto simp: receive_verified_def rbind_Inr_iff Let_def verify_members_iff verify_member_signed
      check_hash_def image_ok_def signed_members_def)

lemma store_dir_update:
  "store_dir (st\<lparr>store_entries := (store_entries st)(i \<mapsto> Gen_Dir m)\<rparr>) j
    = (if j = i then Some m else store_dir st j)"
  by (simp add: store_dir_def)

lemma store_dir_selectors [simp]: "store_dir (st\<lparr>selectors := s\<rparr>) = store_dir st"
  by (rule ext) (simp add: store_dir_def)

definition installed_members :: "members \<Rightarrow> string \<Rightarrow> members" where
  "installed_members tmp i name =
     (if name = ''generation'' then Some (i @ [newline])
      else if name \<in> {''nix.erofs'', ''nix.erofs.sig'', ''system'', ''config.toml'', ''config.toml.sig''}
                   \<union> set EXTRA_MEMBERS
      then tmp name else None)"

lemma installed_members_copy:
  "(copy_members tmp ([''nix.erofs'', ''nix.erofs.sig'', ''system'', ''config.toml'', ''config.toml.sig'']
      @ EXTRA_MEMBERS) (\<lambda>_. None))(''generation'' \<mapsto> i @ [newline]) = installed_members tmp i"
  by (rule ext) (simp only: fun_upd_apply copy_members installed_members_def, auto)

lemma install_cases:
  assumes "install_generation cr fault tmp st i = (r, st1)"
  obtains (old) "st1 = st" "r = Inr () \<Longrightarrow> store_dir st i \<noteq> None \<and> validate_generation cr st i = Inr ()"
  | (new) "store_entries st i = None"
      "st1 = st\<lparr>store_entries := (store_entries st)(i \<mapsto> Gen_Dir (installed_members tmp i))\<rparr>"
      "r = Inr () \<Longrightarrow> validate_generation cr st1 i = Inr ()"
proof -
  let ?st1 = "st\<lparr>store_entries := (store_entries st)(i \<mapsto> Gen_Dir (installed_members tmp i))\<rparr>"
  have "st1 = st \<and> (r = Inr () \<longrightarrow> store_dir st i \<noteq> None \<and> validate_generation cr st i = Inr ())
      \<or> store_entries st i = None \<and> st1 = ?st1 \<and> (r = Inr () \<longrightarrow> validate_generation cr ?st1 i = Inr ())"
    using assms unfolding install_generation_def installed_members_copy Let_def
    by (cases "tmp ''nix.erofs''") (simp_all only: option.case prod.inject split: if_splits, auto)
  then show thesis using old new by blast
qed

lemma image_ok_installed: "image_ok cr pk i tmp \<Longrightarrow> image_ok cr pk i (installed_members tmp i)"
  by (auto simp: image_ok_def installed_members_def elim: member_signed_cong)

lemma install_keeps_store:
  assumes "install_generation cr fault tmp st i = (r, st1)" "store_ok cr pk st" "image_ok cr pk i tmp"
  shows "store_ok cr pk st1 \<and> selectors st1 = selectors st \<and>
    (\<forall>j. store_dir st j \<noteq> None \<longrightarrow> store_dir st1 j = store_dir st j)"
  using assms(1)
proof (cases rule: install_cases)
  case old
  then show ?thesis using assms(2) by simp
next
  case new
  then have "store_dir st i = None" by (simp add: store_dir_def)
  with new(2) assms(2,3) show ?thesis
    by (auto simp: store_ok_def store_dir_update image_ok_installed)
qed

lemma receive_cases:
  assumes "receive cr env input incoming root st = (r, st')"
  obtains (refused) e where "r = Inl e" "st' = st"
  | (stopped) e pk h tmp q where "receive_verified cr env input = Inr (pk, h, tmp)"
      "install_generation cr (re_install env) tmp st (bh_id h) = (q, st')" "r = Inl e"
  | (activated) pk h tmp st1 q where "receive_verified cr env input = Inr (pk, h, tmp)"
      "compare_existing cr pk st h tmp = Inr ()"
      "install_generation cr (re_install env) tmp st (bh_id h) = (Inr (), st1)"
      "compare_installed cr pk st1 h tmp = Inr ()"
      "activate cr (re_lock_ok env) (re_fault env) st1 (bh_id h) = (q, st')"
      "r = rbind q (\<lambda>_. Inr (bh_id h, bh_reboot h))"
proof (cases "\<exists>e. r = Inl e \<and> st' = st")
  case True
  then show thesis using refused by blast
next
  case False
  with assms obtain pk h tmp where v: "receive_verified cr env input = Inr (pk, h, tmp)"
    by (auto simp: receive_def split: if_splits sum.splits)
  obtain q st1 where i: "install_generation cr (re_install env) tmp st (bh_id h) = (q, st1)" by fastforce
  obtain q2 st2 where a: "activate cr (re_lock_ok env) (re_fault env) st1 (bh_id h) = (q2, st2)" by fastforce
  note parts = assms [unfolded receive_def v sum.case prod.case i a]
  from parts False have x: "compare_existing cr pk st h tmp = Inr ()"
    by (auto split: if_splits sum.splits)
  note parts = parts [unfolded x sum.case]
  show thesis
  proof (cases "q = Inr () \<and> compare_installed cr pk st1 h tmp = Inr ()")
    case True
    with parts False have "st' = st2" "r = rbind q2 (\<lambda>_. Inr (bh_id h, bh_reboot h))"
      by (auto split: if_splits sum.splits)
    with True v x i a show thesis by (auto intro: activated)
  next
    case bad: False
    with parts False have "st' = st1 \<and> (\<exists>e. r = Inl e)" by (auto split: if_splits sum.splits)
    with v i show thesis by (auto intro: stopped)
  qed
qed

subsection \<open>The loader and the receiver on one store\<close>

text \<open>Both bundle files are there: what the loader asks of a selector's image.\<close>

definition complete_in :: "image_store \<Rightarrow> string \<Rightarrow> bool" where
  "complete_in st i \<longleftrightarrow> in_store st i ''nix.erofs'' \<noteq> None \<and> in_store st i ''nix.erofs.sig'' \<noteq> None"

definition deploy_inv :: "crypto \<Rightarrow> bytes \<Rightarrow> image_store \<Rightarrow> bool" where
  "deploy_inv cr pk st \<longleftrightarrow> store_ok cr pk st \<and> gs_inv (complete_in st) (selectors st)"

datatype deploy_event = Receive receive_env input_stream string string | Loader gs_event

fun deploy_step :: "crypto \<Rightarrow> bytes \<Rightarrow> image_store \<Rightarrow> deploy_event \<Rightarrow> image_store" where
  "deploy_step cr pk st (Receive env input incoming root) =
     snd (receive cr (env\<lparr>re_key := Some pk\<rparr>) input incoming root st)"
| "deploy_step cr pk st (Loader e) = st\<lparr>selectors := gs_step (complete_in st) (selectors st) e\<rparr>"

lemma complete_in_selectors [simp]: "complete_in (st\<lparr>selectors := s\<rparr>) = complete_in st"
  by (rule ext) (simp add: complete_in_def in_store_def)

lemma complete_in_store_ok: "store_ok cr pk st \<Longrightarrow> store_dir st i \<noteq> None \<Longrightarrow> complete_in st i"
  by (fastforce simp: store_ok_def image_ok_def member_signed_def complete_in_def in_store_def)

lemma complete_inD: "complete_in st i \<Longrightarrow> store_dir st i \<noteq> None"
  by (auto simp: complete_in_def in_store_def split: option.splits)

lemma gs_inv_mono: "gs_inv c s \<Longrightarrow> (\<And>i. c i \<Longrightarrow> c' i) \<Longrightarrow> gs_inv c' s"
  by (auto simp: gs_inv_def good_id_def)

lemma complete_in_mono:
  "\<forall>j. store_dir st j \<noteq> None \<longrightarrow> store_dir st1 j = store_dir st j \<Longrightarrow> complete_in st i \<Longrightarrow> complete_in st1 i"
  using complete_inD [of st i] by (simp add: complete_in_def in_store_def)

lemma validate_generation_good:
  "validate_generation cr st i = Inr () \<Longrightarrow> good_id (complete_in st) i"
  by (auto simp: validate_generation_iff good_id_def complete_in_def)

lemma target_id_SomeD:
  "target_id st name = Some i \<Longrightarrow> links (selectors st) name = link_to i \<and> valid_id i \<and> store_dir st i \<noteq> None"
  by (auto simp: target_id_def link_to_def strip_prefix_Some_iff split: link_view.splits option.splits if_splits)

lemma target_id_link:
  "links (selectors st) name = link_to i \<Longrightarrow> good_id (complete_in st) i \<Longrightarrow> target_id st name = Some i"
  using complete_inD [of st i]
  by (simp only: target_id_def link_to_def link_view.case strip_prefix_append option.case) (simp add: good_id_def)

lemma activate_plan_ok:
  assumes "activate_plan cr st i = Inr (u, ops)" "store_ok cr pk st"
  shows "list_all (op_ok (complete_in st)) ops"
proof -
  have "good_id (complete_in st) j" if "target_id st active_sel = Some j" for j
    using target_id_SomeD [OF that] complete_in_store_ok [OF assms(2)] by (simp add: good_id_def)
  then show ?thesis using assms(1)
    by (auto simp: activate_plan_def rbind_Inr_iff Let_def dest: validate_generation_good split: option.splits)
qed

lemma activate_keeps:
  assumes "activate cr lock fault st i = (r, st1)" "deploy_inv cr pk st"
  shows "deploy_inv cr pk st1"
proof -
  have "gs_inv (complete_in st) (snd (fault_with ''sync'' fault (activate_plan cr st i) (selectors st)))"
    using assms(2) by (intro fault_with_inv) (auto simp: deploy_inv_def intro: activate_plan_ok)
  with assms show ?thesis
    by (auto simp: activate_def deploy_inv_def store_ok_def split: if_splits prod.splits)
qed

lemma install_keeps:
  assumes "receive_verified cr env input = Inr (pk, h, tmp)"
    and "install_generation cr fault tmp st (bh_id h) = (r, st1)" "deploy_inv cr pk st"
  shows "deploy_inv cr pk st1"
  using install_keeps_store [OF assms(2) _ receive_verified_InrD(3) [OF assms(1)]] assms(3)
  by (auto simp: deploy_inv_def intro: gs_inv_mono complete_in_mono)

lemma receive_keeps:
  assumes "receive cr env input incoming root st = (r, st')" "re_key env = Some pk" "deploy_inv cr pk st"
  shows "deploy_inv cr pk st'"
  using assms(1)
proof (cases rule: receive_cases)
  case refused
  then show ?thesis using assms(3) by simp
next
  case (stopped e pk' h tmp q)
  then show ?thesis using receive_verified_InrD(1) [OF stopped(1)] assms(2,3) install_keeps by fastforce
next
  case (activated pk' h tmp st1 q)
  then show ?thesis
    using receive_verified_InrD(1) [OF activated(1)] assms(2,3) install_keeps activate_keeps by fastforce
qed

interpretation deploy: guarded_machine "deploy_step cr pk" "deploy_inv cr pk" for cr pk
proof
  fix st e
  assume i: "deploy_inv cr pk st"
  show "deploy_inv cr pk (deploy_step cr pk st e)"
  proof (cases e)
    case (Receive env input incoming root)
    then show ?thesis using receive_keeps [OF prod.collapse [symmetric] _ i] by simp
  next
    case (Loader e')
    then show ?thesis using i gs.inv_step [of "complete_in st" "selectors st"]
      by (simp add: deploy_inv_def store_ok_def)
  qed
qed

subsection \<open>The header, line by line\<close>

definition line_ok :: "string \<Rightarrow> bool" where
  "line_ok l \<longleftrightarrow> newline \<notin> set l \<and> length l \<le> MAX_HEADER_LINE \<and> valid_utf8 l"

definition text_of_lines :: "string list \<Rightarrow> string" where
  "text_of_lines ls = concat (map (\<lambda>l. l @ [newline]) ls)"

lemma split_once_take:
  "split_once c (take n s) = Some (a, b) \<Longrightarrow> s = a @ c # drop (Suc (length a)) s \<and> c \<notin> set a \<and> length a < n"
proof -
  assume "split_once c (take n s) = Some (a, b)"
  then have t: "take n s = a @ c # b" "c \<notin> set a" by (auto dest: split_once_SomeD)
  have l: "length a < n" using arg_cong [OF t(1), of length] by simp
  have "s = (a @ c # b) @ drop n s" using append_take_drop_id [of n s] by (simp only: t(1))
  then have "s = a @ c # (b @ drop n s)" by simp
  then have "drop (Suc (length a)) s = b @ drop n s" by (metis append_eq_conv_conj drop_Suc list.sel(3) tl_drop)
  with \<open>s = a @ c # (b @ drop n s)\<close> t(2) l show ?thesis by simp
qed

lemma read_line_iff:
  "read_line st = Inr (l, st') \<longleftrightarrow>
    line_ok l \<and> unread st = l @ newline # unread st' \<and> breaks st' = breaks st"
proof
  assume "read_line st = Inr (l, st')"
  then obtain b where b: "split_once newline (take (MAX_HEADER_LINE + 1) (unread st)) = Some (l, b)"
    "valid_utf8 l" "st' = st\<lparr>unread := drop (Suc (length l)) (unread st)\<rparr>"
    by (auto simp: read_line_def Let_def split: option.splits if_splits)
  from split_once_take [OF b(1)] b(2,3)
  show "line_ok l \<and> unread st = l @ newline # unread st' \<and> breaks st' = breaks st"
    by (auto simp: line_ok_def)
next
  assume a: "line_ok l \<and> unread st = l @ newline # unread st' \<and> breaks st' = breaks st"
  then have "take (MAX_HEADER_LINE + 1) (unread st)
      = l @ newline # take (MAX_HEADER_LINE - length l) (unread st')"
    by (auto simp: line_ok_def take_Cons' Suc_diff_le)
  moreover from a have "st\<lparr>unread := drop (Suc (length l)) (unread st)\<rparr> = st'"
    by simp
  ultimately show "read_line st = Inr (l, st')"
    using a by (simp add: read_line_def split_once_append line_ok_def)
qed

lemma read_lines_iff:
  "read_lines n st = Inr (ls, st') \<longleftrightarrow>
    length ls = n \<and> list_all line_ok ls \<and> unread st = text_of_lines ls @ unread st' \<and> breaks st' = breaks st"
proof (induction n arbitrary: st ls)
  case 0
  have "st = st' \<longleftrightarrow> unread st = unread st' \<and> breaks st = breaks st'" by (auto intro: input_stream.equality)
  then show ?case by (auto simp: text_of_lines_def)
next
  case (Suc n)
  show ?case
  proof (cases ls)
    case (Cons l ls')
    have "read_lines (Suc n) st = Inr (ls, st') \<longleftrightarrow>
      (\<exists>st1. read_line st = Inr (l, st1) \<and> read_lines n st1 = Inr (ls', st'))"
      by (auto simp: rbind_Inr_iff Cons)
    also have "\<dots> \<longleftrightarrow> length ls = Suc n \<and> list_all line_ok ls \<and> unread st = text_of_lines ls @ unread st'
        \<and> breaks st' = breaks st" (is "?L \<longleftrightarrow> ?R")
    proof
      assume ?L
      then show ?R by (auto simp: read_line_iff Suc.IH Cons text_of_lines_def)
    next
      assume ?R
      then show ?L
        by (intro exI [of _ "\<lparr>unread = text_of_lines ls' @ unread st', breaks = breaks st\<rparr>"])
          (simp add: read_line_iff Suc.IH Cons text_of_lines_def)
    qed
    finally show ?thesis .
  qed (auto simp: rbind_Inr_iff)
qed

lemma payload_sizes_iff: "payload_sizes vs = Inr ns \<longleftrightarrow> map payload_size vs = map Inr ns"
proof (induction vs arbitrary: ns)
  case (Cons v vs)
  then show ?case by (cases ns; simp add: rbind_Inr_iff; blast)
qed auto

lemma payload_size_iff:
  "payload_size v = Inr n \<longleftrightarrow> v \<noteq> [] \<and> list_all is_digit v \<and> parse_uint u64_max v = Some n \<and> n \<le> MAX_PAYLOAD"
  by (cases "parse_uint u64_max v") (auto simp: payload_size_def)

text \<open>The nineteen lines of a header, in order.\<close>

definition header_fields :: "string list \<Rightarrow> bundle_header \<Rightarrow> bool" where
  "header_fields ls h \<longleftrightarrow>
     ls ! 0 = BUNDLE_MAGIC \<and> ls ! 1 = bh_id h \<and> ls ! 5 = bh_config_id h
     \<and> valid_id (bh_id h) \<and> valid_id (bh_config_id h)
     \<and> map payload_size (map ((!) ls) [2, 3, 4, 6, 7, 8, 9, 10, 11, 12, 13, 14, 15, 16, 17])
       = map Inr [bh_image h, bh_image_signature h, bh_system h, bh_config h, bh_config_signature h,
           bh_kernel h, bh_kernel_signature h, bh_initrd h, bh_initrd_signature h, bh_rescue h,
           bh_rescue_signature h, bh_network h, bh_network_signature h, bh_tools h, bh_tools_signature h]
     \<and> reboot_flag (ls ! 18) = Inr (bh_reboot h)
     \<and> 0 \<notin> set (required_sizes h)
     \<and> (bh_network h = 0 \<longleftrightarrow> bh_network_signature h = 0)
     \<and> (bh_tools h = 0 \<longleftrightarrow> bh_tools_signature h = 0)"

lemma field_nth [simp]: "i < length ls \<Longrightarrow> field ls i = ls ! i"
  by (simp add: field_def get_at_def)

lemma check_sizes_iff:
  "check_sizes h = Inr h' \<longleftrightarrow> h' = h \<and> 0 \<notin> set (required_sizes h)
    \<and> (bh_network h = 0 \<longleftrightarrow> bh_network_signature h = 0) \<and> (bh_tools h = 0 \<longleftrightarrow> bh_tools_signature h = 0)"
  by (auto simp: check_sizes_def rbind_Inr_iff)

lemma bundle_magics: "PREVIOUS_MAGIC \<noteq> BUNDLE_MAGIC"
  by (simp add: PREVIOUS_MAGIC_def BUNDLE_MAGIC_def)

text \<open>What \<open>parse_header\<close> does with the lines once they are read.\<close>

definition header_of :: "string list \<Rightarrow> string \<Rightarrow> string \<Rightarrow> string \<Rightarrow> string + bundle_header" where
  "header_of first tools tools_signature reboot =
     rbind (ensure (valid_id (field first 1)) ''invalid generation id'') (\<lambda>_.
     rbind (ensure (valid_id (field first 5)) ''invalid config id'') (\<lambda>_.
     rbind (payload_sizes (map (field first) [2, 3, 4, 6, 7, 8, 9, 10, 11, 12, 13, 14, 15])) (\<lambda>nums.
     rbind (payload_size tools) (\<lambda>t.
     rbind (payload_size tools_signature) (\<lambda>ts.
     rbind (reboot_flag reboot) (\<lambda>rb.
     check_sizes
       \<lparr>bh_id = field first 1, bh_image = nums ! 0, bh_image_signature = nums ! 1, bh_system = nums ! 2,
        bh_config_id = field first 5, bh_config = nums ! 3, bh_config_signature = nums ! 4,
        bh_kernel = nums ! 5, bh_kernel_signature = nums ! 6, bh_initrd = nums ! 7,
        bh_initrd_signature = nums ! 8, bh_rescue = nums ! 9, bh_rescue_signature = nums ! 10,
        bh_network = nums ! 11, bh_network_signature = nums ! 12, bh_tools = t,
        bh_tools_signature = ts, bh_reboot = rb\<rparr>))))))"

lemma parse_header_steps:
  "parse_header st = Inr (h, st') \<longleftrightarrow> (\<exists>first st1 t st2 ts st3 rb.
     read_lines 16 st = Inr (first, st1) \<and> field first 0 = BUNDLE_MAGIC
     \<and> read_line st1 = Inr (t, st2) \<and> read_line st2 = Inr (ts, st3) \<and> read_line st3 = Inr (rb, st')
     \<and> header_of first t ts rb = Inr h)"
proof -
  have e: "parse_header st = rbind (read_lines 16 st) (\<lambda>(first, st1).
      if field first 0 = PREVIOUS_MAGIC
      then Inl ''sender speaks NMBL-EROFS-BUNDLE-3; NMBL-EROFS-BUNDLE-4 adds the rescue tools image''
      else if field first 0 \<noteq> BUNDLE_MAGIC then Inl ''invalid protocol magic''
      else rbind (read_line st1) (\<lambda>(t, st2). rbind (read_line st2) (\<lambda>(ts, st3).
        rbind (read_line st3) (\<lambda>(rb, st4). rbind (header_of first t ts rb) (\<lambda>h. Inr (h, st4))))))"
    by (simp only: parse_header_def header_of_def rbind_assoc Let_def)
  have m: "field first 0 = PREVIOUS_MAGIC \<Longrightarrow> field first 0 \<noteq> BUNDLE_MAGIC" for first
    using bundle_magics by simp
  show ?thesis by (auto simp: e rbind_Inr_iff split: if_splits) (use m in blast)+
qed

lemma length_3:
  assumes "length xs = 3"
  obtains a b c where "xs = [a, b, c]"
  using assms by (auto simp: length_Suc_conv numeral_eq_Suc)

lemma length_13:
  assumes "length nums = 13"
  obtains a b c d e f g h i j k l m where "nums = [a, b, c, d, e, f, g, h, i, j, k, l, m]"
  using assms by (auto simp: length_Suc_conv numeral_eq_Suc)

lemma header_of_iff:
  assumes "length first = 16"
  shows "field first 0 = BUNDLE_MAGIC \<and> header_of first t ts rb = Inr h
    \<longleftrightarrow> header_fields (first @ [t, ts, rb]) h" (is "?L \<longleftrightarrow> ?R")
proof -
  have n: "(first @ [t, ts, rb]) ! i = first ! i" if "i < 16" for i
    using that assms by (simp add: nth_append)
  have n3: "(first @ [t, ts, rb]) ! 16 = t" "(first @ [t, ts, rb]) ! 17 = ts" "(first @ [t, ts, rb]) ! 18 = rb"
    using assms by (simp_all add: nth_append)
  show ?thesis
  proof
    assume rest: ?L
    then obtain nums where
      p: "payload_sizes (map (field first) [2, 3, 4, 6, 7, 8, 9, 10, 11, 12, 13, 14, 15]) = Inr nums"
      unfolding header_of_def rbind_Inr_iff by blast
    note nums = p [unfolded payload_sizes_iff]
    have "length nums = 13" using map_eq_imp_length_eq [OF nums] by simp
    then obtain a0 a1 a2 a3 a4 a5 a6 a7 a8 a9 a10 a11 a12
      where e: "nums = [a0, a1, a2, a3, a4, a5, a6, a7, a8, a9, a10, a11, a12]" by (rule length_13)
    show ?R
      using rest nums assms unfolding header_of_def p
      by (auto simp: e rbind_Inr_iff check_sizes_iff header_fields_def n n3)
  next
    assume r: ?R
    let ?nums = "[bh_image h, bh_image_signature h, bh_system h, bh_config h, bh_config_signature h,
      bh_kernel h, bh_kernel_signature h, bh_initrd h, bh_initrd_signature h, bh_rescue h,
      bh_rescue_signature h, bh_network h, bh_network_signature h]"
    have "map payload_size (map (field first) [2, 3, 4, 6, 7, 8, 9, 10, 11, 12, 13, 14, 15]) = map Inr ?nums"
      using r assms by (simp add: header_fields_def n)
    then have p: "payload_sizes (map (field first) [2, 3, 4, 6, 7, 8, 9, 10, 11, 12, 13, 14, 15]) = Inr ?nums"
      by (simp only: payload_sizes_iff)
    from r show ?L
      unfolding header_of_def p
      using assms by (auto simp: header_fields_def n n3 rbind_Inr_iff check_sizes_iff required_sizes_def)
  qed
qed

lemma parse_header_iff:
  "parse_header st = Inr (h, st') \<longleftrightarrow> (\<exists>ls. length ls = 19 \<and> list_all line_ok ls
     \<and> unread st = text_of_lines ls @ unread st' \<and> breaks st' = breaks st \<and> header_fields ls h)"
  (is "?L \<longleftrightarrow> ?R")
proof
  assume ?L
  then obtain first st1 t st2 ts st3 rb where
    "read_lines 16 st = Inr (first, st1)" "field first 0 = BUNDLE_MAGIC" "read_line st1 = Inr (t, st2)"
    "read_line st2 = Inr (ts, st3)" "read_line st3 = Inr (rb, st')" "header_of first t ts rb = Inr h"
    by (auto simp: parse_header_steps)
  then show ?R
    by (intro exI [of _ "first @ [t, ts, rb]"])
      (auto simp: read_lines_iff read_line_iff text_of_lines_def header_of_iff [symmetric])
next
  assume ?R
  then obtain ls where ls: "length ls = 19" "list_all line_ok ls" "unread st = text_of_lines ls @ unread st'"
    "breaks st' = breaks st" "header_fields ls h" by blast
  define first where "first = take 16 ls"
  have "length (drop 16 ls) = 3" using ls(1) by simp
  then obtain t ts rb where d: "drop 16 ls = [t, ts, rb]" by (rule length_3)
  have "ls = take 16 ls @ drop 16 ls" by simp
  then have e: "ls = first @ [t, ts, rb]" "length first = 16"
    unfolding d first_def using ls(1) by simp_all
  let ?s = "\<lambda>x. \<lparr>unread = x @ unread st', breaks = breaks st\<rparr>"
  have "read_lines 16 st = Inr (first, ?s (text_of_lines [t, ts, rb]))"
    "read_line (?s (text_of_lines [t, ts, rb])) = Inr (t, ?s (text_of_lines [ts, rb]))"
    "read_line (?s (text_of_lines [ts, rb])) = Inr (ts, ?s (text_of_lines [rb]))"
    "read_line (?s (text_of_lines [rb])) = Inr (rb, st')"
    using ls e by (auto simp: read_lines_iff read_line_iff text_of_lines_def)
  moreover have "field first 0 = BUNDLE_MAGIC" "header_of first t ts rb = Inr h"
    using ls(5) header_of_iff [OF e(2), of t ts rb h] unfolding e(1) by simp_all
  ultimately show ?L unfolding parse_header_steps by blast
qed

text \<open>The header parser accepts a stream exactly when it starts with nineteen lines of at most
  256 bytes of UTF-8 with the right magic, two identifiers of 128 lower-case hexadecimal digits,
  fifteen sizes of at most 64 GiB of which ten must not be zero, and a reboot flag; it then leaves the
  stream right after the last line. Everything else is refused.\<close>

theorem header_accepts_exactly:
  "parse_header st = Inr (h, st') \<longleftrightarrow> (\<exists>ls. length ls = 19 \<and> list_all line_ok ls
     \<and> unread st = text_of_lines ls @ unread st' \<and> breaks st' = breaks st \<and> header_fields ls h)"
  by (rule parse_header_iff)

text \<open>The chunked comparison of two files, whatever buffers the reads return, ends and tells
  whether the contents are equal; a read error makes it false.\<close>

theorem same_compares_contents:
  assumes "[] \<notin> set (fst l)" "[] \<notin> set (fst r)"
  shows "same_loop l r \<longleftrightarrow> \<not> snd l \<and> \<not> snd r \<and> concat (fst l) = concat (fst r)"
  using assms by (rule same_loop_iff)

theorem same_compares_contents_witness:
  "same_loop ([''ab'', ''c''], False) ([''a'', ''bc''], False) \<and> \<not> same_loop ([''ab''], False) ([''a''], True)"
  using same_compares_contents [of "([''ab'', ''c''], False)" "([''a'', ''bc''], False)"]
    same_compares_contents [of "([''ab''], False)" "([''a''], True)"] by simp

subsection \<open>What was received is verified\<close>

lemma activate_InrD:
  assumes "activate cr lock fault st i = (Inr (), st')"
  shows "store_entries st' = store_entries st \<and> validate_generation cr st i = Inr ()
    \<and> links (selectors st') active_sel = link_to i
    \<and> links (selectors st') attempted_sel = No_Link
    \<and> rollback_event (selectors st') = None
    \<and> links (selectors st') tested_sel = links (selectors st) tested_sel
    \<and> links (selectors st') pending_sel = (if target_id st tested_sel = Some i then No_Link else link_to i)
    \<and> (\<forall>old. target_id st active_sel = Some old \<longrightarrow> old \<noteq> i \<longrightarrow> links (selectors st') previous_sel = link_to old)"
proof -
  from assms obtain s where s: "fault_with ''sync'' fault (activate_plan cr st i) (selectors st) = (Inr (), s)"
    "st' = st\<lparr>selectors := s\<rparr>" "lock"
    by (auto simp: activate_def split: if_splits prod.splits)
  then have f: "fault = None" by (auto simp: fault_with_def split: sum.splits option.splits)
  with s(1) obtain ops where ops: "activate_plan cr st i = Inr ((), ops)" "s = apply_ops (selectors st) ops"
    by (auto dest!: fault_with_NoneD)
  from ops(1) have v: "validate_generation cr st i = Inr ()"
    by (auto simp: activate_plan_def rbind_Inr_iff)
  from ops show ?thesis
    by (auto simp: activate_plan_def v Let_def s(2) split: option.splits)
qed

lemma compare_existing_InrD:
  assumes "compare_existing cr pk st h tmp = Inr ()" "store_dir st (bh_id h) = Some m"
  shows "m ''nix.erofs'' = tmp ''nix.erofs''" "member_signed cr pk ''generation-image'' ''nix.erofs'' m"
  using assms
  by (auto simp: compare_existing_def store_dir_def rbind_Inr_iff same_file_iff verify_member_signed
      split: option.splits store_entry.splits)

lemma compare_installed_InrD:
  assumes "compare_installed cr pk st h tmp = Inr ()" "store_dir st (bh_id h) = Some m"
  shows "m ''config.toml'' = tmp ''config.toml''" "member_signed cr pk ''boot-config'' ''config.toml'' m"
    "name \<in> set (compared h) \<Longrightarrow> m name = tmp name"
proof -
  have i: "in_store st (bh_id h) = m" using assms(2) by (intro ext) (simp add: in_store_def)
  show "m ''config.toml'' = tmp ''config.toml''" "member_signed cr pk ''boot-config'' ''config.toml'' m"
    "name \<in> set (compared h) \<Longrightarrow> m name = tmp name"
    using assms(1)
    by (auto simp: compare_installed_def i rbind_Inr_iff same_file_iff verify_member_signed compare_members_iff)
qed

text \<open>What a stored generation holds when it was received with the header \<open>h\<close>.\<close>

definition generation_verified :: "crypto \<Rightarrow> bytes \<Rightarrow> bundle_header \<Rightarrow> members \<Rightarrow> bool" where
  "generation_verified cr pk h m \<longleftrightarrow>
     image_ok cr pk (bh_id h) m
     \<and> map_option (\<lambda>c. hex_lower (sha512 cr c)) (m ''config.toml'') = Some (bh_config_id h)
     \<and> member_signed cr pk ''boot-config'' ''config.toml'' m
     \<and> member_signed cr pk ''rescue-sfs'' ''rescue.sfs'' m
     \<and> (bh_network h > 0 \<longrightarrow> member_signed cr pk ''network-stage'' ''network.erofs'' m)
     \<and> (bh_tools h > 0 \<longrightarrow> member_signed cr pk ''rescue-tools'' ''rescue-tools.erofs'' m)
     \<and> (\<exists>kernel initrd ks is. m ''kernel.sig'' = Some ks \<and> m ''initrd.sig'' = Some is
          \<and> signed_by cr pk kernel DOMAIN_GEN_KERNEL ks \<and> signed_by cr pk initrd DOMAIN_GEN_INITRD is)"

lemma generation_verifiedI:
  assumes v: "receive_verified cr env input = Inr (pk, h, tmp)"
    and img: "image_ok cr pk (bh_id h) m"
    and cmp: "compare_installed cr pk st h tmp = Inr ()" "store_dir st (bh_id h) = Some m"
  shows "generation_verified cr pk h m"
proof -
  note c = compare_installed_InrD [OF cmp]
  note s = receive_verified_InrD(5) [OF v, unfolded signed_members_def]
  have same: "m name = tmp name" if "name \<in> set (compared h)" for name
    using c(3) that .
  have "member_signed cr pk ''rescue-sfs'' ''rescue.sfs'' m"
    by (rule member_signed_cong [OF s]) (auto intro!: same simp: compared_def REQUIRED_MEMBERS_def)
  moreover have "bh_network h > 0 \<longrightarrow> member_signed cr pk ''network-stage'' ''network.erofs'' m"
    by (rule impI, rule member_signed_cong [OF s]) (auto intro!: same simp: compared_def)
  moreover have "bh_tools h > 0 \<longrightarrow> member_signed cr pk ''rescue-tools'' ''rescue-tools.erofs'' m"
    by (rule impI, rule member_signed_cong [OF s]) (auto intro!: same simp: compared_def)
  moreover have "member_signed cr pk ''gen-kernel'' ''kernel'' tmp" "member_signed cr pk ''gen-initrd'' ''initrd'' tmp"
    by (auto intro!: s)
  moreover have "m ''kernel.sig'' = tmp ''kernel.sig''" "m ''initrd.sig'' = tmp ''initrd.sig''"
    by (auto intro!: same simp: compared_def REQUIRED_MEMBERS_def)
  ultimately show ?thesis
    using img c(1,2) receive_verified_InrD(4) [OF v]
    by (auto simp: generation_verified_def member_signed_def)
qed

text \<open>C20: a bundle that the receiver reports as received is one whose image and configuration hash
  to the two identifiers of its header and whose every member is signed for its role by the trusted
  key; the generation is in the store under its identifier with exactly these files, and it is the
  active one, nothing is attempted, and it is pending unless it is the tested one. The tested
  selector is the operator's and stays.\<close>

theorem received_generation_is_verified:
  assumes "receive cr env input incoming root st = (Inr (i, reboot), st')"
  shows "\<exists>pk h rest m. re_key env = Some pk \<and> parse_header input = Inr (h, rest)
    \<and> i = bh_id h \<and> reboot = bh_reboot h
    \<and> store_dir st' i = Some m \<and> generation_verified cr pk h m
    \<and> links (selectors st') active_sel = link_to i
    \<and> links (selectors st') attempted_sel = No_Link
    \<and> links (selectors st') tested_sel = links (selectors st) tested_sel
    \<and> (links (selectors st) tested_sel \<noteq> link_to i \<longrightarrow> links (selectors st') pending_sel = link_to i)"
  using assms
proof (cases rule: receive_cases)
  case (activated pk h tmp st1 q)
  from activated(6) have q: "q = Inr ()" and ih: "i = bh_id h" "reboot = bh_reboot h"
    by (auto dest!: sym [of "Inr _"] simp: rbind_Inr_iff)
  note v = receive_verified_InrD [OF activated(1)]
  note act = activate_InrD [OF activated(5) [unfolded q]]
  obtain m where m: "store_dir st1 i = Some m" "image_ok cr pk i m" "selectors st1 = selectors st"
    using activated(3)
  proof (cases rule: install_cases)
    case old
    then obtain m where "store_dir st i = Some m" "validate_generation cr st i = Inr ()" by (auto simp: ih)
    moreover from this v(3) have "image_ok cr pk i m"
      using compare_existing_InrD [OF activated(2)] by (simp add: ih image_ok_def)
    ultimately show thesis using that old(1) by simp
  next
    case new
    from new(2) have "store_dir st1 i = Some (installed_members tmp i)"
      by (simp only: store_dir_update ih) simp
    then show thesis using that image_ok_installed [OF v(3)] new(2) by (simp add: ih)
  qed
  have "store_dir st' i = Some m" using act m(1) by (simp add: store_dir_def)
  moreover have "generation_verified cr pk h m"
    using generation_verifiedI [OF activated(1) _ activated(4)] m by (simp add: ih)
  moreover have "target_id st1 tested_sel = Some i \<Longrightarrow> links (selectors st) tested_sel = link_to i"
    using target_id_SomeD m(3) by fastforce
  ultimately show ?thesis using v(1,2) act m(3) ih by fastforce
qed auto

text \<open>C21: the loader and the receiver on one store, in any order and with any interruption of
  either: the active selector, and every other one that is present, names a stored image whose hash
  is its name and which the trusted key signed as a generation image.\<close>

theorem deployed_images_stay_signed:
  assumes "deploy_inv cr pk st" "name \<in> {active_sel, attempted_sel, pending_sel, tested_sel}"
  shows "let st' = foldl (deploy_step cr pk) st events in
    (links (selectors st') name = No_Link \<and> name \<noteq> active_sel)
    \<or> (\<exists>i m. links (selectors st') name = link_to i \<and> store_dir st' i = Some m \<and> image_ok cr pk i m)"
proof -
  let ?st = "foldl (deploy_step cr pk) st events"
  have inv: "deploy_inv cr pk ?st" using assms(1) by (rule deploy.inv_run)
  have named: "\<exists>m. store_dir ?st i = Some m \<and> image_ok cr pk i m" if "good_id (complete_in ?st) i" for i
    using that complete_inD [of ?st i] inv by (auto simp: good_id_def deploy_inv_def store_ok_def)
  from inv assms(2) have "(links (selectors ?st) name = No_Link \<and> name \<noteq> active_sel)
      \<or> (\<exists>i. good_id (complete_in ?st) i \<and> links (selectors ?st) name = link_to i)"
    by (auto simp: deploy_inv_def gs_inv_def)
  with named show ?thesis by (auto simp: Let_def)
qed

text \<open>A generation that was just received is tried at the next boot, and when that boot does not
  report success the one after it returns to the tested generation.\<close>

theorem new_generation_falls_back:
  assumes "deploy_inv cr pk st" "re_key env = Some pk"
    and "receive cr env input incoming root st = (Inr (i, reboot), st')"
    and "links (selectors st) tested_sel = link_to good" "good \<noteq> i"
  shows "\<exists>s1 s2. prepare_boot (complete_in st') True rb None (selectors st') = (Inr Proceed, s1)
    \<and> links s1 active_sel = link_to i
    \<and> prepare_boot (complete_in st') True True None s1 = (Inr RolledBack, s2)
    \<and> links s2 active_sel = link_to good"
proof -
  have g: "gs_inv (complete_in st') (selectors st')"
    using receive_keeps [OF assms(3,2,1)] by (simp add: deploy_inv_def)
  from assms(3) have "links (selectors st') active_sel = link_to i
    \<and> links (selectors st') attempted_sel = No_Link \<and> links (selectors st') pending_sel = link_to i
    \<and> links (selectors st') tested_sel = link_to good"
  proof (cases rule: receive_cases)
    case (activated pk h tmp st1 q)
    then have "q = Inr ()" "i = bh_id h" by (auto dest!: sym [of "Inr _"] simp: rbind_Inr_iff)
    moreover have "selectors st1 = selectors st"
      using activated(3) by (cases rule: install_cases) auto
    ultimately show ?thesis
      using activate_InrD [of cr "re_lock_ok env" "re_fault env" st1 i st'] activated(5) assms(4,5)
      by (auto dest: target_id_SomeD)
  qed auto
  then have l: "links (selectors st') active_sel = link_to i"
    "links (selectors st') attempted_sel = No_Link" "links (selectors st') pending_sel = link_to i"
    "links (selectors st') tested_sel = link_to good" by simp_all
  define s1 where "s1 = apply_op (selectors st') (Replace_Link attempted_sel i)"
  have one: "prepare_boot (complete_in st') True rb None (selectors st') = (Inr Proceed, s1)"
    by (simp add: prepare_boot_def fault_with_def prepare_plan_proceeds [OF g l(2,1)] s1_def)
  have g1: "gs_inv (complete_in st') s1"
    using gs.inv_step [OF g, of "Boot True rb None"] one by simp
  have l1: "links s1 attempted_sel = link_to i" "links s1 pending_sel = link_to i"
    "links s1 tested_sel = link_to good" "links s1 active_sel = link_to i"
    using l by (simp_all add: s1_def)
  from prepare_plan_rolls [OF g1 l1(1-3) assms(5)] one l1(4) show ?thesis
    by (simp add: prepare_boot_def fault_with_def)
qed

text \<open>An activation that is interrupted after the active selector was replaced and before the
  pending one leaves a healthy system with a new generation that is not pending. It is tried at the
  next boot, and when it fails the boot after that does not roll back, although a tested generation
  is there.\<close>

theorem cut_activation_loses_rollback:
  assumes "deploy_inv cr pk st" "validate_generation cr st i = Inr ()"
    and "links (selectors st) active_sel = link_to good" "links (selectors st) tested_sel = link_to good"
    and "links (selectors st) attempted_sel = No_Link" "links (selectors st) pending_sel = No_Link"
    and "good \<noteq> i" "activate cr True (Some 2) st i = (r, st')"
  shows "\<exists>s1. prepare_boot (complete_in st') True True None (selectors st') = (Inr Proceed, s1)
    \<and> links s1 active_sel = link_to i \<and> links s1 tested_sel = link_to good
    \<and> prepare_boot (complete_in st') True True None s1 = (Inr Failed, s1)"
proof -
  have "good_id (complete_in st) good" using assms(1,3) by (auto simp: deploy_inv_def gs_inv_def)
  then have t: "target_id st active_sel = Some good" using target_id_link assms(3) by blast
  have l: "links (selectors st') active_sel = link_to i" "links (selectors st') tested_sel = link_to good"
    "links (selectors st') attempted_sel = No_Link" "links (selectors st') pending_sel = No_Link"
    using assms(2-8) t by (auto simp: activate_def fault_with_def activate_plan_def Let_def)
  have g: "gs_inv (complete_in st') (selectors st')"
    using activate_keeps [OF assms(8,1)] by (simp add: deploy_inv_def)
  define s1 where "s1 = apply_op (selectors st') (Replace_Link attempted_sel i)"
  have one: "prepare_boot (complete_in st') True True None (selectors st') = (Inr Proceed, s1)"
    by (simp add: prepare_boot_def fault_with_def prepare_plan_proceeds [OF g l(3,1)] s1_def)
  have g1: "gs_inv (complete_in st') s1"
    using gs.inv_step [OF g, of "Boot True True None"] one by simp
  have "links s1 attempted_sel = link_to i" "links s1 pending_sel \<noteq> link_to i"
    using l by (simp_all add: s1_def)
  from prepare_plan_fails [OF g1 this] one l show ?thesis
    by (simp add: prepare_boot_def fault_with_def s1_def)
qed

subsection \<open>A well-formed bundle is received\<close>

text \<open>The stream a sender makes: the header lines, then the payloads in the order of the header.\<close>

definition header_lines :: "bundle_header \<Rightarrow> string list" where
  "header_lines h =
     [BUNDLE_MAGIC, bh_id h, dec (bh_image h), dec (bh_image_signature h), dec (bh_system h), bh_config_id h,
      dec (bh_config h), dec (bh_config_signature h), dec (bh_kernel h), dec (bh_kernel_signature h),
      dec (bh_initrd h), dec (bh_initrd_signature h), dec (bh_rescue h), dec (bh_rescue_signature h),
      dec (bh_network h), dec (bh_network_signature h), dec (bh_tools h), dec (bh_tools_signature h),
      if bh_reboot h then ''1'' else ''0'']"

definition all_sizes :: "bundle_header \<Rightarrow> nat list" where
  "all_sizes h = required_sizes h @
     [bh_system h, bh_network h, bh_network_signature h, bh_tools h, bh_tools_signature h]"

definition header_good :: "bundle_header \<Rightarrow> bool" where
  "header_good h \<longleftrightarrow> valid_id (bh_id h) \<and> valid_id (bh_config_id h)
     \<and> list_all (\<lambda>n. n \<le> MAX_PAYLOAD) (all_sizes h) \<and> 0 \<notin> set (required_sizes h)
     \<and> (bh_network h = 0 \<longleftrightarrow> bh_network_signature h = 0) \<and> (bh_tools h = 0 \<longleftrightarrow> bh_tools_signature h = 0)"

definition sent_stream :: "bundle_header \<Rightarrow> members \<Rightarrow> input_stream" where
  "sent_stream h files =
     \<lparr>unread = text_of_lines (header_lines h) @ concat (map (\<lambda>(n, name). the (files name)) (payload_list h)),
      breaks = False\<rparr>"

lemma dec_line_ok:
  assumes "n \<le> MAX_PAYLOAD"
  shows "line_ok (dec n)" "payload_size (dec n) = Inr n"
proof -
  have g: "is_graphic c" if "c \<in> set (dec n)" for c using that by (rule dec_graphic)
  have "newline \<notin> set (dec n)" using g [of newline] by (auto simp: is_graphic_def)
  moreover have "valid_utf8 (dec n)"
    using g by (intro valid_utf8_ascii) (auto simp: is_graphic_def is_ascii_def dest: g)
  moreover have "length (dec n) \<le> MAX_HEADER_LINE"
    using length_dec [of n 10] assms by (simp add: MAX_PAYLOAD_def MAX_HEADER_LINE_def)
  ultimately show "line_ok (dec n)" by (simp add: line_ok_def)
  have "n \<le> u64_max" using assms by (simp add: MAX_PAYLOAD_def u64_max_def)
  then show "payload_size (dec n) = Inr n"
    using assms by (auto simp: payload_size_iff parse_uint_dec list_all_iff dec_digits)
qed

lemma valid_id_line_ok: "valid_id i \<Longrightarrow> line_ok i"
proof -
  assume v: "valid_id i"
  then have g: "is_graphic c" if "c \<in> set i" for c
    using that by (auto simp: valid_id_def list_all_iff is_lower_hex_def is_digit_def is_graphic_def)
  have "newline \<notin> set i" using g [of newline] by (auto simp: is_graphic_def)
  moreover have "valid_utf8 i" using g by (intro valid_utf8_ascii) (auto simp: is_graphic_def is_ascii_def dest: g)
  ultimately show ?thesis using v by (simp add: line_ok_def valid_id_def MAX_HEADER_LINE_def)
qed

lemma parse_header_sent:
  assumes "header_good h"
  shows "parse_header \<lparr>unread = text_of_lines (header_lines h) @ rest, breaks = b\<rparr>
    = Inr (h, \<lparr>unread = rest, breaks = b\<rparr>)"
proof -
  have s: "n \<le> MAX_PAYLOAD" if "n \<in> set (all_sizes h)" for n
    using assms that by (auto simp: header_good_def list_all_iff)
  have m: "line_ok BUNDLE_MAGIC" "line_ok ''0''" "line_ok ''1''"
    by (auto simp: line_ok_def BUNDLE_MAGIC_def MAX_HEADER_LINE_def newline_def is_ascii_def ord_def
        intro!: valid_utf8_ascii)
  have d: "\<forall>n\<in>set (all_sizes h). line_ok (dec n) \<and> payload_size (dec n) = Inr n"
    using s dec_line_ok by blast
  have i: "line_ok (bh_id h)" "line_ok (bh_config_id h)"
    using assms by (simp_all add: header_good_def valid_id_line_ok)
  have "list_all line_ok (header_lines h)"
    using d m i by (simp add: header_lines_def all_sizes_def required_sizes_def)
  moreover have "header_fields (header_lines h) h"
    using d assms
    by (simp add: header_fields_def header_lines_def all_sizes_def required_sizes_def header_good_def
        reboot_flag_def)
  ultimately show ?thesis
    by (auto simp: parse_header_iff header_lines_def intro!: exI [of _ "header_lines h"])
qed

lemma receive_payloads_exact:
  assumes "\<forall>(n, name)\<in>set ps. \<exists>c. files name = Some c \<and> length c = n"
    and "unread st = concat (map (\<lambda>(n, name). the (files name)) ps) @ rest"
  shows "receive_payloads (\<lambda>_. True) st ps tmp =
    Inr ((\<lambda>name. if name \<in> snd ` set ps then files name else tmp name), st\<lparr>unread := rest\<rparr>)"
  using assms
proof (induction ps arbitrary: st tmp)
  case Nil
  then show ?case by simp
next
  case (Cons p ps)
  obtain n name c where p: "p = (n, name)" "files name = Some c" "length c = n"
    using Cons.prems(1) by fastforce
  let ?st = "st\<lparr>unread := concat (map (\<lambda>(n, name). the (files name)) ps) @ rest\<rparr>"
  have "receive_payloads (\<lambda>_. True) st (p # ps) tmp = receive_payloads (\<lambda>_. True) ?st ps (tmp(name \<mapsto> c))"
    using p Cons.prems(2) by (simp add: receive_file_def)
  also have "\<dots> = Inr ((\<lambda>x. if x \<in> snd ` set ps then files x else (tmp(name \<mapsto> c)) x), ?st\<lparr>unread := rest\<rparr>)"
    using Cons.prems(1) by (intro Cons.IH) auto
  also have "(\<lambda>x. if x \<in> snd ` set ps then files x else (tmp(name \<mapsto> c)) x)
      = (\<lambda>x. if x \<in> snd ` set (p # ps) then files x else tmp x)"
    using p by (auto simp: fun_eq_iff)
  finally show ?case by simp
qed

text \<open>The files a sender sends: of the sizes in the header, hashed and signed as the receiver asks.\<close>

definition sendable :: "crypto \<Rightarrow> bytes \<Rightarrow> bundle_header \<Rightarrow> members \<Rightarrow> bool" where
  "sendable cr pk h files \<longleftrightarrow>
     header_good h
     \<and> (\<forall>(n, name)\<in>set (payload_list h). \<exists>c. files name = Some c \<and> length c = n)
     \<and> map_option (\<lambda>c. hex_lower (sha512 cr c)) (files ''nix.erofs'') = Some (bh_id h)
     \<and> map_option (\<lambda>c. hex_lower (sha512 cr c)) (files ''config.toml'') = Some (bh_config_id h)
     \<and> map_option pins_rescue_tools (files ''config.toml'') = Some (bh_tools h > 0)
     \<and> (\<forall>(role, name)\<in>set (signed_members h). member_signed cr pk role name files)"

definition env_works :: "receive_env \<Rightarrow> bytes \<Rightarrow> bool" where
  "env_works env pk \<longleftrightarrow> re_key_is_file env \<and> re_key env = Some pk \<and> re_scratch_ok env
     \<and> re_creatable env = (\<lambda>_. True) \<and> re_modes_ok env \<and> re_install env = Install_Fine
     \<and> re_lock_ok env \<and> re_fault env = None"

definition received_files :: "bundle_header \<Rightarrow> members \<Rightarrow> members" where
  "received_files h files name =
     (if name = ''generation'' then Some (bh_id h @ [newline])
      else if name \<in> snd ` set (payload_list h) then files name else None)"

lemma signed_names_sent:
  "(role, name) \<in> set (signed_members h) \<Longrightarrow> 
    name \<in> snd ` set (payload_list h) \<and> name @ ''.sig'' \<in> snd ` set (payload_list h)
    \<and> name \<noteq> ''generation'' \<and> name @ ''.sig'' \<noteq> ''generation''"
  by (cases "bh_network h > 0"; cases "bh_tools h > 0"; simp add: signed_members_def payload_list_def;
      elim disjE; simp)

lemma compared_subset: "set (compared h) \<subseteq> set EXTRA_MEMBERS" "''generation'' \<notin> set EXTRA_MEMBERS"
  by (cases "bh_network h > 0"; cases "bh_tools h > 0";
      simp add: compared_def REQUIRED_MEMBERS_def EXTRA_MEMBERS_def)
    (simp add: EXTRA_MEMBERS_def)

lemma compared_present:
  assumes "\<And>role name. (role, name) \<in> set (signed_members h) \<Longrightarrow> member_signed cr pk role name m"
  shows "\<forall>name\<in>set (compared h). m name \<noteq> None"
proof -
  have p: "m name \<noteq> None \<and> m (name @ ''.sig'') \<noteq> None" if "(role, name) \<in> set (signed_members h)" for role name
    using assms [OF that] by (auto simp: member_signed_def)
  have "m ''kernel.sig'' \<noteq> None" "m ''initrd.sig'' \<noteq> None"
    "m ''rescue.sfs'' \<noteq> None \<and> m ''rescue.sfs.sig'' \<noteq> None"
    "bh_network h > 0 \<Longrightarrow> m ''network.erofs'' \<noteq> None \<and> m ''network.erofs.sig'' \<noteq> None"
    "bh_tools h > 0 \<Longrightarrow> m ''rescue-tools.erofs'' \<noteq> None \<and> m ''rescue-tools.erofs.sig'' \<noteq> None"
    using p [of "''gen-kernel''" "''kernel''"] p [of "''gen-initrd''" "''initrd''"]
      p [of "''rescue-sfs''" "''rescue.sfs''"] p [of "''network-stage''" "''network.erofs''"]
      p [of "''rescue-tools''" "''rescue-tools.erofs''"]
    by (simp_all add: signed_members_def)
  then show ?thesis
    by (cases "bh_network h > 0"; cases "bh_tools h > 0"; simp add: compared_def REQUIRED_MEMBERS_def)
qed

lemma signed_are_sent:
  "(role, name) \<in> set (signed_members h) \<Longrightarrow>
    received_files h files name = files name \<and> received_files h files (name @ ''.sig'') = files (name @ ''.sig'')"
  using signed_names_sent by (simp add: received_files_def)

lemma receive_verified_sent:
  assumes "sendable cr pk h files" "env_works env pk"
  shows "receive_verified cr env (sent_stream h files) = Inr (pk, h, received_files h files)"
proof -
  have g: "header_good h" using assms(1) by (simp add: sendable_def)
  let ?st = "\<lparr>unread = concat (map (\<lambda>(n, name). the (files name)) (payload_list h)), breaks = False\<rparr>"
  have p: "parse_header (sent_stream h files) = Inr (h, ?st)"
    using parse_header_sent [OF g] by (simp add: sent_stream_def)
  have r: "receive_payloads (\<lambda>_. True) ?st (payload_list h) (\<lambda>_. None)
      = Inr ((\<lambda>name. if name \<in> snd ` set (payload_list h) then files name else None), ?st\<lparr>unread := []\<rparr>)"
    using assms(1) by (intro receive_payloads_exact) (auto simp: sendable_def)
  have t: "(\<lambda>name. if name \<in> snd ` set (payload_list h) then files name else None)
      (''generation'' \<mapsto> bh_id h @ [newline]) = received_files h files"
    by (auto simp: fun_eq_iff received_files_def)
  have "received_files h files ''nix.erofs'' = files ''nix.erofs''"
    "received_files h files ''config.toml'' = files ''config.toml''"
    using signed_are_sent by (auto simp: signed_members_def)
  then have "check_hash cr (received_files h files) ''nix.erofs'' (bh_id h) e = Inr ()"
    "check_hash cr (received_files h files) ''config.toml'' (bh_config_id h) e = Inr ()"
    "check_tools_pin h (received_files h files) = Inr ()" for e
    using assms(1) by (auto simp: sendable_def check_hash_def check_tools_pin_def)
  moreover have "verify_members cr pk (received_files h files) (signed_members h) = Inr ()"
    using assms(1) signed_are_sent
    by (fastforce simp: verify_members_iff verify_member_signed sendable_def elim: member_signed_cong)
  ultimately show ?thesis
    using assms(2) by (simp add: receive_verified_def p r at_end_def t env_works_def)
qed

lemma receive_sent:
  assumes "sendable cr pk h files" "env_works env pk" "store_entries st (bh_id h) = None"
    and "absolute_outside_store incoming" "absolute_outside_store root"
  shows "\<exists>st'. receive cr env (sent_stream h files) incoming root st = (Inr (bh_id h, bh_reboot h), st')"
proof -
  let ?tmp = "received_files h files" and ?i = "bh_id h"
  let ?m = "installed_members ?tmp ?i"
  let ?st1 = "st\<lparr>store_entries := (store_entries st)(?i \<mapsto> Gen_Dir ?m)\<rparr>"
  note v = receive_verified_sent [OF assms(1,2)]
  note vd = receive_verified_InrD [OF v]
  have g: "header_good h" using assms(1) by (simp add: sendable_def)
  have m: "store_dir ?st1 ?i = Some ?m" by (simp add: store_dir_def)
  have io: "image_ok cr pk ?i ?m" using vd(3) by (rule image_ok_installed)
  then have val: "validate_generation cr ?st1 ?i = Inr ()"
    using g m by (auto simp: validate_generation_iff header_good_def image_ok_def member_signed_def in_store_def)
  obtain q where q: "install_generation cr Install_Fine ?tmp st ?i = (q, ?st1)" "q = Inr ()"
  proof -
    obtain img where "?tmp ''nix.erofs'' = Some img" "hex_lower (sha512 cr img) = ?i"
      using vd(3) by (auto simp: image_ok_def)
    moreover have "(copy_members ?tmp ([''nix.erofs'', ''nix.erofs.sig'', ''system'', ''config.toml'',
        ''config.toml.sig''] @ EXTRA_MEMBERS) (\<lambda>_. None))(''generation'' \<mapsto> ?i @ [newline]) = ?m"
      by (rule installed_members_copy)
    moreover have "store_dir st ?i = None" using assms(3) by (simp add: store_dir_def)
    ultimately show thesis
      using assms(3) val that by (simp only: install_generation_def Let_def) simp
  qed
  have "compare_installed cr pk ?st1 h ?tmp = Inr ()"
  proof -
    have i: "in_store ?st1 ?i = ?m" using m by (intro ext) (simp add: in_store_def)
    have "?tmp name \<noteq> None \<and> ?m name = ?tmp name" if "name \<in> set (compared h)" for name
    proof -
      have "name \<in> set EXTRA_MEMBERS" "name \<noteq> ''generation''" using compared_subset that by fastforce+
      then show ?thesis
        using compared_present [OF vd(5)] that by (simp add: installed_members_def)
    qed
    moreover have "member_signed cr pk ''boot-config'' ''config.toml'' ?tmp"
      by (rule vd(5)) (simp add: signed_members_def)
    moreover have c: "?m ''config.toml'' = ?tmp ''config.toml''" "?m ''config.toml.sig'' = ?tmp ''config.toml.sig''"
      by (simp_all add: installed_members_def)
    moreover have "?tmp ''config.toml'' \<noteq> None" using vd(4) by auto
    ultimately show ?thesis
      by (simp add: compare_installed_def i rbind_Inr_iff same_file_iff verify_member_signed
          compare_members_iff Let_def member_signed_cong)
  qed
  moreover have "\<exists>st2. activate cr True None ?st1 ?i = (Inr (), st2)"
    using val by (simp add: activate_def activate_plan_def fault_with_def Let_def split: option.splits)
  ultimately show ?thesis
    using assms(2-5) q v by (auto simp: receive_def env_works_def compare_existing_def)
qed

text \<open>A bundle of the documented form, whose files have the sizes of the header, hash to its
  identifiers and are signed for their roles, is received, installed and activated on every store that
  does not have the generation yet, unless the operating system reports an error.\<close>

theorem sent_bundle_is_received:
  assumes "sendable cr pk h files" "env_works env pk" "store_entries st (bh_id h) = None"
    and "absolute_outside_store incoming" "absolute_outside_store root"
  shows "\<exists>st'. receive cr env (sent_stream h files) incoming root st = (Inr (bh_id h, bh_reboot h), st')"
  using assms by (rule receive_sent)

subsection \<open>A deployment in small\<close>

text \<open>A hash of 64 bytes that all are the length of the content, and the signer of the demo key.\<close>

definition rcv_crypto :: crypto where
  "rcv_crypto = demo_crypto\<lparr>sha512 := (\<lambda>b. replicate 64 (byte (length b)))\<rparr>"

definition rcv_key :: bytes where
  "rcv_key = public_of demo_signer MlDsa65 ''s''"

definition rcv_sig :: "bytes \<Rightarrow> string \<Rightarrow> bytes" where
  "rcv_sig content role =
     (case sign_file rcv_crypto demo_signer (Some content) demo_key (the (domain_for role)) of
        Inr sb \<Rightarrow> sb | Inl _ \<Rightarrow> [])"

definition rcv_files :: "bytes \<Rightarrow> members" where
  "rcv_files content name =
     (case map_of [(''nix.erofs.sig'', ''generation-image''), (''config.toml.sig'', ''boot-config''),
        (''kernel.sig'', ''gen-kernel''), (''initrd.sig'', ''gen-initrd''),
        (''rescue.sfs.sig'', ''rescue-sfs'')] name of
        Some role \<Rightarrow> Some (rcv_sig content role)
      | None \<Rightarrow> if name \<in> {''nix.erofs'', ''config.toml'', ''kernel'', ''initrd'', ''rescue.sfs''}
                then Some content else None)"

definition rcv_id :: "bytes \<Rightarrow> string" where
  "rcv_id content = hex_lower (sha512 rcv_crypto content)"

definition rcv_header :: bundle_header where
  "rcv_header =
     \<lparr>bh_id = rcv_id ''new'', bh_image = 3, bh_image_signature = sidecar_len MlDsa65, bh_system = 0,
      bh_config_id = rcv_id ''new'', bh_config = 3, bh_config_signature = sidecar_len MlDsa65,
      bh_kernel = 3, bh_kernel_signature = sidecar_len MlDsa65, bh_initrd = 3,
      bh_initrd_signature = sidecar_len MlDsa65, bh_rescue = 3, bh_rescue_signature = sidecar_len MlDsa65,
      bh_network = 0, bh_network_signature = 0, bh_tools = 0, bh_tools_signature = 0, bh_reboot = True\<rparr>"

definition rcv_env :: receive_env where
  "rcv_env = \<lparr>re_key_is_file = True, re_key = Some rcv_key, re_scratch_ok = True, re_creatable = (\<lambda>_. True),
     re_modes_ok = True, re_install = Install_Fine, re_lock_ok = True, re_fault = None\<rparr>"

definition rcv_store :: image_store where
  "rcv_store =
     \<lparr>store_entries = [rcv_id ''base'' \<mapsto> Gen_Dir (rcv_files ''base'')],
      selectors = \<lparr>links = (\<lambda>_. No_Link)
          (active_sel := link_to (rcv_id ''base''), tested_sel := link_to (rcv_id ''base'')),
        rollback_event = None\<rparr>\<rparr>"

lemma rcv_signer_ok: "signer_ok rcv_crypto demo_signer"
proof -
  have "hd (replicate (sig_len alg) c) = c" "hd (replicate (pk_len alg) c) = c" for alg and c :: char
    by (cases alg; simp)+
  then show ?thesis
    by (auto simp: signer_ok_def rcv_crypto_def demo_crypto_def demo_signer_def pair_ok_def hd_replicate split: if_splits)
qed

lemma rcv_sign:
  assumes "domain_for role = Some domain"
  shows "sign_file rcv_crypto demo_signer (Some content) demo_key domain = Inr (rcv_sig content role)"
    "signed_by rcv_crypto rcv_key content domain (rcv_sig content role)"
    "length (rcv_sig content role) = sidecar_len MlDsa65"
proof -
  obtain sb where "sign_file rcv_crypto demo_signer (Some content) demo_key domain = Inr sb"
    by (auto simp: sign_file_def sidecar_for_digest_def ml_dsa_sign_def demo_signer_def demo_key_def
        rcv_crypto_def demo_crypto_def Let_def)
  with assms show s: "sign_file rcv_crypto demo_signer (Some content) demo_key domain = Inr (rcv_sig content role)"
    by (simp add: rcv_sig_def)
  show "signed_by rcv_crypto rcv_key content domain (rcv_sig content role)"
    using signed_by_sign_file [OF rcv_signer_ok s] by (simp add: rcv_key_def demo_key_def)
  show "length (rcv_sig content role) = sidecar_len MlDsa65"
    using sign_file_InrD [OF rcv_signer_ok s] by (auto simp: Let_def demo_key_def)
qed

lemma rcv_member:
  assumes "(role, name) \<in> {(''generation-image'', ''nix.erofs''), (''boot-config'', ''config.toml''),
      (''gen-kernel'', ''kernel''), (''gen-initrd'', ''initrd''), (''rescue-sfs'', ''rescue.sfs'')}"
  shows "member_signed rcv_crypto rcv_key role name (rcv_files content)"
proof -
  from assms have "rcv_files content name = Some content"
    "rcv_files content (name @ ''.sig'') = Some (rcv_sig content role)"
    by (auto simp: rcv_files_def)
  moreover from assms obtain d where "domain_for role = Some d" by auto
  ultimately show ?thesis using rcv_sign(2) by (auto simp: member_signed_def)
qed

lemma rcv_id: "valid_id (rcv_id content)"
proof -
  have "is_lower_hex (hex_digit d)" if "d < 16" for d
    using that by (auto simp: is_lower_hex_def is_digit_def hex_digit_def)
  then show ?thesis
    by (auto simp: valid_id_def rcv_id_def rcv_crypto_def hex_lower_def list_all_iff length_concat
        sum_list_replicate ord_less less_mult_imp_div_less)
qed

lemma rcv_ids_differ: "rcv_id ''base'' \<noteq> rcv_id ''new''"
proof
  let ?b = "replicate 64 (byte 4)" and ?n = "replicate 64 (byte 3)"
  assume "rcv_id ''base'' = rcv_id ''new''"
  then have "hex_lower ?b = hex_lower ?n" by (simp add: rcv_id_def rcv_crypto_def numeral_eq_Suc)
  then have "Some ?b = Some ?n"
    using decode_slots_hex [of ?b] decode_slots_hex [of ?n] by (simp only: length_replicate)
  then have "ord (byte 4) = ord (byte 3)" by simp
  then show False by simp
qed

lemma rcv_sendable: "sendable rcv_crypto rcv_key rcv_header (rcv_files ''new'')"
proof -
  have g: "header_good rcv_header"
    by (simp add: header_good_def rcv_header_def rcv_id all_sizes_def required_sizes_def MAX_PAYLOAD_def
        sidecar_len_def SIG_HEADER_LEN_def offset_defs DOMAIN_LEN_def)
  have f: "rcv_files ''new'' name = Some ''new''" if "name \<in> {''nix.erofs'', ''config.toml'', ''kernel'', ''initrd'', ''rescue.sfs''}" for name
    using that by (auto simp: rcv_files_def)
  have s: "\<exists>c. rcv_files ''new'' (name @ ''.sig'') = Some c \<and> length c = sidecar_len MlDsa65"
    if "(role, name) \<in> set (signed_members rcv_header)" for role name
    using that rcv_sign(3) by (auto simp: rcv_files_def signed_members_def rcv_header_def)
  have "\<forall>(n, name)\<in>set (payload_list rcv_header). \<exists>c. rcv_files ''new'' name = Some c \<and> length c = n"
    using f s [of "''generation-image''" "''nix.erofs''"] s [of "''boot-config''" "''config.toml''"]
      s [of "''gen-kernel''" "''kernel''"] s [of "''gen-initrd''" "''initrd''"] s [of "''rescue-sfs''" "''rescue.sfs''"]
    by (simp add: payload_list_def rcv_header_def signed_members_def)
  moreover have "\<not> pins_rescue_tools ''new''"
    by (simp add: pins_rescue_tools_def newline_def)
  moreover have "\<forall>(role, name)\<in>set (signed_members rcv_header).
      member_signed rcv_crypto rcv_key role name (rcv_files ''new'')"
    by (auto simp: signed_members_def rcv_header_def intro!: rcv_member)
  ultimately show ?thesis
    using g f by (simp add: sendable_def) (simp add: rcv_header_def rcv_id_def)
qed

lemma rcv_env_works: "env_works rcv_env rcv_key"
  by (simp add: env_works_def rcv_env_def)

lemma rcv_store_new: "store_entries rcv_store (bh_id rcv_header) = None"
  using rcv_ids_differ by (simp add: rcv_store_def rcv_header_def)

lemma rcv_deploy_inv: "deploy_inv rcv_crypto rcv_key rcv_store"
proof -
  have "store_dir rcv_store i = (if i = rcv_id ''base'' then Some (rcv_files ''base'') else None)" for i
    by (simp add: store_dir_def rcv_store_def)
  moreover have "image_ok rcv_crypto rcv_key (rcv_id ''base'') (rcv_files ''base'')"
    using rcv_member by (auto simp: image_ok_def rcv_files_def rcv_id_def)
  ultimately have s: "store_ok rcv_crypto rcv_key rcv_store" by (auto simp: store_ok_def)
  have "store_dir rcv_store (rcv_id ''base'') \<noteq> None" by (simp add: store_dir_def rcv_store_def)
  from complete_in_store_ok [OF s this] have "good_id (complete_in rcv_store) (rcv_id ''base'')"
    by (simp add: good_id_def rcv_id)
  with s show ?thesis by (auto simp: deploy_inv_def gs_inv_def rcv_store_def)
qed

lemma rcv_received:
  obtains st' where "receive rcv_crypto rcv_env (sent_stream rcv_header (rcv_files ''new'')) ''/in'' ''/img'' rcv_store
    = (Inr (rcv_id ''new'', True), st')"
proof -
  have "absolute_outside_store ''/in''" "absolute_outside_store ''/img''"
    by (simp_all add: absolute_outside_store_def slash_def)
  from receive_sent [OF rcv_sendable rcv_env_works rcv_store_new this] that show thesis
    by (auto simp: rcv_header_def)
qed

theorem sent_bundle_is_received_witness:
  "\<exists>st'. receive rcv_crypto rcv_env (sent_stream rcv_header (rcv_files ''new'')) ''/in'' ''/img'' rcv_store
    = (Inr (rcv_id ''new'', True), st')"
proof -
  have "absolute_outside_store ''/in''" "absolute_outside_store ''/img''"
    by (simp_all add: absolute_outside_store_def slash_def)
  from sent_bundle_is_received [OF rcv_sendable rcv_env_works rcv_store_new this] show ?thesis
    by (simp add: rcv_header_def)
qed

theorem received_generation_is_verified_witness:
  "\<exists>st' h rest m. receive rcv_crypto rcv_env (sent_stream rcv_header (rcv_files ''new'')) ''/in'' ''/img'' rcv_store
      = (Inr (rcv_id ''new'', True), st')
    \<and> store_dir st' (rcv_id ''new'') = Some m \<and> generation_verified rcv_crypto rcv_key h m
    \<and> links (selectors st') active_sel = link_to (rcv_id ''new'')"
proof -
  obtain st' where r: "receive rcv_crypto rcv_env (sent_stream rcv_header (rcv_files ''new'')) ''/in'' ''/img'' rcv_store
    = (Inr (rcv_id ''new'', True), st')" by (rule rcv_received)
  from received_generation_is_verified [OF this] show ?thesis using r by (auto simp: rcv_env_def)
qed

theorem deployed_images_stay_signed_witness:
  "let st' = foldl (deploy_step rcv_crypto rcv_key) rcv_store
      [Receive rcv_env (sent_stream rcv_header (rcv_files ''new'')) ''/in'' ''/img'', Loader (Boot True True (Some 1))]
   in \<exists>i m. links (selectors st') active_sel = link_to i \<and> store_dir st' i = Some m
     \<and> image_ok rcv_crypto rcv_key i m"
  using deployed_images_stay_signed [OF rcv_deploy_inv, of active_sel
      "[Receive rcv_env (sent_stream rcv_header (rcv_files ''new'')) ''/in'' ''/img'', Loader (Boot True True (Some 1))]"]
  by (simp add: Let_def)

theorem new_generation_falls_back_witness:
  "\<exists>st' s1 s2. prepare_boot (complete_in st') True True None (selectors st') = (Inr Proceed, s1)
    \<and> prepare_boot (complete_in st') True True None s1 = (Inr RolledBack, s2)
    \<and> links s2 active_sel = link_to (rcv_id ''base'')"
proof -
  obtain st' where r: "receive rcv_crypto rcv_env (sent_stream rcv_header (rcv_files ''new'')) ''/in'' ''/img'' rcv_store
    = (Inr (rcv_id ''new'', True), st')" by (rule rcv_received)
  have "re_key rcv_env = Some rcv_key" "links (selectors rcv_store) tested_sel = link_to (rcv_id ''base'')"
    by (simp_all add: rcv_env_def rcv_store_def)
  from new_generation_falls_back [OF rcv_deploy_inv this(1) r this(2) rcv_ids_differ, of True]
  show ?thesis by blast
qed

definition rcv_both :: image_store where
  "rcv_both = rcv_store\<lparr>store_entries := (store_entries rcv_store)(rcv_id ''new'' \<mapsto> Gen_Dir (rcv_files ''new''))\<rparr>"

lemma rcv_both_inv: "deploy_inv rcv_crypto rcv_key rcv_both"
proof -
  have i: "image_ok rcv_crypto rcv_key (rcv_id ''new'') (rcv_files ''new'')"
    using rcv_member by (auto simp: image_ok_def rcv_files_def rcv_id_def)
  with rcv_deploy_inv have s: "store_ok rcv_crypto rcv_key rcv_both"
    by (auto simp: deploy_inv_def store_ok_def rcv_both_def store_dir_update)
  have "\<forall>j. store_dir rcv_store j \<noteq> None \<longrightarrow> store_dir rcv_both j = store_dir rcv_store j"
    using rcv_ids_differ by (auto simp: rcv_both_def store_dir_update) (auto simp: store_dir_def rcv_store_def)
  with s rcv_deploy_inv show ?thesis
    by (auto simp: deploy_inv_def rcv_both_def intro: gs_inv_mono complete_in_mono)
qed

theorem cut_activation_loses_rollback_witness:
  "\<exists>s1 r st'. activate rcv_crypto True (Some 2) rcv_both (rcv_id ''new'') = (r, st')
    \<and> prepare_boot (complete_in st') True True None s1 = (Inr Failed, s1)
    \<and> links s1 tested_sel = link_to (rcv_id ''base'')"
proof -
  obtain r st' where a: "activate rcv_crypto True (Some 2) rcv_both (rcv_id ''new'') = (r, st')" by fastforce
  have "validate_generation rcv_crypto rcv_both (rcv_id ''new'') = Inr ()"
    by (simp add: validate_generation_iff rcv_id in_store_def rcv_both_def store_dir_update rcv_files_def)
      (simp add: rcv_id_def)
  moreover have "links (selectors rcv_both) active_sel = link_to (rcv_id ''base'')"
    "links (selectors rcv_both) tested_sel = link_to (rcv_id ''base'')"
    "links (selectors rcv_both) attempted_sel = No_Link" "links (selectors rcv_both) pending_sel = No_Link"
    by (simp_all add: rcv_both_def rcv_store_def)
  ultimately show ?thesis
    using cut_activation_loses_rollback [OF rcv_both_inv _ _ _ _ _ rcv_ids_differ a] a by blast
qed

end
