(* ===== verification/Kernel_Modules.thy ===== *)
theory Kernel_Modules
  imports Fs_Path
begin

text \<open>
  \<open>sys/module/dep.rs\<close>, \<open>sys/module/load.rs\<close> and \<open>modules.rs\<close>: the dependency file of the kernel
  modules, the load order of a module and the loading of the configured ones. The decompressors are
  the crates the loader links, a parameter; the kernel is asked with a module image and answers with
  an error number or none, and may remember what it was asked before.
\<close>

subsection \<open>Names\<close>

datatype errno = EEXIST | EOPNOTSUPP | ENOEXEC | ENODEV | ENOSYS | EINVAL | ENOENT | ELOOP | EIO
  | Other_Errno nat

datatype module_error = Module_Io string | Module_Error string string errno

record module_entry =
  me_name :: string
  me_path :: string
  me_deps :: "string list"

definition canonical_module_name :: "string \<Rightarrow> string" where
  "canonical_module_name raw = map (\<lambda>c. if c = CHR ''-'' then CHR ''_'' else c) raw"

text \<open>\<open>to_str\<close>: \<^const>\<open>None\<close> when the bytes are not UTF-8.\<close>

definition utf8_name :: "string \<Rightarrow> string option" where
  "utf8_name path =
     (case file_name path of None \<Rightarrow> None | Some s \<Rightarrow> if valid_utf8 s then Some s else None)"

definition module_name_from_path :: "string \<Rightarrow> string option" where
  "module_name_from_path path =
     (case utf8_name path of
        None \<Rightarrow> None
      | Some fname \<Rightarrow>
          let stripped =
            (case strip_suffix ''.xz'' fname of Some s \<Rightarrow> s
             | None \<Rightarrow> (case strip_suffix ''.zst'' fname of Some s \<Rightarrow> s
             | None \<Rightarrow> (case strip_suffix ''.gz'' fname of Some s \<Rightarrow> s | None \<Rightarrow> fname)))
          in map_option canonical_module_name (strip_suffix ''.ko'' stripped))"

subsection \<open>The dependency file\<close>

definition parse_dep_line :: "string \<Rightarrow> string \<Rightarrow> module_entry option" where
  "parse_dep_line root raw =
     (let line = trim raw in
      if line = [] \<or> starts_with ''#'' line then None
      else case split_once (CHR '':'') line of
        None \<Rightarrow> None
      | Some (lhs, rhs) \<Rightarrow>
          let mod_path = path_join root (trim lhs) in
          (case module_name_from_path mod_path of
             None \<Rightarrow> None
           | Some name \<Rightarrow>
               Some \<lparr>me_name = name, me_path = mod_path,
                 me_deps = flatten (map (\<lambda>d. module_name_from_path (path_join root d)) (split_whitespace rhs))\<rparr>))"

definition parse_modules_dep_text :: "string \<Rightarrow> string \<Rightarrow> module_entry list" where
  "parse_modules_dep_text text root = flatten (map (parse_dep_line root) (text_lines text))"

text \<open>\<open>read\<close> is what \<open>read_to_string\<close> of a path gives: \<^const>\<open>None\<close> on an I/O error or bytes
  that are no UTF-8.\<close>

definition load_modules_dep ::
  "(string \<Rightarrow> string option) \<Rightarrow> string \<Rightarrow> string \<Rightarrow> module_error + module_entry list" where
  "load_modules_dep read modules_dir kernel_release =
     (let root = path_join modules_dir kernel_release; dep_path = path_join root ''modules.dep''
      in rbind (ok_or (Module_Io dep_path) (read dep_path)) (\<lambda>text.
         Inr (parse_modules_dep_text text root)))"

text \<open>A line of the form \<open>depmod\<close> writes.\<close>

definition dep_line :: "string \<Rightarrow> string list \<Rightarrow> string" where
  "dep_line fname deps = fname @ CHR '':'' # concat (map (\<lambda>d. CHR '' '' # d) deps)"

lemma parse_dep_line_render:
  assumes "fname \<noteq> []" "\<forall>c\<in>set fname. is_graphic c \<and> c \<noteq> CHR '':''" "hd fname \<noteq> CHR ''#''"
    and "\<forall>d\<in>set deps. d \<noteq> [] \<and> (\<forall>c\<in>set d. is_graphic c)"
    and "module_name_from_path (path_join root fname) = Some n"
  shows "parse_dep_line root (dep_line fname deps) = Some \<lparr>me_name = n, me_path = path_join root fname,
    me_deps = flatten (map (\<lambda>d. module_name_from_path (path_join root d)) deps)\<rparr>"
proof -
  have colon: "is_graphic (CHR '':'')" by (simp add: is_graphic_def ord_def)
  have "is_graphic (last (dep_line fname deps))"
  proof (cases deps rule: rev_cases)
    case Nil
    with colon show ?thesis by (simp add: dep_line_def)
  next
    case (snoc ds d)
    with assms(4) have "d \<noteq> []" "is_graphic (last d)" by auto
    with snoc show ?thesis by (simp add: dep_line_def)
  qed
  moreover obtain c cs where fname: "fname = c # cs" using assms(1) by (cases fname) auto
  moreover have "dep_line fname deps \<noteq> []" "\<not> starts_with ''#'' (dep_line fname deps)"
    "is_graphic (hd (dep_line fname deps))"
    using assms(2,3) by (simp_all add: dep_line_def fname)
  ultimately have t: "trim (dep_line fname deps) = dep_line fname deps" by (intro trim_graphic)
  have f: "trim fname = fname" using assms(2) by (intro trim_all_graphic) simp
  have "split_once (CHR '':'') (dep_line fname deps) = Some (fname, concat (map (\<lambda>d. CHR '' '' # d) deps))"
    unfolding dep_line_def using assms(2) by (intro split_once_append) auto
  with \<open>dep_line fname deps \<noteq> []\<close> \<open>\<not> starts_with ''#'' (dep_line fname deps)\<close> assms(4,5) show ?thesis
    by (simp add: parse_dep_line_def t f split_whitespace_words)
qed

text \<open>The map by name: a later entry of the same name replaces an earlier one.\<close>

type_synonym module_index = "(string \<times> module_entry) list"

definition index_by_name :: "module_entry list \<Rightarrow> module_index" where
  "index_by_name entries = rev (map (\<lambda>e. (me_name e, e)) entries)"

subsection \<open>The load order\<close>

record visit_state =
  order :: "module_entry list"
  visited :: "string set"
  visiting :: "string set"

definition dep_path_of :: "module_index \<Rightarrow> string \<Rightarrow> string" where
  "dep_path_of by_name name = (case map_of by_name name of None \<Rightarrow> [] | Some e \<Rightarrow> me_path e)"

text \<open>The names of the index that are not being visited: they bound the depth of the walk.\<close>

definition unvisited :: "module_index \<Rightarrow> visit_state \<Rightarrow> nat" where
  "unvisited by_name st = card (dom (map_of by_name) - visiting st)"

lemma unvisited_less:
  "map_of by_name name = Some e \<Longrightarrow> name \<notin> visiting st \<Longrightarrow>
    unvisited by_name (st\<lparr>visiting := insert name (visiting st)\<rparr>) < unvisited by_name st"
  unfolding unvisited_def
  by (rule psubset_card_mono) (auto simp: finite_dom_map_of)

text \<open>\<open>visit\<close>, and its loop over the dependencies of an entry.\<close>

function visit :: "module_index \<Rightarrow> string \<Rightarrow> visit_state \<Rightarrow> module_error + visit_state"
  and visit_all :: "module_index \<Rightarrow> string list \<Rightarrow> visit_state \<Rightarrow> module_error + visit_state" where
  "visit by_name name st =
     (if name \<in> visited st then Inr st
      else if name \<in> visiting st
      then Inl (Module_Error name (dep_path_of by_name name) ELOOP)
      else case map_of by_name name of
        None \<Rightarrow> Inr (st\<lparr>visited := insert name (visited st)\<rparr>)
      | Some entry \<Rightarrow>
          (case visit_all by_name (me_deps entry) (st\<lparr>visiting := insert name (visiting st)\<rparr>) of
             Inl e \<Rightarrow> Inl e
           | Inr st1 \<Rightarrow> Inr (st1\<lparr>visiting := visiting st1 - {name}, visited := insert name (visited st1),
                             order := order st1 @ [entry]\<rparr>)))"
| "visit_all by_name [] st = Inr st"
| "visit_all by_name (d # ds) st =
     (case visit by_name d st of Inl e \<Rightarrow> Inl e | Inr st1 \<Rightarrow> visit_all by_name ds st1)"
  by pat_completeness auto

termination
proof -
  have keeps:
    "visit_visit_all_dom (Inl (b, n, st)) \<Longrightarrow> visit b n st = Inr st1 \<Longrightarrow> visiting st1 = visiting st"
    "visit_visit_all_dom (Inr (b, ns, st)) \<Longrightarrow> visit_all b ns st = Inr st1 \<Longrightarrow> visiting st1 = visiting st"
    for b n st ns st1
  proof (induction b n st and b ns st arbitrary: st1 and st1 rule: visit_visit_all.pinduct)
    case (1 b n st)
    then show ?case
      by (auto simp: visit.psimps split: if_splits option.splits sum.splits)
  next
    case (3 b d ds st)
    from "3.prems" 3(1) obtain st2 where "visit b d st = Inr st2" "visit_all b ds st2 = Inr st1"
      by (cases "visit b d st") (simp_all add: visit_all.psimps(2))
    with 3(2) [of st2] 3(3) [of st2 st1] show ?case by simp
  qed (simp add: visit_all.psimps)
  have less: "unvisited b (st\<lparr>visiting := insert n (visiting st)\<rparr>) < unvisited b st"
    if "n \<notin> visiting st" "map_of b n = Some e" for b n e and st :: visit_state
    using that by (rule unvisited_less [rotated])
  let ?R = "measures
      [case_sum (\<lambda>(b, n, st). unvisited b st) (\<lambda>(b, ns, st). unvisited b st),
       case_sum (\<lambda>_. 0) (\<lambda>(b, ns, st). Suc (length ns))]"
  show ?thesis
  proof (relation ?R, goal_cases)
    case 1
    then show ?case by simp
  next
    case (2 b n st e)
    then show ?case by (simp add: less)
  next
    case (3 b d ds st)
    then show ?case by simp
  next
    case (4 b d ds st st1)
    then have "visiting st1 = visiting st" using keeps(1) by blast
    then show ?case by (simp add: unvisited_def)
  qed
qed

declare visit.simps [simp del]

definition resolve_load_order :: "string \<Rightarrow> module_index \<Rightarrow> module_error + module_entry list" where
  "resolve_load_order name by_name =
     rbind (visit by_name (canonical_module_name name) \<lparr>order = [], visited = {}, visiting = {}\<rparr>)
       (\<lambda>st. Inr (order st))"

subsection \<open>The load order is a topological order of what the module needs\<close>

definition dep_edges :: "module_index \<Rightarrow> (string \<times> string) set" where
  "dep_edges by_name = {(a, b). \<exists>e. map_of by_name a = Some e \<and> b \<in> set (me_deps e)}"

definition index_ok :: "module_index \<Rightarrow> bool" where
  "index_ok by_name \<longleftrightarrow> (\<forall>n e. map_of by_name n = Some e \<longrightarrow> me_name e = n)"

text \<open>Every dependency that is in the index stands before the entry that needs it.\<close>

definition deps_first :: "module_index \<Rightarrow> module_entry list \<Rightarrow> bool" where
  "deps_first by_name es \<longleftrightarrow>
     (\<forall>xs e ys. es = xs @ e # ys \<longrightarrow>
        (\<forall>d\<in>set (me_deps e). d \<in> dom (map_of by_name) \<longrightarrow> d \<in> me_name ` set xs))"

definition visit_ok :: "module_index \<Rightarrow> visit_state \<Rightarrow> bool" where
  "visit_ok by_name st \<longleftrightarrow>
     index_ok by_name
     \<and> me_name ` set (order st) = visited st \<inter> dom (map_of by_name)
     \<and> distinct (map me_name (order st)) \<and> deps_first by_name (order st)
     \<and> (\<forall>e\<in>set (order st). map_of by_name (me_name e) = Some e)
     \<and> (\<forall>a b. a \<in> visited st \<longrightarrow> (a, b) \<in> dep_edges by_name \<longrightarrow> b \<in> visited st)
     \<and> visiting st \<inter> visited st = {}"

lemma deps_first_Nil [simp]: "deps_first by_name []"
  by (simp add: deps_first_def)

lemma deps_first_snoc:
  "deps_first by_name (es @ [e]) \<longleftrightarrow> deps_first by_name es \<and>
    (\<forall>d\<in>set (me_deps e). d \<in> dom (map_of by_name) \<longrightarrow> d \<in> me_name ` set es)"
proof
  assume a: "deps_first by_name (es @ [e])"
  then have "\<forall>d\<in>set (me_deps e). d \<in> dom (map_of by_name) \<longrightarrow> d \<in> me_name ` set es"
    by (auto simp: deps_first_def)
  moreover have "deps_first by_name es"
    unfolding deps_first_def
  proof (intro allI impI)
    fix xs e' ys assume "es = xs @ e' # ys"
    then have "es @ [e] = xs @ e' # (ys @ [e])" by simp
    with a show "\<forall>d\<in>set (me_deps e'). d \<in> dom (map_of by_name) \<longrightarrow> d \<in> me_name ` set xs"
      unfolding deps_first_def by blast
  qed
  ultimately show "deps_first by_name es \<and>
    (\<forall>d\<in>set (me_deps e). d \<in> dom (map_of by_name) \<longrightarrow> d \<in> me_name ` set es)" by simp
next
  assume a: "deps_first by_name es \<and>
    (\<forall>d\<in>set (me_deps e). d \<in> dom (map_of by_name) \<longrightarrow> d \<in> me_name ` set es)"
  show "deps_first by_name (es @ [e])"
    unfolding deps_first_def
  proof (intro allI impI)
    fix xs e' ys assume eq: "es @ [e] = xs @ e' # ys"
    show "\<forall>d\<in>set (me_deps e'). d \<in> dom (map_of by_name) \<longrightarrow> d \<in> me_name ` set xs"
      using a eq unfolding deps_first_def by (cases ys rule: rev_cases) auto
  qed
qed

definition visit_post :: "module_index \<Rightarrow> string set \<Rightarrow> visit_state \<Rightarrow> visit_state \<Rightarrow> bool" where
  "visit_post by_name ns st st1 \<longleftrightarrow>
     visit_ok by_name st1 \<and> visiting st1 = visiting st \<and> ns \<union> visited st \<subseteq> visited st1
     \<and> visited st1 \<subseteq> visited st \<union> (dep_edges by_name)\<^sup>* `` ns"

lemma visit_post_trans:
  assumes "visit_post by_name ms st st1" "visit_post by_name ns st1 st2"
  shows "visit_post by_name (ms \<union> ns) st st2"
  using assms unfolding visit_post_def Image_Un by (intro conjI) (simp, simp, blast, blast)

lemma visit_establishes:
  shows "visit by_name n st = Inr st1 \<Longrightarrow> visit_ok by_name st \<Longrightarrow> visit_post by_name {n} st st1"
    and "visit_all by_name ns st = Inr st1 \<Longrightarrow> visit_ok by_name st \<Longrightarrow> visit_post by_name (set ns) st st1"
proof (induction by_name n st and by_name ns st arbitrary: st1 and st1 rule: visit_visit_all.induct)
  case (1 by_name n st)
  consider (seen) "n \<in> visited st" "st1 = st"
    | (built_in) "n \<notin> visited st" "n \<notin> visiting st" "map_of by_name n = None"
        "st1 = st\<lparr>visited := insert n (visited st)\<rparr>"
    | (entry) e st2 where "n \<notin> visited st" "n \<notin> visiting st" "map_of by_name n = Some e"
        "visit_all by_name (me_deps e) (st\<lparr>visiting := insert n (visiting st)\<rparr>) = Inr st2"
        "st1 = st2\<lparr>visiting := visiting st2 - {n}, visited := insert n (visited st2), order := order st2 @ [e]\<rparr>"
    using 1(2) by (subst (asm) visit.simps) (auto split: if_splits option.splits sum.splits)
  then show ?case
  proof cases
    case seen
    with 1(3) show ?thesis by (auto simp: visit_post_def)
  next
    case built_in
    then have "(n, b) \<notin> dep_edges by_name" for b by (simp add: dep_edges_def)
    moreover have "insert n (visited st) \<inter> dom (map_of by_name) = visited st \<inter> dom (map_of by_name)"
      using built_in(3) by auto
    ultimately show ?thesis using built_in 1(3) by (auto simp: visit_post_def visit_ok_def)
  next
    case entry
    let ?st0 = "st\<lparr>visiting := insert n (visiting st)\<rparr>"
    have "visit_ok by_name ?st0" using 1(3) entry(1) by (simp add: visit_ok_def)
    then have p: "visit_post by_name (set (me_deps e)) ?st0 st2"
      using 1(1) entry(1-4) by blast
    then have ok: "visit_ok by_name st2" and st2: "visiting st2 = insert n (visiting st)"
      "set (me_deps e) \<subseteq> visited st2" "visited st \<subseteq> visited st2"
      "visited st2 \<subseteq> visited st \<union> (dep_edges by_name)\<^sup>* `` set (me_deps e)"
      by (auto simp: visit_post_def)
    have n: "n \<notin> visited st2" using ok st2(1) by (auto simp: visit_ok_def)
    have me: "me_name e = n" using ok entry(3) by (auto simp: visit_ok_def index_ok_def)
    have "visit_ok by_name st1"
      using ok n me st2(2) entry(3)
      by (auto simp: visit_ok_def entry(5) deps_first_snoc dep_edges_def)
    moreover have "(dep_edges by_name)\<^sup>* `` set (me_deps e) \<subseteq> (dep_edges by_name)\<^sup>* `` {n}"
      using entry(3) by (auto simp: dep_edges_def intro: converse_rtrancl_into_rtrancl)
    with st2(4) have "visited st2 \<subseteq> visited st \<union> (dep_edges by_name)\<^sup>* `` {n}" by blast
    ultimately show ?thesis
      using st2(1-3) entry(2) by (simp add: visit_post_def entry(5)) blast
  qed
next
  case (2 by_name st)
  then show ?case by (auto simp: visit_post_def)
next
  case (3 by_name d ds st)
  from 3(3) obtain st2 where v: "visit by_name d st = Inr st2" "visit_all by_name ds st2 = Inr st1"
    by (cases "visit by_name d st") simp_all
  from 3(1) [OF v(1) 3(4)] have p: "visit_post by_name {d} st st2" .
  then have "visit_post by_name (set ds) st2 st1"
    using 3(2) [OF v(1) v(2)] by (simp add: visit_post_def)
  from visit_post_trans [OF p this] show ?case by simp
qed

lemma visit_keeps_visiting:
  "visit by_name n st = Inr st1 \<Longrightarrow> visiting st1 = visiting st"
  "visit_all by_name ns st = Inr st1 \<Longrightarrow> visiting st1 = visiting st"
proof (induction by_name n st and by_name ns st arbitrary: st1 and st1 rule: visit_visit_all.induct)
  case (1 by_name n st)
  from 1(2) show ?case
    by (subst (asm) visit.simps) (auto split: if_splits option.splits sum.splits dest: 1(1))
next
  case (3 by_name d ds st)
  from 3(3) obtain st2 where "visit by_name d st = Inr st2" "visit_all by_name ds st2 = Inr st1"
    by (cases "visit by_name d st") simp_all
  with 3(1) [of st2] 3(2) [of st2 st1] show ?case by simp
qed simp

text \<open>The walk stops only at a module that needs itself.\<close>

lemma visit_finds_cycle:
  "visit by_name n st = Inl err \<Longrightarrow> \<forall>v\<in>visiting st. (v, n) \<in> (dep_edges by_name)\<^sup>+ \<Longrightarrow>
    \<exists>m. (n, m) \<in> (dep_edges by_name)\<^sup>* \<and> (m, m) \<in> (dep_edges by_name)\<^sup>+
      \<and> err = Module_Error m (dep_path_of by_name m) ELOOP"
  "visit_all by_name ns st = Inl err \<Longrightarrow> \<forall>v\<in>visiting st. \<forall>n\<in>set ns. (v, n) \<in> (dep_edges by_name)\<^sup>+ \<Longrightarrow>
    \<exists>n\<in>set ns. \<exists>m. (n, m) \<in> (dep_edges by_name)\<^sup>* \<and> (m, m) \<in> (dep_edges by_name)\<^sup>+
      \<and> err = Module_Error m (dep_path_of by_name m) ELOOP"
proof (induction by_name n st and by_name ns st rule: visit_visit_all.induct)
  case (1 by_name n st)
  consider (again) "n \<in> visiting st" "err = Module_Error n (dep_path_of by_name n) ELOOP"
    | (entry) e where "n \<notin> visited st" "n \<notin> visiting st" "map_of by_name n = Some e"
        "visit_all by_name (me_deps e) (st\<lparr>visiting := insert n (visiting st)\<rparr>) = Inl err"
    using 1(2) by (subst (asm) visit.simps) (auto split: if_splits option.splits sum.splits)
  then show ?case
  proof cases
    case again
    with 1(3) show ?thesis by blast
  next
    case entry
    have edge: "(n, d) \<in> dep_edges by_name" if "d \<in> set (me_deps e)" for d
      using that entry(3) by (auto simp: dep_edges_def)
    have "\<forall>v\<in>insert n (visiting st). \<forall>d\<in>set (me_deps e). (v, d) \<in> (dep_edges by_name)\<^sup>+"
      using 1(3) edge by (auto intro: trancl_into_trancl)
    with 1(1) [OF entry(1,2,3,4)] obtain d m where "d \<in> set (me_deps e)" "(d, m) \<in> (dep_edges by_name)\<^sup>*"
      "(m, m) \<in> (dep_edges by_name)\<^sup>+" "err = Module_Error m (dep_path_of by_name m) ELOOP"
      by auto
    with edge show ?thesis by (blast intro: converse_rtrancl_into_rtrancl)
  qed
next
  case (3 by_name d ds st)
  show ?case
  proof (cases "visit by_name d st")
    case (Inl e)
    then show ?thesis using 3 by auto
  next
    case (Inr st2)
    with 3(2) [OF Inr] 3(3,4) visit_keeps_visiting(1) [OF Inr] show ?thesis by auto
  qed
qed simp

definition cyclic_from :: "module_index \<Rightarrow> string \<Rightarrow> bool" where
  "cyclic_from by_name n \<longleftrightarrow>
     (\<exists>m. (n, m) \<in> (dep_edges by_name)\<^sup>* \<and> (m, m) \<in> (dep_edges by_name)\<^sup>+)"

text \<open>A list in which dependencies stand first has no cycle in it: along an edge the position
  becomes smaller.\<close>

definition module_pos :: "module_entry list \<Rightarrow> string \<Rightarrow> nat" where
  "module_pos es n = length (takeWhile (\<lambda>e. me_name e \<noteq> n) es)"

lemma module_pos_at:
  "me_name e \<notin> me_name ` set xs \<Longrightarrow> module_pos (xs @ e # ys) (me_name e) = length xs"
  by (induction xs) (auto simp: module_pos_def)

lemma module_pos_less: "n \<in> me_name ` set xs \<Longrightarrow> module_pos (xs @ ys) n < length xs"
  by (induction xs) (auto simp: module_pos_def)

lemma edge_moves_back:
  assumes "visit_ok by_name st" "(a, b) \<in> dep_edges by_name" "a \<in> visited st" "b \<in> dom (map_of by_name)"
  shows "b \<in> visited st \<and> module_pos (order st) b < module_pos (order st) a"
proof -
  from assms(2) obtain e where e: "map_of by_name a = Some e" "b \<in> set (me_deps e)"
    by (auto simp: dep_edges_def)
  from assms(1,3) e(1) obtain e' where e': "e' \<in> set (order st)" "me_name e' = a"
    unfolding visit_ok_def by (metis IntI domI image_iff)
  with assms(1) e(1) have "e' = e" by (auto simp: visit_ok_def)
  with e' obtain xs ys where o: "order st = xs @ e # ys" by (meson split_list)
  with assms(1) have "me_name e \<notin> me_name ` set xs" by (auto simp: visit_ok_def)
  moreover have "b \<in> me_name ` set xs"
    using assms(1,4) e(2) o unfolding visit_ok_def deps_first_def by blast
  ultimately have "module_pos (order st) b < module_pos (order st) a"
    using e' \<open>e' = e\<close> by (auto simp: o module_pos_at module_pos_less)
  moreover have "b \<in> visited st" using assms(1-3) by (auto simp: visit_ok_def)
  ultimately show ?thesis by simp
qed

lemma visited_acyclic:
  assumes "visit_ok by_name st" "m \<in> visited st"
  shows "(m, m) \<notin> (dep_edges by_name)\<^sup>+"
proof
  assume c: "(m, m) \<in> (dep_edges by_name)\<^sup>+"
  have "b \<in> dom (map_of by_name) \<longrightarrow> b \<in> visited st \<and> module_pos (order st) b < module_pos (order st) m"
    if "(m, b) \<in> (dep_edges by_name)\<^sup>+" for b
    using that
  proof (induction rule: trancl_induct)
    case (base b)
    then show ?case using edge_moves_back [OF assms(1) base assms(2)] by simp
  next
    case (step b c)
    then have "b \<in> dom (map_of by_name)" by (auto simp: dep_edges_def)
    with step edge_moves_back [OF assms(1) step(2)] show ?case by fastforce
  qed
  moreover from c have "m \<in> dom (map_of by_name)"
    by (auto simp: dep_edges_def dest!: tranclD)
  ultimately show False using c by blast
qed

text \<open>What is loaded for a module, and in which order.\<close>

definition load_order_ok :: "module_index \<Rightarrow> string \<Rightarrow> module_entry list \<Rightarrow> bool" where
  "load_order_ok by_name n es \<longleftrightarrow>
     me_name ` set es = (dep_edges by_name)\<^sup>* `` {n} \<inter> dom (map_of by_name)
     \<and> distinct (map me_name es) \<and> deps_first by_name es
     \<and> (\<forall>e\<in>set es. map_of by_name (me_name e) = Some e)"

lemma resolve_load_order_iff:
  assumes "index_ok by_name"
  shows "resolve_load_order name by_name = Inr es \<Longrightarrow>
      load_order_ok by_name (canonical_module_name name) es \<and> \<not> cyclic_from by_name (canonical_module_name name)"
    and "resolve_load_order name by_name = Inl err \<Longrightarrow>
      cyclic_from by_name (canonical_module_name name) \<and> (\<exists>m. err = Module_Error m (dep_path_of by_name m) ELOOP)"
proof -
  let ?n = "canonical_module_name name" and ?st = "\<lparr>order = [], visited = {}, visiting = {}\<rparr>"
  have ok: "visit_ok by_name ?st" using assms by (simp add: visit_ok_def)
  {
    assume "resolve_load_order name by_name = Inr es"
    then obtain st1 where st1: "visit by_name ?n ?st = Inr st1" "es = order st1"
      by (auto simp: resolve_load_order_def rbind_Inr_iff)
    from visit_establishes(1) [OF st1(1) ok] have p: "visit_ok by_name st1" "?n \<in> visited st1"
      "visited st1 \<subseteq> (dep_edges by_name)\<^sup>* `` {?n}" by (auto simp: visit_post_def)
    have "m \<in> visited st1" if "(?n, m) \<in> (dep_edges by_name)\<^sup>*" for m
      using that p(1,2) by induction (auto simp: visit_ok_def)
    with p have "visited st1 = (dep_edges by_name)\<^sup>* `` {?n}" by auto
    with p(1) visited_acyclic [OF p(1)]
    show "load_order_ok by_name ?n es \<and> \<not> cyclic_from by_name ?n"
      by (auto simp: load_order_ok_def visit_ok_def cyclic_from_def st1(2))
  }
  {
    assume "resolve_load_order name by_name = Inl err"
    then have "visit by_name ?n ?st = Inl err"
      by (cases "visit by_name ?n ?st") (auto simp: resolve_load_order_def)
    from visit_finds_cycle(1) [OF this]
    show "cyclic_from by_name ?n \<and> (\<exists>m. err = Module_Error m (dep_path_of by_name m) ELOOP)"
      by (auto simp: cyclic_from_def)
  }
qed

lemma index_ok_index_by_name: "index_ok (index_by_name entries)"
  by (auto simp: index_ok_def index_by_name_def dest!: map_of_SomeD)

subsection \<open>Loading\<close>

datatype compression = No_Compression | Xz | Zst | Gz

datatype load_outcome = Loaded | AlreadyLoaded | KernelRefused errno | FileMissing

record module_os =
  mo_exists :: "string \<Rightarrow> bool"
  mo_read :: "string \<Rightarrow> bytes option"
  mo_decompress :: "compression \<Rightarrow> bytes \<Rightarrow> bytes option"
  mo_init :: "bytes list \<Rightarrow> bytes \<Rightarrow> errno option"

text \<open>The calls of \<open>init_module\<close> so far, oldest first.\<close>

type_synonym module_calls = "(module_entry \<times> bytes) list"

definition is_recoverable_module_error :: "errno \<Rightarrow> bool" where
  "is_recoverable_module_error e \<longleftrightarrow> e \<in> {EOPNOTSUPP, ENOEXEC, ENODEV, ENOSYS, EINVAL, ENOENT}"

definition compression_for_path :: "string \<Rightarrow> compression" where
  "compression_for_path path =
     (case utf8_name path of
        None \<Rightarrow> No_Compression
      | Some name \<Rightarrow>
          if ends_with ''.ko.xz'' name then Xz
          else if ends_with ''.ko.zst'' name then Zst
          else if ends_with ''.ko.gz'' name then Gz
          else No_Compression)"

definition decompress_module :: "module_os \<Rightarrow> string \<Rightarrow> string \<Rightarrow> module_error + bytes" where
  "decompress_module os path name =
     rbind (ok_or (Module_Io path) (mo_read os path)) (\<lambda>raw.
     case compression_for_path path of
       No_Compression \<Rightarrow> Inr raw
     | c \<Rightarrow> ok_or (Module_Error name path EIO) (mo_decompress os c raw))"

definition init_module ::
  "module_os \<Rightarrow> module_entry \<Rightarrow> bytes \<Rightarrow> module_calls \<Rightarrow> (module_error + load_outcome) \<times> module_calls" where
  "init_module os e image_bytes calls =
     (case mo_init os (map snd calls) image_bytes of
        None \<Rightarrow> Inr Loaded
      | Some errno \<Rightarrow>
          if errno = EEXIST then Inr AlreadyLoaded
          else if is_recoverable_module_error errno then Inr (KernelRefused errno)
          else Inl (Module_Error (me_name e) (me_path e) errno),
      calls @ [(e, image_bytes)])"

definition load_module ::
  "module_os \<Rightarrow> module_entry \<Rightarrow> module_calls \<Rightarrow> (module_error + load_outcome) \<times> module_calls" where
  "load_module os e calls =
     (if \<not> mo_exists os (me_path e) then (Inr FileMissing, calls)
      else case decompress_module os (me_path e) (me_name e) of
        Inl err \<Rightarrow> (Inl err, calls)
      | Inr image_bytes \<Rightarrow> init_module os e image_bytes calls)"

text \<open>The loop over a load order; the number counts the modules that are in the kernel.\<close>

fun load_entries ::
  "module_os \<Rightarrow> module_entry list \<Rightarrow> nat \<Rightarrow> module_calls \<Rightarrow> (module_error + nat) \<times> module_calls" where
  "load_entries os [] n calls = (Inr n, calls)"
| "load_entries os (e # es) n calls =
     (case load_module os e calls of
        (Inl err, calls1) \<Rightarrow> (Inl err, calls1)
      | (Inr outcome, calls1) \<Rightarrow>
          load_entries os es (if outcome = Loaded \<or> outcome = AlreadyLoaded then Suc n else n) calls1)"

definition load_with_deps ::
  "module_os \<Rightarrow> string \<Rightarrow> module_index \<Rightarrow> module_calls \<Rightarrow> (module_error + unit) \<times> module_calls" where
  "load_with_deps os name by_name calls =
     (case resolve_load_order name by_name of
        Inl err \<Rightarrow> (Inl err, calls)
      | Inr es \<Rightarrow> (case load_entries os es 0 calls of (r, calls1) \<Rightarrow> (rbind r (\<lambda>_. Inr ()), calls1)))"

definition filter_blacklisted ::
  "module_entry list \<Rightarrow> string set \<Rightarrow> module_entry list \<times> string list" where
  "filter_blacklisted es blacklist =
     (filter (\<lambda>e. me_name e \<notin> blacklist) es,
      map me_name (filter (\<lambda>e. me_name e \<in> blacklist) es))"

text \<open>The loop over the configured names.\<close>

fun load_names ::
  "module_os \<Rightarrow> module_index \<Rightarrow> string set \<Rightarrow> string list \<Rightarrow> nat \<Rightarrow> module_calls
   \<Rightarrow> (module_error + nat) \<times> module_calls" where
  "load_names os by_name blacklist [] n calls = (Inr n, calls)"
| "load_names os by_name blacklist (name # names) n calls =
     (let canonical = canonical_module_name name in
      if canonical \<in> blacklist then load_names os by_name blacklist names n calls
      else if map_of by_name canonical = None then load_names os by_name blacklist names n calls
      else case resolve_load_order name by_name of
        Inl err \<Rightarrow> (Inl err, calls)
      | Inr es \<Rightarrow>
          (case load_entries os (fst (filter_blacklisted es blacklist)) n calls of
             (Inl err, calls1) \<Rightarrow> (Inl err, calls1)
           | (Inr n1, calls1) \<Rightarrow> load_names os by_name blacklist names n1 calls1))"

definition load_modules_inner ::
  "module_os \<Rightarrow> (string \<Rightarrow> string option) \<Rightarrow> string option \<Rightarrow> string \<Rightarrow> string list \<Rightarrow> string list
   \<Rightarrow> module_calls \<Rightarrow> (module_error + nat) \<times> module_calls" where
  "load_modules_inner os read release modules_dir explicit blacklist calls =
     (case rbind (ok_or (Module_Io ''uname'') release) (load_modules_dep read modules_dir) of
        Inl err \<Rightarrow> (Inl err, calls)
      | Inr entries \<Rightarrow>
          load_names os (index_by_name entries) (set (map canonical_module_name blacklist)) explicit 0 calls)"

datatype module_set = Early | Explicit

record kernel_modules_config =
  km_modules_dir :: string
  km_early :: "string list"
  km_explicit :: "string list"
  km_blacklist :: "string list"

definition module_list :: "module_set \<Rightarrow> kernel_modules_config \<Rightarrow> string list" where
  "module_list which config = (case which of Early \<Rightarrow> km_early config | Explicit \<Rightarrow> km_explicit config)"

definition load_module_set ::
  "module_os \<Rightarrow> (string \<Rightarrow> string option) \<Rightarrow> string option \<Rightarrow> kernel_modules_config \<Rightarrow> module_set
   \<Rightarrow> module_calls \<Rightarrow> (module_error + unit) \<times> module_calls" where
  "load_module_set os read release config which calls =
     (if module_list which config = [] then (Inr (), calls)
      else case load_modules_inner os read release (km_modules_dir config) (module_list which config)
                  (km_blacklist config) calls of
        (r, calls1) \<Rightarrow> (rbind r (\<lambda>_. Inr ()), calls1))"

subsection \<open>What the kernel is asked\<close>

text \<open>All dependencies of an entry that are wanted and present have been asked for.\<close>

definition served ::
  "module_os \<Rightarrow> module_index \<Rightarrow> string set \<Rightarrow> module_entry set \<Rightarrow> module_entry \<Rightarrow> bool" where
  "served os by_name blacklist asked e \<longleftrightarrow>
     (\<forall>d e'. d \<in> set (me_deps e) \<longrightarrow> map_of by_name d = Some e' \<longrightarrow> d \<notin> blacklist
        \<longrightarrow> mo_exists os (me_path e') \<longrightarrow> e' \<in> asked)"

definition calls_ok :: "module_os \<Rightarrow> module_index \<Rightarrow> string set \<Rightarrow> module_calls \<Rightarrow> bool" where
  "calls_ok os by_name blacklist calls \<longleftrightarrow>
     (\<forall>xs e b ys. calls = xs @ (e, b) # ys \<longrightarrow>
        served os by_name blacklist (fst ` set xs) e \<and> me_name e \<notin> blacklist)"

lemma calls_ok_Nil [simp]: "calls_ok os by_name blacklist []"
  by (simp add: calls_ok_def)

lemma calls_ok_snoc:
  assumes "calls_ok os by_name blacklist calls" "served os by_name blacklist (fst ` set calls) e"
    "me_name e \<notin> blacklist"
  shows "calls_ok os by_name blacklist (calls @ [(e, b)])"
  unfolding calls_ok_def
proof (intro allI impI)
  fix xs e' b' ys assume eq: "calls @ [(e, b)] = xs @ (e', b') # ys"
  show "served os by_name blacklist (fst ` set xs) e' \<and> me_name e' \<notin> blacklist"
    using assms eq unfolding calls_ok_def by (cases ys rule: rev_cases) auto
qed

lemma served_mono: "served os by_name blacklist A e \<Longrightarrow> A \<subseteq> B \<Longrightarrow> served os by_name blacklist B e"
  by (auto simp: served_def)

lemma load_module_calls:
  "load_module os e calls = (r, calls1) \<Longrightarrow>
    (calls1 = calls \<and> (mo_exists os (me_path e) \<longrightarrow> (\<exists>err. r = Inl err))) \<or> (\<exists>b. calls1 = calls @ [(e, b)])"
  by (auto simp: load_module_def init_module_def split: if_splits sum.splits)

text \<open>A list of entries that can be asked for one after the other.\<close>

definition servable ::
  "module_os \<Rightarrow> module_index \<Rightarrow> string set \<Rightarrow> module_entry set \<Rightarrow> module_entry list \<Rightarrow> bool" where
  "servable os by_name blacklist asked es \<longleftrightarrow>
     (\<forall>xs e ys. es = xs @ e # ys \<longrightarrow> me_name e \<notin> blacklist
        \<and> served os by_name blacklist (asked \<union> {x \<in> set xs. mo_exists os (me_path x)}) e)"

lemma servable_Cons:
  assumes "servable os by_name blacklist A (e # es)"
    and "A \<subseteq> B" "mo_exists os (me_path e) \<Longrightarrow> e \<in> B"
  shows "served os by_name blacklist A e" "me_name e \<notin> blacklist" "servable os by_name blacklist B es"
proof -
  show "served os by_name blacklist A e" "me_name e \<notin> blacklist"
    using assms(1) unfolding servable_def by (metis (no_types, lifting) Un_empty_right append_Nil empty_Collect_eq empty_iff empty_set)+
  show "servable os by_name blacklist B es"
    unfolding servable_def
  proof (intro allI impI)
    fix xs x ys assume "es = xs @ x # ys"
    then have "e # es = (e # xs) @ x # ys" by simp
    with assms(1) have "me_name x \<notin> blacklist"
      "served os by_name blacklist (A \<union> {x \<in> set (e # xs). mo_exists os (me_path x)}) x"
      unfolding servable_def by blast+
    then show "me_name x \<notin> blacklist
        \<and> served os by_name blacklist (B \<union> {x \<in> set xs. mo_exists os (me_path x)}) x"
      using assms(2,3) by (auto elim!: served_mono)
  qed
qed

lemma load_entries_calls:
  assumes "load_entries os es n calls = (r, calls1)" "calls_ok os by_name blacklist calls"
    and "servable os by_name blacklist (fst ` set calls) es"
  shows "calls_ok os by_name blacklist calls1 \<and> set calls \<subseteq> set calls1
    \<and> fst ` set calls1 \<subseteq> fst ` set calls \<union> set es
    \<and> (\<forall>m. r = Inr m \<longrightarrow> {e \<in> set es. mo_exists os (me_path e)} \<subseteq> fst ` set calls1)"
  using assms
proof (induction es arbitrary: n calls)
  case Nil
  then show ?case by simp
next
  case (Cons e es)
  obtain q calls2 where l: "load_module os e calls = (q, calls2)" by fastforce
  have c2: "(calls2 = calls \<and> (mo_exists os (me_path e) \<longrightarrow> (\<exists>err. q = Inl err))) \<or> (\<exists>b. calls2 = calls @ [(e, b)])"
    by (rule load_module_calls [OF l])
  note s = servable_Cons [OF Cons.prems(3)]
  have ok2: "calls_ok os by_name blacklist calls2"
    using c2 Cons.prems(2) calls_ok_snoc s(1,2) by blast
  have sub: "set calls \<subseteq> set calls2" "fst ` set calls2 \<subseteq> insert e (fst ` set calls)" using c2 by auto
  show ?case
  proof (cases q)
    case (Inl err)
    with l Cons.prems(1) have "calls1 = calls2" "r = Inl err" by auto
    with ok2 sub show ?thesis by auto
  next
    case (Inr oc)
    with c2 have asked: "mo_exists os (me_path e) \<Longrightarrow> e \<in> fst ` set calls2" by force
    have sv: "servable os by_name blacklist (fst ` set calls2) es"
      using sub(1) asked by (intro s(3)) auto
    have "load_entries os es (if oc = Loaded \<or> oc = AlreadyLoaded then Suc n else n) calls2 = (r, calls1)"
      using l Inr Cons.prems(1) by simp
    from Cons.IH [OF this ok2 sv] have h: "calls_ok os by_name blacklist calls1" "set calls2 \<subseteq> set calls1"
      "fst ` set calls1 \<subseteq> fst ` set calls2 \<union> set es"
      "\<forall>m. r = Inr m \<longrightarrow> {e \<in> set es. mo_exists os (me_path e)} \<subseteq> fst ` set calls1" by simp_all
    have "mo_exists os (me_path e) \<Longrightarrow> e \<in> fst ` set calls1" using asked h(2) by blast
    then have "\<forall>m. r = Inr m \<longrightarrow> {x \<in> set (e # es). mo_exists os (me_path x)} \<subseteq> fst ` set calls1"
      using h(4) by auto
    moreover have "fst ` set calls1 \<subseteq> fst ` set calls \<union> set (e # es)" using h(3) sub(2) by auto
    ultimately show ?thesis using h(1,2) sub(1) by blast
  qed
qed

lemma filter_prefix:
  "filter P es = xs @ e # ys \<Longrightarrow> \<exists>us vs. es = us @ e # vs \<and> xs = filter P us \<and> P e"
proof (induction es arbitrary: xs)
  case (Cons a es)
  show ?case
  proof (cases "P a")
    case True
    show ?thesis
    proof (cases xs)
      case Nil
      with True Cons.prems show ?thesis by (intro exI [of _ "[]"] exI [of _ es]) auto
    next
      case (Cons x xs')
      with True Cons.prems have "filter P es = xs' @ e # ys" "x = a" by simp_all
      from Cons.IH [OF this(1)] obtain us vs where "es = us @ e # vs" "xs' = filter P us" "P e" by blast
      with True Cons \<open>x = a\<close> show ?thesis by (intro exI [of _ "a # us"] exI [of _ vs]) auto
    qed
  next
    case False
    with Cons.prems have "filter P es = xs @ e # ys" by simp
    from Cons.IH [OF this] obtain us vs where "es = us @ e # vs" "xs = filter P us" "P e" by blast
    with False show ?thesis by (intro exI [of _ "a # us"] exI [of _ vs]) auto
  qed
qed simp

lemma load_order_servable:
  assumes "load_order_ok by_name n es"
  shows "servable os by_name blacklist A (fst (filter_blacklisted es blacklist))"
  unfolding servable_def
proof (intro allI impI)
  fix xs e ys assume "fst (filter_blacklisted es blacklist) = xs @ e # ys"
  then obtain us vs where o: "es = us @ e # vs" "xs = filter (\<lambda>e. me_name e \<notin> blacklist) us" "me_name e \<notin> blacklist"
    using filter_prefix [of "\<lambda>e. me_name e \<notin> blacklist" es xs e ys] by (auto simp: filter_blacklisted_def)
  have "e' \<in> {x \<in> set xs. mo_exists os (me_path x)}"
    if "d \<in> set (me_deps e)" "map_of by_name d = Some e'" "d \<notin> blacklist" "mo_exists os (me_path e')" for d e'
  proof -
    from assms o(1) that(1,2) have "d \<in> me_name ` set us"
      unfolding load_order_ok_def deps_first_def by blast
    then obtain x where "x \<in> set us" "me_name x = d" by auto
    moreover from this assms o(1) that(2) have "x = e'" by (auto simp: load_order_ok_def)
    ultimately show ?thesis using that o(2) by auto
  qed
  then show "me_name e \<notin> blacklist
      \<and> served os by_name blacklist (A \<union> {x \<in> set xs. mo_exists os (me_path x)}) e"
    using o(3) unfolding served_def by blast
qed

text \<open>The modules that are wanted for a list of names.\<close>

definition wanted :: "module_index \<Rightarrow> string set \<Rightarrow> string list \<Rightarrow> module_entry set" where
  "wanted by_name blacklist names =
     {e. \<exists>name m. name \<in> set names \<and> canonical_module_name name \<notin> blacklist
        \<and> canonical_module_name name \<in> dom (map_of by_name)
        \<and> (canonical_module_name name, m) \<in> (dep_edges by_name)\<^sup>* \<and> map_of by_name m = Some e \<and> m \<notin> blacklist}"

lemma wanted_filter:
  assumes "index_ok by_name" "load_order_ok by_name n es"
  shows "set (fst (filter_blacklisted es blacklist))
    = {e. \<exists>m. (n, m) \<in> (dep_edges by_name)\<^sup>* \<and> map_of by_name m = Some e \<and> m \<notin> blacklist}"
proof -
  from assms(2) have names: "me_name ` set es = (dep_edges by_name)\<^sup>* `` {n} \<inter> dom (map_of by_name)"
    and entry: "\<And>e. e \<in> set es \<Longrightarrow> map_of by_name (me_name e) = Some e"
    by (simp_all add: load_order_ok_def)
  have e: "e \<in> set es \<longleftrightarrow> (n, me_name e) \<in> (dep_edges by_name)\<^sup>* \<and> map_of by_name (me_name e) = Some e" for e
  proof
    assume s: "e \<in> set es"
    then have "me_name e \<in> me_name ` set es" by (rule imageI)
    with entry [OF s] show "(n, me_name e) \<in> (dep_edges by_name)\<^sup>* \<and> map_of by_name (me_name e) = Some e"
      unfolding names by simp
  next
    assume a: "(n, me_name e) \<in> (dep_edges by_name)\<^sup>* \<and> map_of by_name (me_name e) = Some e"
    then have "me_name e \<in> me_name ` set es" unfolding names by auto
    then obtain x where x: "x \<in> set es" "me_name x = me_name e" by auto
    from entry [OF x(1)] have "map_of by_name (me_name e) = Some x" by (simp only: x(2))
    with a have "x = e" by (simp only: option.inject)
    with x(1) show "e \<in> set es" by (simp only:)
  qed
  have m: "me_name e = m" if "map_of by_name m = Some e" for m e
    using that assms(1) by (simp add: index_ok_def)
  show ?thesis
  proof (intro set_eqI iffI)
    fix x assume "x \<in> set (fst (filter_blacklisted es blacklist))"
    then show "x \<in> {e. \<exists>m. (n, m) \<in> (dep_edges by_name)\<^sup>* \<and> map_of by_name m = Some e \<and> m \<notin> blacklist}"
      using e [of x] unfolding filter_blacklisted_def by auto
  next
    fix x assume "x \<in> {e. \<exists>m. (n, m) \<in> (dep_edges by_name)\<^sup>* \<and> map_of by_name m = Some e \<and> m \<notin> blacklist}"
    then show "x \<in> set (fst (filter_blacklisted es blacklist))"
      using m e [of x] unfolding filter_blacklisted_def by auto
  qed
qed

lemma load_names_calls:
  assumes "index_ok by_name" "load_names os by_name blacklist names n calls = (r, calls1)"
    and "calls_ok os by_name blacklist calls"
  shows "calls_ok os by_name blacklist calls1 \<and> set calls \<subseteq> set calls1
    \<and> fst ` set calls1 \<subseteq> fst ` set calls \<union> wanted by_name blacklist names
    \<and> (\<forall>m. r = Inr m \<longrightarrow> {e \<in> wanted by_name blacklist names. mo_exists os (me_path e)} \<subseteq> fst ` set calls1)"
  using assms(2,3)
proof (induction names arbitrary: n calls)
  case Nil
  then show ?case by (simp add: wanted_def)
next
  case (Cons name names)
  let ?c = "canonical_module_name name"
  show ?case
  proof (cases "?c \<in> blacklist \<or> map_of by_name ?c = None")
    case True
    then have "wanted by_name blacklist (name # names) = wanted by_name blacklist names"
      by (auto simp: wanted_def)
    moreover from True Cons.prems(1) have "load_names os by_name blacklist names n calls = (r, calls1)"
      by (auto simp: Let_def split: if_splits)
    ultimately show ?thesis using Cons.IH Cons.prems(2) by simp
  next
    case False
    show ?thesis
    proof (cases "resolve_load_order name by_name")
      case (Inl err)
      with False Cons.prems show ?thesis by (auto simp: Let_def)
    next
      case (Inr es)
      let ?es = "fst (filter_blacklisted es blacklist)"
      have lo: "load_order_ok by_name ?c es" using resolve_load_order_iff(1) [OF assms(1) Inr] by simp
      have w: "wanted by_name blacklist (name # names) = set ?es \<union> wanted by_name blacklist names"
        using False unfolding wanted_filter [OF assms(1) lo] by (auto simp: wanted_def)
      obtain q calls2 where l: "load_entries os ?es n calls = (q, calls2)" by fastforce
      from load_entries_calls [OF l Cons.prems(2) load_order_servable [OF lo]]
      have s: "calls_ok os by_name blacklist calls2" "set calls \<subseteq> set calls2"
        "fst ` set calls2 \<subseteq> fst ` set calls \<union> set ?es"
        "\<forall>m. q = Inr m \<longrightarrow> {e \<in> set ?es. mo_exists os (me_path e)} \<subseteq> fst ` set calls2" by simp_all
      show ?thesis
      proof (cases q)
        case (Inl err)
        with False Inr l Cons.prems(1) have "calls1 = calls2" "r = Inl err" by (auto simp: Let_def)
        with s w show ?thesis by auto
      next
        case q: (Inr n1)
        with False Inr l Cons.prems(1) have "load_names os by_name blacklist names n1 calls2 = (r, calls1)"
          by (auto simp: Let_def)
        from Cons.IH [OF this s(1)] have h: "calls_ok os by_name blacklist calls1" "set calls2 \<subseteq> set calls1"
          "fst ` set calls1 \<subseteq> fst ` set calls2 \<union> wanted by_name blacklist names"
          "\<forall>m. r = Inr m \<longrightarrow> {e \<in> wanted by_name blacklist names. mo_exists os (me_path e)} \<subseteq> fst ` set calls1"
          by simp_all
        note grows = image_mono [OF h(2), of fst]
        have "{e \<in> set ?es. mo_exists os (me_path e)} \<subseteq> fst ` set calls1"
          using s(4) q grows by blast
        then have "\<forall>m. r = Inr m \<longrightarrow>
            {e \<in> wanted by_name blacklist (name # names). mo_exists os (me_path e)} \<subseteq> fst ` set calls1"
          using h(4) unfolding w by blast
        moreover have "fst ` set calls1 \<subseteq> fst ` set calls \<union> wanted by_name blacklist (name # names)"
          using h(3) s(3) unfolding w by blast
        ultimately show ?thesis using h(1,2) s(2) by blast
      qed
    qed
  qed
qed

subsection \<open>Properties\<close>


text \<open>C39: the kernel is asked for no module on the blacklist, not even as a dependency; it is asked for
  a module only after every dependency that is wanted and whose file is there; and when no error ends
  the pass, every wanted module whose file is there has been asked for. This holds in the early pass and,
  from the calls that one made, in the later one.\<close>

theorem modules_load_in_dependency_order:
  assumes "load_modules_dep read modules_dir release = Inr entries"
    and "calls_ok os (index_by_name entries) (set (map canonical_module_name blacklist)) calls"
    and "load_modules_inner os read (Some release) modules_dir explicit blacklist calls = (r, calls1)"
  shows "calls_ok os (index_by_name entries) (set (map canonical_module_name blacklist)) calls1
    \<and> fst ` set calls1 \<subseteq> fst ` set calls
        \<union> wanted (index_by_name entries) (set (map canonical_module_name blacklist)) explicit
    \<and> (\<forall>n. r = Inr n \<longrightarrow>
        {e \<in> wanted (index_by_name entries) (set (map canonical_module_name blacklist)) explicit.
          mo_exists os (me_path e)} \<subseteq> fst ` set calls1)"
  using load_names_calls [OF index_ok_index_by_name _ assms(2)] assms(1,3)
  by (auto simp: load_modules_inner_def)

definition demo_dep_text :: string where
  "demo_dep_text = dep_line ''dm-crypt.ko.xz'' [''dm-mod.ko'', ''cbc.ko''] @ newline #
     dep_line ''dm-mod.ko'' [] @ newline # dep_line ''cbc.ko'' [] @ [newline]"

definition demo_module :: "string \<Rightarrow> string \<Rightarrow> string list \<Rightarrow> module_entry" where
  "demo_module name file deps = \<lparr>me_name = name, me_path = ''/m/6/'' @ file, me_deps = deps\<rparr>"

definition demo_modules :: "module_entry list" where
  "demo_modules =
     [demo_module ''dm_crypt'' ''dm-crypt.ko.xz'' [''dm_mod'', ''cbc''],
      demo_module ''dm_mod'' ''dm-mod.ko'' [], demo_module ''cbc'' ''cbc.ko'' []]"

definition demo_module_os :: module_os where
  "demo_module_os = \<lparr>mo_exists = (\<lambda>_. True), mo_read = (\<lambda>p. Some p), mo_decompress = (\<lambda>c b. Some b),
     mo_init = (\<lambda>calls b. if calls = [] then Some EEXIST else None)\<rparr>"

lemma demo_dep_parse: "load_modules_dep (\<lambda>p. Some demo_dep_text) ''/m'' ''6'' = Inr demo_modules"
proof -
  have g: "is_graphic c \<and> c \<noteq> CHR '':''"
    if "c \<in> set ''dm-crypt.ko.xz'' \<union> set ''dm-mod.ko'' \<union> set ''cbc.ko''" for c
    using that by (auto simp: is_graphic_def ord_def)
  have n: "module_name_from_path ''/m/6/dm-crypt.ko.xz'' = Some ''dm_crypt''"
    "module_name_from_path ''/m/6/dm-mod.ko'' = Some ''dm_mod''"
    "module_name_from_path ''/m/6/cbc.ko'' = Some ''cbc''"
    by code_simp+
  have j: "path_join ''/m/6'' f = ''/m/6/'' @ f" if "f \<noteq> []" "hd f \<noteq> slash" for f
    using that by (cases f) (auto simp: path_join_def slash_def)
  have p: "parse_dep_line ''/m/6'' (dep_line ''dm-crypt.ko.xz'' [''dm-mod.ko'', ''cbc.ko''])
      = Some (demo_module ''dm_crypt'' ''dm-crypt.ko.xz'' [''dm_mod'', ''cbc''])"
    "parse_dep_line ''/m/6'' (dep_line ''dm-mod.ko'' []) = Some (demo_module ''dm_mod'' ''dm-mod.ko'' [])"
    "parse_dep_line ''/m/6'' (dep_line ''cbc.ko'' []) = Some (demo_module ''cbc'' ''cbc.ko'' [])"
    using n g by (subst parse_dep_line_render; simp add: j slash_def demo_module_def)+
  have l: "text_lines demo_dep_text =
      [dep_line ''dm-crypt.ko.xz'' [''dm-mod.ko'', ''cbc.ko''], dep_line ''dm-mod.ko'' [], dep_line ''cbc.ko'' []]"
    by code_simp
  have "path_join ''/m'' ''6'' = ''/m/6''" by (simp add: path_join_def slash_def)
  then show ?thesis
    by (simp add: load_modules_dep_def parse_modules_dep_text_def l p demo_modules_def)
qed

lemma demo_index:
  "index_by_name demo_modules =
    [(''cbc'', demo_module ''cbc'' ''cbc.ko'' []), (''dm_mod'', demo_module ''dm_mod'' ''dm-mod.ko'' []),
     (''dm_crypt'', demo_module ''dm_crypt'' ''dm-crypt.ko.xz'' [''dm_mod'', ''cbc''])]"
  by (simp add: index_by_name_def demo_modules_def demo_module_def)

theorem modules_load_in_dependency_order_witness:
  "\<exists>calls1. load_modules_inner demo_module_os (\<lambda>p. Some demo_dep_text) (Some ''6'') ''/m'' [''dm-crypt''] [''cbc''] []
      = (Inr 2, calls1)
    \<and> map (me_name \<circ> fst) calls1 = [''dm_mod'', ''dm_crypt'']
    \<and> calls_ok demo_module_os (index_by_name demo_modules) {''cbc''} calls1"
proof -
  have c: "canonical_module_name ''dm-crypt'' = ''dm_crypt''" "canonical_module_name ''cbc'' = ''cbc''"
    by (simp_all add: canonical_module_name_def)
  have o: "resolve_load_order ''dm-crypt'' (index_by_name demo_modules) = Inr
      [demo_module ''dm_mod'' ''dm-mod.ko'' [], demo_module ''cbc'' ''cbc.ko'' [],
       demo_module ''dm_crypt'' ''dm-crypt.ko.xz'' [''dm_mod'', ''cbc'']]"
    by (simp add: resolve_load_order_def c demo_index visit.simps demo_module_def)
  have m: "me_name (demo_module name f ds) = name" "mo_exists demo_module_os p"
    "mo_init demo_module_os calls b = (if calls = [] then Some EEXIST else None)" for name f ds p calls b
    by (simp_all add: demo_module_def demo_module_os_def)
  have d: "decompress_module demo_module_os p name = Inr p" for p name
    by (simp add: decompress_module_def demo_module_os_def split: compression.split)
  obtain calls1 where l: "load_modules_inner demo_module_os (\<lambda>p. Some demo_dep_text) (Some ''6'') ''/m'' [''dm-crypt''] [''cbc''] []
      = (Inr 2, calls1)" "map (me_name \<circ> fst) calls1 = [''dm_mod'', ''dm_crypt'']"
    by (simp add: load_modules_inner_def demo_dep_parse c o [unfolded demo_index] Let_def filter_blacklisted_def demo_index
        load_module_def init_module_def d m)
  from modules_load_in_dependency_order [OF demo_dep_parse _ l(1)] l c show ?thesis by simp
qed

end
