(* ===== verification/Seal_Policy.thy ===== *)
theory Seal_Policy
  imports Boot_Dispatch
begin

text \<open>
  The lock on every way into a shell: \<open>policy/guard.rs\<close> (cap the lock PCR, close every mapper the
  TPM unsealed, and only then hand out the witness \<open>Sealed\<close>), \<open>policy/registry.rs\<close> (which
  mappers are open, in memory and in a file that survives a panic), \<open>policy/relock.rs\<close> with
  \<open>relock/argv.rs\<close> (the refusal), \<open>activation/seal.rs\<close> (who registers), and the sites that spawn.
  What the operating system does is the record \<open>world\<close>, each answer a function of all that
  happened before; what happens is a list of events.
\<close>

subsection \<open>Activations\<close>

datatype activation_kind = Lvm | Mdraid | Luks_Tpm | Luks_Keyfile | Luks_Password | Zfs

record activation =
  act_kind :: activation_kind
  act_required_modules :: "string list"
  act_binary :: string
  act_argv :: "string list"
  act_produces :: "string list"
  act_sources :: "string list"
  act_description :: string
  act_prompt_label :: "string option"
  act_pass_to_stage1 :: "string option"

text \<open>The name a \<open>cryptsetup open\<close> command gives its mapper: the last argument that is no option.\<close>

definition mapper_name_from_open_argv :: "string list \<Rightarrow> string option" where
  "mapper_name_from_open_argv argv =
     (let positionals = filter (\<lambda>a. \<not> starts_with ''-'' a) argv
      in if get_at positionals 0 \<noteq> Some ''open'' \<or> length positionals < 3 then None
         else Some (last positionals))"

definition mapper_prefix :: string where
  "mapper_prefix = ''/dev/mapper/''"

definition luks_tpm_mapper_name :: "activation \<Rightarrow> string option" where
  "luks_tpm_mapper_name act =
     (if act_kind act \<noteq> Luks_Tpm then None
      else case find_map (strip_prefix mapper_prefix) (act_produces act) of
        Some name \<Rightarrow> Some name
      | None \<Rightarrow> mapper_name_from_open_argv (act_argv act))"

subsection \<open>What the machine does\<close>

datatype cap_outcome = Capped | No_Tpm | Cap_Fault string

datatype runner = Async_Runner | Blocking_Runner

datatype seal_event =
    Ev_Cap cap_outcome
  | Ev_Activate activation_kind string "string list" "string + int"
  | Ev_Run string "string list" "string + int"
  | Ev_Detach string
  | Ev_Shell
  | Ev_Sentinel
  | Ev_Panic

type_synonym events = "seal_event list"

text \<open>How a write to the registry file ends; \<open>Torn n\<close> is a failure after \<open>n\<close> bytes.\<close>

datatype write_fate = Landed | Not_Opened | Torn nat

record mapper_entry =
  me_cryptsetup :: string
  me_name :: string

record world =
  w_cap :: "events \<Rightarrow> cap_outcome"
  w_run :: "events \<Rightarrow> runner \<Rightarrow> string \<Rightarrow> string list \<Rightarrow> string + int"
  w_append :: "events \<Rightarrow> mapper_entry \<Rightarrow> write_fate"
  w_readable :: "events \<Rightarrow> bool"
  w_rewrite :: "events \<Rightarrow> write_fate"
  w_unlink :: "events \<Rightarrow> bool"
  w_node_dev :: "events \<Rightarrow> string \<Rightarrow> (nat \<times> nat) option"
  w_mountinfo :: "events \<Rightarrow> string option"
  w_sentinel :: "events \<Rightarrow> bool"

text \<open>
  The registry of \<open>thread_local\<close>s, the file under \<open>/run\<close>, the latch of the cap, the files of the
  boot volume, and everything that happened so far.
\<close>

record seal_state =
  reg_mappers :: "mapper_entry list"
  reg_file :: "string option"
  cap_latch :: bool
  boot_files :: "string \<Rightarrow> bool"
  trace :: events

definition emit :: "seal_event \<Rightarrow> seal_state \<Rightarrow> seal_state" where
  "emit ev s = s\<lparr>trace := trace s @ [ev]\<rparr>"

subsection \<open>The registry\<close>

definition tab :: char where
  "tab = CHR 0x09"

definition persist_line :: "mapper_entry \<Rightarrow> string" where
  "persist_line e = me_cryptsetup e @ tab # me_name e @ [newline]"

definition persist_append :: "world \<Rightarrow> mapper_entry \<Rightarrow> seal_state \<Rightarrow> seal_state" where
  "persist_append w e s =
     (let old = (case reg_file s of None \<Rightarrow> [] | Some t \<Rightarrow> t) in
      case w_append w (trace s) e of
        Landed \<Rightarrow> s\<lparr>reg_file := Some (old @ persist_line e)\<rparr>
      | Not_Opened \<Rightarrow> s
      | Torn n \<Rightarrow> s\<lparr>reg_file := Some (old @ take n (persist_line e))\<rparr>)"

text \<open>\<open>read_to_string\<close> refuses a file that is not UTF-8, as a torn write can leave it.\<close>

definition read_registry :: "world \<Rightarrow> seal_state \<Rightarrow> string option" where
  "read_registry w s =
     (case reg_file s of
        None \<Rightarrow> None
      | Some t \<Rightarrow> if w_readable w (trace s) \<and> valid_utf8 t then Some t else None)"

definition parse_persist_line :: "string \<Rightarrow> mapper_entry option" where
  "parse_persist_line line =
     (case split_once tab line of
        None \<Rightarrow> None
      | Some (cryptsetup, name) \<Rightarrow>
          if trim name = [] then None
          else Some \<lparr>me_cryptsetup = cryptsetup, me_name = trim name\<rparr>)"

definition parse_registry :: "string \<Rightarrow> mapper_entry list" where
  "parse_registry t = List.map_filter parse_persist_line (text_lines t)"

definition persist_load :: "world \<Rightarrow> seal_state \<Rightarrow> mapper_entry list" where
  "persist_load w s = (case read_registry w s of None \<Rightarrow> [] | Some t \<Rightarrow> parse_registry t)"

definition register_tpm_mapper :: "world \<Rightarrow> mapper_entry \<Rightarrow> seal_state \<Rightarrow> seal_state" where
  "register_tpm_mapper w e s =
     (if me_name e \<in> me_name ` set (reg_mappers s) then s
      else let s' = persist_append w e s in s'\<lparr>reg_mappers := reg_mappers s' @ [e]\<rparr>)"

fun merge_entries :: "mapper_entry list \<Rightarrow> mapper_entry list \<Rightarrow> mapper_entry list" where
  "merge_entries merged [] = merged"
| "merge_entries merged (d # ds) =
     merge_entries (if me_name d \<in> me_name ` set merged then merged else merged @ [d]) ds"

definition mapper_snapshot :: "world \<Rightarrow> seal_state \<Rightarrow> mapper_entry list" where
  "mapper_snapshot w s = merge_entries (reg_mappers s) (persist_load w s)"

definition pending :: "world \<Rightarrow> seal_state \<Rightarrow> nat" where
  "pending w s = length (mapper_snapshot w s)"

text \<open>\<open>fs::write\<close> truncates before it writes, so a failed rewrite leaves what had landed.\<close>

definition rewrite_persist :: "world \<Rightarrow> mapper_entry list \<Rightarrow> seal_state \<Rightarrow> seal_state" where
  "rewrite_persist w es s =
     (let body = concat (map persist_line es) in
      case w_rewrite w (trace s) of
        Landed \<Rightarrow> s\<lparr>reg_file := Some body\<rparr>
      | Not_Opened \<Rightarrow> s
      | Torn n \<Rightarrow> s\<lparr>reg_file := Some (take n body)\<rparr>)"

definition persist_remove :: "world \<Rightarrow> string \<Rightarrow> seal_state \<Rightarrow> seal_state" where
  "persist_remove w name s =
     (case read_registry w s of
        None \<Rightarrow> s
      | Some t \<Rightarrow>
          (let kept = filter (\<lambda>e. me_name e \<noteq> name) (parse_registry t)
           in if kept = [] then (if w_unlink w (trace s) then s\<lparr>reg_file := None\<rparr> else s)
              else rewrite_persist w kept s))"

definition mark_closed :: "world \<Rightarrow> string \<Rightarrow> seal_state \<Rightarrow> seal_state" where
  "mark_closed w name s =
     persist_remove w name
       (s\<lparr>reg_mappers := filter (\<lambda>e. me_name e \<noteq> name) (reg_mappers s)\<rparr>)"

definition register_tpm_mapper_named ::
  "world \<Rightarrow> activation \<Rightarrow> string \<Rightarrow> seal_state \<Rightarrow> seal_state" where
  "register_tpm_mapper_named w act name s =
     register_tpm_mapper w \<lparr>me_cryptsetup = act_binary act, me_name = name\<rparr> s"

definition register_tpm_mapper_if_luks_tpm ::
  "world \<Rightarrow> activation \<Rightarrow> seal_state \<Rightarrow> seal_state" where
  "register_tpm_mapper_if_luks_tpm w act s =
     (if act_kind act \<noteq> Luks_Tpm then s
      else let names = List.map_filter (strip_prefix mapper_prefix) (act_produces act) in
        if names \<noteq> [] then fold (register_tpm_mapper_named w act) names s
        else case mapper_name_from_open_argv (act_argv act) of
          None \<Rightarrow> s
        | Some name \<Rightarrow> register_tpm_mapper_named w act name s)"

subsection \<open>Mounts on a mapper\<close>

definition oct_val :: "char \<Rightarrow> nat option" where
  "oct_val c = (if 48 \<le> ord c \<and> ord c \<le> 55 then Some (ord c - 48) else None)"

fun oct_from :: "nat \<Rightarrow> string \<Rightarrow> nat option" where
  "oct_from acc [] = Some acc"
| "oct_from acc (c # cs) =
     (case oct_val c of
        None \<Rightarrow> None
      | Some d \<Rightarrow> if acc * 8 + d \<le> 255 then oct_from (acc * 8 + d) cs else None)"

text \<open>\<open>u8::from_str_radix(s, 8)\<close>, which like every \<open>from_str_radix\<close> accepts one leading plus.\<close>

definition parse_oct_u8 :: "string \<Rightarrow> nat option" where
  "parse_oct_u8 s =
     (case s of
        [] \<Rightarrow> None
      | c # cs \<Rightarrow> if c = CHR ''+'' then (if cs = [] then None else oct_from 0 cs) else oct_from 0 s)"

definition backslash :: char where
  "backslash = CHR 0x5C"

definition octal_escape :: "string \<Rightarrow> nat option" where
  "octal_escape rest =
     (case get_range rest 0 3 of
        None \<Rightarrow> None
      | Some oct \<Rightarrow> if valid_utf8 oct then parse_oct_u8 oct else None)"

function unescape_octal :: "string \<Rightarrow> string" where
  "unescape_octal [] = []"
| "unescape_octal (b # rest) =
     (case (if b = backslash then octal_escape rest else None) of
        Some v \<Rightarrow> byte v # unescape_octal (drop 3 rest)
      | None \<Rightarrow> b # unescape_octal rest)"
  by pat_completeness auto
termination
  by (relation "measure length") auto

definition unescape_mountinfo :: "string \<Rightarrow> string" where
  "unescape_mountinfo field = from_utf8_lossy (unescape_octal field)"

definition mount_line_target :: "string \<Rightarrow> string \<Rightarrow> string option" where
  "mount_line_target dev_id line =
     (let fields = split_on (CHR '' '') line in
      case get_at fields 2 of
        None \<Rightarrow> None
      | Some dev \<Rightarrow>
          (case get_at fields 4 of
             None \<Rightarrow> None
           | Some mount_point \<Rightarrow> if dev = dev_id then Some (unescape_mountinfo mount_point) else None))"

definition mounts_on_device :: "string \<Rightarrow> string \<Rightarrow> string list" where
  "mounts_on_device mountinfo dev_id = List.map_filter (mount_line_target dev_id) (text_lines mountinfo)"

definition dev_id_text :: "nat \<times> nat \<Rightarrow> string" where
  "dev_id_text rdev = dec (fst rdev) @ '':'' @ dec (snd rdev)"

definition detach_targets :: "string \<Rightarrow> nat \<times> nat \<Rightarrow> string list" where
  "detach_targets mountinfo rdev =
     sort_key (\<lambda>t. - int (length (components t))) (mounts_on_device mountinfo (dev_id_text rdev))"

text \<open>Best effort: whether a detach succeeds changes nothing here, the close reports.\<close>

definition detach_mapper_mounts :: "world \<Rightarrow> string \<Rightarrow> seal_state \<Rightarrow> seal_state" where
  "detach_mapper_mounts w name s =
     (case w_node_dev w (trace s) (mapper_prefix @ name) of
        None \<Rightarrow> s
      | Some rdev \<Rightarrow>
          (case w_mountinfo w (trace s) of
             None \<Rightarrow> s
           | Some mountinfo \<Rightarrow> fold (\<lambda>t. emit (Ev_Detach t)) (detach_targets mountinfo rdev) s))"

subsection \<open>The seal\<close>

datatype seal_failed =
    Tpm_Required
  | Cap_Failed string
  | Close_Not_Run string
  | Close_Exit string int

datatype sealed = Sealed

definition close_argv :: "mapper_entry \<Rightarrow> string list" where
  "close_argv e = [''close'', me_name e]"

definition close_outcome :: "string \<Rightarrow> int \<Rightarrow> seal_failed + unit" where
  "close_outcome name exit_code =
     (if exit_code = 0 \<or> exit_code = 4 then Inr () else Inl (Close_Exit name exit_code))"

definition run_tool ::
  "world \<Rightarrow> runner \<Rightarrow> string \<Rightarrow> string list \<Rightarrow> seal_state \<Rightarrow> (string + int) \<times> seal_state" where
  "run_tool w r binary argv s =
     (let res = w_run w (trace s) r binary argv in (res, emit (Ev_Run binary argv res) s))"

definition close_one ::
  "world \<Rightarrow> runner \<Rightarrow> mapper_entry \<Rightarrow> seal_state \<Rightarrow> (seal_failed + unit) \<times> seal_state" where
  "close_one w r e s =
     (let (res, s') = run_tool w r (me_cryptsetup e) (close_argv e) s in
      (case res of Inl err \<Rightarrow> Inl (Close_Not_Run err) | Inr code \<Rightarrow> close_outcome (me_name e) code, s'))"

definition cap_step :: "world \<Rightarrow> bool \<Rightarrow> seal_state \<Rightarrow> (seal_failed + unit) \<times> seal_state" where
  "cap_step w require_tpm s =
     (let outcome = w_cap w (trace s) in
      (case outcome of
         Capped \<Rightarrow> Inr ()
       | No_Tpm \<Rightarrow> if require_tpm then Inl Tpm_Required else Inr ()
       | Cap_Fault e \<Rightarrow> Inl (Cap_Failed e), emit (Ev_Cap outcome) s))"

text \<open>The strict drain stops at the first mapper that does not close, and leaves it registered.\<close>

fun close_each ::
  "world \<Rightarrow> runner \<Rightarrow> mapper_entry list \<Rightarrow> seal_state \<Rightarrow> (seal_failed + unit) \<times> seal_state" where
  "close_each w r [] s = (Inr (), s)"
| "close_each w r (e # es) s =
     (case close_one w r e (detach_mapper_mounts w (me_name e) s) of
        (Inl err, s') \<Rightarrow> (Inl err, s')
      | (Inr _, s') \<Rightarrow> close_each w r es (mark_closed w (me_name e) s'))"

definition close_all :: "world \<Rightarrow> runner \<Rightarrow> seal_state \<Rightarrow> (seal_failed + unit) \<times> seal_state" where
  "close_all w r s = close_each w r (mapper_snapshot w s) s"

fun close_each_best_effort ::
  "world \<Rightarrow> runner \<Rightarrow> mapper_entry list \<Rightarrow> seal_state \<Rightarrow> seal_state" where
  "close_each_best_effort w r [] s = s"
| "close_each_best_effort w r (e # es) s =
     (case close_one w r e s of
        (Inr _, s') \<Rightarrow> close_each_best_effort w r es (mark_closed w (me_name e) s')
      | (Inl _, s') \<Rightarrow> close_each_best_effort w r es s')"

definition close_all_best_effort :: "world \<Rightarrow> runner \<Rightarrow> seal_state \<Rightarrow> seal_state" where
  "close_all_best_effort w r s = close_each_best_effort w r (mapper_snapshot w s) s"

text \<open>The cap under its latch: run once, latched when the step returns \<open>Ok\<close>.\<close>

definition latched_cap :: "world \<Rightarrow> bool \<Rightarrow> seal_state \<Rightarrow> (seal_failed + unit) \<times> seal_state" where
  "latched_cap w require_tpm s =
     (if cap_latch s then (Inr (), s)
      else case cap_step w require_tpm s of
        (Inl e, s') \<Rightarrow> (Inl e, s')
      | (Inr _, s') \<Rightarrow> (Inr (), s'\<lparr>cap_latch := True\<rparr>))"

definition seal_with :: "world \<Rightarrow> runner \<Rightarrow> bool \<Rightarrow> seal_state \<Rightarrow> (seal_failed + sealed) \<times> seal_state" where
  "seal_with w r require_tpm s =
     (case latched_cap w require_tpm s of
        (Inl e, s1) \<Rightarrow> (Inl e, s1)
      | (Inr _, s1) \<Rightarrow>
          (case close_all w r s1 of
             (Inl e, s2) \<Rightarrow> (Inl e, s2)
           | (Inr _, s2) \<Rightarrow> (Inr Sealed, s2)))"

definition seal_secrets :: "world \<Rightarrow> bool \<Rightarrow> seal_state \<Rightarrow> (seal_failed + sealed) \<times> seal_state" where
  "seal_secrets w = seal_with w Async_Runner"

definition seal_secrets_blocking ::
  "world \<Rightarrow> bool \<Rightarrow> seal_state \<Rightarrow> (seal_failed + sealed) \<times> seal_state" where
  "seal_secrets_blocking w = seal_with w Blocking_Runner"

definition seal_for_refuse :: "world \<Rightarrow> runner \<Rightarrow> bool \<Rightarrow> seal_state \<Rightarrow> sealed \<times> seal_state" where
  "seal_for_refuse w r require_tpm s =
     (Sealed, close_all_best_effort w r (snd (latched_cap w require_tpm s)))"

subsection \<open>Which volumes a refusal locks\<close>

record relock_command =
  rl_binary :: string
  rl_argv :: "string list"
  rl_label :: string
  rl_absent_exit_code :: int

datatype mapper_parse = Mapper_Name string | Mapper_Malformed

definition mapper_name :: "string \<Rightarrow> mapper_parse option" where
  "mapper_name p =
     (case (if valid_utf8 p then strip_prefix mapper_prefix p else None) of
        None \<Rightarrow> None
      | Some name \<Rightarrow>
          if name = [] \<or> slash \<in> set name then Some Mapper_Malformed else Some (Mapper_Name name))"

definition luks_relock :: "activation \<Rightarrow> relock_command option" where
  "luks_relock act =
     (case find_map mapper_name (act_produces act) of
        None \<Rightarrow> None
      | Some Mapper_Malformed \<Rightarrow> None
      | Some (Mapper_Name name) \<Rightarrow>
          Some \<lparr>rl_binary = act_binary act, rl_argv = [''close'', name],
                rl_label = ''LUKS mapper '' @ name, rl_absent_exit_code = 4\<rparr>)"

text \<open>The peek for a second dash is the next list element here.\<close>

fun vg_scan :: "string \<Rightarrow> string \<Rightarrow> string option" where
  "vg_scan vg [] = None"
| "vg_scan vg (c # cs) =
     (if c = CHR ''-'' then
        (case cs of
           [] \<Rightarrow> if vg \<noteq> [] then Some vg else None
         | d # ds \<Rightarrow> if d = CHR ''-'' then vg_scan (vg @ ''-'') ds
                    else if vg \<noteq> [] then Some vg else None)
      else vg_scan (vg @ [c]) cs)"

definition vg_from_mangled :: "string \<Rightarrow> string option" where
  "vg_from_mangled name = vg_scan [] name"

definition vg_symlink :: "string \<Rightarrow> string option" where
  "vg_symlink s =
     (case strip_prefix ''/dev/'' s of
        None \<Rightarrow> None
      | Some rest \<Rightarrow>
          (case split_once slash rest of
             None \<Rightarrow> None
           | Some (vg, lv) \<Rightarrow> if vg \<noteq> [] \<and> lv \<noteq> [] \<and> vg \<noteq> ''mapper'' then Some vg else None))"

definition vg_of :: "string \<Rightarrow> string option" where
  "vg_of p =
     (if \<not> valid_utf8 p then None
      else case vg_symlink p of
        Some vg \<Rightarrow> Some vg
      | None \<Rightarrow> (case strip_prefix mapper_prefix p of None \<Rightarrow> None | Some name \<Rightarrow> vg_from_mangled name))"

definition lvm_relock :: "activation \<Rightarrow> relock_command option" where
  "lvm_relock act =
     (case find_map vg_of (act_produces act) of
        None \<Rightarrow> None
      | Some vg \<Rightarrow>
          Some \<lparr>rl_binary = ''vgchange'', rl_argv = [''-an'', vg],
                rl_label = ''LVM volume group '' @ vg, rl_absent_exit_code = 0\<rparr>)"

definition is_md_node :: "string \<Rightarrow> bool" where
  "is_md_node p \<longleftrightarrow> valid_utf8 p \<and> starts_with ''/dev/md'' p"

definition mdraid_relock :: "activation \<Rightarrow> relock_command option" where
  "mdraid_relock act =
     (case find is_md_node (act_produces act) of
        None \<Rightarrow> None
      | Some md \<Rightarrow>
          Some \<lparr>rl_binary = ''mdadm'', rl_argv = [''--stop'', from_utf8_lossy md],
                rl_label = ''md array '' @ from_utf8_lossy md, rl_absent_exit_code = 0\<rparr>)"

definition relock_argv :: "activation \<Rightarrow> relock_command option" where
  "relock_argv act =
     (case act_kind act of
        Luks_Tpm \<Rightarrow> luks_relock act
      | Luks_Keyfile \<Rightarrow> luks_relock act
      | Luks_Password \<Rightarrow> luks_relock act
      | Lvm \<Rightarrow> lvm_relock act
      | Mdraid \<Rightarrow> mdraid_relock act
      | Zfs \<Rightarrow> None)"

subsection \<open>The refusal\<close>

datatype rescue_mode = Embedded | External | No_Rescue

record seal_config =
  sc_tpm_require_tpm :: bool
  sc_secure_boot_require_tpm :: bool
  sc_activations :: "activation list"
  sc_boot :: boot_config
  sc_rescue_mode :: rescue_mode
  sc_rescue_network :: bool
  sc_shell :: string

datatype failure = Seal_Failure seal_failed | Text_Failure string | Stage_Failure string failure

datatype terminal_action =
    Reboot
  | Halt_With_Banner failure
  | Execve string "string list" failure
  | Kexec
  | Reboot_Into_Rescue failure sealed

datatype relock_report =
    Relocked relock_command
  | Relock_Failed relock_command int
  | Relock_Not_Run relock_command string

definition report_relock :: "relock_command \<Rightarrow> int \<Rightarrow> relock_report" where
  "report_relock cmd exit_code =
     (if exit_code = 0 \<or> exit_code = rl_absent_exit_code cmd then Relocked cmd
      else Relock_Failed cmd exit_code)"

fun relock_volumes ::
  "world \<Rightarrow> runner \<Rightarrow> activation list \<Rightarrow> seal_state \<Rightarrow> relock_report list \<times> seal_state" where
  "relock_volumes w r [] s = ([], s)"
| "relock_volumes w r (act # acts) s =
     (case relock_argv act of
        None \<Rightarrow> relock_volumes w r acts s
      | Some cmd \<Rightarrow>
          (let (res, s1) = run_tool w r (rl_binary cmd) (rl_argv cmd) s;
               report = (case res of Inr code \<Rightarrow> report_relock cmd code | Inl e \<Rightarrow> Relock_Not_Run cmd e);
               (reports, s2) = relock_volumes w r acts s1
           in (report # reports, s2)))"

definition refuse_require_tpm :: "seal_config \<Rightarrow> bool" where
  "refuse_require_tpm cfg \<longleftrightarrow> sc_tpm_require_tpm cfg \<or> sc_secure_boot_require_tpm cfg"

definition mark_rescue :: "world \<Rightarrow> seal_config \<Rightarrow> seal_state \<Rightarrow> seal_state" where
  "mark_rescue w cfg s =
     emit Ev_Sentinel
       (s\<lparr>boot_files := write_sentinel (w_sentinel w (trace s)) (sc_boot cfg) (boot_files s)\<rparr>)"

definition relock_and_refuse ::
  "world \<Rightarrow> runner \<Rightarrow> seal_config \<Rightarrow> failure \<Rightarrow> seal_state \<Rightarrow> terminal_action \<times> seal_state" where
  "relock_and_refuse w r cfg cause s =
     (let (sealed, s1) = seal_for_refuse w r (refuse_require_tpm cfg) s;
          s2 = mark_rescue w cfg s1;
          (_, s3) = relock_volumes w r (sc_activations cfg) s2
      in (Reboot_Into_Rescue cause sealed, s3))"

definition refuse_unsigned ::
  "world \<Rightarrow> seal_config \<Rightarrow> failure \<Rightarrow> seal_state \<Rightarrow> terminal_action \<times> seal_state" where
  "refuse_unsigned w = relock_and_refuse w Async_Runner"

definition refuse_unsigned_blocking ::
  "world \<Rightarrow> seal_config \<Rightarrow> failure \<Rightarrow> seal_state \<Rightarrow> terminal_action \<times> seal_state" where
  "refuse_unsigned_blocking w = relock_and_refuse w Blocking_Runner"

subsection \<open>The sites that open an interactive context\<close>

definition refuse_on_seal_failure ::
  "world \<Rightarrow> seal_config \<Rightarrow> seal_failed \<Rightarrow> seal_state \<Rightarrow> terminal_action \<times> seal_state" where
  "refuse_on_seal_failure w cfg e s = refuse_unsigned w cfg (Seal_Failure e) s"

text \<open>The raw and the pretty shell of the emergency menu; \<open>None\<close> returns to the menu.\<close>

definition emergency_shell ::
  "world \<Rightarrow> seal_config \<Rightarrow> seal_state \<Rightarrow> terminal_action option \<times> seal_state" where
  "emergency_shell w cfg s =
     (case seal_secrets w (sc_tpm_require_tpm cfg) s of
        (Inr _, s1) \<Rightarrow> (None, emit Ev_Shell s1)
      | (Inl e, s1) \<Rightarrow> (let (a, s2) = refuse_on_seal_failure w cfg e s1 in (Some a, s2)))"

datatype wrong_password_outcome = Try_Again_Choice | Reboot_Choice | Pretty_Shell | Raw_Shell

datatype wrong_password_handled = Try_Again | Handled_Reboot | Shell_Exited

definition handle_wrong_password ::
  "world \<Rightarrow> seal_config \<Rightarrow> wrong_password_outcome \<Rightarrow> seal_state \<Rightarrow> wrong_password_handled \<times> seal_state"
where
  "handle_wrong_password w cfg choice s =
     (if choice = Try_Again_Choice then (Try_Again, s)
      else if choice = Reboot_Choice then (Handled_Reboot, s)
      else case seal_secrets w (sc_tpm_require_tpm cfg) s of
        (Inr _, s1) \<Rightarrow> (Shell_Exited, emit Ev_Shell s1)
      | (Inl e, s1) \<Rightarrow> (Handled_Reboot, s1))"

text \<open>A remote session is a menu that offers a shell; a failed seal drops the session.\<close>

definition serve_session :: "world \<Rightarrow> seal_config \<Rightarrow> seal_state \<Rightarrow> bool \<times> seal_state" where
  "serve_session w cfg s =
     (case seal_secrets w (sc_tpm_require_tpm cfg) s of
        (Inr _, s1) \<Rightarrow> (True, s1)
      | (Inl e, s1) \<Rightarrow> (False, s1))"

definition open_emergency_menu ::
  "world \<Rightarrow> seal_config \<Rightarrow> seal_state \<Rightarrow> terminal_action option \<times> seal_state" where
  "open_emergency_menu w cfg s =
     (case seal_secrets w (sc_tpm_require_tpm cfg) s of
        (Inr _, s1) \<Rightarrow> (None, s1)
      | (Inl e, s1) \<Rightarrow> (let (a, s2) = refuse_on_seal_failure w cfg e s1 in (Some a, s2)))"

text \<open>What the external rescue meets: the image on the boot volume, its signature, its mount.\<close>

record external_answers =
  ex_image_absent :: bool
  ex_signature :: "string option"
  ex_disk :: "failure + unit"
  ex_network :: "failure + terminal_action option"
  ex_child :: "failure + terminal_action option"

definition exec_embedded :: "seal_config \<Rightarrow> failure \<Rightarrow> failure + terminal_action" where
  "exec_embedded cfg cause =
     (if byte 0 \<in> set (sc_shell cfg) then Inl (Stage_Failure ''shell-path-nul'' (Text_Failure ''shell path contains interior NUL''))
      else Inr (Execve (sc_shell cfg)
             [case file_name (sc_shell cfg) of Some n \<Rightarrow> n | None \<Rightarrow> sc_shell cfg] cause))"

text \<open>The rescue system runs as a child in a changed root, which is a shell for the operator.\<close>

definition run_chrooted_external ::
  "external_answers \<Rightarrow> seal_state \<Rightarrow> terminal_action \<times> seal_state" where
  "run_chrooted_external x s =
     (case ex_child x of
        Inr (Some action) \<Rightarrow> action
      | Inr None \<Rightarrow> Reboot
      | Inl e \<Rightarrow> Halt_With_Banner (Stage_Failure ''rescue-child-failed'' e), emit Ev_Shell s)"

definition dispatch_external ::
  "world \<Rightarrow> seal_config \<Rightarrow> external_answers \<Rightarrow> seal_state \<Rightarrow> terminal_action \<times> seal_state" where
  "dispatch_external w cfg x s =
     (case (if sc_rescue_network cfg \<and> ex_image_absent x then None else ex_signature x) of
        Some sig_cause \<Rightarrow> refuse_unsigned_blocking w cfg (Text_Failure sig_cause) s
      | None \<Rightarrow>
          (case ex_disk x of
             Inr _ \<Rightarrow> run_chrooted_external x s
           | Inl disk_err \<Rightarrow>
               if sc_rescue_network cfg then
                 (case ex_network x of
                    Inr (Some action) \<Rightarrow> (action, s)
                  | Inr None \<Rightarrow> run_chrooted_external x s
                  | Inl net_err \<Rightarrow>
                      (Halt_With_Banner (Stage_Failure ''network-rescue-failed'' net_err), s))
               else (Halt_With_Banner (Stage_Failure ''disk-rescue-failed'' disk_err), s)))"

definition rescue_dispatch ::
  "world \<Rightarrow> seal_config \<Rightarrow> external_answers \<Rightarrow> failure \<Rightarrow> seal_state
    \<Rightarrow> (failure + terminal_action) \<times> seal_state" where
  "rescue_dispatch w cfg x cause s =
     (case seal_secrets_blocking w (sc_tpm_require_tpm cfg) s of
        (Inl e, s1) \<Rightarrow>
          (let (a, s2) = refuse_unsigned_blocking w cfg (Seal_Failure e) s1 in (Inr a, s2))
      | (Inr _, s1) \<Rightarrow>
          (case sc_rescue_mode cfg of
             Embedded \<Rightarrow> (exec_embedded cfg cause, s1)
           | External \<Rightarrow> (let (a, s2) = dispatch_external w cfg x s1 in (Inr a, s2))
           | No_Rescue \<Rightarrow> (Inr (Halt_With_Banner cause), s1)))"

datatype end_of_boot = Rebooted | Halted | Kexeced | Handed_To string

text \<open>
  The action \<open>main\<close> performs last. \<open>fires\<close> is whether the no-return call of an \<open>execve\<close> or a
  \<open>kexec\<close> goes through; a call that returns halts.
\<close>

definition execute_terminal_action ::
  "world \<Rightarrow> bool \<Rightarrow> terminal_action \<Rightarrow> seal_state \<Rightarrow> end_of_boot \<times> seal_state" where
  "execute_terminal_action w fires action s =
     (case action of
        Reboot \<Rightarrow> (if fires then Rebooted else Halted, s)
      | Halt_With_Banner cause \<Rightarrow> (Halted, s)
      | Execve path argv cause \<Rightarrow>
          (case seal_secrets_blocking w False s of
             (Inr _, s1) \<Rightarrow> if fires then (Handed_To path, emit Ev_Shell s1) else (Halted, s1)
           | (Inl e, s1) \<Rightarrow> (Halted, s1))
      | Kexec \<Rightarrow> (if fires then Kexeced else Halted, s)
      | Reboot_Into_Rescue cause sealed \<Rightarrow> (if fires then Rebooted else Halted, s))"

text \<open>The bring-up failures: no console, or no runtime for the menu, means a reboot.\<close>

definition open_console_and_drop_to_emergency ::
  "world \<Rightarrow> seal_config \<Rightarrow> bool \<Rightarrow> seal_state \<Rightarrow> terminal_action option \<times> seal_state" where
  "open_console_and_drop_to_emergency w cfg console_and_runtime s =
     (case seal_secrets_blocking w (sc_tpm_require_tpm cfg) s of
        (Inl e, s1) \<Rightarrow>
          (let (a, s2) = refuse_unsigned_blocking w cfg (Seal_Failure e) s1 in (Some a, s2))
      | (Inr _, s1) \<Rightarrow>
          if console_and_runtime then open_emergency_menu w cfg s1 else (Some Reboot, s1))"

definition run_force_rescue ::
  "world \<Rightarrow> seal_config \<Rightarrow> (failure + unit) \<Rightarrow> external_answers \<Rightarrow> failure \<Rightarrow> seal_state
    \<Rightarrow> (failure + terminal_action) \<times> seal_state" where
  "run_force_rescue w cfg modules x cause s =
     (case seal_secrets_blocking w (sc_tpm_require_tpm cfg) s of
        (Inl e, s1) \<Rightarrow>
          (let (a, s2) = refuse_unsigned_blocking w cfg (Seal_Failure e) s1 in (Inr a, s2))
      | (Inr _, s1) \<Rightarrow>
          (case modules of
             Inl e \<Rightarrow> (Inl e, s1)
           | Inr _ \<Rightarrow> rescue_dispatch w cfg x cause s1))"

subsection \<open>One boot as a machine\<close>

text \<open>Exit code 5 of \<open>cryptsetup open\<close> says that the mapper is open already.\<close>

definition is_activation_success :: "int \<Rightarrow> bool" where
  "is_activation_success exit_code \<longleftrightarrow> exit_code = 0 \<or> exit_code = 5"

definition activate_once :: "world \<Rightarrow> activation \<Rightarrow> seal_state \<Rightarrow> (string + int) \<times> seal_state" where
  "activate_once w act s =
     (let res = w_run w (trace s) Async_Runner (act_binary act) (act_argv act);
          s1 = emit (Ev_Activate (act_kind act) (act_binary act) (act_argv act) res) s
      in (res, case res of
                 Inr code \<Rightarrow>
                   if is_activation_success code then register_tpm_mapper_if_luks_tpm w act s1 else s1
               | Inl _ \<Rightarrow> s1))"

text \<open>A panic starts the program again in the same machine: memory is gone, the mappers are not.\<close>

definition panic_reexec :: "seal_state \<Rightarrow> seal_state" where
  "panic_reexec s = emit Ev_Panic (s\<lparr>reg_mappers := [], cap_latch := False\<rparr>)"

datatype site =
    Do_Activate nat
  | Do_Menu
  | Do_Early_Menu bool
  | Do_Shell
  | Do_Wrong_Password wrong_password_outcome
  | Do_Remote
  | Do_Rescue external_answers failure bool
  | Do_Force_Rescue "failure + unit" external_answers failure bool
  | Do_Refuse runner failure
  | Do_Panic

text \<open>A rescue returns to \<open>main\<close>, which performs the action; an error there ends in the menu.\<close>

definition finish_rescue ::
  "world \<Rightarrow> seal_config \<Rightarrow> bool \<Rightarrow> (failure + terminal_action) \<times> seal_state \<Rightarrow> seal_state" where
  "finish_rescue w cfg fires r =
     (case r of
        (Inr action, s) \<Rightarrow> snd (execute_terminal_action w fires action s)
      | (Inl e, s) \<Rightarrow> snd (open_console_and_drop_to_emergency w cfg fires s))"

definition seal_step :: "world \<Rightarrow> seal_config \<Rightarrow> seal_state \<Rightarrow> site \<Rightarrow> seal_state" where
  "seal_step w cfg s i =
     (case i of
        Do_Activate k \<Rightarrow>
          (case get_at (sc_activations cfg) k of None \<Rightarrow> s | Some act \<Rightarrow> snd (activate_once w act s))
      | Do_Menu \<Rightarrow> snd (open_emergency_menu w cfg s)
      | Do_Early_Menu b \<Rightarrow> snd (open_console_and_drop_to_emergency w cfg b s)
      | Do_Shell \<Rightarrow> snd (emergency_shell w cfg s)
      | Do_Wrong_Password choice \<Rightarrow> snd (handle_wrong_password w cfg choice s)
      | Do_Remote \<Rightarrow> snd (serve_session w cfg s)
      | Do_Rescue x cause fires \<Rightarrow> finish_rescue w cfg fires (rescue_dispatch w cfg x cause s)
      | Do_Force_Rescue modules x cause fires \<Rightarrow>
          finish_rescue w cfg fires (run_force_rescue w cfg modules x cause s)
      | Do_Refuse r cause \<Rightarrow> snd (relock_and_refuse w r cfg cause s)
      | Do_Panic \<Rightarrow> panic_reexec s)"

definition fresh_state :: "(string \<Rightarrow> bool) \<Rightarrow> seal_state" where
  "fresh_state files =
     \<lparr>reg_mappers = [], reg_file = None, cap_latch = False, boot_files = files, trace = []\<rparr>"

text \<open>
  The states one boot can reach: any sites in any order, with panics only if \<open>panics\<close> allows
  them. This is more than the program does, which visits the sites in its own order.
\<close>

inductive reached :: "world \<Rightarrow> seal_config \<Rightarrow> bool \<Rightarrow> seal_state \<Rightarrow> bool"
  for w cfg panics where
  reached_fresh: "reached w cfg panics (fresh_state files)"
| reached_step: "reached w cfg panics s \<Longrightarrow> (i = Do_Panic \<Longrightarrow> panics)
    \<Longrightarrow> reached w cfg panics (seal_step w cfg s i)"

inductive_cases reached_cases: "reached w cfg panics s"

subsection \<open>What a trace says\<close>

fun opened_by :: "seal_event \<Rightarrow> string option" where
  "opened_by (Ev_Activate Luks_Tpm _ argv (Inr code)) =
     (if is_activation_success code then mapper_name_from_open_argv argv else None)"
| "opened_by _ = None"

fun closed_by :: "seal_event \<Rightarrow> string option" where
  "closed_by (Ev_Run _ argv (Inr code)) =
     (if length argv = 2 \<and> hd argv = ''close'' \<and> (code = 0 \<or> code = 4) then Some (last argv) else None)"
| "closed_by _ = None"

text \<open>The mappers that the TPM unsealed and no close confirmed since.\<close>

definition open_step :: "seal_event \<Rightarrow> string list \<Rightarrow> string list" where
  "open_step ev ms =
     (case opened_by ev of
        Some n \<Rightarrow> List.insert n ms
      | None \<Rightarrow> (case closed_by ev of Some n \<Rightarrow> removeAll n ms | None \<Rightarrow> ms))"

definition open_mappers :: "events \<Rightarrow> string list" where
  "open_mappers tr = fold open_step tr []"

text \<open>The lock PCR was capped, or there was no TPM and the configuration does not require one.\<close>

definition locked :: "bool \<Rightarrow> events \<Rightarrow> bool" where
  "locked required tr \<longleftrightarrow>
     Ev_Cap Capped \<in> set tr \<or> (\<not> required \<and> Ev_Cap No_Tpm \<in> set tr)"

definition shells_locked :: "bool \<Rightarrow> events \<Rightarrow> bool" where
  "shells_locked required tr \<longleftrightarrow>
     (\<forall>pre post. tr = pre @ Ev_Shell # post \<longrightarrow> locked required pre \<and> open_mappers pre = [])"

definition names_agree :: "activation \<Rightarrow> bool" where
  "names_agree act \<longleftrightarrow>
     (\<forall>n. mapper_name_from_open_argv (act_argv act) = Some n \<longrightarrow>
        List.map_filter (strip_prefix mapper_prefix) (act_produces act) = []
        \<or> n \<in> set (List.map_filter (strip_prefix mapper_prefix) (act_produces act)))"

subsection \<open>Steps that only run tools\<close>

lemma trace_emit [simp]: "trace (emit ev s) = trace s @ [ev]"
  by (simp add: emit_def)

lemma emit_fields [simp]:
  "reg_mappers (emit ev s) = reg_mappers s" "reg_file (emit ev s) = reg_file s"
  "cap_latch (emit ev s) = cap_latch s" "boot_files (emit ev s) = boot_files s"
  by (simp_all add: emit_def)

lemma open_mappers_Nil [simp]: "open_mappers [] = []"
  by (simp add: open_mappers_def)

lemma open_mappers_snoc [simp]: "open_mappers (tr @ [ev]) = open_step ev (open_mappers tr)"
  by (simp add: open_mappers_def)

lemma closed_by_run:
  "closed_by (Ev_Run b [''close'', n] res) = (if res = Inr 0 \<or> res = Inr 4 then Some n else None)"
  by (cases res) auto

definition quiet :: "seal_event \<Rightarrow> bool" where
  "quiet ev \<longleftrightarrow> ev \<noteq> Ev_Shell \<and> ev \<noteq> Ev_Panic \<and> opened_by ev = None"

lemma quiet_simps [simp]:
  "quiet (Ev_Cap c)" "quiet (Ev_Run b argv res)" "quiet (Ev_Detach t)" "quiet Ev_Sentinel"
  "\<not> quiet Ev_Shell" "\<not> quiet Ev_Panic"
  by (simp_all add: quiet_def)

definition quietly :: "seal_state \<Rightarrow> seal_state \<Rightarrow> bool" where
  "quietly s s' \<longleftrightarrow> (\<exists>evs. trace s' = trace s @ evs \<and> (\<forall>ev\<in>set evs. quiet ev))"

lemma quietly_refl [simp, intro]: "quietly s s"
  by (simp add: quietly_def)

lemma quietly_trans: "quietly s s' \<Longrightarrow> quietly s' s'' \<Longrightarrow> quietly s s''"
  by (fastforce simp: quietly_def)

lemma quietly_same: "trace s' = trace s \<Longrightarrow> quietly s s'"
  by (simp add: quietly_def)

lemma quietly_emit [intro]: "quiet ev \<Longrightarrow> quietly s (emit ev s)"
  by (simp add: quietly_def)

lemma open_step_quiet: "quiet ev \<Longrightarrow> set (open_step ev ms) \<subseteq> set ms"
  by (auto simp: open_step_def quiet_def split: option.splits)

lemma open_mappers_quiet:
  "\<forall>ev\<in>set evs. quiet ev \<Longrightarrow> set (open_mappers (tr @ evs)) \<subseteq> set (open_mappers tr)"
proof (induction evs rule: rev_induct)
  case (snoc ev evs)
  then show ?case using open_step_quiet [of ev] by (simp flip: append_assoc) blast
qed simp

lemma quietly_open: "quietly s s' \<Longrightarrow> set (open_mappers (trace s')) \<subseteq> set (open_mappers (trace s))"
  by (auto simp: quietly_def dest: open_mappers_quiet [THEN subsetD])

lemma locked_append: "locked required tr \<Longrightarrow> locked required (tr @ evs)"
  by (auto simp: locked_def)

lemma quietly_locked: "quietly s s' \<Longrightarrow> locked required (trace s) \<Longrightarrow> locked required (trace s')"
  by (auto simp: quietly_def intro: locked_append)

lemma shells_locked_Nil [simp]: "shells_locked required []"
  by (simp add: shells_locked_def)

lemma shells_locked_snoc:
  "shells_locked required (tr @ [ev]) \<longleftrightarrow>
     shells_locked required tr \<and> (ev = Ev_Shell \<longrightarrow> locked required tr \<and> open_mappers tr = [])"
proof
  assume A: "shells_locked required (tr @ [ev])"
  have "locked required pre \<and> open_mappers pre = []" if "tr = pre @ Ev_Shell # post" for pre post
    using A [unfolded shells_locked_def, rule_format, of pre "post @ [ev]"] that by simp
  moreover have "locked required tr \<and> open_mappers tr = []" if "ev = Ev_Shell"
    using A [unfolded shells_locked_def, rule_format, of tr "[]"] that by simp
  ultimately show "shells_locked required tr \<and>
      (ev = Ev_Shell \<longrightarrow> locked required tr \<and> open_mappers tr = [])"
    by (simp add: shells_locked_def)
next
  assume A: "shells_locked required tr \<and>
      (ev = Ev_Shell \<longrightarrow> locked required tr \<and> open_mappers tr = [])"
  show "shells_locked required (tr @ [ev])"
    unfolding shells_locked_def
  proof (intro allI impI)
    fix pre post
    assume E: "tr @ [ev] = pre @ Ev_Shell # post"
    show "locked required pre \<and> open_mappers pre = []"
    proof (cases post rule: rev_cases)
      case Nil
      with E A show ?thesis by simp
    next
      case (snoc post' e)
      then have "tr = pre @ Ev_Shell # post'" using E by simp
      with A show ?thesis unfolding shells_locked_def by blast
    qed
  qed
qed

lemma shells_locked_quiet:
  "\<forall>ev\<in>set evs. quiet ev \<Longrightarrow> shells_locked required tr \<Longrightarrow> shells_locked required (tr @ evs)"
proof (induction evs rule: rev_induct)
  case (snoc ev evs)
  then show ?case
    using shells_locked_snoc [of required "tr @ evs" ev] by (auto simp: quiet_def)
qed simp

lemma quietly_shells:
  "quietly s s' \<Longrightarrow> shells_locked required (trace s) \<Longrightarrow> shells_locked required (trace s')"
  by (auto simp: quietly_def intro: shells_locked_quiet)

subsection \<open>The registry operations leave the trace alone\<close>

lemma trace_persist_append [simp]: "trace (persist_append w e s) = trace s"
  by (simp add: persist_append_def Let_def split: write_fate.splits)

lemma trace_rewrite [simp]: "trace (rewrite_persist w es s) = trace s"
  by (simp add: rewrite_persist_def Let_def split: write_fate.splits)

lemma trace_persist_remove [simp]: "trace (persist_remove w n s) = trace s"
  by (simp add: persist_remove_def Let_def split: option.splits)

lemma trace_mark_closed [simp]: "trace (mark_closed w n s) = trace s"
  by (simp add: mark_closed_def)

lemma trace_register [simp]: "trace (register_tpm_mapper w e s) = trace s"
  by (simp add: register_tpm_mapper_def Let_def)

lemma trace_register_named [simp]: "trace (register_tpm_mapper_named w act n s) = trace s"
  by (simp add: register_tpm_mapper_named_def)

lemma trace_fold_register [simp]: "trace (fold (register_tpm_mapper_named w act) ns s) = trace s"
  by (induction ns arbitrary: s) simp_all

lemma trace_register_if [simp]: "trace (register_tpm_mapper_if_luks_tpm w act s) = trace s"
  by (simp add: register_tpm_mapper_if_luks_tpm_def Let_def split: option.splits)

lemma mappers_rewrite [simp]: "reg_mappers (rewrite_persist w es s) = reg_mappers s"
  by (simp add: rewrite_persist_def Let_def split: write_fate.splits)

lemma mappers_persist_remove [simp]: "reg_mappers (persist_remove w n s) = reg_mappers s"
  by (simp add: persist_remove_def Let_def split: option.splits)

lemma mappers_persist_append [simp]: "reg_mappers (persist_append w e s) = reg_mappers s"
  by (simp add: persist_append_def Let_def split: write_fate.splits)

lemma mappers_mark_closed [simp]:
  "reg_mappers (mark_closed w n s) = filter (\<lambda>e. me_name e \<noteq> n) (reg_mappers s)"
  by (simp add: mark_closed_def)

lemma latch_registry [simp]:
  "cap_latch (persist_append w e s) = cap_latch s"
  "cap_latch (rewrite_persist w es s) = cap_latch s"
  by (simp_all add: persist_append_def rewrite_persist_def Let_def split: write_fate.splits)

lemma latch_mark_closed [simp]: "cap_latch (mark_closed w n s) = cap_latch s"
  by (simp add: mark_closed_def persist_remove_def Let_def split: option.splits)

lemma latch_register [simp]: "cap_latch (register_tpm_mapper_named w act n s) = cap_latch s"
  by (simp add: register_tpm_mapper_named_def register_tpm_mapper_def Let_def)

lemma latch_register_if [simp]: "cap_latch (register_tpm_mapper_if_luks_tpm w act s) = cap_latch s"
proof -
  have "cap_latch (fold (register_tpm_mapper_named w act) ns s) = cap_latch s" for ns
    by (induction ns arbitrary: s) simp_all
  then show ?thesis
    by (simp add: register_tpm_mapper_if_luks_tpm_def Let_def split: option.splits)
qed

lemma names_merge_entries:
  "me_name ` set (merge_entries ms ds) = me_name ` set ms \<union> me_name ` set ds"
  by (induction ms ds rule: merge_entries.induct) auto

lemma names_mapper_snapshot:
  "me_name ` set (mapper_snapshot w s) = me_name ` set (reg_mappers s) \<union> me_name ` set (persist_load w s)"
  by (simp add: mapper_snapshot_def names_merge_entries)

lemma distinct_merge_entries:
  "distinct (map me_name ms) \<Longrightarrow> distinct (map me_name (merge_entries ms ds))"
  by (induction ms ds rule: merge_entries.induct) auto

subsection \<open>What the seal guarantees\<close>

lemma run_tool_eq:
  "run_tool w r b argv s =
     (w_run w (trace s) r b argv, emit (Ev_Run b argv (w_run w (trace s) r b argv)) s)"
  by (simp add: run_tool_def Let_def)

lemma close_one_cases:
  obtains (Closed) c where "close_one w r e s =
      (Inr (), emit (Ev_Run (me_cryptsetup e) [''close'', me_name e] (Inr c)) s)" "c = 0 \<or> c = 4"
  | (Stuck) err res where "close_one w r e s =
      (Inl err, emit (Ev_Run (me_cryptsetup e) [''close'', me_name e] res) s)"
proof (cases "w_run w (trace s) r (me_cryptsetup e) [''close'', me_name e]")
  case (Inl err)
  then show ?thesis
    using Stuck [of "Close_Not_Run err"] by (simp add: close_one_def run_tool_eq close_argv_def)
next
  case (Inr c)
  show ?thesis
  proof (cases "c = 0 \<or> c = 4")
    case True
    then show ?thesis
      using Closed [of c] Inr by (auto simp: close_one_def run_tool_eq close_argv_def close_outcome_def)
  next
    case False
    then show ?thesis
      using Stuck [of "Close_Exit (me_name e) c"] Inr
      by (simp add: close_one_def run_tool_eq close_argv_def close_outcome_def)
  qed
qed

lemma close_each_Cons:
  "close_one w r e (detach_mapper_mounts w (me_name e) s) = (Inr (), s1) \<Longrightarrow>
     close_each w r (e # es) s = close_each w r es (mark_closed w (me_name e) s1)"
  "close_one w r e (detach_mapper_mounts w (me_name e) s) = (Inl err, s1) \<Longrightarrow>
     close_each w r (e # es) s = (Inl err, s1)"
  by (subst close_each.simps, simp only: prod.case sum.case unit.case)+

lemma best_effort_Cons:
  "close_one w r e s = (Inr (), s1) \<Longrightarrow>
     close_each_best_effort w r (e # es) s = close_each_best_effort w r es (mark_closed w (me_name e) s1)"
  "close_one w r e s = (Inl err, s1) \<Longrightarrow>
     close_each_best_effort w r (e # es) s = close_each_best_effort w r es s1"
  by (subst close_each_best_effort.simps, simp only: prod.case sum.case unit.case)+

declare close_each.simps(2) [simp del] close_each_best_effort.simps(2) [simp del]

lemma quietly_emit_then: "quiet ev \<Longrightarrow> quietly (emit ev s) s' \<Longrightarrow> quietly s s'"
  by (rule quietly_trans [OF quietly_emit])

lemma quietly_mark_closed: "quietly s s' \<Longrightarrow> quietly s (mark_closed w n s')"
  by (simp add: quietly_def)

lemma fold_emit_Detach:
  "quietly s (fold (\<lambda>t. emit (Ev_Detach t)) ts s)
   \<and> reg_mappers (fold (\<lambda>t. emit (Ev_Detach t)) ts s) = reg_mappers s
   \<and> reg_file (fold (\<lambda>t. emit (Ev_Detach t)) ts s) = reg_file s
   \<and> cap_latch (fold (\<lambda>t. emit (Ev_Detach t)) ts s) = cap_latch s"
proof (induction ts arbitrary: s)
  case (Cons t ts)
  have "quietly s (emit (Ev_Detach t) s)" by (rule quietly_emit) simp
  from quietly_trans [OF this] Cons [of "emit (Ev_Detach t) s"] show ?case by simp
qed simp

lemma detach_quietly: "quietly s (detach_mapper_mounts w n s)"
  and detach_fields [simp]: "reg_mappers (detach_mapper_mounts w n s) = reg_mappers s"
    "reg_file (detach_mapper_mounts w n s) = reg_file s"
    "cap_latch (detach_mapper_mounts w n s) = cap_latch s"
  by (simp_all add: detach_mapper_mounts_def fold_emit_Detach split: option.splits)

lemma close_each_quietly:
  "quietly s (snd (close_each w r es s)) \<and> cap_latch (snd (close_each w r es s)) = cap_latch s"
proof (induction es arbitrary: s)
  case (Cons e es)
  let ?d = "detach_mapper_mounts w (me_name e) s"
  show ?case
  proof (cases w r e ?d rule: close_one_cases)
    case (Closed c)
    let ?s = "mark_closed w (me_name e)
      (emit (Ev_Run (me_cryptsetup e) [''close'', me_name e] (Inr c)) ?d)"
    have "quietly s ?s"
      by (rule quietly_mark_closed, rule quietly_trans [OF detach_quietly], rule quietly_emit) simp
    then have "quietly s (snd (close_each w r es ?s))"
      by (rule quietly_trans) (rule Cons [THEN conjunct1])
    moreover have "cap_latch (snd (close_each w r es ?s)) = cap_latch s"
      using Cons [of ?s, THEN conjunct2] by simp
    ultimately show ?thesis
      by (simp only: close_each_Cons(1) [OF Closed(1)])
  next
    case (Stuck err res)
    have "quietly s (emit (Ev_Run (me_cryptsetup e) [''close'', me_name e] res) ?d)"
      by (rule quietly_trans [OF detach_quietly], rule quietly_emit) simp
    then show ?thesis by (simp add: close_each_Cons(2) [OF Stuck])
  qed
qed simp

lemma close_each_closes:
  "close_each w r es s = (Inr (), s') \<Longrightarrow>
     set (open_mappers (trace s')) \<subseteq> set (open_mappers (trace s)) - me_name ` set es"
proof (induction es arbitrary: s)
  case (Cons e es)
  let ?d = "detach_mapper_mounts w (me_name e) s"
  show ?case
  proof (cases w r e ?d rule: close_one_cases)
    case (Closed c)
    let ?s = "mark_closed w (me_name e)
      (emit (Ev_Run (me_cryptsetup e) [''close'', me_name e] (Inr c)) ?d)"
    have "set (open_mappers (trace ?s)) = set (open_mappers (trace ?d)) - {me_name e}"
      using Closed(2) by (auto simp: open_step_def)
    moreover have "set (open_mappers (trace ?d)) \<subseteq> set (open_mappers (trace s))"
      by (rule quietly_open) (rule detach_quietly)
    moreover have "close_each w r es ?s = (Inr (), s')"
      using Cons.prems by (simp only: close_each_Cons(1) [OF Closed(1)])
    ultimately show ?thesis using Cons.IH by fastforce
  next
    case (Stuck err res)
    show ?thesis using Cons.prems by (simp add: close_each_Cons(2) [OF Stuck])
  qed
qed simp

lemma best_effort_quietly:
  "quietly s (close_each_best_effort w r es s)
   \<and> cap_latch (close_each_best_effort w r es s) = cap_latch s"
proof (induction es arbitrary: s)
  case (Cons e es)
  show ?case
  proof (cases w r e s rule: close_one_cases)
    case (Closed c)
    let ?s = "mark_closed w (me_name e)
      (emit (Ev_Run (me_cryptsetup e) [''close'', me_name e] (Inr c)) s)"
    have "quietly s ?s" by (intro quietly_mark_closed quietly_emit) simp
    from quietly_trans [OF this] Cons [of ?s] show ?thesis by (simp add: best_effort_Cons(1) [OF Closed(1)])
  next
    case (Stuck err res)
    let ?s = "emit (Ev_Run (me_cryptsetup e) [''close'', me_name e] res) s"
    have "quietly s ?s" by (rule quietly_emit) simp
    from quietly_trans [OF this] Cons [of ?s] show ?thesis by (simp add: best_effort_Cons(2) [OF Stuck])
  qed
qed simp

lemma relock_volumes_Cons:
  "relock_volumes w r (act # acts) s =
     (case relock_argv act of
        None \<Rightarrow> relock_volumes w r acts s
      | Some cmd \<Rightarrow>
          (let res = w_run w (trace s) r (rl_binary cmd) (rl_argv cmd);
               rest = relock_volumes w r acts (emit (Ev_Run (rl_binary cmd) (rl_argv cmd) res) s)
           in ((case res of Inr code \<Rightarrow> report_relock cmd code | Inl e \<Rightarrow> Relock_Not_Run cmd e) # fst rest,
               snd rest)))"
  by (simp add: run_tool_eq Let_def case_prod_unfold split: option.splits)

declare relock_volumes.simps(2) [simp del]

lemma relock_quietly:
  "quietly s (snd (relock_volumes w r acts s))
   \<and> cap_latch (snd (relock_volumes w r acts s)) = cap_latch s
   \<and> reg_mappers (snd (relock_volumes w r acts s)) = reg_mappers s
   \<and> reg_file (snd (relock_volumes w r acts s)) = reg_file s
   \<and> boot_files (snd (relock_volumes w r acts s)) = boot_files s"
proof (induction acts arbitrary: s)
  case (Cons act acts)
  show ?case
  proof (cases "relock_argv act")
    case None
    with Cons show ?thesis by (simp add: relock_volumes_Cons)
  next
    case (Some cmd)
    let ?s = "emit (Ev_Run (rl_binary cmd) (rl_argv cmd)
      (w_run w (trace s) r (rl_binary cmd) (rl_argv cmd))) s"
    have "quietly s ?s" by (rule quietly_emit) simp
    from quietly_trans [OF this] Cons [of ?s] Some show ?thesis
      by (simp add: relock_volumes_Cons Let_def)
  qed
qed simp

text \<open>The latch is only ever set over a trace that the cap has locked.\<close>

definition latch_sound :: "bool \<Rightarrow> seal_state \<Rightarrow> bool" where
  "latch_sound required s \<longleftrightarrow> (cap_latch s \<longrightarrow> locked required (trace s))"

lemma latched_cap_quietly: "quietly s (snd (latched_cap w required s))"
  by (auto simp: latched_cap_def cap_step_def Let_def quietly_def split: cap_outcome.splits)

lemma latched_cap_registry [simp]:
  "reg_mappers (snd (latched_cap w required s)) = reg_mappers s"
  "reg_file (snd (latched_cap w required s)) = reg_file s"
  "boot_files (snd (latched_cap w required s)) = boot_files s"
  by (simp_all add: latched_cap_def cap_step_def Let_def split: cap_outcome.splits)

lemma latched_cap_sound:
  assumes "latch_sound required s" "required \<longrightarrow> required'"
  shows "latch_sound required (snd (latched_cap w required' s))"
  using assms
  by (auto simp: latch_sound_def latched_cap_def cap_step_def Let_def locked_def
      split: cap_outcome.splits)

lemma latched_cap_locked:
  assumes "latched_cap w required s = (Inr (), s')" "latch_sound required s"
  shows "locked required (trace s') \<and> cap_latch s'"
  using assms
  by (auto simp: latch_sound_def latched_cap_def cap_step_def Let_def locked_def
      split: cap_outcome.splits if_splits)

lemma close_all_quietly: "quietly s (snd (close_all w r s))"
  and close_all_latch [simp]: "cap_latch (snd (close_all w r s)) = cap_latch s"
  by (simp_all add: close_all_def close_each_quietly)

lemma best_effort_all_quietly: "quietly s (close_all_best_effort w r s)"
  and best_effort_all_latch [simp]: "cap_latch (close_all_best_effort w r s) = cap_latch s"
  by (simp_all add: close_all_best_effort_def best_effort_quietly)

text \<open>The seal as its two steps, with the state after each.\<close>

lemma seal_with_snd:
  "snd (seal_with w r required s) =
     (let s1 = snd (latched_cap w required s)
      in if fst (latched_cap w required s) = Inr () then snd (close_all w r s1) else s1)"
  by (simp add: seal_with_def Let_def split: prod.splits sum.splits)

lemma seal_with_Ok:
  assumes "seal_with w r required s = (Inr Sealed, s')"
  shows "fst (latched_cap w required s) = Inr ()"
    "close_all w r (snd (latched_cap w required s)) = (Inr (), s')"
  using assms by (auto simp: seal_with_def split: prod.splits sum.splits)

lemma seal_with_quietly: "quietly s (snd (seal_with w r required s))"
  using latched_cap_quietly quietly_trans [OF latched_cap_quietly close_all_quietly]
  by (simp add: seal_with_snd Let_def)

lemma quietly_latch_sound:
  "quietly s s' \<Longrightarrow> cap_latch s' = cap_latch s \<Longrightarrow> latch_sound required s \<Longrightarrow> latch_sound required s'"
  by (simp add: latch_sound_def quietly_locked)

lemma seal_with_latch_sound:
  assumes "latch_sound required s" "required \<longrightarrow> required'"
  shows "latch_sound required (snd (seal_with w r required' s))"
  using latched_cap_sound [OF assms, of w]
    quietly_latch_sound [OF close_all_quietly close_all_latch, of required "snd (latched_cap w required' s)"]
  by (simp add: seal_with_snd Let_def)

lemma seal_for_refuse_quietly:
  "quietly s (snd (seal_for_refuse w r required s))"
  using quietly_trans [OF latched_cap_quietly best_effort_all_quietly]
  by (simp add: seal_for_refuse_def)

lemma seal_for_refuse_latch_sound:
  assumes "latch_sound required s" "required \<longrightarrow> required'"
  shows "latch_sound required (snd (seal_for_refuse w r required' s))"
  using latched_cap_sound [OF assms, of w]
    quietly_latch_sound [OF best_effort_all_quietly best_effort_all_latch]
  by (simp add: seal_for_refuse_def)

lemma relock_and_refuse_eq:
  "relock_and_refuse w r cfg cause s =
     (Reboot_Into_Rescue cause Sealed,
      snd (relock_volumes w r (sc_activations cfg)
        (mark_rescue w cfg (snd (seal_for_refuse w r (refuse_require_tpm cfg) s)))))"
  by (simp add: relock_and_refuse_def seal_for_refuse_def Let_def case_prod_unfold)

lemma mark_rescue_quietly: "quietly s (mark_rescue w cfg s)"
  and mark_rescue_fields [simp]: "cap_latch (mark_rescue w cfg s) = cap_latch s"
    "reg_mappers (mark_rescue w cfg s) = reg_mappers s" "reg_file (mark_rescue w cfg s) = reg_file s"
  by (simp_all add: mark_rescue_def quietly_def)

lemma refuse_quietly: "quietly s (snd (relock_and_refuse w r cfg cause s))"
  unfolding relock_and_refuse_eq snd_conv
  by (rule quietly_trans [OF quietly_trans [OF seal_for_refuse_quietly mark_rescue_quietly]])
    (rule relock_quietly [THEN conjunct1])

lemma refuse_latch_sound:
  assumes "latch_sound (sc_tpm_require_tpm cfg) s"
  shows "latch_sound (sc_tpm_require_tpm cfg) (snd (relock_and_refuse w r cfg cause s))"
proof -
  let ?s1 = "snd (seal_for_refuse w r (refuse_require_tpm cfg) s)"
  have 1: "latch_sound (sc_tpm_require_tpm cfg) ?s1"
    by (rule seal_for_refuse_latch_sound [OF assms]) (simp add: refuse_require_tpm_def)
  then have "latch_sound (sc_tpm_require_tpm cfg) (mark_rescue w cfg ?s1)"
    by (rule quietly_latch_sound [OF mark_rescue_quietly, rotated]) simp
  then show ?thesis
    unfolding relock_and_refuse_eq snd_conv
    by (rule quietly_latch_sound [OF relock_quietly [THEN conjunct1], rotated])
      (rule relock_quietly [THEN conjunct2, THEN conjunct1])
qed

subsection \<open>What every book-keeping of the open mappers gives\<close>

text \<open>
  \<open>cover\<close> is an invariant of the registry by which every mapper that is open stands in the
  snapshot the seal takes; \<open>applies\<close> is what it needs of the configuration and of the disk.
\<close>

locale mapper_cover =
  fixes w :: world and cfg :: seal_config and applies :: bool and cover :: "seal_state \<Rightarrow> bool"
  assumes cover_open:
      "applies \<Longrightarrow> cover s \<Longrightarrow> set (open_mappers (trace s)) \<subseteq> me_name ` set (mapper_snapshot w s)"
    and cover_emit: "applies \<Longrightarrow> cover s \<Longrightarrow> quiet ev \<or> ev = Ev_Shell \<Longrightarrow> cover (emit ev s)"
    and cover_same: "cover s \<Longrightarrow> reg_mappers s' = reg_mappers s \<Longrightarrow> reg_file s' = reg_file s
      \<Longrightarrow> trace s' = trace s \<Longrightarrow> cover s'"
    and cover_mark: "applies \<Longrightarrow> cover s \<Longrightarrow> n \<notin> set (open_mappers (trace s)) \<Longrightarrow> cover (mark_closed w n s)"
    and cover_activate:
      "applies \<Longrightarrow> cover s \<Longrightarrow> act \<in> set (sc_activations cfg) \<Longrightarrow> cover (snd (activate_once w act s))"
    and cover_fresh: "cover (fresh_state files)"
begin

lemma cover_detach: "applies \<Longrightarrow> cover s \<Longrightarrow> cover (detach_mapper_mounts w n s)"
proof -
  have "applies \<Longrightarrow> cover s \<Longrightarrow> cover (fold (\<lambda>t. emit (Ev_Detach t)) ts s)" for ts
    by (induction ts arbitrary: s) (simp_all add: cover_emit)
  then show "applies \<Longrightarrow> cover s \<Longrightarrow> cover (detach_mapper_mounts w n s)"
    by (simp add: detach_mapper_mounts_def split: option.splits)
qed

lemma cover_closed:
  assumes "applies" "cover s" "c = 0 \<or> c = 4"
  shows "cover (mark_closed w n (emit (Ev_Run b [''close'', n] (Inr c)) s))"
  by (rule cover_mark [OF assms(1) cover_emit]) (use assms in \<open>auto simp: open_step_def\<close>)

lemma cover_close_each: "applies \<Longrightarrow> cover s \<Longrightarrow> cover (snd (close_each w r es s))"
proof (induction es arbitrary: s)
  case (Cons e es)
  let ?d = "detach_mapper_mounts w (me_name e) s"
  note d = cover_detach [OF Cons.prems]
  show ?case
  proof (cases w r e ?d rule: close_one_cases)
    case (Closed c)
    from Cons.IH [OF Cons.prems(1) cover_closed [OF Cons.prems(1) d Closed(2)]] show ?thesis
      by (simp only: close_each_Cons(1) [OF Closed(1)])
  next
    case (Stuck err res)
    from cover_emit [OF Cons.prems(1) d] show ?thesis
      by (simp add: close_each_Cons(2) [OF Stuck])
  qed
qed simp

lemma cover_best_effort: "applies \<Longrightarrow> cover s \<Longrightarrow> cover (close_each_best_effort w r es s)"
proof (induction es arbitrary: s)
  case (Cons e es)
  show ?case
  proof (cases w r e s rule: close_one_cases)
    case (Closed c)
    from Cons.IH [OF Cons.prems(1) cover_closed [OF Cons.prems Closed(2)]] show ?thesis
      by (simp only: best_effort_Cons(1) [OF Closed(1)])
  next
    case (Stuck err res)
    from Cons.IH [OF Cons.prems(1) cover_emit [OF Cons.prems]] show ?thesis
      by (simp add: best_effort_Cons(2) [OF Stuck])
  qed
qed simp

lemma cover_relock: "applies \<Longrightarrow> cover s \<Longrightarrow> cover (snd (relock_volumes w r acts s))"
  by (induction acts arbitrary: s)
    (simp_all add: relock_volumes_Cons Let_def cover_emit split: option.splits)

lemma cover_cap: "applies \<Longrightarrow> cover s \<Longrightarrow> cover (snd (latched_cap w required s))"
proof -
  assume A: "applies" "cover s"
  have 1: "cover (emit (Ev_Cap c) s)" for c using A by (simp add: cover_emit)
  have "cover (emit (Ev_Cap c) s\<lparr>cap_latch := True\<rparr>)" for c
    by (rule cover_same [OF 1 [of c]]) simp_all
  with 1 A show ?thesis
    by (simp add: latched_cap_def cap_step_def Let_def split: cap_outcome.splits)
qed

lemma cover_seal: "applies \<Longrightarrow> cover s \<Longrightarrow> cover (snd (seal_with w r required s))"
  by (simp add: seal_with_snd Let_def cover_cap close_all_def cover_close_each)

lemma cover_refuse: "applies \<Longrightarrow> cover s \<Longrightarrow> cover (snd (relock_and_refuse w r cfg' cause s))"
proof -
  assume A: "applies" "cover s"
  then have "cover (snd (seal_for_refuse w r (refuse_require_tpm cfg') s))"
    by (simp add: seal_for_refuse_def close_all_best_effort_def cover_best_effort cover_cap)
  then have "cover (s'\<lparr>boot_files := f\<rparr>)"
    if "s' = snd (seal_for_refuse w r (refuse_require_tpm cfg') s)" for f s'
    by (rule cover_same) (simp_all add: that)
  then show ?thesis
    using A by (simp add: relock_and_refuse_eq mark_rescue_def cover_emit cover_relock)
qed

text \<open>The invariant of one boot.\<close>

definition sealed_boot :: "seal_state \<Rightarrow> bool" where
  "sealed_boot s \<longleftrightarrow>
     cover s \<and> latch_sound (sc_tpm_require_tpm cfg) s
     \<and> shells_locked (sc_tpm_require_tpm cfg) (trace s)"

lemma seal_keeps:
  assumes "applies" "sealed_boot s" "sc_tpm_require_tpm cfg \<longrightarrow> required"
  shows "sealed_boot (snd (seal_with w r required s))"
  using assms
  by (simp add: sealed_boot_def cover_seal seal_with_latch_sound quietly_shells [OF seal_with_quietly])

lemma refuse_keeps:
  assumes "applies" "sealed_boot s"
  shows "sealed_boot (snd (relock_and_refuse w r cfg cause s))"
  using assms
  by (simp add: sealed_boot_def cover_refuse refuse_latch_sound quietly_shells [OF refuse_quietly])

text \<open>After a strict seal that returns \<open>Ok\<close>, nothing is open and a shell may start.\<close>

lemma seal_Ok_shuts:
  assumes "applies" "cover s" "seal_with w r required s = (Inr Sealed, s')"
  shows "open_mappers (trace s') = []"
proof -
  let ?s1 = "snd (latched_cap w required s)"
  have "close_each w r (mapper_snapshot w ?s1) ?s1 = (Inr (), s')"
    using seal_with_Ok(2) [OF assms(3)] by (simp add: close_all_def)
  from close_each_closes [OF this] cover_open [OF assms(1) cover_cap [OF assms(1,2), of required]]
  have "set (open_mappers (trace s')) \<subseteq> {}" by (fastforce dest: subsetD)
  then show ?thesis by simp
qed

lemma seal_Ok_latched:
  assumes "seal_with w r required s = (Inr Sealed, s')"
  shows "cap_latch s'"
proof -
  have "cap_latch (snd (latched_cap w required s))"
    using seal_with_Ok(1) [OF assms]
    by (auto simp: latched_cap_def cap_step_def Let_def split: cap_outcome.splits if_splits)
  then show ?thesis
    using seal_with_Ok(2) [OF assms] close_all_latch [of w r "snd (latched_cap w required s)"] by simp
qed

lemma shell_keeps:
  assumes "applies" "sealed_boot s" "cap_latch s" "open_mappers (trace s) = []"
  shows "sealed_boot (emit Ev_Shell s)"
  using assms
  by (simp add: sealed_boot_def cover_emit latch_sound_def shells_locked_snoc locked_append)

lemma seal_Ok_shell:
  assumes "applies" "sealed_boot s" "seal_with w r required s = (Inr Sealed, s')"
    and "sc_tpm_require_tpm cfg \<longrightarrow> required"
  shows "sealed_boot s'" "cap_latch s'" "open_mappers (trace s') = []" "sealed_boot (emit Ev_Shell s')"
proof -
  show 1: "sealed_boot s'" using seal_keeps [OF assms(1,2,4), of r] assms(3) by simp
  show 2: "cap_latch s'" by (rule seal_Ok_latched [OF assms(3)])
  show 3: "open_mappers (trace s') = []"
    using seal_Ok_shuts [OF assms(1) _ assms(3)] assms(2) by (simp add: sealed_boot_def)
  show "sealed_boot (emit Ev_Shell s')" by (rule shell_keeps [OF assms(1) 1 2 3])
qed

lemma seal_Err_keeps:
  assumes "applies" "sealed_boot s" "seal_with w r required s = (res, s')"
    and "sc_tpm_require_tpm cfg \<longrightarrow> required"
  shows "sealed_boot s'"
  using seal_keeps [OF assms(1,2,4), of r] assms(3) by simp

end

text \<open>Each site keeps the invariant.\<close>

context mapper_cover begin

lemma menu_keeps: "applies \<Longrightarrow> sealed_boot s \<Longrightarrow> sealed_boot (snd (open_emergency_menu w cfg s))"
  by (cases "seal_secrets w (sc_tpm_require_tpm cfg) s"; cases "fst (seal_secrets w (sc_tpm_require_tpm cfg) s)")
    (auto simp: open_emergency_menu_def seal_secrets_def refuse_on_seal_failure_def refuse_unsigned_def
      Let_def case_prod_unfold seal_Err_keeps refuse_keeps)

lemma shell_site_keeps: "applies \<Longrightarrow> sealed_boot s \<Longrightarrow> sealed_boot (snd (emergency_shell w cfg s))"
proof -
  assume A: "applies" "sealed_boot s"
  obtain res s1 where E: "seal_with w Async_Runner (sc_tpm_require_tpm cfg) s = (res, s1)" by fastforce
  show ?thesis
  proof (cases res)
    case (Inl e)
    with E seal_Err_keeps [OF A E] show ?thesis
      by (simp add: emergency_shell_def seal_secrets_def refuse_on_seal_failure_def refuse_unsigned_def
          Let_def case_prod_unfold refuse_keeps A(1))
  next
    case (Inr u)
    have "seal_with w Async_Runner (sc_tpm_require_tpm cfg) s = (Inr Sealed, s1)"
      using E Inr by (cases u) simp
    from seal_Ok_shell(4) [OF A this] E Inr show ?thesis
      by (simp add: emergency_shell_def seal_secrets_def)
  qed
qed

lemma wrong_password_keeps:
  "applies \<Longrightarrow> sealed_boot s \<Longrightarrow> sealed_boot (snd (handle_wrong_password w cfg choice s))"
proof -
  assume A: "applies" "sealed_boot s"
  obtain res s1 where E: "seal_with w Async_Runner (sc_tpm_require_tpm cfg) s = (res, s1)" by fastforce
  show ?thesis
  proof (cases res)
    case (Inl e)
    with E A seal_Err_keeps [OF A E] show ?thesis
      by (simp add: handle_wrong_password_def seal_secrets_def)
  next
    case (Inr u)
    have "seal_with w Async_Runner (sc_tpm_require_tpm cfg) s = (Inr Sealed, s1)"
      using E Inr by (cases u) simp
    from seal_Ok_shell(4) [OF A this] E Inr A show ?thesis
      by (simp add: handle_wrong_password_def seal_secrets_def)
  qed
qed

lemma remote_keeps: "applies \<Longrightarrow> sealed_boot s \<Longrightarrow> sealed_boot (snd (serve_session w cfg s))"
  by (cases "seal_with w Async_Runner (sc_tpm_require_tpm cfg) s")
    (auto simp: serve_session_def seal_secrets_def seal_Err_keeps split: sum.splits)

lemma early_menu_keeps:
  "applies \<Longrightarrow> sealed_boot s \<Longrightarrow> sealed_boot (snd (open_console_and_drop_to_emergency w cfg b s))"
proof -
  assume A: "applies" "sealed_boot s"
  obtain res s1 where E: "seal_with w Blocking_Runner (sc_tpm_require_tpm cfg) s = (res, s1)" by fastforce
  from seal_Err_keeps [OF A E] E A show ?thesis
    by (cases res)
      (simp_all add: open_console_and_drop_to_emergency_def seal_secrets_blocking_def
        refuse_unsigned_blocking_def Let_def case_prod_unfold refuse_keeps menu_keeps)
qed

text \<open>A state a strict seal has left: a shell may start in it.\<close>

definition shut_boot :: "seal_state \<Rightarrow> bool" where
  "shut_boot s \<longleftrightarrow> sealed_boot s \<and> cap_latch s \<and> open_mappers (trace s) = []"

lemma refuse_keeps_latch:
  "cap_latch s \<Longrightarrow> cap_latch (snd (relock_and_refuse w r cfg cause s))"
  by (simp add: relock_and_refuse_eq seal_for_refuse_def latched_cap_def relock_quietly)

lemma chroot_keeps:
  assumes "applies" "shut_boot s"
  shows "sealed_boot (snd (run_chrooted_external x s))" "cap_latch (snd (run_chrooted_external x s))"
  using assms by (auto simp: run_chrooted_external_def shut_boot_def intro: shell_keeps)

lemma external_keeps:
  assumes "applies" "shut_boot s"
  shows "sealed_boot (snd (dispatch_external w cfg x s)) \<and> cap_latch (snd (dispatch_external w cfg x s))"
  using assms chroot_keeps [OF assms, of x]
  by (simp add: dispatch_external_def refuse_unsigned_blocking_def refuse_keeps refuse_keeps_latch
      shut_boot_def split: option.splits sum.splits)

lemma rescue_keeps:
  assumes "applies" "sealed_boot s" "rescue_dispatch w cfg x cause s = (res, s')"
  shows "sealed_boot s' \<and> (\<forall>path argv c. res = Inr (Execve path argv c) \<longrightarrow> cap_latch s')"
proof -
  obtain out s1 where E: "seal_with w Blocking_Runner (sc_tpm_require_tpm cfg) s = (out, s1)" by fastforce
  show ?thesis
  proof (cases out)
    case (Inl e)
    with assms(3) E have "s' = snd (relock_and_refuse w Blocking_Runner cfg (Seal_Failure e) s1)"
      "res = Inr (Reboot_Into_Rescue (Seal_Failure e) Sealed)"
      by (simp_all add: rescue_dispatch_def seal_secrets_blocking_def refuse_unsigned_blocking_def
          relock_and_refuse_eq)
    with refuse_keeps [OF assms(1) seal_Err_keeps [OF assms(1,2) E]] show ?thesis by simp
  next
    case (Inr u)
    have ok: "seal_with w Blocking_Runner (sc_tpm_require_tpm cfg) s = (Inr Sealed, s1)"
      using E Inr by (cases u) simp
    have shut: "shut_boot s1"
      using seal_Ok_shell(1,2,3) [OF assms(1,2) ok] by (simp add: shut_boot_def)
    from assms(3) ok shut external_keeps [OF assms(1) shut, of x] show ?thesis
      by (auto simp: rescue_dispatch_def seal_secrets_blocking_def shut_boot_def Let_def case_prod_unfold
          split: rescue_mode.splits)
  qed
qed

lemma execute_keeps:
  assumes "applies" "sealed_boot s" "\<And>path argv c. action = Execve path argv c \<Longrightarrow> cap_latch s"
  shows "sealed_boot (snd (execute_terminal_action w fires action s))"
proof (cases action)
  case (Execve path argv c)
  then have L: "cap_latch s" by (rule assms(3))
  obtain out s1 where E: "seal_with w Blocking_Runner False s = (out, s1)" by fastforce
  have s1: "s1 = snd (close_all w Blocking_Runner s)"
    using E L by (auto simp: seal_with_def latched_cap_def split: prod.splits sum.splits)
  have inv: "sealed_boot s1"
    using assms(1,2) cover_close_each [of s] quietly_latch_sound [OF close_all_quietly close_all_latch]
      quietly_shells [OF close_all_quietly]
    by (simp add: s1 sealed_boot_def close_all_def)
  show ?thesis
  proof (cases out)
    case (Inl e)
    with Execve E inv show ?thesis by (simp add: execute_terminal_action_def seal_secrets_blocking_def)
  next
    case (Inr u)
    have ok: "seal_with w Blocking_Runner False s = (Inr Sealed, s1)" using E Inr by (cases u) simp
    have "open_mappers (trace s1) = []"
      using seal_Ok_shuts [OF assms(1) _ ok] assms(2) by (simp add: sealed_boot_def)
    from shell_keeps [OF assms(1) inv seal_Ok_latched [OF ok] this] ok inv Execve show ?thesis
      by (simp add: execute_terminal_action_def seal_secrets_blocking_def)
  qed
qed (use assms in \<open>simp_all add: execute_terminal_action_def\<close>)

lemma finish_keeps:
  assumes "applies" "sealed_boot (snd r)"
    "\<And>path argv c. fst r = Inr (Execve path argv c) \<Longrightarrow> cap_latch (snd r)"
  shows "sealed_boot (finish_rescue w cfg fires r)"
  using assms execute_keeps [of "snd r"] early_menu_keeps [of "snd r"]
  by (cases "fst r"; cases r) (simp_all add: finish_rescue_def)

lemma force_keeps:
  assumes "applies" "sealed_boot s"
  shows "sealed_boot (finish_rescue w cfg fires (run_force_rescue w cfg modules x cause s))"
proof -
  obtain out s1 where E: "seal_with w Blocking_Runner (sc_tpm_require_tpm cfg) s = (out, s1)" by fastforce
  note inv = seal_Err_keeps [OF assms E, simplified]
  show ?thesis
  proof (cases out)
    case (Inl e)
    with E inv show ?thesis
      by (intro finish_keeps assms(1))
        (simp_all add: run_force_rescue_def seal_secrets_blocking_def refuse_unsigned_blocking_def
          relock_and_refuse_eq refuse_keeps [unfolded relock_and_refuse_eq, simplified] assms(1))
  next
    case (Inr u)
    obtain res s2 where R: "rescue_dispatch w cfg x cause s1 = (res, s2)" by fastforce
    from rescue_keeps [OF assms(1) inv R] E Inr R inv show ?thesis
      by (intro finish_keeps assms(1))
        (auto simp: run_force_rescue_def seal_secrets_blocking_def split: sum.splits)
  qed
qed

lemma activate_once_keeps:
  assumes "applies" "sealed_boot s" "act \<in> set (sc_activations cfg)"
  shows "sealed_boot (snd (activate_once w act s))"
proof -
  have "trace (snd (activate_once w act s)) =
      trace s @ [Ev_Activate (act_kind act) (act_binary act) (act_argv act)
        (w_run w (trace s) Async_Runner (act_binary act) (act_argv act))]"
    "cap_latch (snd (activate_once w act s)) = cap_latch s"
    by (simp_all add: activate_once_def Let_def split: sum.splits)
  with assms show ?thesis
    by (simp add: sealed_boot_def cover_activate latch_sound_def shells_locked_snoc locked_append)
qed

lemma step_keeps:
  assumes "applies" "sealed_boot s" "i \<noteq> Do_Panic"
  shows "sealed_boot (seal_step w cfg s i)"
proof (cases i)
  case (Do_Activate k)
  with assms show ?thesis
    by (auto simp: seal_step_def get_at_Some_iff intro!: activate_once_keeps split: option.splits)
next
  case (Do_Rescue x cause fires)
  obtain res s' where R: "rescue_dispatch w cfg x cause s = (res, s')" by fastforce
  from rescue_keeps [OF assms(1,2) R] R show ?thesis
    unfolding Do_Rescue seal_step_def by (auto intro!: finish_keeps assms(1))
qed (use assms in \<open>simp_all add: seal_step_def menu_keeps early_menu_keeps shell_site_keeps
      wrong_password_keeps remote_keeps force_keeps refuse_keeps\<close>)

lemma fresh_keeps: "sealed_boot (fresh_state files)"
  using cover_fresh by (simp add: sealed_boot_def latch_sound_def fresh_state_def)

lemma reached_keeps: "reached w cfg False s \<Longrightarrow> applies \<Longrightarrow> sealed_boot s"
proof (induction rule: reached.induct)
  case (reached_fresh files)
  show ?case by (rule fresh_keeps)
next
  case (reached_step s i)
  then show ?case by (blast intro: step_keeps)
qed

lemma reached_shells_locked:
  "reached w cfg False s \<Longrightarrow> applies \<Longrightarrow> shells_locked (sc_tpm_require_tpm cfg) (trace s)"
  using reached_keeps by (simp add: sealed_boot_def)

end

text \<open>A book-keeping that outlives the memory of the process.\<close>

locale panic_cover = mapper_cover +
  assumes cover_panic: "applies \<Longrightarrow> cover s \<Longrightarrow> cover (panic_reexec s)"
begin

lemma panic_keeps: "applies \<Longrightarrow> sealed_boot s \<Longrightarrow> sealed_boot (panic_reexec s)"
  using cover_panic [of s]
  by (simp add: sealed_boot_def latch_sound_def panic_reexec_def shells_locked_snoc)

lemma reached_panics_keeps: "reached w cfg panics s \<Longrightarrow> applies \<Longrightarrow> sealed_boot s"
proof (induction rule: reached.induct)
  case (reached_fresh files)
  then show ?case by (simp add: fresh_keeps)
next
  case (reached_step s i)
  then show ?case
    using step_keeps panic_keeps by (cases "i = Do_Panic") (auto simp: seal_step_def)
qed

lemma reached_panics_shells_locked:
  "reached w cfg panics s \<Longrightarrow> applies \<Longrightarrow> shells_locked (sc_tpm_require_tpm cfg) (trace s)"
  using reached_panics_keeps by (simp add: sealed_boot_def)

end

subsection \<open>The registry in memory\<close>

definition agreeing :: "seal_config \<Rightarrow> bool" where
  "agreeing cfg \<longleftrightarrow> (\<forall>act\<in>set (sc_activations cfg). names_agree act)"

definition covered_in_memory :: "seal_state \<Rightarrow> bool" where
  "covered_in_memory s \<longleftrightarrow> set (open_mappers (trace s)) \<subseteq> me_name ` set (reg_mappers s)"

definition produced_names :: "activation \<Rightarrow> string list" where
  "produced_names act = List.map_filter (strip_prefix mapper_prefix) (act_produces act)"

text \<open>The names an activation registers.\<close>

definition registered_names :: "activation \<Rightarrow> string list" where
  "registered_names act =
     (if act_kind act \<noteq> Luks_Tpm then []
      else if produced_names act \<noteq> [] then produced_names act
      else case mapper_name_from_open_argv (act_argv act) of None \<Rightarrow> [] | Some n \<Rightarrow> [n])"

lemma register_if_fold:
  "register_tpm_mapper_if_luks_tpm w act s =
     fold (register_tpm_mapper_named w act) (registered_names act) s"
  by (simp add: register_tpm_mapper_if_luks_tpm_def registered_names_def produced_names_def Let_def
      split: option.splits)

lemma names_register_named:
  "me_name ` set (reg_mappers (register_tpm_mapper_named w act n s)) =
     insert n (me_name ` set (reg_mappers s))"
  by (auto simp: register_tpm_mapper_named_def register_tpm_mapper_def Let_def)

lemma names_register_fold:
  "me_name ` set (reg_mappers (fold (register_tpm_mapper_named w act) ns s)) =
     set ns \<union> me_name ` set (reg_mappers s)"
  by (induction ns arbitrary: s) (auto simp: names_register_named)

lemma opened_by_Activate:
  "opened_by (Ev_Activate k b argv res) = Some n \<Longrightarrow>
     k = Luks_Tpm \<and> mapper_name_from_open_argv argv = Some n
     \<and> (\<exists>code. res = Inr code \<and> is_activation_success code)"
  by (cases "Ev_Activate k b argv res" rule: opened_by.cases) (auto split: if_splits)

text \<open>What an activation opens is among what it registers.\<close>

lemma opened_registered:
  "names_agree act \<Longrightarrow> act_kind act = Luks_Tpm \<Longrightarrow> mapper_name_from_open_argv (act_argv act) = Some n
     \<Longrightarrow> n \<in> set (registered_names act)"
  by (auto simp: names_agree_def registered_names_def produced_names_def)

lemma activate_cases:
  obtains (Opened) n c where "act_kind act = Luks_Tpm" "mapper_name_from_open_argv (act_argv act) = Some n"
      "open_mappers (trace (snd (activate_once w act s))) = List.insert n (open_mappers (trace s))"
      "snd (activate_once w act s) = fold (register_tpm_mapper_named w act) (registered_names act)
        (emit (Ev_Activate (act_kind act) (act_binary act) (act_argv act) (Inr c)) s)"
  | (Plain) "open_mappers (trace (snd (activate_once w act s))) = open_mappers (trace s)"
      "\<exists>res. snd (activate_once w act s) =
          emit (Ev_Activate (act_kind act) (act_binary act) (act_argv act) res) s
        \<or> snd (activate_once w act s) = fold (register_tpm_mapper_named w act) (registered_names act)
          (emit (Ev_Activate (act_kind act) (act_binary act) (act_argv act) res) s)"
proof -
  let ?res = "w_run w (trace s) Async_Runner (act_binary act) (act_argv act)"
  let ?ev = "Ev_Activate (act_kind act) (act_binary act) (act_argv act) ?res"
  have tr: "trace (snd (activate_once w act s)) = trace s @ [?ev]"
    by (simp add: activate_once_def Let_def split: sum.splits)
  have st: "snd (activate_once w act s) = (case ?res of
      Inr code \<Rightarrow> if is_activation_success code
        then fold (register_tpm_mapper_named w act) (registered_names act) (emit ?ev s) else emit ?ev s
    | Inl _ \<Rightarrow> emit ?ev s)"
    by (simp add: activate_once_def Let_def register_if_fold split: sum.splits)
  have nc: "closed_by ?ev = None" by simp
  show ?thesis
  proof (cases "opened_by ?ev")
    case None
    show ?thesis
    proof (rule Plain)
      show "open_mappers (trace (snd (activate_once w act s))) = open_mappers (trace s)"
        using None nc by (simp add: tr open_step_def)
      show "\<exists>res. snd (activate_once w act s) =
          emit (Ev_Activate (act_kind act) (act_binary act) (act_argv act) res) s
        \<or> snd (activate_once w act s) = fold (register_tpm_mapper_named w act) (registered_names act)
          (emit (Ev_Activate (act_kind act) (act_binary act) (act_argv act) res) s)"
        by (rule exI [of _ ?res]) (simp add: st split: sum.splits)
    qed
  next
    case (Some n)
    from opened_by_Activate [OF this] obtain code where
      "act_kind act = Luks_Tpm" "mapper_name_from_open_argv (act_argv act) = Some n"
      "?res = Inr code" "is_activation_success code" by blast
    then show ?thesis
      using Opened [of n code] Some by (simp add: tr st open_step_def)
  qed
qed

interpretation memory_cover: mapper_cover w cfg "agreeing cfg" covered_in_memory for w cfg
proof
  fix s s' :: seal_state and ev and n :: string and act and files :: "string \<Rightarrow> bool"
  show "covered_in_memory (fresh_state files)" by (simp add: covered_in_memory_def fresh_state_def)
  show "covered_in_memory s'" if "covered_in_memory s" "reg_mappers s' = reg_mappers s" "trace s' = trace s"
    using that by (simp add: covered_in_memory_def)
  assume C: "covered_in_memory s"
  then show "set (open_mappers (trace s)) \<subseteq> me_name ` set (mapper_snapshot w s)"
    by (auto simp: covered_in_memory_def names_mapper_snapshot)
  show "covered_in_memory (emit ev s)" if "quiet ev \<or> ev = Ev_Shell"
    using C that open_step_quiet [of ev "open_mappers (trace s)"]
    by (auto simp: covered_in_memory_def open_step_def)
  show "covered_in_memory (mark_closed w n s)" if "n \<notin> set (open_mappers (trace s))"
    using C that by (auto simp: covered_in_memory_def)
  assume A: "agreeing cfg" "act \<in> set (sc_activations cfg)"
  show "covered_in_memory (snd (activate_once w act s))"
  proof (cases w act s rule: activate_cases)
    case (Opened m c)
    moreover have "m \<in> set (registered_names act)"
      using opened_registered [OF _ Opened(1,2)] A by (simp add: agreeing_def)
    ultimately show ?thesis
      using C by (auto simp: covered_in_memory_def names_register_fold)
  next
    case Plain
    then show ?thesis
      using C unfolding covered_in_memory_def by (auto simp: names_register_fold)
  qed
qed

subsection \<open>The registry file\<close>

text \<open>An entry whose line reads back: ASCII, no tab or newline in the path, a printable name.\<close>

definition clean_entry :: "mapper_entry \<Rightarrow> bool" where
  "clean_entry e \<longleftrightarrow>
     (\<forall>c\<in>set (me_cryptsetup e). is_ascii c \<and> c \<noteq> tab \<and> c \<noteq> newline)
     \<and> me_name e \<noteq> [] \<and> (\<forall>c\<in>set (me_name e). is_graphic c)"

definition render_registry :: "mapper_entry list \<Rightarrow> string" where
  "render_registry es = concat (map persist_line es)"

lemma graphic_ascii: "is_graphic c \<Longrightarrow> is_ascii c"
  by (simp add: is_graphic_def is_ascii_def)

lemma graphic_not_newline: "is_graphic c \<Longrightarrow> c \<noteq> newline \<and> c \<noteq> carriage_return \<and> c \<noteq> tab"
  by (auto simp: is_graphic_def newline_def carriage_return_def tab_def ord_def)

lemma render_registry_lines:
  "render_registry es = concat (map (\<lambda>l. l @ [newline]) (map (\<lambda>e. me_cryptsetup e @ tab # me_name e) es))"
  by (simp add: render_registry_def persist_line_def [abs_def] comp_def)

lemma tab_newline: "tab \<noteq> newline" "is_ascii tab" "is_ascii newline"
  by (simp_all add: tab_def newline_def is_ascii_def ord_def)

lemma clean_line:
  assumes "clean_entry e"
  shows "newline \<notin> set (me_cryptsetup e @ tab # me_name e)"
    and "strip_cr (me_cryptsetup e @ tab # me_name e) = me_cryptsetup e @ tab # me_name e"
    and "parse_persist_line (me_cryptsetup e @ tab # me_name e) = Some e"
proof -
  show "newline \<notin> set (me_cryptsetup e @ tab # me_name e)"
    using assms graphic_not_newline tab_newline(1) by (auto simp: clean_entry_def)
  have "last (me_cryptsetup e @ tab # me_name e) = last (me_name e)"
    using assms by (simp add: clean_entry_def)
  moreover have "last (me_name e) \<noteq> carriage_return"
    using assms graphic_not_newline [of "last (me_name e)"] by (simp add: clean_entry_def)
  ultimately show "strip_cr (me_cryptsetup e @ tab # me_name e) = me_cryptsetup e @ tab # me_name e"
    by (intro strip_cr_id) simp
  have "split_once tab (me_cryptsetup e @ tab # me_name e) = Some (me_cryptsetup e, me_name e)"
    using assms by (intro split_once_append) (auto simp: clean_entry_def)
  moreover have "trim (me_name e) = me_name e"
    using assms by (intro trim_all_graphic) (simp add: clean_entry_def)
  ultimately show "parse_persist_line (me_cryptsetup e @ tab # me_name e) = Some e"
    using assms by (simp add: parse_persist_line_def clean_entry_def)
qed

lemma parse_render_registry:
  assumes "\<forall>e\<in>set es. clean_entry e"
  shows "parse_registry (render_registry es) = es"
proof -
  let ?ls = "map (\<lambda>e. me_cryptsetup e @ tab # me_name e) es"
  have "text_lines (render_registry es) = ?ls"
    unfolding render_registry_lines using assms clean_line(1,2) by (intro text_lines_concat) auto
  moreover have "List.map_filter parse_persist_line ?ls = es"
    using assms by (induction es) (simp_all add: clean_line(3))
  ultimately show ?thesis by (simp add: parse_registry_def)
qed

lemma valid_render_registry:
  assumes "\<forall>e\<in>set es. clean_entry e"
  shows "valid_utf8 (render_registry es)"
proof (rule valid_utf8_ascii)
  fix c assume "c \<in> set (render_registry es)"
  then obtain e where "e \<in> set es" "c \<in> set (persist_line e)" by (auto simp: render_registry_def)
  then show "is_ascii c"
    using assms graphic_ascii tab_newline(2,3) by (auto simp: persist_line_def clean_entry_def)
qed

interpretation registry_format: text_format render_registry "Some \<circ> parse_registry"
  "\<lambda>es. \<forall>e\<in>set es. clean_entry e"
  by unfold_locales (simp add: parse_render_registry)

subsection \<open>The registry across a panic\<close>

definition clean_config :: "seal_config \<Rightarrow> bool" where
  "clean_config cfg \<longleftrightarrow>
     (\<forall>act\<in>set (sc_activations cfg). \<forall>n\<in>set (registered_names act).
        clean_entry \<lparr>me_cryptsetup = act_binary act, me_name = n\<rparr>)"

definition reliable_disk :: "world \<Rightarrow> bool" where
  "reliable_disk w \<longleftrightarrow>
     (\<forall>tr. w_readable w tr \<and> w_rewrite w tr = Landed \<and> (\<forall>e. w_append w tr e = Landed))"

definition file_holds :: "mapper_entry list \<Rightarrow> seal_state \<Rightarrow> bool" where
  "file_holds es s \<longleftrightarrow>
     (\<forall>e\<in>set es. clean_entry e)
     \<and> (reg_file s = Some (render_registry es) \<or> (reg_file s = None \<and> es = []))"

definition covered_on_disk :: "seal_state \<Rightarrow> bool" where
  "covered_on_disk s \<longleftrightarrow>
     (\<exists>es. file_holds es s
       \<and> me_name ` set (reg_mappers s) \<subseteq> me_name ` set es
       \<and> set (open_mappers (trace s)) \<subseteq> me_name ` set es)"

lemma persist_load_holds:
  assumes "reliable_disk w" "file_holds es s"
  shows "persist_load w s = es"
  using assms
  by (auto simp: reliable_disk_def file_holds_def persist_load_def read_registry_def
      valid_render_registry parse_render_registry)

lemma persist_remove_holds:
  assumes "reliable_disk w" "file_holds es s"
  shows "\<exists>es'. file_holds es' (persist_remove w n s) \<and> set (filter (\<lambda>e. me_name e \<noteq> n) es) \<subseteq> set es'"
proof (cases "reg_file s")
  case None
  then show ?thesis
    using assms by (auto simp: persist_remove_def read_registry_def file_holds_def)
next
  case (Some t)
  let ?kept = "filter (\<lambda>e. me_name e \<noteq> n) es"
  have t: "read_registry w s = Some (render_registry es)" "parse_registry (render_registry es) = es"
    using assms Some by (auto simp: reliable_disk_def file_holds_def read_registry_def
        valid_render_registry parse_render_registry)
  show ?thesis
  proof (cases "?kept = []")
    case True
    then show ?thesis
      using assms(2) t by (intro exI [of _ "if w_unlink w (trace s) then [] else es"])
        (auto simp: persist_remove_def file_holds_def Let_def)
  next
    case False
    then have "file_holds ?kept (persist_remove w n s)"
      using assms t by (auto simp: persist_remove_def rewrite_persist_def reliable_disk_def
          file_holds_def Let_def render_registry_def)
    then show ?thesis by blast
  qed
qed

lemma register_holds:
  assumes "reliable_disk w" "file_holds es s" "me_name ` set (reg_mappers s) \<subseteq> me_name ` set es"
    and "clean_entry \<lparr>me_cryptsetup = act_binary act, me_name = n\<rparr>"
  shows "\<exists>es'. file_holds es' (register_tpm_mapper_named w act n s)
    \<and> me_name ` set (reg_mappers (register_tpm_mapper_named w act n s)) \<subseteq> me_name ` set es'
    \<and> insert n (me_name ` set es) \<subseteq> me_name ` set es'"
proof (cases "n \<in> me_name ` set (reg_mappers s)")
  case True
  then show ?thesis
    using assms by (intro exI [of _ es])
      (auto simp: register_tpm_mapper_named_def register_tpm_mapper_def)
next
  case False
  let ?e = "\<lparr>me_cryptsetup = act_binary act, me_name = n\<rparr>"
  have "file_holds (es @ [?e]) (register_tpm_mapper_named w act n s)"
    using assms False
    by (auto simp: register_tpm_mapper_named_def register_tpm_mapper_def persist_append_def
        reliable_disk_def file_holds_def render_registry_def Let_def)
  moreover have "me_name ` set (reg_mappers (register_tpm_mapper_named w act n s))
      \<subseteq> me_name ` set (es @ [?e])"
    using assms(3) by (auto simp: names_register_named)
  ultimately show ?thesis by (intro exI [of _ "es @ [?e]"]) auto
qed

lemma register_fold_holds:
  assumes "reliable_disk w" "file_holds es s" "me_name ` set (reg_mappers s) \<subseteq> me_name ` set es"
    and "\<forall>n\<in>set ns. clean_entry \<lparr>me_cryptsetup = act_binary act, me_name = n\<rparr>"
  shows "\<exists>es'. file_holds es' (fold (register_tpm_mapper_named w act) ns s)
    \<and> me_name ` set (reg_mappers (fold (register_tpm_mapper_named w act) ns s)) \<subseteq> me_name ` set es'
    \<and> set ns \<union> me_name ` set es \<subseteq> me_name ` set es'"
  using assms(2-)
proof (induction ns arbitrary: s es)
  case Nil
  then show ?case by auto
next
  case (Cons n ns)
  from register_holds [OF assms(1) Cons.prems(1,2), of act n] Cons.prems(3)
  obtain es1 where 1: "file_holds es1 (register_tpm_mapper_named w act n s)"
    "me_name ` set (reg_mappers (register_tpm_mapper_named w act n s)) \<subseteq> me_name ` set es1"
    "insert n (me_name ` set es) \<subseteq> me_name ` set es1" by auto
  from Cons.IH [OF 1(1,2)] Cons.prems(3)
  obtain es2 where 2: "file_holds es2 (fold (register_tpm_mapper_named w act) (n # ns) s)"
    "me_name ` set (reg_mappers (fold (register_tpm_mapper_named w act) (n # ns) s)) \<subseteq> me_name ` set es2"
    "set ns \<union> me_name ` set es1 \<subseteq> me_name ` set es2" by auto
  have "set (n # ns) \<union> N \<subseteq> N2" if "insert n N \<subseteq> N1" "set ns \<union> N1 \<subseteq> N2" for N N1 N2
    using that by auto
  from this [OF 1(3) 2(3)] 2(1,2) show ?case by (intro exI [of _ es2]) blast
qed

interpretation disk_cover: panic_cover w cfg
  "agreeing cfg \<and> clean_config cfg \<and> reliable_disk w" covered_on_disk for w cfg
proof
  fix s s' :: seal_state and ev and n :: string and act and files :: "string \<Rightarrow> bool"
  show "covered_on_disk (fresh_state files)"
    by (auto simp: covered_on_disk_def fresh_state_def file_holds_def)
  show "covered_on_disk s'" if "covered_on_disk s" "reg_mappers s' = reg_mappers s"
    "reg_file s' = reg_file s" "trace s' = trace s"
    using that by (simp add: covered_on_disk_def file_holds_def)
  assume A: "agreeing cfg \<and> clean_config cfg \<and> reliable_disk w" and C: "covered_on_disk s"
  then have w: "reliable_disk w" by simp
  from C obtain es where es: "file_holds es s" "me_name ` set (reg_mappers s) \<subseteq> me_name ` set es"
    "set (open_mappers (trace s)) \<subseteq> me_name ` set es" by (auto simp: covered_on_disk_def)
  show "set (open_mappers (trace s)) \<subseteq> me_name ` set (mapper_snapshot w s)"
    using es(3) persist_load_holds [OF w es(1)] by (auto simp: names_mapper_snapshot)
  show "covered_on_disk (emit ev s)" if "quiet ev \<or> ev = Ev_Shell"
  proof -
    have "set (open_mappers (trace (emit ev s))) \<subseteq> set (open_mappers (trace s))"
      using that open_step_quiet [of ev] by (auto simp: open_step_def)
    with es show ?thesis
      unfolding covered_on_disk_def by (intro exI [of _ es]) (auto simp: file_holds_def)
  qed
  show "covered_on_disk (panic_reexec s)"
    using es unfolding covered_on_disk_def
    by (intro exI [of _ es]) (simp add: panic_reexec_def file_holds_def open_step_def)
  show "covered_on_disk (mark_closed w n s)" if shut: "n \<notin> set (open_mappers (trace s))"
  proof -
    let ?s = "s\<lparr>reg_mappers := filter (\<lambda>e. me_name e \<noteq> n) (reg_mappers s)\<rparr>"
    have "file_holds es ?s" using es(1) by (simp add: file_holds_def)
    from persist_remove_holds [OF w this, of n] obtain es' where
      es': "file_holds es' (mark_closed w n s)" "set (filter (\<lambda>e. me_name e \<noteq> n) es) \<subseteq> set es'"
      by (auto simp: mark_closed_def)
    have sub: "x \<in> me_name ` set es'" if "x \<in> me_name ` set es" "x \<noteq> n" for x
      using that es'(2) by auto
    have "me_name ` set (reg_mappers (mark_closed w n s)) \<subseteq> me_name ` set es'"
    proof
      fix x assume "x \<in> me_name ` set (reg_mappers (mark_closed w n s))"
      then have x: "x \<in> me_name ` set (reg_mappers s)" "x \<noteq> n" by auto
      from sub [OF subsetD [OF es(2) x(1)] x(2)] show "x \<in> me_name ` set es'" .
    qed
    moreover have "set (open_mappers (trace (mark_closed w n s))) \<subseteq> me_name ` set es'"
    proof
      fix x assume "x \<in> set (open_mappers (trace (mark_closed w n s)))"
      then have x: "x \<in> set (open_mappers (trace s))" by simp
      with shut have "x \<noteq> n" by blast
      from sub [OF subsetD [OF es(3) x] this] show "x \<in> me_name ` set es'" .
    qed
    ultimately show ?thesis using es'(1) unfolding covered_on_disk_def by blast
  qed
  assume act: "act \<in> set (sc_activations cfg)"
  have clean: "\<forall>n\<in>set (registered_names act). clean_entry \<lparr>me_cryptsetup = act_binary act, me_name = n\<rparr>"
    using A act by (simp add: clean_config_def)
  show "covered_on_disk (snd (activate_once w act s))"
  proof (cases w act s rule: activate_cases)
    case (Opened m c)
    let ?s = "emit (Ev_Activate (act_kind act) (act_binary act) (act_argv act) (Inr c)) s"
    have "file_holds es ?s" "me_name ` set (reg_mappers ?s) \<subseteq> me_name ` set es"
      using es(1,2) by (simp_all add: file_holds_def)
    from register_fold_holds [OF w this clean] obtain es' where
      es': "file_holds es' (snd (activate_once w act s))"
        "me_name ` set (reg_mappers (snd (activate_once w act s))) \<subseteq> me_name ` set es'"
        "set (registered_names act) \<union> me_name ` set es \<subseteq> me_name ` set es'"
      using Opened(4) by auto
    moreover have "m \<in> set (registered_names act)"
      using opened_registered [OF _ Opened(1,2)] A act by (simp add: agreeing_def)
    ultimately show ?thesis
      using es(3) by (auto simp: covered_on_disk_def Opened(3) intro!: exI [of _ es'])
  next
    case Plain
    from Plain(2) obtain res where res: "snd (activate_once w act s) =
          emit (Ev_Activate (act_kind act) (act_binary act) (act_argv act) res) s
        \<or> snd (activate_once w act s) = fold (register_tpm_mapper_named w act) (registered_names act)
          (emit (Ev_Activate (act_kind act) (act_binary act) (act_argv act) res) s)" ..
    let ?s = "emit (Ev_Activate (act_kind act) (act_binary act) (act_argv act) res) s"
    have f: "file_holds es ?s" "me_name ` set (reg_mappers ?s) \<subseteq> me_name ` set es"
      using es(1,2) by (simp_all add: file_holds_def)
    from register_fold_holds [OF w f clean] res f obtain es' where
      "file_holds es' (snd (activate_once w act s))"
        "me_name ` set (reg_mappers (snd (activate_once w act s))) \<subseteq> me_name ` set es'"
        "me_name ` set es \<subseteq> me_name ` set es'"
      by (elim disjE) auto
    then show ?thesis
      using es(3) by (auto simp: covered_on_disk_def Plain(1) intro!: exI [of _ es'])
  qed
qed

subsection \<open>No shell over an open secret\<close>

text \<open>C12: Within one process image, whatever sites are visited in whatever order and whatever the
  TPM, the tools and the disk answer: when a shell starts, the lock PCR has been capped (or there
  was no TPM and \<open>tpm.require_tpm\<close> is off), and every mapper a TPM token opened has been closed by
  a \<open>cryptsetup close\<close> that confirmed it. The configuration must name in \<open>produces_devices\<close> of a
  \<open>luks-tpm\<close> activation, if it names mapper nodes there at all, the mapper its command opens.\<close>

theorem no_shell_before_the_seal:
  assumes "reached w cfg False s" "agreeing cfg"
  shows "shells_locked (sc_tpm_require_tpm cfg) (trace s)"
  using memory_cover.reached_shells_locked assms .

text \<open>C13: The same across panics, which wipe the registry and the latch from memory: as long as the
  registry file can be written and read, and the names and paths are plain ASCII without tabs and
  newlines, a mapper that was opened before a panic is closed before any shell after it.\<close>

theorem panic_leaves_no_mapper_open:
  assumes "reached w cfg panics s" "agreeing cfg" "clean_config cfg" "reliable_disk w"
  shows "shells_locked (sc_tpm_require_tpm cfg) (trace s)"
  by (rule disk_cover.reached_panics_shells_locked [OF assms(1)]) (use assms in simp)

definition demo_luks :: activation where
  "demo_luks = \<lparr>act_kind = Luks_Tpm, act_required_modules = [], act_binary = ''/bin/cryptsetup'',
     act_argv = [''open'', ''--token-only'', ''/dev/sda2'', ''root''], act_produces = [''/dev/mapper/root''],
     act_sources = [''/dev/sda2''], act_description = ''root'', act_prompt_label = None,
     act_pass_to_stage1 = None\<rparr>"

definition demo_seal_config :: seal_config where
  "demo_seal_config = \<lparr>sc_tpm_require_tpm = False, sc_secure_boot_require_tpm = True,
     sc_activations = [demo_luks], sc_boot = demo_config, sc_rescue_mode = Embedded,
     sc_rescue_network = False, sc_shell = ''/bin/sh''\<rparr>"

definition demo_world :: "(events \<Rightarrow> cap_outcome) \<Rightarrow> world" where
  "demo_world cap = \<lparr>w_cap = cap, w_run = (\<lambda>_ _ _ _. Inr 0), w_append = (\<lambda>_ _. Landed),
     w_readable = (\<lambda>_. True), w_rewrite = (\<lambda>_. Landed), w_unlink = (\<lambda>_. True),
     w_node_dev = (\<lambda>_ _. None), w_mountinfo = (\<lambda>_. None), w_sentinel = (\<lambda>_. True)\<rparr>"

lemma demo_world_fields [simp]: "w_cap (demo_world cap) = cap" "w_sentinel (demo_world cap) tr"
  by (simp_all add: demo_world_def)

lemma demo_names: "registered_names demo_luks = [''root'']"
  "mapper_name_from_open_argv (act_argv demo_luks) = Some ''root''" "act_kind demo_luks = Luks_Tpm"
  by (simp_all add: demo_luks_def registered_names_def produced_names_def mapper_prefix_def
      strip_prefix_def starts_with_def mapper_name_from_open_argv_def get_at_def Let_def)

lemma demo_agreeing: "agreeing demo_seal_config"
  by (simp add: agreeing_def demo_seal_config_def names_agree_def demo_luks_def mapper_prefix_def
      strip_prefix_def starts_with_def mapper_name_from_open_argv_def get_at_def Let_def)

lemma demo_clean: "clean_config demo_seal_config"
  by (simp add: clean_config_def demo_seal_config_def demo_names)
    (simp add: demo_luks_def clean_entry_def is_ascii_def is_graphic_def ord_def tab_def newline_def)

lemma demo_reliable: "reliable_disk (demo_world cap)"
  by (simp add: reliable_disk_def demo_world_def)

definition demo_entry :: mapper_entry where
  "demo_entry = \<lparr>me_cryptsetup = ''/bin/cryptsetup'', me_name = ''root''\<rparr>"

lemma demo_activate:
  "reg_mappers s = [] \<Longrightarrow> reg_file s = None \<Longrightarrow>
     seal_step (demo_world cap) demo_seal_config s (Do_Activate 0) =
       s\<lparr>reg_mappers := [demo_entry], reg_file := Some (persist_line demo_entry),
         trace := trace s @ [Ev_Activate Luks_Tpm ''/bin/cryptsetup'' (act_argv demo_luks) (Inr 0)]\<rparr>"
  by (simp add: seal_step_def get_at_def demo_seal_config_def activate_once_def register_if_fold demo_names
      register_tpm_mapper_named_def register_tpm_mapper_def persist_append_def Let_def
      is_activation_success_def demo_world_def emit_def demo_entry_def)
    (simp add: demo_luks_def)

lemma demo_file_holds: "reg_file s = Some (persist_line demo_entry) \<Longrightarrow> file_holds [demo_entry] s"
  using demo_clean
  by (simp add: file_holds_def render_registry_def clean_config_def demo_seal_config_def demo_names
      demo_entry_def) (simp add: demo_luks_def)

lemma demo_snapshot:
  assumes "reg_mappers s = [demo_entry] \<or> reg_mappers s = []" "reg_file s = Some (persist_line demo_entry)"
  shows "mapper_snapshot (demo_world cap) s = [demo_entry]"
  using assms persist_load_holds [OF demo_reliable demo_file_holds [OF assms(2)], of cap]
  by (auto simp: mapper_snapshot_def)

lemma demo_close:
  assumes "reg_mappers s = [demo_entry] \<or> reg_mappers s = []" "reg_file s = Some (persist_line demo_entry)"
  shows "close_all (demo_world cap) r s =
    (Inr (), s\<lparr>reg_mappers := [], reg_file := None,
      trace := trace s @ [Ev_Run ''/bin/cryptsetup'' [''close'', ''root''] (Inr 0)]\<rparr>)"
proof -
  have one: "close_one (demo_world cap) r demo_entry (detach_mapper_mounts (demo_world cap) (me_name demo_entry) s) =
    (Inr (), emit (Ev_Run ''/bin/cryptsetup'' [''close'', ''root''] (Inr 0)) s)"
    by (simp add: close_one_def run_tool_eq close_outcome_def demo_world_def close_argv_def demo_entry_def
        detach_mapper_mounts_def)
  let ?s = "emit (Ev_Run ''/bin/cryptsetup'' [''close'', ''root''] (Inr 0)) s"
  have "read_registry (demo_world cap) (?s\<lparr>reg_mappers := []\<rparr>) = Some (render_registry [demo_entry])"
    using assms(2) demo_file_holds [OF assms(2)] valid_render_registry [of "[demo_entry]"]
    by (simp add: read_registry_def file_holds_def demo_world_def render_registry_def)
  moreover have "parse_registry (render_registry [demo_entry]) = [demo_entry]"
    using demo_file_holds [OF assms(2)] by (intro parse_render_registry) (simp add: file_holds_def)
  ultimately have "mark_closed (demo_world cap) (me_name demo_entry) ?s = ?s\<lparr>reg_mappers := [], reg_file := None\<rparr>"
    using assms(1) by (auto simp: mark_closed_def persist_remove_def demo_world_def)
  then show ?thesis
    by (simp add: close_all_def demo_snapshot [OF assms] close_each_Cons(1) [OF one] emit_def)
qed

lemma demo_shell:
  assumes "reg_mappers s = [demo_entry] \<or> reg_mappers s = []" "reg_file s = Some (persist_line demo_entry)"
  shows "trace (seal_step (demo_world (\<lambda>_. Capped)) demo_seal_config s Do_Shell) =
    trace s @ (if cap_latch s then [] else [Ev_Cap Capped])
      @ [Ev_Run ''/bin/cryptsetup'' [''close'', ''root''] (Inr 0), Ev_Shell]"
  using assms
  by (simp add: seal_step_def emergency_shell_def seal_secrets_def seal_with_def latched_cap_def cap_step_def
      Let_def demo_close)

definition demo_boot :: "site list \<Rightarrow> seal_state" where
  "demo_boot sites = foldl (seal_step (demo_world (\<lambda>_. Capped)) demo_seal_config) (fresh_state (\<lambda>_. False)) sites"

lemma demo_reached:
  "\<forall>i\<in>set sites. i = Do_Panic \<longrightarrow> panics \<Longrightarrow>
     reached (demo_world (\<lambda>_. Capped)) demo_seal_config panics (demo_boot sites)"
  unfolding demo_boot_def
  by (induction sites rule: rev_induct) (auto intro: reached.intros)

lemma demo_boot_shell:
  "trace (demo_boot [Do_Activate 0, Do_Shell]) =
     [Ev_Activate Luks_Tpm ''/bin/cryptsetup'' (act_argv demo_luks) (Inr 0), Ev_Cap Capped,
      Ev_Run ''/bin/cryptsetup'' [''close'', ''root''] (Inr 0), Ev_Shell]"
  by (simp add: demo_boot_def demo_activate demo_shell fresh_state_def)

lemma demo_boot_panic:
  "trace (demo_boot [Do_Activate 0, Do_Panic, Do_Shell]) =
     [Ev_Activate Luks_Tpm ''/bin/cryptsetup'' (act_argv demo_luks) (Inr 0), Ev_Panic, Ev_Cap Capped,
      Ev_Run ''/bin/cryptsetup'' [''close'', ''root''] (Inr 0), Ev_Shell]"
proof -
  let ?s = "demo_boot [Do_Activate 0, Do_Panic]"
  have s: "?s = \<lparr>reg_mappers = [], reg_file = Some (persist_line demo_entry), cap_latch = False,
      boot_files = \<lambda>_. False,
      trace = [Ev_Activate Luks_Tpm ''/bin/cryptsetup'' (act_argv demo_luks) (Inr 0), Ev_Panic]\<rparr>"
    by (simp add: demo_boot_def demo_activate fresh_state_def)
      (simp add: seal_step_def panic_reexec_def emit_def)
  have "demo_boot [Do_Activate 0, Do_Panic, Do_Shell] =
      seal_step (demo_world (\<lambda>_. Capped)) demo_seal_config ?s Do_Shell"
    by (simp add: demo_boot_def)
  then show ?thesis using demo_shell [of ?s] by (simp add: s)
qed

theorem no_shell_before_the_seal_witness:
  "Ev_Shell \<in> set (trace (demo_boot [Do_Activate 0, Do_Shell]))
   \<and> shells_locked (sc_tpm_require_tpm demo_seal_config) (trace (demo_boot [Do_Activate 0, Do_Shell]))"
  using no_shell_before_the_seal [OF demo_reached [of "[Do_Activate 0, Do_Shell]" False] demo_agreeing]
  by (simp add: demo_boot_shell)

theorem panic_leaves_no_mapper_open_witness:
  "Ev_Shell \<in> set (trace (demo_boot [Do_Activate 0, Do_Panic, Do_Shell]))
   \<and> shells_locked (sc_tpm_require_tpm demo_seal_config)
       (trace (demo_boot [Do_Activate 0, Do_Panic, Do_Shell]))"
  using panic_leaves_no_mapper_open
    [OF demo_reached [of "[Do_Activate 0, Do_Panic, Do_Shell]" True] demo_agreeing demo_clean demo_reliable]
  by (simp add: demo_boot_panic)

subsection \<open>The refusal in order\<close>

fun run_of :: "seal_event \<Rightarrow> (string \<times> string list) option" where
  "run_of (Ev_Run b argv res) = Some (b, argv)"
| "run_of _ = None"

lemma boot_files_mark_closed [simp]: "boot_files (mark_closed w n s) = boot_files s"
  by (simp add: mark_closed_def persist_remove_def rewrite_persist_def Let_def
      split: option.splits write_fate.splits)

lemma best_effort_trace:
  "\<exists>closes. trace (close_each_best_effort w r es s) = trace s @ closes
     \<and> map run_of closes = map (\<lambda>e. Some (me_cryptsetup e, close_argv e)) es
     \<and> boot_files (close_each_best_effort w r es s) = boot_files s"
proof (induction es arbitrary: s)
  case (Cons e es)
  show ?case
  proof (cases w r e s rule: close_one_cases)
    case (Closed c)
    let ?ev = "Ev_Run (me_cryptsetup e) [''close'', me_name e] (Inr c)"
    from Cons [of "mark_closed w (me_name e) (emit ?ev s)"] obtain closes where
      "trace (close_each_best_effort w r (e # es) s) = trace s @ ?ev # closes"
      "map run_of closes = map (\<lambda>e. Some (me_cryptsetup e, close_argv e)) es"
      "boot_files (close_each_best_effort w r (e # es) s) = boot_files s"
      by (auto simp: best_effort_Cons(1) [OF Closed(1)])
    then show ?thesis by (intro exI [of _ "?ev # closes"]) (simp add: close_argv_def)
  next
    case (Stuck err res)
    let ?ev = "Ev_Run (me_cryptsetup e) [''close'', me_name e] res"
    from Cons [of "emit ?ev s"] obtain closes where
      "trace (close_each_best_effort w r (e # es) s) = trace s @ ?ev # closes"
      "map run_of closes = map (\<lambda>e. Some (me_cryptsetup e, close_argv e)) es"
      "boot_files (close_each_best_effort w r (e # es) s) = boot_files s"
      by (auto simp: best_effort_Cons(2) [OF Stuck])
    then show ?thesis by (intro exI [of _ "?ev # closes"]) (simp add: close_argv_def)
  qed
qed simp

lemma relock_trace:
  "\<exists>locks. trace (snd (relock_volumes w r acts s)) = trace s @ locks
     \<and> map run_of locks = map (\<lambda>c. Some (rl_binary c, rl_argv c)) (List.map_filter relock_argv acts)"
proof (induction acts arbitrary: s)
  case (Cons act acts)
  show ?case
  proof (cases "relock_argv act")
    case None
    with Cons [of s] show ?thesis by (simp add: relock_volumes_Cons)
  next
    case (Some cmd)
    let ?ev = "Ev_Run (rl_binary cmd) (rl_argv cmd) (w_run w (trace s) r (rl_binary cmd) (rl_argv cmd))"
    from Cons [of "emit ?ev s"] obtain locks where
      "trace (snd (relock_volumes w r (act # acts) s)) = trace s @ ?ev # locks"
      "map run_of locks = map (\<lambda>c. Some (rl_binary c, rl_argv c)) (List.map_filter relock_argv acts)"
      by (auto simp: relock_volumes_Cons Some Let_def)
    then show ?thesis using Some by (intro exI [of _ "?ev # locks"]) simp
  qed
qed simp

lemma latched_cap_trace:
  "trace (snd (latched_cap w required s)) =
     trace s @ (if cap_latch s then [] else [Ev_Cap (w_cap w (trace s))])"
  by (simp add: latched_cap_def cap_step_def Let_def split: cap_outcome.splits)

lemma refuse_trace:
  "\<exists>closes locks.
     trace (snd (relock_and_refuse w r cfg cause s)) =
       trace s @ (if cap_latch s then [] else [Ev_Cap (w_cap w (trace s))]) @ closes @ Ev_Sentinel # locks
     \<and> map run_of closes =
         map (\<lambda>e. Some (me_cryptsetup e, close_argv e))
           (mapper_snapshot w (snd (latched_cap w (refuse_require_tpm cfg) s)))
     \<and> map run_of locks =
         map (\<lambda>c. Some (rl_binary c, rl_argv c)) (List.map_filter relock_argv (sc_activations cfg))
     \<and> boot_files (snd (relock_and_refuse w r cfg cause s)) =
         write_sentinel
           (w_sentinel w (trace s @ (if cap_latch s then [] else [Ev_Cap (w_cap w (trace s))]) @ closes))
           (sc_boot cfg) (boot_files s)
     \<and> fst (relock_and_refuse w r cfg cause s) = Reboot_Into_Rescue cause Sealed"
proof -
  let ?s0 = "snd (latched_cap w (refuse_require_tpm cfg) s)"
  let ?s1 = "close_each_best_effort w r (mapper_snapshot w ?s0) ?s0"
  let ?s2 = "mark_rescue w cfg ?s1"
  obtain closes where c: "trace ?s1 = trace ?s0 @ closes" "boot_files ?s1 = boot_files ?s0"
    "map run_of closes = map (\<lambda>e. Some (me_cryptsetup e, close_argv e)) (mapper_snapshot w ?s0)"
    using best_effort_trace [of w r "mapper_snapshot w ?s0" ?s0] by auto
  obtain locks where l: "trace (snd (relock_volumes w r (sc_activations cfg) ?s2)) = trace ?s2 @ locks"
    "map run_of locks = map (\<lambda>c. Some (rl_binary c, rl_argv c)) (List.map_filter relock_argv (sc_activations cfg))"
    using relock_trace [of w r "sc_activations cfg" ?s2] by auto
  have "trace ?s2 = trace ?s1 @ [Ev_Sentinel]"
    "boot_files ?s2 = write_sentinel (w_sentinel w (trace ?s1)) (sc_boot cfg) (boot_files ?s1)"
    by (simp_all add: mark_rescue_def)
  with c l show ?thesis
    by (intro exI [of _ closes] exI [of _ locks])
      (simp add: relock_and_refuse_eq seal_for_refuse_def close_all_best_effort_def relock_quietly
        latched_cap_trace)
qed

text \<open>A refusal caps the lock PCR first (unless it is capped already), then runs one close for
  each registered mapper, then writes the rescue sentinel, then runs the relock command of each
  activation that has one, whatever any of these steps answers; it ends in the reboot into the rescue,
  and no shell starts on the way.\<close>

theorem refusal_in_order:
  "\<exists>closes locks.
     trace (snd (relock_and_refuse w r cfg cause s)) =
       trace s @ (if cap_latch s then [] else [Ev_Cap (w_cap w (trace s))]) @ closes @ Ev_Sentinel # locks
     \<and> map run_of closes =
         map (\<lambda>e. Some (me_cryptsetup e, close_argv e))
           (mapper_snapshot w (snd (latched_cap w (refuse_require_tpm cfg) s)))
     \<and> map run_of locks =
         map (\<lambda>c. Some (rl_binary c, rl_argv c)) (List.map_filter relock_argv (sc_activations cfg))
     \<and> boot_files (snd (relock_and_refuse w r cfg cause s)) =
         write_sentinel
           (w_sentinel w (trace s @ (if cap_latch s then [] else [Ev_Cap (w_cap w (trace s))]) @ closes))
           (sc_boot cfg) (boot_files s)
     \<and> fst (relock_and_refuse w r cfg cause s) = Reboot_Into_Rescue cause Sealed"
  by (rule refuse_trace)

text \<open>The boot after a refusal that could write its sentinel goes to the rescue.\<close>

lemma refusal_forces_rescue:
  assumes "resolve_sentinel_path (sc_boot cfg) = Some p" "\<And>tr. w_sentinel w tr"
  shows "should_force_rescue (boot_files (snd (relock_and_refuse w r cfg cause s))) force (sc_boot cfg)"
proof -
  from refuse_trace [of w r cfg cause s] obtain ok where
    "boot_files (snd (relock_and_refuse w r cfg cause s)) =
       write_sentinel (w_sentinel w ok) (sc_boot cfg) (boot_files s)" by blast
  then show ?thesis
    using assms by (simp add: should_force_rescue_def sentinel_present_def write_sentinel_def)
qed

subsection \<open>Which command locks a volume\<close>

lemma vg_scan_nonempty: "vg_scan vg s = Some v \<Longrightarrow> v \<noteq> []"
  by (induction vg s rule: vg_scan.induct) (auto split: list.splits if_splits)

lemma vg_of_nonempty: "vg_of p = Some vg \<Longrightarrow> vg \<noteq> []"
  by (auto simp: vg_of_def vg_symlink_def vg_from_mangled_def dest: vg_scan_nonempty
      split: option.splits if_splits prod.splits)

lemma mapper_name_Some:
  "mapper_name p = Some (Mapper_Name n) \<Longrightarrow> p = mapper_prefix @ n \<and> n \<noteq> [] \<and> slash \<notin> set n"
  by (auto simp: mapper_name_def strip_prefix_Some_iff split: option.splits if_splits)

text \<open>The shape of a command for each kind of volume.\<close>

definition relock_shape :: "activation \<Rightarrow> relock_command \<Rightarrow> bool" where
  "relock_shape act cmd \<longleftrightarrow>
     (if act_kind act \<in> {Luks_Tpm, Luks_Keyfile, Luks_Password} then
        \<exists>n. n \<noteq> [] \<and> slash \<notin> set n \<and> mapper_prefix @ n \<in> set (act_produces act)
          \<and> rl_binary cmd = act_binary act \<and> rl_argv cmd = [''close'', n] \<and> rl_absent_exit_code cmd = 4
      else if act_kind act = Lvm then
        \<exists>vg p. vg \<noteq> [] \<and> p \<in> set (act_produces act) \<and> vg_of p = Some vg
          \<and> rl_binary cmd = ''vgchange'' \<and> rl_argv cmd = [''-an'', vg] \<and> rl_absent_exit_code cmd = 0
      else act_kind act = Mdraid
        \<and> (\<exists>md\<in>set (act_produces act). starts_with ''/dev/md'' md
            \<and> rl_binary cmd = ''mdadm'' \<and> rl_argv cmd = [''--stop'', md] \<and> rl_absent_exit_code cmd = 0))"

text \<open>C24: A relock command is typed by the kind of its activation: a LUKS volume is closed with the
  activation's own binary under a nonempty name without a slash that stands after \<open>/dev/mapper/\<close>
  among the produced devices; a volume group is deactivated under the nonempty name derived from a
  produced device; an array is stopped under its own \<open>/dev/md\<close> node; a ZFS pool has no command.\<close>

theorem relock_command_is_typed:
  assumes "relock_argv act = Some cmd"
  shows "relock_shape act cmd"
proof -
  have luks: "\<exists>n. n \<noteq> [] \<and> slash \<notin> set n \<and> mapper_prefix @ n \<in> set (act_produces act)
      \<and> rl_binary cmd = act_binary act \<and> rl_argv cmd = [''close'', n] \<and> rl_absent_exit_code cmd = 4"
    if L: "luks_relock act = Some cmd"
  proof -
    from L obtain n where n: "find_map mapper_name (act_produces act) = Some (Mapper_Name n)"
      "cmd = \<lparr>rl_binary = act_binary act, rl_argv = [''close'', n],
        rl_label = ''LUKS mapper '' @ n, rl_absent_exit_code = 4\<rparr>"
      by (auto simp: luks_relock_def split: option.splits mapper_parse.splits)
    from find_map_SomeD [OF n(1)] obtain p where
      "p \<in> set (act_produces act)" "mapper_name p = Some (Mapper_Name n)" by blast
    with n(2) mapper_name_Some show ?thesis by (intro exI [of _ n]) auto
  qed
  have lvm: "\<exists>vg p. vg \<noteq> [] \<and> p \<in> set (act_produces act) \<and> vg_of p = Some vg
      \<and> rl_binary cmd = ''vgchange'' \<and> rl_argv cmd = [''-an'', vg] \<and> rl_absent_exit_code cmd = 0"
    if L: "lvm_relock act = Some cmd"
  proof -
    from L obtain vg where vg: "find_map vg_of (act_produces act) = Some vg"
      "cmd = \<lparr>rl_binary = ''vgchange'', rl_argv = [''-an'', vg],
        rl_label = ''LVM volume group '' @ vg, rl_absent_exit_code = 0\<rparr>"
      by (auto simp: lvm_relock_def split: option.splits)
    from find_map_SomeD [OF vg(1)] obtain p where
      "p \<in> set (act_produces act)" "vg_of p = Some vg" by blast
    with vg(2) vg_of_nonempty show ?thesis by (intro exI [of _ vg] exI [of _ p]) auto
  qed
  have md: "\<exists>md\<in>set (act_produces act). starts_with ''/dev/md'' md
      \<and> rl_binary cmd = ''mdadm'' \<and> rl_argv cmd = [''--stop'', md] \<and> rl_absent_exit_code cmd = 0"
    if M: "mdraid_relock act = Some cmd"
  proof -
    from M obtain md where "find is_md_node (act_produces act) = Some md"
      "cmd = \<lparr>rl_binary = ''mdadm'', rl_argv = [''--stop'', from_utf8_lossy md],
        rl_label = ''md array '' @ from_utf8_lossy md, rl_absent_exit_code = 0\<rparr>"
      by (auto simp: mdraid_relock_def split: option.splits)
    then show ?thesis
      by (intro bexI [of _ md]) (auto simp: find_Some_iff is_md_node_def from_utf8_lossy_valid in_set_conv_nth)
  qed
  show ?thesis
    using assms luks lvm md
    by (cases "act_kind act") (simp_all add: relock_argv_def relock_shape_def)
qed

theorem relock_command_is_typed_witness:
  "relock_argv demo_luks = Some \<lparr>rl_binary = ''/bin/cryptsetup'', rl_argv = [''close'', ''root''],
       rl_label = ''LUKS mapper root'', rl_absent_exit_code = 4\<rparr>
   \<and> relock_shape demo_luks \<lparr>rl_binary = ''/bin/cryptsetup'', rl_argv = [''close'', ''root''],
       rl_label = ''LUKS mapper root'', rl_absent_exit_code = 4\<rparr>"
proof -
  have "valid_utf8 ''/dev/mapper/root''"
    by (rule valid_utf8_ascii) (auto simp: is_ascii_def ord_def)
  then have "relock_argv demo_luks = Some \<lparr>rl_binary = ''/bin/cryptsetup'', rl_argv = [''close'', ''root''],
       rl_label = ''LUKS mapper root'', rl_absent_exit_code = 4\<rparr>"
    by (simp add: relock_argv_def demo_luks_def luks_relock_def mapper_name_def mapper_prefix_def
        strip_prefix_def starts_with_def slash_def)
  with relock_command_is_typed show ?thesis by blast
qed

text \<open>LVM doubles each dash of a volume group or logical volume in the name of the mapper node.\<close>

definition lvm_mangle :: "string \<Rightarrow> string" where
  "lvm_mangle s = concat (map (\<lambda>c. if c = CHR ''-'' then ''--'' else [c]) s)"

lemma vg_scan_mangled:
  "acc @ vg \<noteq> [] \<Longrightarrow> (lv = [] \<or> hd lv \<noteq> CHR ''-'') \<Longrightarrow>
     vg_scan acc (lvm_mangle vg @ CHR ''-'' # lv) = Some (acc @ vg)"
proof (induction vg arbitrary: acc)
  case Nil
  then show ?case by (cases lv) (auto simp: lvm_mangle_def)
next
  case (Cons c vg)
  from Cons.IH [of "acc @ [c]"] Cons.prems(2) show ?case
    by (cases "c = CHR ''-''") (simp_all add: lvm_mangle_def)
qed

lemma vg_symlink_mapper: "vg_symlink (mapper_prefix @ n) = None"
  by (simp add: vg_symlink_def mapper_prefix_def strip_prefix_def starts_with_def slash_def)

text \<open>The volume group is read back from both names LVM gives a volume: from \<open>/dev/<vg>/<lv>\<close>,
  and from the mapper node with every dash doubled, for names that LVM allows (not empty, the
  logical volume not starting with a dash).\<close>

theorem volume_group_reads_back:
  assumes "vg \<noteq> []" "slash \<notin> set vg" "vg \<noteq> ''mapper''" "lv \<noteq> []" "hd lv \<noteq> CHR ''-''"
    and "valid_utf8 (mapper_prefix @ lvm_mangle vg @ ''-'' @ lvm_mangle lv)"
    and "valid_utf8 (''/dev/'' @ vg @ slash # lv)"
  shows "vg_of (mapper_prefix @ lvm_mangle vg @ ''-'' @ lvm_mangle lv) = Some vg
    \<and> vg_of (''/dev/'' @ vg @ slash # lv) = Some vg"
proof
  have "hd (lvm_mangle lv) \<noteq> CHR ''-''" using assms(4,5) by (cases lv) (auto simp: lvm_mangle_def)
  then have "vg_from_mangled (lvm_mangle vg @ ''-'' @ lvm_mangle lv) = Some vg"
    using vg_scan_mangled [of "[]" vg "lvm_mangle lv"] assms(1) by (simp add: vg_from_mangled_def)
  then show "vg_of (mapper_prefix @ lvm_mangle vg @ ''-'' @ lvm_mangle lv) = Some vg"
    using assms(6) by (simp add: vg_of_def vg_symlink_mapper)
  have "strip_prefix ''/dev/'' (''/dev/'' @ vg @ slash # lv) = Some (vg @ slash # lv)"
    by (rule strip_prefix_append)
  then show "vg_of (''/dev/'' @ vg @ slash # lv) = Some vg"
    using assms by (simp add: vg_of_def vg_symlink_def split_once_append)
qed

theorem volume_group_reads_back_witness:
  "vg_of ''/dev/mapper/my--vg-root'' = Some ''my-vg'' \<and> vg_of ''/dev/my-vg/root'' = Some ''my-vg''"
proof -
  have v: "valid_utf8 ''/dev/mapper/my--vg-root''" "valid_utf8 ''/dev/my-vg/root''"
    by (rule valid_utf8_ascii, force simp: is_ascii_def ord_def)+
  have e: "mapper_prefix @ lvm_mangle ''my-vg'' @ ''-'' @ lvm_mangle ''root'' = ''/dev/mapper/my--vg-root''"
    "''/dev/'' @ ''my-vg'' @ slash # ''root'' = ''/dev/my-vg/root''"
    by (simp_all add: mapper_prefix_def lvm_mangle_def slash_def)
  have n: "slash \<notin> set ''my-vg''" by (simp add: slash_def)
  show ?thesis
    using volume_group_reads_back [of "''my-vg''" "''root''"] v n unfolding e by simp
qed

subsection \<open>Where the guard promises more than it does\<close>

text \<open>A by-id node of a volume group gives a command for a group of the name \<open>disk\<close>, and hides a
  produced device that would have named the real group.\<close>

lemma by_id_node_names_no_group:
  "relock_argv (demo_luks\<lparr>act_kind := Lvm, act_produces := [''/dev/disk/by-id/dm-1'', ''/dev/vg0/root'']\<rparr>) =
     Some \<lparr>rl_binary = ''vgchange'', rl_argv = [''-an'', ''disk''],
       rl_label = ''LVM volume group disk'', rl_absent_exit_code = 0\<rparr>"
proof -
  have "valid_utf8 ''/dev/disk/by-id/dm-1''"
    by (rule valid_utf8_ascii) (force simp: is_ascii_def ord_def)
  then show ?thesis
    by (simp add: relock_argv_def lvm_relock_def vg_of_def vg_symlink_def strip_prefix_def starts_with_def
        slash_def)
qed

text \<open>A rewrite that is torn after its truncation forgets a mapper that is still open.\<close>

lemma torn_rewrite_forgets:
  assumes "w_rewrite w (trace s) = Torn 0" "reg_mappers s = []"
    and "reg_file s = Some (render_registry [demo_entry, demo_entry\<lparr>me_name := ''data''\<rparr>])"
    and "w_readable w (trace s)"
  shows "reg_file (mark_closed w ''root'' s) = Some []"
proof -
  have clean: "\<forall>e\<in>set [demo_entry, demo_entry\<lparr>me_name := ''data''\<rparr>]. clean_entry e"
    by (simp add: clean_entry_def demo_entry_def is_ascii_def is_graphic_def ord_def tab_def newline_def)
  show ?thesis
    using assms parse_render_registry [OF clean] valid_render_registry [OF clean]
    by (simp add: mark_closed_def persist_remove_def read_registry_def rewrite_persist_def demo_entry_def)
qed

definition late_tpm :: "events \<Rightarrow> cap_outcome" where
  "late_tpm tr = (if Ev_Shell \<in> set tr then Capped else No_Tpm)"

definition late_boot :: seal_state where
  "late_boot = foldl (seal_step (demo_world late_tpm) demo_seal_config) (fresh_state (\<lambda>_. False))
     [Do_Shell, Do_Activate 0, Do_Shell]"

lemma late_boot_trace:
  "trace late_boot =
     [Ev_Cap No_Tpm, Ev_Shell, Ev_Activate Luks_Tpm ''/bin/cryptsetup'' (act_argv demo_luks) (Inr 0),
      Ev_Run ''/bin/cryptsetup'' [''close'', ''root''] (Inr 0), Ev_Shell]"
proof -
  let ?w = "demo_world late_tpm"
  let ?s1 = "\<lparr>reg_mappers = [], reg_file = None, cap_latch = True, boot_files = \<lambda>_. False,
    trace = [Ev_Cap No_Tpm, Ev_Shell]\<rparr>"
  have "persist_load ?w (fresh_state f\<lparr>cap_latch := b, trace := tr\<rparr>) = []" for f b tr
    by (simp add: persist_load_def read_registry_def fresh_state_def)
  then have 1: "seal_step ?w demo_seal_config (fresh_state (\<lambda>_. False)) Do_Shell = ?s1"
    by (simp add: seal_step_def emergency_shell_def seal_secrets_def seal_with_def latched_cap_def
        cap_step_def Let_def fresh_state_def late_tpm_def demo_seal_config_def close_all_def
        mapper_snapshot_def emit_def)
  let ?s2 = "seal_step ?w demo_seal_config ?s1 (Do_Activate 0)"
  have 2: "?s2 = \<lparr>reg_mappers = [demo_entry], reg_file = Some (persist_line demo_entry), cap_latch = True,
      boot_files = \<lambda>_. False, trace = [Ev_Cap No_Tpm, Ev_Shell,
        Ev_Activate Luks_Tpm ''/bin/cryptsetup'' (act_argv demo_luks) (Inr 0)]\<rparr>"
    by (simp add: demo_activate)
  have "late_boot = seal_step ?w demo_seal_config ?s2 Do_Shell" by (simp add: late_boot_def 1)
  then have "late_boot = emit Ev_Shell \<lparr>reg_mappers = [], reg_file = None, cap_latch = True,
      boot_files = \<lambda>_. False, trace = [Ev_Cap No_Tpm, Ev_Shell,
        Ev_Activate Luks_Tpm ''/bin/cryptsetup'' (act_argv demo_luks) (Inr 0),
        Ev_Run ''/bin/cryptsetup'' [''close'', ''root''] (Inr 0)]\<rparr>"
    unfolding 2 by (simp add: seal_step_def emergency_shell_def seal_secrets_def seal_with_def
        latched_cap_def demo_close)
  from arg_cong [OF this, of trace] show ?thesis by (simp add: emit_def)
qed

text \<open>The latch also closes when there is no TPM. So in one boot, with \<open>secure_boot.require_tpm\<close>
  set (which only the refusal reads): a first shell starts without a TPM; the TPM appears and
  unseals a volume; and the next shell starts with the lock PCR never capped, although the TPM
  would now accept the cap.\<close>

theorem late_tpm_is_never_capped:
  "reached (demo_world late_tpm) demo_seal_config False late_boot
   \<and> refuse_require_tpm demo_seal_config
   \<and> late_tpm (trace late_boot) = Capped
   \<and> Ev_Cap Capped \<notin> set (trace late_boot)
   \<and> last (trace late_boot) = Ev_Shell
   \<and> (\<exists>ev\<in>set (trace late_boot). opened_by ev = Some ''root'')"
proof -
  have "reached (demo_world late_tpm) demo_seal_config False late_boot"
    unfolding late_boot_def by (simp del: foldl_Cons foldl_Nil add: foldl.simps) (intro reached.intros; simp)
  then show ?thesis
    by (simp add: late_boot_trace late_tpm_def refuse_require_tpm_def demo_names is_activation_success_def)
      (simp add: demo_seal_config_def)
qed

end
