(* ===== verification/Tpm.thy ===== *)
theory Tpm
  imports Signatures Seal_Policy
begin

text \<open>
  The TPM: the transport over the device node (\<open>tpm/transport.rs\<close>), the commands with the check of
  the response code (\<open>tpm/commands.rs\<close>), the cap of the lock PCR that \<^theory_text>\<open>Seal_Policy\<close> takes as an
  answer, the measurement of the handoff (\<open>tpm/measure.rs\<close>) and the state of Secure Boot
  (\<open>tpm/sbstate.rs\<close>). A device is a pair of functions on its own state, what \<open>read\<close> and \<open>write\<close>
  answer; the loops run for as long as the device interrupts them, so they are partial. The
  marshaling is the crate \<open>tpm2-protocol\<close>, a parameter.
\<close>

subsection \<open>The transport\<close>

datatype io_write = Wrote nat | Write_Intr | Write_Err string

datatype io_read = Read_Got bytes | Read_Intr | Read_Err string

record 'd tpm_device =
  dev_write :: "bytes \<Rightarrow> 'd \<Rightarrow> io_write \<times> 'd"
  dev_read :: "nat \<Rightarrow> 'd \<Rightarrow> io_read \<times> 'd"

datatype tpm_error =
    Tpm_Io string string
  | Tpm_Proto string

definition MAX_RESPONSE :: nat where
  "MAX_RESPONSE = 4096"

definition TPM_HEADER_LEN :: nat where
  "TPM_HEADER_LEN = 10"

definition SIZE_OFFSET :: nat where
  "SIZE_OFFSET = 2"

text \<open>\<open>read(2)\<close> never gives more bytes than it is asked for.\<close>

definition sys_read :: "'d tpm_device \<Rightarrow> nat \<Rightarrow> 'd \<Rightarrow> io_read \<times> 'd" where
  "sys_read dv n d =
     (case dev_read dv n d of
        (Read_Got bs, d') \<Rightarrow> (Read_Got (take n bs), d')
      | (Read_Intr, d') \<Rightarrow> (Read_Intr, d')
      | (Read_Err e, d') \<Rightarrow> (Read_Err e, d'))"

partial_function (option) tpm_write_all ::
  "'d tpm_device \<Rightarrow> bytes \<Rightarrow> 'd \<Rightarrow> ((tpm_error + unit) \<times> 'd) option" where
  "tpm_write_all dv bs d =
     (if bs = [] then Some (Inr (), d)
      else case dev_write dv bs d of
        (Wrote n, d') \<Rightarrow>
          if n = 0 then Some (Inl (Tpm_Proto ''write(tpm command) returned 0''), d')
          else if length bs < n then Some (Inl (Tpm_Proto ''write(tpm command) returned too much''), d')
          else tpm_write_all dv (drop n bs) d'
      | (Write_Intr, d') \<Rightarrow> tpm_write_all dv bs d'
      | (Write_Err e, d') \<Rightarrow> Some (Inl (Tpm_Io ''write(tpm command)'' e), d'))"

text \<open>\<open>filled\<close> is the part of the buffer read so far, \<open>want\<close> its full length.\<close>

partial_function (option) tpm_read_exact ::
  "'d tpm_device \<Rightarrow> nat \<Rightarrow> bytes \<Rightarrow> 'd \<Rightarrow> ((tpm_error + bytes) \<times> 'd) option" where
  "tpm_read_exact dv want filled d =
     (if want \<le> length filled then Some (Inr filled, d)
      else case sys_read dv (want - length filled) d of
        (Read_Got bs, d') \<Rightarrow>
          if bs = [] then Some (Inl (Tpm_Proto ''read(tpm response) hit EOF''), d')
          else tpm_read_exact dv want (filled @ bs) d'
      | (Read_Intr, d') \<Rightarrow> tpm_read_exact dv want filled d'
      | (Read_Err e, d') \<Rightarrow> Some (Inl (Tpm_Io ''read(tpm response)'' e), d'))"

definition be_value :: "bytes \<Rightarrow> nat" where
  "be_value bs = fold (\<lambda>c n. n * 256 + ord c) bs 0"

definition be32 :: "nat \<Rightarrow> bytes" where
  "be32 n = [byte (n div 16777216), byte (n div 65536), byte (n div 256), byte n]"

definition frame_size :: "bytes \<Rightarrow> nat" where
  "frame_size frame = be_value (take 4 (drop SIZE_OFFSET frame))"

definition read_frame ::
  "'d tpm_device \<Rightarrow> 'd \<Rightarrow> ((tpm_error + bytes) \<times> 'd) option" where
  "read_frame dv d =
     (case tpm_read_exact dv TPM_HEADER_LEN [] d of
        None \<Rightarrow> None
      | Some (Inl e, d1) \<Rightarrow> Some (Inl e, d1)
      | Some (Inr header, d1) \<Rightarrow>
          (let total = frame_size header in
           if total < TPM_HEADER_LEN then Some (Inl (Tpm_Proto ''response size field < header length''), d1)
           else if MAX_RESPONSE < total then Some (Inl (Tpm_Proto ''response size field > max''), d1)
           else case tpm_read_exact dv (total - TPM_HEADER_LEN) [] d1 of
               None \<Rightarrow> None
             | Some (Inl e, d2) \<Rightarrow> Some (Inl e, d2)
             | Some (Inr body, d2) \<Rightarrow> Some (Inr (header @ body), d2)))"

definition tpm_transact ::
  "'d tpm_device \<Rightarrow> bytes \<Rightarrow> 'd \<Rightarrow> ((tpm_error + bytes) \<times> 'd) option" where
  "tpm_transact dv command d =
     (case tpm_write_all dv command d of
        None \<Rightarrow> None
      | Some (Inl e, d1) \<Rightarrow> Some (Inl e, d1)
      | Some (Inr _, d1) \<Rightarrow> read_frame dv d1)"

subsection \<open>The commands\<close>

datatype command_code = Pcr_Extend | Pcr_Read

datatype response_body = Extend_Body | Read_Body "bytes list" | Other_Body

text \<open>
  The crate \<open>tpm2-protocol\<close>: frames for the two commands, and the reading of a response, which
  is malformed, or well-formed with a response code that is no success, or a body.
\<close>

record tpm_codec =
  tc_digest_fits :: "bytes \<Rightarrow> bool"
  tc_extend :: "nat \<Rightarrow> bytes \<Rightarrow> bytes option"
  tc_read :: "nat \<Rightarrow> bytes \<Rightarrow> bytes option"
  tc_response :: "command_code \<Rightarrow> bytes \<Rightarrow> (nat + response_body) option"

definition COMMAND_SCRATCH :: nat where
  "COMMAND_SCRATCH = 512"

text \<open>A frame that does not fit the scratch buffer does not marshal.\<close>

definition marshal :: "bytes option \<Rightarrow> tpm_error + bytes" where
  "marshal frame =
     (case frame of
        None \<Rightarrow> Inl (Tpm_Proto ''marshal command'')
      | Some bs \<Rightarrow>
          if length bs \<le> COMMAND_SCRATCH then Inr bs else Inl (Tpm_Proto ''marshal command''))"

definition parse_checked_response ::
  "tpm_codec \<Rightarrow> command_code \<Rightarrow> bytes \<Rightarrow> tpm_error + response_body" where
  "parse_checked_response tc cc response =
     (case tc_response tc cc response of
        None \<Rightarrow> Inl (Tpm_Proto ''unmarshal response'')
      | Some (Inl rc) \<Rightarrow> Inl (Tpm_Proto ''tpm response code'')
      | Some (Inr body) \<Rightarrow> Inr body)"

definition transact_checked ::
  "tpm_codec \<Rightarrow> 'd tpm_device \<Rightarrow> command_code \<Rightarrow> bytes \<Rightarrow> 'd
    \<Rightarrow> ((tpm_error + response_body) \<times> 'd) option" where
  "transact_checked tc dv cc request d =
     (case tpm_transact dv request d of
        None \<Rightarrow> None
      | Some (Inl e, d1) \<Rightarrow> Some (Inl e, d1)
      | Some (Inr response, d1) \<Rightarrow> Some (parse_checked_response tc cc response, d1))"

definition sha256_digest :: "tpm_codec \<Rightarrow> bytes \<Rightarrow> tpm_error + bytes" where
  "sha256_digest tc digest =
     (if tc_digest_fits tc digest then Inr digest
      else Inl (Tpm_Proto ''digest length exceeds TPM digest buffer''))"

definition build_pcr_extend_request :: "tpm_codec \<Rightarrow> nat \<Rightarrow> bytes \<Rightarrow> tpm_error + bytes" where
  "build_pcr_extend_request tc pcr digest =
     rbind (sha256_digest tc digest) (\<lambda>ha. marshal (tc_extend tc pcr ha))"

definition pcr_extend ::
  "tpm_codec \<Rightarrow> 'd tpm_device \<Rightarrow> nat \<Rightarrow> bytes \<Rightarrow> 'd \<Rightarrow> ((tpm_error + unit) \<times> 'd) option" where
  "pcr_extend tc dv pcr digest d =
     (case build_pcr_extend_request tc pcr digest of
        Inl e \<Rightarrow> Some (Inl e, d)
      | Inr request \<Rightarrow>
          (case transact_checked tc dv Pcr_Extend request d of
             None \<Rightarrow> None
           | Some (Inl e, d1) \<Rightarrow> Some (Inl e, d1)
           | Some (Inr body, d1) \<Rightarrow>
               Some (if body = Extend_Body then Inr ()
                     else Inl (Tpm_Proto ''unexpected response body for PcrExtend''), d1)))"

text \<open>The bitmap that selects one PCR: as many bytes as cover it, one bit set.\<close>

definition pcr_bitmap :: "nat \<Rightarrow> bytes" where
  "pcr_bitmap pcr = (replicate (pcr div 8 + 1) (byte 0))[pcr div 8 := byte (2 ^ (pcr mod 8))]"

definition build_pcr_read_request :: "tpm_codec \<Rightarrow> nat \<Rightarrow> tpm_error + bytes" where
  "build_pcr_read_request tc pcr = marshal (tc_read tc pcr (pcr_bitmap pcr))"

definition pcr_read ::
  "tpm_codec \<Rightarrow> 'd tpm_device \<Rightarrow> nat \<Rightarrow> 'd \<Rightarrow> ((tpm_error + bytes) \<times> 'd) option" where
  "pcr_read tc dv pcr d =
     (case build_pcr_read_request tc pcr of
        Inl e \<Rightarrow> Some (Inl e, d)
      | Inr request \<Rightarrow>
          (case transact_checked tc dv Pcr_Read request d of
             None \<Rightarrow> None
           | Some (Inl e, d1) \<Rightarrow> Some (Inl e, d1)
           | Some (Inr (Read_Body values), d1) \<Rightarrow> Some (Inr (concat values), d1)
           | Some (Inr _, d1) \<Rightarrow> Some (Inl (Tpm_Proto ''unexpected response body for PcrRead''), d1)))"

subsection \<open>The cap\<close>

definition LOCK_PCR :: nat where
  "LOCK_PCR = 11"

definition RELOCK_POISON :: bytes where
  "RELOCK_POISON = map byte
    [0x38, 0x97, 0x99, 0x4c, 0x99, 0xb8, 0x5d, 0x89, 0xd0, 0x98, 0xf4, 0xe5, 0x48, 0x05, 0x9f, 0x43,
     0xe2, 0x34, 0xa1, 0xd1, 0x6d, 0xf2, 0xa5, 0xcf, 0x72, 0x2f, 0x3b, 0x4b, 0xea, 0x35, 0xa0, 0x1b]"

definition tpm_reason :: "tpm_error \<Rightarrow> string" where
  "tpm_reason e = (case e of Tpm_Io ctx msg \<Rightarrow> msg | Tpm_Proto msg \<Rightarrow> msg)"

text \<open>\<open>present\<close> is whether the sysfs class node of the TPM exists, \<open>opened\<close> what opening its device gives.\<close>

definition tpm_present :: "(string \<Rightarrow> bool) \<Rightarrow> bool" where
  "tpm_present node_exists = node_exists ''/sys/class/tpm/tpm0''"

definition cap_pcr_outcome ::
  "(string \<Rightarrow> bool) \<Rightarrow> tpm_codec \<Rightarrow> (tpm_error + 'd tpm_device) \<Rightarrow> nat \<Rightarrow> bytes \<Rightarrow> 'd
    \<Rightarrow> (cap_outcome \<times> 'd) option" where
  "cap_pcr_outcome node_exists tc opened pcr poison d =
     (if \<not> tpm_present node_exists then Some (No_Tpm, d)
      else case opened of
        Inl e \<Rightarrow> Some (Cap_Fault (tpm_reason e), d)
      | Inr dv \<Rightarrow>
          (case pcr_extend tc dv pcr poison d of
             None \<Rightarrow> None
           | Some (Inr _, d1) \<Rightarrow> Some (Capped, d1)
           | Some (Inl e, d1) \<Rightarrow> Some (Cap_Fault (tpm_reason e), d1)))"

definition cap_pcr ::
  "(string \<Rightarrow> bool) \<Rightarrow> tpm_codec \<Rightarrow> (tpm_error + 'd tpm_device) \<Rightarrow> nat \<Rightarrow> bytes \<Rightarrow> 'd
    \<Rightarrow> ((string + unit) \<times> 'd) option" where
  "cap_pcr node_exists tc opened pcr poison d =
     map_option (\<lambda>(outcome, d1). (case outcome of Cap_Fault e \<Rightarrow> Inl e | _ \<Rightarrow> Inr (), d1))
       (cap_pcr_outcome node_exists tc opened pcr poison d)"

definition cap_lock_pcr ::
  "(string \<Rightarrow> bool) \<Rightarrow> tpm_codec \<Rightarrow> (tpm_error + 'd tpm_device) \<Rightarrow> 'd \<Rightarrow> (cap_outcome \<times> 'd) option" where
  "cap_lock_pcr node_exists tc opened = cap_pcr_outcome node_exists tc opened LOCK_PCR RELOCK_POISON"

subsection \<open>The measured handoff\<close>

record driver_image_ref =
  di_name :: string
  di_digest :: bytes

definition EV_IDENTITY :: bytes where "EV_IDENTITY = ''nmbl:measure:identity:v1''"
definition EV_KERNEL :: bytes where "EV_KERNEL = ''nmbl:measure:kernel:v1''"
definition EV_INITRD :: bytes where "EV_INITRD = ''nmbl:measure:initrd:v1''"
definition EV_CMDLINE :: bytes where "EV_CMDLINE = ''nmbl:measure:cmdline:v1''"
definition EV_DRIVER_IMAGE :: bytes where "EV_DRIVER_IMAGE = ''nmbl:measure:driver-image:v1''"

text \<open>What an event hashes; the code feeds the three parts to the hasher one after the other.\<close>

definition event_input :: "bytes \<Rightarrow> bytes \<Rightarrow> bytes" where
  "event_input domain body = domain @ [byte 0] @ body"

definition event_digest :: "(bytes \<Rightarrow> bytes) \<Rightarrow> bytes \<Rightarrow> bytes \<Rightarrow> bytes" where
  "event_digest sha domain body = sha (event_input domain body)"

definition image_body :: "driver_image_ref \<Rightarrow> bytes" where
  "image_body img = be32 (min (length (di_name img)) u32_max) @ di_name img @ di_digest img"

definition handoff_inputs :: "bytes \<Rightarrow> bytes \<Rightarrow> string \<Rightarrow> driver_image_ref list \<Rightarrow> bytes list" where
  "handoff_inputs kernel_dig initrd_dig cmdline imgs =
     [event_input EV_IDENTITY [], event_input EV_KERNEL kernel_dig, event_input EV_INITRD initrd_dig,
      event_input EV_CMDLINE cmdline]
     @ map (\<lambda>img. event_input EV_DRIVER_IMAGE (image_body img)) imgs"

definition handoff_events ::
  "(bytes \<Rightarrow> bytes) \<Rightarrow> bytes \<Rightarrow> bytes \<Rightarrow> string \<Rightarrow> driver_image_ref list \<Rightarrow> bytes list" where
  "handoff_events sha kernel_dig initrd_dig cmdline imgs =
     [event_digest sha EV_IDENTITY [], event_digest sha EV_KERNEL kernel_dig,
      event_digest sha EV_INITRD initrd_dig, event_digest sha EV_CMDLINE cmdline]
     @ map (\<lambda>img. event_digest sha EV_DRIVER_IMAGE (image_body img)) imgs"

definition zero_pcr :: bytes where
  "zero_pcr = replicate 32 (byte 0)"

definition replay_pcr :: "(bytes \<Rightarrow> bytes) \<Rightarrow> bytes list \<Rightarrow> bytes" where
  "replay_pcr sha events = foldl (\<lambda>pcr event. sha (pcr @ event)) zero_pcr events"

definition predict_handoff_pcr ::
  "(bytes \<Rightarrow> bytes) \<Rightarrow> bytes \<Rightarrow> bytes \<Rightarrow> string \<Rightarrow> driver_image_ref list \<Rightarrow> bytes" where
  "predict_handoff_pcr sha kernel_dig initrd_dig cmdline imgs =
     replay_pcr sha (handoff_events sha kernel_dig initrd_dig cmdline imgs)"

fun extend_events ::
  "tpm_codec \<Rightarrow> 'd tpm_device \<Rightarrow> bytes list \<Rightarrow> 'd \<Rightarrow> ((tpm_error + unit) \<times> 'd) option" where
  "extend_events tc dv [] d = Some (Inr (), d)"
| "extend_events tc dv (ev # evs) d =
     (case pcr_extend tc dv LOCK_PCR ev d of
        None \<Rightarrow> None
      | Some (Inl e, d1) \<Rightarrow> Some (Inl e, d1)
      | Some (Inr _, d1) \<Rightarrow> extend_events tc dv evs d1)"

definition extend_handoff ::
  "(bytes \<Rightarrow> bytes) \<Rightarrow> tpm_codec \<Rightarrow> (tpm_error + 'd tpm_device) \<Rightarrow> bytes \<Rightarrow> bytes \<Rightarrow> string
    \<Rightarrow> driver_image_ref list \<Rightarrow> 'd \<Rightarrow> ((tpm_error + unit) \<times> 'd) option" where
  "extend_handoff sha tc opened kernel_dig initrd_dig cmdline imgs d =
     (case opened of
        Inl e \<Rightarrow> Some (Inl e, d)
      | Inr dv \<Rightarrow> extend_events tc dv (handoff_events sha kernel_dig initrd_dig cmdline imgs) d)"

subsection \<open>The state of Secure Boot\<close>

datatype sb_efi_state = Sb_Enabled | Sb_Disabled | Sb_Unreadable

datatype sb_action = Sb_Proceed | Sb_Warn | Sb_Refuse

definition EFIVARS_DIR :: string where
  "EFIVARS_DIR = ''/sys/firmware/efi/efivars''"

definition EFI_GLOBAL_GUID :: string where
  "EFI_GLOBAL_GUID = ''8be4df61-93ca-11d2-aa0d-00e098032b8c''"

definition EFIVAR_ATTR_LEN :: nat where
  "EFIVAR_ATTR_LEN = 4"

definition secure_boot_var_path :: "string \<Rightarrow> string" where
  "secure_boot_var_path root = path_join root (''SecureBoot-'' @ EFI_GLOBAL_GUID)"

text \<open>\<open>read\<close> is what reading a file gives, \<open>None\<close> for any failure.\<close>

definition read_secure_boot_efivar_at :: "(string \<Rightarrow> bytes option) \<Rightarrow> string \<Rightarrow> sb_efi_state" where
  "read_secure_boot_efivar_at read root =
     (case read (secure_boot_var_path root) of
        None \<Rightarrow> Sb_Unreadable
      | Some bs \<Rightarrow>
          (case get_at bs EFIVAR_ATTR_LEN of
             None \<Rightarrow> Sb_Unreadable
           | Some c \<Rightarrow> if ord c = 0 then Sb_Disabled else if ord c = 1 then Sb_Enabled else Sb_Unreadable))"

definition read_secure_boot_efivar :: "(string \<Rightarrow> bytes option) \<Rightarrow> sb_efi_state" where
  "read_secure_boot_efivar read = read_secure_boot_efivar_at read EFIVARS_DIR"

definition SB_STATE_PCR :: nat where
  "SB_STATE_PCR = 7"

definition read_pcr7 ::
  "(string \<Rightarrow> bool) \<Rightarrow> tpm_codec \<Rightarrow> (tpm_error + 'd tpm_device) \<Rightarrow> 'd \<Rightarrow> (bytes option \<times> 'd) option" where
  "read_pcr7 node_exists tc opened d =
     (if \<not> tpm_present node_exists then Some (None, d)
      else case opened of
        Inl e \<Rightarrow> Some (None, d)
      | Inr dv \<Rightarrow>
          (case pcr_read tc dv SB_STATE_PCR d of
             None \<Rightarrow> None
           | Some (Inr v, d1) \<Rightarrow> Some (if v \<noteq> [] then Some v else None, d1)
           | Some (Inl e, d1) \<Rightarrow> Some (None, d1)))"

definition decide_sb_action :: "sb_efi_state \<Rightarrow> bool \<Rightarrow> sb_action" where
  "decide_sb_action state enforce =
     (case state of
        Sb_Enabled \<Rightarrow> Sb_Proceed
      | Sb_Disabled \<Rightarrow> if enforce then Sb_Refuse else Sb_Warn
      | Sb_Unreadable \<Rightarrow> Sb_Warn)"

text \<open>The gate reads PCR 7 only for the log.\<close>

definition enforce_secure_boot_state ::
  "(string \<Rightarrow> bytes option) \<Rightarrow> (string \<Rightarrow> bool) \<Rightarrow> tpm_codec \<Rightarrow> (tpm_error + 'd tpm_device) \<Rightarrow> bool \<Rightarrow> 'd
    \<Rightarrow> ((sig_error + unit) \<times> 'd) option" where
  "enforce_secure_boot_state read node_exists tc opened enforce d =
     (let state = read_secure_boot_efivar read in
      case read_pcr7 node_exists tc opened d of
        None \<Rightarrow> None
      | Some (pcr7, d1) \<Rightarrow>
          Some (case decide_sb_action state enforce of
                  Sb_Proceed \<Rightarrow> Inr ()
                | Sb_Warn \<Rightarrow> Inr ()
                | Sb_Refuse \<Rightarrow> Inl (Sig_Error ''secure-boot-state''), d1))"

subsection \<open>The transport reads one frame\<close>

lemma sys_read_length: "sys_read dv n d = (Read_Got bs, d') \<Longrightarrow> length bs \<le> n"
  by (auto simp: sys_read_def split: prod.splits io_read.splits)

lemma read_exact_length:
  assumes "tpm_read_exact dv want filled d = Some (Inr out, d')" "length filled \<le> want"
  shows "length out = want"
proof -
  have "\<forall>out d'. r = (Inr out, d') \<longrightarrow> length filled \<le> want \<longrightarrow> length out = want"
    if "tpm_read_exact dv want filled d = Some r" for r
  proof (rule tpm_read_exact.raw_induct
      [of "\<lambda>dv want filled d r. \<forall>out d'. r = (Inr out, d') \<longrightarrow> length filled \<le> want \<longrightarrow> length out = want",
        OF _ that], intro allI impI)
    fix rec :: "'a tpm_device \<Rightarrow> nat \<Rightarrow> bytes \<Rightarrow> 'a \<Rightarrow> ((tpm_error + bytes) \<times> 'a) option"
    fix dv want filled d r out d'
    assume IH: "\<And>dv want filled d r. rec dv want filled d = Some r \<Longrightarrow>
        \<forall>out d'. r = (Inr out, d') \<longrightarrow> length filled \<le> want \<longrightarrow> length out = want"
      and eq: "(if want \<le> length filled then Some (Inr filled, d)
        else case sys_read dv (want - length filled) d of
          (Read_Got bs, d') \<Rightarrow>
            if bs = [] then Some (Inl (Tpm_Proto ''read(tpm response) hit EOF''), d')
            else rec dv want (filled @ bs) d'
        | (Read_Intr, d') \<Rightarrow> rec dv want filled d'
        | (Read_Err e, d') \<Rightarrow> Some (Inl (Tpm_Io ''read(tpm response)'' e), d')) = Some r"
      and r: "r = (Inr out, d')" and le: "length filled \<le> want"
    show "length out = want"
    proof (cases "want \<le> length filled")
      case True
      with eq r le show ?thesis by simp
    next
      case False
      obtain res d1 where R: "sys_read dv (want - length filled) d = (res, d1)" by fastforce
      show ?thesis
      proof (cases res)
        case (Read_Got bs)
        with sys_read_length R False have "length (filled @ bs) \<le> want" by fastforce
        moreover have "rec dv want (filled @ bs) d1 = Some r"
          using eq False R Read_Got r by (simp split: if_splits)
        ultimately show ?thesis using IH r by blast
      next
        case Read_Intr
        then have "rec dv want filled d1 = Some r" using eq False R by simp
        then show ?thesis using IH r le by blast
      next
        case (Read_Err e)
        then show ?thesis using eq False R r by simp
      qed
    qed
  qed
  with assms show ?thesis by blast
qed

lemma take_offset: "length h = TPM_HEADER_LEN \<Longrightarrow> frame_size (h @ body) = frame_size h"
  by (simp add: frame_size_def TPM_HEADER_LEN_def SIZE_OFFSET_def)

lemma read_frame_sized:
  assumes "read_frame dv d = Some (Inr frame, d')"
  shows "length frame = frame_size frame \<and> TPM_HEADER_LEN \<le> length frame \<and> length frame \<le> MAX_RESPONSE"
proof -
  from assms obtain header d1 where h: "tpm_read_exact dv TPM_HEADER_LEN [] d = Some (Inr header, d1)"
    by (auto simp: read_frame_def split: option.splits sum.splits)
  from read_exact_length [OF h] have lh: "length header = TPM_HEADER_LEN" by simp
  from assms h have sz: "TPM_HEADER_LEN \<le> frame_size header" "frame_size header \<le> MAX_RESPONSE"
    by (auto simp: read_frame_def Let_def split: if_splits)
  with assms h obtain body where
    b: "tpm_read_exact dv (frame_size header - TPM_HEADER_LEN) [] d1 = Some (Inr body, d')"
      "frame = header @ body"
    by (auto simp: read_frame_def Let_def split: if_splits option.splits sum.splits)
  from read_exact_length [OF b(1)] lh sz b(2) show ?thesis
    by (simp add: take_offset)
qed

text \<open>
  A device that gives a stream of bytes in whatever pieces and after whatever interrupts a plan
  says; when the plan is over it gives all it is asked for.
\<close>

datatype chunk = Interrupt | Deliver nat

record script =
  sc_stream :: bytes
  sc_plan :: "chunk list"
  sc_received :: bytes

definition scripted :: "script tpm_device" where
  "scripted = \<lparr>
     dev_write = (\<lambda>bs s. case sc_plan s of
         [] \<Rightarrow> (Wrote (length bs), s\<lparr>sc_received := sc_received s @ bs\<rparr>)
       | Interrupt # p \<Rightarrow> (Write_Intr, s\<lparr>sc_plan := p\<rparr>)
       | Deliver k # p \<Rightarrow>
           (let n = min (length bs) (Suc k)
            in (Wrote n, s\<lparr>sc_plan := p, sc_received := sc_received s @ take n bs\<rparr>))),
     dev_read = (\<lambda>n s. case sc_plan s of
         [] \<Rightarrow> (Read_Got (take n (sc_stream s)), s\<lparr>sc_stream := drop n (sc_stream s)\<rparr>)
       | Interrupt # p \<Rightarrow> (Read_Intr, s\<lparr>sc_plan := p\<rparr>)
       | Deliver k # p \<Rightarrow>
           (let m = min n (Suc k)
            in (Read_Got (take m (sc_stream s)), s\<lparr>sc_plan := p, sc_stream := drop m (sc_stream s)\<rparr>)))\<rparr>"

lemma write_all_scripted:
  "\<exists>p. tpm_write_all scripted bs s = Some (Inr (), s\<lparr>sc_plan := p, sc_received := sc_received s @ bs\<rparr>)"
proof (induction "length (sc_plan s) + length bs" arbitrary: bs s rule: less_induct)
  case less
  show ?case
  proof (cases "bs = []")
    case True
    then show ?thesis by (intro exI [of _ "sc_plan s"]) (simp add: tpm_write_all.simps)
  next
    case False
    show ?thesis
    proof (cases "sc_plan s")
      case Nil
      then show ?thesis
        using False by (intro exI [of _ "[]"])
          (simp add: tpm_write_all.simps [of _ bs] tpm_write_all.simps [of _ "[]"] scripted_def)
    next
      case (Cons c p)
      show ?thesis
      proof (cases c)
        case Interrupt
        from less [of "s\<lparr>sc_plan := p\<rparr>" bs] Cons obtain q where
          "tpm_write_all scripted bs (s\<lparr>sc_plan := p\<rparr>) =
             Some (Inr (), s\<lparr>sc_plan := q, sc_received := sc_received s @ bs\<rparr>)" by auto
        then show ?thesis
          using False Cons Interrupt by (intro exI [of _ q])
            (subst tpm_write_all.simps, simp add: scripted_def)
      next
        case (Deliver k)
        obtain n where n: "n = min (length bs) (Suc k)" "0 < n" "n \<le> length bs" using False by auto
        let ?s = "s\<lparr>sc_plan := p, sc_received := sc_received s @ take n bs\<rparr>"
        have lt: "length (sc_plan ?s) + length (drop n bs) < length (sc_plan s) + length bs"
          using Cons by simp
        obtain q where
          "tpm_write_all scripted (drop n bs) ?s = Some (Inr (), s\<lparr>sc_plan := q, sc_received := sc_received s @ bs\<rparr>)"
          using less.hyps [OF lt] by auto
        moreover have "dev_write scripted bs s = (Wrote n, ?s)"
          using Cons Deliver n(1) by (simp add: scripted_def Let_def)
        ultimately show ?thesis
          using False n(2,3) by (intro exI [of _ q]) (subst tpm_write_all.simps, simp)
      qed
    qed
  qed
qed

lemma read_exact_scripted:
  "length filled \<le> want \<Longrightarrow> want - length filled \<le> length (sc_stream s) \<Longrightarrow>
   \<exists>p. tpm_read_exact scripted want filled s =
     Some (Inr (filled @ take (want - length filled) (sc_stream s)),
       s\<lparr>sc_plan := p, sc_stream := drop (want - length filled) (sc_stream s)\<rparr>)"
proof (induction "length (sc_plan s) + (want - length filled)" arbitrary: filled s rule: less_induct)
  case less
  let ?m = "want - length filled"
  show ?case
  proof (cases "want \<le> length filled")
    case True
    with less.prems show ?thesis
      by (intro exI [of _ "sc_plan s"]) (simp add: tpm_read_exact.simps [of _ want])
  next
    case False
    show ?thesis
    proof (cases "sc_plan s")
      case Nil
      have "take ?m (sc_stream s) \<noteq> []" using False less.prems by auto
      then show ?thesis
        using False Nil less.prems by (intro exI [of _ "[]"])
          (simp add: tpm_read_exact.simps [of _ want filled]
            tpm_read_exact.simps [of _ want "filled @ take ?m (sc_stream s)"] scripted_def sys_read_def)
    next
      case (Cons c p)
      show ?thesis
      proof (cases c)
        case Interrupt
        from less.hyps [of "s\<lparr>sc_plan := p\<rparr>" filled] less.prems Cons obtain q where
          "tpm_read_exact scripted want filled (s\<lparr>sc_plan := p\<rparr>) =
             Some (Inr (filled @ take ?m (sc_stream s)), s\<lparr>sc_plan := q, sc_stream := drop ?m (sc_stream s)\<rparr>)"
          by auto
        then show ?thesis
          using False Cons Interrupt by (intro exI [of _ q])
            (subst tpm_read_exact.simps, simp add: scripted_def sys_read_def)
      next
        case (Deliver k)
        obtain n where n: "n = min ?m (Suc k)" "0 < n" "n \<le> ?m" using False by auto
        let ?got = "take n (sc_stream s)"
        let ?s = "s\<lparr>sc_plan := p, sc_stream := drop n (sc_stream s)\<rparr>"
        have g: "length ?got = n" "?got \<noteq> []" using n less.prems by auto
        have rest: "want - length (filled @ ?got) = ?m - n" using g(1) by simp
        have lt: "length (sc_plan ?s) + (want - length (filled @ ?got)) < length (sc_plan s) + ?m"
          using Cons by simp
        have "length (filled @ ?got) \<le> want" using g(1) n(3) less.prems by simp
        moreover have "want - length (filled @ ?got) \<le> length (sc_stream ?s)"
          using rest less.prems by simp
        ultimately obtain q where
          q: "tpm_read_exact scripted want (filled @ ?got) ?s =
             Some (Inr ((filled @ ?got) @ take (?m - n) (drop n (sc_stream s))),
               ?s\<lparr>sc_plan := q, sc_stream := drop (?m - n) (drop n (sc_stream s))\<rparr>)"
          using less.hyps [OF lt] unfolding rest by auto
        have "?got @ take (?m - n) (drop n (sc_stream s)) = take ?m (sc_stream s)"
          using n(3) by (metis le_add_diff_inverse take_add)
        moreover have "?m - n + n = ?m" using n(3) by simp
        then have "drop (?m - n) (drop n (sc_stream s)) = drop ?m (sc_stream s)"
          by (simp only: drop_drop)
        moreover have "sys_read scripted ?m s = (Read_Got ?got, ?s)"
          using Cons Deliver n(1) by (simp add: scripted_def sys_read_def Let_def min_def)
        ultimately show ?thesis
          using False q g(2) by (intro exI [of _ q]) (subst tpm_read_exact.simps, simp)
      qed
    qed
  qed
qed

lemma read_part_scripted:
  assumes "sc_stream s = got @ rest" "length got = want"
  shows "\<exists>p. tpm_read_exact scripted want [] s = Some (Inr got, s\<lparr>sc_plan := p, sc_stream := rest\<rparr>)"
  using read_exact_scripted [of "[]" want s] assms by simp

text \<open>A frame is sound when its size field is its length, between a header and the buffer.\<close>

definition sound_frame :: "bytes \<Rightarrow> bool" where
  "sound_frame frame \<longleftrightarrow>
     length frame = frame_size frame \<and> TPM_HEADER_LEN \<le> length frame \<and> length frame \<le> MAX_RESPONSE"

lemma transact_scripted:
  assumes "sound_frame frame" "sc_stream s = frame @ rest"
  shows "\<exists>p. tpm_transact scripted command s =
    Some (Inr frame, s\<lparr>sc_plan := p, sc_stream := rest, sc_received := sc_received s @ command\<rparr>)"
proof -
  obtain p1 where 1: "tpm_write_all scripted command s =
      Some (Inr (), s\<lparr>sc_plan := p1, sc_received := sc_received s @ command\<rparr>)"
    using write_all_scripted by blast
  let ?s1 = "s\<lparr>sc_plan := p1, sc_received := sc_received s @ command\<rparr>"
  let ?h = "take TPM_HEADER_LEN frame" and ?b = "drop TPM_HEADER_LEN frame"
  have len: "TPM_HEADER_LEN \<le> length frame" using assms(1) by (simp add: sound_frame_def)
  have "sc_stream ?s1 = ?h @ (?b @ rest)" "length ?h = TPM_HEADER_LEN"
    using assms(2) len by simp_all
  from read_part_scripted [OF this] obtain p2 where
    2: "tpm_read_exact scripted TPM_HEADER_LEN [] ?s1 =
      Some (Inr ?h, ?s1\<lparr>sc_plan := p2, sc_stream := ?b @ rest\<rparr>)" by (elim exE)
  let ?s2 = "?s1\<lparr>sc_plan := p2, sc_stream := ?b @ rest\<rparr>"
  have "frame_size (?h @ ?b) = frame_size ?h"
    using len by (intro take_offset) simp
  also have "?h @ ?b = frame" by (rule append_take_drop_id)
  finally have size: "frame_size ?h = length frame"
    using assms(1) unfolding sound_frame_def by argo
  have "sc_stream ?s2 = ?b @ rest" "length ?b = length frame - TPM_HEADER_LEN"
    by simp_all
  from read_part_scripted [OF this] obtain p3 where
    3: "tpm_read_exact scripted (length frame - TPM_HEADER_LEN) [] ?s2 =
      Some (Inr ?b, ?s2\<lparr>sc_plan := p3, sc_stream := rest\<rparr>)" by (elim exE)
  have bounds: "\<not> length frame < TPM_HEADER_LEN" "\<not> MAX_RESPONSE < length frame"
    using assms(1) by (simp_all add: sound_frame_def)
  have "read_frame scripted ?s1 = Some (Inr (?h @ ?b), ?s2\<lparr>sc_plan := p3, sc_stream := rest\<rparr>)"
    unfolding read_frame_def 2 option.case prod.case sum.case Let_def size if_not_P [OF bounds(1)]
      if_not_P [OF bounds(2)] 3 ..
  then have "tpm_transact scripted command s =
      Some (Inr frame, s\<lparr>sc_plan := p3, sc_stream := rest, sc_received := sc_received s @ command\<rparr>)"
    unfolding tpm_transact_def 1 by simp
  then show ?thesis ..
qed

text \<open>A response of the TPM is one whole frame: whatever a device answers, a response that is
  returned has the length its size field says, between a header and the buffer; and a device that
  takes the command and gives a sound frame, in pieces of any sizes and with any interrupts, is read
  to the last byte of the frame and no byte further.\<close>

theorem transact_reads_one_frame:
  fixes dv :: "'d tpm_device"
  assumes "tpm_transact dv command d = Some (Inr response, d')"
    and "sound_frame frame" "sc_stream s = frame @ rest"
  shows "sound_frame response
    \<and> (\<exists>p. tpm_transact scripted command' s =
         Some (Inr frame, s\<lparr>sc_plan := p, sc_stream := rest, sc_received := sc_received s @ command'\<rparr>))"
proof -
  from assms(1) obtain d1 where "read_frame dv d1 = Some (Inr response, d')"
    by (auto simp: tpm_transact_def split: option.splits sum.splits)
  from read_frame_sized [OF this] have "sound_frame response"
    unfolding sound_frame_def by simp
  with transact_scripted [OF assms(2,3)] show ?thesis by (intro conjI)
qed

definition demo_frame :: bytes where
  "demo_frame = map byte [128, 1, 0, 0, 0, 12, 0, 0, 0, 0, 7, 8]"

definition demo_script :: script where
  "demo_script = \<lparr>sc_stream = demo_frame @ ''next'',
     sc_plan = [Interrupt, Deliver 0, Interrupt, Deliver 5, Deliver 2, Interrupt, Deliver 0],
     sc_received = []\<rparr>"

lemma demo_frame_sound: "sound_frame demo_frame"
  by (simp add: sound_frame_def demo_frame_def frame_size_def SIZE_OFFSET_def be_value_def
      TPM_HEADER_LEN_def MAX_RESPONSE_def)

theorem transact_reads_one_frame_witness:
  "\<exists>p. tpm_transact scripted ''cap'' demo_script =
     Some (Inr demo_frame, demo_script\<lparr>sc_plan := p, sc_stream := ''next'', sc_received := ''cap''\<rparr>)"
proof -
  have s: "sc_stream demo_script = demo_frame @ ''next''" "sc_received demo_script = []"
    by (simp_all add: demo_script_def)
  obtain p where "tpm_transact scripted ''cap'' demo_script =
      Some (Inr demo_frame, demo_script\<lparr>sc_plan := p, sc_stream := ''next'', sc_received := [] @ ''cap''\<rparr>)"
    using transact_scripted [OF demo_frame_sound s(1)] s(2) by metis
  from transact_reads_one_frame [OF this demo_frame_sound s(1), of "''cap''"] show ?thesis
    by (simp add: s(2))
qed

subsection \<open>What the lock PCR says after a handoff\<close>

text \<open>The documented behaviour of \<open>TPM2_PCR_Extend\<close> on the SHA-256 bank: an extend that is
  acknowledged has replaced the register by the hash of its old value and the event.\<close>

definition extends_lock_pcr ::
  "(bytes \<Rightarrow> bytes) \<Rightarrow> tpm_codec \<Rightarrow> 'd tpm_device \<Rightarrow> ('d \<Rightarrow> bytes) \<Rightarrow> bool" where
  "extends_lock_pcr sha tc dv pcr_of \<longleftrightarrow>
     (\<forall>digest d d'. pcr_extend tc dv LOCK_PCR digest d = Some (Inr (), d') \<longrightarrow>
        pcr_of d' = sha (pcr_of d @ digest))"

lemma extend_events_pcr:
  assumes "extends_lock_pcr sha tc dv pcr_of"
  shows "extend_events tc dv evs d = Some (Inr (), d') \<Longrightarrow>
    pcr_of d' = foldl (\<lambda>pcr ev. sha (pcr @ ev)) (pcr_of d) evs"
proof (induction evs arbitrary: d)
  case (Cons ev evs)
  from Cons.prems obtain d1 where 1: "pcr_extend tc dv LOCK_PCR ev d = Some (Inr (), d1)"
    "extend_events tc dv evs d1 = Some (Inr (), d')"
    by (auto split: option.splits prod.splits sum.splits)
  then have "pcr_of d1 = sha (pcr_of d @ ev)"
    using assms by (simp add: extends_lock_pcr_def)
  with Cons.IH [OF 1(2)] show ?case by simp
qed simp

lemma extend_handoff_predicted:
  assumes "extends_lock_pcr sha tc dv pcr_of" "pcr_of d = zero_pcr"
    and "extend_handoff sha tc (Inr dv) kdig idig cmdline imgs d = Some (Inr (), d')"
  shows "pcr_of d' = predict_handoff_pcr sha kdig idig cmdline imgs"
  using extend_events_pcr [OF assms(1)] assms(2,3)
  by (simp add: extend_handoff_def predict_handoff_pcr_def replay_pcr_def)

text \<open>C15: The live measurement refines the prediction: on a TPM that extends as documented and starts
  from the reset value, a handoff that is measured to the end leaves in the lock PCR exactly the value
  the predictor computes from the same kernel, initrd, command line and driver images.\<close>

theorem handoff_measures_the_prediction:
  assumes "extends_lock_pcr sha tc dv pcr_of" "pcr_of d = zero_pcr"
    and "extend_handoff sha tc (Inr dv) kdig idig cmdline imgs d = Some (Inr (), d')"
  shows "pcr_of d' = predict_handoff_pcr sha kdig idig cmdline imgs"
  using assms by (rule extend_handoff_predicted)

text \<open>A TPM whose frame of an extend is a mark and the digest, and which answers with an empty frame.\<close>

definition demo_codec :: tpm_codec where
  "demo_codec = \<lparr>tc_digest_fits = (\<lambda>b. length b \<le> 64), tc_extend = (\<lambda>pcr ha. Some (CHR ''X'' # ha)),
     tc_read = (\<lambda>_ _. None), tc_response = (\<lambda>cc bs. if cc = Pcr_Extend then Some (Inr Extend_Body) else None)\<rparr>"

definition empty_frame :: bytes where
  "empty_frame = map byte [128, 1, 0, 0, 0, 10, 0, 0, 0, 0]"

definition demo_tpm :: "(bytes \<Rightarrow> bytes) \<Rightarrow> (bytes \<times> bytes) tpm_device" where
  "demo_tpm sha = \<lparr>dev_write = (\<lambda>bs (pcr, out). (Wrote (length bs), (sha (pcr @ drop 1 bs), empty_frame))),
     dev_read = (\<lambda>n (pcr, out). (Read_Got (take n out), (pcr, drop n out)))\<rparr>"

lemma demo_tpm_extend:
  assumes "length digest \<le> 64"
  shows "pcr_extend demo_codec (demo_tpm sha) LOCK_PCR digest (pcr, out) =
    Some (Inr (), (sha (pcr @ digest), []))"
proof -
  have w: "tpm_write_all (demo_tpm sha) (CHR ''X'' # digest) (pcr, out) =
      Some (Inr (), (sha (pcr @ digest), empty_frame))"
    by (subst tpm_write_all.simps, simp add: demo_tpm_def)
      (subst tpm_write_all.simps, simp)
  have l: "length empty_frame = 10" by (simp add: empty_frame_def)
  have r: "tpm_read_exact (demo_tpm sha) TPM_HEADER_LEN [] (p, empty_frame) = Some (Inr empty_frame, (p, []))" for p
  proof -
    have "sys_read (demo_tpm sha) 10 (p, empty_frame) = (Read_Got empty_frame, (p, []))"
      using l by (simp add: sys_read_def demo_tpm_def)
    moreover have "empty_frame \<noteq> []" by (simp add: empty_frame_def)
    moreover have "tpm_read_exact (demo_tpm sha) 10 empty_frame (p, []) = Some (Inr empty_frame, (p, []))"
      using l by (subst tpm_read_exact.simps) simp
    ultimately show ?thesis
      by (subst tpm_read_exact.simps) (simp add: TPM_HEADER_LEN_def)
  qed
  have b: "tpm_read_exact (demo_tpm sha) 0 [] d = Some (Inr [], d)" for d
    by (subst tpm_read_exact.simps) simp
  have "frame_size empty_frame = 10"
    by (simp add: frame_size_def SIZE_OFFSET_def be_value_def empty_frame_def)
  then have "read_frame (demo_tpm sha) (p, empty_frame) = Some (Inr empty_frame, (p, []))" for p
    using r [of p] b by (simp add: read_frame_def Let_def TPM_HEADER_LEN_def MAX_RESPONSE_def)
  with w assms show ?thesis
    by (simp add: pcr_extend_def build_pcr_extend_request_def sha256_digest_def marshal_def
        COMMAND_SCRATCH_def transact_checked_def tpm_transact_def parse_checked_response_def demo_codec_def)
qed

lemma demo_tpm_extends: "extends_lock_pcr sha demo_codec (demo_tpm sha) fst"
proof -
  have "fst d' = sha (fst d @ digest)"
    if "pcr_extend demo_codec (demo_tpm sha) LOCK_PCR digest d = Some (Inr (), d')" for digest d d'
  proof (cases "length digest \<le> 64")
    case True
    with demo_tpm_extend [of digest sha "fst d" "snd d"] that show ?thesis by auto
  next
    case False
    with that show ?thesis
      by (simp add: pcr_extend_def build_pcr_extend_request_def sha256_digest_def demo_codec_def)
  qed
  then show ?thesis by (simp add: extends_lock_pcr_def)
qed

definition toy_sha :: "bytes \<Rightarrow> bytes" where
  "toy_sha b = take 32 (rev b @ replicate 32 (byte 1))"

lemma length_toy_sha [simp]: "length (toy_sha b) = 32"
  by (simp add: toy_sha_def)

lemma demo_extend_all:
  "\<forall>ev\<in>set evs. length ev \<le> 64 \<Longrightarrow> \<exists>d'. extend_events demo_codec (demo_tpm sha) evs d = Some (Inr (), d')"
proof (induction evs arbitrary: d)
  case (Cons ev evs)
  then show ?case using demo_tpm_extend [of ev sha "fst d" "snd d"] by simp
qed simp

theorem handoff_measures_the_prediction_witness:
  "\<exists>d'. extend_handoff toy_sha demo_codec (Inr (demo_tpm toy_sha)) ''k'' ''i'' ''quiet'' [] (zero_pcr, []) = Some (Inr (), d')
     \<and> fst d' = predict_handoff_pcr toy_sha ''k'' ''i'' ''quiet'' []"
proof -
  have "\<forall>ev\<in>set (handoff_events toy_sha ''k'' ''i'' ''quiet'' []). length ev \<le> 64"
    by (simp add: handoff_events_def event_digest_def)
  from demo_extend_all [OF this, of toy_sha "(zero_pcr, [])"] obtain d' where
    "extend_handoff toy_sha demo_codec (Inr (demo_tpm toy_sha)) ''k'' ''i'' ''quiet'' [] (zero_pcr, []) =
       Some (Inr (), d')" unfolding extend_handoff_def sum.case by (elim exE)
  with handoff_measures_the_prediction [OF demo_tpm_extends _ this] show ?thesis by auto
qed

subsection \<open>What the lock PCR binds\<close>

text \<open>Everything the prediction hashes: the inputs of the events, and the steps of the register.\<close>

fun replay_inputs :: "(bytes \<Rightarrow> bytes) \<Rightarrow> bytes \<Rightarrow> bytes list \<Rightarrow> bytes list" where
  "replay_inputs sha pcr [] = []"
| "replay_inputs sha pcr (ev # evs) = (pcr @ ev) # replay_inputs sha (sha (pcr @ ev)) evs"

definition hashed_by_handoff ::
  "(bytes \<Rightarrow> bytes) \<Rightarrow> bytes \<Rightarrow> bytes \<Rightarrow> string \<Rightarrow> driver_image_ref list \<Rightarrow> bytes list" where
  "hashed_by_handoff sha kdig idig cmdline imgs =
     handoff_inputs kdig idig cmdline imgs
     @ replay_inputs sha zero_pcr (handoff_events sha kdig idig cmdline imgs)"

lemma handoff_events_inputs:
  "handoff_events sha kdig idig cmdline imgs = map sha (handoff_inputs kdig idig cmdline imgs)"
  by (simp add: handoff_events_def handoff_inputs_def event_digest_def comp_def)

definition collides :: "(bytes \<Rightarrow> bytes) \<Rightarrow> bytes list \<Rightarrow> bytes list \<Rightarrow> bool" where
  "collides sha xs ys \<longleftrightarrow> (\<exists>x\<in>set xs. \<exists>y\<in>set ys. x \<noteq> y \<and> sha x = sha y)"

definition hits_zero :: "(bytes \<Rightarrow> bytes) \<Rightarrow> bytes list \<Rightarrow> bool" where
  "hits_zero sha xs \<longleftrightarrow> (\<exists>x\<in>set xs. sha x = zero_pcr)"

text \<open>Two replays that end alike had the same events, or two of their steps collide, or a step hits
  the reset value.\<close>

lemma replay_inputs_snoc:
  "replay_inputs sha pcr (evs @ [ev]) =
     replay_inputs sha pcr evs @ [foldl (\<lambda>p e. sha (p @ e)) pcr evs @ ev]"
  by (induction evs arbitrary: pcr) simp_all

lemma foldl_replay_length:
  assumes "\<And>x. length (sha x) = 32" "length pcr = 32"
  shows "length (foldl (\<lambda>p e. sha (p @ e)) pcr evs) = 32"
  using assms(2) by (induction evs arbitrary: pcr) (simp_all add: assms(1))

lemma replay_binds:
  assumes "\<And>x. length (sha x) = 32"
    and "foldl (\<lambda>p e. sha (p @ e)) zero_pcr xs = foldl (\<lambda>p e. sha (p @ e)) zero_pcr ys"
  shows "xs = ys \<or> collides sha (replay_inputs sha zero_pcr xs) (replay_inputs sha zero_pcr ys)
    \<or> hits_zero sha (replay_inputs sha zero_pcr xs) \<or> hits_zero sha (replay_inputs sha zero_pcr ys)"
  using assms(2)
proof (induction xs arbitrary: ys rule: rev_induct)
  case Nil
  then show ?case
    by (cases ys rule: rev_cases) (auto simp: replay_inputs_snoc hits_zero_def)
next
  case (snoc x xs)
  let ?f = "foldl (\<lambda>p e. sha (p @ e)) zero_pcr"
  show ?case
  proof (cases ys rule: rev_cases)
    case Nil
    with snoc.prems show ?thesis by (auto simp: replay_inputs_snoc hits_zero_def)
  next
    case (snoc ys' y)
    with \<open>?f (xs @ [x]) = ?f ys\<close> have eq: "sha (?f xs @ x) = sha (?f ys' @ y)" by simp
    show ?thesis
    proof (cases "?f xs @ x = ?f ys' @ y")
      case True
      moreover have "length (?f xs) = 32" "length (?f ys') = 32"
        by (rule foldl_replay_length [OF assms(1)], simp add: zero_pcr_def)+
      ultimately have "?f xs = ?f ys'" "x = y" by simp_all
      with snoc.IH [of ys'] snoc show ?thesis
        by (auto simp: replay_inputs_snoc collides_def hits_zero_def)
    next
      case False
      with eq snoc show ?thesis by (auto simp: replay_inputs_snoc collides_def)
    qed
  qed
qed

lemma map_binds:
  assumes "map sha xs = map sha ys"
  shows "xs = ys \<or> collides sha xs ys"
proof (rule disjCI)
  assume "\<not> collides sha xs ys"
  with assms show "xs = ys"
    by (induction xs arbitrary: ys) (auto simp: collides_def map_eq_Cons_conv Cons_eq_map_conv)
qed

lemma be32_reads_back:
  assumes "n \<le> u32_max"
  shows "be_value (be32 n) = n"
proof -
  have "n div 16777216 < 256" using assms unfolding u32_max_def by simp
  then have "be_value (be32 n) =
      ((n div 16777216 * 256 + n div 65536 mod 256) * 256 + n div 256 mod 256) * 256 + n mod 256"
    by (simp add: be_value_def be32_def)
  also have "n div 16777216 * 256 + n div 65536 mod 256 = n div 65536"
    using div_mult_mod_eq [of "n div 65536" 256] by (simp flip: div_mult2_eq)
  also have "n div 65536 * 256 + n div 256 mod 256 = n div 256"
    using div_mult_mod_eq [of "n div 256" 256] by (simp flip: div_mult2_eq)
  also have "n div 256 * 256 + n mod 256 = n" by (rule div_mult_mod_eq)
  finally show ?thesis .
qed

lemma image_body_inj:
  assumes "image_body a = image_body b" "length (di_name a) \<le> u32_max" "length (di_name b) \<le> u32_max"
  shows "a = b"
proof -
  from assms have b: "be32 (length (di_name a)) = be32 (length (di_name b))"
    "di_name a @ di_digest a = di_name b @ di_digest b"
    unfolding image_body_def by (simp_all add: be32_def)
  have "length (di_name a) = length (di_name b)"
    by (metis b(1) be32_reads_back assms(2,3))
  with b(2) show ?thesis by simp
qed

lemma map_image_body_inj:
  assumes "map (\<lambda>i. event_input EV_DRIVER_IMAGE (image_body i)) xs
      = map (\<lambda>i. event_input EV_DRIVER_IMAGE (image_body i)) ys"
    and "\<forall>i\<in>set (xs @ ys). length (di_name i) \<le> u32_max"
  shows "xs = ys"
  using assms(1)
proof (rule inj_on_map_eq_map [THEN iffD1, rotated])
  show "inj_on (\<lambda>i. event_input EV_DRIVER_IMAGE (image_body i)) (set xs \<union> set ys)"
  proof (rule inj_onI)
    fix x y
    assume "x \<in> set xs \<union> set ys" "y \<in> set xs \<union> set ys"
      "event_input EV_DRIVER_IMAGE (image_body x) = event_input EV_DRIVER_IMAGE (image_body y)"
    with assms(2) show "x = y" by (intro image_body_inj) (auto simp: event_input_def)
  qed
qed

lemma handoff_inputs_inj:
  assumes "handoff_inputs k i c imgs = handoff_inputs k' i' c' imgs'"
    and "\<forall>d\<in>set (imgs @ imgs'). length (di_name d) \<le> u32_max"
  shows "k = k' \<and> i = i' \<and> c = c' \<and> imgs = imgs'"
  using assms map_image_body_inj by (simp add: handoff_inputs_def event_input_def)

lemma collides_mono:
  "collides sha xs ys \<Longrightarrow> set xs \<subseteq> set xs' \<Longrightarrow> set ys \<subseteq> set ys' \<Longrightarrow> collides sha xs' ys'"
  unfolding collides_def by blast

lemma prediction_binds:
  assumes "\<And>x. length (sha x) = 32"
    and "\<forall>d\<in>set (imgs @ imgs'). length (di_name d) \<le> u32_max"
    and "predict_handoff_pcr sha k i c imgs = predict_handoff_pcr sha k' i' c' imgs'"
  shows "(k = k' \<and> i = i' \<and> c = c' \<and> imgs = imgs')
    \<or> collides sha (hashed_by_handoff sha k i c imgs) (hashed_by_handoff sha k' i' c' imgs')
    \<or> hits_zero sha (hashed_by_handoff sha k i c imgs @ hashed_by_handoff sha k' i' c' imgs')"
proof -
  let ?I = "handoff_inputs k i c imgs" and ?I' = "handoff_inputs k' i' c' imgs'"
  let ?R = "replay_inputs sha zero_pcr (map sha ?I)" and ?R' = "replay_inputs sha zero_pcr (map sha ?I')"
  have h: "hashed_by_handoff sha k i c imgs = ?I @ ?R" "hashed_by_handoff sha k' i' c' imgs' = ?I' @ ?R'"
    by (simp_all only: hashed_by_handoff_def handoff_events_inputs)
  have "foldl (\<lambda>p e. sha (p @ e)) zero_pcr (map sha ?I) = foldl (\<lambda>p e. sha (p @ e)) zero_pcr (map sha ?I')"
    using assms(3) by (simp only: predict_handoff_pcr_def replay_pcr_def handoff_events_inputs)
  from replay_binds [OF assms(1) this] consider
      (events) "map sha ?I = map sha ?I'" | (step) "collides sha ?R ?R'"
    | (zero) "hits_zero sha ?R \<or> hits_zero sha ?R'" by auto
  then show ?thesis
  proof cases
    case events
    from map_binds [OF this] show ?thesis
    proof
      assume "?I = ?I'"
      from handoff_inputs_inj [OF this assms(2)] show ?thesis by (rule disjI1)
    next
      assume "collides sha ?I ?I'"
      then have "collides sha (?I @ ?R) (?I' @ ?R')" by (rule collides_mono) simp_all
      then show ?thesis unfolding h by (intro disjI2 disjI1)
    qed
  next
    case step
    then have "collides sha (?I @ ?R) (?I' @ ?R')" by (rule collides_mono) simp_all
    then show ?thesis unfolding h by (intro disjI2 disjI1)
  next
    case zero
    then have "hits_zero sha ((?I @ ?R) @ ?I' @ ?R')" by (auto simp: hits_zero_def)
    then show ?thesis unfolding h by (intro disjI2)
  qed
qed

text \<open>C14: The lock PCR binds what is booted: two handoffs with the same predicted value have the same
  kernel digest, initrd digest, command line and driver images in the same order, or else two different
  byte strings that the two predictions hash collide, or one of them hashes to the reset value.\<close>

theorem measurement_binds_inputs:
  assumes "\<And>x. length (sha x) = 32"
    and "\<forall>d\<in>set (imgs @ imgs'). length (di_name d) \<le> u32_max"
    and "predict_handoff_pcr sha k i c imgs = predict_handoff_pcr sha k' i' c' imgs'"
  shows "(k = k' \<and> i = i' \<and> c = c' \<and> imgs = imgs')
    \<or> collides sha (hashed_by_handoff sha k i c imgs) (hashed_by_handoff sha k' i' c' imgs')
    \<or> hits_zero sha (hashed_by_handoff sha k i c imgs @ hashed_by_handoff sha k' i' c' imgs')"
  using assms by (rule prediction_binds)

text \<open>The toy hash forgets the register, so two kernels have one prediction, and a collision is found.\<close>

lemma toy_prediction: "predict_handoff_pcr toy_sha k i c [] = rev (toy_sha (event_input EV_CMDLINE c))"
  by (simp add: predict_handoff_pcr_def replay_pcr_def handoff_events_def event_digest_def)
    (simp add: toy_sha_def)

theorem measurement_binds_inputs_witness:
  "predict_handoff_pcr toy_sha ''k'' ''i'' ''quiet'' [] = predict_handoff_pcr toy_sha ''other'' ''i'' ''quiet'' []
   \<and> (collides toy_sha (hashed_by_handoff toy_sha ''k'' ''i'' ''quiet'' [])
         (hashed_by_handoff toy_sha ''other'' ''i'' ''quiet'' [])
      \<or> hits_zero toy_sha (hashed_by_handoff toy_sha ''k'' ''i'' ''quiet'' []
         @ hashed_by_handoff toy_sha ''other'' ''i'' ''quiet'' []))"
proof -
  have same: "predict_handoff_pcr toy_sha ''k'' ''i'' ''quiet'' [] =
      predict_handoff_pcr toy_sha ''other'' ''i'' ''quiet'' []" by (simp only: toy_prediction)
  have "\<forall>d\<in>set ([] @ []). length (di_name d) \<le> u32_max" by simp
  from measurement_binds_inputs [OF length_toy_sha this same] same show ?thesis by simp
qed

text \<open>
  The prediction starts from the reset value. Whatever was extended into the lock PCR before the
  identity event stays visible: a measured handoff that started from another value ends with
  another value, or a collision is found.
\<close>

lemma replay_keeps_start:
  assumes "\<And>x. length (sha x) = 32" "length p = 32" "length q = 32"
    and "foldl (\<lambda>p e. sha (p @ e)) p es = foldl (\<lambda>p e. sha (p @ e)) q es"
  shows "p = q \<or> collides sha (replay_inputs sha p es) (replay_inputs sha q es)"
  using assms(2-4)
proof (induction es arbitrary: p q)
  case (Cons e es)
  from Cons.IH [of "sha (p @ e)" "sha (q @ e)"] Cons.prems assms(1)
  consider "sha (p @ e) = sha (q @ e)"
    | "collides sha (replay_inputs sha (sha (p @ e)) es) (replay_inputs sha (sha (q @ e)) es)" by auto
  then show ?case
  proof cases
    case 1
    then show ?thesis by (cases "p = q") (auto simp: collides_def)
  next
    case 2
    then have "collides sha (replay_inputs sha p (e # es)) (replay_inputs sha q (e # es))"
      by (rule collides_mono) auto
    then show ?thesis by (rule disjI2)
  qed
qed simp

lemma pre_measurement_stays_visible:
  assumes "\<And>x. length (sha x) = 32" "length (pcr_of d) = 32" "extends_lock_pcr sha tc dv pcr_of"
    and "extend_handoff sha tc (Inr dv) kdig idig cmdline imgs d = Some (Inr (), d')"
    and "pcr_of d \<noteq> zero_pcr" "pcr_of d' = predict_handoff_pcr sha kdig idig cmdline imgs"
  shows "collides sha (replay_inputs sha (pcr_of d) (handoff_events sha kdig idig cmdline imgs))
    (replay_inputs sha zero_pcr (handoff_events sha kdig idig cmdline imgs))"
proof -
  let ?evs = "handoff_events sha kdig idig cmdline imgs"
  have "foldl (\<lambda>p e. sha (p @ e)) (pcr_of d) ?evs = foldl (\<lambda>p e. sha (p @ e)) zero_pcr ?evs"
    using extend_events_pcr [OF assms(3)] assms(4,6)
    by (simp add: extend_handoff_def predict_handoff_pcr_def replay_pcr_def)
  moreover have "length zero_pcr = 32" by (simp add: zero_pcr_def)
  ultimately show ?thesis using replay_keeps_start [of sha, OF assms(1,2)] assms(5) by blast
qed

text \<open>A TPM that is present is capped or reported as a fault, never taken for absent.\<close>

lemma present_tpm_is_not_skipped:
  "tpm_present node_exists \<Longrightarrow> cap_lock_pcr node_exists tc opened d = Some (r, d') \<Longrightarrow> r \<noteq> No_Tpm"
  by (auto simp: cap_lock_pcr_def cap_pcr_outcome_def split: sum.splits option.splits)

end
