(* ===== verification/Driver_Images.thy ===== *)
theory Driver_Images
  imports Host_Tools Kernel_Modules Tpm
begin

text \<open>
  Signed driver images (\<open>imageload\<close>): each declared squashfs is opened once, verified under its
  role, bound to a loop device, mounted read-only, and its modules are loaded; the handles keep
  what the teardown must undo and what the measurement folds in. The world holds what a loop device
  serves, the mounts and the calls of \<open>init_module\<close>; the answers of the kernel are a record.
\<close>

subsection \<open>Configuration, handles, world\<close>

record driver_image_spec =
  ds_path :: string
  ds_sig_path :: string
  ds_modules :: "string list"
  ds_blacklist :: "string list"

record driver_images_config =
  dc_enable :: bool
  dc_images :: "driver_image_spec list"

record driver_image_handle =
  dh_name :: string
  dh_image_path :: string
  dh_digest :: bytes
  dh_loop_index :: nat
  dh_mountpoint :: string

record image_world =
  iw_loops :: "nat \<rightharpoonup> bytes"
  iw_mounts :: "(string \<times> nat) list"
  iw_firmware :: "string option"
  iw_calls :: module_calls

text \<open>
  \<open>io_free\<close> is \<open>LOOP_CTL_GET_FREE\<close>, \<open>io_loop_open\<close> and \<open>io_configure\<close> whether a loop node opens and
  takes a backing file, \<open>io_mkdir\<close>, \<open>io_mount\<close>, \<open>io_umount\<close>, \<open>io_clear\<close> whether those calls succeed,
  \<open>io_is_dir\<close> and \<open>io_sysfs\<close> the test and the write of the firmware path.
\<close>

record image_os =
  io_files :: file_access
  io_free :: "image_world \<Rightarrow> nat option"
  io_loop_open :: "nat \<Rightarrow> bool"
  io_configure :: "nat \<Rightarrow> bool"
  io_mkdir :: "string \<Rightarrow> bool"
  io_mount :: "string \<Rightarrow> bool"
  io_umount :: "string \<Rightarrow> bool"
  io_clear :: "nat \<Rightarrow> bool"
  io_is_dir :: "string \<Rightarrow> bool"
  io_sysfs :: bool
  io_modules :: module_os
  io_read_text :: "string \<Rightarrow> string option"
  io_release :: "string option"

datatype image_error =
    Image_Stage string
  | Image_Verify sig_error
  | Image_Load module_error
  | Image_Hash_Io

subsection \<open>One image\<close>

definition strip_leading_slash :: "string \<Rightarrow> string" where
  "strip_leading_slash p = (case path_strip_prefix ''/'' p of None \<Rightarrow> p | Some rel \<Rightarrow> rel)"

text \<open>The paths of the image and of its sidecar.\<close>

definition resolve_image :: "string option \<Rightarrow> driver_image_spec \<Rightarrow> image_error + string \<times> string" where
  "resolve_image boot_mp spec =
     (case boot_mp of
        None \<Rightarrow> Inl (Image_Stage ''locate'')
      | Some mp \<Rightarrow>
          if ds_path spec = [] then Inl (Image_Stage ''locate'')
          else if ds_sig_path spec = [] then Inl (Image_Stage ''locate'')
          else Inr (path_join mp (strip_leading_slash (ds_path spec)),
                    path_join mp (strip_leading_slash (ds_sig_path spec))))"

definition open_image_ro :: "image_os \<Rightarrow> string \<Rightarrow> image_error + bytes option" where
  "open_image_ro os p = ok_or (Image_Stage ''open'') (open_file (io_files os) p)"

text \<open>\<open>fd\<close> is what the pinned descriptor reads; an auditing policy hashes it once more.\<close>

definition verify_driver_image ::
  "crypto \<Rightarrow> (bytes \<times> alg_id) list \<Rightarrow> image_os \<Rightarrow> signing_config \<Rightarrow> bytes option \<Rightarrow> string \<Rightarrow> image_error + bytes" where
  "verify_driver_image cr baked os sg fd sig_path =
     (case verify_image_fd_digest cr baked fd (Some (read_file (io_files os) sig_path)) DOMAIN_DRIVER_IMAGE sg of
        Inr digest \<Rightarrow> Inr digest
      | Inl err \<Rightarrow>
          (case apply_policy sg (Inl err) of
             Gate_Proceed \<Rightarrow> ok_or Image_Hash_Io (map_option (sha512 cr) fd)
           | Gate_Refuse cause \<Rightarrow> Inl (Image_Verify cause)))"

text \<open>The loop device serves the file behind the descriptor.\<close>

definition loop_bind_ro :: "image_os \<Rightarrow> bytes option \<Rightarrow> image_world \<Rightarrow> (image_error + nat) \<times> image_world" where
  "loop_bind_ro os fd w =
     (case io_free os w of
        None \<Rightarrow> (Inl (Image_Stage ''loop-alloc''), w)
      | Some i \<Rightarrow>
          if \<not> io_loop_open os i then (Inl (Image_Stage ''loop-open''), w)
          else if \<not> io_configure os i then (Inl (Image_Stage ''loop-configure''), w)
          else (Inr i, w\<lparr>iw_loops := (iw_loops w)(i := fd)\<rparr>))"

definition DRIVER_MOUNT_ROOT :: string where
  "DRIVER_MOUNT_ROOT = ''/run/nmbl-driver-images''"

definition image_mountpoint :: "nat \<Rightarrow> string" where
  "image_mountpoint index = DRIVER_MOUNT_ROOT @ ''/'' @ dec index"

definition mount_squashfs_ro ::
  "image_os \<Rightarrow> bytes option \<Rightarrow> nat \<Rightarrow> image_world \<Rightarrow> (image_error + nat \<times> string) \<times> image_world" where
  "mount_squashfs_ro os fd index w =
     (case loop_bind_ro os fd w of
        (Inl e, w1) \<Rightarrow> (Inl e, w1)
      | (Inr i, w1) \<Rightarrow>
          (let mp = image_mountpoint index in
           if \<not> io_mkdir os mp then (Inl (Image_Stage ''mkdir''), w1)
           else if \<not> io_mount os mp then (Inl (Image_Stage ''mount''), w1)
           else (Inr (i, mp), w1\<lparr>iw_mounts := (mp, i) # iw_mounts w1\<rparr>)))"

definition add_firmware_search_path :: "image_os \<Rightarrow> string \<Rightarrow> image_world \<Rightarrow> image_world" where
  "add_firmware_search_path os mp w =
     (let dir = path_join mp ''lib/firmware'' in
      if \<not> io_is_dir os dir then w
      else if \<not> valid_utf8 dir then w
      else if io_sysfs os then w\<lparr>iw_firmware := Some dir\<rparr> else w)"

definition load_image_modules ::
  "image_os \<Rightarrow> string list \<Rightarrow> driver_image_spec \<Rightarrow> string \<Rightarrow> image_world \<Rightarrow> (image_error + unit) \<times> image_world" where
  "load_image_modules os blacklist spec mp w =
     (if ds_modules spec = [] then (Inr (), w)
      else case load_modules_inner (io_modules os) (io_read_text os) (io_release os)
                  (path_join mp ''lib/modules'') (ds_modules spec) (blacklist @ ds_blacklist spec) (iw_calls w) of
        (r, calls) \<Rightarrow> (rbind (map_err Image_Load r) (\<lambda>_. Inr ()), w\<lparr>iw_calls := calls\<rparr>))"

definition load_one ::
  "crypto \<Rightarrow> (bytes \<times> alg_id) list \<Rightarrow> image_os \<Rightarrow> string option \<Rightarrow> signing_config \<Rightarrow> string list
   \<Rightarrow> driver_image_spec \<Rightarrow> nat \<Rightarrow> image_world \<Rightarrow> (image_error + driver_image_handle) \<times> image_world" where
  "load_one cr baked os boot_mp sg blacklist spec index w =
     (case resolve_image boot_mp spec of
        Inl e \<Rightarrow> (Inl e, w)
      | Inr (img_path, sig_path) \<Rightarrow>
     (case open_image_ro os img_path of
        Inl e \<Rightarrow> (Inl e, w)
      | Inr fd \<Rightarrow>
     (case verify_driver_image cr baked os sg fd sig_path of
        Inl e \<Rightarrow> (Inl e, w)
      | Inr digest \<Rightarrow>
     (case mount_squashfs_ro os fd index w of
        (Inl e, w1) \<Rightarrow> (Inl e, w1)
      | (Inr (i, mp), w1) \<Rightarrow>
     (case load_image_modules os blacklist spec mp (add_firmware_search_path os mp w1) of
        (Inl e, w2) \<Rightarrow> (Inl e, w2)
      | (Inr _, w2) \<Rightarrow>
          (Inr \<lparr>dh_name = from_utf8_lossy (ds_path spec), dh_image_path = img_path, dh_digest = digest,
                dh_loop_index = i, dh_mountpoint = mp\<rparr>, w2))))))"

subsection \<open>All images\<close>

fun load_images ::
  "crypto \<Rightarrow> (bytes \<times> alg_id) list \<Rightarrow> image_os \<Rightarrow> string option \<Rightarrow> signing_config \<Rightarrow> string list
   \<Rightarrow> driver_image_spec list \<Rightarrow> nat \<Rightarrow> driver_image_handle list \<Rightarrow> image_world
   \<Rightarrow> (image_error + driver_image_handle list) \<times> image_world" where
  "load_images cr baked os boot_mp sg blacklist [] index hs w = (Inr hs, w)"
| "load_images cr baked os boot_mp sg blacklist (spec # specs) index hs w =
     (case load_one cr baked os boot_mp sg blacklist spec index w of
        (Inl e, w1) \<Rightarrow> (Inl e, w1)
      | (Inr h, w1) \<Rightarrow> load_images cr baked os boot_mp sg blacklist specs (Suc index) (hs @ [h]) w1)"

definition load_driver_images ::
  "crypto \<Rightarrow> (bytes \<times> alg_id) list \<Rightarrow> image_os \<Rightarrow> string option \<Rightarrow> signing_config \<Rightarrow> string list
   \<Rightarrow> driver_images_config \<Rightarrow> image_world \<Rightarrow> (image_error + driver_image_handle list) \<times> image_world" where
  "load_driver_images cr baked os boot_mp sg blacklist dc w =
     (if \<not> dc_enable dc \<or> dc_images dc = [] then (Inr [], w)
      else load_images cr baked os boot_mp sg blacklist (dc_images dc) 0 [] w)"

definition measure_refs :: "driver_image_handle list \<Rightarrow> driver_image_ref list" where
  "measure_refs hs = map (\<lambda>h. \<lparr>di_name = dh_name h, di_digest = dh_digest h\<rparr>) hs"

text \<open>An unmount takes the newest mount at a path off.\<close>

fun drop_mount :: "string \<Rightarrow> (string \<times> nat) list \<Rightarrow> (string \<times> nat) list" where
  "drop_mount mp [] = []"
| "drop_mount mp (m # ms) = (if fst m = mp then ms else m # drop_mount mp ms)"

definition teardown_image :: "image_os \<Rightarrow> nat \<Rightarrow> string \<Rightarrow> image_world \<Rightarrow> image_world" where
  "teardown_image os i mp w =
     (let w1 = (if io_umount os mp then w\<lparr>iw_mounts := drop_mount mp (iw_mounts w)\<rparr> else w) in
      if io_loop_open os i \<and> io_clear os i then w1\<lparr>iw_loops := (iw_loops w1)(i := None)\<rparr> else w1)"

definition detach_one :: "image_os \<Rightarrow> driver_image_handle \<Rightarrow> image_world \<Rightarrow> image_world" where
  "detach_one os h = teardown_image os (dh_loop_index h) (dh_mountpoint h)"

definition detach_all_driver_images ::
  "image_os \<Rightarrow> driver_image_handle list \<Rightarrow> image_world \<Rightarrow> image_world" where
  "detach_all_driver_images os hs w = fold (detach_one os) (rev hs) w"

subsection \<open>Only signed images are served\<close>

definition image_signed :: "crypto \<Rightarrow> (bytes \<times> alg_id) list \<Rightarrow> image_os \<Rightarrow> bytes \<Rightarrow> bool" where
  "image_signed cr baked os content \<longleftrightarrow>
     (\<exists>p sb. read_file (io_files os) p = Some sb \<and> blob_signed cr baked (sha512 cr content) sb DOMAIN_DRIVER_IMAGE)"

text \<open>Every loop device serves a signed image, and every mount is of a bound loop device.\<close>

definition images_ok :: "crypto \<Rightarrow> (bytes \<times> alg_id) list \<Rightarrow> image_os \<Rightarrow> image_world \<Rightarrow> bool" where
  "images_ok cr baked os w \<longleftrightarrow>
     (\<forall>i c. iw_loops w i = Some c \<longrightarrow> image_signed cr baked os c)
     \<and> (\<forall>(mp, i)\<in>set (iw_mounts w). iw_loops w i \<noteq> None)"

text \<open>A handle tells the truth when its loop device serves the bytes of its digest.\<close>

definition handle_true :: "crypto \<Rightarrow> image_world \<Rightarrow> driver_image_handle \<Rightarrow> bool" where
  "handle_true cr w h \<longleftrightarrow> (\<exists>c. iw_loops w (dh_loop_index h) = Some c \<and> dh_digest h = sha512 cr c)"

definition loops_fresh :: "image_os \<Rightarrow> bool" where
  "loops_fresh os \<longleftrightarrow> (\<forall>w i. io_free os w = Some i \<longrightarrow> iw_loops w i = None)"

lemma verify_driver_image_InrD:
  assumes "verify_driver_image cr baked os sg fd sig_path = Inr digest" "policy_from_config sg = Enforce"
  shows "\<exists>c. fd = Some c \<and> digest = sha512 cr c \<and> image_signed cr baked os c"
proof -
  have "verify_image_fd_digest cr baked fd (Some (read_file (io_files os) sig_path)) DOMAIN_DRIVER_IMAGE sg = Inr digest"
    using assms by (auto simp: verify_driver_image_def apply_policy_def split: sum.splits)
  from verify_image_fd_InrD [OF this] show ?thesis by (auto simp: image_signed_def)
qed

lemma mount_squashfs_ro_ok:
  assumes "mount_squashfs_ro os (Some c) index w = (r, w')" "images_ok cr baked os w" "image_signed cr baked os c"
  shows "images_ok cr baked os w'" "r = Inr (i, mp) \<Longrightarrow> iw_loops w' i = Some c \<and> mp = image_mountpoint index"
    "loops_fresh os \<Longrightarrow> iw_loops w \<subseteq>\<^sub>m iw_loops w'"
  using assms by (auto simp: mount_squashfs_ro_def loop_bind_ro_def images_ok_def Let_def loops_fresh_def
      map_le_def split: option.splits if_splits)

lemma firmware_keeps_loops [simp]:
  "iw_loops (add_firmware_search_path os mp w) = iw_loops w"
  "iw_mounts (add_firmware_search_path os mp w) = iw_mounts w"
  by (simp_all add: add_firmware_search_path_def Let_def)

lemma modules_keep_loops:
  assumes "load_image_modules os blacklist spec mp w = (r, w')"
  shows "iw_loops w' = iw_loops w" "iw_mounts w' = iw_mounts w"
  using assms by (auto simp: load_image_modules_def split: if_splits prod.splits)

lemma images_ok_cong:
  "iw_loops w' = iw_loops w \<Longrightarrow> iw_mounts w' = iw_mounts w \<Longrightarrow> images_ok cr baked os w \<Longrightarrow> images_ok cr baked os w'"
  by (simp add: images_ok_def)

lemma load_one_ok:
  assumes l: "load_one cr baked os boot_mp sg blacklist spec index w = (r, w')"
    and enf: "policy_from_config sg = Enforce" and ok: "images_ok cr baked os w"
  shows "images_ok cr baked os w'" "loops_fresh os \<Longrightarrow> iw_loops w \<subseteq>\<^sub>m iw_loops w'"
    "r = Inr h \<Longrightarrow> handle_true cr w' h \<and> dh_name h = from_utf8_lossy (ds_path spec)
       \<and> dh_mountpoint h = image_mountpoint index"
proof -
  have "images_ok cr baked os w' \<and> (loops_fresh os \<longrightarrow> iw_loops w \<subseteq>\<^sub>m iw_loops w')
    \<and> (\<forall>h. r = Inr h \<longrightarrow> handle_true cr w' h \<and> dh_name h = from_utf8_lossy (ds_path spec)
       \<and> dh_mountpoint h = image_mountpoint index)"
  proof (cases "resolve_image boot_mp spec")
    case (Inl e)
    with l ok show ?thesis by (auto simp: load_one_def)
  next
    case (Inr ps)
    obtain ip sp where ps: "ps = (ip, sp)" by (cases ps)
    show ?thesis
    proof (cases "open_image_ro os ip")
      case Inl
      with l ok Inr ps show ?thesis by (auto simp: load_one_def)
    next
      case fd: (Inr fd)
      show ?thesis
      proof (cases "verify_driver_image cr baked os sg fd sp")
        case Inl
        with l ok Inr ps fd show ?thesis by (auto simp: load_one_def)
      next
        case v: (Inr digest)
        from verify_driver_image_InrD [OF v enf] obtain c where
          c: "fd = Some c" "digest = sha512 cr c" "image_signed cr baked os c" by blast
        obtain m w1 where m: "mount_squashfs_ro os (Some c) index w = (m, w1)" by fastforce
        note w1 = mount_squashfs_ro_ok [OF m ok c(3)]
        show ?thesis
        proof (cases m)
          case Inl
          with l Inr ps fd v c(1) m w1 show ?thesis by (auto simp: load_one_def)
        next
          case mi: (Inr im)
          obtain i mp where im: "im = (i, mp)" by (cases im)
          obtain lr w2 where w2: "load_image_modules os blacklist spec mp (add_firmware_search_path os mp w1) = (lr, w2)"
            by fastforce
          note keep = modules_keep_loops [OF w2, simplified]
          from w1(1) keep have "images_ok cr baked os w2" by (simp add: images_ok_def)
          moreover have "iw_loops w2 i = Some c" "mp = image_mountpoint index"
            using w1(2) [of i mp] mi im keep by simp_all
          ultimately show ?thesis
            using l Inr ps fd v c m mi im w2 w1(3) keep
            by (cases lr) (auto simp: load_one_def handle_true_def)
        qed
      qed
    qed
  qed
  then show "images_ok cr baked os w'" "loops_fresh os \<Longrightarrow> iw_loops w \<subseteq>\<^sub>m iw_loops w'"
    "r = Inr h \<Longrightarrow> handle_true cr w' h \<and> dh_name h = from_utf8_lossy (ds_path spec)
       \<and> dh_mountpoint h = image_mountpoint index"
    by blast+
qed

lemma handle_true_mono: "handle_true cr w h \<Longrightarrow> iw_loops w \<subseteq>\<^sub>m iw_loops w' \<Longrightarrow> handle_true cr w' h"
  by (auto simp: handle_true_def map_le_def dom_def)

lemma load_images_ok:
  assumes "load_images cr baked os boot_mp sg blacklist specs index hs w = (r, w')"
    and "policy_from_config sg = Enforce" "images_ok cr baked os w"
  shows "images_ok cr baked os w'
    \<and> (\<forall>hs'. r = Inr hs' \<longrightarrow> (\<exists>new. hs' = hs @ new
         \<and> map dh_name new = map (\<lambda>s. from_utf8_lossy (ds_path s)) specs
         \<and> map dh_mountpoint new = map image_mountpoint [index..<index + length specs])
       \<and> (loops_fresh os \<longrightarrow> (\<forall>h\<in>set hs. handle_true cr w h) \<longrightarrow> (\<forall>h\<in>set hs'. handle_true cr w' h)))"
  using assms(1,3)
proof (induction specs arbitrary: index hs w)
  case (Cons spec specs)
  obtain r1 w1 where l: "load_one cr baked os boot_mp sg blacklist spec index w = (r1, w1)" by fastforce
  note one = load_one_ok [OF l assms(2) Cons.prems(2)]
  show ?case
  proof (cases r1)
    case (Inl e)
    with l Cons.prems(1) one(1) show ?thesis by auto
  next
    case (Inr h)
    with l Cons.prems(1) have rest:
      "load_images cr baked os boot_mp sg blacklist specs (Suc index) (hs @ [h]) w1 = (r, w')" by simp
    note IH = Cons.IH [OF rest one(1)]
    have h: "handle_true cr w1 h" "dh_name h = from_utf8_lossy (ds_path spec)"
      "dh_mountpoint h = image_mountpoint index" using one(3) [OF Inr] by simp_all
    have up: "[index..<index + length (spec # specs)] = index # [Suc index..<Suc index + length specs]"
      using upt_conv_Cons [of index "index + length (spec # specs)"] by simp
    show ?thesis
    proof (intro conjI allI impI)
      show "images_ok cr baked os w'" using IH by blast
    next
      fix hs' assume r: "r = Inr hs'"
      with IH obtain new where "hs' = (hs @ [h]) @ new" "map dh_name new = map (\<lambda>s. from_utf8_lossy (ds_path s)) specs"
        "map dh_mountpoint new = map image_mountpoint [Suc index..<Suc index + length specs]" by blast
      with h(2,3) show "\<exists>new. hs' = hs @ new
          \<and> map dh_name new = map (\<lambda>s. from_utf8_lossy (ds_path s)) (spec # specs)
          \<and> map dh_mountpoint new = map image_mountpoint [index..<index + length (spec # specs)]"
        unfolding up by (intro exI [of _ "h # new"]) simp
    next
      fix hs' assume r: "r = Inr hs'" and fresh: "loops_fresh os" and old: "\<forall>h\<in>set hs. handle_true cr w h"
      then have "\<forall>h\<in>set (hs @ [h]). handle_true cr w1 h"
        using handle_true_mono one(2) [OF fresh] h(1) by auto
      with IH r fresh show "\<forall>h\<in>set hs'. handle_true cr w' h" by blast
    qed
  qed
qed auto

text \<open>C9: With signatures enforced, every loop device that driver images are mounted from serves a
  squashfs that is signed for the driver image role, also when the run stops at a bad image; and
  when it ends well the handles stand for the declared images in order, each with the digest of
  exactly the bytes its loop device serves, so what is measured is what is mounted.\<close>

theorem only_signed_images_are_mounted:
  assumes "load_driver_images cr baked os boot_mp sg blacklist dc w = (r, w')"
    and "policy_from_config sg = Enforce" "images_ok cr baked os w" "loops_fresh os"
  shows "images_ok cr baked os w'
    \<and> (\<forall>hs. r = Inr hs \<longrightarrow>
        map di_name (measure_refs hs) =
          (if dc_enable dc then map (\<lambda>s. from_utf8_lossy (ds_path s)) (dc_images dc) else [])
        \<and> (\<forall>h\<in>set hs. \<exists>c. iw_loops w' (dh_loop_index h) = Some c \<and> dh_digest h = sha512 cr c
             \<and> image_signed cr baked os c))"
proof (cases "\<not> dc_enable dc \<or> dc_images dc = []")
  case True
  with assms show ?thesis by (auto simp: load_driver_images_def measure_refs_def)
next
  case False
  with assms(1) have l: "load_images cr baked os boot_mp sg blacklist (dc_images dc) 0 [] w = (r, w')"
    by (simp add: load_driver_images_def)
  note ok = load_images_ok [OF l assms(2,3)]
  show ?thesis
  proof (intro conjI allI impI)
    show "images_ok cr baked os w'" using ok by blast
  next
    fix hs assume "r = Inr hs"
    with ok have "map dh_name hs = map (\<lambda>s. from_utf8_lossy (ds_path s)) (dc_images dc)" by auto
    then show "map di_name (measure_refs hs) =
        (if dc_enable dc then map (\<lambda>s. from_utf8_lossy (ds_path s)) (dc_images dc) else [])"
      using False by (simp add: measure_refs_def comp_def)
  next
    fix hs assume "r = Inr hs"
    with ok assms(4) have "\<forall>h\<in>set hs. handle_true cr w' h" by simp
    with ok show "\<forall>h\<in>set hs. \<exists>c. iw_loops w' (dh_loop_index h) = Some c \<and> dh_digest h = sha512 cr c
             \<and> image_signed cr baked os c"
      by (fastforce simp: handle_true_def images_ok_def)
  qed
qed

text \<open>A boot volume with one signed image that has no modules.\<close>

definition demo_image_files :: file_access where
  "demo_image_files = \<lparr>open_file = (\<lambda>p. if p = ''/b/d.sfs'' then Some (Some ''drv'') else None),
     read_file = (\<lambda>p. if p = ''/b/d.sig'' then Some (demo_sidecar DOMAIN_DRIVER_IMAGE (CHR ''d'')) else None)\<rparr>"

definition demo_image_os :: image_os where
  "demo_image_os = \<lparr>io_files = demo_image_files,
     io_free = (\<lambda>w. if iw_loops w 0 = None then Some 0 else None), io_loop_open = (\<lambda>_. True),
     io_configure = (\<lambda>_. True), io_mkdir = (\<lambda>_. True), io_mount = (\<lambda>_. True), io_umount = (\<lambda>_. True),
     io_clear = (\<lambda>_. True), io_is_dir = (\<lambda>_. False), io_sysfs = True, io_modules = demo_module_os,
     io_read_text = (\<lambda>_. None), io_release = None\<rparr>"

definition demo_image_spec :: driver_image_spec where
  "demo_image_spec = \<lparr>ds_path = ''d.sfs'', ds_sig_path = ''d.sig'', ds_modules = [], ds_blacklist = []\<rparr>"

definition no_images :: image_world where
  "no_images = \<lparr>iw_loops = Map.empty, iw_mounts = [], iw_firmware = None, iw_calls = []\<rparr>"

definition demo_image_handle :: driver_image_handle where
  "demo_image_handle = \<lparr>dh_name = ''d.sfs'', dh_image_path = ''/b/d.sfs'', dh_digest = ''drv'',
     dh_loop_index = 0, dh_mountpoint = ''/run/nmbl-driver-images/0''\<rparr>"

lemma demo_image_loads:
  "load_driver_images demo_crypto [demo_pair] demo_image_os (runtime_boot_mountpoint demo_signed_config) demo_signing []
     \<lparr>dc_enable = True, dc_images = [demo_image_spec]\<rparr> no_images =
   (Inr [demo_image_handle], no_images\<lparr>iw_loops := [0 \<mapsto> ''drv''], iw_mounts := [(''/run/nmbl-driver-images/0'', 0)]\<rparr>)"
proof -
  have "strip_leading_slash ''d.sfs'' = ''d.sfs''" "strip_leading_slash ''d.sig'' = ''d.sig''" by code_simp+
  then have res: "resolve_image (runtime_boot_mountpoint demo_signed_config) demo_image_spec = Inr (''/b/d.sfs'', ''/b/d.sig'')"
    by (simp add: resolve_image_def demo_image_spec_def demo_signed_config_def path_join_def slash_def)
  have "verify_image_fd_digest demo_crypto [demo_pair] (Some ''drv'')
      (Some (Some (demo_sidecar DOMAIN_DRIVER_IMAGE (CHR ''d'')))) DOMAIN_DRIVER_IMAGE demo_signing = Inr ''drv''"
    using demo_blob_signed [of "CHR ''d''" "''rv''" DOMAIN_DRIVER_IMAGE demo_signing]
    by (simp add: verify_image_fd_digest_def) (simp add: demo_crypto_def)
  then have v: "verify_driver_image demo_crypto [demo_pair] demo_image_os demo_signing (Some ''drv'') ''/b/d.sig'' = Inr ''drv''"
    by (simp add: verify_driver_image_def demo_image_os_def demo_image_files_def)
  have mp: "image_mountpoint 0 = ''/run/nmbl-driver-images/0''" by code_simp
  have m: "mount_squashfs_ro demo_image_os (Some ''drv'') 0 no_images =
      (Inr (0, ''/run/nmbl-driver-images/0''),
       no_images\<lparr>iw_loops := [0 \<mapsto> ''drv''], iw_mounts := [(''/run/nmbl-driver-images/0'', 0)]\<rparr>)"
    by (simp add: mount_squashfs_ro_def loop_bind_ro_def demo_image_os_def no_images_def mp Let_def)
  have o: "open_image_ro demo_image_os ''/b/d.sfs'' = Inr (Some ''drv'')"
    by (simp add: open_image_ro_def demo_image_os_def demo_image_files_def)
  have f: "add_firmware_search_path demo_image_os mp w = w" for mp w
    by (simp add: add_firmware_search_path_def demo_image_os_def)
  have lm: "load_image_modules demo_image_os [] demo_image_spec mp w = (Inr (), w)" for mp w
    by (simp add: load_image_modules_def demo_image_spec_def)
  have n: "from_utf8_lossy (ds_path demo_image_spec) = ''d.sfs''"
    by (auto simp: demo_image_spec_def is_ascii_def ord_def intro!: from_utf8_lossy_valid valid_utf8_ascii)
  show ?thesis
    by (simp add: load_driver_images_def load_one_def res o v m f lm n demo_image_handle_def)
qed

theorem only_signed_images_are_mounted_witness:
  "images_ok demo_crypto [demo_pair] demo_image_os
     (no_images\<lparr>iw_loops := [0 \<mapsto> ''drv''], iw_mounts := [(''/run/nmbl-driver-images/0'', 0)]\<rparr>)
   \<and> map di_name (measure_refs [demo_image_handle]) = [from_utf8_lossy ''d.sfs'']"
proof -
  have "policy_from_config demo_signing = Enforce" by (simp add: policy_from_config_def demo_signing_def)
  moreover have "images_ok demo_crypto [demo_pair] demo_image_os no_images"
    by (simp add: images_ok_def no_images_def)
  moreover have "loops_fresh demo_image_os" by (auto simp: loops_fresh_def demo_image_os_def split: if_splits)
  ultimately show ?thesis
    using only_signed_images_are_mounted [OF demo_image_loads] by (simp add: demo_image_spec_def)
qed

text \<open>Taking down what one run set up, in reverse order, restores the world's mounts and loop devices.\<close>

lemma teardown_undoes_mount:
  assumes "mount_squashfs_ro os fd index w = (Inr (i, mp), w1)" "io_umount os mp" "io_loop_open os i" "io_clear os i"
    and "iw_loops w i = None"
  shows "iw_loops (teardown_image os i mp w1) = iw_loops w \<and> iw_mounts (teardown_image os i mp w1) = iw_mounts w"
  using assms by (auto simp: mount_squashfs_ro_def loop_bind_ro_def teardown_image_def Let_def fun_upd_idem
      split: option.splits if_splits)

end
