(* ===== verification/Staged_Boot.thy ===== *)
theory Staged_Boot
  imports Driver_Images Cpio
begin

text \<open>
  Staged boot (\<open>staged\<close>): on an attested volume a signed configuration fragment and a signed image are
  verified, the fragment replaces tables of the base configuration when the result validates, and
  the modules, driver images and activations of the merged configuration are run. The tables that
  nothing here looks into have the type \<open>'t\<close>; the TOML reader, the validator and the activations are
  parameters.
\<close>

subsection \<open>Configuration and fragment\<close>

record tpm_config =
  tpm_measure :: bool
  tpm_pcr_index :: nat
  tpm_require_tpm :: bool
  tpm_device_path :: string
  tpm_sealed_secrets :: "(string \<times> string \<times> string) list"

record staged_config =
  sd_enable :: bool
  sd_image :: string
  sd_fragment :: string
  sd_sig :: string

record 't full_config =
  fc_general :: 't
  fc_kernel_modules :: kernel_modules_config
  fc_filesystems :: "fs_entry list"
  fc_activations :: "activation list"
  fc_tui :: 't
  fc_paths :: 't
  fc_splash :: 't
  fc_rescue :: 't
  fc_emergency_shell :: 't
  fc_driver_images :: driver_images_config
  fc_tpm :: tpm_config
  fc_signing :: signing_config
  fc_secure_boot :: secure_boot_config
  fc_staged :: "staged_config option"
  fc_runtime_boot_mountpoint :: "string option"

text \<open>A fragment has no table for signing, secure boot or staged boot.\<close>

record 't config_fragment =
  fr_general :: "'t option"
  fr_kernel_modules :: "kernel_modules_config option"
  fr_filesystems :: "fs_entry list option"
  fr_activations :: "activation list option"
  fr_tui :: "'t option"
  fr_paths :: "'t option"
  fr_splash :: "'t option"
  fr_rescue :: "'t option"
  fr_emergency_shell :: "'t option"
  fr_driver_images :: "driver_images_config option"
  fr_tpm :: "tpm_config option"

subsection \<open>The merge\<close>

text \<open>The displaced tables have the shape of a fragment.\<close>

type_synonym 't undo = "'t config_fragment"

definition no_undo :: "'t undo" where
  "no_undo = \<lparr>fr_general = None, fr_kernel_modules = None, fr_filesystems = None, fr_activations = None,
     fr_tui = None, fr_paths = None, fr_splash = None, fr_rescue = None, fr_emergency_shell = None,
     fr_driver_images = None, fr_tpm = None\<rparr>"

text \<open>\<open>mem::replace\<close> of one table, with what it displaced.\<close>

definition swap_table ::
  "'v option \<Rightarrow> ('c \<Rightarrow> 'v) \<Rightarrow> (('v \<Rightarrow> 'v) \<Rightarrow> 'c \<Rightarrow> 'c) \<Rightarrow> (('v option \<Rightarrow> 'v option) \<Rightarrow> 'u \<Rightarrow> 'u)
   \<Rightarrow> 'c \<times> 'u \<Rightarrow> 'c \<times> 'u" where
  "swap_table new get set_config set_undo =
     (\<lambda>(config, undo). case new of
        None \<Rightarrow> (config, undo)
      | Some v \<Rightarrow> (set_config (\<lambda>_. v) config, set_undo (\<lambda>_. Some (get config)) undo))"

definition put_table :: "'v option \<Rightarrow> (('v \<Rightarrow> 'v) \<Rightarrow> 'c \<Rightarrow> 'c) \<Rightarrow> 'c \<Rightarrow> 'c" where
  "put_table old set_config config = (case old of None \<Rightarrow> config | Some v \<Rightarrow> set_config (\<lambda>_. v) config)"

definition undo_restore :: "'t undo \<Rightarrow> 't full_config \<Rightarrow> 't full_config" where
  "undo_restore u config =
     (let c = put_table (fr_general u) fc_general_update config;
          c = put_table (fr_kernel_modules u) fc_kernel_modules_update c;
          c = put_table (fr_filesystems u) fc_filesystems_update c;
          c = put_table (fr_activations u) fc_activations_update c;
          c = put_table (fr_tui u) fc_tui_update c;
          c = put_table (fr_paths u) fc_paths_update c;
          c = put_table (fr_splash u) fc_splash_update c;
          c = put_table (fr_rescue u) fc_rescue_update c;
          c = put_table (fr_emergency_shell u) fc_emergency_shell_update c;
          c = put_table (fr_driver_images u) fc_driver_images_update c
      in put_table (fr_tpm u) fc_tpm_update c)"

text \<open>\<open>validate\<close> is the validator of the whole configuration, with the reason of a refusal.\<close>

definition merge_fragment ::
  "('t full_config \<Rightarrow> string option) \<Rightarrow> 't config_fragment \<Rightarrow> 't full_config
   \<Rightarrow> (string + unit) \<times> 't full_config" where
  "merge_fragment validate fr config =
     (let s = (config, no_undo);
          s = swap_table (fr_general fr) fc_general fc_general_update fr_general_update s;
          s = swap_table (fr_kernel_modules fr) fc_kernel_modules fc_kernel_modules_update fr_kernel_modules_update s;
          s = swap_table (fr_filesystems fr) fc_filesystems fc_filesystems_update fr_filesystems_update s;
          s = swap_table (fr_activations fr) fc_activations fc_activations_update fr_activations_update s;
          s = swap_table (fr_tui fr) fc_tui fc_tui_update fr_tui_update s;
          s = swap_table (fr_paths fr) fc_paths fc_paths_update fr_paths_update s;
          s = swap_table (fr_splash fr) fc_splash fc_splash_update fr_splash_update s;
          s = swap_table (fr_rescue fr) fc_rescue fc_rescue_update fr_rescue_update s;
          s = swap_table (fr_emergency_shell fr) fc_emergency_shell fc_emergency_shell_update fr_emergency_shell_update s;
          s = swap_table (fr_driver_images fr) fc_driver_images fc_driver_images_update fr_driver_images_update s;
          s = swap_table (fr_tpm fr) fc_tpm fc_tpm_update fr_tpm_update s
      in case validate (fst s) of
           None \<Rightarrow> (Inr (), fst s)
         | Some e \<Rightarrow> (Inl e, undo_restore (snd s) (fst s)))"

definition or_base :: "'v \<Rightarrow> 'v option \<Rightarrow> 'v" where
  "or_base base new = (case new of None \<Rightarrow> base | Some v \<Rightarrow> v)"

text \<open>What a merge means: each table of the fragment, where it has one, else of the base.\<close>

definition overlay :: "'t config_fragment \<Rightarrow> 't full_config \<Rightarrow> 't full_config" where
  "overlay fr c = c\<lparr>
     fc_general := or_base (fc_general c) (fr_general fr),
     fc_kernel_modules := or_base (fc_kernel_modules c) (fr_kernel_modules fr),
     fc_filesystems := or_base (fc_filesystems c) (fr_filesystems fr),
     fc_activations := or_base (fc_activations c) (fr_activations fr),
     fc_tui := or_base (fc_tui c) (fr_tui fr),
     fc_paths := or_base (fc_paths c) (fr_paths fr),
     fc_splash := or_base (fc_splash c) (fr_splash fr),
     fc_rescue := or_base (fc_rescue c) (fr_rescue fr),
     fc_emergency_shell := or_base (fc_emergency_shell c) (fr_emergency_shell fr),
     fc_driver_images := or_base (fc_driver_images c) (fr_driver_images fr),
     fc_tpm := or_base (fc_tpm c) (fr_tpm fr)\<rparr>"

text \<open>One swap, and one table put back, as record updates without a case distinction.\<close>

lemma swap_as_update:
  "fr_general u = None \<Longrightarrow> swap_table new_general fc_general fc_general_update fr_general_update (c, u) =
     (c\<lparr>fc_general := or_base (fc_general c) new_general\<rparr>, u\<lparr>fr_general := map_option (\<lambda>_. fc_general c) new_general\<rparr>)"
  "fr_kernel_modules u = None \<Longrightarrow> swap_table new_kernel_modules fc_kernel_modules fc_kernel_modules_update fr_kernel_modules_update (c, u) =
     (c\<lparr>fc_kernel_modules := or_base (fc_kernel_modules c) new_kernel_modules\<rparr>, u\<lparr>fr_kernel_modules := map_option (\<lambda>_. fc_kernel_modules c) new_kernel_modules\<rparr>)"
  "fr_filesystems u = None \<Longrightarrow> swap_table new_filesystems fc_filesystems fc_filesystems_update fr_filesystems_update (c, u) =
     (c\<lparr>fc_filesystems := or_base (fc_filesystems c) new_filesystems\<rparr>, u\<lparr>fr_filesystems := map_option (\<lambda>_. fc_filesystems c) new_filesystems\<rparr>)"
  "fr_activations u = None \<Longrightarrow> swap_table new_activations fc_activations fc_activations_update fr_activations_update (c, u) =
     (c\<lparr>fc_activations := or_base (fc_activations c) new_activations\<rparr>, u\<lparr>fr_activations := map_option (\<lambda>_. fc_activations c) new_activations\<rparr>)"
  "fr_tui u = None \<Longrightarrow> swap_table new_tui fc_tui fc_tui_update fr_tui_update (c, u) =
     (c\<lparr>fc_tui := or_base (fc_tui c) new_tui\<rparr>, u\<lparr>fr_tui := map_option (\<lambda>_. fc_tui c) new_tui\<rparr>)"
  "fr_paths u = None \<Longrightarrow> swap_table new_paths fc_paths fc_paths_update fr_paths_update (c, u) =
     (c\<lparr>fc_paths := or_base (fc_paths c) new_paths\<rparr>, u\<lparr>fr_paths := map_option (\<lambda>_. fc_paths c) new_paths\<rparr>)"
  "fr_splash u = None \<Longrightarrow> swap_table new_splash fc_splash fc_splash_update fr_splash_update (c, u) =
     (c\<lparr>fc_splash := or_base (fc_splash c) new_splash\<rparr>, u\<lparr>fr_splash := map_option (\<lambda>_. fc_splash c) new_splash\<rparr>)"
  "fr_rescue u = None \<Longrightarrow> swap_table new_rescue fc_rescue fc_rescue_update fr_rescue_update (c, u) =
     (c\<lparr>fc_rescue := or_base (fc_rescue c) new_rescue\<rparr>, u\<lparr>fr_rescue := map_option (\<lambda>_. fc_rescue c) new_rescue\<rparr>)"
  "fr_emergency_shell u = None \<Longrightarrow> swap_table new_emergency_shell fc_emergency_shell fc_emergency_shell_update fr_emergency_shell_update (c, u) =
     (c\<lparr>fc_emergency_shell := or_base (fc_emergency_shell c) new_emergency_shell\<rparr>, u\<lparr>fr_emergency_shell := map_option (\<lambda>_. fc_emergency_shell c) new_emergency_shell\<rparr>)"
  "fr_driver_images u = None \<Longrightarrow> swap_table new_driver_images fc_driver_images fc_driver_images_update fr_driver_images_update (c, u) =
     (c\<lparr>fc_driver_images := or_base (fc_driver_images c) new_driver_images\<rparr>, u\<lparr>fr_driver_images := map_option (\<lambda>_. fc_driver_images c) new_driver_images\<rparr>)"
  "fr_tpm u = None \<Longrightarrow> swap_table new_tpm fc_tpm fc_tpm_update fr_tpm_update (c, u) =
     (c\<lparr>fc_tpm := or_base (fc_tpm c) new_tpm\<rparr>, u\<lparr>fr_tpm := map_option (\<lambda>_. fc_tpm c) new_tpm\<rparr>)"
  by ((cases new_general; simp add: swap_table_def or_base_def),
    (cases new_kernel_modules; simp add: swap_table_def or_base_def),
    (cases new_filesystems; simp add: swap_table_def or_base_def),
    (cases new_activations; simp add: swap_table_def or_base_def),
    (cases new_tui; simp add: swap_table_def or_base_def),
    (cases new_paths; simp add: swap_table_def or_base_def),
    (cases new_splash; simp add: swap_table_def or_base_def),
    (cases new_rescue; simp add: swap_table_def or_base_def),
    (cases new_emergency_shell; simp add: swap_table_def or_base_def),
    (cases new_driver_images; simp add: swap_table_def or_base_def),
    (cases new_tpm; simp add: swap_table_def or_base_def))

lemma put_as_update:
  "put_table (map_option (\<lambda>_. v_general) new_general) fc_general_update c =
     c\<lparr>fc_general := or_base (fc_general c) (map_option (\<lambda>_. v_general) new_general)\<rparr>"
  "put_table (map_option (\<lambda>_. v_kernel_modules) new_kernel_modules) fc_kernel_modules_update c =
     c\<lparr>fc_kernel_modules := or_base (fc_kernel_modules c) (map_option (\<lambda>_. v_kernel_modules) new_kernel_modules)\<rparr>"
  "put_table (map_option (\<lambda>_. v_filesystems) new_filesystems) fc_filesystems_update c =
     c\<lparr>fc_filesystems := or_base (fc_filesystems c) (map_option (\<lambda>_. v_filesystems) new_filesystems)\<rparr>"
  "put_table (map_option (\<lambda>_. v_activations) new_activations) fc_activations_update c =
     c\<lparr>fc_activations := or_base (fc_activations c) (map_option (\<lambda>_. v_activations) new_activations)\<rparr>"
  "put_table (map_option (\<lambda>_. v_tui) new_tui) fc_tui_update c =
     c\<lparr>fc_tui := or_base (fc_tui c) (map_option (\<lambda>_. v_tui) new_tui)\<rparr>"
  "put_table (map_option (\<lambda>_. v_paths) new_paths) fc_paths_update c =
     c\<lparr>fc_paths := or_base (fc_paths c) (map_option (\<lambda>_. v_paths) new_paths)\<rparr>"
  "put_table (map_option (\<lambda>_. v_splash) new_splash) fc_splash_update c =
     c\<lparr>fc_splash := or_base (fc_splash c) (map_option (\<lambda>_. v_splash) new_splash)\<rparr>"
  "put_table (map_option (\<lambda>_. v_rescue) new_rescue) fc_rescue_update c =
     c\<lparr>fc_rescue := or_base (fc_rescue c) (map_option (\<lambda>_. v_rescue) new_rescue)\<rparr>"
  "put_table (map_option (\<lambda>_. v_emergency_shell) new_emergency_shell) fc_emergency_shell_update c =
     c\<lparr>fc_emergency_shell := or_base (fc_emergency_shell c) (map_option (\<lambda>_. v_emergency_shell) new_emergency_shell)\<rparr>"
  "put_table (map_option (\<lambda>_. v_driver_images) new_driver_images) fc_driver_images_update c =
     c\<lparr>fc_driver_images := or_base (fc_driver_images c) (map_option (\<lambda>_. v_driver_images) new_driver_images)\<rparr>"
  "put_table (map_option (\<lambda>_. v_tpm) new_tpm) fc_tpm_update c =
     c\<lparr>fc_tpm := or_base (fc_tpm c) (map_option (\<lambda>_. v_tpm) new_tpm)\<rparr>"
  by ((cases new_general; simp add: put_table_def or_base_def),
    (cases new_kernel_modules; simp add: put_table_def or_base_def),
    (cases new_filesystems; simp add: put_table_def or_base_def),
    (cases new_activations; simp add: put_table_def or_base_def),
    (cases new_tui; simp add: put_table_def or_base_def),
    (cases new_paths; simp add: put_table_def or_base_def),
    (cases new_splash; simp add: put_table_def or_base_def),
    (cases new_rescue; simp add: put_table_def or_base_def),
    (cases new_emergency_shell; simp add: put_table_def or_base_def),
    (cases new_driver_images; simp add: put_table_def or_base_def),
    (cases new_tpm; simp add: put_table_def or_base_def))

lemma or_base_put_back [simp]: "or_base (or_base a new) (map_option (\<lambda>_. a) new) = a"
  by (cases new) (simp_all add: or_base_def)

lemma merge_is_overlay:
  "merge_fragment validate fr c =
     (case validate (overlay fr c) of None \<Rightarrow> (Inr (), overlay fr c) | Some e \<Rightarrow> (Inl e, c))"
proof -
  define u where "u = \<lparr>fr_general = map_option (\<lambda>_. fc_general c) (fr_general fr), fr_kernel_modules = map_option (\<lambda>_. fc_kernel_modules c) (fr_kernel_modules fr), fr_filesystems = map_option (\<lambda>_. fc_filesystems c) (fr_filesystems fr), fr_activations = map_option (\<lambda>_. fc_activations c) (fr_activations fr), fr_tui = map_option (\<lambda>_. fc_tui c) (fr_tui fr), fr_paths = map_option (\<lambda>_. fc_paths c) (fr_paths fr), fr_splash = map_option (\<lambda>_. fc_splash c) (fr_splash fr), fr_rescue = map_option (\<lambda>_. fc_rescue c) (fr_rescue fr), fr_emergency_shell = map_option (\<lambda>_. fc_emergency_shell c) (fr_emergency_shell fr), fr_driver_images = map_option (\<lambda>_. fc_driver_images c) (fr_driver_images fr), fr_tpm = map_option (\<lambda>_. fc_tpm c) (fr_tpm fr)\<rparr>"
  have "undo_restore u (overlay fr c) = c"
    by (simp add: undo_restore_def u_def put_as_update overlay_def Let_def)
  then show ?thesis
    by (simp add: merge_fragment_def no_undo_def swap_as_update Let_def overlay_def u_def split: option.split)
qed

subsection \<open>Verification and the run\<close>

datatype staged_error =
    Staged_Signature string
  | Staged_Io
  | Staged_Parse
  | Staged_Invalid string
  | Staged_Modules module_error
  | Staged_Images image_error
  | Staged_Activation string

text \<open>The reader of fragments, the validator, and what running activations gives.\<close>

record 't staged_env =
  se_parse :: "bytes \<Rightarrow> 't config_fragment option"
  se_validate :: "'t full_config \<Rightarrow> string option"
  se_activate :: "activation list \<Rightarrow> image_world \<Rightarrow> (string + injection_entry list) \<times> image_world"

definition join_under :: "string \<Rightarrow> string \<Rightarrow> string" where
  "join_under mp rel = path_join mp (strip_leading_slash rel)"

definition staged_sidecar_path :: "string \<Rightarrow> string \<Rightarrow> string" where
  "staged_sidecar_path p suffix = p @ suffix"

definition verify_one ::
  "crypto \<Rightarrow> (bytes \<times> alg_id) list \<Rightarrow> file_access \<Rightarrow> signing_config \<Rightarrow> string \<Rightarrow> string \<Rightarrow> bytes \<Rightarrow> string
   \<Rightarrow> staged_error + unit" where
  "verify_one cr baked fa sg blob sig_path domain label =
     rbind (ok_or (Staged_Signature label) (open_file fa blob)) (\<lambda>fd.
     case apply_policy sg (verify_image_fd cr baked fd (Some (read_file fa sig_path)) domain sg) of
       Gate_Proceed \<Rightarrow> Inr ()
     | Gate_Refuse cause \<Rightarrow> Inl (Staged_Signature label))"

definition verify_staged_blobs ::
  "crypto \<Rightarrow> (bytes \<times> alg_id) list \<Rightarrow> file_access \<Rightarrow> attested_volume \<Rightarrow> 't full_config \<Rightarrow> staged_error + unit" where
  "verify_staged_blobs cr baked fa attested config =
     rbind (ok_or (Staged_Signature ''staged-missing'') (fc_staged config)) (\<lambda>staged.
     let mp = av_mountpoint attested;
         image_path = join_under mp (sd_image staged)
     in rbind (verify_one cr baked fa (fc_signing config) image_path
                 (staged_sidecar_path image_path (sg_suffix (fc_signing config))) DOMAIN_DRIVER_IMAGE ''staged-image'')
          (\<lambda>_. verify_one cr baked fa (fc_signing config) (join_under mp (sd_fragment staged))
                 (join_under mp (sd_sig staged)) DOMAIN_STAGED_FRAGMENT ''staged-fragment''))"

definition resolve_fragment_path :: "attested_volume \<Rightarrow> 't full_config \<Rightarrow> string" where
  "resolve_fragment_path attested config =
     join_under (av_mountpoint attested) (case fc_staged config of None \<Rightarrow> [] | Some s \<Rightarrow> sd_fragment s)"

text \<open>The fragment is read by path, after the verification closed its descriptor.\<close>

definition load_fragment :: "('t staged_env) \<Rightarrow> file_access \<Rightarrow> string \<Rightarrow> staged_error + 't config_fragment" where
  "load_fragment env fa p =
     (case read_file fa p of
        None \<Rightarrow> Inl Staged_Io
      | Some text \<Rightarrow>
          if \<not> valid_utf8 text then Inl Staged_Io else ok_or Staged_Parse (se_parse env text))"

text \<open>\<open>handles\<close> is the accumulator of driver images that the boot measures and tears down.\<close>

definition rerun_merged_effects ::
  "crypto \<Rightarrow> (bytes \<times> alg_id) list \<Rightarrow> image_os \<Rightarrow> 't staged_env \<Rightarrow> 't full_config
   \<Rightarrow> driver_image_handle list \<Rightarrow> image_world
   \<Rightarrow> (staged_error + injection_entry list) \<times> driver_image_handle list \<times> image_world" where
  "rerun_merged_effects cr baked os env config handles w =
     (case load_module_set (io_modules os) (io_read_text os) (io_release os) (fc_kernel_modules config) Explicit
             (iw_calls w) of
        (Inl e, calls) \<Rightarrow> (Inl (Staged_Modules e), handles, w\<lparr>iw_calls := calls\<rparr>)
      | (Inr _, calls) \<Rightarrow>
     (case load_driver_images cr baked os (fc_runtime_boot_mountpoint config) (fc_signing config)
             (km_blacklist (fc_kernel_modules config)) (fc_driver_images config) (w\<lparr>iw_calls := calls\<rparr>) of
        (Inl e, w1) \<Rightarrow> (Inl (Staged_Images e), handles, w1)
      | (Inr staged, w1) \<Rightarrow>
     (case se_activate env (fc_activations config) w1 of
        (Inl e, w2) \<Rightarrow> (Inl (Staged_Activation e), handles @ staged, w2)
      | (Inr injections, w2) \<Rightarrow> (Inr injections, handles @ staged, w2))))"

definition staged_apply_inner ::
  "crypto \<Rightarrow> (bytes \<times> alg_id) list \<Rightarrow> image_os \<Rightarrow> 't staged_env \<Rightarrow> attested_volume \<Rightarrow> 't full_config
   \<Rightarrow> driver_image_handle list \<Rightarrow> image_world
   \<Rightarrow> (staged_error + injection_entry list) \<times> 't full_config \<times> driver_image_handle list \<times> image_world" where
  "staged_apply_inner cr baked os env attested config handles w =
     (case verify_staged_blobs cr baked (io_files os) attested config of
        Inl e \<Rightarrow> (Inl e, config, handles, w)
      | Inr _ \<Rightarrow>
     (case load_fragment env (io_files os) (resolve_fragment_path attested config) of
        Inl e \<Rightarrow> (Inl e, config, handles, w)
      | Inr fragment \<Rightarrow>
     (case merge_fragment (se_validate env) fragment config of
        (Inl e, config1) \<Rightarrow> (Inl (Staged_Invalid e), config1, handles, w)
      | (Inr _, config1) \<Rightarrow>
          (case rerun_merged_effects cr baked os env config1 handles w of
             (r, handles1, w1) \<Rightarrow> (r, config1, handles1, w1)))))"

definition staged_boot_enabled :: "'t full_config \<Rightarrow> bool" where
  "staged_boot_enabled config = (case fc_staged config of None \<Rightarrow> False | Some s \<Rightarrow> sd_enable s)"

text \<open>An error is a refusal by policy, with its cause.\<close>

definition apply_staged_boot ::
  "crypto \<Rightarrow> (bytes \<times> alg_id) list \<Rightarrow> image_os \<Rightarrow> 't staged_env \<Rightarrow> attested_volume \<Rightarrow> 't full_config
   \<Rightarrow> driver_image_handle list \<Rightarrow> image_world
   \<Rightarrow> (staged_error + injection_entry list) \<times> 't full_config \<times> driver_image_handle list \<times> image_world" where
  "apply_staged_boot cr baked os env attested config handles w =
     (if \<not> staged_boot_enabled config then (Inr [], config, handles, w)
      else staged_apply_inner cr baked os env attested config handles w)"

subsection \<open>What a fragment can do\<close>

lemma overlay_keeps_policy [simp]:
  "fc_signing (overlay fr c) = fc_signing c" "fc_secure_boot (overlay fr c) = fc_secure_boot c"
  "fc_staged (overlay fr c) = fc_staged c" "fc_runtime_boot_mountpoint (overlay fr c) = fc_runtime_boot_mountpoint c"
  by (simp_all add: overlay_def)

text \<open>A blob of the volume that is signed for a role, as its pinned descriptor reads.\<close>

definition volume_signed ::
  "crypto \<Rightarrow> (bytes \<times> alg_id) list \<Rightarrow> file_access \<Rightarrow> string \<Rightarrow> string \<Rightarrow> bytes \<Rightarrow> bool" where
  "volume_signed cr baked fa blob sig_path domain \<longleftrightarrow>
     (\<exists>content sb. open_file fa blob = Some (Some content) \<and> read_file fa sig_path = Some sb
        \<and> blob_signed cr baked (sha512 cr content) sb domain)"

lemma verify_one_InrD:
  assumes "verify_one cr baked fa sg blob sig_path domain label = Inr ()" "policy_from_config sg = Enforce"
  shows "volume_signed cr baked fa blob sig_path domain"
proof -
  from assms(1) obtain fd where "open_file fa blob = Some fd"
    "(case apply_policy sg (verify_image_fd cr baked fd (Some (read_file fa sig_path)) domain sg) of
        Gate_Proceed \<Rightarrow> Inr () | Gate_Refuse cause \<Rightarrow> Inl (Staged_Signature label)) = Inr ()"
    by (auto simp: verify_one_def rbind_Inr_iff)
  then have fd: "open_file fa blob = Some fd"
    "apply_policy sg (verify_image_fd cr baked fd (Some (read_file fa sig_path)) domain sg) = Gate_Proceed"
    by (simp_all split: policy_decision.splits)
  with assms(2) obtain u where "verify_image_fd cr baked fd (Some (read_file fa sig_path)) domain sg = Inr u"
    by (auto simp: apply_policy_def split: sum.splits)
  then obtain d where "verify_image_fd_digest cr baked fd (Some (read_file fa sig_path)) domain sg = Inr d"
    by (auto simp: verify_image_fd_def rbind_Inr_iff)
  from verify_image_fd_InrD [OF this] fd(1) show ?thesis by (auto simp: volume_signed_def)
qed

lemma verify_staged_blobs_InrD:
  assumes "verify_staged_blobs cr baked fa attested config = Inr ()" "policy_from_config (fc_signing config) = Enforce"
  shows "\<exists>s. fc_staged config = Some s
    \<and> volume_signed cr baked fa (join_under (av_mountpoint attested) (sd_image s))
        (join_under (av_mountpoint attested) (sd_image s) @ sg_suffix (fc_signing config)) DOMAIN_DRIVER_IMAGE
    \<and> volume_signed cr baked fa (resolve_fragment_path attested config)
        (join_under (av_mountpoint attested) (sd_sig s)) DOMAIN_STAGED_FRAGMENT"
  using assms by (auto simp: verify_staged_blobs_def rbind_Inr_iff Let_def staged_sidecar_path_def
      resolve_fragment_path_def dest!: verify_one_InrD)

lemma staged_cases:
  assumes "apply_staged_boot cr baked os env attested config handles w = (r, config', handles', w')"
  obtains (untouched) "config' = config" "handles' = handles" "w' = w"
      "(\<exists>e. r = Inl e) \<or> r = Inr [] \<and> \<not> staged_boot_enabled config"
    | (merged) fr bs where "staged_boot_enabled config"
      "verify_staged_blobs cr baked (io_files os) attested config = Inr ()"
      "read_file (io_files os) (resolve_fragment_path attested config) = Some bs" "se_parse env bs = Some fr"
      "config' = overlay fr config" "se_validate env config' = None"
      "rerun_merged_effects cr baked os env config' handles w = (r, handles', w')"
proof (cases "staged_boot_enabled config")
  case False
  with assms untouched show ?thesis by (auto simp: apply_staged_boot_def)
next
  case en: True
  show ?thesis
  proof (cases "verify_staged_blobs cr baked (io_files os) attested config")
    case (Inl e)
    with assms en untouched show ?thesis by (auto simp: apply_staged_boot_def staged_apply_inner_def)
  next
    case v: (Inr u)
    show ?thesis
    proof (cases "load_fragment env (io_files os) (resolve_fragment_path attested config)")
      case (Inl e)
      with assms en v untouched show ?thesis by (auto simp: apply_staged_boot_def staged_apply_inner_def)
    next
      case l: (Inr fr)
      then obtain bs where bs: "read_file (io_files os) (resolve_fragment_path attested config) = Some bs"
        "se_parse env bs = Some fr"
        by (auto simp: load_fragment_def ok_or_def split: option.splits if_splits)
      show ?thesis
      proof (cases "se_validate env (overlay fr config)")
        case (Some e)
        with assms en v l untouched show ?thesis
          by (auto simp: apply_staged_boot_def staged_apply_inner_def merge_is_overlay)
      next
        case None
        with assms en v l have "config' = overlay fr config"
          "rerun_merged_effects cr baked os env config' handles w = (r, handles', w')"
          by (auto simp: apply_staged_boot_def staged_apply_inner_def merge_is_overlay split: prod.splits)
        with merged en v bs None show ?thesis by simp
      qed
    qed
  qed
qed

lemma rerun_keeps_images_ok:
  assumes "rerun_merged_effects cr baked os env config handles w = (r, handles', w')"
    and "policy_from_config (fc_signing config) = Enforce" "images_ok cr baked os w"
    and "\<And>acts w. images_ok cr baked os w \<Longrightarrow> images_ok cr baked os (snd (se_activate env acts w))"
  shows "images_ok cr baked os w'"
proof -
  obtain r1 calls where m: "load_module_set (io_modules os) (io_read_text os) (io_release os)
      (fc_kernel_modules config) Explicit (iw_calls w) = (r1, calls)" by fastforce
  let ?w = "w\<lparr>iw_calls := calls\<rparr>"
  have ok: "images_ok cr baked os ?w" using assms(3) by (simp add: images_ok_def)
  show ?thesis
  proof (cases r1)
    case (Inl e)
    with assms(1) m ok show ?thesis by (auto simp: rerun_merged_effects_def)
  next
    case (Inr u)
    obtain r2 w1 where l: "load_driver_images cr baked os (fc_runtime_boot_mountpoint config) (fc_signing config)
        (km_blacklist (fc_kernel_modules config)) (fc_driver_images config) ?w = (r2, w1)" by fastforce
    have ok1: "images_ok cr baked os w1"
    proof (cases "\<not> dc_enable (fc_driver_images config) \<or> dc_images (fc_driver_images config) = []")
      case True
      with l ok show ?thesis by (auto simp: load_driver_images_def)
    next
      case False
      with l load_images_ok [OF _ assms(2) ok] show ?thesis by (auto simp: load_driver_images_def)
    qed
    obtain r3 w2 where a: "se_activate env (fc_activations config) w1 = (r3, w2)" by fastforce
    with assms(4) [OF ok1, of "fc_activations config"] have "images_ok cr baked os w2" by simp
    with assms(1) m l a Inr ok1 show ?thesis
      by (auto simp: rerun_merged_effects_def split: sum.splits)
  qed
qed


text \<open>C40: The merge is all or nothing: when the overlay of the fragment over the base validates it is
  the new configuration, and otherwise the swap of up to eleven tables is undone to the very base;
  the validator sees the whole candidate.\<close>

theorem merge_is_all_or_nothing:
  "merge_fragment validate fr config =
     (case validate (overlay fr config) of
        None \<Rightarrow> (Inr (), overlay fr config)
      | Some e \<Rightarrow> (Inl e, config))"
  by (rule merge_is_overlay)

subsection \<open>What a refusal after the merge relocks\<close>

text \<open>The part of the configuration that the refusal looks at.\<close>

definition seal_view :: "seal_config \<Rightarrow> 't full_config \<Rightarrow> seal_config" where
  "seal_view sc config =
     sc\<lparr>sc_activations := fc_activations config, sc_tpm_require_tpm := tpm_require_tpm (fc_tpm config)\<rparr>"

text \<open>When the run of the merged configuration fails, the configuration that the refusal sees is
  the merged one, not the base: it relocks the volumes of the fragment's activations and none of
  the base's, which are open by then.\<close>

theorem failed_rerun_relocks_the_fragment:
  assumes "apply_staged_boot cr baked os env attested config handles w = (Inl cause, config', handles', w')"
    and "config' \<noteq> config"
    and "\<And>bs fr. se_parse env bs = Some fr \<Longrightarrow> fr_activations fr = Some acts"
  shows "\<exists>before locks. trace (snd (relock_and_refuse wd rn (seal_view sc config') failure s)) = before @ Ev_Sentinel # locks
    \<and> map run_of locks = map (\<lambda>c. Some (rl_binary c, rl_argv c)) (List.map_filter relock_argv acts)"
  using assms(1)
proof (cases rule: staged_cases)
  case untouched
  with assms(2) show ?thesis by simp
next
  case (merged fr bs)
  have "sc_activations (seal_view sc config') = acts"
    using assms(3) [OF merged(4)] merged(5) by (simp add: seal_view_def overlay_def or_base_def)
  with refuse_trace [of wd rn "seal_view sc config'" failure s] show ?thesis
    by (metis append.assoc)
qed

text \<open>A volume with a signed image and a signed fragment that empties the list of activations.\<close>

definition demo_staged_files :: file_access where
  "demo_staged_files = \<lparr>
     open_file = (\<lambda>p. if p = ''/v/img'' then Some (Some ''im'') else if p = ''/v/frag'' then Some (Some ''fr'') else None),
     read_file = (\<lambda>p. if p = ''/v/img.sig'' then Some (demo_sidecar DOMAIN_DRIVER_IMAGE (CHR ''i''))
       else if p = ''/v/frag.sig'' then Some (demo_sidecar DOMAIN_STAGED_FRAGMENT (CHR ''f''))
       else if p = ''/v/frag'' then Some ''fr'' else None)\<rparr>"

definition demo_staged_os :: image_os where
  "demo_staged_os = demo_image_os\<lparr>io_files := demo_staged_files\<rparr>"

definition demo_password_volume :: activation where
  "demo_password_volume = demo_luks\<lparr>act_kind := Luks_Password\<rparr>"

definition demo_full_config :: "unit full_config" where
  "demo_full_config = \<lparr>fc_general = (),
     fc_kernel_modules = \<lparr>km_modules_dir = [], km_early = [], km_explicit = [], km_blacklist = []\<rparr>,
     fc_filesystems = [], fc_activations = [demo_password_volume], fc_tui = (), fc_paths = (), fc_splash = (),
     fc_rescue = (), fc_emergency_shell = (), fc_driver_images = \<lparr>dc_enable = False, dc_images = []\<rparr>,
     fc_tpm = \<lparr>tpm_measure = True, tpm_pcr_index = 11, tpm_require_tpm = True, tpm_device_path = [],
       tpm_sealed_secrets = []\<rparr>,
     fc_signing = demo_signing, fc_secure_boot = demo_secure_boot,
     fc_staged = Some \<lparr>sd_enable = True, sd_image = ''img'', sd_fragment = ''frag'', sd_sig = ''frag.sig''\<rparr>,
     fc_runtime_boot_mountpoint = Some ''/b''\<rparr>"

definition demo_fragment :: "unit config_fragment" where
  "demo_fragment = no_undo\<lparr>fr_activations := Some []\<rparr>"

definition demo_staged_env :: "(string + injection_entry list) \<Rightarrow> unit staged_env" where
  "demo_staged_env answer = \<lparr>se_parse = (\<lambda>_. Some demo_fragment), se_validate = (\<lambda>_. None),
     se_activate = (\<lambda>_ w. (answer, w))\<rparr>"

definition demo_attested :: attested_volume where
  "demo_attested = \<lparr>av_mountpoint = ''/v'', av_owned_mount = None\<rparr>"

lemma demo_joins:
  "join_under ''/v'' ''img'' = ''/v/img''" "join_under ''/v'' ''frag'' = ''/v/frag''"
  "join_under ''/v'' ''frag.sig'' = ''/v/frag.sig''"
  by code_simp+

lemma demo_blobs_verify:
  "verify_staged_blobs demo_crypto [demo_pair] (io_files demo_staged_os) demo_attested demo_full_config = Inr ()"
proof -
  have "verify_image_fd demo_crypto [demo_pair] (Some ''im'')
      (Some (Some (demo_sidecar DOMAIN_DRIVER_IMAGE (CHR ''i'')))) DOMAIN_DRIVER_IMAGE demo_signing = Inr ()"
    "verify_image_fd demo_crypto [demo_pair] (Some ''fr'')
      (Some (Some (demo_sidecar DOMAIN_STAGED_FRAGMENT (CHR ''f'')))) DOMAIN_STAGED_FRAGMENT demo_signing = Inr ()"
    using demo_blob_signed [of "CHR ''i''" "''m''" DOMAIN_DRIVER_IMAGE demo_signing]
      demo_blob_signed [of "CHR ''f''" "''r''" DOMAIN_STAGED_FRAGMENT demo_signing]
    by (simp_all add: verify_image_fd_def verify_image_fd_digest_def) (simp_all add: demo_crypto_def)
  moreover have "sg_suffix demo_signing = ''.sig''" by (simp add: demo_signing_def)
  ultimately show ?thesis
    by (simp add: verify_staged_blobs_def verify_one_def demo_full_config_def demo_attested_def demo_joins
        staged_sidecar_path_def demo_staged_os_def demo_staged_files_def apply_policy_def)
qed

lemma demo_rerun:
  "rerun_merged_effects demo_crypto [demo_pair] demo_staged_os (demo_staged_env answer)
     (overlay demo_fragment demo_full_config) [] no_images = (map_err Staged_Activation answer, [], no_images)"
  by (simp add: rerun_merged_effects_def load_module_set_def module_list_def load_driver_images_def overlay_def
      demo_full_config_def demo_fragment_def no_undo_def or_base_def demo_staged_env_def map_err_def no_images_def
      split: sum.split)

lemma demo_staged_run:
  "apply_staged_boot demo_crypto [demo_pair] demo_staged_os (demo_staged_env answer) demo_attested demo_full_config
     [] no_images = (map_err Staged_Activation answer, overlay demo_fragment demo_full_config, [], no_images)"
proof -
  have en: "staged_boot_enabled demo_full_config" by (simp add: staged_boot_enabled_def demo_full_config_def)
  have "resolve_fragment_path demo_attested demo_full_config = ''/v/frag''"
    by (simp add: resolve_fragment_path_def demo_attested_def demo_full_config_def demo_joins)
  moreover have "valid_utf8 ''fr''" by (rule valid_utf8_ascii) (auto simp: is_ascii_def ord_def)
  ultimately have "load_fragment (demo_staged_env answer) (io_files demo_staged_os)
      (resolve_fragment_path demo_attested demo_full_config) = Inr demo_fragment"
    by (simp add: load_fragment_def demo_staged_os_def demo_staged_files_def demo_staged_env_def ok_or_def)
  moreover have "se_validate (demo_staged_env answer) c = None" for c by (simp add: demo_staged_env_def)
  ultimately show ?thesis
    using demo_rerun [of answer]
    by (simp add: apply_staged_boot_def en staged_apply_inner_def demo_blobs_verify merge_is_overlay)
qed

lemma demo_overlay_differs: "overlay demo_fragment demo_full_config \<noteq> demo_full_config"
  by (simp add: overlay_def demo_fragment_def demo_full_config_def no_undo_def or_base_def)


theorem failed_rerun_relocks_the_fragment_witness:
  "List.map_filter relock_argv (fc_activations demo_full_config) \<noteq> []
   \<and> (\<exists>before locks. trace (snd (relock_and_refuse (demo_world (\<lambda>_. Capped)) Async_Runner
         (seal_view demo_seal_config (overlay demo_fragment demo_full_config)) (Text_Failure ''no device'')
         (demo_boot []))) = before @ Ev_Sentinel # locks \<and> map run_of locks = [])"
proof
  have "relock_argv demo_password_volume =
      Some \<lparr>rl_binary = ''/bin/cryptsetup'', rl_argv = [''close'', ''root''], rl_label = ''LUKS mapper root'',
        rl_absent_exit_code = 4\<rparr>"
    by code_simp
  then show "List.map_filter relock_argv (fc_activations demo_full_config) \<noteq> []"
    by (simp add: demo_full_config_def List.map_filter_simps)
  have e: "map_err Staged_Activation (Inl ''no device'') = Inl (Staged_Activation ''no device'')"
    by (simp add: map_err_def)
  have fr: "fr_activations fr = Some []"
    if "se_parse (demo_staged_env (Inl ''no device'')) bs = Some fr" for bs fr
    using that by (auto simp: demo_staged_env_def demo_fragment_def)
  from failed_rerun_relocks_the_fragment [OF demo_staged_run [of "Inl ''no device''", unfolded e] demo_overlay_differs fr]
  show "\<exists>before locks. trace (snd (relock_and_refuse (demo_world (\<lambda>_. Capped)) Async_Runner
         (seal_view demo_seal_config (overlay demo_fragment demo_full_config)) (Text_Failure ''no device'')
         (demo_boot []))) = before @ Ev_Sentinel # locks \<and> map run_of locks = []"
    by (simp add: List.map_filter_simps)
qed

subsection \<open>Which images a staged boot loads\<close>

text \<open>
  The images of the merged configuration are loaded and appended, whoever declared them. A fragment
  without a table of images loads the base's images once more, onto the same mount points, and
  doubles them in the measurement.
\<close>

lemma staged_images_appended:
  assumes "rerun_merged_effects cr baked os env config handles w = (Inr injections, handles', w')"
    and "policy_from_config (fc_signing config) = Enforce" "images_ok cr baked os w" "dc_enable (fc_driver_images config)"
  shows "\<exists>new. handles' = handles @ new
    \<and> map dh_name new = map (\<lambda>s. from_utf8_lossy (ds_path s)) (dc_images (fc_driver_images config))
    \<and> map dh_mountpoint new = map image_mountpoint [0..<length (dc_images (fc_driver_images config))]"
proof -
  let ?dc = "fc_driver_images config"
  from assms(1) obtain calls staged w1 where l: "load_driver_images cr baked os (fc_runtime_boot_mountpoint config)
      (fc_signing config) (km_blacklist (fc_kernel_modules config)) ?dc (w\<lparr>iw_calls := calls\<rparr>) = (Inr staged, w1)"
    and h: "handles' = handles @ staged"
    by (auto simp: rerun_merged_effects_def split: prod.splits sum.splits)
  have ok: "images_ok cr baked os (w\<lparr>iw_calls := calls\<rparr>)" using assms(3) by (simp add: images_ok_def)
  show ?thesis
  proof (cases "dc_images ?dc = []")
    case True
    with l h show ?thesis by (auto simp: load_driver_images_def)
  next
    case False
    with l assms(4) have "load_images cr baked os (fc_runtime_boot_mountpoint config) (fc_signing config)
        (km_blacklist (fc_kernel_modules config)) (dc_images ?dc) 0 [] (w\<lparr>iw_calls := calls\<rparr>) = (Inr staged, w1)"
      by (simp add: load_driver_images_def)
    from load_images_ok [OF this assms(2) ok] h show ?thesis by simp
  qed
qed

lemma base_images_are_loaded_twice:
  assumes base: "load_driver_images cr baked os (fc_runtime_boot_mountpoint config) (fc_signing config) blacklist
        (fc_driver_images config) w0 = (Inr handles, w)"
    and run: "rerun_merged_effects cr baked os env (overlay fr config) handles w = (Inr injections, handles', w')"
    and "fr_driver_images fr = None" "dc_enable (fc_driver_images config)"
    and "policy_from_config (fc_signing config) = Enforce" "images_ok cr baked os w0"
  shows "map dh_name handles' = map dh_name handles @ map dh_name handles
    \<and> map dh_mountpoint handles' = map dh_mountpoint handles @ map dh_mountpoint handles"
proof -
  let ?dc = "fc_driver_images config"
  have first: "images_ok cr baked os w \<and> map dh_name handles = map (\<lambda>s. from_utf8_lossy (ds_path s)) (dc_images ?dc)
      \<and> map dh_mountpoint handles = map image_mountpoint [0..<length (dc_images ?dc)]"
  proof (cases "dc_images ?dc = []")
    case True
    with base assms(6) show ?thesis by (auto simp: load_driver_images_def)
  next
    case False
    with base assms(4) have "load_images cr baked os (fc_runtime_boot_mountpoint config) (fc_signing config)
        blacklist (dc_images ?dc) 0 [] w0 = (Inr handles, w)" by (simp add: load_driver_images_def)
    from load_images_ok [OF this assms(5,6)] show ?thesis by simp
  qed
  have same: "fc_driver_images (overlay fr config) = ?dc" using assms(3) by (simp add: overlay_def or_base_def)
  from staged_images_appended [OF run] assms(4,5) first same obtain new where
    "handles' = handles @ new" "map dh_name new = map dh_name handles" "map dh_mountpoint new = map dh_mountpoint handles"
    by auto
  then show ?thesis by simp
qed

end
