(* ===== verification/Kexec_Handoff.thy ===== *)
theory Kexec_Handoff
  imports Staged_Boot Logs "HOL-Library.Sublist"
begin

unbundle bit_operations_syntax

text \<open>
  The handover to the chosen generation (\<open>boot/mod.rs\<close>, \<open>boot/handoff.rs\<close>, \<open>boot/handoff_load.rs\<close>,
  \<open>sys/kexec.rs\<close>): the command line, the verification of kernel and initrd over pinned descriptors,
  the injection of keys and the log, the measurement, the load into the kexec slot, and the order in
  which the mounts go. The kernel and the TPM are records of answers; the slot keeps an image until
  another is loaded.
\<close>

subsection \<open>The command line\<close>

definition ROLLBACK_CMDLINE :: string where
  "ROLLBACK_CMDLINE = ''nmbl.rollback-after-untested-new-generation-failed''"

definition INIT_KEY :: string where
  "INIT_KEY = ''init=''"

definition build_cmdline :: "generation \<Rightarrow> string option \<Rightarrow> string \<Rightarrow> string" where
  "build_cmdline g cmdline_override root =
     (case cmdline_override of
        Some s \<Rightarrow> s
      | None \<Rightarrow>
          (let joined = join '' '' (kernel_params g) in
           if list_ex (starts_with INIT_KEY) (split_ascii_whitespace joined) then joined
           else
             (let init_arg = (case path_strip_prefix root (init_path g) of
                  Some rel \<Rightarrow> ''/'' @ from_utf8_lossy rel
                | None \<Rightarrow> from_utf8_lossy (init_path g))
              in if joined = [] then INIT_KEY @ init_arg else joined @ '' '' @ INIT_KEY @ init_arg)))"

text \<open>After a rollback of a generation image the command line says so, once.\<close>

definition mark_rollback :: "bool \<Rightarrow> string \<Rightarrow> string" where
  "mark_rollback rolled_back cmdline =
     (if rolled_back \<and> ROLLBACK_CMDLINE \<notin> set (split_ascii_whitespace cmdline)
      then (if cmdline = [] then cmdline else cmdline @ '' '') @ ROLLBACK_CMDLINE
      else cmdline)"

subsection \<open>Staging\<close>

definition NMBL_LOG_PATH :: string where
  "NMBL_LOG_PATH = ''/nmbl-log/nmbl.log''"

text \<open>\<open>flushed\<close> is whether the write of the log file succeeds, \<open>reread\<close> what reading it back gives.\<close>

definition stage_log_for_kexec :: "byte_log option \<Rightarrow> bool \<Rightarrow> (bytes \<Rightarrow> bytes option) \<Rightarrow> bytes" where
  "stage_log_for_kexec ring flushed reread =
     (if \<not> flushed then [] else case reread (flush_to ring) of None \<Rightarrow> [] | Some bs \<Rightarrow> bs)"

definition handoff_entries :: "injection_entry list \<Rightarrow> bytes \<Rightarrow> injection_entry list" where
  "handoff_entries keys log_bytes = keys @ [\<lparr>inj_path = NMBL_LOG_PATH, inj_content = log_bytes\<rparr>]"

subsection \<open>Verification\<close>

datatype refuse_cause = Cause_Sig sig_error | Cause_Tpm tpm_error

datatype handoff_error = Kexec_Load string | Policy_Refused refuse_cause

definition verify_generation_signature ::
  "crypto \<Rightarrow> (bytes \<times> alg_id) list \<Rightarrow> file_access \<Rightarrow> (string \<Rightarrow> string option) \<Rightarrow> boot_config
   \<Rightarrow> signing_config \<Rightarrow> generation \<Rightarrow> handoff_error + verified_generation option" where
  "verify_generation_signature cr baked fa canon cfg sg g =
     (if \<not> sg_enable sg then Inr None
      else case verify_generation_pinned cr baked fa canon cfg sg g of
        Inr verified \<Rightarrow> Inr (Some verified)
      | Inl err \<Rightarrow>
          (case policy_from_config sg of
             Enforce \<Rightarrow> Inl (Policy_Refused (Cause_Sig err))
           | Audit \<Rightarrow> Inr None))"

subsection \<open>Measurement\<close>

text \<open>The TPM as the handoff sees it: the firmware variables, the class node, the codec of the commands,
  and what opening the device gives for the read of PCR 7 and for the extends.\<close>

record 'd tpm_host =
  th_efivar :: "string \<Rightarrow> bytes option"
  th_node :: "string \<Rightarrow> bool"
  th_codec :: tpm_codec
  th_open_read :: "tpm_error + 'd tpm_device"
  th_open_extend :: "tpm_error + 'd tpm_device"

definition measure_required :: "tpm_config \<Rightarrow> secure_boot_config \<Rightarrow> bool" where
  "measure_required t sb \<longleftrightarrow> tpm_measure t \<or> sb_enable sb"

definition measure_handoff ::
  "(bytes \<Rightarrow> bytes) \<Rightarrow> 'd tpm_host \<Rightarrow> tpm_config \<Rightarrow> secure_boot_config \<Rightarrow> verified_generation option \<Rightarrow> string
   \<Rightarrow> driver_image_handle list \<Rightarrow> 'd \<Rightarrow> ((handoff_error + unit) \<times> 'd) option" where
  "measure_handoff sha th t sb verified cmdline handles d =
     (if \<not> measure_required t sb then Some (Inr (), d)
      else case enforce_secure_boot_state (th_efivar th) (th_node th) (th_codec th) (th_open_read th) (sb_enforce sb) d of
        None \<Rightarrow> None
      | Some (Inl e, d1) \<Rightarrow> Some (Inl (Policy_Refused (Cause_Sig e)), d1)
      | Some (Inr _, d1) \<Rightarrow>
          (case verified of
             None \<Rightarrow> Some (Inl (Policy_Refused (Cause_Tpm (Tpm_Proto ''measure required but generation was not verified''))), d1)
           | Some vg \<Rightarrow>
               (case extend_handoff sha (th_codec th) (th_open_extend th) (kernel_digest vg) (initrd_digest vg) cmdline
                       (measure_refs handles) d1 of
                  None \<Rightarrow> None
                | Some (Inl e, d2) \<Rightarrow> Some (Inl (Policy_Refused (Cause_Tpm e)), d2)
                | Some (Inr _, d2) \<Rightarrow> Some (Inr (), d2))))"

subsection \<open>The kexec slot\<close>

record kexec_image =
  ki_kernel :: bytes
  ki_initrd :: "bytes option"
  ki_cmdline :: bytes
  ki_flags :: nat

text \<open>
  \<open>kx_open\<close> is the content behind a fresh descriptor of a path, \<open>kx_pinned\<close> what a descriptor that
  was pinned with some content reads now, \<open>kx_chunk\<close> how many bytes one \<open>read\<close> gives at an offset
  (\<open>None\<close> an error), \<open>kx_write\<close> how many one \<open>write\<close> takes of what remains, \<open>kx_load\<close> whether
  \<open>kexec_file_load\<close> accepts an image.
\<close>

record kexec_env =
  kx_open :: "string \<Rightarrow> bytes option"
  kx_read_file :: "string \<Rightarrow> bytes option"
  kx_pinned :: "bytes option \<Rightarrow> bytes option"
  kx_seek :: bool
  kx_chunk :: "bytes \<Rightarrow> nat \<Rightarrow> nat option"
  kx_memfd :: bool
  kx_write :: "bytes \<Rightarrow> nat option"
  kx_rewind :: bool
  kx_load :: "kexec_image \<Rightarrow> bool"

definition KEXEC_FILE_NO_INITRAMFS :: nat where
  "KEXEC_FILE_NO_INITRAMFS = 4"

definition build_cmdline_cstring :: "string \<Rightarrow> handoff_error + bytes" where
  "build_cmdline_cstring cmdline =
     (if nul \<in> set cmdline then Inl (Kexec_Load ''EINVAL'') else Inr (cmdline @ [nul]))"

text \<open>The kernel reads both files while it loads; a file it cannot read fails the call.\<close>

definition load_with_initrd_fd ::
  "kexec_env \<Rightarrow> string \<Rightarrow> bytes option option \<Rightarrow> string option \<Rightarrow> bytes option \<Rightarrow> string \<Rightarrow> nat
   \<Rightarrow> kexec_image option \<Rightarrow> (handoff_error + unit) \<times> kexec_image option" where
  "load_with_initrd_fd kx kernel_path kfd initrd_path initrd_memfd cmdline flags slot =
     (case (case kfd of None \<Rightarrow> ok_or (Kexec_Load ''open kernel'') (map_option Some (kx_open kx kernel_path))
                      | Some fd \<Rightarrow> Inr (kx_pinned kx fd)) of
        Inl e \<Rightarrow> (Inl e, slot)
      | Inr kernel_file \<Rightarrow>
     (case (case initrd_memfd of
              Some bs \<Rightarrow> Inr (Some bs)
            | None \<Rightarrow> (case initrd_path of
                         None \<Rightarrow> Inr None
                       | Some p \<Rightarrow> ok_or (Kexec_Load ''open initrd'') (map_option Some (kx_open kx p)))) of
        Inl e \<Rightarrow> (Inl e, slot)
      | Inr initrd_file \<Rightarrow>
     (case build_cmdline_cstring cmdline of
        Inl e \<Rightarrow> (Inl e, slot)
      | Inr cbuf \<Rightarrow>
          (let effective = (case initrd_file of None \<Rightarrow> flags OR KEXEC_FILE_NO_INITRAMFS | Some _ \<Rightarrow> flags) in
           case kernel_file of
             None \<Rightarrow> (Inl (Kexec_Load ''kexec_file_load''), slot)
           | Some kbytes \<Rightarrow>
               (let img = \<lparr>ki_kernel = kbytes, ki_initrd = initrd_file, ki_cmdline = cbuf, ki_flags = effective\<rparr> in
                if kx_load kx img then (Inr (), Some img)
                else (Inl (Kexec_Load ''kexec_file_load''), slot))))))"

definition load :: "kexec_env \<Rightarrow> string \<Rightarrow> string option \<Rightarrow> string \<Rightarrow> nat \<Rightarrow> kexec_image option
    \<Rightarrow> (handoff_error + unit) \<times> kexec_image option" where
  "load kx kernel_path initrd_path cmdline flags slot =
     load_with_initrd_fd kx kernel_path None initrd_path None cmdline flags slot"

definition CHUNK :: nat where
  "CHUNK = 65536"

text \<open>The loop reads until a \<open>read\<close> gives nothing.\<close>

function read_to_end :: "(nat \<Rightarrow> nat option) \<Rightarrow> bytes \<Rightarrow> nat \<Rightarrow> bytes option" where
  "read_to_end chunk content pos =
     (case chunk pos of
        None \<Rightarrow> None
      | Some k \<Rightarrow>
          (let n = min k (min CHUNK (length content - pos)) in
           if n = 0 then Some []
           else map_option ((@) (take n (drop pos content))) (read_to_end chunk content (pos + n))))"
  by pat_completeness auto
termination by (relation "measure (\<lambda>(_, content, pos). length content - pos)") (auto simp: CHUNK_def)

declare read_to_end.simps [simp del]

definition read_initrd_bytes :: "kexec_env \<Rightarrow> string \<Rightarrow> bytes option option \<Rightarrow> handoff_error + bytes" where
  "read_initrd_bytes kx initrd_path ifd =
     (case ifd of
        Some fd \<Rightarrow>
          if \<not> kx_seek kx then Inl (Kexec_Load ''seek'')
          else (case kx_pinned kx fd of
                  None \<Rightarrow> Inl (Kexec_Load ''read'')
                | Some content \<Rightarrow> ok_or (Kexec_Load ''read'') (read_to_end (kx_chunk kx content) content 0))
      | None \<Rightarrow> ok_or (Kexec_Load ''read'') (kx_read_file kx initrd_path))"

function align_initrd :: "bytes \<Rightarrow> bytes" where
  "align_initrd bs = (if length bs mod 4 = 0 then bs else align_initrd (bs @ [nul]))"
  by pat_completeness auto
termination
proof (relation "measure (\<lambda>bs. (4 - length bs mod 4) mod 4)", rule wf_measure)
  fix bs :: bytes assume "length bs mod 4 \<noteq> 0"
  moreover have "length bs mod 4 < 4" by simp
  ultimately consider "length bs mod 4 = 1" | "length bs mod 4 = 2" | "length bs mod 4 = 3" by linarith
  then show "(bs @ [nul], bs) \<in> measure (\<lambda>bs. (4 - length bs mod 4) mod 4)"
    by cases (simp_all add: mod_Suc)
qed

declare align_initrd.simps [simp del]

function write_memfd :: "(bytes \<Rightarrow> nat option) \<Rightarrow> bytes \<Rightarrow> bytes \<Rightarrow> bytes option" where
  "write_memfd write_some remaining written =
     (if remaining = [] then Some written
      else case write_some remaining of
        None \<Rightarrow> None
      | Some n \<Rightarrow>
          if n = 0 then None else write_memfd write_some (drop n remaining) (written @ take n remaining))"
  by pat_completeness auto
termination by (relation "measure (\<lambda>(_, remaining, _). length remaining)") auto

declare write_memfd.simps [simp del]

definition load_cpio_core ::
  "kexec_env \<Rightarrow> string \<Rightarrow> bytes option option \<Rightarrow> string \<Rightarrow> bytes option option \<Rightarrow> bytes \<Rightarrow> string \<Rightarrow> nat
   \<Rightarrow> kexec_image option \<Rightarrow> (handoff_error + unit) \<times> kexec_image option" where
  "load_cpio_core kx kernel_path kfd initrd_path ifd extra_cpio cmdline flags slot =
     (case read_initrd_bytes kx initrd_path ifd of
        Inl e \<Rightarrow> (Inl e, slot)
      | Inr bs \<Rightarrow>
          (let combined = align_initrd bs @ extra_cpio in
           if \<not> kx_memfd kx then (Inl (Kexec_Load ''memfd_create''), slot)
           else case write_memfd (kx_write kx) combined [] of
             None \<Rightarrow> (Inl (Kexec_Load ''write''), slot)
           | Some written \<Rightarrow>
               if \<not> kx_rewind kx then (Inl (Kexec_Load ''seek''), slot)
               else load_with_initrd_fd kx kernel_path kfd (Some initrd_path) (Some written) cmdline flags slot))"

definition load_with_extra_initrd_cpio ::
  "kexec_env \<Rightarrow> string \<Rightarrow> string \<Rightarrow> bytes \<Rightarrow> string \<Rightarrow> nat \<Rightarrow> kexec_image option
   \<Rightarrow> (handoff_error + unit) \<times> kexec_image option" where
  "load_with_extra_initrd_cpio kx kernel_path initrd_path extra_cpio cmdline flags slot =
     load_cpio_core kx kernel_path None initrd_path None extra_cpio cmdline flags slot"

definition load_with_kernel_fd_and_extra_initrd_cpio ::
  "kexec_env \<Rightarrow> string \<Rightarrow> bytes option \<Rightarrow> string \<Rightarrow> bytes option \<Rightarrow> bytes \<Rightarrow> string \<Rightarrow> nat \<Rightarrow> kexec_image option
   \<Rightarrow> (handoff_error + unit) \<times> kexec_image option" where
  "load_with_kernel_fd_and_extra_initrd_cpio kx kernel_path kfd initrd_path ifd extra_cpio cmdline flags slot =
     load_cpio_core kx kernel_path (Some kfd) initrd_path (Some ifd) extra_cpio cmdline flags slot"

definition load_handoff ::
  "kexec_env \<Rightarrow> generation \<Rightarrow> verified_generation option \<Rightarrow> bytes \<Rightarrow> string \<Rightarrow> kexec_image option
   \<Rightarrow> (handoff_error + unit) \<times> kexec_image option" where
  "load_handoff kx g verified fragment cmdline slot =
     (case verified of
        Some vg \<Rightarrow>
          load_with_kernel_fd_and_extra_initrd_cpio kx (kernel g) (kernel_fd vg) (initrd g) (initrd_fd vg)
            fragment cmdline 0 slot
      | None \<Rightarrow> load_with_extra_initrd_cpio kx (kernel g) (initrd g) fragment cmdline 0 slot)"

text \<open>
  The steps in their fixed order. The result is the command line; the TPM and the slot are threaded
  through, and \<open>None\<close> is a TPM that is waited for without end.
\<close>

record handoff_os =
  ho_files :: file_access
  ho_canon :: "string \<Rightarrow> string option"
  ho_kexec :: kexec_env
  ho_flushed :: bool
  ho_log_read :: "bytes \<Rightarrow> bytes option"

record handoff_config =
  hc_boot :: boot_config
  hc_signing :: signing_config
  hc_secure_boot :: secure_boot_config
  hc_tpm :: tpm_config

definition handoff_cmdline :: "handoff_config \<Rightarrow> generation \<Rightarrow> string option \<Rightarrow> string" where
  "handoff_cmdline hc g cmdline_override =
     mark_rollback (generation_rollback (hc_boot hc)) (build_cmdline g cmdline_override (system_root (hc_boot hc)))"

definition handoff_fragment :: "handoff_os \<Rightarrow> injection_entry list \<Rightarrow> byte_log option \<Rightarrow> bytes" where
  "handoff_fragment ho keys ring =
     build_fragment (handoff_entries keys (stage_log_for_kexec ring (ho_flushed ho) (ho_log_read ho)))"

definition verify_measure_then_load ::
  "crypto \<Rightarrow> (bytes \<times> alg_id) list \<Rightarrow> handoff_os \<Rightarrow> 'd tpm_host \<Rightarrow> handoff_config \<Rightarrow> generation \<Rightarrow> string option
   \<Rightarrow> injection_entry list \<Rightarrow> driver_image_handle list \<Rightarrow> byte_log option \<Rightarrow> 'd \<Rightarrow> kexec_image option
   \<Rightarrow> ((handoff_error + string) \<times> 'd \<times> kexec_image option) option" where
  "verify_measure_then_load cr baked ho th hc g cmdline_override keys handles ring d slot =
     (let cmdline = handoff_cmdline hc g cmdline_override in
      case verify_generation_signature cr baked (ho_files ho) (ho_canon ho) (hc_boot hc) (hc_signing hc) g of
        Inl e \<Rightarrow> Some (Inl e, d, slot)
      | Inr verified \<Rightarrow>
          (let fragment = handoff_fragment ho keys ring in
           case measure_handoff (sha256 cr) th (hc_tpm hc) (hc_secure_boot hc) verified cmdline handles d of
             None \<Rightarrow> None
           | Some (Inl e, d1) \<Rightarrow> Some (Inl e, d1, slot)
           | Some (Inr _, d1) \<Rightarrow>
               (case load_handoff (ho_kexec ho) g verified fragment cmdline slot of
                  (Inl e, slot1) \<Rightarrow> Some (Inl e, d1, slot1)
                | (Inr _, slot1) \<Rightarrow> Some (Inr cmdline, d1, slot1))))"

subsection \<open>Leaving\<close>

definition PSEUDO_FS :: "string list" where
  "PSEUDO_FS = [''/proc'', ''/sys'', ''/dev'', ''/run'', ''/tmp'']"

definition reverse_mount_targets :: "boot_config \<Rightarrow> string list" where
  "reverse_mount_targets cfg = map (resolve_mountpoint (system_root cfg)) (rev (filesystems cfg))"

text \<open>The set of paths that are detached already compares paths by their components.\<close>

fun detach_each :: "string list \<Rightarrow> string list \<Rightarrow> string list \<times> string list" where
  "detach_each already [] = ([], already)"
| "detach_each already (target # targets) =
     (if list_ex (path_eq target) already then detach_each already targets
      else case detach_each (target # already) targets of (ds, a) \<Rightarrow> (target # ds, a))"

definition kexec_detaches :: "boot_config \<Rightarrow> string list" where
  "kexec_detaches cfg =
     (let (ds1, already) = detach_each [] (case runtime_state_mountpoint cfg of None \<Rightarrow> [] | Some mp \<Rightarrow> [mp]);
          (ds2, already) = detach_each already (reverse_mount_targets cfg);
          (ds3, already) = detach_each already [system_root cfg]
      in ds1 @ ds2 @ ds3 @ rev PSEUDO_FS)"

text \<open>The mounts that are detached lazily, in order, are part of the result; their failures are not.\<close>

definition kexec_into ::
  "crypto \<Rightarrow> (bytes \<times> alg_id) list \<Rightarrow> handoff_os \<Rightarrow> 'd tpm_host \<Rightarrow> handoff_config \<Rightarrow> generation \<Rightarrow> string option
   \<Rightarrow> injection_entry list \<Rightarrow> driver_image_handle list \<Rightarrow> byte_log option \<Rightarrow> 'd \<Rightarrow> kexec_image option
   \<Rightarrow> ((handoff_error + terminal_action) \<times> string list \<times> 'd \<times> kexec_image option) option" where
  "kexec_into cr baked ho th hc g cmdline_override keys handles ring d slot =
     (case verify_measure_then_load cr baked ho th hc g cmdline_override keys handles ring d slot of
        None \<Rightarrow> None
      | Some (Inl e, d1, slot1) \<Rightarrow> Some (Inl e, [], d1, slot1)
      | Some (Inr _, d1, slot1) \<Rightarrow> Some (Inr Kexec, kexec_detaches (hc_boot hc), d1, slot1))"

subsection \<open>The reader of the command line\<close>

text \<open>\<open>handover/cmdline.rs\<close>, the decoder that tells apart what the loader put on the line.\<close>

record cmdline_param =
  cp_raw :: string
  cp_key :: string
  cp_value :: "string option"
  cp_nmbl_set :: bool

definition is_nmbl_key :: "string \<Rightarrow> bool" where
  "is_nmbl_key k \<longleftrightarrow> k = ''init'' \<or> k = ROLLBACK_CMDLINE \<or> starts_with ''nmbl.'' k"

definition parse_param :: "string \<Rightarrow> cmdline_param" where
  "parse_param tok =
     (let (k, v) = (case split_once (CHR ''='') tok of Some (k, v) \<Rightarrow> (k, Some v) | None \<Rightarrow> (tok, None))
      in \<lparr>cp_raw = tok, cp_key = k, cp_value = v, cp_nmbl_set = is_nmbl_key k\<rparr>)"

definition parse_cmdline :: "string \<Rightarrow> cmdline_param list" where
  "parse_cmdline cmdline = map parse_param (split_ascii_whitespace cmdline)"

definition nmbl_params :: "cmdline_param list \<Rightarrow> cmdline_param list" where
  "nmbl_params ps = filter cp_nmbl_set ps"

definition generation_params :: "cmdline_param list \<Rightarrow> cmdline_param list" where
  "generation_params ps = filter (\<lambda>p. \<not> cp_nmbl_set p) ps"

definition has_rollback_marker :: "cmdline_param list \<Rightarrow> bool" where
  "has_rollback_marker ps = list_ex (\<lambda>p. cp_key p = ROLLBACK_CMDLINE) ps"

definition boot_set_config :: "cmdline_param list \<Rightarrow> string option" where
  "boot_set_config ps = Option.bind (find (\<lambda>p. cp_key p = ''nmbl.config'') ps) cp_value"

subsection \<open>The loops of the load\<close>

lemma align_is_pad: "align_initrd bs = pad_to_4 bs"
proof (induction bs rule: align_initrd.induct)
  case (1 bs)
  show ?case
  proof (cases "length bs mod 4 = 0")
    case True
    then show ?thesis by (subst align_initrd.simps) (simp add: pad_to_4_def)
  next
    case False
    then have IH: "align_initrd (bs @ [nul]) = pad_to_4 (bs @ [nul])" by (rule 1)
    have "length bs mod 4 < 4" by simp
    with False consider "length bs mod 4 = 1" | "length bs mod 4 = 2" | "length bs mod 4 = 3" by linarith
    then have "(4 - length bs mod 4) mod 4 = Suc ((4 - length (bs @ [nul]) mod 4) mod 4)"
      by cases (simp_all add: mod_Suc)
    with False IH show ?thesis by (subst align_initrd.simps) (simp add: pad_to_4_def)
  qed
qed

lemma align_length: "length (align_initrd bs) mod 4 = 0"
proof (induction bs rule: align_initrd.induct)
  case (1 bs)
  then show ?case by (subst align_initrd.simps) simp
qed

lemma write_memfd_all: "write_memfd f remaining written = Some out \<Longrightarrow> out = written @ remaining"
proof (induction f remaining written rule: write_memfd.induct)
  case (1 f remaining written)
  show ?case
  proof (cases "remaining = []")
    case True
    with "1.prems" show ?thesis by (simp add: write_memfd.simps)
  next
    case False
    with "1.prems" obtain n where n: "f remaining = Some n" "n \<noteq> 0"
      "write_memfd f (drop n remaining) (written @ take n remaining) = Some out"
      by (auto simp: write_memfd.simps [of f remaining] split: option.splits if_splits)
    with "1.IH" [OF False n(1,2,3)] show ?thesis by simp
  qed
qed

text \<open>\<open>read(2)\<close> gives nothing only at the end of a file.\<close>

definition reads_on :: "kexec_env \<Rightarrow> bool" where
  "reads_on kx \<longleftrightarrow> (\<forall>content pos. pos < length content \<longrightarrow> kx_chunk kx content pos \<noteq> Some 0)"

lemma read_to_end_all:
  "read_to_end chunk content pos = Some out \<Longrightarrow> (\<And>p. p < length content \<Longrightarrow> chunk p \<noteq> Some 0) \<Longrightarrow>
   out = drop pos content"
proof (induction chunk content pos arbitrary: out rule: read_to_end.induct)
  case (1 chunk content pos)
  from "1.prems"(1) obtain k where k: "chunk pos = Some k"
    by (auto simp: read_to_end.simps [of chunk] split: option.splits)
  obtain n where n: "n = min k (min CHUNK (length content - pos))" by simp
  show ?case
  proof (cases "n = 0")
    case True
    have "length content \<le> pos"
    proof (rule ccontr)
      assume "\<not> length content \<le> pos"
      with "1.prems"(2) [of pos] k have "k \<noteq> 0" by auto
      with True n \<open>\<not> length content \<le> pos\<close> show False by (auto simp: CHUNK_def min_def split: if_splits)
    qed
    moreover have "out = []" using "1.prems"(1) k n True by (simp add: read_to_end.simps [of chunk] Let_def)
    ultimately show ?thesis by simp
  next
    case False
    with "1.prems"(1) k n obtain rest where rest: "read_to_end chunk content (pos + n) = Some rest"
      "out = take n (drop pos content) @ rest"
      by (auto simp: read_to_end.simps [of chunk content pos] Let_def)
    from "1.IH" [OF k n False rest(1) "1.prems"(2)] have "rest = drop (pos + n) content" by simp
    with rest(2) show ?thesis by (metis add.commute append_take_drop_id drop_drop)
  qed
qed

subsection \<open>What is loaded\<close>

text \<open>A pinned descriptor still reads what it read when it was verified.\<close>

definition pins_hold :: "kexec_env \<Rightarrow> bool" where
  "pins_hold kx \<longleftrightarrow> (\<forall>fd. kx_pinned kx fd = fd)"

lemma verify_pinned_InrD:
  assumes "verify_generation_pinned cr baked fa canon cfg sg g = Inr vg"
  obtains dir kc ic where "generation_sig_dir canon cfg g = Inr dir"
    "open_file fa (kernel g) = Some (Some kc)" "open_file fa (initrd g) = Some (Some ic)"
    "vg = \<lparr>kernel_fd = Some kc, initrd_fd = Some ic, kernel_digest = sha512 cr kc, initrd_digest = sha512 cr ic\<rparr>"
    "generation_signed cr baked fa (kernel g) (path_join dir (''kernel'' @ sg_suffix sg)) DOMAIN_GEN_KERNEL"
    "generation_signed cr baked fa (initrd g) (path_join dir (''initrd'' @ sg_suffix sg)) DOMAIN_GEN_INITRD"
proof -
  from assms obtain dir kfd kd ifd idig where *: "generation_sig_dir canon cfg g = Inr dir"
    "open_file fa (kernel g) = Some kfd"
    "verify_image_fd_digest cr baked kfd (Some (read_file fa (path_join dir (''kernel'' @ sg_suffix sg))))
       DOMAIN_GEN_KERNEL sg = Inr kd"
    "verify_generation_blob_pinned cr baked fa sg (initrd g) (path_join dir (''initrd'' @ sg_suffix sg))
       DOMAIN_GEN_INITRD = Inr (ifd, idig)"
    "vg = \<lparr>kernel_fd = kfd, initrd_fd = ifd, kernel_digest = kd, initrd_digest = idig\<rparr>"
    by (auto simp: verify_generation_pinned_def rbind_Inr_iff)
  from *(4) have i: "open_file fa (initrd g) = Some ifd"
    "verify_image_fd_digest cr baked ifd (Some (read_file fa (path_join dir (''initrd'' @ sg_suffix sg))))
       DOMAIN_GEN_INITRD sg = Inr idig"
    by (auto simp: verify_generation_blob_pinned_def rbind_Inr_iff)
  from verify_image_fd_InrD [OF *(3)] verify_image_fd_InrD [OF i(2)] obtain kc ks ic si where
    "kfd = Some kc" "read_file fa (path_join dir (''kernel'' @ sg_suffix sg)) = Some ks" "kd = sha512 cr kc"
    "blob_signed cr baked (sha512 cr kc) ks DOMAIN_GEN_KERNEL"
    "ifd = Some ic" "read_file fa (path_join dir (''initrd'' @ sg_suffix sg)) = Some si" "idig = sha512 cr ic"
    "blob_signed cr baked (sha512 cr ic) si DOMAIN_GEN_INITRD" by blast
  with * i(1) that show ?thesis by (simp add: generation_signed_def)
qed

lemma load_with_initrd_fd_cases:
  assumes "load_with_initrd_fd kx kp kfd ip im cmdline flags slot = (r, slot')"
  shows "(\<exists>e. r = Inl e) \<and> slot' = slot
    \<or> r = Inr () \<and> (\<exists>img. slot' = Some img \<and> kx_load kx img \<and> nul \<notin> set cmdline \<and> ki_cmdline img = cmdline @ [nul]
        \<and> (\<forall>bs. im = Some bs \<longrightarrow> ki_initrd img = Some bs \<and> ki_flags img = flags)
        \<and> (case kfd of None \<Rightarrow> kx_open kx kp | Some fd \<Rightarrow> kx_pinned kx fd) = Some (ki_kernel img))"
  using assms
  by (auto simp: load_with_initrd_fd_def build_cmdline_cstring_def ok_or_def Let_def
      split: option.splits sum.splits if_splits)

lemma load_cpio_core_cases:
  assumes "load_cpio_core kx kp kfd ip ifd extra cmdline flags slot = (r, slot')"
  shows "(\<exists>e. r = Inl e) \<and> slot' = slot
    \<or> r = Inr () \<and> (\<exists>img bs. slot' = Some img \<and> read_initrd_bytes kx ip ifd = Inr bs
        \<and> nul \<notin> set cmdline \<and> ki_cmdline img = cmdline @ [nul] \<and> ki_flags img = flags
        \<and> ki_initrd img = Some (align_initrd bs @ extra)
        \<and> (case kfd of None \<Rightarrow> kx_open kx kp | Some fd \<Rightarrow> kx_pinned kx fd) = Some (ki_kernel img))"
proof (cases "read_initrd_bytes kx ip ifd")
  case (Inl e)
  with assms show ?thesis by (auto simp: load_cpio_core_def)
next
  case (Inr bs)
  show ?thesis
  proof (cases "write_memfd (kx_write kx) (align_initrd bs @ extra) []")
    case None
    with Inr assms show ?thesis by (auto simp: load_cpio_core_def Let_def split: if_splits)
  next
    case (Some written)
    have w: "written = align_initrd bs @ extra" using write_memfd_all [OF Some] by simp
    show ?thesis
    proof (cases "kx_memfd kx \<and> kx_rewind kx")
      case False
      with Inr Some assms show ?thesis
        by (cases "kx_memfd kx"; cases "kx_rewind kx") (auto simp: load_cpio_core_def Let_def)
    next
      case True
      with Inr Some w assms
      have "load_with_initrd_fd kx kp kfd (Some ip) (Some (align_initrd bs @ extra)) cmdline flags slot = (r, slot')"
        by (simp add: load_cpio_core_def Let_def)
      from load_with_initrd_fd_cases [OF this] Inr show ?thesis by auto
    qed
  qed
qed

lemma read_pinned_initrd:
  assumes "read_initrd_bytes kx ip (Some (Some content)) = Inr bs" "pins_hold kx" "reads_on kx"
  shows "bs = content"
proof -
  from assms(1,2) have "read_to_end (kx_chunk kx content) content 0 = Some bs"
    by (auto simp: read_initrd_bytes_def pins_hold_def ok_or_def split: if_splits option.splits)
  moreover have "\<And>p. p < length content \<Longrightarrow> kx_chunk kx content p \<noteq> Some 0"
    using assms(3) unfolding reads_on_def by blast
  ultimately have "bs = drop 0 content" by (rule read_to_end_all)
  then show ?thesis by simp
qed

lemma measure_keeps_verified:
  "measure_handoff sha th t sb verified cmdline handles d = Some (Inr u, d') \<Longrightarrow>
   measure_required t sb \<Longrightarrow> verified \<noteq> None"
  by (auto simp: measure_handoff_def split: option.splits sum.splits prod.splits)

lemma handoff_cases:
  assumes "verify_measure_then_load cr baked ho th hc g cmdline_override keys handles ring d slot = Some (r, d', slot')"
  obtains (refused) e where "r = Inl e" "slot' = slot"
    | (loaded) verified bs img where "r = Inr (handoff_cmdline hc g cmdline_override)" "slot' = Some img"
      "verify_generation_signature cr baked (ho_files ho) (ho_canon ho) (hc_boot hc) (hc_signing hc) g = Inr verified"
      "measure_handoff (sha256 cr) th (hc_tpm hc) (hc_secure_boot hc) verified (handoff_cmdline hc g cmdline_override)
         handles d = Some (Inr (), d')"
      "read_initrd_bytes (ho_kexec ho) (initrd g) (map_option initrd_fd verified) = Inr bs"
      "ki_initrd img = Some (align_initrd bs @ handoff_fragment ho keys ring)"
      "ki_cmdline img = handoff_cmdline hc g cmdline_override @ [nul]"
      "(case map_option kernel_fd verified of None \<Rightarrow> kx_open (ho_kexec ho) (kernel g)
        | Some fd \<Rightarrow> kx_pinned (ho_kexec ho) fd) = Some (ki_kernel img)"
proof (cases "verify_generation_signature cr baked (ho_files ho) (ho_canon ho) (hc_boot hc) (hc_signing hc) g")
  case (Inl e)
  with assms refused show ?thesis by (auto simp: verify_measure_then_load_def)
next
  case v: (Inr verified)
  let ?c = "handoff_cmdline hc g cmdline_override" and ?f = "handoff_fragment ho keys ring"
  let ?m = "measure_handoff (sha256 cr) th (hc_tpm hc) (hc_secure_boot hc) verified ?c handles d"
  have "?m \<noteq> None"
  proof
    assume "?m = None"
    with assms v show False by (simp add: verify_measure_then_load_def Let_def)
  qed
  then obtain mr d1 where m: "?m = Some (mr, d1)" by (cases ?m) auto
  show ?thesis
  proof (cases mr)
    case (Inl e)
    with assms v m refused show ?thesis by (auto simp: verify_measure_then_load_def Let_def)
  next
    case (Inr u)
    obtain lr s1 where l: "load_handoff (ho_kexec ho) g verified ?f ?c slot = (lr, s1)" by fastforce
    then have core: "load_cpio_core (ho_kexec ho) (kernel g) (map_option kernel_fd verified) (initrd g)
        (map_option initrd_fd verified) ?f ?c 0 slot = (lr, s1)"
      by (simp add: load_handoff_def load_with_kernel_fd_and_extra_initrd_cpio_def load_with_extra_initrd_cpio_def
          split: option.splits)
    from load_cpio_core_cases [OF core] show ?thesis
    proof (elim disjE conjE exE)
      fix e assume "lr = Inl e" "s1 = slot"
      with assms v m Inr l refused show ?thesis by (auto simp: verify_measure_then_load_def Let_def)
    next
      fix img bs assume "lr = Inr ()" "s1 = Some img" and i: "read_initrd_bytes (ho_kexec ho) (initrd g)
          (map_option initrd_fd verified) = Inr bs" "ki_cmdline img = ?c @ [nul]"
        "ki_initrd img = Some (align_initrd bs @ ?f)"
        "(case map_option kernel_fd verified of None \<Rightarrow> kx_open (ho_kexec ho) (kernel g)
        | Some fd \<Rightarrow> kx_pinned (ho_kexec ho) fd) = Some (ki_kernel img)"
      then have "r = Inr ?c" "slot' = Some img" "d' = d1"
        using assms v m Inr l by (simp_all add: verify_measure_then_load_def Let_def)
      with loaded v m Inr i show ?thesis by simp
    qed
  qed
qed

lemma enforced_verified:
  assumes "verify_generation_signature cr baked fa canon cfg sg g = Inr verified" "sg_enable sg" "sg_enforce sg"
  shows "\<exists>vg. verified = Some vg \<and> verify_generation_pinned cr baked fa canon cfg sg g = Inr vg"
  using assms by (auto simp: verify_generation_signature_def policy_from_config_def
      split: sum.splits verify_policy.splits if_splits)

lemma loaded_is_verified:
  assumes "verify_measure_then_load cr baked ho th hc g cmdline_override keys handles ring d slot =
      Some (Inr cmdline, d', slot')"
    and "sg_enable (hc_signing hc)" "sg_enforce (hc_signing hc)"
    and "pins_hold (ho_kexec ho)" "reads_on (ho_kexec ho)"
  obtains dir kc ic img where "generation_sig_dir (ho_canon ho) (hc_boot hc) g = Inr dir"
    "open_file (ho_files ho) (kernel g) = Some (Some kc)" "open_file (ho_files ho) (initrd g) = Some (Some ic)"
    "generation_signed cr baked (ho_files ho) (kernel g) (path_join dir (''kernel'' @ sg_suffix (hc_signing hc))) DOMAIN_GEN_KERNEL"
    "generation_signed cr baked (ho_files ho) (initrd g) (path_join dir (''initrd'' @ sg_suffix (hc_signing hc))) DOMAIN_GEN_INITRD"
    "slot' = Some img" "ki_kernel img = kc" "ki_initrd img = Some (pad_to_4 ic @ handoff_fragment ho keys ring)"
    "ki_cmdline img = cmdline @ [nul]" "cmdline = handoff_cmdline hc g cmdline_override"
    "measure_handoff (sha256 cr) th (hc_tpm hc) (hc_secure_boot hc)
       (Some \<lparr>kernel_fd = Some kc, initrd_fd = Some ic, kernel_digest = sha512 cr kc, initrd_digest = sha512 cr ic\<rparr>)
       cmdline handles d = Some (Inr (), d')"
  using assms(1)
proof (cases rule: handoff_cases)
  case (refused e)
  then show ?thesis by simp
next
  case (loaded verified bs img)
  from enforced_verified [OF loaded(3) assms(2,3)] obtain vg where
    vg: "verified = Some vg" "verify_generation_pinned cr baked (ho_files ho) (ho_canon ho) (hc_boot hc) (hc_signing hc) g = Inr vg"
    by blast
  from vg(2) show ?thesis
  proof (rule verify_pinned_InrD)
    fix dir kc ic
    assume *: "generation_sig_dir (ho_canon ho) (hc_boot hc) g = Inr dir"
      "open_file (ho_files ho) (kernel g) = Some (Some kc)" "open_file (ho_files ho) (initrd g) = Some (Some ic)"
      "vg = \<lparr>kernel_fd = Some kc, initrd_fd = Some ic, kernel_digest = sha512 cr kc, initrd_digest = sha512 cr ic\<rparr>"
      "generation_signed cr baked (ho_files ho) (kernel g) (path_join dir (''kernel'' @ sg_suffix (hc_signing hc))) DOMAIN_GEN_KERNEL"
      "generation_signed cr baked (ho_files ho) (initrd g) (path_join dir (''initrd'' @ sg_suffix (hc_signing hc))) DOMAIN_GEN_INITRD"
    have "bs = ic" using read_pinned_initrd [OF _ assms(4,5)] loaded(5) vg(1) *(4) by simp
    moreover have "ki_kernel img = kc" using loaded(8) vg(1) *(4) assms(4) by (simp add: pins_hold_def)
    moreover have "cmdline = handoff_cmdline hc g cmdline_override" using loaded(1) by simp
    ultimately show ?thesis
      using that [OF *(1,2,3,5,6) loaded(2)] loaded(4,6,7) vg(1) *(4) by (simp add: align_is_pad)
  qed
qed

text \<open>C5: With signatures enforced, the kexec slot is filled only with the generation that was verified:
  a run that ends in an error leaves the slot as it was, and a run that returns has loaded the very
  bytes of a kernel and of an initrd that are each signed under their own role, the initrd padded to
  a multiple of four and followed by the fragment of keys and log, with the command line it returns;
  provided the pinned files do not change and a read gives nothing only at the end of a file.\<close>

theorem only_verified_images_are_loaded:
  assumes "verify_measure_then_load cr baked ho th hc g cmdline_override keys handles ring d slot = Some (r, d', slot')"
    and "sg_enable (hc_signing hc)" "sg_enforce (hc_signing hc)"
    and "pins_hold (ho_kexec ho)" "reads_on (ho_kexec ho)"
  shows "(\<forall>e. r = Inl e \<longrightarrow> slot' = slot)
    \<and> (\<forall>cmdline. r = Inr cmdline \<longrightarrow>
        (\<exists>dir kc ic img. generation_sig_dir (ho_canon ho) (hc_boot hc) g = Inr dir
          \<and> open_file (ho_files ho) (kernel g) = Some (Some kc) \<and> open_file (ho_files ho) (initrd g) = Some (Some ic)
          \<and> generation_signed cr baked (ho_files ho) (kernel g)
              (path_join dir (''kernel'' @ sg_suffix (hc_signing hc))) DOMAIN_GEN_KERNEL
          \<and> generation_signed cr baked (ho_files ho) (initrd g)
              (path_join dir (''initrd'' @ sg_suffix (hc_signing hc))) DOMAIN_GEN_INITRD
          \<and> slot' = Some img \<and> ki_kernel img = kc
          \<and> ki_initrd img = Some (pad_to_4 ic @ handoff_fragment ho keys ring) \<and> ki_cmdline img = cmdline @ [nul]
          \<and> cmdline = handoff_cmdline hc g cmdline_override))"
proof (intro conjI allI impI)
  fix e assume "r = Inl e"
  with assms(1) show "slot' = slot" by (cases rule: handoff_cases) simp_all
next
  fix cmdline assume "r = Inr cmdline"
  with assms(1) have "verify_measure_then_load cr baked ho th hc g cmdline_override keys handles ring d slot =
      Some (Inr cmdline, d', slot')" by simp
  from loaded_is_verified [OF this assms(2-5)]
  show "\<exists>dir kc ic img. generation_sig_dir (ho_canon ho) (hc_boot hc) g = Inr dir
          \<and> open_file (ho_files ho) (kernel g) = Some (Some kc) \<and> open_file (ho_files ho) (initrd g) = Some (Some ic)
          \<and> generation_signed cr baked (ho_files ho) (kernel g)
              (path_join dir (''kernel'' @ sg_suffix (hc_signing hc))) DOMAIN_GEN_KERNEL
          \<and> generation_signed cr baked (ho_files ho) (initrd g)
              (path_join dir (''initrd'' @ sg_suffix (hc_signing hc))) DOMAIN_GEN_INITRD
          \<and> slot' = Some img \<and> ki_kernel img = kc
          \<and> ki_initrd img = Some (pad_to_4 ic @ handoff_fragment ho keys ring) \<and> ki_cmdline img = cmdline @ [nul]
          \<and> cmdline = handoff_cmdline hc g cmdline_override" by metis
qed

subsection \<open>What is measured is what is loaded\<close>

text \<open>Reading a register changes none.\<close>

definition reads_keep_pcr :: "tpm_codec \<Rightarrow> 'd tpm_device \<Rightarrow> ('d \<Rightarrow> bytes) \<Rightarrow> bool" where
  "reads_keep_pcr tc dv pcr_of \<longleftrightarrow>
     (\<forall>pcr d r d'. pcr_read tc dv pcr d = Some (r, d') \<longrightarrow> pcr_of d' = pcr_of d)"

text \<open>A TPM as its documentation says, from the reset value of the lock PCR.\<close>

definition tpm_works :: "(bytes \<Rightarrow> bytes) \<Rightarrow> 'd tpm_host \<Rightarrow> ('d \<Rightarrow> bytes) \<Rightarrow> 'd \<Rightarrow> bool" where
  "tpm_works sha th pcr_of d \<longleftrightarrow>
     pcr_of d = zero_pcr
     \<and> (\<forall>dv. th_open_read th = Inr dv \<longrightarrow> reads_keep_pcr (th_codec th) dv pcr_of)
     \<and> (\<forall>dv. th_open_extend th = Inr dv \<longrightarrow> extends_lock_pcr sha (th_codec th) dv pcr_of)"

lemma enforce_keeps_pcr:
  assumes "enforce_secure_boot_state rd node tc opened enforce d = Some (r, d')"
    and "\<And>dv. opened = Inr dv \<Longrightarrow> reads_keep_pcr tc dv pcr_of"
  shows "pcr_of d' = pcr_of d"
proof -
  from assms(1) obtain p where "read_pcr7 node tc opened d = Some (p, d')"
    by (auto simp: enforce_secure_boot_state_def Let_def split: option.splits prod.splits)
  then show ?thesis
    using assms(2) by (auto simp: read_pcr7_def reads_keep_pcr_def split: if_splits sum.splits option.splits prod.splits)
qed

lemma measured_is_predicted:
  assumes "measure_handoff sha th t sb (Some vg) cmdline handles d = Some (Inr (), d')"
    and "measure_required t sb" "tpm_works sha th pcr_of d"
  shows "pcr_of d' = predict_handoff_pcr sha (kernel_digest vg) (initrd_digest vg) cmdline (measure_refs handles)"
proof -
  from assms(1,2) obtain u d1 where
    e: "enforce_secure_boot_state (th_efivar th) (th_node th) (th_codec th) (th_open_read th) (sb_enforce sb) d = Some (Inr u, d1)"
    and x: "extend_handoff sha (th_codec th) (th_open_extend th) (kernel_digest vg) (initrd_digest vg) cmdline
      (measure_refs handles) d1 = Some (Inr (), d')"
    by (auto simp: measure_handoff_def split: option.splits sum.splits prod.splits)
  have "pcr_of d1 = zero_pcr"
    using enforce_keeps_pcr [OF e, of pcr_of] assms(3) by (simp add: tpm_works_def)
  moreover obtain dv where "th_open_extend th = Inr dv"
    using x by (auto simp: extend_handoff_def split: sum.splits)
  ultimately show ?thesis
    using x assms(3) extend_handoff_predicted [of sha "th_codec th" dv pcr_of d1] by (simp add: tpm_works_def)
qed

text \<open>C6: When measuring is required, by the TPM table or by secure boot, no image is loaded unmeasured:
  without a verified generation the handoff is refused, and a handoff that returns has left in the
  lock PCR the value predicted from the digests of the very kernel and initrd that are in the slot,
  the command line that is in the slot, and the driver images in order.\<close>

theorem loaded_image_is_measured:
  assumes "verify_measure_then_load cr baked ho th hc g cmdline_override keys handles ring d slot =
      Some (Inr cmdline, d', slot')"
    and "measure_required (hc_tpm hc) (hc_secure_boot hc)" "tpm_works (sha256 cr) th pcr_of d"
    and "pins_hold (ho_kexec ho)" "reads_on (ho_kexec ho)"
  shows "\<exists>img ic. slot' = Some img \<and> ki_initrd img = Some (pad_to_4 ic @ handoff_fragment ho keys ring)
    \<and> ki_cmdline img = cmdline @ [nul]
    \<and> pcr_of d' = predict_handoff_pcr (sha256 cr) (sha512 cr (ki_kernel img)) (sha512 cr ic) cmdline (measure_refs handles)"
  using assms(1)
proof (cases rule: handoff_cases)
  case (refused e)
  then show ?thesis by simp
next
  case (loaded verified bs img)
  have c: "cmdline = handoff_cmdline hc g cmdline_override" using loaded(1) by simp
  from measure_keeps_verified [OF loaded(4) assms(2)] obtain vg where vg: "verified = Some vg" by auto
  with loaded(3) have "verify_generation_pinned cr baked (ho_files ho) (ho_canon ho) (hc_boot hc) (hc_signing hc) g = Inr vg"
    by (auto simp: verify_generation_signature_def split: sum.splits verify_policy.splits if_splits)
  then show ?thesis
  proof (rule verify_pinned_InrD)
    fix kc ic
    assume v: "vg = \<lparr>kernel_fd = Some kc, initrd_fd = Some ic, kernel_digest = sha512 cr kc, initrd_digest = sha512 cr ic\<rparr>"
    have "bs = ic" using read_pinned_initrd [OF _ assms(4,5)] loaded(5) vg v by simp
    moreover have "ki_kernel img = kc" using loaded(8) vg v assms(4) by (simp add: pins_hold_def)
    moreover have "pcr_of d' = predict_handoff_pcr (sha256 cr) (sha512 cr kc) (sha512 cr ic) cmdline (measure_refs handles)"
      using measured_is_predicted [OF _ assms(2,3)] loaded(4) vg v c by simp
    ultimately show ?thesis using loaded(2,6,7) c by (auto simp: align_is_pad)
  qed
qed

text \<open>A host with a TPM, the signed generation, and a kernel that takes every image.\<close>

definition demo_kexec :: kexec_env where
  "demo_kexec = \<lparr>kx_open = (\<lambda>_. None), kx_read_file = (\<lambda>_. None), kx_pinned = (\<lambda>fd. fd), kx_seek = True,
     kx_chunk = (\<lambda>_ _. Some CHUNK), kx_memfd = True, kx_write = (\<lambda>bs. Some (length bs)), kx_rewind = True,
     kx_load = (\<lambda>_. True)\<rparr>"

definition demo_handoff_os :: handoff_os where
  "demo_handoff_os = \<lparr>ho_files = demo_files_signed, ho_canon = demo_canon, ho_kexec = demo_kexec,
     ho_flushed = True, ho_log_read = Some\<rparr>"

definition demo_tpm_host :: "(bytes \<times> bytes) tpm_host" where
  "demo_tpm_host = \<lparr>th_efivar = (\<lambda>_. None), th_node = (\<lambda>_. False), th_codec = demo_codec,
     th_open_read = Inl (Tpm_Proto ''busy''), th_open_extend = Inr (demo_tpm (sha256 demo_crypto))\<rparr>"

definition demo_handoff_config :: handoff_config where
  "demo_handoff_config = \<lparr>hc_boot = demo_signed_config, hc_signing = demo_signing, hc_secure_boot = demo_secure_boot,
     hc_tpm = fc_tpm demo_full_config\<rparr>"

lemma demo_pinned:
  "verify_generation_pinned demo_crypto [demo_pair] demo_files_signed demo_canon demo_signed_config demo_signing
     demo_signed_generation =
   Inr \<lparr>kernel_fd = Some ''kern'', initrd_fd = Some ''init'', kernel_digest = ''kern'', initrd_digest = ''init''\<rparr>"
proof -
  have s: "sha512 demo_crypto b = b" for b by (simp add: demo_crypto_def)
  have "verify_image_fd_digest demo_crypto [demo_pair] (Some ''kern'')
      (Some (Some (demo_sidecar DOMAIN_GEN_KERNEL (CHR ''k'')))) DOMAIN_GEN_KERNEL demo_signing = Inr ''kern''"
    "verify_image_fd_digest demo_crypto [demo_pair] (Some ''init'')
      (Some (Some (demo_sidecar DOMAIN_GEN_INITRD (CHR ''i'')))) DOMAIN_GEN_INITRD demo_signing = Inr ''init''"
    using demo_blob_signed [of "CHR ''k''" "''ern''" DOMAIN_GEN_KERNEL demo_signing]
      demo_blob_signed [of "CHR ''i''" "''nit''" DOMAIN_GEN_INITRD demo_signing]
    by (simp_all add: verify_image_fd_digest_def s)
  moreover have "path_join ''/b/nmbl/sigs/abc'' (''kernel'' @ sg_suffix demo_signing) = ''/b/nmbl/sigs/abc/kernel.sig''"
    "path_join ''/b/nmbl/sigs/abc'' (''initrd'' @ sg_suffix demo_signing) = ''/b/nmbl/sigs/abc/initrd.sig''"
    by (simp_all add: demo_signing_def path_join_def slash_def)
  moreover have "kernel demo_signed_generation = ''K''" "initrd demo_signed_generation = ''I''"
    by (simp_all add: demo_signed_generation_def)
  ultimately show ?thesis
    by (simp add: verify_generation_pinned_def demo_sig_dir verify_generation_blob_pinned_def)
      (simp add: demo_files_signed_def)
qed

lemma demo_read_to_end: "read_to_end (\<lambda>_. Some CHUNK) ''init'' 0 = Some ''init''"
  by (subst read_to_end.simps, simp add: CHUNK_def) (subst read_to_end.simps, simp add: CHUNK_def)

lemma demo_write_memfd: "write_memfd (\<lambda>bs. Some (length bs)) bs [] = Some bs"
  by (cases "bs = []") (simp_all add: write_memfd.simps [of _ bs] write_memfd.simps [of _ "[]"])

lemma demo_handoff_loads:
  "\<exists>d' img. verify_measure_then_load demo_crypto [demo_pair] demo_handoff_os demo_tpm_host demo_handoff_config
     demo_signed_generation (Some ''quiet'') [] [] None (zero_pcr, []) None = Some (Inr ''quiet'', d', Some img)"
proof -
  have c: "handoff_cmdline demo_handoff_config demo_signed_generation (Some ''quiet'') = ''quiet''"
    by (simp add: handoff_cmdline_def build_cmdline_def mark_rollback_def demo_handoff_config_def
        demo_signed_config_def demo_config_def)
  have v: "verify_generation_signature demo_crypto [demo_pair] demo_files_signed demo_canon demo_signed_config demo_signing
      demo_signed_generation =
      Inr (Some \<lparr>kernel_fd = Some ''kern'', initrd_fd = Some ''init'', kernel_digest = ''kern'', initrd_digest = ''init''\<rparr>)"
    by (simp add: verify_generation_signature_def demo_pinned) (simp add: demo_signing_def)
  have "\<forall>ev\<in>set (handoff_events (sha256 demo_crypto) ''kern'' ''init'' ''quiet'' []). length ev \<le> 64"
    by (simp add: handoff_events_def event_digest_def demo_crypto_def DOMAIN_LEN_def)
  from demo_extend_all [OF this, of "sha256 demo_crypto" "(zero_pcr, [])"] obtain d' where
    x: "extend_handoff (sha256 demo_crypto) demo_codec (Inr (demo_tpm (sha256 demo_crypto))) ''kern'' ''init'' ''quiet'' []
      (zero_pcr, []) = Some (Inr (), d')" unfolding extend_handoff_def sum.case by (elim exE)
  have e: "enforce_secure_boot_state (th_efivar demo_tpm_host) (th_node demo_tpm_host) (th_codec demo_tpm_host)
      (th_open_read demo_tpm_host) en d = Some (Inr (), d)" for en and d :: "bytes \<times> bytes"
    by (simp add: enforce_secure_boot_state_def demo_tpm_host_def read_pcr7_def tpm_present_def decide_sb_action_def
        read_secure_boot_efivar_def read_secure_boot_efivar_at_def)
  have m: "measure_handoff (sha256 demo_crypto) demo_tpm_host t sb
      (Some \<lparr>kernel_fd = Some ''kern'', initrd_fd = Some ''init'', kernel_digest = ''kern'', initrd_digest = ''init''\<rparr>)
      ''quiet'' [] (zero_pcr, []) = Some (Inr (), d')" if "measure_required t sb" for t sb
    using that x by (simp add: measure_handoff_def e measure_refs_def) (simp add: demo_tpm_host_def)
  have r: "measure_required (hc_tpm demo_handoff_config) (hc_secure_boot demo_handoff_config)"
    by (simp add: measure_required_def demo_handoff_config_def demo_full_config_def)
  have quiet: "nul = CHR 0x00" by code_simp
  have l: "\<exists>img. load_handoff demo_kexec demo_signed_generation
      (Some \<lparr>kernel_fd = Some ''kern'', initrd_fd = Some ''init'', kernel_digest = ''kern'', initrd_digest = ''init''\<rparr>)
      fragment ''quiet'' None = (Inr (), Some img)" for fragment
    by (simp add: load_handoff_def load_with_kernel_fd_and_extra_initrd_cpio_def load_cpio_core_def
        read_initrd_bytes_def demo_kexec_def demo_read_to_end demo_write_memfd ok_or_def load_with_initrd_fd_def
        build_cmdline_cstring_def quiet Let_def)
  have f: "ho_files demo_handoff_os = demo_files_signed" "ho_canon demo_handoff_os = demo_canon"
    "ho_kexec demo_handoff_os = demo_kexec" "hc_boot demo_handoff_config = demo_signed_config"
    "hc_signing demo_handoff_config = demo_signing"
    by (simp_all add: demo_handoff_os_def demo_handoff_config_def)
  obtain img where "load_handoff demo_kexec demo_signed_generation
      (Some \<lparr>kernel_fd = Some ''kern'', initrd_fd = Some ''init'', kernel_digest = ''kern'', initrd_digest = ''init''\<rparr>)
      (handoff_fragment demo_handoff_os [] None) ''quiet'' None = (Inr (), Some img)" using l by blast
  then show ?thesis
    by (simp add: verify_measure_then_load_def c f v m [OF r] Let_def)
qed

lemma demo_handoff_env: "pins_hold demo_kexec" "reads_on demo_kexec"
  by (simp_all add: pins_hold_def reads_on_def demo_kexec_def CHUNK_def)

lemma demo_handoff_fields: "sg_enable (hc_signing demo_handoff_config)" "sg_enforce (hc_signing demo_handoff_config)"
  "ho_kexec demo_handoff_os = demo_kexec" "ho_files demo_handoff_os = demo_files_signed"
  by (simp_all add: demo_handoff_config_def demo_signing_def demo_handoff_os_def)

lemma demo_tpm_works: "tpm_works (sha256 demo_crypto) demo_tpm_host fst (zero_pcr, [])"
  using demo_tpm_extends [of "sha256 demo_crypto"] by (simp add: tpm_works_def demo_tpm_host_def)

theorem only_verified_images_are_loaded_witness:
  "\<exists>d' img. verify_measure_then_load demo_crypto [demo_pair] demo_handoff_os demo_tpm_host demo_handoff_config
     demo_signed_generation (Some ''quiet'') [] [] None (zero_pcr, []) None = Some (Inr ''quiet'', d', Some img)
     \<and> ki_kernel img = ''kern'' \<and> ki_cmdline img = ''quiet'' @ [nul]"
proof -
  from demo_handoff_loads obtain d' img where
    run: "verify_measure_then_load demo_crypto [demo_pair] demo_handoff_os demo_tpm_host demo_handoff_config
      demo_signed_generation (Some ''quiet'') [] [] None (zero_pcr, []) None = Some (Inr ''quiet'', d', Some img)" by blast
  have k: "open_file demo_files_signed (kernel demo_signed_generation) = Some (Some ''kern'')"
    by (simp add: demo_files_signed_def demo_signed_generation_def)
  from only_verified_images_are_loaded [OF run demo_handoff_fields(1,2)] demo_handoff_env
  have "ki_kernel img = ''kern'' \<and> ki_cmdline img = ''quiet'' @ [nul]"
    by (auto simp: demo_handoff_fields k)
  with run show ?thesis by blast
qed

theorem loaded_image_is_measured_witness:
  "\<exists>d' img ic. verify_measure_then_load demo_crypto [demo_pair] demo_handoff_os demo_tpm_host demo_handoff_config
     demo_signed_generation (Some ''quiet'') [] [] None (zero_pcr, []) None = Some (Inr ''quiet'', d', Some img)
     \<and> fst d' = predict_handoff_pcr (sha256 demo_crypto) (ki_kernel img) ic ''quiet'' []"
proof -
  from demo_handoff_loads obtain d' img where
    run: "verify_measure_then_load demo_crypto [demo_pair] demo_handoff_os demo_tpm_host demo_handoff_config
      demo_signed_generation (Some ''quiet'') [] [] None (zero_pcr, []) None = Some (Inr ''quiet'', d', Some img)" by blast
  have r: "measure_required (hc_tpm demo_handoff_config) (hc_secure_boot demo_handoff_config)"
    by (simp add: measure_required_def demo_handoff_config_def demo_full_config_def)
  have s: "sha512 demo_crypto b = b" for b by (simp add: demo_crypto_def)
  from loaded_image_is_measured [OF run r demo_tpm_works] demo_handoff_env obtain ic where
    "fst d' = predict_handoff_pcr (sha256 demo_crypto) (ki_kernel img) ic ''quiet'' []"
    by (auto simp: demo_handoff_fields s measure_refs_def)
  with run show ?thesis by blast
qed

subsection \<open>The words of the command line\<close>

lemma ascii_words_acc:
  "acc \<noteq> [] \<Longrightarrow> \<forall>c\<in>set s. \<not> is_ascii_ws c \<Longrightarrow> ascii_words acc s = [acc @ s]"
  by (induction acc s rule: ascii_words.induct) auto

lemma split_one_word:
  "w \<noteq> [] \<Longrightarrow> \<forall>c\<in>set w. \<not> is_ascii_ws c \<Longrightarrow> split_ascii_whitespace w = [w]"
  using ascii_words_acc [of "[hd w]" "tl w"]
  by (cases w) (auto simp: split_ascii_whitespace_def)

lemma ascii_words_blank:
  "ascii_words acc (s @ CHR '' '' # t) = ascii_words acc s @ ascii_words [] t"
proof (induction acc s rule: ascii_words.induct)
  case (1 acc)
  have "is_ascii_ws (CHR '' '')" by code_simp
  then show ?case by simp
next
  case (2 acc c s)
  then show ?case by auto
qed

lemma split_at_blank:
  "split_ascii_whitespace (s @ CHR '' '' # t) = split_ascii_whitespace s @ split_ascii_whitespace t"
  unfolding split_ascii_whitespace_def by (rule ascii_words_blank)

lemma split_join_blanks:
  "split_ascii_whitespace (join '' '' ps) = concat (map split_ascii_whitespace ps)"
proof (induction ps rule: induct_list012)
  case 1
  then show ?case by (simp add: split_ascii_whitespace_def)
next
  case (3 p q ps)
  then show ?case using split_at_blank [of p] by simp
qed simp

text \<open>A marker without blanks is one more word at the end.\<close>

lemma split_snoc_word:
  assumes "w \<noteq> []" "\<forall>c\<in>set w. \<not> is_ascii_ws c"
  shows "split_ascii_whitespace ((if s = [] then s else s @ '' '') @ w) = split_ascii_whitespace s @ [w]"
  using split_at_blank [of s w] split_one_word [OF assms] by (auto simp: split_ascii_whitespace_def)

definition init_word :: "generation \<Rightarrow> string \<Rightarrow> string" where
  "init_word g root =
     INIT_KEY @ (case path_strip_prefix root (init_path g) of
        Some rel \<Rightarrow> ''/'' @ from_utf8_lossy rel | None \<Rightarrow> from_utf8_lossy (init_path g))"

lemma build_cmdline_words:
  assumes "\<forall>c\<in>set (init_word g root). \<not> is_ascii_ws c"
  shows "split_ascii_whitespace (build_cmdline g None root) =
    (let ws = concat (map split_ascii_whitespace (kernel_params g))
     in if list_ex (starts_with INIT_KEY) ws then ws else ws @ [init_word g root])"
proof -
  have "init_word g root \<noteq> []" by (simp add: init_word_def INIT_KEY_def)
  from split_snoc_word [OF this assms, of "join '' '' (kernel_params g)"]
  show ?thesis
    by (auto simp: build_cmdline_def Let_def split_join_blanks init_word_def split: option.splits)
qed

lemma rollback_word: "\<forall>c\<in>set ROLLBACK_CMDLINE. \<not> is_ascii_ws c" "ROLLBACK_CMDLINE \<noteq> []"
  by code_simp+

lemma mark_rollback_words:
  "split_ascii_whitespace (mark_rollback rolled_back cmdline) =
     split_ascii_whitespace cmdline
     @ (if rolled_back \<and> ROLLBACK_CMDLINE \<notin> set (split_ascii_whitespace cmdline) then [ROLLBACK_CMDLINE] else [])"
  using split_snoc_word [OF rollback_word(2,1), of cmdline] by (simp add: mark_rollback_def)

text \<open>The words of the command line are the words of the generation's parameters in order, then one
  word for init when none of them sets it, then the rollback marker exactly when the image was
  rolled back and the marker is not there yet; an operator's edited line is kept but for the marker.\<close>

theorem cmdline_words:
  assumes "\<forall>c\<in>set (init_word g (system_root (hc_boot hc))). \<not> is_ascii_ws c"
  shows "split_ascii_whitespace (handoff_cmdline hc g cmdline_override) =
    (let ws = (case cmdline_override of
                 Some line \<Rightarrow> split_ascii_whitespace line
               | None \<Rightarrow>
                   (let ps = concat (map split_ascii_whitespace (kernel_params g))
                    in if list_ex (starts_with INIT_KEY) ps then ps
                       else ps @ [init_word g (system_root (hc_boot hc))]))
     in ws @ (if generation_rollback (hc_boot hc) \<and> ROLLBACK_CMDLINE \<notin> set ws then [ROLLBACK_CMDLINE] else []))"
proof (cases cmdline_override)
  case None
  with build_cmdline_words [OF assms] show ?thesis
    by (simp add: handoff_cmdline_def mark_rollback_words Let_def)
next
  case (Some line)
  then show ?thesis
    by (simp add: handoff_cmdline_def mark_rollback_words build_cmdline_def Let_def)
qed

definition demo_store_generation :: generation where
  "demo_store_generation = (demo_generation 3)\<lparr>kernel_params := [''quiet'', ''loglevel=4''],
     init_path := ''/mnt/system/nix/init''\<rparr>"

theorem cmdline_words_witness:
  "split_ascii_whitespace (handoff_cmdline
      (demo_handoff_config\<lparr>hc_boot := demo_signed_config\<lparr>system_root := ''/mnt/system'', generation_rollback := True\<rparr>\<rparr>)
      demo_store_generation None)
    = [''quiet'', ''loglevel=4'', ''init=/nix/init'', ROLLBACK_CMDLINE]"
proof -
  have lossy: "from_utf8_lossy ''nix/init'' = ''nix/init''"
    by (auto simp: is_ascii_def ord_def intro!: from_utf8_lossy_valid valid_utf8_ascii)
  have "path_strip_prefix ''/mnt/system'' ''/mnt/system/nix/init'' = Some ''nix/init''" by code_simp
  with lossy have w: "init_word demo_store_generation ''/mnt/system'' = ''init=/nix/init''"
    by (simp add: init_word_def demo_store_generation_def INIT_KEY_def)
  have kp: "kernel_params demo_store_generation = [''quiet'', ''loglevel=4'']"
    by (simp add: demo_store_generation_def)
  have nb: "\<forall>c\<in>set ''init=/nix/init''. \<not> is_ascii_ws c" by code_simp
  let ?hc = "demo_handoff_config\<lparr>hc_boot := demo_signed_config\<lparr>system_root := ''/mnt/system'', generation_rollback := True\<rparr>\<rparr>"
  have "\<forall>c\<in>set (init_word demo_store_generation (system_root (hc_boot ?hc))). \<not> is_ascii_ws c"
    using nb by (simp add: w)
  from cmdline_words [OF this, of None]
  have "split_ascii_whitespace (handoff_cmdline ?hc demo_store_generation None) =
    (let ps = concat (map split_ascii_whitespace [''quiet'', ''loglevel=4'']);
         ws = (if list_ex (starts_with INIT_KEY) ps then ps else ps @ [''init=/nix/init''])
     in ws @ (if ROLLBACK_CMDLINE \<notin> set ws then [ROLLBACK_CMDLINE] else []))"
    by (simp add: w kp Let_def)
  also have "concat (map split_ascii_whitespace [''quiet'', ''loglevel=4'']) = [''quiet'', ''loglevel=4'']" by code_simp
  finally show ?thesis
    by (simp add: Let_def INIT_KEY_def starts_with_def ROLLBACK_CMDLINE_def)
qed

text \<open>The reader of the other side sees the marker exactly when the image was rolled back.\<close>

lemma marker_is_read_back:
  assumes "generation_rollback (hc_boot hc)"
  shows "has_rollback_marker (parse_cmdline (handoff_cmdline hc g cmdline_override))"
proof -
  have k: "cp_key (parse_param ROLLBACK_CMDLINE) = ROLLBACK_CMDLINE" by code_simp
  have "ROLLBACK_CMDLINE \<in> set (split_ascii_whitespace (handoff_cmdline hc g cmdline_override))"
    using assms by (auto simp: handoff_cmdline_def mark_rollback_words)
  with k show ?thesis by (auto simp: has_rollback_marker_def parse_cmdline_def list_ex_iff)
qed

subsection \<open>Unmounting\<close>

lemma detach_each_append:
  "detach_each already (xs @ ys) =
     (let (d1, a1) = detach_each already xs; (d2, a2) = detach_each a1 ys in (d1 @ d2, a2))"
  by (induction already xs rule: detach_each.induct) (auto simp: Let_def split: prod.splits)

lemma detach_each_spec:
  "detach_each already targets = (ds, a) \<Longrightarrow>
   subseq ds targets \<and> distinct (map components ds)
   \<and> components ` set already \<inter> components ` set ds = {}
   \<and> components ` set already \<union> components ` set ds = components ` set already \<union> components ` set targets"
proof (induction already targets arbitrary: ds a rule: detach_each.induct)
  case (2 already target targets)
  show ?case
  proof (cases "list_ex (path_eq target) already")
    case True
    with 2(3) have "detach_each already targets = (ds, a)" by simp
    note IH = 2(1) [OF True this]
    from True have "components target \<in> components ` set already"
      by (auto simp: list_ex_iff path_eq_def)
    with IH show ?thesis by (auto simp: insert_absorb)
  next
    case False
    then obtain ds' where r: "detach_each (target # already) targets = (ds', a)" "ds = target # ds'"
      using 2(3) by (auto split: prod.splits)
    from False have "components target \<notin> components ` set already"
      by (auto simp: list_ex_iff path_eq_def)
    with 2(2) [OF False r(1)] r(2) show ?thesis by auto
  qed
qed simp

definition leave_targets :: "boot_config \<Rightarrow> string list" where
  "leave_targets cfg =
     (case runtime_state_mountpoint cfg of None \<Rightarrow> [] | Some mp \<Rightarrow> [mp])
     @ rev (map (resolve_mountpoint (system_root cfg)) (filesystems cfg)) @ [system_root cfg]"

lemma kexec_detaches_eq: "kexec_detaches cfg = fst (detach_each [] (leave_targets cfg)) @ rev PSEUDO_FS"
  unfolding kexec_detaches_def leave_targets_def detach_each_append reverse_mount_targets_def rev_map
  by (simp add: Let_def split: prod.splits)

text \<open>Before the new kernel starts, every mount of the configuration is detached, in order and once:
  the writable state mount first, then the file systems in the reverse of their declared order,
  then the system root, each path only where it comes first; the pseudo file systems go last.\<close>

theorem mounts_are_detached_once:
  "\<exists>ds. kexec_detaches cfg = ds @ [''/tmp'', ''/run'', ''/dev'', ''/sys'', ''/proc'']
    \<and> subseq ds (leave_targets cfg) \<and> distinct (map components ds)
    \<and> components ` set ds = components ` set (leave_targets cfg)"
proof -
  obtain ds a where d: "detach_each [] (leave_targets cfg) = (ds, a)" by fastforce
  from detach_each_spec [OF d] show ?thesis
    by (intro exI [of _ ds]) (simp add: kexec_detaches_eq d PSEUDO_FS_def)
qed

subsection \<open>What the new kernel unpacks\<close>

text \<open>
  The fragment starts at a multiple of four, where the kernel looks for the next archive, and its
  decoder lists the keys in order and the log after them.
\<close>

lemma injected_files_are_listed:
  assumes "es = handoff_entries keys (stage_log_for_kexec ring (ho_flushed ho) (ho_log_read ho))"
    and "\<forall>n\<in>set (fragment_dirs es) \<union> (\<lambda>e. in_cpio_name (inj_path e)) ` set es. name_ok n \<and> n \<noteq> TRAILER"
    and "\<forall>e\<in>set es. length (inj_content e) \<le> u32_max"
  shows "length (pad_to_4 ic) mod 4 = 0
    \<and> map (entry_view (handoff_fragment ho keys ring)) (decode_cpio_fragment (handoff_fragment ho keys ring)) =
      map (\<lambda>d. (d, Directory, MODE_DIR, Some [])) (fragment_dirs es)
      @ map (\<lambda>e. (in_cpio_name (inj_path e), File, MODE_FILE_RO, Some (inj_content e))) keys
      @ [(in_cpio_name NMBL_LOG_PATH, File, MODE_FILE_RO,
          Some (stage_log_for_kexec ring (ho_flushed ho) (ho_log_read ho))),
         (TRAILER, Trailer, 0, Some [])]"
  using fragment_round_trip [OF assms(2,3)] align_length [of ic]
  by (simp add: handoff_fragment_def assms(1) handoff_entries_def align_is_pad)

end
