(* ===== verification/Poll_Loop.thy ===== *)
theory Poll_Loop
  imports Nmbl_Prelude
begin

text \<open>
  The interface of a loop that asks until it is answered: a wait for a device node, a wait for a
  datagram. The loops themselves are partial functions of their components; what they share is
  proved here once, from the equation of the loop and from its being the least one.
\<close>

text \<open>Turns numbered from some \<open>k\<close>, up to the first that gives a result.\<close>

locale poll_loop =
  fixes turn :: "nat \<Rightarrow> 'r option" and polls :: "nat \<Rightarrow> 'r option"
  assumes polls_unfold: "polls k = (case turn k of Some r \<Rightarrow> Some r | None \<Rightarrow> polls (Suc k))"
    and polls_ends: "polls k = Some r \<Longrightarrow> \<exists>j\<ge>k. turn j \<noteq> None"
begin

lemma polls_first:
  assumes "k \<le> n" "\<forall>j. k \<le> j \<and> j < n \<longrightarrow> turn j = None" "turn n = Some r"
  shows "polls k = Some r"
  using assms(1,2)
proof (induction k rule: inc_induct)
  case base
  show ?case using polls_unfold [of n] assms(3) by simp
next
  case (step k)
  have "turn k = None" using step.hyps step.prems by simp
  moreover have "polls (Suc k) = Some r" by (rule step.IH) (use step.prems in simp)
  ultimately show ?case using polls_unfold [of k] by simp
qed

lemma polls_reach:
  assumes "turn n \<noteq> None" "k \<le> n"
  obtains j where "k \<le> j" "j \<le> n" "\<forall>i. k \<le> i \<and> i < j \<longrightarrow> turn i = None" "turn j \<noteq> None"
    "polls k = turn j"
proof -
  define j where "j = (LEAST j. k \<le> j \<and> turn j \<noteq> None)"
  have j: "k \<le> j" "turn j \<noteq> None"
    using LeastI [of "\<lambda>j. k \<le> j \<and> turn j \<noteq> None" n] assms unfolding j_def by blast+
  have below: "\<forall>i. k \<le> i \<and> i < j \<longrightarrow> turn i = None"
    using not_less_Least [of _ "\<lambda>j. k \<le> j \<and> turn j \<noteq> None"] unfolding j_def by blast
  have "j \<le> n"
    unfolding j_def by (rule Least_le) (use assms in simp)
  moreover have "polls k = turn j"
    using polls_first [OF j(1) below] j(2) by (cases "turn j") simp_all
  ultimately show thesis using that j below by blast
qed

lemma polls_result:
  assumes "polls k = Some r"
  obtains j where "k \<le> j" "\<forall>i. k \<le> i \<and> i < j \<longrightarrow> turn i = None" "turn j = Some r"
proof -
  from polls_ends [OF assms] obtain n where n: "k \<le> n" "turn n \<noteq> None" by auto
  obtain j where j: "k \<le> j" "\<forall>i. k \<le> i \<and> i < j \<longrightarrow> turn i = None" "polls k = turn j"
    using polls_reach [OF n(2,1)] by metis
  then have "turn j = Some r" using assms by simp
  then show thesis using that j by blast
qed

end

end
