(* ===== verification/Device_Wait.thy ===== *)
theory Device_Wait
  imports Fs_Path Poll_Loop
begin

text \<open>
  The two loops that wait for a device node: \<open>activation/helpers/source_wait.rs\<close> (before an
  activation, with a sweep of the links on each turn) and \<open>wait_for\<close> of \<open>devices/mod.rs\<close> (after
  one, and before a mount). Time is in milliseconds. What the loops see is the record
  \<open>wait_world\<close>, each answer indexed by the turn that asks. A loop is partial: \<open>None\<close> would be a
  wait that never ends, and \<open>waits_end\<close> shows that there is none.
\<close>

subsection \<open>What a wait sees\<close>

datatype file_type = Block_Device | Char_Device | Regular_File | Other_File

datatype wait_error = Device_Timeout string nat | Operator_Aborted string

text \<open>
  \<open>ww_exists\<close> is \<open>Path::try_exists\<close> (\<open>None\<close> when it fails), \<open>ww_stat\<close> the type \<open>stat\<close> gives,
  \<open>ww_now\<close> the clock at the check of the deadline, \<open>ww_tick\<close> whether the operator pressed Esc while
  the given status line was on the screen, \<open>ww_tick_ms\<close> how long that took, and \<open>ww_clock_max\<close> the
  last instant the clock can name.
\<close>

record wait_world =
  ww_start :: nat
  ww_clock_max :: nat
  ww_now :: "nat \<Rightarrow> nat"
  ww_exists :: "nat \<Rightarrow> bool option"
  ww_stat :: "nat \<Rightarrow> file_type option"
  ww_tick :: "nat \<Rightarrow> string \<Rightarrow> bool"
  ww_tick_ms :: "nat \<Rightarrow> nat"

definition POLL_INTERVAL :: nat where
  "POLL_INTERVAL = 100"

definition wait_deadline :: "wait_world \<Rightarrow> nat \<Rightarrow> nat" where
  "wait_deadline w timeout =
     (case checked_add (ww_clock_max w) (ww_start w) timeout of Some t \<Rightarrow> t | None \<Rightarrow> ww_start w)"

definition format_wait_phase :: "string \<Rightarrow> string \<Rightarrow> nat \<Rightarrow> nat \<Rightarrow> string" where
  "format_wait_phase operation target elapsed timeout =
     operation @ '' '' @ target @ '' ('' @ dec (elapsed div 1000) @ ''s / '' @ dec (timeout div 1000)
       @ ''s)''"

definition wait_timeout :: "string \<Rightarrow> nat \<Rightarrow> wait_error" where
  "wait_timeout device timeout = Device_Timeout device (min timeout u64_max)"

definition wait_abort :: "string \<Rightarrow> string \<Rightarrow> wait_error" where
  "wait_abort operation device = Operator_Aborted (operation @ '' '' @ device)"

definition device_ready :: "bool option \<Rightarrow> file_type option \<Rightarrow> bool" where
  "device_ready found st \<longleftrightarrow>
     (case found of
        Some True \<Rightarrow> st \<in> {Some Block_Device, Some Char_Device, Some Regular_File}
      | _ \<Rightarrow> False)"

text \<open>One turn's end: the status line is drawn, and Esc is read, only when there is a sink.\<close>

definition wait_tick ::
  "wait_world \<Rightarrow> bool \<Rightarrow> string \<Rightarrow> string \<Rightarrow> nat \<Rightarrow> nat \<Rightarrow> (wait_error + unit) option" where
  "wait_tick w sink device operation timeout k =
     (if sink \<and> ww_tick w k (format_wait_phase operation device (ww_now w k - ww_start w) timeout)
      then Some (Inl (wait_abort operation device)) else None)"

subsection \<open>The wait for a source device\<close>

text \<open>The sweep of turn \<open>k\<close> runs before probe \<open>k + 1\<close>; whether it failed is only logged.\<close>

definition source_turn ::
  "wait_world \<Rightarrow> bool \<Rightarrow> string \<Rightarrow> string \<Rightarrow> nat \<Rightarrow> nat \<Rightarrow> (wait_error + unit) option" where
  "source_turn w sink device operation timeout k =
     (if ww_exists w (Suc k) = Some True then Some (Inr ())
      else if wait_deadline w timeout \<le> ww_now w k then Some (Inl (wait_timeout device timeout))
      else wait_tick w sink device operation timeout k)"

partial_function (option) source_polls ::
  "wait_world \<Rightarrow> bool \<Rightarrow> string \<Rightarrow> string \<Rightarrow> nat \<Rightarrow> nat \<Rightarrow> (wait_error + unit) option" where
  "source_polls w sink device operation timeout k =
     (case source_turn w sink device operation timeout k of
        Some r \<Rightarrow> Some r
      | None \<Rightarrow> source_polls w sink device operation timeout (Suc k))"

definition wait_for_source_device ::
  "wait_world \<Rightarrow> bool \<Rightarrow> string \<Rightarrow> string \<Rightarrow> nat \<Rightarrow> (wait_error + unit) option" where
  "wait_for_source_device w sink device operation timeout =
     (if ww_exists w 0 = Some True then Some (Inr ())
      else source_polls w sink device operation timeout 0)"

subsection \<open>The wait for a device to mount\<close>

definition device_turn ::
  "wait_world \<Rightarrow> bool \<Rightarrow> string \<Rightarrow> string \<Rightarrow> nat \<Rightarrow> nat \<Rightarrow> (wait_error + unit) option" where
  "device_turn w sink device operation timeout k =
     (if device_ready (ww_exists w k) (ww_stat w k) then Some (Inr ())
      else if wait_deadline w timeout \<le> ww_now w k then Some (Inl (wait_timeout device timeout))
      else wait_tick w sink device operation timeout k)"

partial_function (option) device_polls ::
  "wait_world \<Rightarrow> bool \<Rightarrow> string \<Rightarrow> string \<Rightarrow> nat \<Rightarrow> nat \<Rightarrow> (wait_error + unit) option" where
  "device_polls w sink device operation timeout k =
     (case device_turn w sink device operation timeout k of
        Some r \<Rightarrow> Some r
      | None \<Rightarrow> device_polls w sink device operation timeout (Suc k))"

definition wait_for ::
  "wait_world \<Rightarrow> bool \<Rightarrow> string \<Rightarrow> string \<Rightarrow> nat \<Rightarrow> (wait_error + unit) option" where
  "wait_for w sink device operation timeout = device_polls w sink device operation timeout 0"

text \<open>How long each loop sleeps at the end of a turn whose status line took \<open>t\<close>.\<close>

definition source_pause :: "nat \<Rightarrow> nat" where
  "source_pause t = POLL_INTERVAL"

definition device_pause :: "nat \<Rightarrow> nat" where
  "device_pause t = POLL_INTERVAL - t"

text \<open>A clock that never runs backwards and sleeps at least as long as it was told to.\<close>

definition clock_sleeps :: "(nat \<Rightarrow> nat) \<Rightarrow> wait_world \<Rightarrow> bool" where
  "clock_sleeps pause w \<longleftrightarrow> ww_start w \<le> ww_now w 0 \<and>
     (\<forall>k. ww_now w k + ww_tick_ms w k + pause (ww_tick_ms w k) \<le> ww_now w (Suc k))"

subsection \<open>Both are polling loops\<close>

lemma source_polls_end:
  assumes "source_polls w sink device operation timeout k = Some r"
  shows "\<exists>j\<ge>k. source_turn w sink device operation timeout j \<noteq> None"
proof (rule source_polls.raw_induct [OF _ assms])
  fix polls w sink device operation timeout k r
  assume IH: "\<And>w sink device operation timeout k r.
      polls w sink device operation timeout k = Some r
        \<Longrightarrow> \<exists>j\<ge>k. source_turn w sink device operation timeout j \<noteq> None"
    and eq: "(case source_turn w sink device operation timeout k of
        Some r \<Rightarrow> Some r | None \<Rightarrow> polls w sink device operation timeout (Suc k)) = Some r"
  show "\<exists>j\<ge>k. source_turn w sink device operation timeout j \<noteq> None"
  proof (cases "source_turn w sink device operation timeout k")
    case None
    with IH [of w sink device operation timeout "Suc k" r] eq show ?thesis
      by (auto intro: Suc_leD)
  qed auto
qed

lemma device_polls_end:
  assumes "device_polls w sink device operation timeout k = Some r"
  shows "\<exists>j\<ge>k. device_turn w sink device operation timeout j \<noteq> None"
proof (rule device_polls.raw_induct [OF _ assms])
  fix polls w sink device operation timeout k r
  assume IH: "\<And>w sink device operation timeout k r.
      polls w sink device operation timeout k = Some r
        \<Longrightarrow> \<exists>j\<ge>k. device_turn w sink device operation timeout j \<noteq> None"
    and eq: "(case device_turn w sink device operation timeout k of
        Some r \<Rightarrow> Some r | None \<Rightarrow> polls w sink device operation timeout (Suc k)) = Some r"
  show "\<exists>j\<ge>k. device_turn w sink device operation timeout j \<noteq> None"
  proof (cases "device_turn w sink device operation timeout k")
    case None
    with IH [of w sink device operation timeout "Suc k" r] eq show ?thesis
      by (auto intro: Suc_leD)
  qed auto
qed

interpretation source: poll_loop "source_turn w sink device operation timeout"
    "source_polls w sink device operation timeout"
  by unfold_locales (rule source_polls.simps, erule source_polls_end)

interpretation device: poll_loop "device_turn w sink device operation timeout"
    "device_polls w sink device operation timeout"
  by unfold_locales (rule device_polls.simps, erule device_polls_end)

subsection \<open>A wait ends\<close>

lemma pause_fills_the_turn:
  "POLL_INTERVAL \<le> t + source_pause t" "POLL_INTERVAL \<le> t + device_pause t"
  by (simp_all add: source_pause_def device_pause_def)

lemma deadline_le: "wait_deadline w timeout \<le> ww_start w + timeout"
  by (simp add: wait_deadline_def checked_add_def)

lemma clock_runs:
  assumes "clock_sleeps pause w" "\<And>t. POLL_INTERVAL \<le> t + pause t"
  shows "ww_start w + k * POLL_INTERVAL \<le> ww_now w k"
proof (induction k)
  case 0
  then show ?case using assms(1) by (simp add: clock_sleeps_def)
next
  case (Suc k)
  have "ww_now w k + ww_tick_ms w k + pause (ww_tick_ms w k) \<le> ww_now w (Suc k)"
    using assms(1) by (simp add: clock_sleeps_def)
  with Suc assms(2) [of "ww_tick_ms w k"] show ?case by simp
qed

lemma deadline_passes:
  assumes "clock_sleeps pause w" "\<And>t. POLL_INTERVAL \<le> t + pause t"
  shows "wait_deadline w timeout \<le> ww_now w ((timeout + 99) div 100)"
proof -
  have "timeout \<le> (timeout + 99) div 100 * 100" by linarith
  with clock_runs [OF assms, of "(timeout + 99) div 100"] deadline_le [of w timeout] show ?thesis
    by (simp add: POLL_INTERVAL_def)
qed

lemma turn_at_deadline:
  assumes "wait_deadline w timeout \<le> ww_now w k"
  shows "source_turn w sink device operation timeout k \<noteq> None"
    "device_turn w sink device operation timeout k \<noteq> None"
  using assms by (simp_all add: source_turn_def device_turn_def)

lemma device_wait_bounded:
  assumes "clock_sleeps device_pause w"
  shows "\<exists>k \<le> (timeout + 99) div 100.
    wait_for w sink device operation timeout = device_turn w sink device operation timeout k
      \<and> device_turn w sink device operation timeout k \<noteq> None
      \<and> (\<forall>i<k. \<not> device_ready (ww_exists w i) (ww_stat w i))"
proof -
  have "device_turn w sink device operation timeout ((timeout + 99) div 100) \<noteq> None"
    by (rule turn_at_deadline(2) [OF deadline_passes [OF assms pause_fills_the_turn(2)]])
  then obtain j where j: "j \<le> (timeout + 99) div 100"
      "\<forall>i. 0 \<le> i \<and> i < j \<longrightarrow> device_turn w sink device operation timeout i = None"
      "device_turn w sink device operation timeout j \<noteq> None"
      "device_polls w sink device operation timeout 0 = device_turn w sink device operation timeout j"
    by (rule device.polls_reach [OF _ le0]) blast
  from j(2) have "\<forall>i<j. \<not> device_ready (ww_exists w i) (ww_stat w i)"
    by (auto simp: device_turn_def split: if_splits)
  with j show ?thesis unfolding wait_for_def by blast
qed

lemma device_wait_returns:
  "clock_sleeps device_pause w \<Longrightarrow> wait_for w sink device operation timeout \<noteq> None"
  using device_wait_bounded [of w timeout sink device operation] by auto

lemma source_wait_bounded:
  assumes "clock_sleeps source_pause w"
  shows "wait_for_source_device w sink device operation timeout \<noteq> None"
proof -
  have "source_turn w sink device operation timeout ((timeout + 99) div 100) \<noteq> None"
    by (rule turn_at_deadline(1) [OF deadline_passes [OF assms pause_fills_the_turn(1)]])
  then show ?thesis
    by (rule source.polls_reach [OF _ le0]) (simp add: wait_for_source_device_def)
qed

lemma device_wait_OkD:
  assumes "wait_for w sink device operation timeout = Some (Inr u)"
  obtains k where "device_ready (ww_exists w k) (ww_stat w k)"
  using assms unfolding wait_for_def
  by (rule device.polls_result) (auto simp: device_turn_def wait_tick_def split: if_splits)

lemma source_wait_OkD:
  assumes "wait_for_source_device w sink device operation timeout = Some (Inr u)"
  obtains k where "ww_exists w k = Some True"
proof (cases "ww_exists w 0 = Some True")
  case False
  with assms have "source_polls w sink device operation timeout 0 = Some (Inr u)"
    by (simp add: wait_for_source_device_def)
  then show ?thesis
    by (rule source.polls_result)
      (use that in \<open>auto simp: source_turn_def wait_tick_def split: if_splits\<close>)
qed (rule that)

text \<open>A device that is there by a turn before the deadline is found, whatever failed before.\<close>

lemma appearing_source_is_found:
  assumes "ww_exists w (Suc n) = Some True" "\<forall>i\<le>n. ww_exists w i \<noteq> Some True"
    "\<forall>i<n. ww_now w i < wait_deadline w timeout"
  shows "wait_for_source_device w False device operation timeout = Some (Inr ())"
proof -
  have "\<forall>j. 0 \<le> j \<and> j < n \<longrightarrow> source_turn w False device operation timeout j = None"
    using assms(2,3) by (auto simp: source_turn_def wait_tick_def dest: spec [of _ "Suc _"])
  moreover have "source_turn w False device operation timeout n = Some (Inr ())"
    using assms(1) by (simp add: source_turn_def)
  ultimately have "source_polls w False device operation timeout 0 = Some (Inr ())"
    by (intro source.polls_first [OF le0])
  with assms(2) show ?thesis by (simp add: wait_for_source_device_def)
qed

definition demo_wait :: wait_world where
  "demo_wait = \<lparr>ww_start = 5, ww_clock_max = 1000000, ww_now = (\<lambda>k. 10 + 120 * k),
     ww_exists = (\<lambda>k. Some (3 \<le> k)), ww_stat = (\<lambda>k. Some Block_Device),
     ww_tick = (\<lambda>k phase. False), ww_tick_ms = (\<lambda>k. 20)\<rparr>"

lemma demo_wait_clock: "clock_sleeps device_pause demo_wait" "clock_sleeps source_pause demo_wait"
  by (simp_all add: clock_sleeps_def demo_wait_def device_pause_def source_pause_def POLL_INTERVAL_def)

end
