(* ===== verification/Activation_Run.thy ===== *)
theory Activation_Run
  imports Seal_Policy Device_Wait Cpio
begin

text \<open>
  The run over the configured activations, \<open>activation/mod.rs\<close> with its \<open>helpers\<close>: for every
  entry in order, wait for its source devices, collect the passphrase, run the tool until it
  succeeds or the operator gives up, read the token's passphrase for the next stage, wait for the
  devices it makes, and keep what the next stage needs. The tools run in the \<open>world\<close> of
  \<open>Seal_Policy\<close>; the start of a child process, \<open>sys/activation\<close>, is the first part.
\<close>

subsection \<open>A child process\<close>

datatype wait_status = Exited int | Signaled nat | Other_Status

record process_outcome =
  exit_code :: int
  normal_exit :: bool

definition outcome_from_status :: "wait_status \<Rightarrow> process_outcome option" where
  "outcome_from_status status =
     (case status of
        Exited code \<Rightarrow> Some \<lparr>exit_code = code, normal_exit = True\<rparr>
      | Signaled sig \<Rightarrow> Some \<lparr>exit_code = min (128 + int sig) 2147483647, normal_exit = False\<rparr>
      | Other_Status \<Rightarrow> None)"

datatype runner_error = Runner_Nul string | Runner_Errno string string | Runner_Zero_Write

text \<open>The poller gives \<open>None\<close> when the child was reaped elsewhere.\<close>

definition reap_child_outcome :: "wait_status option \<Rightarrow> runner_error + process_outcome" where
  "reap_child_outcome reaped =
     (case reaped of
        Some status \<Rightarrow>
          Inr (case outcome_from_status status of
                 Some out \<Rightarrow> out | None \<Rightarrow> \<lparr>exit_code = 0, normal_exit = True\<rparr>)
      | None \<Rightarrow> Inl (Runner_Errno ''reap'' ''ECHILD''))"

definition derive_argv0 :: "string \<Rightarrow> string" where
  "derive_argv0 binary = (case file_name binary of Some name \<Rightarrow> name | None \<Rightarrow> binary)"

definition cstring :: "string \<Rightarrow> string \<Rightarrow> runner_error + string" where
  "cstring field t = rbind (ensure (nul \<notin> set t) (Runner_Nul field)) (\<lambda>_. Inr t)"

fun cstring_args :: "nat \<Rightarrow> string list \<Rightarrow> runner_error + string list" where
  "cstring_args i [] = Inr []"
| "cstring_args i (a # as) =
     rbind (cstring (''argv['' @ dec (sat_add u64_max i 1) @ '']'') a) (\<lambda>c.
     rbind (cstring_args (Suc i) as) (\<lambda>cs. Inr (c # cs)))"

definition build_exec_args ::
  "string \<Rightarrow> string list \<Rightarrow> runner_error + string \<times> string list \<times> string list" where
  "build_exec_args binary argv =
     rbind (cstring ''binary path'' binary) (\<lambda>b.
     rbind (cstring ''argv0'' (derive_argv0 binary)) (\<lambda>argv0.
     rbind (cstring_args 0 argv) (\<lambda>args. Inr (b, argv0 # args, [''DM_DISABLE_UDEV=1'']))))"

text \<open>
  The passphrase goes down a pipe. One answer of the kernel per \<open>write\<close>: \<open>None\<close> is \<open>EINTR\<close>. The
  answers are a list; \<open>None\<close> as a result says that it was too short to tell how the write ends.
\<close>

datatype pipe_answer = Pipe_Intr | Pipe_Err string | Pipe_Bytes nat

fun pipe_write_all ::
  "pipe_answer list \<Rightarrow> bytes \<Rightarrow> bytes \<Rightarrow> ((runner_error + unit) \<times> bytes) option" where
  "pipe_write_all answers sent buf =
     (if buf = [] then Some (Inr (), sent)
      else case answers of
        [] \<Rightarrow> None
      | Pipe_Intr # rest \<Rightarrow> pipe_write_all rest sent buf
      | Pipe_Err e # rest \<Rightarrow> Some (Inl (Runner_Errno ''stdin'' e), sent)
      | Pipe_Bytes n # rest \<Rightarrow>
          if n = 0 then Some (Inl Runner_Zero_Write, sent)
          else pipe_write_all rest (sent @ take n buf) (drop n buf))"

subsection \<open>What an activation asks\<close>

datatype activation_error =
    Act_Io string
  | Act_No_Supplier activation_kind
  | Act_Prompt string
  | Act_Runner activation_kind string
  | Act_Exit activation_kind string int
  | Act_Wait wait_error
  | Act_Modal string
  | Operator_Chose_Reboot activation_kind string
  | Wrong_Password_Shell_Exited activation_kind string
  | Act_No_Source activation_kind
  | Act_Hand_Off activation_kind string int

text \<open>
  The answers: the text of \<open>/proc/modules\<close>, the prompt for a passphrase (\<open>None\<close> without a
  terminal), the choice at the wrong-password modal of an attempt, the helper that prints the token's
  passphrase, and what each wait sees. What came before (the trace) and the position in the list of
  devices tell one question from the next.
\<close>

record act_world =
  aw_modules :: "string + string"
  aw_prompt :: "(events \<Rightarrow> string \<Rightarrow> string + string) option"
  aw_choice :: "events \<Rightarrow> nat \<Rightarrow> string + wrong_password_outcome"
  aw_helper :: "events \<Rightarrow> string \<Rightarrow> string list \<Rightarrow> string + int \<times> bytes"
  aw_source_wait :: "events \<Rightarrow> nat \<Rightarrow> wait_world"
  aw_device_wait :: "events \<Rightarrow> nat \<Rightarrow> wait_world"

definition kind_label :: "activation_kind \<Rightarrow> string" where
  "kind_label kind =
     (case kind of
        Lvm \<Rightarrow> ''lvm'' | Mdraid \<Rightarrow> ''mdraid'' | Luks_Tpm \<Rightarrow> ''luks-tpm''
      | Luks_Keyfile \<Rightarrow> ''luks-keyfile'' | Luks_Password \<Rightarrow> ''luks-password'' | Zfs \<Rightarrow> ''zfs'')"

subsection \<open>Modules\<close>

definition parse_loaded_modules :: "string \<Rightarrow> string set" where
  "parse_loaded_modules t =
     set (List.map_filter
       (\<lambda>line. if trim_start line = [] then None
              else case get_at (split_whitespace (trim_start line)) 0 of
                Some name \<Rightarrow> if name = [] then None else Some name
              | None \<Rightarrow> None)
       (text_lines t))"

definition canonical_module :: "string \<Rightarrow> string" where
  "canonical_module m = map (\<lambda>c. if c = CHR ''-'' then CHR ''_'' else c) m"

text \<open>The modules the log warns of; the run goes on without them.\<close>

definition check_required_modules :: "activation \<Rightarrow> string set \<Rightarrow> string list" where
  "check_required_modules act loaded =
     filter (\<lambda>m. canonical_module m \<notin> loaded) (act_required_modules act)"

definition loaded_modules :: "act_world \<Rightarrow> activation_error + string set" where
  "loaded_modules aw = map_err Act_Io (map_sum id parse_loaded_modules (aw_modules aw))"

subsection \<open>One activation\<close>

definition collect_stdin ::
  "act_world \<Rightarrow> activation \<Rightarrow> events \<Rightarrow> activation_error + bytes option" where
  "collect_stdin aw act tr =
     (if act_kind act \<noteq> Luks_Password then Inr None
      else case aw_prompt aw of
        None \<Rightarrow> Inl (Act_No_Supplier (act_kind act))
      | Some prompt \<Rightarrow>
          map_sum Act_Prompt Some
            (prompt tr (case act_prompt_label act of Some l \<Rightarrow> l | None \<Rightarrow> ''Enter passphrase'')))"

text \<open>One turn of the loop: \<open>Inr\<close> goes round again with the attempts counted, \<open>Inl\<close> leaves it.\<close>

definition attempt_turn ::
  "world \<Rightarrow> seal_config \<Rightarrow> act_world \<Rightarrow> activation \<Rightarrow> nat \<Rightarrow> seal_state
     \<Rightarrow> (activation_error + bytes option) \<times> seal_state + nat \<times> seal_state" where
  "attempt_turn w cfg aw act attempts s =
     (case collect_stdin aw act (trace s) of
        Inl e \<Rightarrow> Inl (Inl e, s)
      | Inr secret \<Rightarrow>
          (case activate_once w act s of
             (Inl e, s1) \<Rightarrow> Inl (Inl (Act_Runner (act_kind act) e), s1)
           | (Inr code, s1) \<Rightarrow>
               if is_activation_success code then Inl (Inr secret, s1)
               else if act_kind act = Luks_Password \<and> code = 2 then
                 (let attempts = sat_add u32_max attempts 1 in
                  case aw_choice aw (trace s1) attempts of
                    Inl e \<Rightarrow> Inl (Inl (Act_Modal e), s1)
                  | Inr choice \<Rightarrow>
                      (case handle_wrong_password w cfg choice s1 of
                         (Try_Again, s2) \<Rightarrow> Inr (attempts, s2)
                       | (Handled_Reboot, s2) \<Rightarrow>
                           Inl (Inl (Operator_Chose_Reboot (act_kind act) (act_description act)), s2)
                       | (Shell_Exited, s2) \<Rightarrow>
                           Inl (Inl (Wrong_Password_Shell_Exited (act_kind act)
                             (act_description act)), s2)))
               else Inl (Inl (Act_Exit (act_kind act) (act_description act) code), s1)))"

text \<open>\<open>None\<close> is an operator who tries again for ever.\<close>

partial_function (option) attempt_activation ::
  "world \<Rightarrow> seal_config \<Rightarrow> act_world \<Rightarrow> activation \<Rightarrow> nat \<Rightarrow> seal_state
     \<Rightarrow> ((activation_error + bytes option) \<times> seal_state) option" where
  "attempt_activation w cfg aw act attempts s =
     (case attempt_turn w cfg aw act attempts s of
        Inl r \<Rightarrow> Some r
      | Inr (attempts, s) \<Rightarrow> attempt_activation w cfg aw act attempts s)"

definition run_one_activation ::
  "world \<Rightarrow> seal_config \<Rightarrow> act_world \<Rightarrow> activation \<Rightarrow> seal_state
     \<Rightarrow> ((activation_error + bytes option) \<times> seal_state) option" where
  "run_one_activation w cfg aw act s = attempt_activation w cfg aw act 0 s"

definition TPM_PASSPHRASE_HELPER :: string where
  "TPM_PASSPHRASE_HELPER = ''/bin/nmbl-tpm-passphrase''"

definition read_tpm_stage1_secret ::
  "act_world \<Rightarrow> activation \<Rightarrow> events \<Rightarrow> activation_error + bytes" where
  "read_tpm_stage1_secret aw act tr =
     rbind (ok_or (Act_No_Source (act_kind act)) (get_at (act_sources act) 0)) (\<lambda>device.
     rbind (map_err (Act_Runner (act_kind act)) (aw_helper aw tr TPM_PASSPHRASE_HELPER [device]))
       (\<lambda>(code, secret).
     if code \<noteq> 0 \<or> secret = [] then Inl (Act_Hand_Off (act_kind act) device code)
     else Inr secret))"

definition stage1_secret ::
  "act_world \<Rightarrow> activation \<Rightarrow> bytes option \<Rightarrow> events \<Rightarrow> activation_error + bytes option" where
  "stage1_secret aw act stdin_owned tr =
     (if act_kind act = Luks_Tpm \<and> act_pass_to_stage1 act \<noteq> None
      then map_sum id Some (read_tpm_stage1_secret aw act tr) else Inr stdin_owned)"

definition key_injection :: "activation \<Rightarrow> bytes option \<Rightarrow> injection_entry list" where
  "key_injection act secret =
     (case (act_pass_to_stage1 act, secret) of
        (Some path, Some key) \<Rightarrow>
          if act_kind act \<in> {Luks_Password, Luks_Tpm} then [\<lparr>inj_path = path, inj_content = key\<rparr>]
          else []
      | _ \<Rightarrow> [])"

subsection \<open>The run\<close>

fun wait_each ::
  "(nat \<Rightarrow> string \<Rightarrow> (wait_error + unit) option) \<Rightarrow> nat \<Rightarrow> string list
     \<Rightarrow> (activation_error + unit) option" where
  "wait_each wait i [] = Some (Inr ())"
| "wait_each wait i (d # ds) =
     (case wait i d of
        None \<Rightarrow> None
      | Some (Inl e) \<Rightarrow> Some (Inl (Act_Wait e))
      | Some (Inr _) \<Rightarrow> wait_each wait (Suc i) ds)"

definition wait_for_source_devices ::
  "act_world \<Rightarrow> nat \<Rightarrow> activation \<Rightarrow> events \<Rightarrow> (activation_error + unit) option" where
  "wait_for_source_devices aw timeout act tr =
     wait_each (\<lambda>i d. wait_for_source_device (aw_source_wait aw tr i) True d
         (''phase 3: '' @ kind_label (act_kind act) @ '' waiting for source'') timeout)
       0 (act_sources act)"

definition wait_for_produced_devices ::
  "act_world \<Rightarrow> nat \<Rightarrow> activation \<Rightarrow> events \<Rightarrow> (activation_error + unit) option" where
  "wait_for_produced_devices aw timeout act tr =
     wait_each (\<lambda>i d. wait_for (aw_device_wait aw tr i) True d
         (''phase 3: '' @ kind_label (act_kind act) @ '' waiting for'') timeout)
       0 (act_produces act)"

text \<open>A loop turn: \<open>None\<close> as above, else the injections of this entry and the state after it.\<close>

definition activation_turn ::
  "world \<Rightarrow> seal_config \<Rightarrow> act_world \<Rightarrow> nat \<Rightarrow> activation \<Rightarrow> seal_state
     \<Rightarrow> ((activation_error + injection_entry list) \<times> seal_state) option" where
  "activation_turn w cfg aw timeout act s =
     Option.bind (wait_for_source_devices aw timeout act (trace s)) (\<lambda>src. case src of
        Inl e \<Rightarrow> Some (Inl e, s)
      | Inr _ \<Rightarrow> Option.bind (run_one_activation w cfg aw act s) (\<lambda>(res, s1).
          case rbind res (\<lambda>stdin_owned. stage1_secret aw act stdin_owned (trace s1)) of
            Inl e \<Rightarrow> Some (Inl e, s1)
          | Inr secret \<Rightarrow>
              Option.bind (wait_for_produced_devices aw timeout act (trace s1)) (\<lambda>made. case made of
                 Inl e \<Rightarrow> Some (Inl e, s1)
               | Inr _ \<Rightarrow> Some (Inr (key_injection act secret), s1))))"

fun run_activations ::
  "world \<Rightarrow> seal_config \<Rightarrow> act_world \<Rightarrow> nat \<Rightarrow> injection_entry list \<Rightarrow> activation list \<Rightarrow> seal_state
     \<Rightarrow> ((activation_error + injection_entry list) \<times> seal_state) option" where
  "run_activations w cfg aw timeout injections [] s = Some (Inr injections, s)"
| "run_activations w cfg aw timeout injections (act # acts) s =
     Option.bind (activation_turn w cfg aw timeout act s) (\<lambda>(res, s1). case res of
        Inl e \<Rightarrow> Some (Inl e, s1)
      | Inr new \<Rightarrow> run_activations w cfg aw timeout (injections @ new) acts s1)"

definition run_all_activations ::
  "world \<Rightarrow> seal_config \<Rightarrow> act_world \<Rightarrow> nat \<Rightarrow> seal_state
     \<Rightarrow> ((activation_error + injection_entry list) \<times> seal_state) option" where
  "run_all_activations w cfg aw timeout_secs s =
     (if sc_activations cfg = [] then Some (Inr [], s)
      else case loaded_modules aw of
        Inl e \<Rightarrow> Some (Inl e, s)
      | Inr _ \<Rightarrow> run_activations w cfg aw (timeout_secs * 1000) [] (sc_activations cfg) s)"

subsection \<open>A run is a run of the lock\<close>

definition extends :: "seal_state \<Rightarrow> seal_state \<Rightarrow> bool" where
  "extends s s' \<longleftrightarrow> (\<exists>evs. trace s' = trace s @ evs)"

lemma extends_refl [simp, intro]: "extends s s"
  by (simp add: extends_def)

lemma extends_trans: "extends s s' \<Longrightarrow> extends s' s'' \<Longrightarrow> extends s s''"
  by (auto simp: extends_def)

lemma quietly_extends: "quietly s s' \<Longrightarrow> extends s s'"
  by (auto simp: quietly_def extends_def)

lemma extends_emit: "extends s s' \<Longrightarrow> extends s (emit ev s')"
  by (auto simp: extends_def)

lemma extends_event: "extends s s' \<Longrightarrow> ev \<in> set (trace s) \<Longrightarrow> ev \<in> set (trace s')"
  by (auto simp: extends_def)

lemma wrong_password_extends: "extends s (snd (handle_wrong_password w cfg choice s))"
proof -
  have "extends s (snd (seal_secrets w (sc_tpm_require_tpm cfg) s))"
    unfolding seal_secrets_def by (rule quietly_extends [OF seal_with_quietly])
  then show ?thesis
    by (auto simp: handle_wrong_password_def extends_emit split: prod.splits sum.splits)
qed

text \<open>What a success of the tool leaves: its event is the last of the trace, just after the prompt.\<close>

definition opened_with :: "act_world \<Rightarrow> activation \<Rightarrow> bytes option \<Rightarrow> events \<Rightarrow> bool" where
  "opened_with aw act secret tr \<longleftrightarrow>
     (\<exists>before code. tr = before @ [Ev_Activate (act_kind act) (act_binary act) (act_argv act) (Inr code)]
        \<and> is_activation_success code \<and> collect_stdin aw act before = Inr secret)"

lemma activate_once_trace:
  "trace (snd (activate_once w act s)) =
     trace s @ [Ev_Activate (act_kind act) (act_binary act) (act_argv act) (fst (activate_once w act s))]"
  by (simp add: activate_once_def Let_def split: sum.split)

lemma activate_reached:
  assumes "reached w cfg panics s" "act \<in> set (sc_activations cfg)"
  shows "reached w cfg panics (snd (activate_once w act s))"
proof -
  from assms(2) obtain k where "k < length (sc_activations cfg)" "sc_activations cfg ! k = act"
    by (auto simp: in_set_conv_nth)
  then have "seal_step w cfg s (Do_Activate k) = snd (activate_once w act s)"
    by (simp add: seal_step_def get_at_def)
  then show ?thesis using reached_step [OF assms(1), of "Do_Activate k"] by simp
qed

lemma wrong_password_reached:
  assumes "reached w cfg panics s"
  shows "reached w cfg panics (snd (handle_wrong_password w cfg choice s))"
  using reached_step [OF assms, of "Do_Wrong_Password choice"] by (simp add: seal_step_def)

text \<open>What a turn does to the machine, whether it ends the loop or not.\<close>

definition turn_state ::
  "(activation_error + bytes option) \<times> seal_state + nat \<times> seal_state \<Rightarrow> seal_state" where
  "turn_state t = (case t of Inl r \<Rightarrow> snd r | Inr r \<Rightarrow> snd r)"

lemma turn_state_cases:
  "turn_state (attempt_turn w cfg aw act attempts s) = s
   \<or> turn_state (attempt_turn w cfg aw act attempts s) = snd (activate_once w act s)
   \<or> (\<exists>choice. turn_state (attempt_turn w cfg aw act attempts s) =
        snd (handle_wrong_password w cfg choice (snd (activate_once w act s))))"
proof (cases "collect_stdin aw act (trace s)")
  case (Inr secret)
  obtain res s1 where once: "activate_once w act s = (res, s1)" by fastforce
  show ?thesis
  proof (cases res)
    case (Inr code)
    show ?thesis
    proof (cases "aw_choice aw (trace s1) (sat_add u32_max attempts 1)")
      case choice: (Inr choice)
      obtain h s2 where "handle_wrong_password w cfg choice s1 = (h, s2)" by fastforce
      with Inr choice once \<open>collect_stdin aw act (trace s) = Inr secret\<close> show ?thesis
        by (cases h) (auto simp: attempt_turn_def turn_state_def Let_def intro!: exI [of _ choice])
    qed (use Inr once \<open>collect_stdin aw act (trace s) = Inr secret\<close> in
        \<open>simp add: attempt_turn_def turn_state_def Let_def\<close>)
  qed (use once Inr in \<open>simp add: attempt_turn_def turn_state_def\<close>)
qed (simp add: attempt_turn_def turn_state_def)

lemma activate_once_extends: "extends s (snd (activate_once w act s))"
  by (simp add: extends_def activate_once_trace)

lemma turn_extends: "extends s (turn_state (attempt_turn w cfg aw act attempts s))"
  using turn_state_cases [of w cfg aw act attempts s]
    extends_trans [OF activate_once_extends wrong_password_extends] activate_once_extends
  by (metis extends_refl)

lemma turn_reached:
  assumes "reached w cfg panics s" "act \<in> set (sc_activations cfg)"
  shows "reached w cfg panics (turn_state (attempt_turn w cfg aw act attempts s))"
  using turn_state_cases [of w cfg aw act attempts s] assms(1) activate_reached [OF assms]
    wrong_password_reached [OF activate_reached [OF assms]]
  by metis

lemma turn_success:
  assumes "attempt_turn w cfg aw act attempts s = Inl (Inr secret, s')"
  shows "opened_with aw act secret (trace s')"
proof -
  obtain res s1 where once: "activate_once w act s = (res, s1)" by fastforce
  have key: "collect_stdin aw act (trace s) = Inr secret \<and>
      (\<exists>code. activate_once w act s = (Inr code, s') \<and> is_activation_success code)"
  proof (cases "collect_stdin aw act (trace s)")
    case (Inr key)
    show ?thesis
    proof (cases res)
      case code: (Inr code)
      show ?thesis
      proof (cases "is_activation_success code")
        case True
        with assms once Inr code show ?thesis by (simp add: attempt_turn_def)
      next
        case False
        with assms once Inr code show ?thesis
          by (simp add: attempt_turn_def Let_def split: if_splits sum.splits prod.splits
              wrong_password_handled.splits)
      qed
    qed (use assms once Inr in \<open>simp add: attempt_turn_def\<close>)
  qed (use assms in \<open>simp add: attempt_turn_def\<close>)
  then obtain code where code: "activate_once w act s = (Inr code, s')" "is_activation_success code"
    by blast
  have "trace s' = trace s @ [Ev_Activate (act_kind act) (act_binary act) (act_argv act) (Inr code)]"
    using activate_once_trace [of w act s] code(1) by simp
  with key code(2) show ?thesis
    unfolding opened_with_def by (intro exI [of _ "trace s"] exI [of _ code] conjI) simp_all
qed

definition attempt_post ::
  "world \<Rightarrow> seal_config \<Rightarrow> act_world \<Rightarrow> activation \<Rightarrow> seal_state
     \<Rightarrow> (activation_error + bytes option) \<times> seal_state \<Rightarrow> bool" where
  "attempt_post w cfg aw act s r \<longleftrightarrow>
     extends s (snd r)
     \<and> (\<forall>panics. reached w cfg panics s \<longrightarrow> act \<in> set (sc_activations cfg) \<longrightarrow> reached w cfg panics (snd r))
     \<and> (\<forall>secret. fst r = Inr secret \<longrightarrow> opened_with aw act secret (trace (snd r)))"

lemma attempt_post_turn:
  assumes "attempt_turn w cfg aw act attempts s = Inl r"
  shows "attempt_post w cfg aw act s r"
  using turn_extends [of s w cfg aw act attempts] turn_reached [of w cfg _ s act aw attempts]
    turn_success [of w cfg aw act attempts s _ "snd r"] assms
  by (cases r) (auto simp: attempt_post_def turn_state_def)

lemma attempt_post_again:
  assumes "attempt_turn w cfg aw act attempts s = Inr (n, s2)" "attempt_post w cfg aw act s2 r"
  shows "attempt_post w cfg aw act s r"
proof -
  have "extends s s2" using turn_extends [of s w cfg aw act attempts] assms(1)
    by (simp add: turn_state_def)
  moreover have "reached w cfg panics s2"
    if "reached w cfg panics s" "act \<in> set (sc_activations cfg)" for panics
    using turn_reached [OF that, of aw attempts] assms(1) by (simp add: turn_state_def)
  ultimately show ?thesis
    using assms(2) extends_trans unfolding attempt_post_def by blast
qed

lemma attempt_establishes:
  assumes "attempt_activation w cfg aw act attempts s = Some r"
  shows "attempt_post w cfg aw act s r"
proof (rule attempt_activation.raw_induct [OF _ assms])
  fix rec w cfg aw act attempts s r
  assume IH: "\<And>w cfg aw act attempts s r. rec w cfg aw act attempts s = Some r
      \<Longrightarrow> attempt_post w cfg aw act s r"
    and eq: "(case attempt_turn w cfg aw act attempts s of
        Inl r \<Rightarrow> Some r | Inr (attempts, s) \<Rightarrow> rec w cfg aw act attempts s) = Some r"
  show "attempt_post w cfg aw act s r"
  proof (cases "attempt_turn w cfg aw act attempts s")
    case (Inl r')
    with eq have "r' = r" by simp
    with Inl show ?thesis by (simp add: attempt_post_turn)
  next
    case (Inr again)
    obtain n s2 where again: "again = (n, s2)" by fastforce
    with Inr eq have "rec w cfg aw act n s2 = Some r" by simp
    from attempt_post_again [OF _ IH [OF this]] Inr again show ?thesis by simp
  qed
qed

subsection \<open>What a run leaves\<close>

lemma wait_each_OkD:
  "wait_each wait i ds = Some (Inr u) \<Longrightarrow> \<forall>j<length ds. wait (i + j) (ds ! j) = Some (Inr ())"
proof (induction ds arbitrary: i)
  case Nil
  then show ?case by simp
next
  case (Cons d ds)
  then have "wait i d = Some (Inr ())" "wait_each wait (Suc i) ds = Some (Inr u)"
    by (auto split: option.splits sum.splits)
  with Cons.IH [of "Suc i"] show ?case by (auto simp: nth_Cons split: nat.split)
qed

lemma stage1_secret_kept:
  "act_kind act \<noteq> Luks_Tpm \<Longrightarrow> stage1_secret aw act secret tr = Inr secret"
  by (simp add: stage1_secret_def)

text \<open>How the key of an entry came about, given the trace when its tool had succeeded.\<close>

definition key_for :: "act_world \<Rightarrow> activation \<Rightarrow> events \<Rightarrow> injection_entry list \<Rightarrow> bool" where
  "key_for aw act tr new \<longleftrightarrow>
     (\<exists>stdin secret. opened_with aw act stdin tr \<and> stage1_secret aw act stdin tr = Inr secret
        \<and> new = key_injection act secret)"

definition made_devices :: "act_world \<Rightarrow> activation \<Rightarrow> events \<Rightarrow> bool" where
  "made_devices aw act tr \<longleftrightarrow>
     (\<forall>j<length (act_produces act).
        \<exists>k. device_ready (ww_exists (aw_device_wait aw tr j) k) (ww_stat (aw_device_wait aw tr j) k))"

lemma produced_wait_OkD:
  "wait_for_produced_devices aw timeout act tr = Some (Inr u) \<Longrightarrow> made_devices aw act tr"
  unfolding wait_for_produced_devices_def made_devices_def
  by (drule wait_each_OkD) (auto elim!: device_wait_OkD)

definition turn_post ::
  "world \<Rightarrow> seal_config \<Rightarrow> act_world \<Rightarrow> activation \<Rightarrow> seal_state
     \<Rightarrow> (activation_error + injection_entry list) \<times> seal_state \<Rightarrow> bool" where
  "turn_post w cfg aw act s r \<longleftrightarrow>
     extends s (snd r)
     \<and> (\<forall>panics. reached w cfg panics s \<longrightarrow> act \<in> set (sc_activations cfg) \<longrightarrow> reached w cfg panics (snd r))
     \<and> (\<forall>new. fst r = Inr new \<longrightarrow> key_for aw act (trace (snd r)) new \<and> made_devices aw act (trace (snd r)))"

lemma turn_post_error:
  assumes "extends s s1"
    "\<forall>panics. reached w cfg panics s \<longrightarrow> act \<in> set (sc_activations cfg) \<longrightarrow> reached w cfg panics s1"
  shows "turn_post w cfg aw act s (Inl e, s1)"
  using assms by (simp add: turn_post_def)

lemma turn_establishes:
  assumes "activation_turn w cfg aw timeout act s = Some r"
  shows "turn_post w cfg aw act s r"
proof -
  obtain src where src: "wait_for_source_devices aw timeout act (trace s) = Some src"
    using assms by (auto simp: activation_turn_def bind_eq_Some_conv)
  show ?thesis
  proof (cases src)
    case (Inl e)
    with src assms have "r = (Inl e, s)" by (simp add: activation_turn_def)
    then show ?thesis by (simp add: turn_post_error)
  next
    case (Inr u)
    with src assms obtain res s1 where run: "run_one_activation w cfg aw act s = Some (res, s1)"
      by (auto simp: activation_turn_def bind_eq_Some_conv)
    then have post: "attempt_post w cfg aw act s (res, s1)"
      unfolding run_one_activation_def by (rule attempt_establishes)
    note error = turn_post_error [of s s1 w cfg act aw]
    show ?thesis
    proof (cases "rbind res (\<lambda>stdin_owned. stage1_secret aw act stdin_owned (trace s1))")
      case (Inl e)
      with src Inr run assms have "r = (Inl e, s1)" by (simp add: activation_turn_def)
      with post show ?thesis by (simp add: error attempt_post_def)
    next
      case secret: (Inr secret)
      with src Inr run assms
      have r: "Option.bind (wait_for_produced_devices aw timeout act (trace s1)) (\<lambda>made. case made of
          Inl e \<Rightarrow> Some (Inl e, s1) | Inr _ \<Rightarrow> Some (Inr (key_injection act secret), s1)) = Some r"
        by (simp add: activation_turn_def)
      then obtain made where made: "wait_for_produced_devices aw timeout act (trace s1) = Some made"
        by (auto simp: bind_eq_Some_conv)
      from secret obtain stdin where "res = Inr stdin" "stage1_secret aw act stdin (trace s1) = Inr secret"
        by (auto simp: rbind_Inr_iff)
      with post have "key_for aw act (trace s1) (key_injection act secret)"
        unfolding key_for_def attempt_post_def by auto
      with post r made produced_wait_OkD [of aw timeout act "trace s1"] show ?thesis
        by (cases made) (auto simp: error attempt_post_def turn_post_def)
    qed
  qed
qed

definition entry_post :: "act_world \<Rightarrow> events \<Rightarrow> activation \<Rightarrow> injection_entry list \<Rightarrow> bool" where
  "entry_post aw tr act new \<longleftrightarrow>
     (\<exists>before after. tr = before @ after \<and> key_for aw act before new \<and> made_devices aw act before)"

lemma entry_post_extends: "entry_post aw (trace s) act new \<Longrightarrow> extends s s' \<Longrightarrow> entry_post aw (trace s') act new"
  unfolding entry_post_def extends_def by (metis append.assoc)

lemma runs_establish:
  assumes "run_activations w cfg aw timeout injections acts s = Some (res, s')"
    "set acts \<subseteq> set (sc_activations cfg)"
  shows "extends s s' \<and> (\<forall>panics. reached w cfg panics s \<longrightarrow> reached w cfg panics s')
    \<and> (\<forall>injs. res = Inr injs \<longrightarrow>
         (\<exists>news. injs = injections @ concat news \<and> list_all2 (entry_post aw (trace s')) acts news))"
  using assms
proof (induction acts arbitrary: injections s)
  case Nil
  then show ?case by auto
next
  case (Cons act acts)
  from Cons.prems(1) obtain r s1 where turn: "activation_turn w cfg aw timeout act s = Some (r, s1)"
      and rest: "(case r of Inl e \<Rightarrow> Some (Inl e, s1)
        | Inr new \<Rightarrow> run_activations w cfg aw timeout (injections @ new) acts s1) = Some (res, s')"
    by (auto simp: bind_eq_Some_conv)
  have post: "turn_post w cfg aw act s (r, s1)" by (rule turn_establishes [OF turn])
  show ?case
  proof (cases r)
    case (Inl e)
    with rest post Cons.prems(2) show ?thesis by (auto simp: turn_post_def)
  next
    case (Inr new)
    with rest have "run_activations w cfg aw timeout (injections @ new) acts s1 = Some (res, s')" by simp
    from Cons.IH [OF this] Cons.prems(2)
    have ih: "extends s1 s'" "\<And>panics. reached w cfg panics s1 \<Longrightarrow> reached w cfg panics s'"
      "\<And>injs. res = Inr injs \<Longrightarrow> \<exists>news. injs = (injections @ new) @ concat news
          \<and> list_all2 (entry_post aw (trace s')) acts news"
      by auto
    have here: "entry_post aw (trace s1) act new"
      using post Inr unfolding turn_post_def entry_post_def by (metis append_Nil2 fst_conv snd_conv)
    have "\<exists>news. injs = injections @ concat news
        \<and> list_all2 (entry_post aw (trace s')) (act # acts) news" if injs: "res = Inr injs" for injs
    proof -
      from ih(3) [OF injs] obtain news where "injs = (injections @ new) @ concat news"
        "list_all2 (entry_post aw (trace s')) acts news" by blast
      then show ?thesis using entry_post_extends [OF here ih(1)]
        by (intro exI [of _ "new # news"]) simp
    qed
    moreover have "extends s s'" using post ih(1) extends_trans by (auto simp: turn_post_def)
    moreover have "reached w cfg panics s'" if "reached w cfg panics s" for panics
      using post ih(2) that Cons.prems(2) by (auto simp: turn_post_def)
    ultimately show ?thesis by blast
  qed
qed

lemma run_all_cases:
  assumes "run_all_activations w cfg aw timeout_secs s = Some (res, s')"
  shows "(\<exists>e. res = Inl e \<and> s' = s) \<or>
    run_activations w cfg aw (timeout_secs * 1000) [] (sc_activations cfg) s = Some (res, s')"
  using assms by (auto simp: run_all_activations_def split: if_splits sum.splits)

lemma run_all_reached:
  assumes "reached w cfg panics s" "run_all_activations w cfg aw timeout_secs s = Some (res, s')"
  shows "reached w cfg panics s'"
  using run_all_cases [OF assms(2)] assms(1) runs_establish [of w cfg aw "timeout_secs * 1000" "[]"
      "sc_activations cfg" s res s'] by blast

lemma run_all_entries:
  assumes "run_all_activations w cfg aw timeout_secs s = Some (Inr injs, s')"
  shows "\<exists>news. injs = concat news \<and> list_all2 (entry_post aw (trace s')) (sc_activations cfg) news"
  using run_all_cases [OF assms] runs_establish [of w cfg aw "timeout_secs * 1000" "[]"
      "sc_activations cfg" s "Inr injs" s'] by auto

subsection \<open>What the next stage gets\<close>

definition declared_path :: "activation \<Rightarrow> string list" where
  "declared_path act =
     (if act_kind act \<in> {Luks_Password, Luks_Tpm}
      then (case act_pass_to_stage1 act of Some path \<Rightarrow> [path] | None \<Rightarrow> []) else [])"

lemma key_for_path:
  assumes "key_for aw act tr new"
  shows "map inj_path new = declared_path act"
proof -
  from assms obtain stdin secret where
    opened: "opened_with aw act stdin tr" and stage1: "stage1_secret aw act stdin tr = Inr secret"
    and new: "new = key_injection act secret"
    by (auto simp: key_for_def)
  have "secret \<noteq> None" if "act_kind act = Luks_Password"
  proof -
    from opened obtain before where "collect_stdin aw act before = Inr stdin"
      by (auto simp: opened_with_def)
    with that have "stdin \<noteq> None"
      by (auto simp: collect_stdin_def map_sum_def split: option.splits sum.splits)
    with stage1 that show ?thesis by (simp add: stage1_secret_kept)
  qed
  moreover have "secret \<noteq> None" if "act_kind act = Luks_Tpm" "act_pass_to_stage1 act \<noteq> None"
    using stage1 that
    by (cases "read_tpm_stage1_secret aw act tr") (auto simp: stage1_secret_def)
  ultimately show ?thesis
    using new by (auto simp: key_injection_def declared_path_def split: option.splits)
qed

lemma entries_paths:
  "list_all2 (entry_post aw tr) acts news \<Longrightarrow> map inj_path (concat news) = concat (map declared_path acts)"
  by (induction rule: list_all2_induct) (auto simp: entry_post_def key_for_path)

subsection \<open>A run ends\<close>

text \<open>
  An operator who, at attempt \<open>n\<close> of any prompt, does something else than to try again, and clocks
  that sleep: then no entry of the configuration can hold the boot for ever.
\<close>

definition operator_gives_up :: "act_world \<Rightarrow> nat \<Rightarrow> bool" where
  "operator_gives_up aw n \<longleftrightarrow> 0 < n \<and> n \<le> u32_max \<and> (\<forall>tr. aw_choice aw tr n \<noteq> Inr Try_Again_Choice)"

definition clocks_sleep :: "act_world \<Rightarrow> bool" where
  "clocks_sleep aw \<longleftrightarrow> (\<forall>tr i. clock_sleeps source_pause (aw_source_wait aw tr i)
     \<and> clock_sleeps device_pause (aw_device_wait aw tr i))"

lemma wait_each_ends: "(\<And>i d. wait i d \<noteq> None) \<Longrightarrow> wait_each wait i ds \<noteq> None"
  by (induction ds arbitrary: i) (auto split: option.split sum.split)

lemma attempt_goes_on:
  assumes "attempt_turn w cfg aw act attempts s = Inr (n, s2)"
  shows "n = sat_add u32_max attempts 1 \<and> (\<exists>tr. aw_choice aw tr n = Inr Try_Again_Choice)"
proof -
  obtain res s1 where once: "activate_once w act s = (res, s1)" by fastforce
  obtain secret where secret: "collect_stdin aw act (trace s) = Inr secret"
    using assms by (cases "collect_stdin aw act (trace s)") (auto simp: attempt_turn_def)
  obtain code where code: "res = Inr code"
    using assms once secret by (cases res) (auto simp: attempt_turn_def)
  have again: "\<not> is_activation_success code" "act_kind act = Luks_Password" "code = 2"
    using assms once secret code by (auto simp: attempt_turn_def split: if_splits)
  obtain choice where choice: "aw_choice aw (trace s1) (sat_add u32_max attempts 1) = Inr choice"
    using assms once secret code again
    by (cases "aw_choice aw (trace s1) (sat_add u32_max attempts 1)")
      (auto simp: attempt_turn_def Let_def)
  obtain h s3 where h: "handle_wrong_password w cfg choice s1 = (h, s3)" by fastforce
  have "h = Try_Again \<and> n = sat_add u32_max attempts 1"
    using assms once secret code again choice h by (cases h) (auto simp: attempt_turn_def Let_def)
  moreover from this h have "choice = Try_Again_Choice"
    by (auto simp: handle_wrong_password_def split: if_splits prod.splits sum.splits)
  ultimately show ?thesis using choice by auto
qed

lemma attempts_end:
  assumes "operator_gives_up aw n" "attempts < n"
  shows "attempt_activation w cfg aw act attempts s \<noteq> None"
  using assms(2)
proof (induction "n - attempts" arbitrary: attempts s rule: less_induct)
  case less
  show ?case
  proof (cases "attempt_turn w cfg aw act attempts s")
    case (Inl r)
    then show ?thesis by (simp add: attempt_activation.simps)
  next
    case (Inr again)
    obtain m s2 where again: "again = (m, s2)" by fastforce
    from attempt_goes_on [of w cfg aw act attempts s m s2] Inr again
    have m: "m = sat_add u32_max attempts 1" "m \<noteq> n"
      using assms(1) by (auto simp: operator_gives_up_def)
    with less.prems assms(1) have "m = Suc attempts" "m < n"
      by (auto simp: sat_add_def operator_gives_up_def)
    with less.hyps [of m s2] Inr again show ?thesis by (simp add: attempt_activation.simps [of _ _ _ _ attempts])
  qed
qed

lemma activation_turn_ends:
  assumes "operator_gives_up aw n" "clocks_sleep aw"
  shows "activation_turn w cfg aw timeout act s \<noteq> None"
proof -
  have "wait_for_source_devices aw timeout act tr \<noteq> None" for tr
    unfolding wait_for_source_devices_def
    by (rule wait_each_ends) (use assms(2) source_wait_bounded in \<open>simp add: clocks_sleep_def\<close>)
  moreover have "wait_for_produced_devices aw timeout act tr \<noteq> None" for tr
    unfolding wait_for_produced_devices_def
    by (rule wait_each_ends) (use assms(2) device_wait_returns in \<open>simp add: clocks_sleep_def\<close>)
  moreover have "run_one_activation w cfg aw act s \<noteq> None" for s
    using attempts_end [OF assms(1)] assms(1) by (simp add: run_one_activation_def operator_gives_up_def)
  ultimately obtain src res s1 made where
    "wait_for_source_devices aw timeout act (trace s) = Some src"
    "run_one_activation w cfg aw act s = Some (res, s1)"
    "wait_for_produced_devices aw timeout act (trace s1) = Some made"
    by fastforce
  then show ?thesis
    by (cases "rbind res (\<lambda>stdin_owned. stage1_secret aw act stdin_owned (trace s1))")
      (simp_all add: activation_turn_def split: sum.split)
qed

lemma runs_end:
  assumes "operator_gives_up aw n" "clocks_sleep aw"
  shows "run_activations w cfg aw timeout injections acts s \<noteq> None"
proof (induction acts arbitrary: injections s)
  case (Cons act acts)
  obtain r s1 where "activation_turn w cfg aw timeout act s = Some (r, s1)"
    using activation_turn_ends [OF assms] by fastforce
  with Cons.IH show ?case by (auto split: sum.split)
qed simp

lemma run_all_ends:
  assumes "operator_gives_up aw n" "clocks_sleep aw"
  shows "run_all_activations w cfg aw timeout_secs s \<noteq> None"
  using runs_end [OF assms] by (simp add: run_all_activations_def split: sum.split)

subsection \<open>Exit code 5\<close>

text \<open>
  Only \<open>cryptsetup open\<close> says with exit code 5 that there is nothing left to do; the tools of LVM
  say with it that they failed. The run does not look at the kind: any entry passes.
\<close>

lemma exit_five_passes_for_every_kind:
  assumes "act_kind act \<noteq> Luks_Password" "fst (activate_once w act s) = Inr 5"
  shows "run_one_activation w cfg aw act s = Some (Inr None, snd (activate_once w act s))"
  using assms
  by (cases "activate_once w act s")
    (simp add: run_one_activation_def attempt_activation.simps attempt_turn_def collect_stdin_def
      is_activation_success_def)

subsection \<open>A passphrase through a pipe\<close>

text \<open>A write that succeeds has sent the whole buffer and nothing else, in whatever pieces.\<close>

lemma pipe_write_sends:
  "pipe_write_all answers sent buf = Some (res, sent') \<Longrightarrow>
     (\<exists>k. sent' = sent @ take k buf) \<and> (res = Inr () \<longrightarrow> sent' = sent @ buf)"
proof (induction answers sent buf rule: pipe_write_all.induct)
  case (1 answers sent buf)
  show ?case
  proof (cases "buf = [] \<or> answers = []")
    case True
    with "1.prems" show ?thesis by (cases "buf = []") (auto intro: exI [of _ 0])
  next
    case False
    then obtain a rest where answers: "answers = a # rest" "buf \<noteq> []" by (cases answers) auto
    show ?thesis
    proof (cases a)
      case (Pipe_Bytes n)
      show ?thesis
      proof (cases "n = 0")
        case False
        with 1 answers Pipe_Bytes
        have "(\<exists>k. sent' = (sent @ take n buf) @ take k (drop n buf)) \<and>
            (res = Inr () \<longrightarrow> sent' = (sent @ take n buf) @ drop n buf)" by simp
        then show ?thesis by (auto simp flip: take_add)
      qed (use 1 answers Pipe_Bytes in \<open>auto intro: exI [of _ 0]\<close>)
    qed (use 1 answers in \<open>auto intro: exI [of _ 0]\<close>)
  qed
qed

subsection \<open>What the run is for\<close>

text \<open>C8: The activations run inside the lock. Whatever the tools, the clocks and the operator
  answer, the state in which \<open>run_all_activations\<close> ends, with keys or with an error, is one that
  the machine of the policy guard reaches; what holds of every reached state (no shell before the
  seal, no mapper left open by a panic) so holds through retries, recovery shells and failures.\<close>

theorem activations_run_inside_the_lock:
  assumes "reached w cfg panics s" "run_all_activations w cfg aw timeout_secs s = Some (res, s')"
  shows "reached w cfg panics s'"
  by (rule run_all_reached [OF assms])


text \<open>C38: The run over the activations returns. If the operator at some attempt stops trying again
  and the clocks sleep, \<open>run_all_activations\<close> gives a result, whatever is configured.\<close>

theorem activation_runs_end:
  assumes "operator_gives_up aw n" "clocks_sleep aw"
  shows "\<exists>res s'. run_all_activations w cfg aw timeout_secs s = Some (res, s')"
  using run_all_ends [OF assms, of w cfg timeout_secs s] by auto

subsection \<open>A run with a wrong passphrase first\<close>

definition demo_unlock :: activation where
  "demo_unlock = \<lparr>act_kind = Luks_Password, act_required_modules = [''dm-crypt''],
     act_binary = ''/bin/cryptsetup'', act_argv = [''open'', ''/dev/sda2'', ''root''],
     act_produces = [''/dev/mapper/root''], act_sources = [''/dev/sda2''], act_description = ''root'',
     act_prompt_label = None, act_pass_to_stage1 = Some ''/crypto/root.key''\<rparr>"

definition demo_unlock_config :: seal_config where
  "demo_unlock_config = demo_seal_config\<lparr>sc_activations := [demo_unlock]\<rparr>"

definition demo_unlock_world :: world where
  "demo_unlock_world = (demo_world (\<lambda>_. No_Tpm))\<lparr>w_run := (\<lambda>tr _ _ _. if tr = [] then Inr 2 else Inr 0)\<rparr>"

definition demo_act_world :: act_world where
  "demo_act_world = \<lparr>aw_modules = Inr [],
     aw_prompt = Some (\<lambda>tr label. Inr (if tr = [] then ''guess'' else ''secret'')),
     aw_choice = (\<lambda>tr n. if n < 3 then Inr Try_Again_Choice else Inr Reboot_Choice),
     aw_helper = (\<lambda>tr helper argv. Inl ''no helper''),
     aw_source_wait = (\<lambda>tr i. demo_wait), aw_device_wait = (\<lambda>tr i. demo_wait)\<rparr>"

definition demo_unlock_end :: seal_state where
  "demo_unlock_end = (fresh_state (\<lambda>_. False))\<lparr>trace :=
     [Ev_Activate Luks_Password ''/bin/cryptsetup'' [''open'', ''/dev/sda2'', ''root''] (Inr 2),
      Ev_Activate Luks_Password ''/bin/cryptsetup'' [''open'', ''/dev/sda2'', ''root''] (Inr 0)]\<rparr>"

lemma demo_source_wait: "wait_for_source_device demo_wait True d op 30000 = Some (Inr ())"
proof -
  have "source_polls demo_wait True d op 30000 0 = Some (Inr ())"
    by (rule source.polls_first [of 0 2])
      (auto simp: source_turn_def wait_tick_def demo_wait_def wait_deadline_def checked_add_def)
  then show ?thesis by (simp add: wait_for_source_device_def)
qed

lemma demo_device_wait: "wait_for demo_wait True d op 30000 = Some (Inr ())"
  unfolding wait_for_def
  by (rule device.polls_first [of 0 3])
    (auto simp: device_turn_def wait_tick_def demo_wait_def wait_deadline_def checked_add_def
      device_ready_def)

lemma demo_unlock_fields:
  "act_kind demo_unlock = Luks_Password" "act_binary demo_unlock = ''/bin/cryptsetup''"
  "act_argv demo_unlock = [''open'', ''/dev/sda2'', ''root'']" "act_prompt_label demo_unlock = None"
  by (simp_all add: demo_unlock_def)

lemma demo_act_world_fields:
  "aw_prompt demo_act_world = Some (\<lambda>tr label. Inr (if tr = [] then ''guess'' else ''secret''))"
  "aw_choice demo_act_world tr 1 = Inr Try_Again_Choice"
  by (simp_all add: demo_act_world_def)

lemma demo_once:
  "activate_once demo_unlock_world demo_unlock (fresh_state (\<lambda>_. False)) =
     (Inr 2, demo_unlock_end\<lparr>trace := take 1 (trace demo_unlock_end)\<rparr>)"
  "activate_once demo_unlock_world demo_unlock (demo_unlock_end\<lparr>trace := take 1 (trace demo_unlock_end)\<rparr>) =
     (Inr 0, demo_unlock_end)"
  by (simp_all add: activate_once_def Let_def demo_unlock_fields demo_unlock_world_def fresh_state_def emit_def
      is_activation_success_def register_tpm_mapper_if_luks_tpm_def demo_unlock_end_def)

lemma demo_turns:
  "attempt_turn demo_unlock_world demo_unlock_config demo_act_world demo_unlock 0 (fresh_state (\<lambda>_. False)) =
     Inr (1, demo_unlock_end\<lparr>trace := take 1 (trace demo_unlock_end)\<rparr>)"
  "attempt_turn demo_unlock_world demo_unlock_config demo_act_world demo_unlock 1
       (demo_unlock_end\<lparr>trace := take 1 (trace demo_unlock_end)\<rparr>) =
     Inl (Inr (Some ''secret''), demo_unlock_end)"
proof -
  have 1: "sat_add u32_max 0 1 = 1" by (simp add: sat_add_def u32_max_def)
  show "attempt_turn demo_unlock_world demo_unlock_config demo_act_world demo_unlock 0
      (fresh_state (\<lambda>_. False)) = Inr (1, demo_unlock_end\<lparr>trace := take 1 (trace demo_unlock_end)\<rparr>)"
    unfolding attempt_turn_def demo_once Let_def 1
    by (simp add: collect_stdin_def demo_unlock_fields demo_act_world_fields [simplified]
        is_activation_success_def handle_wrong_password_def)
  show "attempt_turn demo_unlock_world demo_unlock_config demo_act_world demo_unlock 1
      (demo_unlock_end\<lparr>trace := take 1 (trace demo_unlock_end)\<rparr>) =
     Inl (Inr (Some ''secret''), demo_unlock_end)"
    unfolding attempt_turn_def demo_once
    by (simp add: collect_stdin_def demo_unlock_fields demo_act_world_fields is_activation_success_def)
      (simp add: demo_unlock_end_def)
qed

lemma demo_attempt:
  "run_one_activation demo_unlock_world demo_unlock_config demo_act_world demo_unlock (fresh_state (\<lambda>_. False)) =
     Some (Inr (Some ''secret''), demo_unlock_end)"
  unfolding run_one_activation_def
  by (subst attempt_activation.simps, simp only: demo_turns sum.case prod.case,
      subst attempt_activation.simps, simp only: demo_turns sum.case)

lemma demo_run:
  "run_all_activations demo_unlock_world demo_unlock_config demo_act_world 30 (fresh_state (\<lambda>_. False)) =
     Some (Inr [\<lparr>inj_path = ''/crypto/root.key'', inj_content = ''secret''\<rparr>], demo_unlock_end)"
proof -
  have waits: "wait_for_source_devices demo_act_world 30000 demo_unlock tr = Some (Inr ())"
    "wait_for_produced_devices demo_act_world 30000 demo_unlock tr = Some (Inr ())" for tr
    by (simp_all add: wait_for_source_devices_def wait_for_produced_devices_def demo_unlock_def
        demo_act_world_def demo_source_wait demo_device_wait)
  have key: "key_injection demo_unlock (Some ''secret'') =
      [\<lparr>inj_path = ''/crypto/root.key'', inj_content = ''secret''\<rparr>]"
    by (simp add: key_injection_def demo_unlock_def)
  have "act_kind demo_unlock \<noteq> Luks_Tpm" "sc_activations demo_unlock_config = [demo_unlock]"
    by (simp_all add: demo_unlock_def demo_unlock_config_def)
  moreover have "loaded_modules demo_act_world = Inr (parse_loaded_modules [])"
    by (simp add: loaded_modules_def demo_act_world_def)
  ultimately show ?thesis
    by (simp add: run_all_activations_def activation_turn_def waits demo_attempt stage1_secret_kept key)
qed

theorem activations_run_inside_the_lock_witness:
  "reached demo_unlock_world demo_unlock_config False demo_unlock_end"
  by (rule activations_run_inside_the_lock [OF reached_fresh demo_run])


theorem activation_runs_end_witness:
  "\<exists>res s'. run_all_activations demo_unlock_world demo_unlock_config demo_act_world 30
     (fresh_state (\<lambda>_. False)) = Some (res, s')"
  by (rule activation_runs_end [where n = 3])
    (simp_all add: operator_gives_up_def demo_act_world_def u32_max_def clocks_sleep_def demo_wait_clock)

end
