(* ===== verification/Net_Dhcp.thy ===== *)
theory Net_Dhcp
  imports Text Poll_Loop
begin

text \<open>
  The DHCP client of the network rescue, \<open>net/dhcp\<close>: the IPv4 and UDP framing with its checksum
  (\<open>packet.rs\<close>), what is read from an offer and an acknowledgement (\<open>options.rs\<close>), the loop
  that receives (\<open>socket.rs\<close>) and the two loops that send and wait (\<open>exchange.rs\<close>). The message
  codec is the crate \<open>dhcproto\<close>, a parameter; a message is the record of the fields and options
  the client reads or sets. Times are in nanoseconds.
\<close>

subsection \<open>Framing\<close>

type_synonym ipv4 = "char \<times> char \<times> char \<times> char"

definition octets :: "ipv4 \<Rightarrow> bytes" where
  "octets ip = (case ip of (a, b, c, d) \<Rightarrow> [a, b, c, d])"

definition UNSPECIFIED :: ipv4 where
  "UNSPECIFIED = (byte 0, byte 0, byte 0, byte 0)"

definition BROADCAST :: ipv4 where
  "BROADCAST = (byte 255, byte 255, byte 255, byte 255)"

definition IPPROTO_UDP_U8 :: nat where
  "IPPROTO_UDP_U8 = 17"

definition IP_TTL_DEFAULT :: nat where
  "IP_TTL_DEFAULT = 64"

definition IPV4_HEADER_LEN :: nat where
  "IPV4_HEADER_LEN = 20"

definition UDP_HEADER_LEN :: nat where
  "UDP_HEADER_LEN = 8"

definition be16 :: "nat \<Rightarrow> bytes" where
  "be16 n = [byte (n div 256), byte n]"

definition from_be16 :: "char \<Rightarrow> char \<Rightarrow> nat" where
  "from_be16 hi lo = 256 * ord hi + ord lo"

text \<open>The sum wraps in a \<open>u32\<close>; a header is far too short for that to happen.\<close>

fun sum16 :: "nat \<Rightarrow> bytes \<Rightarrow> nat" where
  "sum16 acc (hi # lo # rest) = sum16 ((acc + from_be16 hi lo) mod 2 ^ 32) rest"
| "sum16 acc [tail] = (acc + from_be16 tail (byte 0)) mod 2 ^ 32"
| "sum16 acc [] = acc"

function fold_carries :: "nat \<Rightarrow> nat" where
  "fold_carries s = (if s div 65536 \<noteq> 0 then fold_carries (s mod 65536 + s div 65536) else s)"
  by auto
termination
proof (relation "measure id")
  fix s :: nat
  assume "s div 65536 \<noteq> 0"
  with div_mult_mod_eq [of s 65536] have "s mod 65536 + s div 65536 < s" by linarith
  then show "(s mod 65536 + s div 65536, s) \<in> measure id" by simp
qed simp

definition ipv4_checksum :: "bytes \<Rightarrow> nat" where
  "ipv4_checksum bs = 65535 - fold_carries (sum16 0 bs)"

definition sat_u16 :: "nat \<Rightarrow> nat" where
  "sat_u16 n = min n 65535"

definition ipv4_header :: "ipv4 \<Rightarrow> ipv4 \<Rightarrow> nat \<Rightarrow> bytes \<Rightarrow> bytes" where
  "ipv4_header src dst len checksum =
     [byte 69, byte 0] @ be16 (sat_u16 len) @ be16 0 @ be16 0 @ [byte IP_TTL_DEFAULT, byte IPPROTO_UDP_U8]
       @ checksum @ octets src @ octets dst"

definition wrap_ip_udp :: "ipv4 \<Rightarrow> ipv4 \<Rightarrow> nat \<Rightarrow> nat \<Rightarrow> bytes \<Rightarrow> bytes" where
  "wrap_ip_udp src dst sport dport payload =
     (let len = IPV4_HEADER_LEN + UDP_HEADER_LEN + length payload;
          csum = ipv4_checksum (ipv4_header src dst len (be16 0))
      in ipv4_header src dst len (be16 csum) @ be16 sport @ be16 dport
           @ be16 (sat_u16 (UDP_HEADER_LEN + length payload)) @ be16 0 @ payload)"

definition strip_ip_udp :: "bytes \<Rightarrow> bytes option" where
  "strip_ip_udp frame =
     Option.bind (get_at frame 0) (\<lambda>first.
     if ord first div 16 \<noteq> 4 then None
     else if ord first mod 16 < 5 then None
     else let ihl = ord first mod 16 * 4 in
       if length frame < ihl + UDP_HEADER_LEN then None
       else Option.bind (get_at frame 9) (\<lambda>proto.
         if ord proto \<noteq> IPPROTO_UDP_U8 then None
         else Option.bind (get_at frame 2) (\<lambda>total_hi.
           Option.bind (get_at frame 3) (\<lambda>total_lo.
           let len = from_be16 total_hi total_lo in
           if len < ihl + UDP_HEADER_LEN \<or> length frame < len then None
           else Option.bind (get_at frame (ihl + 4)) (\<lambda>udp_hi.
             Option.bind (get_at frame (ihl + 5)) (\<lambda>udp_lo.
             let udp_len = from_be16 udp_hi udp_lo in
             if udp_len < UDP_HEADER_LEN then None
             else if len < ihl + udp_len then None
             else get_range frame (ihl + UDP_HEADER_LEN) (ihl + udp_len)))))))"

subsection \<open>The checksum\<close>

declare fold_carries.simps [simp del]

lemma fold_carries_small: "s < 65536 \<Longrightarrow> fold_carries s = s"
  by (subst fold_carries.simps) simp

lemma fold_carries_mod:
  "fold_carries s < 65536 \<and> fold_carries s mod 65535 = s mod 65535 \<and> (fold_carries s = 0 \<longleftrightarrow> s = 0)"
proof (induction s rule: fold_carries.induct)
  case (1 s)
  show ?case
  proof (cases "s div 65536 = 0")
    case True
    then have "s < 65536" by (simp add: div_eq_0_iff)
    then show ?thesis by (simp add: fold_carries_small)
  next
    case False
    let ?t = "s mod 65536 + s div 65536"
    have "s = 65535 * (s div 65536) + ?t" using div_mult_mod_eq [of s 65536] by linarith
    then have "s mod 65535 = ?t mod 65535" by (metis mod_mult_self4)
    moreover have "?t \<noteq> 0" "s \<noteq> 0" using False by auto
    moreover have "fold_carries s = fold_carries ?t" using False by (subst fold_carries.simps) simp
    ultimately show ?thesis using 1 [OF False] by simp
  qed
qed

fun words_sum :: "bytes \<Rightarrow> nat" where
  "words_sum (hi # lo # rest) = from_be16 hi lo + words_sum rest"
| "words_sum [tail] = from_be16 tail (byte 0)"
| "words_sum [] = 0"

lemma sum16_words: "acc < 2 ^ 32 \<Longrightarrow> sum16 acc bs = (acc + words_sum bs) mod 2 ^ 32"
  by (induction acc bs rule: sum16.induct) (simp_all add: mod_simps add.assoc)

lemma from_be16_le: "from_be16 hi lo \<le> 65535"
  using ord_less [of hi] ord_less [of lo] by (simp add: from_be16_def)

lemma words_sum_le: "words_sum bs \<le> 65535 * ((length bs + 1) div 2)"
proof (induction bs rule: words_sum.induct)
  case (1 hi lo rest)
  then show ?case using from_be16_le [of hi lo] by simp
qed (use from_be16_le in simp_all)

lemma only_full_multiple: "f < 65536 \<Longrightarrow> f mod 65535 = 0 \<Longrightarrow> f \<noteq> 0 \<Longrightarrow> f = (65535 :: nat)"
proof -
  assume f: "f < 65536" "f mod 65535 = 0" "f \<noteq> 0"
  from f(2) obtain k where k: "f = 65535 * k" by (auto simp: mod_eq_0_iff_dvd dvd_def)
  with f have "k = 1" by (cases k) auto
  with k show ?thesis by simp
qed

lemma be16_reads_back: "from_be16 (byte (n div 256)) (byte n) = n mod 65536"
proof -
  have "n mod (256 * 256) = 256 * (n div 256 mod 256) + n mod 256" by (rule mod_mult2_eq)
  then show ?thesis by (simp add: from_be16_def)
qed

lemma length_header: "length (ipv4_header src dst len (be16 c)) = IPV4_HEADER_LEN"
  by (cases src; cases dst) (simp add: ipv4_header_def be16_def octets_def IPV4_HEADER_LEN_def)

text \<open>Only two of the header's ten words matter below: the first, and that of the checksum.\<close>

lemma header_words:
  "words_sum (ipv4_header src dst len (be16 c)) = words_sum (ipv4_header src dst len (be16 0)) + c mod 65536"
  "0 < words_sum (ipv4_header src dst len (be16 c))"
  "words_sum (ipv4_header src dst len (be16 c)) \<le> 655350"
proof -
  obtain a b e f where src: "src = (a, b, e, f)" by (metis prod_cases4)
  obtain g h i j where dst: "dst = (g, h, i, j)" by (metis prod_cases4)
  show "words_sum (ipv4_header src dst len (be16 c)) =
      words_sum (ipv4_header src dst len (be16 0)) + c mod 65536"
    using be16_reads_back [of c] be16_reads_back [of 0]
    by (simp add: ipv4_header_def src dst octets_def be16_def)
  show "0 < words_sum (ipv4_header src dst len (be16 c))"
    by (simp add: ipv4_header_def from_be16_def)
  show "words_sum (ipv4_header src dst len (be16 c)) \<le> 655350"
    using words_sum_le [of "ipv4_header src dst len (be16 c)"]
    by (simp add: length_header IPV4_HEADER_LEN_def)
qed

lemma header_sum:
  "sum16 0 (ipv4_header src dst len (be16 c)) = words_sum (ipv4_header src dst len (be16 c))"
  using sum16_words [of 0] header_words(3) [of src dst len c] by simp

lemma checksum_checks:
  "ipv4_checksum (ipv4_header src dst len
     (be16 (ipv4_checksum (ipv4_header src dst len (be16 0))))) = 0"
proof -
  define s where "s = words_sum (ipv4_header src dst len (be16 0))"
  have s: "0 < s" unfolding s_def by (rule header_words(2))
  define c where "c = 65535 - fold_carries s"
  note f = fold_carries_mod [of s]
  have "c < 65536" by (simp add: c_def)
  then have "words_sum (ipv4_header src dst len (be16 c)) = s + c"
    using header_words(1) [of src dst len c] by (simp add: s_def)
  moreover have "(s + c) mod 65535 = 0"
  proof -
    have "(s + c) mod 65535 = (s mod 65535 + c) mod 65535" by (simp add: mod_simps)
    also have "\<dots> = (fold_carries s mod 65535 + c) mod 65535" using f by simp
    also have "\<dots> = (fold_carries s + c) mod 65535" by (simp add: mod_simps)
    also have "fold_carries s + c = 65535" using f by (simp add: c_def)
    finally show ?thesis by simp
  qed
  moreover have "fold_carries t = 65535" if "t mod 65535 = 0" "0 < t" for t
    using fold_carries_mod [of t] that only_full_multiple [of "fold_carries t"] by simp
  ultimately have "fold_carries (words_sum (ipv4_header src dst len (be16 c))) = 65535" using s by simp
  then show ?thesis
    unfolding ipv4_checksum_def header_sum by (simp add: c_def s_def)
qed

subsection \<open>Framing is undone\<close>

definition frame_of :: "ipv4 \<Rightarrow> ipv4 \<Rightarrow> nat \<Rightarrow> nat \<Rightarrow> nat \<Rightarrow> bytes \<Rightarrow> bytes" where
  "frame_of src dst csum sport dport payload =
     ipv4_header src dst (28 + length payload) (be16 csum) @ be16 sport @ be16 dport
       @ be16 (sat_u16 (8 + length payload)) @ be16 0 @ payload"

lemma wrap_frame_of:
  "wrap_ip_udp src dst sport dport payload =
     frame_of src dst (ipv4_checksum (ipv4_header src dst (28 + length payload) (be16 0))) sport dport payload"
  by (simp add: wrap_ip_udp_def frame_of_def Let_def IPV4_HEADER_LEN_def UDP_HEADER_LEN_def)

lemma frame_bytes:
  "length (frame_of src dst csum sport dport payload) = 28 + length payload"
  "get_at (frame_of src dst csum sport dport payload) 0 = Some (byte 69)"
  "get_at (frame_of src dst csum sport dport payload) 2 = Some (byte (sat_u16 (28 + length payload) div 256))"
  "get_at (frame_of src dst csum sport dport payload) 3 = Some (byte (sat_u16 (28 + length payload)))"
  "get_at (frame_of src dst csum sport dport payload) 9 = Some (byte IPPROTO_UDP_U8)"
  "get_at (frame_of src dst csum sport dport payload) 24 = Some (byte (sat_u16 (8 + length payload) div 256))"
  "get_at (frame_of src dst csum sport dport payload) 25 = Some (byte (sat_u16 (8 + length payload)))"
  "drop 28 (frame_of src dst csum sport dport payload) = payload"
  by (cases src, cases dst, simp add: frame_of_def ipv4_header_def be16_def octets_def get_at_def)+

lemma strip_wrap:
  assumes "28 + length payload \<le> 65535"
  shows "strip_ip_udp (wrap_ip_udp src dst sport dport payload) = Some payload"
proof -
  define csum where "csum = ipv4_checksum (ipv4_header src dst (28 + length payload) (be16 0))"
  define fr where "fr = frame_of src dst csum sport dport payload"
  note bytes = frame_bytes [of src dst csum sport dport payload, folded fr_def]
  have "from_be16 (byte (sat_u16 (28 + length payload) div 256)) (byte (sat_u16 (28 + length payload)))
      = 28 + length payload"
    "from_be16 (byte (sat_u16 (8 + length payload) div 256)) (byte (sat_u16 (8 + length payload)))
      = 8 + length payload"
    using assms by (simp_all add: be16_reads_back sat_u16_def)
  moreover have "get_range fr 28 (28 + length payload) = Some payload"
    using bytes(1,8) by (simp add: get_range_def)
  ultimately show ?thesis
    unfolding wrap_frame_of csum_def [symmetric] fr_def [symmetric]
    by (simp add: strip_ip_udp_def bytes UDP_HEADER_LEN_def IPPROTO_UDP_U8_def Let_def)
qed

text \<open>C34: What is framed comes out again, under a checksum that checks. A payload that fits a
  datagram is the payload \<open>strip_ip_udp\<close> reads from the frame \<open>wrap_ip_udp\<close> makes of it, for any
  addresses and ports, and the checksum over the finished header is zero, as RFC 1071 asks.\<close>

theorem framed_payload_comes_back:
  assumes "28 + length payload \<le> 65535"
  shows "strip_ip_udp (wrap_ip_udp src dst sport dport payload) = Some payload
    \<and> ipv4_checksum (take IPV4_HEADER_LEN (wrap_ip_udp src dst sport dport payload)) = 0"
proof
  show "strip_ip_udp (wrap_ip_udp src dst sport dport payload) = Some payload"
    by (rule strip_wrap [OF assms])
  have "take IPV4_HEADER_LEN (wrap_ip_udp src dst sport dport payload) =
      ipv4_header src dst (28 + length payload)
        (be16 (ipv4_checksum (ipv4_header src dst (28 + length payload) (be16 0))))"
    unfolding wrap_frame_of frame_of_def by (simp add: length_header)
  then show "ipv4_checksum (take IPV4_HEADER_LEN (wrap_ip_udp src dst sport dport payload)) = 0"
    by (simp add: checksum_checks)
qed

theorem framed_payload_comes_back_witness:
  "strip_ip_udp (wrap_ip_udp UNSPECIFIED BROADCAST 68 67 ''dhcp'') = Some ''dhcp''
    \<and> ipv4_checksum (take IPV4_HEADER_LEN (wrap_ip_udp UNSPECIFIED BROADCAST 68 67 ''dhcp'')) = 0"
  by (rule framed_payload_comes_back) simp

subsection \<open>Messages\<close>

datatype message_type = Discover | Offer_Type | Request | Ack | Nak | Other_Type nat

text \<open>The options the client reads or sets, each present at most once.\<close>

record dhcp_options =
  do_type :: "message_type option"
  do_client_id :: "bytes option"
  do_requested :: "ipv4 option"
  do_server :: "ipv4 option"
  do_mask :: "ipv4 option"
  do_routers :: "ipv4 list option"
  do_dns :: "ipv4 list option"
  do_lease :: "nat option"
  do_parameters :: "nat list option"

record dhcp_message =
  dm_xid :: nat
  dm_broadcast :: bool
  dm_chaddr :: bytes
  dm_yiaddr :: ipv4
  dm_siaddr :: ipv4
  dm_opts :: dhcp_options

text \<open>The codec of \<open>dhcproto\<close>.\<close>

record dhcp_codec =
  dc_encode :: "dhcp_message \<Rightarrow> bytes option"
  dc_decode :: "bytes \<Rightarrow> dhcp_message option"

record dhcp_lease =
  dl_ip :: ipv4
  dl_netmask :: ipv4
  dl_gateway :: "ipv4 option"
  dl_dns :: "ipv4 list"
  dl_server_id :: ipv4
  dl_lease_secs :: nat

datatype dhcp_error = Dhcp_Rescue string

definition no_options :: dhcp_options where
  "no_options = \<lparr>do_type = None, do_client_id = None, do_requested = None, do_server = None,
     do_mask = None, do_routers = None, do_dns = None, do_lease = None, do_parameters = None\<rparr>"

definition client_identifier :: "bytes \<Rightarrow> bytes" where
  "client_identifier mac = byte 1 # mac"

definition wanted_parameters :: "nat list" where
  "wanted_parameters = [1, 3, 6, 54, 51]"

definition boot_request :: "nat \<Rightarrow> bytes \<Rightarrow> dhcp_options \<Rightarrow> dhcp_message" where
  "boot_request xid mac opts = \<lparr>dm_xid = xid, dm_broadcast = True, dm_chaddr = mac,
     dm_yiaddr = UNSPECIFIED, dm_siaddr = UNSPECIFIED, dm_opts = opts\<rparr>"

definition broadcast_frame :: "bytes \<Rightarrow> bytes" where
  "broadcast_frame payload = wrap_ip_udp UNSPECIFIED BROADCAST 68 67 payload"

definition discover_message :: "nat \<Rightarrow> bytes \<Rightarrow> dhcp_message" where
  "discover_message xid mac = boot_request xid mac
     (no_options\<lparr>do_type := Some Discover, do_client_id := Some (client_identifier mac),
        do_parameters := Some wanted_parameters\<rparr>)"

definition request_message :: "nat \<Rightarrow> bytes \<Rightarrow> ipv4 \<Rightarrow> ipv4 \<Rightarrow> dhcp_message" where
  "request_message xid mac offered server = boot_request xid mac
     (no_options\<lparr>do_type := Some Request, do_client_id := Some (client_identifier mac),
        do_requested := Some offered, do_server := Some server,
        do_parameters := Some wanted_parameters\<rparr>)"

definition build_discover :: "dhcp_codec \<Rightarrow> nat \<Rightarrow> bytes \<Rightarrow> bytes option" where
  "build_discover c xid mac = map_option broadcast_frame (dc_encode c (discover_message xid mac))"

definition build_request :: "dhcp_codec \<Rightarrow> nat \<Rightarrow> bytes \<Rightarrow> ipv4 \<Rightarrow> ipv4 \<Rightarrow> bytes option" where
  "build_request c xid mac offered server =
     map_option broadcast_frame (dc_encode c (request_message xid mac offered server))"

definition or_else :: "'a option \<Rightarrow> 'a \<Rightarrow> 'a" where
  "or_else x d = (case x of Some v \<Rightarrow> v | None \<Rightarrow> d)"

text \<open>The address and the server of an offer.\<close>

definition parsed_to_offer :: "dhcp_message \<Rightarrow> ipv4 \<times> ipv4" where
  "parsed_to_offer m = (dm_yiaddr m, or_else (do_server (dm_opts m)) (dm_siaddr m))"

definition parsed_to_lease :: "dhcp_message \<Rightarrow> ipv4 \<Rightarrow> ipv4 \<Rightarrow> dhcp_lease" where
  "parsed_to_lease m offered server =
     \<lparr>dl_ip = (if dm_yiaddr m = UNSPECIFIED then offered else dm_yiaddr m),
      dl_netmask = or_else (do_mask (dm_opts m)) (byte 255, byte 255, byte 255, byte 0),
      dl_gateway = Option.bind (do_routers (dm_opts m)) (\<lambda>ips. get_at ips 0),
      dl_dns = or_else (do_dns (dm_opts m)) [],
      dl_server_id = or_else (do_server (dm_opts m)) server,
      dl_lease_secs = or_else (do_lease (dm_opts m)) 0\<rparr>"

subsection \<open>Receiving\<close>

datatype recv_answer = Recv_Frame bytes | Recv_Again | Recv_Failed

text \<open>
  What the network and the clock answer, each by the number of the call, and where the client
  stands: the calls made, the frames sent and the receive timeouts set (seconds, microseconds).
\<close>

record dhcp_world =
  dw_recv :: "nat \<Rightarrow> recv_answer"
  dw_now :: "nat \<Rightarrow> nat"
  dw_send :: "nat \<Rightarrow> bool"
  dw_set_timeout :: "nat \<Rightarrow> bool"

record dhcp_state =
  ds_recv :: nat
  ds_sent :: "bytes list"
  ds_timeouts :: "(nat \<times> nat) list"

definition RECV_BUF_LEN :: nat where
  "RECV_BUF_LEN = 1500"

definition read_message :: "dhcp_codec \<Rightarrow> bytes \<Rightarrow> dhcp_message option" where
  "read_message c frame = Option.bind (strip_ip_udp (take RECV_BUF_LEN frame)) (dc_decode c)"

text \<open>One call of \<open>recvfrom\<close>: \<open>None\<close> drops the frame and reads again.\<close>

definition recv_turn ::
  "dhcp_codec \<Rightarrow> nat \<Rightarrow> message_type \<Rightarrow> recv_answer \<Rightarrow> (dhcp_error + dhcp_message) option" where
  "recv_turn c xid want answer =
     (case answer of
        Recv_Again \<Rightarrow> Some (Inl (Dhcp_Rescue ''dhcp-timeout''))
      | Recv_Failed \<Rightarrow> Some (Inl (Dhcp_Rescue
          (if want = Offer_Type then ''dhcp-recv-offer'' else ''dhcp-recv-ack'')))
      | Recv_Frame frame \<Rightarrow>
          (case read_message c frame of
             None \<Rightarrow> None
           | Some m \<Rightarrow>
               if dm_xid m \<noteq> xid then None
               else if do_type (dm_opts m) = Some Nak then Some (Inl (Dhcp_Rescue ''dhcp-nak''))
               else if do_type (dm_opts m) \<noteq> Some want then None
               else Some (Inr m)))"

partial_function (option) recv_dhcp ::
  "dhcp_world \<Rightarrow> dhcp_codec \<Rightarrow> nat \<Rightarrow> message_type \<Rightarrow> nat
     \<Rightarrow> ((dhcp_error + dhcp_message) \<times> nat) option" where
  "recv_dhcp w c xid want k =
     (case recv_turn c xid want (dw_recv w k) of
        Some r \<Rightarrow> Some (r, Suc k)
      | None \<Rightarrow> recv_dhcp w c xid want (Suc k))"

subsection \<open>Sending and waiting\<close>

definition DHCP_MAX_RETRIES :: nat where
  "DHCP_MAX_RETRIES = 5"

definition MIN_PER_RETRY :: nat where
  "MIN_PER_RETRY = 500000000"

definition MAX_PER_RETRY :: nat where
  "MAX_PER_RETRY = 4000000000"

definition per_retry_timeout :: "nat \<Rightarrow> nat \<Rightarrow> nat" where
  "per_retry_timeout attempt remaining =
     (let base = min (1000 * 2 ^ min attempt 3) u64_max * 1000000;
          upper = (if remaining < MAX_PER_RETRY then remaining else MAX_PER_RETRY)
      in if upper < base then upper else max base MIN_PER_RETRY)"

text \<open>What \<open>SO_RCVTIMEO\<close> is set to; both parts zero mean no timeout to the kernel.\<close>

definition recv_timeval :: "nat \<Rightarrow> nat \<times> nat" where
  "recv_timeval dur = (dur div 1000000000, dur mod 1000000000 div 1000)"

definition remaining_or_timeout :: "nat \<Rightarrow> nat \<Rightarrow> dhcp_error + nat" where
  "remaining_or_timeout now deadline =
     (if deadline \<le> now then Inl (Dhcp_Rescue ''dhcp-timeout'') else Inr (deadline - now))"

text \<open>
  A turn up to the receive: the state after the send, with the timeout recorded. The clock, the
  option and the send are asked once a turn, so the number of timeouts set numbers the turn.
\<close>

definition send_turn ::
  "dhcp_world \<Rightarrow> string \<Rightarrow> bytes \<Rightarrow> nat \<Rightarrow> nat \<Rightarrow> dhcp_state \<Rightarrow> (dhcp_error + unit) \<times> dhcp_state" where
  "send_turn w stage frame deadline attempt s =
     (let turn = length (ds_timeouts s) in
      case remaining_or_timeout (dw_now w turn) deadline of
        Inl e \<Rightarrow> (Inl e, s)
      | Inr remaining \<Rightarrow>
          (let s1 = s\<lparr>ds_timeouts := ds_timeouts s @ [recv_timeval (per_retry_timeout attempt remaining)]\<rparr> in
           if \<not> dw_set_timeout w turn then (Inl (Dhcp_Rescue ''dhcp-socket''), s)
           else if \<not> dw_send w turn then (Inl (Dhcp_Rescue stage), s1)
           else (Inr (), s1\<lparr>ds_sent := ds_sent s1 @ [frame]\<rparr>)))"

function send_until ::
  "dhcp_world \<Rightarrow> dhcp_codec \<Rightarrow> nat \<Rightarrow> message_type \<Rightarrow> string \<Rightarrow> bytes \<Rightarrow> nat \<Rightarrow> nat \<Rightarrow> dhcp_state
     \<Rightarrow> ((dhcp_error + dhcp_message) \<times> dhcp_state) option" where
  "send_until w c xid want stage frame deadline attempt s =
     (case send_turn w stage frame deadline attempt s of
        (Inl e, s1) \<Rightarrow> Some (Inl e, s1)
      | (Inr _, s1) \<Rightarrow>
          (case recv_dhcp w c xid want (ds_recv s1) of
             None \<Rightarrow> None
           | Some (r, k) \<Rightarrow>
               (let s2 = s1\<lparr>ds_recv := k\<rparr> in
                if r = Inl (Dhcp_Rescue ''dhcp-timeout'') \<and> attempt + 1 < DHCP_MAX_RETRIES
                then send_until w c xid want stage frame deadline (attempt + 1) s2
                else Some (r, s2))))"
  by auto
termination
  by (relation "measure (\<lambda>(w, c, xid, want, stage, frame, deadline, attempt, s). DHCP_MAX_RETRIES - attempt)")
    auto

definition discover_until_offer ::
  "dhcp_world \<Rightarrow> dhcp_codec \<Rightarrow> nat \<Rightarrow> bytes \<Rightarrow> nat \<Rightarrow> dhcp_state
     \<Rightarrow> ((dhcp_error + ipv4 \<times> ipv4) \<times> dhcp_state) option" where
  "discover_until_offer w c xid mac deadline s =
     (case build_discover c xid mac of
        None \<Rightarrow> Some (Inl (Dhcp_Rescue ''dhcp-send-discover''), s)
      | Some frame \<Rightarrow>
          map_option (\<lambda>(r, s'). (map_sum id parsed_to_offer r, s'))
            (send_until w c xid Offer_Type ''dhcp-send-discover'' frame deadline 0 s))"

definition request_until_ack ::
  "dhcp_world \<Rightarrow> dhcp_codec \<Rightarrow> nat \<Rightarrow> bytes \<Rightarrow> ipv4 \<Rightarrow> ipv4 \<Rightarrow> nat \<Rightarrow> dhcp_state
     \<Rightarrow> ((dhcp_error + dhcp_lease) \<times> dhcp_state) option" where
  "request_until_ack w c xid mac offered server deadline s =
     (case build_request c xid mac offered server of
        None \<Rightarrow> Some (Inl (Dhcp_Rescue ''dhcp-send-request''), s)
      | Some frame \<Rightarrow>
          map_option (\<lambda>(r, s'). (map_sum id (\<lambda>m. parsed_to_lease m offered server) r, s'))
            (send_until w c xid Ack ''dhcp-send-request'' frame deadline 0 s))"

text \<open>\<open>acquire\<close> with the random number, the socket and the clock at its start already there.\<close>

definition acquire ::
  "dhcp_world \<Rightarrow> dhcp_codec \<Rightarrow> nat \<Rightarrow> bytes \<Rightarrow> nat \<Rightarrow> ((dhcp_error + dhcp_lease) \<times> dhcp_state) option" where
  "acquire w c xid mac deadline =
     (let s = \<lparr>ds_recv = 0, ds_sent = [], ds_timeouts = []\<rparr> in
      case discover_until_offer w c xid mac deadline s of
        None \<Rightarrow> None
      | Some (Inl e, s1) \<Rightarrow> Some (Inl e, s1)
      | Some (Inr (offered, server), s1) \<Rightarrow> request_until_ack w c xid mac offered server deadline s1)"

subsection \<open>Receiving is a polling loop\<close>

lemma recv_dhcp_end:
  assumes "recv_dhcp w c xid want k = Some r"
  shows "\<exists>j\<ge>k. map_option (\<lambda>r. (r, Suc j)) (recv_turn c xid want (dw_recv w j)) \<noteq> None"
proof (rule recv_dhcp.raw_induct [OF _ assms])
  fix rec w c xid want k r
  assume IH: "\<And>w c xid want k r. rec w c xid want k = Some r
      \<Longrightarrow> \<exists>j\<ge>k. map_option (\<lambda>r. (r, Suc j)) (recv_turn c xid want (dw_recv w j)) \<noteq> None"
    and eq: "(case recv_turn c xid want (dw_recv w k) of
        Some r \<Rightarrow> Some (r, Suc k) | None \<Rightarrow> rec w c xid want (Suc k)) = Some r"
  show "\<exists>j\<ge>k. map_option (\<lambda>r. (r, Suc j)) (recv_turn c xid want (dw_recv w j)) \<noteq> None"
  proof (cases "recv_turn c xid want (dw_recv w k)")
    case None
    with IH [of w c xid want "Suc k" r] eq show ?thesis by (auto intro: Suc_leD)
  qed auto
qed

interpretation receive: poll_loop
    "\<lambda>k. map_option (\<lambda>r. (r, Suc k)) (recv_turn c xid want (dw_recv w k))" "recv_dhcp w c xid want"
proof (unfold_locales, goal_cases)
  case (1 k)
  show ?case by (subst recv_dhcp.simps) (simp split: option.split)
next
  case (2 k r)
  then show ?case by (rule recv_dhcp_end)
qed

text \<open>A message of the wanted type and number, in a frame that arrived.\<close>

definition heard :: "dhcp_world \<Rightarrow> dhcp_codec \<Rightarrow> nat \<Rightarrow> message_type \<Rightarrow> dhcp_message \<Rightarrow> bool" where
  "heard w c xid want m \<longleftrightarrow>
     (\<exists>k frame. dw_recv w k = Recv_Frame frame \<and> read_message c frame = Some m
        \<and> dm_xid m = xid \<and> do_type (dm_opts m) = Some want)"

lemma recv_turn_Inr:
  "recv_turn c xid want answer = Some (Inr m) \<Longrightarrow>
     \<exists>frame. answer = Recv_Frame frame \<and> read_message c frame = Some m
        \<and> dm_xid m = xid \<and> do_type (dm_opts m) = Some want"
  by (auto simp: recv_turn_def split: recv_answer.splits option.splits if_splits)

lemma recv_dhcp_heard:
  assumes "recv_dhcp w c xid want k = Some (Inr m, k')"
  shows "heard w c xid want m"
proof -
  obtain j where "map_option (\<lambda>r. (r, Suc j)) (recv_turn c xid want (dw_recv w j)) = Some (Inr m, k')"
    using receive.polls_result [OF assms] by blast
  then have "recv_turn c xid want (dw_recv w j) = Some (Inr m)" by auto
  from recv_turn_Inr [OF this] show ?thesis unfolding heard_def by blast
qed

lemma recv_dhcp_never:
  assumes "\<forall>k. recv_turn c xid want (dw_recv w k) = None"
  shows "recv_dhcp w c xid want k = None"
proof (rule ccontr)
  assume "recv_dhcp w c xid want k \<noteq> None"
  then obtain r where "recv_dhcp w c xid want k = Some r" by auto
  then show False by (rule receive.polls_result) (use assms in simp)
qed

subsection \<open>What a lease rests on\<close>

lemma send_turn_sends:
  "send_turn w stage frame deadline attempt s = (Inr u, s') \<Longrightarrow> ds_sent s' = ds_sent s @ [frame]"
  by (auto simp: send_turn_def Let_def split: sum.splits if_splits)

declare send_until.simps [simp del]

text \<open>An exchange that hears its message has sent its frame between one and five times.\<close>

lemma send_until_heard:
  assumes "send_until w c xid want stage frame deadline attempt s = Some (Inr m, s')"
    "attempt < DHCP_MAX_RETRIES"
  shows "heard w c xid want m \<and>
    (\<exists>n. 0 < n \<and> n + attempt \<le> DHCP_MAX_RETRIES \<and> ds_sent s' = ds_sent s @ replicate n frame)"
  using assms
proof (induction w c xid want stage frame deadline attempt s rule: send_until.induct)
  case (1 w c xid want stage frame deadline attempt s)
  obtain res s1 where send: "send_turn w stage frame deadline attempt s = (res, s1)" by fastforce
  with "1.prems" obtain u where u: "res = Inr u"
    by (cases res) (auto simp: send_until.simps [of w c xid want stage frame deadline attempt])
  with send have sent: "ds_sent s1 = ds_sent s @ [frame]" by (auto dest: send_turn_sends)
  obtain r k where recv: "recv_dhcp w c xid want (ds_recv s1) = Some (r, k)"
    using "1.prems"(1) send u
    by (auto simp: send_until.simps [of w c xid want stage frame deadline attempt] split: option.splits)
  show ?case
  proof (cases "r = Inl (Dhcp_Rescue ''dhcp-timeout'') \<and> attempt + 1 < DHCP_MAX_RETRIES")
    case True
    with "1.prems"(1) send u recv
    have "send_until w c xid want stage frame deadline (attempt + 1) (s1\<lparr>ds_recv := k\<rparr>) = Some (Inr m, s')"
      by (subst (asm) send_until.simps) (simp add: Let_def)
    from "1.IH" [OF send [symmetric] u recv refl refl True this]
    obtain n where "heard w c xid want m" "n + (attempt + 1) \<le> DHCP_MAX_RETRIES"
      "ds_sent s' = ds_sent s1 @ replicate n frame"
      using True by auto
    with sent show ?thesis by (auto intro!: exI [of _ "Suc n"])
  next
    case False
    with "1.prems"(1) send u recv have "r = Inr m" "s' = s1\<lparr>ds_recv := k\<rparr>"
      by (auto simp: send_until.simps [of w c xid want stage frame deadline attempt] Let_def split: if_splits)
    with recv sent "1.prems"(2) show ?thesis
      by (auto intro!: exI [of _ 1] dest: recv_dhcp_heard)
  qed
qed

lemma discover_heard:
  assumes "discover_until_offer w c xid mac deadline s = Some (Inr (offered, server), s')"
  shows "\<exists>offer frame n. heard w c xid Offer_Type offer \<and> (offered, server) = parsed_to_offer offer
    \<and> build_discover c xid mac = Some frame \<and> 0 < n \<and> n \<le> DHCP_MAX_RETRIES
    \<and> ds_sent s' = ds_sent s @ replicate n frame"
proof -
  obtain frame where frame: "build_discover c xid mac = Some frame"
    using assms by (auto simp: discover_until_offer_def split: option.splits)
  with assms obtain r where r: "send_until w c xid Offer_Type ''dhcp-send-discover'' frame deadline 0 s = Some (r, s')"
      "map_sum id parsed_to_offer r = Inr (offered, server)"
    by (auto simp: discover_until_offer_def)
  from r(2) obtain offer where offer: "r = Inr offer" "(offered, server) = parsed_to_offer offer"
    by (cases r) auto
  with send_until_heard [OF r(1) [unfolded offer(1)]] frame show ?thesis
    by (auto simp: DHCP_MAX_RETRIES_def)
qed

lemma request_heard:
  assumes "request_until_ack w c xid mac offered server deadline s = Some (Inr lease, s')"
  shows "\<exists>ack frame n. heard w c xid Ack ack \<and> lease = parsed_to_lease ack offered server
    \<and> build_request c xid mac offered server = Some frame \<and> 0 < n \<and> n \<le> DHCP_MAX_RETRIES
    \<and> ds_sent s' = ds_sent s @ replicate n frame"
proof -
  obtain frame where frame: "build_request c xid mac offered server = Some frame"
    using assms by (auto simp: request_until_ack_def split: option.splits)
  with assms obtain r where r: "send_until w c xid Ack ''dhcp-send-request'' frame deadline 0 s = Some (r, s')"
      "map_sum id (\<lambda>m. parsed_to_lease m offered server) r = Inr lease"
    by (auto simp: request_until_ack_def)
  from r(2) obtain ack where ack: "r = Inr ack" "lease = parsed_to_lease ack offered server"
    by (cases r) auto
  with send_until_heard [OF r(1) [unfolded ack(1)]] frame show ?thesis
    by (auto simp: DHCP_MAX_RETRIES_def)
qed

definition exchange_made ::
  "dhcp_world \<Rightarrow> dhcp_codec \<Rightarrow> nat \<Rightarrow> bytes \<Rightarrow> dhcp_lease \<Rightarrow> bytes list \<Rightarrow> bool" where
  "exchange_made w c xid mac lease sent \<longleftrightarrow>
     (\<exists>offer ack offered server discover request n m.
        heard w c xid Offer_Type offer \<and> heard w c xid Ack ack
        \<and> (offered, server) = parsed_to_offer offer \<and> lease = parsed_to_lease ack offered server
        \<and> build_discover c xid mac = Some discover \<and> build_request c xid mac offered server = Some request
        \<and> 0 < n \<and> n \<le> DHCP_MAX_RETRIES \<and> 0 < m \<and> m \<le> DHCP_MAX_RETRIES
        \<and> sent = replicate n discover @ replicate m request)"


subsection \<open>Chatter\<close>

definition undisturbed_sends :: "dhcp_world \<Rightarrow> bool" where
  "undisturbed_sends w \<longleftrightarrow> (\<forall>k. dw_set_timeout w k \<and> dw_send w k)"

text \<open>
  The deadline is looked at before a send, never while frames arrive: \<open>recv_dhcp\<close> drops a frame that
  is not for this exchange and reads again, and each arrival restarts the receive timeout.
\<close>

text \<open>Foreign traffic holds the client past any deadline. If the clock is before the deadline at
  the first send and every datagram that arrives is one the client drops (another protocol, another
  exchange, another type of message), \<open>acquire\<close> does not return, although \<open>net/dhcp/mod.rs\<close>
  promises that the deadline bounds the whole exchange.\<close>

theorem chatter_outlasts_the_deadline:
  assumes "\<forall>k. recv_turn c xid Offer_Type (dw_recv w k) = None"
    and "undisturbed_sends w" "dw_now w 0 < deadline" "build_discover c xid mac \<noteq> None"
  shows "acquire w c xid mac deadline = None"
proof -
  obtain frame where frame: "build_discover c xid mac = Some frame" using assms(4) by auto
  let ?s0 = "\<lparr>ds_recv = 0, ds_sent = [], ds_timeouts = []\<rparr>"
  have "dw_set_timeout w 0" "dw_send w 0" using assms(2) unfolding undisturbed_sends_def by blast+
  then have "fst (send_turn w ''dhcp-send-discover'' frame deadline 0 ?s0) = Inr ()"
    using assms(3) by (simp add: send_turn_def remaining_or_timeout_def)
  then obtain s1 where "send_turn w ''dhcp-send-discover'' frame deadline 0 ?s0 = (Inr (), s1)"
    by (cases "send_turn w ''dhcp-send-discover'' frame deadline 0 ?s0") simp
  then have "send_until w c xid Offer_Type ''dhcp-send-discover'' frame deadline 0 ?s0 = None"
    by (subst send_until.simps) (simp add: recv_dhcp_never [OF assms(1)])
  then show ?thesis by (simp add: acquire_def discover_until_offer_def frame)
qed

subsection \<open>The receive timeout\<close>

lemma per_retry_le: "per_retry_timeout attempt remaining \<le> min remaining MAX_PER_RETRY"
proof -
  obtain p where p: "p = (2 :: nat) ^ min attempt 3" by simp
  have "p \<le> 2 ^ 3" unfolding p by (rule power_increasing) auto
  then have "1 \<le> p" "p \<le> 8" unfolding p by simp_all
  then show ?thesis
    unfolding per_retry_timeout_def p [symmetric] MAX_PER_RETRY_def MIN_PER_RETRY_def u64_max_def Let_def
    by auto
qed

text \<open>Less than a microsecond before the deadline the timeout is rounded to zero, which is none.\<close>

lemma late_retry_waits_for_ever:
  assumes "0 < remaining" "remaining < 1000"
  shows "recv_timeval (per_retry_timeout attempt remaining) = (0, 0)"
  using per_retry_le [of attempt remaining] assms by (simp add: recv_timeval_def)

subsection \<open>An exchange\<close>

definition demo_server :: ipv4 where
  "demo_server = (byte 10, byte 0, byte 0, byte 1)"

definition demo_address :: ipv4 where
  "demo_address = (byte 10, byte 0, byte 0, byte 7)"

definition demo_reply :: "message_type \<Rightarrow> dhcp_message" where
  "demo_reply t = (boot_request 7 ''mac'' (no_options\<lparr>do_type := Some t, do_server := Some demo_server\<rparr>))
     \<lparr>dm_yiaddr := demo_address\<rparr>"

definition demo_codec :: dhcp_codec where
  "demo_codec = \<lparr>dc_encode = (\<lambda>m. Some (if do_type (dm_opts m) = Some Discover then ''D'' else ''R'')),
     dc_decode = (\<lambda>bs. if bs = ''O'' then Some (demo_reply Offer_Type)
                  else if bs = ''A'' then Some (demo_reply Ack) else None)\<rparr>"

definition demo_net :: "(nat \<Rightarrow> bytes) \<Rightarrow> dhcp_world" where
  "demo_net payloads = \<lparr>dw_recv = (\<lambda>k. Recv_Frame (wrap_ip_udp demo_server BROADCAST 67 68 (payloads k))),
     dw_now = (\<lambda>k. 0), dw_send = (\<lambda>k. True), dw_set_timeout = (\<lambda>k. True)\<rparr>"

definition demo_lease :: dhcp_lease where
  "demo_lease = parsed_to_lease (demo_reply Ack) demo_address demo_server"

lemma demo_frame_read:
  assumes "length payload \<le> 1000"
  shows "read_message c (wrap_ip_udp demo_server BROADCAST 67 68 payload) = dc_decode c payload"
proof -
  have "length (wrap_ip_udp demo_server BROADCAST 67 68 payload) \<le> RECV_BUF_LEN"
    using assms by (simp add: wrap_frame_of frame_bytes RECV_BUF_LEN_def)
  then show ?thesis using strip_wrap [of payload] assms by (simp add: read_message_def)
qed

lemma demo_answers:
  "recv_turn demo_codec 7 Offer_Type (Recv_Frame (wrap_ip_udp demo_server BROADCAST 67 68 ''O'')) =
     Some (Inr (demo_reply Offer_Type))"
  "recv_turn demo_codec 7 Ack (Recv_Frame (wrap_ip_udp demo_server BROADCAST 67 68 ''A'')) =
     Some (Inr (demo_reply Ack))"
  "recv_turn demo_codec 7 want (Recv_Frame (wrap_ip_udp demo_server BROADCAST 67 68 ''x'')) = None"
  by (simp_all add: recv_turn_def demo_frame_read demo_codec_def demo_reply_def boot_request_def)

lemma demo_offer: "parsed_to_offer (demo_reply Offer_Type) = (demo_address, demo_server)"
  by (simp add: parsed_to_offer_def demo_reply_def boot_request_def or_else_def)

definition demo_talk :: dhcp_world where
  "demo_talk = demo_net (\<lambda>k. if k = 0 then ''O'' else ''A'')"

lemma demo_send:
  "send_turn demo_talk stage frame 100 0 s =
     (Inr (), s\<lparr>ds_timeouts := ds_timeouts s @ [(0, 0)], ds_sent := ds_sent s @ [frame]\<rparr>)"
  by (simp add: send_turn_def demo_talk_def demo_net_def remaining_or_timeout_def late_retry_waits_for_ever)

lemma demo_hears:
  "recv_dhcp demo_talk demo_codec 7 Offer_Type 0 = Some (Inr (demo_reply Offer_Type), 1)"
  "recv_dhcp demo_talk demo_codec 7 Ack 1 = Some (Inr (demo_reply Ack), 2)"
  by (subst recv_dhcp.simps, simp add: demo_talk_def demo_net_def demo_answers)+

lemma demo_acquire:
  "\<exists>s. acquire demo_talk demo_codec 7 ''mac'' 100 = Some (Inr demo_lease, s)"
proof -
  have builds: "build_discover demo_codec 7 ''mac'' = Some (broadcast_frame ''D'')"
    "build_request demo_codec 7 ''mac'' demo_address demo_server = Some (broadcast_frame ''R'')"
    by (simp_all add: build_discover_def build_request_def demo_codec_def discover_message_def
        request_message_def boot_request_def)
  let ?s0 = "\<lparr>ds_recv = 0, ds_sent = [], ds_timeouts = []\<rparr>"
  let ?s1 = "\<lparr>ds_recv = 1, ds_sent = [broadcast_frame ''D''], ds_timeouts = [(0, 0)]\<rparr>"
  let ?s2 = "\<lparr>ds_recv = 2, ds_sent = [broadcast_frame ''D'', broadcast_frame ''R''],
    ds_timeouts = [(0, 0), (0, 0)]\<rparr>"
  have s1: "send_until demo_talk demo_codec 7 Offer_Type ''dhcp-send-discover''
      (broadcast_frame ''D'') 100 0 ?s0 = Some (Inr (demo_reply Offer_Type), ?s1)"
    by (subst send_until.simps) (simp add: demo_send demo_hears Let_def)
  have s2: "send_until demo_talk demo_codec 7 Ack ''dhcp-send-request''
      (broadcast_frame ''R'') 100 0 ?s1 = Some (Inr (demo_reply Ack), ?s2)"
    by (subst send_until.simps) (simp add: demo_send demo_hears [unfolded One_nat_def] Let_def)
  have "acquire demo_talk demo_codec 7 ''mac'' 100 = Some (Inr demo_lease, ?s2)"
    by (simp add: acquire_def discover_until_offer_def request_until_ack_def builds s1
        s2 [unfolded One_nat_def] demo_offer demo_lease_def)
  then show ?thesis ..
qed


definition demo_chatter :: dhcp_world where
  "demo_chatter = demo_net (\<lambda>k. ''x'')"

theorem chatter_outlasts_the_deadline_witness:
  "acquire demo_chatter demo_codec 7 ''mac'' 100 = None"
proof (rule chatter_outlasts_the_deadline)
  show "\<forall>k. recv_turn demo_codec 7 Offer_Type (dw_recv demo_chatter k) = None"
    by (simp add: demo_chatter_def demo_net_def demo_answers)
qed (simp_all add: demo_chatter_def demo_net_def undisturbed_sends_def build_discover_def demo_codec_def)

end
