(* ===== verification/Net_Http.thy ===== *)
theory Net_Http
  imports Text
begin

text \<open>
  The HTTP/1.0 client of the network rescue, \<open>net/http\<close>: the URL grammar (\<open>url.rs\<close>), the
  request, and the status line, the headers and the body of the response (\<open>response.rs\<close>). A
  connection is the bytes the peer sends, whether the connection breaks after them or is closed, and
  the sizes in which they arrive.
\<close>

subsection \<open>URLs\<close>

datatype http_error = Http_Rescue string string | Http_Sink string

record http_url =
  url_host :: string
  url_port :: nat
  url_path :: string

definition SCHEME :: string where
  "SCHEME = ''http://''"

definition url_error :: "string \<Rightarrow> http_error + 'a" where
  "url_error reason = Inl (Http_Rescue ''http-parse-url'' reason)"

definition is_control :: "char \<Rightarrow> bool" where
  "is_control c \<longleftrightarrow> ord c < 32 \<or> ord c = 127"

definition split_authority :: "string \<Rightarrow> string \<times> string" where
  "split_authority rest =
     (case split_once (CHR ''/'') rest of
        Some (a, p) \<Rightarrow> (a, CHR ''/'' # p)
      | None \<Rightarrow> (rest, ''/''))"

definition split_port :: "string \<Rightarrow> http_error + string \<times> nat" where
  "split_port authority =
     (case rsplit_once (CHR '':'') authority of
        Some (h, p) \<Rightarrow>
          (case parse_uint 65535 p of
             Some port \<Rightarrow> Inr (h, port)
           | None \<Rightarrow> url_error ''invalid port'')
      | None \<Rightarrow> Inr (authority, 80))"

definition parse_url :: "string \<Rightarrow> http_error + http_url" where
  "parse_url input =
     (case strip_prefix SCHEME input of
        None \<Rightarrow> url_error ''must start with http://''
      | Some rest \<Rightarrow>
          if \<exists>b\<in>set rest. is_control b then url_error ''control byte''
          else if CHR ''@'' \<in> set rest then url_error ''userinfo''
          else if starts_with ''['' rest then url_error ''IPv6 literal''
          else (case split_authority rest of (authority, path) \<Rightarrow>
            if authority = [] then url_error ''missing a host''
            else (case split_port authority of
                    Inl e \<Rightarrow> Inl e
                  | Inr (host, port) \<Rightarrow>
                      if host = [] then url_error ''empty host''
                      else Inr \<lparr>url_host = host, url_port = port, url_path = path\<rparr>)))"

subsection \<open>The request\<close>

definition USER_AGENT :: string where
  "USER_AGENT = ''nmbl-rescue/1''"

definition crlf :: string where
  "crlf = [carriage_return, newline]"

definition request_text :: "http_url \<Rightarrow> string" where
  "request_text url =
     ''GET '' @ url_path url @ '' HTTP/1.0'' @ crlf @ ''Host: '' @ url_host url @ crlf
       @ ''User-Agent: '' @ USER_AGENT @ crlf @ ''Accept: */*'' @ crlf @ ''Connection: close'' @ crlf @ crlf"

subsection \<open>The response\<close>

record http_conn =
  hc_input :: bytes
  hc_breaks :: bool
  hc_pieces :: "nat \<Rightarrow> nat"

definition MAX_HEADER_BYTES :: nat where
  "MAX_HEADER_BYTES = 64 * 1024"

text \<open>A line with its newline, and what follows; without a newline all there is.\<close>

fun first_line :: "bytes \<Rightarrow> bytes \<times> bytes" where
  "first_line [] = ([], [])"
| "first_line (c # cs) =
     (if c = newline then ([c], cs) else (case first_line cs of (l, r) \<Rightarrow> (c # l, r)))"

definition trim_eol :: "string \<Rightarrow> string" where
  "trim_eol l = rev (dropWhile (\<lambda>c. c = carriage_return \<or> c = newline) (rev l))"

definition parse_status_line :: "string \<Rightarrow> http_error + nat" where
  "parse_status_line line =
     (let (version, after) = (case split_once (CHR '' '') (trim_eol line) of
            Some (v, r) \<Rightarrow> (v, r) | None \<Rightarrow> (trim_eol line, []));
          code = (case split_once (CHR '' '') after of Some (c, _) \<Rightarrow> c | None \<Rightarrow> after)
      in if version \<noteq> ''HTTP/1.0'' \<and> version \<noteq> ''HTTP/1.1''
         then Inl (Http_Rescue ''http-recv-status'' ''unsupported HTTP version'')
         else ok_or (Http_Rescue ''http-recv-status'' ''malformed status code'') (parse_uint 65535 code))"

text \<open>At most \<open>MAX_HEADER_BYTES\<close> bytes are read; the rest of the input comes back.\<close>

definition read_status_line :: "bool \<Rightarrow> bytes \<Rightarrow> (http_error + nat) \<times> bytes" where
  "read_status_line breaks input =
     (let (line, _) = first_line (take MAX_HEADER_BYTES input);
          rest = drop (length line) input;
          err = (\<lambda>reason. (Inl (Http_Rescue ''http-recv-status'' reason), rest))
      in if line = [] \<or> last line \<noteq> newline then
           (if length line < MAX_HEADER_BYTES \<and> breaks then err ''reading status line''
            else if line = [] then err ''peer closed before status line''
            else err ''status line exceeded the limit'')
         else if \<not> valid_utf8 line then err ''non-UTF-8 bytes''
         else (parse_status_line line, rest))"

type_synonym headers = "(string \<times> string) list"

definition header_pair :: "string \<Rightarrow> headers" where
  "header_pair trimmed =
     (case split_once (CHR '':'') trimmed of
        Some (name, v) \<Rightarrow> [(name, dropWhile (\<lambda>c. c = CHR '' '' \<or> c = CHR 0x09) v)]
      | None \<Rightarrow> [])"

definition header_error :: "string \<Rightarrow> http_error" where
  "header_error reason = Http_Rescue ''http-recv-headers'' reason"

lemma first_line_parts: "first_line input = (line, rest) \<Longrightarrow> line @ rest = input"
  by (induction input arbitrary: line rest) (auto split: if_splits prod.splits)

lemma first_line_Nil: "first_line input = ([], rest) \<longleftrightarrow> input = [] \<and> rest = []"
  by (cases input) (auto split: if_splits prod.splits)

function read_headers ::
  "bool \<Rightarrow> nat \<Rightarrow> headers \<Rightarrow> bytes \<Rightarrow> (http_error + headers) \<times> bytes" where
  "read_headers breaks seen headers input =
     (case first_line input of (line, rest) \<Rightarrow>
        if breaks \<and> (line = [] \<or> last line \<noteq> newline) then (Inl (header_error ''reading header line''), rest)
        else if line = [] then (Inl (header_error ''peer closed mid-headers''), rest)
        else if \<not> valid_utf8 line then (Inl (header_error ''reading header line''), rest)
        else if MAX_HEADER_BYTES < sat_add u64_max seen (length line)
          then (Inl (header_error ''header section exceeded the limit''), rest)
        else if trim_eol line = [] then (Inr headers, rest)
        else read_headers breaks (sat_add u64_max seen (length line)) (headers @ header_pair (trim_eol line)) rest)"
  by auto
termination
proof (relation "measure (\<lambda>(breaks, seen, headers, input). length input)", goal_cases)
  case (2 breaks seen headers input line rest)
  then have "input = line @ rest" "line \<noteq> []" using first_line_parts [of input line rest] by auto
  then show ?case by (cases line) simp_all
qed simp

definition parse_content_length :: "headers \<Rightarrow> http_error + nat option" where
  "parse_content_length headers =
     (if \<exists>(name, v)\<in>set headers. eq_ignore_ascii_case name ''transfer-encoding''
          \<and> ''chunked'' \<in> trim ` set (split_on (CHR '','') (to_ascii_lowercase v))
      then Inl (header_error ''chunked is unsupported'')
      else case find (\<lambda>(name, v). eq_ignore_ascii_case name ''content-length'') headers of
        None \<Rightarrow> Inr None
      | Some (_, v) \<Rightarrow>
          (case parse_uint u64_max (trim v) of
             Some n \<Rightarrow> Inr (Some n)
           | None \<Rightarrow> Inl (header_error ''malformed Content-Length'')))"

subsection \<open>The body\<close>

definition body_error :: "string \<Rightarrow> http_error" where
  "body_error reason = Http_Rescue ''http-recv-body'' reason"

definition BODY_CHUNK :: nat where
  "BODY_CHUNK = 16 * 1024"

text \<open>\<open>rest\<close> is what the peer still sends, \<open>k\<close> numbers the reads, \<open>s\<close> is the state of the sink.\<close>

function stream_body ::
  "http_conn \<Rightarrow> nat \<Rightarrow> nat option \<Rightarrow> (bytes \<Rightarrow> 's \<Rightarrow> string + 's) \<Rightarrow> nat \<Rightarrow> bytes \<Rightarrow> 's
     \<Rightarrow> (http_error + nat) \<times> 's" where
  "stream_body c k expected sink len rest s =
     (if expected \<noteq> None \<and> the expected \<le> len then (Inr len, s)
      else if rest = [] then
        (if hc_breaks c then (Inl (body_error ''reading body''), s)
         else if expected \<noteq> None then (Inl (body_error ''short body''), s)
         else (Inr len, s))
      else
        let n = min (max 1 (hc_pieces c k)) (min BODY_CHUNK (length rest));
            take_n = (case expected of Some want \<Rightarrow> min n (want - len) | None \<Rightarrow> n)
        in if take_n = 0 then (Inr len, s)
           else case sink (take take_n rest) s of
             Inl e \<Rightarrow> (Inl (Http_Sink e), s)
           | Inr s' \<Rightarrow> stream_body c (Suc k) expected sink (sat_add u64_max len take_n) (drop n rest) s')"
  by auto
termination
  by (relation "measure (\<lambda>(c, k, expected, sink, len, rest, s). length rest)")
    (auto simp: BODY_CHUNK_def)

record http_world =
  hw_connect :: "string \<Rightarrow> http_conn option"
  hw_timeouts :: bool
  hw_send :: "string \<Rightarrow> bool"

definition http_get ::
  "http_world \<Rightarrow> http_url \<Rightarrow> (bytes \<Rightarrow> 's \<Rightarrow> string + 's) \<Rightarrow> 's \<Rightarrow> (http_error + nat) \<times> 's" where
  "http_get w url sink s =
     (case hw_connect w (url_host url @ '':'' @ dec (url_port url)) of
        None \<Rightarrow> (Inl (Http_Rescue ''http-connect'' ''TCP connect''), s)
      | Some c \<Rightarrow>
          if \<not> hw_timeouts w then (Inl (Http_Rescue ''http-connect'' ''set timeout''), s)
          else if \<not> hw_send w (request_text url) then (Inl (Http_Rescue ''http-send'' ''writing request''), s)
          else (case read_status_line (hc_breaks c) (hc_input c) of
             (Inl e, _) \<Rightarrow> (Inl e, s)
           | (Inr status, rest) \<Rightarrow>
               if status \<noteq> 200 then (Inl (Http_Rescue ''http-bad-status'' (dec status)), s)
               else (case read_headers (hc_breaks c) 0 [] rest of
                  (Inl e, _) \<Rightarrow> (Inl e, s)
                | (Inr headers, body) \<Rightarrow>
                    (case parse_content_length headers of
                       Inl e \<Rightarrow> (Inl e, s)
                     | Inr expected \<Rightarrow> stream_body c 0 expected sink 0 body s))))"

subsection \<open>No forged headers\<close>

lemma strip_cr_snoc: "strip_cr (l @ [carriage_return]) = l"
  by (simp add: strip_cr_def strip_suffix_def ends_with_def)

lemma crlf_lines:
  assumes "\<forall>l\<in>set ls. newline \<notin> set l"
  shows "text_lines (concat (map (\<lambda>l. l @ crlf) ls)) = ls"
proof -
  have "concat (map (\<lambda>l. l @ crlf) ls) = concat (map (\<lambda>l. l @ [newline]) (map (\<lambda>l. l @ [carriage_return]) ls))"
    by (simp add: crlf_def o_def)
  moreover have "\<forall>l\<in>set (map (\<lambda>l. l @ [carriage_return]) ls). newline \<notin> set l"
    using assms by (auto simp: newline_def carriage_return_def)
  ultimately have "split_on newline (concat (map (\<lambda>l. l @ crlf) ls)) =
      map (\<lambda>l. l @ [carriage_return]) ls @ [[]]"
    using split_on_lines [of "map (\<lambda>l. l @ [carriage_return]) ls" newline] by simp
  then show ?thesis by (simp add: text_lines_def o_def strip_cr_snoc)
qed

definition url_clean :: "http_url \<Rightarrow> bool" where
  "url_clean url \<longleftrightarrow> url_host url \<noteq> [] \<and> starts_with ''/'' (url_path url) \<and> CHR ''/'' \<notin> set (url_host url)
     \<and> url_port url \<le> 65535
     \<and> (\<forall>c\<in>set (url_host url) \<union> set (url_path url). \<not> is_control c \<and> c \<noteq> CHR ''@'')"

lemma split_authority_parts:
  "split_authority rest = (authority, path) \<Longrightarrow>
     CHR ''/'' \<notin> set authority \<and> starts_with ''/'' path \<and> set authority \<subseteq> set rest
       \<and> set path \<subseteq> set rest \<union> {CHR ''/''}"
  by (auto simp: split_authority_def starts_with_def split_once_None_iff dest!: split_once_SomeD
      split: option.splits prod.splits)

lemma rsplit_once_SomeD: "rsplit_once c s = Some (a, b) \<Longrightarrow> s = a @ c # b"
  by (auto simp: rsplit_once_def dest!: split_once_SomeD) (metis append.assoc append_Cons append_Nil
      rev_append rev_rev_ident rev_singleton_conv rev.simps(2))

lemma split_port_parts:
  "split_port authority = Inr (host, port) \<Longrightarrow> set host \<subseteq> set authority \<and> port \<le> 65535"
  by (auto simp: split_port_def url_error_def parse_uint_le dest!: rsplit_once_SomeD
      split: option.splits prod.splits)

lemma parse_url_clean:
  assumes "parse_url input = Inr url"
  shows "url_clean url"
proof -
  obtain rest where rest: "strip_prefix SCHEME input = Some rest"
    using assms by (auto simp: parse_url_def url_error_def split: option.splits)
  obtain authority path where ap: "split_authority rest = (authority, path)" by fastforce
  have clean: "\<forall>b\<in>set rest. \<not> is_control b" "CHR ''@'' \<notin> set rest"
    using assms rest by (auto simp: parse_url_def url_error_def split: if_splits)
  have hp: "split_port authority = Inr (url_host url, url_port url)" "url_host url \<noteq> []" "path = url_path url"
    using assms rest ap by (auto simp: parse_url_def url_error_def split: if_splits sum.splits)
  from split_authority_parts [OF ap] split_port_parts [OF hp(1)]
  have sets: "CHR ''/'' \<notin> set (url_host url)" "starts_with ''/'' (url_path url)"
    "set (url_host url) \<subseteq> set rest" "set (url_path url) \<subseteq> set rest \<union> {CHR ''/''}" "url_port url \<le> 65535"
    using hp(3) by auto
  have "\<not> is_control (CHR ''/'')" by (simp add: is_control_def ord_def)
  with clean sets(3,4) have "\<forall>c\<in>set (url_host url) \<union> set (url_path url). \<not> is_control c \<and> c \<noteq> CHR ''@''"
    by blast
  with sets hp(2) show ?thesis by (simp add: url_clean_def)
qed

text \<open>C31: A URL cannot forge a header. What \<open>HttpUrl::parse\<close> accepts has a host without slash, user or
  control byte, a path that starts with a slash and a port of 16 bits, and the request made of it is,
  read line by line, the request line, the four headers of the client and the blank line.\<close>

theorem urls_forge_no_header:
  assumes "parse_url input = Inr url"
  shows "url_clean url \<and> text_lines (request_text url) =
    [''GET '' @ url_path url @ '' HTTP/1.0'', ''Host: '' @ url_host url, ''User-Agent: '' @ USER_AGENT,
     ''Accept: */*'', ''Connection: close'', []]"
proof
  show clean: "url_clean url" by (rule parse_url_clean [OF assms])
  have "is_control newline" by (simp add: is_control_def)
  then have nl: "newline \<notin> set (url_path url)" "newline \<notin> set (url_host url)"
    using clean unfolding url_clean_def by blast+
  have "request_text url = concat (map (\<lambda>l. l @ crlf)
    [''GET '' @ url_path url @ '' HTTP/1.0'', ''Host: '' @ url_host url, ''User-Agent: '' @ USER_AGENT,
     ''Accept: */*'', ''Connection: close'', []])"
    by (simp add: request_text_def)
  moreover have "newline \<notin> set (''GET '' @ url_path url @ '' HTTP/1.0'')"
    "newline \<notin> set (''Host: '' @ url_host url)" "newline \<notin> set (''User-Agent: '' @ USER_AGENT)"
    "newline \<notin> set ''Accept: */*''" "newline \<notin> set ''Connection: close''"
    using nl by (simp_all add: USER_AGENT_def) (simp_all add: newline_def)
  ultimately show "text_lines (request_text url) =
    [''GET '' @ url_path url @ '' HTTP/1.0'', ''Host: '' @ url_host url, ''User-Agent: '' @ USER_AGENT,
     ''Accept: */*'', ''Connection: close'', []]"
    using crlf_lines [of "[''GET '' @ url_path url @ '' HTTP/1.0'', ''Host: '' @ url_host url,
      ''User-Agent: '' @ USER_AGENT, ''Accept: */*'', ''Connection: close'', []]"]
    by (simp del: append_Cons append.simps)
qed

definition demo_url :: http_url where
  "demo_url = \<lparr>url_host = ''10.0.0.1'', url_port = 8080, url_path = ''/r.sfs''\<rparr>"

lemma demo_url_parses: "parse_url ''http://10.0.0.1:8080/r.sfs'' = Inr demo_url"
proof -
  have 1: "strip_prefix SCHEME ''http://10.0.0.1:8080/r.sfs'' = Some ''10.0.0.1:8080/r.sfs''"
    by (simp add: strip_prefix_def starts_with_def SCHEME_def)
  have 2: "\<not> (\<exists>b\<in>set ''10.0.0.1:8080/r.sfs''. is_control b)" "CHR ''@'' \<notin> set ''10.0.0.1:8080/r.sfs''"
    "\<not> starts_with ''['' ''10.0.0.1:8080/r.sfs''"
    by (simp_all add: is_control_def ord_def starts_with_def)
  have 3: "split_authority ''10.0.0.1:8080/r.sfs'' = (''10.0.0.1:8080'', ''/r.sfs'')"
    by (simp add: split_authority_def)
  have "parse_uint 65535 ''8080'' = Some 8080"
    by (simp add: parse_uint_def digit_val_def is_digit_def ord_def)
  then have 4: "split_port ''10.0.0.1:8080'' = Inr (''10.0.0.1'', 8080)"
    by (simp add: split_port_def rsplit_once_def)
  from 1 2 3 4 show ?thesis by (simp add: parse_url_def demo_url_def)
qed

theorem urls_forge_no_header_witness:
  "url_clean demo_url \<and> text_lines (request_text demo_url) =
    [''GET '' @ url_path demo_url @ '' HTTP/1.0'', ''Host: '' @ url_host demo_url, ''User-Agent: '' @ USER_AGENT,
     ''Accept: */*'', ''Connection: close'', []]"
  by (rule urls_forge_no_header [OF demo_url_parses])

subsection \<open>The body arrives whole\<close>

declare stream_body.simps [simp del] read_headers.simps [simp del]

fun fold_sink :: "(bytes \<Rightarrow> 's \<Rightarrow> string + 's) \<Rightarrow> bytes list \<Rightarrow> 's \<Rightarrow> string + 's" where
  "fold_sink sink [] s = Inr s"
| "fold_sink sink (b # bs) s = rbind (sink b s) (fold_sink sink bs)"

text \<open>The bytes of a body that the caller is to see, given the announced length.\<close>

definition announced :: "nat option \<Rightarrow> nat \<Rightarrow> bytes \<Rightarrow> bytes" where
  "announced expected len rest = (case expected of Some want \<Rightarrow> take (want - len) rest | None \<Rightarrow> rest)"

lemma announced_step:
  assumes "m = (case expected of Some want \<Rightarrow> min n (want - len) | None \<Rightarrow> n)"
  shows "announced expected len rest = take m rest @ announced expected (len + m) (drop n rest)"
proof (cases expected)
  case None
  with assms show ?thesis by (simp add: announced_def)
next
  case (Some want)
  show ?thesis
  proof (cases "n \<le> want - len")
    case True
    then have "take (want - len) rest = take n rest @ take (want - len - n) (drop n rest)"
      using take_add [of n "want - len - n" rest] by (simp only: le_add_diff_inverse)
    with True Some assms show ?thesis by (simp add: announced_def)
  qed (use Some assms in \<open>simp add: announced_def\<close>)
qed

lemma stream_body_sinks:
  assumes "stream_body c k expected sink len rest s = (Inr t, s')" "len + length rest \<le> u64_max"
  shows "(\<exists>bs. concat bs = announced expected len rest \<and> fold_sink sink bs s = Inr s')
    \<and> t = len + length (announced expected len rest)
    \<and> (\<forall>want. expected = Some want \<longrightarrow> len \<le> want \<longrightarrow> t = want)"
  using assms
proof (induction c k expected sink len rest s rule: stream_body.induct)
  case (1 c k expected sink len rest s)
  note step = stream_body.simps [of c k expected sink len rest s]
  show ?case
  proof (cases "expected \<noteq> None \<and> the expected \<le> len")
    case True
    with "1.prems"(1) step have "t = len" "s' = s" by auto
    with True show ?thesis by (auto simp: announced_def intro!: exI [of _ "[]"])
  next
    case going: False
    show ?thesis
    proof (cases "rest = []")
      case True
      with "1.prems"(1) step going have "t = len" "s' = s" "expected = None"
        by (auto split: if_splits)
      with True show ?thesis by (auto simp: announced_def intro!: exI [of _ "[]"])
    next
      case False
      define n where "n = min (max 1 (hc_pieces c k)) (min BODY_CHUNK (length rest))"
      define m where "m = (case expected of Some want \<Rightarrow> min n (want - len) | None \<Rightarrow> n)"
      have n: "0 < n" "n \<le> length rest" using False by (auto simp: n_def BODY_CHUNK_def)
      have m: "0 < m" "m \<le> n" using n going by (auto simp: m_def split: option.split)
      have eq: "(case sink (take m rest) s of Inl e \<Rightarrow> (Inl (Http_Sink e), s)
          | Inr s1 \<Rightarrow> stream_body c (Suc k) expected sink (sat_add u64_max len m) (drop n rest) s1) = (Inr t, s')"
        using "1.prems"(1) m(1)
        unfolding step if_not_P [OF going] if_not_P [OF False] Let_def n_def [symmetric] m_def [symmetric]
        by simp
      then obtain s1 where s1: "sink (take m rest) s = Inr s1" by (auto split: sum.splits)
      have len: "sat_add u64_max len m = len + m" using "1.prems"(2) m n by (simp add: sat_add_def)
      from eq s1 have rec: "stream_body c (Suc k) expected sink (len + m) (drop n rest) s1 = (Inr t, s')"
        by (simp add: len)
      have "(\<exists>bs. concat bs = announced expected (len + m) (drop n rest) \<and> fold_sink sink bs s1 = Inr s')
          \<and> t = len + m + length (announced expected (len + m) (drop n rest))
          \<and> (\<forall>want. expected = Some want \<longrightarrow> len + m \<le> want \<longrightarrow> t = want)"
      proof -
        have "len + m + length (drop n rest) \<le> u64_max" using "1.prems"(2) m n by simp
        then show ?thesis
          using "1.IH" [OF going False n_def m_def _ s1] rec m(1) unfolding len by blast
      qed
      then obtain bs where bs: "concat bs = announced expected (len + m) (drop n rest)"
          "fold_sink sink bs s1 = Inr s'"
        and t: "t = len + m + length (announced expected (len + m) (drop n rest))"
          "\<forall>want. expected = Some want \<longrightarrow> len + m \<le> want \<longrightarrow> t = want" by blast
      have split: "announced expected len rest = take m rest @ announced expected (len + m) (drop n rest)"
        by (rule announced_step [OF m_def])
      have "\<forall>want. expected = Some want \<longrightarrow> len + m \<le> want"
        using going by (auto simp: m_def)
      moreover have "concat (take m rest # bs) = announced expected len rest"
        "fold_sink sink (take m rest # bs) s = Inr s'"
        using bs s1 by (simp_all add: split)
      moreover have "t = len + length (announced expected len rest)"
        using t(1) m n by (simp add: split)
      ultimately show ?thesis using t(2) by blast
    qed
  qed
qed

text \<open>What a finished download has shown the caller: the announced part of a body behind a good head.\<close>

definition downloaded :: "http_conn \<Rightarrow> bytes \<Rightarrow> bool" where
  "downloaded c body \<longleftrightarrow>
     (\<exists>rest headers tail expected.
        read_status_line (hc_breaks c) (hc_input c) = (Inr 200, rest)
        \<and> read_headers (hc_breaks c) 0 [] rest = (Inr headers, tail)
        \<and> parse_content_length headers = Inr expected
        \<and> body = announced expected 0 tail
        \<and> (\<forall>want. expected = Some want \<longrightarrow> length body = want))"

lemma first_line_length: "first_line input = (line, rest) \<Longrightarrow> length rest \<le> length input"
  using first_line_parts [of input line rest] by auto

lemma read_headers_length:
  "read_headers breaks seen hs input = (res, rest) \<Longrightarrow> length rest \<le> length input"
proof (induction breaks seen hs input rule: read_headers.induct)
  case (1 breaks seen hs input)
  obtain line mid where fl: "first_line input = (line, mid)" by fastforce
  note mid = first_line_length [OF fl]
  show ?case
  proof (cases "breaks \<and> (line = [] \<or> last line \<noteq> newline) \<or> line = [] \<or> \<not> valid_utf8 line
      \<or> MAX_HEADER_BYTES < sat_add u64_max seen (length line) \<or> trim_eol line = []")
    case True
    with 1(2) fl mid show ?thesis
      by (subst (asm) read_headers.simps) (auto split: if_splits)
  next
    case False
    with 1(2) fl have "read_headers breaks (sat_add u64_max seen (length line))
        (hs @ header_pair (trim_eol line)) mid = (res, rest)"
      by (subst (asm) read_headers.simps) (simp split: if_splits)
    with "1.IH" [OF fl [symmetric]] False mid show ?thesis by fastforce
  qed
qed

lemma http_get_downloads:
  assumes "http_get w url sink s = (Inr t, s')"
    and "\<forall>addr c. hw_connect w addr = Some c \<longrightarrow> length (hc_input c) \<le> u64_max"
  shows "\<exists>c bs. hw_connect w (url_host url @ '':'' @ dec (url_port url)) = Some c
    \<and> downloaded c (concat bs) \<and> t = length (concat bs) \<and> fold_sink sink bs s = Inr s'"
proof -
  obtain c where c: "hw_connect w (url_host url @ '':'' @ dec (url_port url)) = Some c"
    using assms(1) by (auto simp: http_get_def split: option.splits)
  obtain status rest where st: "read_status_line (hc_breaks c) (hc_input c) = (Inr status, rest)"
    using assms(1) c by (auto simp: http_get_def split: if_splits prod.splits sum.splits)
  have 200: "status = 200" using assms(1) c st by (auto simp: http_get_def split: if_splits)
  obtain headers tail where hs: "read_headers (hc_breaks c) 0 [] rest = (Inr headers, tail)"
    using assms(1) c st 200 by (auto simp: http_get_def split: if_splits prod.splits sum.splits)
  obtain expected where ex: "parse_content_length headers = Inr expected"
    using assms(1) c st 200 hs by (auto simp: http_get_def split: if_splits sum.splits)
  have body: "stream_body c 0 expected sink 0 tail s = (Inr t, s')"
    using assms(1) c st 200 hs ex by (auto simp: http_get_def split: if_splits)
  have "length rest \<le> length (hc_input c)"
    using st by (auto simp: read_status_line_def Let_def split: prod.splits if_splits)
  with read_headers_length [OF hs] assms(2) c have "0 + length tail \<le> u64_max" by fastforce
  from stream_body_sinks [OF body this] obtain bs where
    bs: "concat bs = announced expected 0 tail" "fold_sink sink bs s = Inr s'"
      "t = length (announced expected 0 tail)" "\<forall>want. expected = Some want \<longrightarrow> t = want" by auto
  then have "downloaded c (concat bs)"
    unfolding downloaded_def using st 200 hs ex by auto
  with c bs show ?thesis by (intro exI [of _ c] exI [of _ bs]) simp
qed

text \<open>C32: A finished GET has passed on the body and nothing but the body. When \<open>get\<close> returns a
  length, the peer had sent a status of 200 and headers without chunked coding, the sink was given,
  chunk by chunk and in order, exactly the body (all of it, cut off at the announced length, and not
  a byte short of it), and the length returned is that of the body; how the bytes were cut into
  pieces on the way makes no difference.\<close>

theorem get_passes_on_the_body:
  assumes "http_get w url sink s = (Inr t, s')"
    and "\<forall>addr c. hw_connect w addr = Some c \<longrightarrow> length (hc_input c) \<le> u64_max"
  shows "\<exists>c bs. hw_connect w (url_host url @ '':'' @ dec (url_port url)) = Some c
    \<and> downloaded c (concat bs) \<and> t = length (concat bs) \<and> fold_sink sink bs s = Inr s'"
  by (rule http_get_downloads [OF assms])

subsection \<open>The limit on the headers\<close>

text \<open>
  The section is limited to 64 KiB after each line, but a line is read whole before it is counted:
  the header that breaks the limit is in memory in full, however long the peer makes it.
\<close>

lemma first_line_newline: "newline \<notin> set l \<Longrightarrow> first_line (l @ newline # rest) = (l @ [newline], rest)"
  by (induction l) auto

lemma long_line_is_held_whole:
  assumes "newline \<notin> set l" "valid_utf8 (l @ [newline])" "MAX_HEADER_BYTES < length l"
  shows "read_headers breaks 0 [] (l @ newline # rest) =
    (Inl (header_error ''header section exceeded the limit''), rest)"
  using assms by (subst read_headers.simps)
    (simp add: first_line_newline sat_add_def u64_max_def MAX_HEADER_BYTES_def)

subsection \<open>A small download\<close>

definition demo_head :: string where
  "demo_head = ''HTTP/1.0 200 OK'' @ crlf @ ''Content-Length: 3'' @ crlf @ crlf"

definition demo_conn :: http_conn where
  "demo_conn = \<lparr>hc_input = demo_head @ ''abcd'', hc_breaks = False, hc_pieces = (\<lambda>k. 2)\<rparr>"

definition demo_http :: http_world where
  "demo_http = \<lparr>hw_connect = (\<lambda>addr. Some demo_conn), hw_timeouts = True, hw_send = (\<lambda>req. True)\<rparr>"

definition collect :: "bytes \<Rightarrow> bytes \<Rightarrow> string + bytes" where
  "collect b s = Inr (s @ b)"

lemma demo_status: "read_status_line False (hc_input demo_conn) =
  (Inr 200, ''Content-Length: 3'' @ crlf @ crlf @ ''abcd'')"
proof -
  have fl: "first_line (take MAX_HEADER_BYTES (hc_input demo_conn)) = (''HTTP/1.0 200 OK'' @ crlf,
      ''Content-Length: 3'' @ crlf @ crlf @ ''abcd'')"
    by (simp add: demo_conn_def demo_head_def crlf_def MAX_HEADER_BYTES_def newline_def carriage_return_def)
  have "valid_utf8 (''HTTP/1.0 200 OK'' @ crlf)"
    by (rule valid_utf8_ascii) (auto simp: crlf_def newline_def carriage_return_def ord_def is_ascii_def)
  moreover have "parse_status_line (''HTTP/1.0 200 OK'' @ crlf) = Inr 200"
    by (simp add: parse_status_line_def trim_eol_def crlf_def newline_def carriage_return_def
        parse_uint_def digit_val_def is_digit_def ord_def)
  ultimately show ?thesis
    unfolding read_status_line_def fl
    by (simp add: demo_conn_def demo_head_def crlf_def newline_def)
qed

lemma demo_headers: "read_headers False 0 [] (''Content-Length: 3'' @ crlf @ crlf @ ''abcd'') =
  (Inr [(''Content-Length'', ''3'')], ''abcd'')"
proof -
  have "valid_utf8 (''Content-Length: 3'' @ crlf)" "valid_utf8 crlf"
    by (rule valid_utf8_ascii, auto simp: crlf_def newline_def carriage_return_def ord_def is_ascii_def)+
  then show ?thesis
    by (subst read_headers.simps, subst read_headers.simps)
      (simp add: crlf_def newline_def carriage_return_def trim_eol_def header_pair_def sat_add_def
        u64_max_def MAX_HEADER_BYTES_def)
qed

lemma demo_length: "parse_content_length [(''Content-Length'', ''3'')] = Inr (Some 3)"
proof -
  have "trim ''3'' = ''3''" by (rule trim_all_graphic) (simp add: is_graphic_def ord_def)
  moreover have "eq_ignore_ascii_case ''Content-Length'' ''content-length''"
    "\<not> eq_ignore_ascii_case ''Content-Length'' ''transfer-encoding''"
    by code_simp+
  moreover have "parse_uint u64_max ''3'' = Some 3"
    by (simp add: parse_uint_def digit_val_def is_digit_def ord_def u64_max_def)
  ultimately show ?thesis by (simp add: parse_content_length_def)
qed

lemma demo_get: "http_get demo_http demo_url collect [] = (Inr 3, ''abc'')"
proof -
  have "stream_body demo_conn 0 (Some 3) collect 0 ''abcd'' [] = (Inr 3, ''abc'')"
    by (simp add: stream_body.simps demo_conn_def collect_def BODY_CHUNK_def sat_add_def u64_max_def)
  then show ?thesis
    using demo_status demo_headers demo_length
    by (simp add: http_get_def demo_http_def) (simp add: demo_conn_def)
qed

theorem get_passes_on_the_body_witness:
  "\<exists>c bs. hw_connect demo_http (url_host demo_url @ '':'' @ dec (url_port demo_url)) = Some c
    \<and> downloaded c (concat bs) \<and> 3 = length (concat bs) \<and> fold_sink collect bs [] = Inr ''abc''"
  by (rule get_passes_on_the_body [OF demo_get])
    (simp add: demo_http_def demo_conn_def demo_head_def crlf_def u64_max_def)

end
