(* ===== verification/Rescue_Image.thy ===== *)
theory Rescue_Image
  imports Seal_Policy Host_Tools Net_Dhcp Net_Http
begin

text \<open>
  Where the system of the external rescue comes from: the image on the boot volume
  (\<open>rescue/locate.rs\<close>, \<open>rescue/image.rs\<close>, \<open>rescue/verify.rs\<close>, \<open>rescue/disk.rs\<close>) and, when there
  is none or it fails, the one that is downloaded (\<open>rescue/net\<close>, over \<open>Net_Dhcp\<close> and
  \<open>Net_Http\<close>). The result of a path is the content that is mounted at \<open>/rescue\<close>;
  \<open>answers_of\<close> plugs both into the dispatch of \<open>Seal_Policy\<close>.
\<close>

subsection \<open>The image on the boot volume\<close>

record rescue_config =
  rc_signing :: signing_config
  rc_pin :: "string option"
  rc_sfs_path :: "string option"
  rc_boot_mp :: "string option"
  rc_network :: bool
  rc_default_url :: string
  rc_default_sha256 :: string

datatype rescue_error =
    Resc_Stage string
  | Resc_Dhcp dhcp_error
  | Resc_Http http_error

text \<open>An opened image: its path and what its descriptor reads, or why it could not be opened.\<close>

datatype open_error = Open_Not_Found | Open_Failed

record stage2_image =
  si_path :: string
  si_file :: "open_error + bytes option"

text \<open>
  What the boot volume and the kernel answer: opening and reading files, whether a path exists,
  and whether the loop device and then each of the three mounts succeed (\<open>Inl\<close> the stage).
\<close>

record rescue_os =
  ro_open :: "string \<Rightarrow> open_error + bytes option"
  ro_read :: "string \<Rightarrow> bytes option"
  ro_exists :: "string \<Rightarrow> bool"
  ro_loop :: "string + unit"
  ro_overlay :: bool

definition DEFAULT_SFS_BASENAME :: string where
  "DEFAULT_SFS_BASENAME = ''nmbl-rescue.sfs''"

definition strip_one_slash :: "string \<Rightarrow> string" where
  "strip_one_slash p = (case path_strip_prefix ''/'' p of None \<Rightarrow> p | Some rel \<Rightarrow> rel)"

definition sfs_relative :: "rescue_config \<Rightarrow> string" where
  "sfs_relative rc =
     (case rc_sfs_path rc of Some p \<Rightarrow> strip_one_slash p | None \<Rightarrow> DEFAULT_SFS_BASENAME)"

definition locate_sfs :: "rescue_config \<Rightarrow> rescue_error + string" where
  "locate_sfs rc =
     map_sum id (\<lambda>mp. path_join mp (sfs_relative rc)) (ok_or (Resc_Stage ''locate-sfs'') (rc_boot_mp rc))"

definition open_image :: "rescue_os \<Rightarrow> rescue_config \<Rightarrow> rescue_error + stage2_image" where
  "open_image os rc =
     map_sum id (\<lambda>path. \<lparr>si_path = path, si_file = ro_open os path\<rparr>) (locate_sfs rc)"

definition image_absent :: "rescue_error + stage2_image \<Rightarrow> bool" where
  "image_absent img =
     (case img of Inl _ \<Rightarrow> True | Inr i \<Rightarrow> si_file i = Inl Open_Not_Found)"

text \<open>\<open>Path::with_file_name\<close>: the last component is dropped, if there is one, and the name pushed.\<close>

definition with_file_name :: "string \<Rightarrow> string \<Rightarrow> string" where
  "with_file_name p name =
     path_join (case file_name p of
         Some _ \<Rightarrow> (case parent p of Some d \<Rightarrow> d | None \<Rightarrow> p) | None \<Rightarrow> p) name"

definition rescue_sig_sidecar :: "string \<Rightarrow> string \<Rightarrow> string" where
  "rescue_sig_sidecar path suffix =
     with_file_name path ((case file_name path of Some n \<Rightarrow> n | None \<Rightarrow> []) @ suffix)"

definition verify_rescue_image ::
  "crypto \<Rightarrow> (bytes \<times> alg_id) list \<Rightarrow> rescue_os \<Rightarrow> rescue_config \<Rightarrow> rescue_error + stage2_image
     \<Rightarrow> sig_error + bytes" where
  "verify_rescue_image cr baked os rc img =
     (case img of
        Inl _ \<Rightarrow> Inl (Sig_Io ''locate-sfs'')
      | Inr i \<Rightarrow>
          (case si_file i of
             Inl _ \<Rightarrow> Inl (Sig_Io ''open rescue image'')
           | Inr fd \<Rightarrow> verify_image_fd_digest cr baked fd
               (Some (ro_read os (rescue_sig_sidecar (si_path i) (sg_suffix (rc_signing rc)))))
               DOMAIN_RESCUE_SFS (rc_signing rc)))"

definition verify_rescue_image_gated ::
  "crypto \<Rightarrow> (bytes \<times> alg_id) list \<Rightarrow> rescue_os \<Rightarrow> rescue_config \<Rightarrow> rescue_error + stage2_image
     \<Rightarrow> policy_decision \<times> bytes option" where
  "verify_rescue_image_gated cr baked os rc img =
     (if \<not> sg_enable (rc_signing rc) then (Gate_Proceed, None)
      else let result = verify_rescue_image cr baked os rc img
           in (apply_policy (rc_signing rc) (map_sum id (\<lambda>_. ()) result), ok result))"

definition parse_pin :: "string \<Rightarrow> rescue_error + bytes" where
  "parse_pin pin = ok_or (Resc_Stage ''image-digest'') (decode_fixed 64 pin)"

definition digest_of :: "crypto \<Rightarrow> bytes option \<Rightarrow> rescue_error + bytes" where
  "digest_of cr fd = ok_or (Resc_Stage ''image-digest'') (map_option (sha512 cr) fd)"

definition known_or_digest :: "crypto \<Rightarrow> bytes option \<Rightarrow> bytes option \<Rightarrow> rescue_error + bytes" where
  "known_or_digest cr fd known = (case known of Some d \<Rightarrow> Inr d | None \<Rightarrow> digest_of cr fd)"

definition check_pin ::
  "crypto \<Rightarrow> string option \<Rightarrow> bytes option \<Rightarrow> bytes option \<Rightarrow> rescue_error + unit" where
  "check_pin cr expected fd known =
     (case expected of
        None \<Rightarrow> Inr ()
      | Some pin \<Rightarrow>
          rbind (parse_pin pin) (\<lambda>expected.
          rbind (known_or_digest cr fd known) (\<lambda>actual.
          ensure (actual = expected) (Resc_Stage ''image-digest''))))"

text \<open>The loop device serves the descriptor; the mounts end in the overlay at \<open>/rescue\<close>.\<close>

definition mount_image :: "rescue_os \<Rightarrow> bytes option \<Rightarrow> rescue_error + bytes option" where
  "mount_image os fd =
     rbind (map_err Resc_Stage (ro_loop os)) (\<lambda>_.
     rbind (ensure (ro_overlay os) (Resc_Stage ''mount-rescue'')) (\<lambda>_. Inr fd))"

definition prepare_disk_rescue ::
  "crypto \<Rightarrow> rescue_os \<Rightarrow> rescue_config \<Rightarrow> rescue_error + stage2_image \<Rightarrow> bytes option
     \<Rightarrow> rescue_error + bytes option" where
  "prepare_disk_rescue cr os rc img verified_digest =
     rbind img (\<lambda>i.
     rbind (ensure (ro_exists os (si_path i)) (Resc_Stage ''locate-sfs'')) (\<lambda>_.
     rbind (map_err (\<lambda>_. Resc_Stage ''sfs-open'') (si_file i)) (\<lambda>fd.
     rbind (check_pin cr (rc_pin rc) fd verified_digest) (\<lambda>_.
     mount_image os fd))))"

subsection \<open>The network\<close>

record nic =
  nic_mac :: bytes
  nic_up :: bool
  nic_link :: "rescue_error + bool"
  nic_xid :: nat
  nic_deadline :: nat
  nic_dhcp :: dhcp_world

datatype hash_confirmation = Confirmed | Mismatch | Aborted

datatype rescue_source = From_Network | Pick_Reboot | Pick_Halt

text \<open>What one round of the network rescue meets, the operator included.\<close>

record net_round =
  nr_pick :: "string \<Rightarrow> rescue_error + rescue_source"
  nr_nics :: "rescue_error + nic list"
  nr_apply :: "dhcp_lease \<Rightarrow> rescue_error + unit"
  nr_url :: "string \<Rightarrow> rescue_error + string"
  nr_http :: http_world
  nr_sig_http :: http_world
  nr_memfd :: bool
  nr_write :: "bytes \<Rightarrow> bool"
  nr_seal :: bool
  nr_unpinned :: "bytes \<Rightarrow> bytes \<Rightarrow> bool \<Rightarrow> rescue_error + bool"
  nr_confirm :: "string \<Rightarrow> string \<Rightarrow> rescue_error + hash_confirmation"
  nr_os :: rescue_os

text \<open>\<open>None\<close> is an exchange that never ends.\<close>

fun bring_up_nics :: "dhcp_codec \<Rightarrow> rescue_error option \<Rightarrow> nic list \<Rightarrow> (rescue_error + dhcp_lease) option" where
  "bring_up_nics c last_err [] =
     Some (Inl (case last_err of Some e \<Rightarrow> e | None \<Rightarrow> Resc_Stage ''net-no-iface''))"
| "bring_up_nics c last_err (n # ns) =
     (if \<not> nic_up n then bring_up_nics c (Some (Resc_Stage ''iface-up'')) ns
      else case nic_link n of
        Inl e \<Rightarrow> bring_up_nics c (Some e) ns
      | Inr link \<Rightarrow>
          if \<not> link then bring_up_nics c last_err ns
          else case acquire (nic_dhcp n) c (nic_xid n) (nic_mac n) (nic_deadline n) of
            None \<Rightarrow> None
          | Some (Inr lease, _) \<Rightarrow> Some (Inr lease)
          | Some (Inl e, _) \<Rightarrow> bring_up_nics c (Some (Resc_Dhcp e)) ns)"

definition bring_up_and_dhcp :: "dhcp_codec \<Rightarrow> net_round \<Rightarrow> (rescue_error + dhcp_lease) option" where
  "bring_up_and_dhcp c rd =
     (case nr_nics rd of
        Inl e \<Rightarrow> Some (Inl e)
      | Inr nics \<Rightarrow>
          if nics = [] then Some (Inl (Resc_Stage ''net-no-iface'')) else bring_up_nics c None nics)"

subsection \<open>The download\<close>

definition memfd_sink :: "net_round \<Rightarrow> bytes \<Rightarrow> bytes \<Rightarrow> string + bytes" where
  "memfd_sink rd chunk file = (if nr_write rd file then Inr (file @ chunk) else Inl ''net-memfd'')"

text \<open>The sealed file and the hexadecimal SHA-256 of what was written to it.\<close>

definition download_to_memfd ::
  "crypto \<Rightarrow> net_round \<Rightarrow> http_url \<Rightarrow> rescue_error + bytes \<times> string" where
  "download_to_memfd cr rd url =
     (if \<not> nr_memfd rd then Inl (Resc_Stage ''net-memfd'')
      else case http_get (nr_http rd) url (memfd_sink rd) [] of
        (Inl e, _) \<Rightarrow> Inl (Resc_Http e)
      | (Inr _, file) \<Rightarrow>
          if \<not> nr_seal rd then Inl (Resc_Stage ''net-memfd'')
          else Inr (file, hex_lower (sha256 cr file)))"

definition MAX_SIGNATURE_BYTES :: nat where
  "MAX_SIGNATURE_BYTES = 256 * 1024"

definition signature_sink :: "bytes \<Rightarrow> bytes \<Rightarrow> string + bytes" where
  "signature_sink chunk bs =
     (if MAX_SIGNATURE_BYTES < sat_add u64_max (length bs) (length chunk) then Inl ''sidecar-parse''
      else Inr (bs @ chunk))"

definition fetch_signature :: "net_round \<Rightarrow> http_url \<Rightarrow> http_error + bytes" where
  "fetch_signature rd url =
     (case http_get (nr_sig_http rd) url signature_sink [] of (r, bs) \<Rightarrow> map_sum id (\<lambda>_. bs) r)"

subsection \<open>Trust, then the operator\<close>

datatype net_outcome = Net_Restart string | Net_Fatal rescue_error

definition fatal :: "rescue_error + 'a \<Rightarrow> net_outcome + 'a" where
  "fatal r = map_err Net_Fatal r"

definition verify_download ::
  "crypto \<Rightarrow> (bytes \<times> alg_id) list \<Rightarrow> rescue_config \<Rightarrow> net_round \<Rightarrow> string \<Rightarrow> bytes
     \<Rightarrow> net_outcome + bytes option" where
  "verify_download cr baked rc rd url img =
     (if \<not> sg_enable (rc_signing rc) then Inr None
      else let result =
             rbind (map_err (\<lambda>_. Sig_Io ''signature url'') (parse_url (url @ sg_suffix (rc_signing rc)))) (\<lambda>sig_url.
             rbind (map_err (\<lambda>_. Sig_Io ''fetch signature'') (fetch_signature rd sig_url)) (\<lambda>sb.
             verify_image_fd_sidecar_bytes cr baked (Some img) sb DOMAIN_RESCUE_SFS (rc_signing rc)))
      in case apply_policy (rc_signing rc) (map_sum id (\<lambda>_. ()) result) of
           Gate_Proceed \<Rightarrow> Inr (ok result)
         | Gate_Refuse cause \<Rightarrow> Inl (Net_Restart ''rescue image signature refused''))"

definition check_stage2_pin ::
  "crypto \<Rightarrow> rescue_config \<Rightarrow> net_round \<Rightarrow> bytes \<Rightarrow> bytes option \<Rightarrow> net_outcome + unit" where
  "check_stage2_pin cr rc rd img known =
     (case rc_pin rc of
        None \<Rightarrow> Inr ()
      | Some pin \<Rightarrow>
          rbind (fatal (parse_pin pin)) (\<lambda>pinned.
          rbind (fatal (known_or_digest cr (Some img) known)) (\<lambda>actual.
          if actual = pinned then Inr ()
          else rbind (fatal (nr_unpinned rd pinned actual (known \<noteq> None))) (\<lambda>use.
            if use then Inr () else Inl (Net_Restart ''not the pinned stage-2 image'')))))"

text \<open>One trip: the content mounted at \<open>/rescue\<close>, or how the round ends.\<close>

definition run_network_attempt ::
  "crypto \<Rightarrow> (bytes \<times> alg_id) list \<Rightarrow> dhcp_codec \<Rightarrow> rescue_config \<Rightarrow> net_round
     \<Rightarrow> (net_outcome + bytes) option" where
  "run_network_attempt cr baked c rc rd =
     (case bring_up_and_dhcp c rd of
        None \<Rightarrow> None
      | Some leased \<Rightarrow> Some
          (rbind (fatal leased) (\<lambda>lease.
           rbind (fatal (nr_apply rd lease)) (\<lambda>_.
           rbind (fatal (nr_url rd (rc_default_url rc))) (\<lambda>url_str.
           rbind (fatal (map_err Resc_Http (parse_url url_str))) (\<lambda>url.
           rbind (fatal (download_to_memfd cr rd url)) (\<lambda>(img, computed).
           rbind (verify_download cr baked rc rd url_str img) (\<lambda>known.
           rbind (check_stage2_pin cr rc rd img known) (\<lambda>_.
           rbind (fatal (nr_confirm rd computed (rc_default_sha256 rc))) (\<lambda>answer.
           case answer of
             Mismatch \<Rightarrow> Inl (Net_Restart ''hash mismatch'')
           | Aborted \<Rightarrow> Inl (Net_Restart ''operator aborted at hash confirmation'')
           | Confirmed \<Rightarrow> fatal (map_sum id (\<lambda>_. img) (mount_image (nr_os rd) (Some img)))))))))))))"

datatype net_result = Net_Action terminal_action | Net_Run bytes

text \<open>The rounds until the operator leaves, an image is mounted or an error ends the rescue.\<close>

partial_function (option) network_rounds ::
  "crypto \<Rightarrow> (bytes \<times> alg_id) list \<Rightarrow> dhcp_codec \<Rightarrow> rescue_config \<Rightarrow> (nat \<Rightarrow> net_round) \<Rightarrow> string \<Rightarrow> nat
     \<Rightarrow> (rescue_error + net_result) option" where
  "network_rounds cr baked c rc rounds reason k =
     (case nr_pick (rounds k) reason of
        Inl e \<Rightarrow> Some (Inl e)
      | Inr pick \<Rightarrow>
          if pick = Pick_Reboot then Some (Inr (Net_Action Reboot))
          else if pick = Pick_Halt
            then Some (Inr (Net_Action (Halt_With_Banner (Text_Failure ''operator-halt''))))
          else (case run_network_attempt cr baked c rc (rounds k) of
             None \<Rightarrow> None
           | Some (Inr img) \<Rightarrow> Some (Inr (Net_Run img))
           | Some (Inl (Net_Restart why)) \<Rightarrow> network_rounds cr baked c rc rounds why (Suc k)
           | Some (Inl (Net_Fatal e)) \<Rightarrow> Some (Inl e)))"

definition try_network_rescue ::
  "crypto \<Rightarrow> (bytes \<times> alg_id) list \<Rightarrow> dhcp_codec \<Rightarrow> rescue_config \<Rightarrow> (nat \<Rightarrow> net_round) \<Rightarrow> string
     \<Rightarrow> (rescue_error + net_result) option" where
  "try_network_rescue cr baked c rc rounds disk_reason =
     (if \<not> rc_network rc then Some (Inl (Resc_Stage ''net-disabled''))
      else network_rounds cr baked c rc rounds disk_reason 0)"

subsection \<open>The whole external rescue\<close>

text \<open>
  What the dispatch of the policy guard asks, answered by the two paths. \<open>net\<close> is the result of the
  network rescue, asked with the reason the disk path failed for; \<open>child\<close> is how the child ends.
\<close>

definition image_gate ::
  "crypto \<Rightarrow> (bytes \<times> alg_id) list \<Rightarrow> rescue_os \<Rightarrow> rescue_config \<Rightarrow> policy_decision \<times> bytes option" where
  "image_gate cr baked os rc =
     (let img = open_image os rc in
      if rc_network rc \<and> image_absent img then (Gate_Proceed, None)
      else verify_rescue_image_gated cr baked os rc img)"

definition disk_path ::
  "crypto \<Rightarrow> (bytes \<times> alg_id) list \<Rightarrow> rescue_os \<Rightarrow> rescue_config \<Rightarrow> rescue_error + bytes option" where
  "disk_path cr baked os rc =
     prepare_disk_rescue cr os rc (open_image os rc) (snd (image_gate cr baked os rc))"

definition rescue_failure :: "rescue_error \<Rightarrow> failure" where
  "rescue_failure e =
     (case e of Resc_Stage stage \<Rightarrow> Stage_Failure stage (Text_Failure stage)
      | Resc_Dhcp (Dhcp_Rescue stage) \<Rightarrow> Stage_Failure stage (Text_Failure stage)
      | Resc_Http (Http_Rescue stage reason) \<Rightarrow> Stage_Failure stage (Text_Failure reason)
      | Resc_Http (Http_Sink stage) \<Rightarrow> Text_Failure stage)"

definition answers_of ::
  "crypto \<Rightarrow> (bytes \<times> alg_id) list \<Rightarrow> rescue_os \<Rightarrow> rescue_config \<Rightarrow> rescue_error + net_result
     \<Rightarrow> failure + terminal_action option \<Rightarrow> external_answers" where
  "answers_of cr baked os rc net child =
     \<lparr>ex_image_absent = image_absent (open_image os rc),
      ex_signature = (case fst (verify_rescue_image_gated cr baked os rc (open_image os rc)) of
          Gate_Proceed \<Rightarrow> None | Gate_Refuse e \<Rightarrow> Some ''signature''),
      ex_disk = map_err rescue_failure (map_sum id (\<lambda>_. ()) (disk_path cr baked os rc)),
      ex_network = map_err rescue_failure
        (map_sum id (\<lambda>r. case r of Net_Action a \<Rightarrow> Some a | Net_Run _ \<Rightarrow> None) net),
      ex_child = child\<rparr>"

text \<open>What is mounted when the child starts: by the disk path if it succeeds, else by the network.\<close>

definition entered ::
  "crypto \<Rightarrow> (bytes \<times> alg_id) list \<Rightarrow> rescue_os \<Rightarrow> rescue_config \<Rightarrow> rescue_error + net_result
     \<Rightarrow> bytes option option" where
  "entered cr baked os rc net =
     (case disk_path cr baked os rc of
        Inr content \<Rightarrow> Some content
      | Inl _ \<Rightarrow> (case net of Inr (Net_Run img) \<Rightarrow> Some (Some img) | _ \<Rightarrow> None))"

subsection \<open>Which images are entered\<close>

definition rescue_signed :: "crypto \<Rightarrow> (bytes \<times> alg_id) list \<Rightarrow> bytes \<Rightarrow> bool" where
  "rescue_signed cr baked content \<longleftrightarrow>
     (\<exists>sb. blob_signed cr baked (sha512 cr content) sb DOMAIN_RESCUE_SFS)"

definition pinned :: "crypto \<Rightarrow> rescue_config \<Rightarrow> bytes \<Rightarrow> bool" where
  "pinned cr rc content \<longleftrightarrow>
     (\<forall>pin. rc_pin rc = Some pin \<longrightarrow> decode_fixed 64 pin = Some (sha512 cr content))"

definition enforced :: "rescue_config \<Rightarrow> bool" where
  "enforced rc \<longleftrightarrow> sg_enable (rc_signing rc) \<and> sg_enforce (rc_signing rc)"

lemma enforced_policy: "enforced rc \<Longrightarrow> apply_policy (rc_signing rc) r = Gate_Proceed \<longleftrightarrow> (\<exists>u. r = Inr u)"
  by (auto simp: enforced_def apply_policy_def policy_from_config_def split: sum.splits)

lemma gated_digest:
  assumes "verify_rescue_image_gated cr baked os rc img = (decision, known)"
    "img = Inr i" "si_file i = Inr fd"
  shows "(\<forall>d. known = Some d \<longrightarrow> (\<exists>content. fd = Some content \<and> d = sha512 cr content
            \<and> rescue_signed cr baked content))
    \<and> (enforced rc \<longrightarrow> decision = Gate_Proceed \<longrightarrow> known \<noteq> None)"
proof (cases "sg_enable (rc_signing rc)")
  case False
  with assms(1) show ?thesis by (auto simp: verify_rescue_image_gated_def enforced_def)
next
  case True
  let ?r = "verify_rescue_image cr baked os rc img"
  have eq: "decision = apply_policy (rc_signing rc) (map_sum id (\<lambda>_. ()) ?r)" "known = ok ?r"
    using assms(1) True by (simp_all add: verify_rescue_image_gated_def Let_def)
  have "\<exists>content. fd = Some content \<and> d = sha512 cr content \<and> rescue_signed cr baked content"
    if "known = Some d" for d
  proof -
    from that eq(2) have "?r = Inr d" by (auto simp: ok_def split: sum.splits)
    with assms(2,3) show ?thesis
      by (auto simp: verify_rescue_image_def rescue_signed_def dest!: verify_image_fd_InrD)
  qed
  moreover have "known \<noteq> None" if "enforced rc" "decision = Gate_Proceed"
    using that eq enforced_policy [OF that(1)] by (cases ?r) auto
  ultimately show ?thesis by blast
qed

lemma check_pin_pinned:
  assumes "check_pin cr (rc_pin rc) (Some content) known = Inr u"
    "\<forall>d. known = Some d \<longrightarrow> d = sha512 cr content"
  shows "pinned cr rc content"
  using assms by (cases known)
    (auto simp: check_pin_def pinned_def parse_pin_def known_or_digest_def digest_of_def rbind_Inr_iff
      split: option.splits)

lemma prepare_InrD:
  assumes "prepare_disk_rescue cr os rc img known = Inr content"
  shows "\<exists>i. img = Inr i \<and> si_file i = Inr content \<and> check_pin cr (rc_pin rc) content known = Inr ()"
  using assms
  by (auto simp: prepare_disk_rescue_def rbind_Inr_iff mount_image_def)

lemma disk_path_trusted:
  assumes "fst (image_gate cr baked os rc) = Gate_Proceed" "disk_path cr baked os rc = Inr content"
    "enforced rc"
  shows "\<exists>bs. content = Some bs \<and> rescue_signed cr baked bs \<and> pinned cr rc bs"
proof -
  let ?img = "open_image os rc"
  from prepare_InrD [OF assms(2) [unfolded disk_path_def]] obtain i where
    i: "?img = Inr i" "si_file i = Inr content"
      "check_pin cr (rc_pin rc) content (snd (image_gate cr baked os rc)) = Inr ()" by blast
  obtain known where gate: "verify_rescue_image_gated cr baked os rc ?img = (Gate_Proceed, known)"
      "snd (image_gate cr baked os rc) = known"
    using assms(1) i(1,2) by (cases "verify_rescue_image_gated cr baked os rc ?img")
      (auto simp: image_gate_def image_absent_def Let_def)
  note digest = gated_digest [OF gate(1) i(1,2)]
  with assms(3) obtain d where "known = Some d" by auto
  with digest obtain bs where bs: "content = Some bs" "d = sha512 cr bs" "rescue_signed cr baked bs"
    by blast
  have "pinned cr rc bs"
    by (rule check_pin_pinned [of cr rc bs known]) (use i(3) gate(2) bs \<open>known = Some d\<close> in simp_all)
  with bs show ?thesis by blast
qed

definition operator_chose :: "crypto \<Rightarrow> rescue_config \<Rightarrow> net_round \<Rightarrow> bytes \<Rightarrow> bool" where
  "operator_chose cr rc rd content \<longleftrightarrow>
     (\<exists>pin p signed. rc_pin rc = Some pin \<and> decode_fixed 64 pin = Some p
        \<and> nr_unpinned rd p (sha512 cr content) signed = Inr True)"

lemma fatal_Inr [simp]: "fatal r = Inr x \<longleftrightarrow> r = Inr x"
  by (simp add: fatal_def)

lemma verify_download_InrD:
  assumes "verify_download cr baked rc rd url content = Inr known"
  shows "(\<forall>d. known = Some d \<longrightarrow> d = sha512 cr content \<and> rescue_signed cr baked content)
    \<and> (enforced rc \<longrightarrow> known \<noteq> None)"
proof (cases "sg_enable (rc_signing rc)")
  case False
  with assms show ?thesis by (auto simp: verify_download_def enforced_def)
next
  case True
  define result where "result =
    rbind (map_err (\<lambda>_. Sig_Io ''signature url'') (parse_url (url @ sg_suffix (rc_signing rc)))) (\<lambda>sig_url.
    rbind (map_err (\<lambda>_. Sig_Io ''fetch signature'') (fetch_signature rd sig_url)) (\<lambda>sb.
    verify_image_fd_sidecar_bytes cr baked (Some content) sb DOMAIN_RESCUE_SFS (rc_signing rc)))"
  have eq: "known = ok result" "apply_policy (rc_signing rc) (map_sum id (\<lambda>_. ()) result) = Gate_Proceed"
    using assms True unfolding verify_download_def Let_def result_def [symmetric]
    by (auto split: policy_decision.splits)
  have "d = sha512 cr content \<and> rescue_signed cr baked content" if "known = Some d" for d
  proof -
    from that eq(1) have "result = Inr d" by (auto simp: ok_def split: sum.splits)
    then obtain sb where
      "verify_image_fd_sidecar_bytes cr baked (Some content) sb DOMAIN_RESCUE_SFS (rc_signing rc) = Inr d"
      by (auto simp: result_def rbind_Inr_iff)
    then have "verify_digest_sidecar_bytes cr baked (sha512 cr content) sb DOMAIN_RESCUE_SFS (rc_signing rc)
        = Inr ()" "d = sha512 cr content"
      by (auto simp: verify_image_fd_sidecar_bytes_def rbind_Inr_iff)
    moreover from this(1) have "verify_image_fd_digest cr baked (Some content) (Some (Some sb))
        DOMAIN_RESCUE_SFS (rc_signing rc) = Inr (sha512 cr content)"
      by (simp add: verify_image_fd_digest_def)
    ultimately show ?thesis by (auto simp: rescue_signed_def dest!: verify_image_fd_InrD)
  qed
  moreover have "known \<noteq> None" if "enforced rc"
    using eq enforced_policy [OF that] by (cases result) auto
  ultimately show ?thesis by blast
qed

lemma check_stage2_pin_InrD:
  assumes "check_stage2_pin cr rc rd content known = Inr u"
    "\<forall>d. known = Some d \<longrightarrow> d = sha512 cr content"
  shows "pinned cr rc content \<or> operator_chose cr rc rd content"
proof (cases "rc_pin rc")
  case None
  then show ?thesis by (simp add: pinned_def)
next
  case (Some pin)
  with assms(1) obtain p actual where p: "decode_fixed 64 pin = Some p"
      "known_or_digest cr (Some content) known = Inr actual"
      and rest: "actual = p \<or> nr_unpinned rd p actual (known \<noteq> None) = Inr True"
    by (auto simp: check_stage2_pin_def rbind_Inr_iff parse_pin_def split: if_splits)
  have "actual = sha512 cr content"
    using p(2) assms(2) by (cases known) (auto simp: known_or_digest_def digest_of_def)
  with p(1) rest Some show ?thesis unfolding pinned_def operator_chose_def by auto
qed

lemma attempt_trusted:
  assumes "run_network_attempt cr baked c rc rd = Some (Inr content)"
  shows "(enforced rc \<longrightarrow> rescue_signed cr baked content)
    \<and> (pinned cr rc content \<or> operator_chose cr rc rd content)
    \<and> nr_confirm rd (hex_lower (sha256 cr content)) (rc_default_sha256 rc) = Inr Confirmed"
proof -
  obtain leased where leased: "bring_up_and_dhcp c rd = Some leased"
    using assms by (auto simp: run_network_attempt_def split: option.splits)
  obtain lease url_str url body computed known answer where
    dl: "download_to_memfd cr rd url = Inr (body, computed)"
    and sig: "verify_download cr baked rc rd url_str body = Inr known"
    and pin: "check_stage2_pin cr rc rd body known = Inr ()"
    and conf: "nr_confirm rd computed (rc_default_sha256 rc) = Inr answer"
    and fin: "(case answer of Mismatch \<Rightarrow> Inl (Net_Restart ''hash mismatch'')
      | Aborted \<Rightarrow> Inl (Net_Restart ''operator aborted at hash confirmation'')
      | Confirmed \<Rightarrow> fatal (map_sum id (\<lambda>_. body) (mount_image (nr_os rd) (Some body)))) = Inr content"
    using assms leased by (auto simp: run_network_attempt_def rbind_Inr_iff)
  from fin have ans: "answer = Confirmed" "content = body"
    by (cases answer; cases "mount_image (nr_os rd) (Some body)"; auto simp: fatal_def)+
  have "computed = hex_lower (sha256 cr body)"
    using dl by (auto simp: download_to_memfd_def split: if_splits prod.splits sum.splits)
  moreover note verify_download_InrD [OF sig]
  ultimately show ?thesis
    using check_stage2_pin_InrD [OF pin] conf ans by blast
qed

lemma rounds_trusted:
  assumes "network_rounds cr baked c rc rounds reason k = Some (Inr (Net_Run content))"
  shows "\<exists>j. run_network_attempt cr baked c rc (rounds j) = Some (Inr content)"
proof -
  have "\<forall>content. r = Inr (Net_Run content) \<longrightarrow>
      (\<exists>j. run_network_attempt cr baked c rc (rounds j) = Some (Inr content))"
    if "network_rounds cr baked c rc rounds reason k = Some r" for r
  proof (rule network_rounds.raw_induct
      [of "\<lambda>cr baked c rc rounds reason k r. \<forall>content. r = Inr (Net_Run content) \<longrightarrow>
        (\<exists>j. run_network_attempt cr baked c rc (rounds j) = Some (Inr content))", OF _ that], goal_cases)
    case (1 rec cr baked c rc rounds reason k r)
    show ?case
    proof (intro allI impI)
      fix content
      assume r: "r = Inr (Net_Run content)"
      obtain pick where pick: "nr_pick (rounds k) reason = Inr pick" "pick \<noteq> Pick_Reboot" "pick \<noteq> Pick_Halt"
        using 1(2) r by (auto split: sum.splits if_splits)
      obtain res where res: "run_network_attempt cr baked c rc (rounds k) = Some res"
        using 1(2) pick by (auto split: option.splits)
      show "\<exists>j. run_network_attempt cr baked c rc (rounds j) = Some (Inr content)"
      proof (cases res)
        case (Inr img)
        with 1(2) pick res r show ?thesis by auto
      next
        case (Inl e)
        with 1(2) pick res r obtain why where "rec cr baked c rc rounds why (Suc k) = Some r"
          by (cases e) auto
        from 1(1) [OF this] r show ?thesis by blast
      qed
    qed
  qed
  with assms show ?thesis by blast
qed

lemma network_trusted:
  assumes "try_network_rescue cr baked c rc rounds reason = Some (Inr (Net_Run content))" "enforced rc"
  shows "rescue_signed cr baked content
    \<and> (pinned cr rc content \<or> (\<exists>k. operator_chose cr rc (rounds k) content))"
proof -
  from assms(1) obtain j where "run_network_attempt cr baked c rc (rounds j) = Some (Inr content)"
    using rounds_trusted [of cr baked c rc rounds reason 0 content]
    by (auto simp: try_network_rescue_def split: if_splits)
  from attempt_trusted [OF this] assms(2) show ?thesis by blast
qed

subsection \<open>Which images get a shell\<close>

lemma refuse_no_shell:
  assumes "trace (snd (refuse_unsigned_blocking w cfg cause s)) = trace s @ evs"
  shows "Ev_Shell \<notin> set evs"
proof -
  have "quietly s (snd (refuse_unsigned_blocking w cfg cause s))"
    unfolding refuse_unsigned_blocking_def by (rule refuse_quietly)
  with assms show ?thesis by (auto simp: quietly_def)
qed

lemma dispatch_shell_enters:
  assumes "trace (snd (dispatch_external w cfg (answers_of cr baked os rc net child) s)) = trace s @ evs"
    "Ev_Shell \<in> set evs" "sc_rescue_network cfg = rc_network rc"
  shows "fst (image_gate cr baked os rc) = Gate_Proceed"
    "\<exists>content. entered cr baked os rc net = Some content"
proof -
  let ?x = "answers_of cr baked os rc net child"
  have gate: "(if sc_rescue_network cfg \<and> ex_image_absent ?x then None else ex_signature ?x) = None"
  proof (rule ccontr)
    assume "\<not> ?thesis"
    then obtain cause where "(if sc_rescue_network cfg \<and> ex_image_absent ?x then None else ex_signature ?x)
        = Some cause" by auto
    then have "dispatch_external w cfg ?x s = refuse_unsigned_blocking w cfg (Text_Failure cause) s"
      by (simp add: dispatch_external_def)
    with refuse_no_shell [of w cfg "Text_Failure cause" s evs] assms(1,2) show False by simp
  qed
  then show "fst (image_gate cr baked os rc) = Gate_Proceed"
    using assms(3) by (auto simp: image_gate_def answers_of_def Let_def split: if_splits policy_decision.splits)
  show "\<exists>content. entered cr baked os rc net = Some content"
  proof (cases "disk_path cr baked os rc")
    case (Inr content)
    then show ?thesis by (simp add: entered_def)
  next
    case (Inl e)
    then have disk: "ex_disk ?x = Inl (rescue_failure e)" by (simp add: answers_of_def)
    show ?thesis
    proof (cases "\<exists>img. net = Inr (Net_Run img)")
      case False
      then have "trace (snd (dispatch_external w cfg ?x s)) = trace s"
        using gate disk
        by (cases net; cases "projr net")
          (auto simp: dispatch_external_def answers_of_def split: net_result.splits)
      with assms(1,2) show ?thesis by simp
    qed (use Inl in \<open>auto simp: entered_def\<close>)
  qed
qed

text \<open>C10: Only trusted rescue images get a shell. Under an enforcing policy, when the external rescue
  hands the console to the rescue system, what is mounted is an image that is signed for this role by
  a baked key, over the very descriptor that is mounted; and it is the image the boot configuration
  pins, unless it was downloaded and the operator chose, shown both digests, to use another one.\<close>

theorem only_trusted_images_get_a_shell:
  assumes "enforced rc" "sc_rescue_network cfg = rc_network rc"
    and "try_network_rescue cr baked c rc rounds reason = Some net"
    and "trace (snd (dispatch_external w cfg (answers_of cr baked os rc net child) s)) = trace s @ evs"
    and "Ev_Shell \<in> set evs"
  shows "\<exists>content. entered cr baked os rc net = Some (Some content) \<and> rescue_signed cr baked content
    \<and> (pinned cr rc content \<or> (\<exists>k. operator_chose cr rc (rounds k) content))"
proof -
  note gate = dispatch_shell_enters [OF assms(4,5,2)]
  show ?thesis
  proof (cases "disk_path cr baked os rc")
    case (Inr content)
    from disk_path_trusted [OF gate(1) Inr assms(1)] Inr show ?thesis by (auto simp: entered_def)
  next
    case (Inl e)
    with gate(2) obtain img where net: "net = Inr (Net_Run img)"
      by (auto simp: entered_def split: sum.splits net_result.splits)
    with network_trusted [OF assms(3) [unfolded net] assms(1)] Inl show ?thesis
      by (auto simp: entered_def)
  qed
qed

subsection \<open>A signed image on the boot volume\<close>

definition demo_rescue_config :: rescue_config where
  "demo_rescue_config = \<lparr>rc_signing = demo_signing, rc_pin = None, rc_sfs_path = None,
     rc_boot_mp = Some ''/b'', rc_network = False, rc_default_url = [], rc_default_sha256 = []\<rparr>"

definition demo_rescue_os :: rescue_os where
  "demo_rescue_os = \<lparr>ro_open = (\<lambda>p. Inr (Some ''rsc'')),
     ro_read = (\<lambda>p. Some (demo_sidecar DOMAIN_RESCUE_SFS (CHR ''r''))),
     ro_exists = (\<lambda>p. True), ro_loop = Inr (), ro_overlay = True\<rparr>"

lemma demo_open: "open_image demo_rescue_os demo_rescue_config =
  Inr \<lparr>si_path = path_join ''/b'' DEFAULT_SFS_BASENAME, si_file = Inr (Some ''rsc'')\<rparr>"
  by (simp add: open_image_def locate_sfs_def sfs_relative_def demo_rescue_config_def demo_rescue_os_def)

lemma demo_gate: "verify_rescue_image_gated demo_crypto [demo_pair] demo_rescue_os demo_rescue_config
    (open_image demo_rescue_os demo_rescue_config) = (Gate_Proceed, Some ''rsc'')"
proof -
  have "verify_image_fd_digest demo_crypto [demo_pair] (Some ''rsc'')
      (Some (Some (demo_sidecar DOMAIN_RESCUE_SFS (CHR ''r'')))) DOMAIN_RESCUE_SFS demo_signing = Inr ''rsc''"
    using demo_blob_signed [of "CHR ''r''" "''sc''" DOMAIN_RESCUE_SFS demo_signing]
    by (simp add: verify_image_fd_digest_def) (simp add: demo_crypto_def)
  then have "verify_rescue_image demo_crypto [demo_pair] demo_rescue_os demo_rescue_config
      (open_image demo_rescue_os demo_rescue_config) = Inr ''rsc''"
    unfolding demo_open by (simp add: verify_rescue_image_def demo_rescue_os_def demo_rescue_config_def)
  then show ?thesis
    by (simp add: verify_rescue_image_gated_def Let_def apply_policy_def)
      (simp add: demo_rescue_config_def demo_signing_def)
qed

lemma demo_disk_path: "disk_path demo_crypto [demo_pair] demo_rescue_os demo_rescue_config = Inr (Some ''rsc'')"
proof -
  have "snd (image_gate demo_crypto [demo_pair] demo_rescue_os demo_rescue_config) = Some ''rsc''"
    by (simp add: image_gate_def demo_gate Let_def) (simp add: demo_rescue_config_def)
  then show ?thesis
    unfolding disk_path_def demo_open
    by (simp add: prepare_disk_rescue_def mount_image_def check_pin_def demo_rescue_config_def demo_rescue_os_def)
qed

theorem only_trusted_images_get_a_shell_witness:
  "\<forall>rounds :: nat \<Rightarrow> net_round. \<exists>content. entered demo_crypto [demo_pair] demo_rescue_os demo_rescue_config
      (Inl (Resc_Stage ''net-disabled'')) = Some (Some content) \<and> rescue_signed demo_crypto [demo_pair] content
    \<and> (pinned demo_crypto demo_rescue_config content
       \<or> (\<exists>k. operator_chose demo_crypto demo_rescue_config (rounds k) content))"
proof
  fix rounds :: "nat \<Rightarrow> net_round"
  let ?net = "Inl (Resc_Stage ''net-disabled'') :: rescue_error + net_result"
  let ?x = "answers_of demo_crypto [demo_pair] demo_rescue_os demo_rescue_config ?net (Inr None)"
  show "\<exists>content. entered demo_crypto [demo_pair] demo_rescue_os demo_rescue_config ?net = Some (Some content)
    \<and> rescue_signed demo_crypto [demo_pair] content
    \<and> (pinned demo_crypto demo_rescue_config content
       \<or> (\<exists>k. operator_chose demo_crypto demo_rescue_config (rounds k) content))"
  proof (rule only_trusted_images_get_a_shell [where cfg = demo_seal_config and w = "demo_world (\<lambda>_. No_Tpm)"
        and c = demo_codec and reason = "[]" and child = "Inr None" and s = "fresh_state (\<lambda>_. False)"
        and evs = "[Ev_Shell]"])
    show "enforced demo_rescue_config"
      by (simp add: enforced_def demo_rescue_config_def demo_signing_def)
    show "sc_rescue_network demo_seal_config = rc_network demo_rescue_config"
      by (simp add: demo_seal_config_def demo_rescue_config_def)
    show "try_network_rescue demo_crypto [demo_pair] demo_codec demo_rescue_config rounds [] = Some ?net"
      by (simp add: try_network_rescue_def demo_rescue_config_def)
    have "ex_signature ?x = None" "ex_disk ?x = Inr ()" "ex_child ?x = Inr None"
      by (simp_all add: answers_of_def demo_gate demo_disk_path)
    then show "trace (snd (dispatch_external (demo_world (\<lambda>_. No_Tpm)) demo_seal_config ?x
        (fresh_state (\<lambda>_. False)))) = trace (fresh_state (\<lambda>_. False)) @ [Ev_Shell]"
      by (simp add: dispatch_external_def run_chrooted_external_def)
  qed simp
qed

end
