(* ===== verification/Line_Editor.thy ===== *)
theory Line_Editor
  imports Text
begin

text \<open>
  The editor of a single line, \<open>ui/editline/ops.rs\<close> and \<open>ui/editline/mod.rs\<close>, behind the command
  line editor and the passphrase prompt. The code works on the bytes of a UTF-8 string and a byte
  index; what it promises is stated over a line of characters split at the cursor, and the
  translation is shown to refine it for every key.
\<close>

subsection \<open>Keys\<close>

text \<open>What the program reads of a key event of \<open>crossterm\<close>; a character is its scalar value.\<close>

datatype key_code =
    KChar nat | KBackspace | KDelete | KLeft | KRight | KUp | KDown | KHome | KEnd
  | KPageUp | KPageDown | KEnter | KEsc | KOther nat

record key_event =
  ke_code :: key_code
  ke_press :: bool
  ke_ctrl :: bool
  ke_alt :: bool

definition scalar :: "nat \<Rightarrow> bool" where
  "scalar c \<longleftrightarrow> c < 0xD800 \<or> (0xE000 \<le> c \<and> c \<le> 0x10FFFF)"

definition utf8_of :: "nat \<Rightarrow> string" where
  "utf8_of c =
     (if c < 0x80 then [byte c]
      else if c < 0x800 then [byte (0xC0 + c div 64), byte (0x80 + c mod 64)]
      else if c < 0x10000 then
        [byte (0xE0 + c div 4096), byte (0x80 + c div 64 mod 64), byte (0x80 + c mod 64)]
      else [byte (0xF0 + c div 262144), byte (0x80 + c div 4096 mod 64),
        byte (0x80 + c div 64 mod 64), byte (0x80 + c mod 64)])"

definition ascii_lower :: "nat \<Rightarrow> nat" where
  "ascii_lower c = (if 65 \<le> c \<and> c \<le> 90 then c + 32 else c)"

subsection \<open>Boundaries\<close>

definition is_char_boundary :: "string \<Rightarrow> nat \<Rightarrow> bool" where
  "is_char_boundary s i \<longleftrightarrow>
     i = 0 \<or> i = length s \<or> (i < length s \<and> \<not> cont_byte (byte_at s i))"

fun floor_boundary :: "string \<Rightarrow> nat \<Rightarrow> nat" where
  "floor_boundary s 0 = 0"
| "floor_boundary s (Suc i) = (if is_char_boundary s (Suc i) then Suc i else floor_boundary s i)"

function ceil_boundary :: "string \<Rightarrow> nat \<Rightarrow> nat" where
  "ceil_boundary s i =
     (if i < length s \<and> \<not> is_char_boundary s i then ceil_boundary s (Suc i) else i)"
  by auto
termination by (relation "measure (\<lambda>(s, i). length s - i)") auto

declare ceil_boundary.simps [simp del]

definition clamp_to_boundary :: "string \<Rightarrow> nat \<Rightarrow> nat" where
  "clamp_to_boundary s cursor = (if length s \<le> cursor then length s else floor_boundary s cursor)"

definition prev_boundary :: "string \<Rightarrow> nat \<Rightarrow> nat option" where
  "prev_boundary s i = (if i = 0 then None else Some (floor_boundary s (i - 1)))"

definition next_boundary :: "string \<Rightarrow> nat \<Rightarrow> nat option" where
  "next_boundary s i = (if length s \<le> i then None else Some (ceil_boundary s (i + 1)))"

text \<open>The character at an index, as its bytes.\<close>

definition char_at :: "string \<Rightarrow> nat \<Rightarrow> string option" where
  "char_at s i =
     (if is_char_boundary s i \<and> i < length s
      then Some (take (snd (utf8_unit (drop i s))) (drop i s)) else None)"

definition is_whitespace :: "string \<Rightarrow> bool" where
  "is_whitespace u \<longleftrightarrow> u \<in> set ws_seqs"

lemma floor_boundary_le: "floor_boundary s i \<le> i"
  by (induction i) simp_all

subsection \<open>The edits\<close>

definition insert_char :: "string \<Rightarrow> nat \<Rightarrow> nat \<Rightarrow> string \<times> nat" where
  "insert_char buffer cursor c =
     (let at = clamp_to_boundary buffer cursor
      in (take at buffer @ utf8_of c @ drop at buffer, at + length (utf8_of c)))"

definition backspace :: "string \<Rightarrow> nat \<Rightarrow> string \<times> nat" where
  "backspace buffer cursor =
     (let cur = clamp_to_boundary buffer cursor
      in case prev_boundary buffer cur of
           Some prev \<Rightarrow> (take prev buffer @ drop cur buffer, prev)
         | None \<Rightarrow> (buffer, cur))"

definition delete_char :: "string \<Rightarrow> nat \<Rightarrow> string \<times> nat" where
  "delete_char buffer cursor =
     (let cur = clamp_to_boundary buffer cursor
      in case next_boundary buffer cur of
           Some nxt \<Rightarrow> (take cur buffer @ drop nxt buffer, cur)
         | None \<Rightarrow> (buffer, cur))"

definition move_left :: "string \<Rightarrow> nat \<Rightarrow> nat" where
  "move_left buffer cursor =
     (case prev_boundary buffer (clamp_to_boundary buffer cursor) of Some i \<Rightarrow> i | None \<Rightarrow> 0)"

definition move_right :: "string \<Rightarrow> nat \<Rightarrow> nat" where
  "move_right buffer cursor =
     (case next_boundary buffer (clamp_to_boundary buffer cursor) of
        Some i \<Rightarrow> i | None \<Rightarrow> length buffer)"

text \<open>The loops of the word motions, over the characters that satisfy \<open>p\<close>.\<close>

definition char_is :: "(string \<Rightarrow> bool) \<Rightarrow> string \<Rightarrow> nat \<Rightarrow> bool" where
  "char_is p s i \<longleftrightarrow> (case char_at s i of Some u \<Rightarrow> p u | None \<Rightarrow> False)"

function skip_left :: "(string \<Rightarrow> bool) \<Rightarrow> string \<Rightarrow> nat \<Rightarrow> nat" where
  "skip_left p s cur =
     (case prev_boundary s cur of
        Some prev \<Rightarrow> if char_is p s prev then skip_left p s prev else cur
      | None \<Rightarrow> cur)"
  by auto
termination
proof (relation "measure (\<lambda>(p, s, cur). cur)", goal_cases)
  case (2 p s cur prev)
  then show ?case
    using floor_boundary_le [of s "cur - 1"] by (simp add: prev_boundary_def split: if_splits)
qed simp

lemma ceil_boundary_ge: "i \<le> ceil_boundary s i"
proof (induction s i rule: ceil_boundary.induct)
  case (1 s i)
  then show ?case by (subst ceil_boundary.simps) auto
qed

function skip_right :: "(string \<Rightarrow> bool) \<Rightarrow> string \<Rightarrow> nat \<Rightarrow> nat" where
  "skip_right p s cur =
     (if cur < length s \<and> char_is p s cur
      then skip_right p s (case next_boundary s cur of Some i \<Rightarrow> i | None \<Rightarrow> length s) else cur)"
  by auto
termination
proof (relation "measure (\<lambda>(p, s, cur). length s - cur)", goal_cases)
  case (2 p s cur)
  then show ?case using ceil_boundary_ge [of "cur + 1" s] by (simp add: next_boundary_def diff_less_mono2)
qed simp

declare skip_left.simps [simp del] skip_right.simps [simp del]

definition word_left :: "string \<Rightarrow> nat \<Rightarrow> nat" where
  "word_left buffer cursor =
     skip_left (\<lambda>u. \<not> is_whitespace u) buffer
       (skip_left is_whitespace buffer (clamp_to_boundary buffer cursor))"

definition word_right :: "string \<Rightarrow> nat \<Rightarrow> nat" where
  "word_right buffer cursor =
     skip_right is_whitespace buffer
       (skip_right (\<lambda>u. \<not> is_whitespace u) buffer (clamp_to_boundary buffer cursor))"

definition handle_key_on ::
  "string \<Rightarrow> nat \<Rightarrow> key_event \<Rightarrow> bool \<Rightarrow> (string \<times> nat) \<times> bool" where
  "handle_key_on buffer cursor key allow_word_motion =
     (case ke_code key of
        KChar c \<Rightarrow>
          if ke_ctrl key then
            (let l = ascii_lower c in
             if l = 97 then ((buffer, 0), True)
             else if l = 101 then ((buffer, length buffer), True)
             else if l = 100 then (delete_char buffer cursor, True)
             else ((buffer, cursor), False))
          else if ke_alt key then
            (let l = ascii_lower c in
             if l = 98 then ((buffer, if allow_word_motion then word_left buffer cursor
                                      else move_left buffer cursor), True)
             else if l = 102 then ((buffer, if allow_word_motion then word_right buffer cursor
                                            else move_right buffer cursor), True)
             else ((buffer, cursor), False))
          else (insert_char buffer cursor c, True)
      | KBackspace \<Rightarrow> (backspace buffer cursor, True)
      | KDelete \<Rightarrow> (delete_char buffer cursor, True)
      | KLeft \<Rightarrow> ((buffer, if ke_ctrl key \<and> allow_word_motion then word_left buffer cursor
                           else move_left buffer cursor), True)
      | KRight \<Rightarrow> ((buffer, if ke_ctrl key \<and> allow_word_motion then word_right buffer cursor
                            else move_right buffer cursor), True)
      | KHome \<Rightarrow> ((buffer, 0), True)
      | KEnd \<Rightarrow> ((buffer, length buffer), True)
      | _ \<Rightarrow> ((buffer, cursor), False))"

text \<open>\<open>EditableLine\<close>: the owned line of the command line editor.\<close>

record editable_line =
  el_buffer :: string
  el_cursor :: nat

definition with_text :: "string \<Rightarrow> editable_line" where
  "with_text t = \<lparr>el_buffer = t, el_cursor = length t\<rparr>"

definition line_handle_key :: "editable_line \<Rightarrow> key_event \<Rightarrow> editable_line \<times> bool" where
  "line_handle_key l key =
     (case handle_key_on (el_buffer l) (el_cursor l) key True of
        ((b, c), handled) \<Rightarrow> (\<lparr>el_buffer = b, el_cursor = c\<rparr>, handled))"

subsection \<open>Characters in their bytes\<close>

definition is_unit :: "string \<Rightarrow> bool" where
  "is_unit u \<longleftrightarrow> u \<noteq> [] \<and> utf8_unit u = (True, length u)"

lemma byte_at_append: "i < length u \<Longrightarrow> byte_at (u @ s) i = byte_at u i"
  by (simp add: byte_at_def nth_append)

lemma byte_at_skip: "byte_at (pre @ s) (length pre + i) = byte_at s i"
  by (simp add: byte_at_def)

lemma is_unit_cases:
  assumes "is_unit u"
  obtains "length u = 1" "byte_at u 0 < 128"
  | "length u = 2" "0xC2 \<le> byte_at u 0" "byte_at u 0 \<le> 0xDF" "cont_byte (byte_at u 1)"
  | "length u = 3" "0xE0 \<le> byte_at u 0" "byte_at u 0 \<le> 0xEF" "second_of_3 (byte_at u 0) (byte_at u 1)"
      "cont_byte (byte_at u 2)"
  | "length u = 4" "0xF0 \<le> byte_at u 0" "byte_at u 0 \<le> 0xF4" "second_of_4 (byte_at u 0) (byte_at u 1)"
      "cont_byte (byte_at u 2)" "cont_byte (byte_at u 3)"
proof -
  from assms have u: "utf8_unit u = (True, length u)" by (simp add: is_unit_def)
  show thesis
    using u that unfolding utf8_unit_def Let_def by (simp split: if_splits)
qed

lemma second_cont: "second_of_3 a b \<Longrightarrow> cont_byte b" "second_of_4 a b \<Longrightarrow> cont_byte b"
  by (auto simp: second_of_3_def second_of_4_def cont_byte_def split: if_splits)

lemma unit_length: "is_unit u \<Longrightarrow> 0 < length u" by (simp add: is_unit_def)

lemma unit_head: "is_unit u \<Longrightarrow> \<not> cont_byte (byte_at u 0)"
  by (erule is_unit_cases) (simp_all add: cont_byte_def)

lemma unit_tail:
  assumes "is_unit u" "0 < j" "j < length u"
  shows "cont_byte (byte_at u j)"
proof -
  from assms have "j = 1 \<or> j = 2 \<or> j = 3" by (auto elim: is_unit_cases)
  with assms(1,3) show ?thesis
    by (elim is_unit_cases) (auto simp: second_cont)
qed

lemma unit_append: "is_unit u \<Longrightarrow> utf8_unit (u @ s) = (True, length u)"
  by (erule is_unit_cases) (simp_all add: utf8_unit_def Let_def byte_at_append)

abbreviation units :: "string list \<Rightarrow> bool" where
  "units us \<equiv> list_all is_unit us"

lemma units_valid: "units us \<Longrightarrow> valid_utf8 (concat us)"
proof (induction us)
  case Nil
  then show ?case by (simp add: valid_utf8.simps [of "[]"])
next
  case (Cons u us)
  then show ?case
    using unit_append [of u "concat us"] unit_length [of u]
    by (simp add: valid_utf8.simps [of "u @ concat us"])
qed

lemma boundary_between: "units vs \<Longrightarrow> is_char_boundary (pre @ concat vs) (length pre)"
proof (cases vs)
  case (Cons v ws)
  assume "units vs"
  with Cons have "is_unit v" by simp
  then show ?thesis
    using Cons unit_head [of v] unit_length [of v] byte_at_skip [of pre "concat vs" 0]
    by (simp add: is_char_boundary_def byte_at_append)
qed (simp add: is_char_boundary_def)

lemma no_boundary_inside:
  assumes "is_unit u" "0 < j" "j < length u"
  shows "\<not> is_char_boundary (pre @ u @ s) (length pre + j)"
proof -
  have "byte_at (pre @ u @ s) (length pre + j) = byte_at u j"
    using byte_at_skip [of pre "u @ s" j] assms(3) by (simp add: byte_at_append)
  then show ?thesis using unit_tail [OF assms] assms by (simp add: is_char_boundary_def)
qed

lemma floor_inside:
  assumes "units us" "is_unit u" "units vs" "j < length u"
  shows "floor_boundary (concat us @ u @ concat vs) (length (concat us) + j) = length (concat us)"
  using assms(4)
proof (induction j)
  case 0
  have "is_char_boundary (concat us @ u @ concat vs) (length (concat us))"
    using boundary_between [of "u # vs" "concat us"] assms by simp
  then show ?case by (cases "length (concat us)") (simp_all only: floor_boundary.simps add_0_right if_True)
next
  case (Suc j)
  have "\<not> is_char_boundary (concat us @ u @ concat vs) (length (concat us) + Suc j)"
    by (rule no_boundary_inside [OF assms(2)]) (use Suc.prems in simp_all)
  then show ?case using Suc by (simp only: add_Suc_right floor_boundary.simps if_False)
qed

lemma floor_at:
  assumes "units us" "units vs"
  shows "floor_boundary (concat us @ concat vs) (length (concat us)) = length (concat us)"
proof -
  have "is_char_boundary (concat us @ concat vs) (length (concat us))"
    by (rule boundary_between [OF assms(2)])
  then show ?thesis by (cases "length (concat us)") (simp_all only: floor_boundary.simps if_True)
qed

lemma ceil_inside:
  assumes "is_unit u" "units vs" "0 < j" "j \<le> length u"
  shows "ceil_boundary (pre @ u @ concat vs) (length pre + j) = length pre + length u"
  using assms(3,4)
proof (induction "length u - j" arbitrary: j)
  case 0
  then have "j = length u" by simp
  moreover have "is_char_boundary (pre @ u @ concat vs) (length pre + length u)"
    using boundary_between [OF assms(2), of "pre @ u"] by simp
  ultimately show ?case by (simp add: ceil_boundary.simps)
next
  case (Suc n)
  then have "\<not> is_char_boundary (pre @ u @ concat vs) (length pre + j)"
    by (intro no_boundary_inside [OF assms(1)]) simp_all
  moreover have "ceil_boundary (pre @ u @ concat vs) (length pre + Suc j) = length pre + length u"
    using Suc.hyps(2) Suc.prems by (intro Suc.hyps(1)) simp_all
  ultimately show ?case using Suc by (subst ceil_boundary.simps) simp
qed

subsection \<open>The line the operator sees\<close>

text \<open>A line is the characters before the cursor, nearest first, and those after it.\<close>

type_synonym zline = "string list \<times> string list"

definition buffer_of :: "zline \<Rightarrow> string" where
  "buffer_of z = concat (rev (fst z)) @ concat (snd z)"

definition cursor_of :: "zline \<Rightarrow> nat" where
  "cursor_of z = length (concat (rev (fst z)))"

definition zline_ok :: "zline \<Rightarrow> bool" where
  "zline_ok z \<longleftrightarrow> units (fst z) \<and> units (snd z)"

definition shift_left :: "(string \<Rightarrow> bool) \<Rightarrow> zline \<Rightarrow> zline" where
  "shift_left p z = (dropWhile p (fst z), rev (takeWhile p (fst z)) @ snd z)"

definition shift_right :: "(string \<Rightarrow> bool) \<Rightarrow> zline \<Rightarrow> zline" where
  "shift_right p z = (rev (takeWhile p (snd z)) @ fst z, dropWhile p (snd z))"

fun one_left :: "zline \<Rightarrow> zline" where
  "one_left (u # ls, rs) = (ls, u # rs)"
| "one_left ([], rs) = ([], rs)"

fun one_right :: "zline \<Rightarrow> zline" where
  "one_right (ls, u # rs) = (u # ls, rs)"
| "one_right (ls, []) = (ls, [])"

definition word_back :: "zline \<Rightarrow> zline" where
  "word_back z = shift_left (\<lambda>u. \<not> is_whitespace u) (shift_left is_whitespace z)"

definition word_forward :: "zline \<Rightarrow> zline" where
  "word_forward z = shift_right is_whitespace (shift_right (\<lambda>u. \<not> is_whitespace u) z)"

definition go_home :: "zline \<Rightarrow> zline" where
  "go_home z = ([], rev (fst z) @ snd z)"

definition go_end :: "zline \<Rightarrow> zline" where
  "go_end z = (rev (snd z) @ fst z, [])"

definition edit_line :: "key_event \<Rightarrow> bool \<Rightarrow> zline \<Rightarrow> zline" where
  "edit_line key words z =
     (case ke_code key of
        KChar c \<Rightarrow>
          if ke_ctrl key then
            (if ascii_lower c = 97 then go_home z
             else if ascii_lower c = 101 then go_end z
             else if ascii_lower c = 100 then (fst z, drop 1 (snd z))
             else z)
          else if ke_alt key then
            (if ascii_lower c = 98 then (if words then word_back z else one_left z)
             else if ascii_lower c = 102 then (if words then word_forward z else one_right z)
             else z)
          else (utf8_of c # fst z, snd z)
      | KBackspace \<Rightarrow> (drop 1 (fst z), snd z)
      | KDelete \<Rightarrow> (fst z, drop 1 (snd z))
      | KLeft \<Rightarrow> if ke_ctrl key \<and> words then word_back z else one_left z
      | KRight \<Rightarrow> if ke_ctrl key \<and> words then word_forward z else one_right z
      | KHome \<Rightarrow> go_home z
      | KEnd \<Rightarrow> go_end z
      | _ \<Rightarrow> z)"

text \<open>Where the cursor stands, and what is next to it.\<close>

lemma clamp_at: "zline_ok z \<Longrightarrow> clamp_to_boundary (buffer_of z) (cursor_of z) = cursor_of z"
  using floor_at [of "rev (fst z)" "snd z"]
  by (simp add: clamp_to_boundary_def buffer_of_def cursor_of_def zline_ok_def)

lemma cursor_le: "cursor_of z \<le> length (buffer_of z)"
  by (simp add: cursor_of_def buffer_of_def)

lemma split_buffer: "take (cursor_of z) (buffer_of z) = concat (rev (fst z))"
  "drop (cursor_of z) (buffer_of z) = concat (snd z)"
  by (simp_all add: cursor_of_def buffer_of_def)

lemma prev_left:
  assumes "zline_ok (u # ls, rs)"
  shows "prev_boundary (buffer_of (u # ls, rs)) (cursor_of (u # ls, rs)) = Some (cursor_of (ls, u # rs))"
proof -
  from assms have u: "is_unit u" "units (rev ls)" "units rs" by (simp_all add: zline_ok_def)
  have "floor_boundary (concat (rev ls) @ u @ concat rs) (length (concat (rev ls)) + (length u - 1)) =
      length (concat (rev ls))"
    using unit_length [OF u(1)] by (intro floor_inside u) simp
  then show ?thesis
    using unit_length [OF u(1)] by (simp add: prev_boundary_def buffer_of_def cursor_of_def)
qed

lemma prev_none: "prev_boundary (buffer_of ([], rs)) (cursor_of ([], rs)) = None"
  by (simp add: prev_boundary_def cursor_of_def)

lemma next_right:
  assumes "zline_ok (ls, u # rs)"
  shows "next_boundary (buffer_of (ls, u # rs)) (cursor_of (ls, u # rs)) = Some (cursor_of (u # ls, rs))"
proof -
  from assms have u: "is_unit u" "units rs" by (simp_all add: zline_ok_def)
  have "ceil_boundary (concat (rev ls) @ u @ concat rs) (length (concat (rev ls)) + 1) =
      length (concat (rev ls)) + length u"
    using unit_length [OF u(1)] by (intro ceil_inside u) (simp_all add: Suc_le_eq)
  then show ?thesis
    using unit_length [OF u(1)] by (simp add: next_boundary_def buffer_of_def cursor_of_def)
qed

lemma next_none: "next_boundary (buffer_of (ls, [])) (cursor_of (ls, [])) = None"
  by (simp add: next_boundary_def cursor_of_def buffer_of_def)

lemma char_right:
  assumes "zline_ok (ls, u # rs)"
  shows "char_at (buffer_of (ls, u # rs)) (cursor_of (ls, u # rs)) = Some u"
proof -
  from assms have u: "is_unit u" "units (u # rs)" by (simp_all add: zline_ok_def)
  have "is_char_boundary (concat (rev ls) @ concat (u # rs)) (length (concat (rev ls)))"
    by (rule boundary_between [OF u(2)])
  then show ?thesis
    using unit_append [OF u(1), of "concat rs"] unit_length [OF u(1)]
    by (simp add: char_at_def buffer_of_def cursor_of_def)
qed

text \<open>The buffer does not change when a character passes the cursor.\<close>

lemma buffer_pass: "buffer_of (u # ls, rs) = buffer_of (ls, u # rs)"
  by (simp add: buffer_of_def)

lemma ok_pass: "zline_ok (u # ls, rs) \<longleftrightarrow> zline_ok (ls, u # rs)"
  by (auto simp: zline_ok_def)

lemma prev_pass:
  "zline_ok (ls, u # rs) \<Longrightarrow>
     prev_boundary (buffer_of (ls, u # rs)) (cursor_of (u # ls, rs)) = Some (cursor_of (ls, u # rs))"
  using prev_left [of u ls rs] by (simp add: buffer_pass ok_pass)

lemma cursor_ends: "cursor_of ([], rs) = 0" "length (buffer_of (ls, [])) = cursor_of (ls, [])"
  by (simp_all add: cursor_of_def buffer_of_def)

subsection \<open>The code refines it\<close>

lemma shift_left_step:
  "shift_left p (u # ls, rs) = (if p u then shift_left p (ls, u # rs) else (u # ls, rs))"
  "shift_left p ([], rs) = ([], rs)"
  by (simp_all add: shift_left_def)

lemma shift_right_step:
  "shift_right p (ls, u # rs) = (if p u then shift_right p (u # ls, rs) else (ls, u # rs))"
  "shift_right p (ls, []) = (ls, [])"
  by (simp_all add: shift_right_def)

lemma skip_left_shift:
  "zline_ok (ls, rs) \<Longrightarrow>
     skip_left p (buffer_of (ls, rs)) (cursor_of (ls, rs)) = cursor_of (shift_left p (ls, rs))
     \<and> buffer_of (shift_left p (ls, rs)) = buffer_of (ls, rs) \<and> zline_ok (shift_left p (ls, rs))"
proof (induction ls arbitrary: rs)
  case Nil
  then show ?case by (subst skip_left.simps) (simp add: prev_none shift_left_step)
next
  case (Cons u ls)
  then have ok: "zline_ok (ls, u # rs)" by (simp add: ok_pass)
  have at: "char_is p (buffer_of (u # ls, rs)) (cursor_of (ls, u # rs)) = p u"
    using char_right [OF ok] by (simp add: char_is_def buffer_pass)
  show ?case
    using Cons.IH [OF ok] prev_left [OF Cons.prems] Cons.prems at
    by (subst skip_left.simps) (simp add: shift_left_step buffer_pass)
qed

lemma skip_right_shift:
  "zline_ok (ls, rs) \<Longrightarrow>
     skip_right p (buffer_of (ls, rs)) (cursor_of (ls, rs)) = cursor_of (shift_right p (ls, rs))
     \<and> buffer_of (shift_right p (ls, rs)) = buffer_of (ls, rs) \<and> zline_ok (shift_right p (ls, rs))"
proof (induction rs arbitrary: ls)
  case Nil
  then show ?case
    by (subst skip_right.simps) (simp add: shift_right_step cursor_of_def buffer_of_def)
next
  case (Cons u rs)
  then have ok: "zline_ok (u # ls, rs)" by (simp add: ok_pass)
  have "is_unit u" using Cons.prems by (simp add: zline_ok_def)
  then have lt: "cursor_of (ls, u # rs) < length (buffer_of (ls, u # rs))"
    using unit_length [of u] by (simp add: cursor_of_def buffer_of_def)
  have at: "char_is p (buffer_of (ls, u # rs)) (cursor_of (ls, u # rs)) = p u"
    using char_right [OF Cons.prems] by (simp add: char_is_def)
  show ?case
    using Cons.IH [OF ok] next_right [OF Cons.prems] Cons.prems at lt
    by (subst skip_right.simps) (simp add: shift_right_step buffer_pass)
qed

lemma word_back_refines:
  "zline_ok z \<Longrightarrow> word_left (buffer_of z) (cursor_of z) = cursor_of (word_back z)
     \<and> buffer_of (word_back z) = buffer_of z \<and> zline_ok (word_back z)"
  using skip_left_shift [of "fst z" "snd z" is_whitespace]
    skip_left_shift [of "fst (shift_left is_whitespace z)" "snd (shift_left is_whitespace z)"]
  by (simp add: word_left_def word_back_def clamp_at)

lemma word_forward_refines:
  "zline_ok z \<Longrightarrow> word_right (buffer_of z) (cursor_of z) = cursor_of (word_forward z)
     \<and> buffer_of (word_forward z) = buffer_of z \<and> zline_ok (word_forward z)"
  using skip_right_shift [of "fst z" "snd z" "\<lambda>u. \<not> is_whitespace u"]
    skip_right_shift [of "fst (shift_right (\<lambda>u. \<not> is_whitespace u) z)"
      "snd (shift_right (\<lambda>u. \<not> is_whitespace u) z)"]
  by (simp add: word_right_def word_forward_def clamp_at)

lemma one_left_refines:
  "zline_ok z \<Longrightarrow> move_left (buffer_of z) (cursor_of z) = cursor_of (one_left z)
     \<and> buffer_of (one_left z) = buffer_of z \<and> zline_ok (one_left z)"
  using clamp_at [of z] prev_none [of "snd z"]
  by (cases z rule: one_left.cases) (auto simp: move_left_def prev_pass buffer_pass ok_pass cursor_ends)

lemma one_right_refines:
  "zline_ok z \<Longrightarrow> move_right (buffer_of z) (cursor_of z) = cursor_of (one_right z)
     \<and> buffer_of (one_right z) = buffer_of z \<and> zline_ok (one_right z)"
  using clamp_at [of z] next_none [of "fst z"]
  by (cases z rule: one_right.cases) (auto simp: move_right_def next_right buffer_pass ok_pass cursor_ends)

definition represents :: "string \<times> nat \<Rightarrow> zline \<Rightarrow> bool" where
  "represents bc z \<longleftrightarrow> zline_ok z \<and> bc = (buffer_of z, cursor_of z)"

lemma home_refines: "zline_ok z \<Longrightarrow> represents (buffer_of z, 0) (go_home z)"
  by (simp add: represents_def go_home_def zline_ok_def buffer_of_def cursor_of_def)

lemma end_refines: "zline_ok z \<Longrightarrow> represents (buffer_of z, length (buffer_of z)) (go_end z)"
  by (simp add: represents_def go_end_def zline_ok_def buffer_of_def cursor_of_def)

lemma backspace_refines:
  assumes "zline_ok z"
  shows "represents (backspace (buffer_of z) (cursor_of z)) (drop 1 (fst z), snd z)"
proof (cases "fst z")
  case Nil
  then have z: "z = ([], snd z)" by (metis prod.collapse)
  show ?thesis
    using assms clamp_at [OF assms] prev_none [of "snd z"] Nil
    by (simp add: backspace_def represents_def flip: z)
next
  case (Cons u ls)
  then have z: "z = (u # ls, snd z)" by (metis prod.collapse)
  have "prev_boundary (buffer_of z) (cursor_of z) = Some (cursor_of (ls, u # snd z))"
    using prev_left [of u ls "snd z"] assms by (simp flip: z)
  moreover have "take (cursor_of (ls, u # snd z)) (buffer_of z) = concat (rev ls)"
    using split_buffer(1) [of "(ls, u # snd z)"] by (subst z) (simp add: buffer_pass)
  ultimately show ?thesis
    using assms clamp_at [OF assms] split_buffer(2) [of z] Cons
    by (simp add: backspace_def represents_def zline_ok_def buffer_of_def cursor_of_def)
qed

lemma delete_refines:
  assumes "zline_ok z"
  shows "represents (delete_char (buffer_of z) (cursor_of z)) (fst z, drop 1 (snd z))"
proof (cases "snd z")
  case Nil
  then have z: "z = (fst z, [])" by (metis prod.collapse)
  show ?thesis
    using assms clamp_at [OF assms] next_none [of "fst z"] Nil
    by (simp add: delete_char_def represents_def flip: z)
next
  case (Cons u rs)
  then have z: "z = (fst z, u # rs)" by (metis prod.collapse)
  have "next_boundary (buffer_of z) (cursor_of z) = Some (cursor_of (u # fst z, rs))"
    using next_right [of "fst z" u rs] assms by (simp flip: z)
  moreover have "drop (cursor_of (u # fst z, rs)) (buffer_of z) = concat rs"
    using split_buffer(2) [of "(u # fst z, rs)"] by (subst z) (simp add: buffer_pass)
  ultimately show ?thesis
    using assms clamp_at [OF assms] split_buffer(1) [of z] Cons
    by (simp add: delete_char_def represents_def zline_ok_def buffer_of_def cursor_of_def)
qed

lemma utf8_of_unit:
  assumes "scalar c"
  shows "is_unit (utf8_of c)"
proof -
  consider (one) "c < 0x80" | (two) "0x80 \<le> c" "c < 0x800" | (three) "0x800 \<le> c" "c < 0x10000"
    | (four) "0x10000 \<le> c" "c \<le> 0x10FFFF"
    using assms by (force simp: scalar_def)
  then show ?thesis
  proof cases
    case one
    then show ?thesis by (simp add: utf8_of_def is_unit_def utf8_unit_def byte_at_def)
  next
    case two
    have "c div 64 \<le> 31" "2 \<le> c div 64" "c mod 64 \<le> 63" using two by simp_all
    then show ?thesis
      using two by (simp add: utf8_of_def is_unit_def utf8_unit_def byte_at_def cont_byte_def Let_def)
  next
    case three
    define a b d where "a = c div 4096" and "b = c div 64 mod 64" and "d = c mod 64"
    have c: "c = 4096 * a + 64 * b + d"
      using div_mult_mod_eq [of c 64] div_mult_mod_eq [of "c div 64" 64]
        div_mult2_eq [of c 64 64, simplified]
      unfolding a_def b_def d_def by linarith
    have "b \<le> 63" "d \<le> 63" "a \<le> 15" using three by (simp_all add: a_def b_def d_def)
    moreover from this c three have "a = 0 \<longrightarrow> 32 \<le> b" by arith
    moreover from \<open>b \<le> 63\<close> \<open>d \<le> 63\<close> c three assms have "a = 13 \<longrightarrow> b \<le> 31"
      unfolding scalar_def by arith
    moreover have "utf8_of c = [byte (0xE0 + a), byte (0x80 + b), byte (0x80 + d)]"
      using three by (simp add: utf8_of_def a_def b_def d_def)
    ultimately show ?thesis
      by (auto simp: is_unit_def utf8_unit_def byte_at_def cont_byte_def second_of_3_def Let_def)
  next
    case four
    define a b d e where "a = c div 262144" and "b = c div 4096 mod 64" and "d = c div 64 mod 64"
      and "e = c mod 64"
    have c: "c = 262144 * a + 4096 * b + 64 * d + e"
      using div_mult_mod_eq [of c 64] div_mult_mod_eq [of "c div 64" 64]
        div_mult_mod_eq [of "c div 4096" 64] div_mult2_eq [of c 64 64, simplified]
        div_mult2_eq [of c 4096 64, simplified]
      unfolding a_def b_def d_def e_def by linarith
    have "b \<le> 63" "d \<le> 63" "e \<le> 63" using four by (simp_all add: b_def d_def e_def)
    moreover from this c four have "a \<le> 4" "a = 0 \<longrightarrow> 16 \<le> b" "a = 4 \<longrightarrow> b \<le> 15" by arith+
    moreover have "utf8_of c = [byte (0xF0 + a), byte (0x80 + b), byte (0x80 + d), byte (0x80 + e)]"
      using four by (simp add: utf8_of_def a_def b_def d_def e_def)
    ultimately show ?thesis
      by (auto simp: is_unit_def utf8_unit_def byte_at_def cont_byte_def second_of_4_def Let_def)
  qed
qed

definition key_ok :: "key_event \<Rightarrow> bool" where
  "key_ok key \<longleftrightarrow> (case ke_code key of KChar c \<Rightarrow> scalar c | _ \<Rightarrow> True)"

lemma insert_refines:
  assumes "zline_ok z" "scalar c"
  shows "represents (insert_char (buffer_of z) (cursor_of z) c) (utf8_of c # fst z, snd z)"
  using assms clamp_at [OF assms(1)] split_buffer [of z] utf8_of_unit [OF assms(2)]
  by (simp add: insert_char_def represents_def zline_ok_def buffer_of_def cursor_of_def)

lemma moved: "zline_ok z \<Longrightarrow> i = cursor_of z' \<and> buffer_of z' = buffer_of z \<and> zline_ok z'
    \<Longrightarrow> represents (buffer_of z, i) z'"
  by (simp add: represents_def)

lemma edit_refines:
  assumes z: "zline_ok z" and key: "key_ok key"
  shows "represents (fst (handle_key_on (buffer_of z) (cursor_of z) key words)) (edit_line key words z)"
proof -
  have stay: "represents (buffer_of z, cursor_of z) z" using z by (simp add: represents_def)
  note moves = moved [OF z word_back_refines [OF z]] moved [OF z word_forward_refines [OF z]]
    moved [OF z one_left_refines [OF z]] moved [OF z one_right_refines [OF z]]
  show ?thesis
  proof (cases "ke_code key")
    case (KChar c)
    then have "scalar c" using key by (simp add: key_ok_def)
    with KChar show ?thesis
      by (simp add: handle_key_on_def edit_line_def Let_def stay moves insert_refines [OF z]
          home_refines [OF z] end_refines [OF z] delete_refines [OF z, simplified])
  qed (simp_all add: handle_key_on_def edit_line_def stay moves home_refines [OF z] end_refines [OF z]
      backspace_refines [OF z, simplified] delete_refines [OF z, simplified])
qed

text \<open>C27: The editor over bytes is an editor over characters. On a buffer and a cursor that hold a
  line of characters split at the cursor, every key does to the bytes what it does to that line:
  insertion, deletion and motion by character and by word. So the buffer stays valid UTF-8 and the
  cursor on the boundary of a character, where the string operations of the code do not panic.\<close>

theorem editor_refines_the_line:
  assumes "zline_ok z" "key_ok key"
  shows "\<exists>buffer' cursor' handled.
    handle_key_on (buffer_of z) (cursor_of z) key words = ((buffer', cursor'), handled)
    \<and> zline_ok (edit_line key words z)
    \<and> buffer' = buffer_of (edit_line key words z) \<and> cursor' = cursor_of (edit_line key words z)
    \<and> valid_utf8 buffer' \<and> is_char_boundary buffer' cursor'"
proof -
  define z' where "z' = edit_line key words z"
  have rep: "represents (fst (handle_key_on (buffer_of z) (cursor_of z) key words)) z'"
    unfolding z'_def by (rule edit_refines [OF assms])
  then have ok: "zline_ok z'" by (simp add: represents_def)
  then have "valid_utf8 (buffer_of z')"
    using units_valid [of "rev (fst z') @ snd z'"] by (simp add: buffer_of_def zline_ok_def)
  moreover have "is_char_boundary (buffer_of z') (cursor_of z')"
    using boundary_between [of "snd z'" "concat (rev (fst z'))"] ok
    by (simp add: buffer_of_def cursor_of_def zline_ok_def)
  ultimately show ?thesis
    using rep ok unfolding z'_def [symmetric] represents_def
    by (cases "handle_key_on (buffer_of z) (cursor_of z) key words") auto
qed

text \<open>The cursor stands after \<open>h\<close>, before a two-byte letter: Delete takes both bytes.\<close>

theorem editor_refines_the_line_witness:
  "\<exists>buffer' cursor' handled.
    handle_key_on (''h'' @ utf8_of 233 @ ''l'') 1 \<lparr>ke_code = KDelete, ke_press = True, ke_ctrl = False,
      ke_alt = False\<rparr> True = ((buffer', cursor'), handled)
    \<and> buffer' = ''hl'' \<and> cursor' = 1 \<and> valid_utf8 buffer'"
proof -
  define z :: zline where "z = ([''h''], [utf8_of 233, ''l''])"
  define key where "key = \<lparr>ke_code = KDelete, ke_press = True, ke_ctrl = False, ke_alt = False\<rparr>"
  have "is_unit (utf8_of 233)" by (rule utf8_of_unit) (simp add: scalar_def)
  moreover have "is_unit ''h''" "is_unit ''l''"
    by (simp_all add: is_unit_def utf8_unit_def byte_at_def ord_def)
  ultimately have "zline_ok z" "key_ok key" by (simp_all add: zline_ok_def z_def key_ok_def key_def)
  from editor_refines_the_line [OF this, of True] show ?thesis
    unfolding key_def [symmetric]
    by (elim exE conjE) (simp add: z_def buffer_of_def cursor_of_def edit_line_def key_def)
qed

subsection \<open>The masked line\<close>

definition columns :: "zline \<Rightarrow> nat \<times> nat" where
  "columns z = (length (fst z), length (snd z))"

lemma columns_one:
  "columns (one_left z) = (if fst (columns z) = 0 then columns z else (fst (columns z) - 1, snd (columns z) + 1))"
  "columns (one_right z) = (if snd (columns z) = 0 then columns z else (fst (columns z) + 1, snd (columns z) - 1))"
  by (cases z rule: one_left.cases; simp add: columns_def) (cases z rule: one_right.cases; simp add: columns_def)

lemma columns_edit:
  "columns (edit_line key False z) =
     (case ke_code key of
        KChar c \<Rightarrow>
          if ke_ctrl key then
            (if ascii_lower c = 97 then (0, fst (columns z) + snd (columns z))
             else if ascii_lower c = 101 then (fst (columns z) + snd (columns z), 0)
             else if ascii_lower c = 100 then (fst (columns z), snd (columns z) - 1)
             else columns z)
          else if ke_alt key then
            (if ascii_lower c = 98 then
               (if fst (columns z) = 0 then columns z else (fst (columns z) - 1, snd (columns z) + 1))
             else if ascii_lower c = 102 then
               (if snd (columns z) = 0 then columns z else (fst (columns z) + 1, snd (columns z) - 1))
             else columns z)
          else (fst (columns z) + 1, snd (columns z))
      | KBackspace \<Rightarrow> (fst (columns z) - 1, snd (columns z))
      | KDelete \<Rightarrow> (fst (columns z), snd (columns z) - 1)
      | KLeft \<Rightarrow> (if fst (columns z) = 0 then columns z else (fst (columns z) - 1, snd (columns z) + 1))
      | KRight \<Rightarrow> (if snd (columns z) = 0 then columns z else (fst (columns z) + 1, snd (columns z) - 1))
      | KHome \<Rightarrow> (0, fst (columns z) + snd (columns z))
      | KEnd \<Rightarrow> (fst (columns z) + snd (columns z), 0)
      | _ \<Rightarrow> columns z)"
  by (cases "ke_code key")
    (simp_all add: edit_line_def columns_one, simp_all add: columns_def go_home_def go_end_def)

text \<open>What the passphrase prompt shows: \<open>screen_render.rs\<close> passes the length of the buffer and the
  column of the cursor, \<open>view/modals.rs\<close> draws the asterisks.\<close>

definition char_count :: "string \<Rightarrow> nat" where
  "char_count s = length (filter (\<lambda>c. \<not> cont_byte (ord c)) s)"

definition char_column_for_byte_cursor :: "string \<Rightarrow> nat \<Rightarrow> nat" where
  "char_column_for_byte_cursor s i = char_count (take (floor_boundary s (min i (length s))) s)"

definition mask_text :: "nat \<Rightarrow> nat \<Rightarrow> string" where
  "mask_text buffer_len cursor_column =
     (let visible = min buffer_len 40; caret_at = min cursor_column visible
      in replicate caret_at (CHR ''*'') @ ''|'' @ replicate (visible - caret_at) (CHR ''*''))"

definition masked_line :: "string \<Rightarrow> nat \<Rightarrow> string" where
  "masked_line buffer cursor = mask_text (length buffer) (char_column_for_byte_cursor buffer cursor)"

definition type_masked :: "key_event list \<Rightarrow> string \<times> nat \<Rightarrow> string \<times> nat" where
  "type_masked keys bc = foldl (\<lambda>(b, c) key. fst (handle_key_on b c key False)) bc keys"

lemma unit_count: "is_unit u \<Longrightarrow> char_count u = 1"
proof -
  assume u: "is_unit u"
  then obtain c t where ct: "u = c # t" by (cases u) (auto simp: is_unit_def)
  have "\<not> cont_byte (ord c)" using unit_head [OF u] ct by (simp add: byte_at_def)
  moreover have "cont_byte (ord d)" if "d \<in> set t" for d
  proof -
    from that obtain j where "j < length t" "d = t ! j" by (auto simp: in_set_conv_nth)
    then show ?thesis using unit_tail [OF u, of "Suc j"] ct by (simp add: byte_at_def)
  qed
  ultimately show ?thesis using ct by (simp add: char_count_def)
qed

lemma char_count_append: "char_count (s @ t) = char_count s + char_count t"
  by (simp add: char_count_def)

lemma units_count: "units us \<Longrightarrow> char_count (concat us) = length us"
  by (induction us) (simp_all add: char_count_append unit_count, simp add: char_count_def)

lemma column_of:
  assumes "zline_ok z"
  shows "char_column_for_byte_cursor (buffer_of z) (cursor_of z) = length (fst z)"
proof -
  have "min (cursor_of z) (length (buffer_of z)) = cursor_of z" using cursor_le [of z] by simp
  moreover have "floor_boundary (buffer_of z) (cursor_of z) = cursor_of z"
    using floor_at [of "rev (fst z)" "snd z"] assms
    by (simp add: buffer_of_def cursor_of_def zline_ok_def)
  moreover have "char_count (concat (rev (fst z))) = length (fst z)"
    using units_count [of "rev (fst z)"] assms by (simp add: zline_ok_def)
  ultimately show ?thesis
    unfolding char_column_for_byte_cursor_def by (simp add: split_buffer(1))
qed

text \<open>Secrets of one-byte characters.\<close>

definition ascii_line :: "zline \<Rightarrow> bool" where
  "ascii_line z \<longleftrightarrow> zline_ok z \<and> list_all (\<lambda>u. length u = 1) (fst z) \<and> list_all (\<lambda>u. length u = 1) (snd z)"

definition ascii_key :: "key_event \<Rightarrow> bool" where
  "ascii_key key \<longleftrightarrow> (case ke_code key of KChar c \<Rightarrow> c < 128 | _ \<Rightarrow> True)"

lemma concat_singles: "list_all (\<lambda>u. length u = 1) us \<Longrightarrow> length (concat us) = length us"
  by (induction us) simp_all

lemma masked_columns:
  assumes "ascii_line z"
  shows "masked_line (buffer_of z) (cursor_of z) =
    mask_text (fst (columns z) + snd (columns z)) (fst (columns z))"
proof -
  have "length (buffer_of z) = length (fst z) + length (snd z)"
    using assms concat_singles [of "rev (fst z)"] concat_singles [of "snd z"]
    by (simp add: buffer_of_def ascii_line_def)
  moreover have "zline_ok z" using assms by (simp add: ascii_line_def)
  ultimately show ?thesis unfolding masked_line_def columns_def by (simp add: column_of)
qed

lemma ascii_edit:
  assumes "ascii_line z" "ascii_key key"
  shows "ascii_line (edit_line key False z)"
proof -
  obtain ls rs where z: "z = (ls, rs)" by (cases z)
  have parts: "list_all P (drop 1 us)" if "list_all P us" for P and us :: "string list"
    using that by (cases us) simp_all
  have "key_ok key" using assms(2) by (auto simp: key_ok_def ascii_key_def scalar_def split: key_code.splits)
  then have "zline_ok (edit_line key False z)"
    using edit_refines [of z key False] assms(1) by (simp add: represents_def ascii_line_def)
  moreover have "list_all (\<lambda>u. length u = 1) (fst (edit_line key False z))
      \<and> list_all (\<lambda>u. length u = 1) (snd (edit_line key False z))"
    using assms unfolding z ascii_line_def ascii_key_def edit_line_def
    by (cases ls; cases rs; cases "ke_code key")
      (simp_all add: go_home_def go_end_def utf8_of_def)
  ultimately show ?thesis by (simp add: ascii_line_def)
qed

lemma type_masked_columns:
  assumes "ascii_line z1" "ascii_line z2" "columns z1 = columns z2" "list_all ascii_key keys"
  shows "\<exists>y1 y2. type_masked keys (buffer_of z1, cursor_of z1) = (buffer_of y1, cursor_of y1)
    \<and> type_masked keys (buffer_of z2, cursor_of z2) = (buffer_of y2, cursor_of y2)
    \<and> ascii_line y1 \<and> ascii_line y2 \<and> columns y1 = columns y2"
  using assms
proof (induction keys arbitrary: z1 z2)
  case Nil
  then show ?case by (intro exI [of _ z1] exI [of _ z2]) (simp add: type_masked_def)
next
  case (Cons key keys)
  have ok: "key_ok key" "ascii_key key"
    using Cons.prems(4) by (auto simp: key_ok_def ascii_key_def scalar_def split: key_code.splits)
  have step: "type_masked (key # keys) (buffer_of z, cursor_of z) =
      type_masked keys (buffer_of (edit_line key False z), cursor_of (edit_line key False z))"
    if "ascii_line z" for z
    using edit_refines [of z key False] that ok by (simp add: type_masked_def represents_def ascii_line_def)
  have "columns (edit_line key False z1) = columns (edit_line key False z2)"
    unfolding columns_edit Cons.prems(3) by (rule refl)
  from Cons.IH [OF ascii_edit [OF Cons.prems(1) ok(2)] ascii_edit [OF Cons.prems(2) ok(2)] this]
  show ?case using Cons.prems step by simp
qed

text \<open>C28: The passphrase prompt shows nothing of an ASCII secret but how many characters stand before
  and after the cursor: for two secrets that agree in this, the same keys, word motions among them,
  leave the same asterisks and the same caret.\<close>

theorem masked_prompt_is_blind:
  assumes "ascii_line z1" "ascii_line z2" "columns z1 = columns z2" "list_all ascii_key keys"
  shows "case_prod masked_line (type_masked keys (buffer_of z1, cursor_of z1)) =
    case_prod masked_line (type_masked keys (buffer_of z2, cursor_of z2))"
  using type_masked_columns [OF assms] by (elim exE conjE) (simp add: masked_columns)

theorem masked_prompt_is_blind_witness:
  "case_prod masked_line (type_masked [\<lparr>ke_code = KChar 98, ke_press = True, ke_ctrl = False, ke_alt = True\<rparr>]
      (''a c'', 3)) =
    case_prod masked_line (type_masked [\<lparr>ke_code = KChar 98, ke_press = True, ke_ctrl = False, ke_alt = True\<rparr>]
      (''abc'', 3))"
proof -
  have "ascii_line ([''c'', '' '', ''a''], [])" "ascii_line ([''c'', ''b'', ''a''], [])"
    by (simp_all add: ascii_line_def zline_ok_def is_unit_def utf8_unit_def byte_at_def ord_def)
  from masked_prompt_is_blind [OF this, of "[\<lparr>ke_code = KChar 98, ke_press = True, ke_ctrl = False, ke_alt = True\<rparr>]"]
  show ?thesis by (simp add: columns_def ascii_key_def buffer_of_def cursor_of_def eval_nat_numeral)
qed

text \<open>With a longer character the prompt shows one asterisk for each of its bytes, while the caret
  counts characters: at the end of the line asterisks are left behind it.\<close>

lemma mask_counts_bytes:
  "masked_line (utf8_of 233) (length (utf8_of 233)) = ''*|*''"
  "masked_line ''e'' 1 = ''*|''"
  by code_simp+

lemma utf8_unit_cases:
  assumes "fst (utf8_unit s)"
  obtains "snd (utf8_unit s) = 1" "byte_at s 0 < 128"
  | "snd (utf8_unit s) = 2" "0xC2 \<le> byte_at s 0" "byte_at s 0 \<le> 0xDF" "cont_byte (byte_at s 1)"
  | "snd (utf8_unit s) = 3" "0xE0 \<le> byte_at s 0" "byte_at s 0 \<le> 0xEF" "second_of_3 (byte_at s 0) (byte_at s 1)"
      "cont_byte (byte_at s 2)"
  | "snd (utf8_unit s) = 4" "0xF0 \<le> byte_at s 0" "byte_at s 0 \<le> 0xF4" "second_of_4 (byte_at s 0) (byte_at s 1)"
      "cont_byte (byte_at s 2)" "cont_byte (byte_at s 3)"
  using assms that unfolding utf8_unit_def Let_def by (simp split: if_splits)

lemma cont_within: "cont_byte (byte_at s i) \<Longrightarrow> i < length s"
  by (simp add: byte_at_def cont_byte_def split: if_splits)

lemma utf8_unit_fits: "fst (utf8_unit s) \<Longrightarrow> s \<noteq> [] \<Longrightarrow> snd (utf8_unit s) \<le> length s"
  by (erule utf8_unit_cases) (auto dest: cont_within simp: Suc_le_eq)

lemma byte_at_take: "i < n \<Longrightarrow> byte_at (take n s) i = byte_at s i"
  by (simp add: byte_at_def)

lemma utf8_unit_take: "s \<noteq> [] \<Longrightarrow> fst (utf8_unit s) \<Longrightarrow> is_unit (take (snd (utf8_unit s)) s)"
proof -
  assume s: "s \<noteq> []" "fst (utf8_unit s)"
  have "utf8_unit (take (snd (utf8_unit s)) s) = (True, snd (utf8_unit s))"
    using s(2) by (rule utf8_unit_cases) (simp_all add: utf8_unit_def [of "take n s" for n] byte_at_take Let_def)
  then show ?thesis
    using s utf8_unit_fits [OF s(2,1)] by (simp add: is_unit_def min_def)
qed
subsection \<open>Sound states\<close>

text \<open>A text of whole characters can be edited; every valid UTF-8 text is one.\<close>

lemma valid_units:
  "valid_utf8 s \<Longrightarrow> \<exists>us. units us \<and> s = concat us"
proof (induction s rule: valid_utf8.induct)
  case (1 s)
  show ?case
  proof (cases "s = []")
    case True
    then show ?thesis by (intro exI [of _ "[]"]) simp
  next
    case False
    define n where "n = snd (utf8_unit s)"
    from 1 False have u: "fst (utf8_unit s)" "valid_utf8 (drop n s)"
      by (simp_all add: valid_utf8.simps [of s] Let_def n_def split: if_splits)
    from "1.IH" [OF False refl] u obtain us where us: "units us" "drop n s = concat us"
      unfolding n_def by auto
    have "is_unit (take n s)"
      using False u(1) unfolding n_def by (rule utf8_unit_take)
    then show ?thesis
      using us append_take_drop_id [of n s] by (intro exI [of _ "take n s # us"]) simp
  qed
qed

end
