(* ===== verification/App_Keys.thy ===== *)
theory App_Keys
  imports Boot_Dispatch Line_Editor
begin

text \<open>
  The state machine of the text interface, \<open>ui/app\<close>: its screens, the reduction of a key into a
  change of the state (\<open>handlers.rs\<close>) and the setters of the screens (\<open>impl_methods.rs\<close>). Drawing
  is not part of it. The latch of the session, which every screen shares, is with the console.
\<close>

subsection \<open>Screens\<close>

datatype log_source = Nmbl_Log | Kernel_Log

datatype emergency_choice =
    Choose_Reboot | Choose_Pretty_Shell | Choose_Raw_Shell | Choose_Retry_Boot | Choose_Verify

record emergency_item =
  ei_label :: string
  ei_choice :: emergency_choice

record log_screen =
  ls_lines :: "string list"
  ls_offset :: nat
  ls_follow_bottom :: bool
  ls_source :: log_source

record passphrase_screen =
  pp_label :: string
  pp_buffer :: string
  pp_cursor :: nat
  pp_verifying :: bool
  pp_spinner :: nat
  pp_select_generation :: bool

record emergency_screen =
  em_message :: string
  em_items :: "emergency_item list"
  em_selected :: nat
  em_chosen :: "emergency_choice option"

record boot_status =
  bs_phase :: string
  bs_log_lines :: "string list"
  bs_spinner :: nat

datatype screen =
    List_Screen
  | Log_Screen log_screen
  | Editing_Screen nat editable_line
  | Passphrase_Screen passphrase_screen
  | Emergency_Screen emergency_screen
  | Status_Screen boot_status
  | Key_Echo_Screen "string list" "string list"

record app =
  ap_generations :: "generation list"
  ap_selected :: nat
  ap_screen :: screen
  ap_show_params :: bool
  ap_countdown :: "nat option"
  ap_decision :: "decision option"
  ap_error_deadline :: "nat option"
  ap_modal_scroll :: nat
  ap_exit_session :: bool
  ap_return :: "screen option"
  ap_caps_lock :: bool

definition new_app :: "generation list \<Rightarrow> app" where
  "new_app gens = \<lparr>ap_generations = gens, ap_selected = 0, ap_screen = List_Screen,
     ap_show_params = False, ap_countdown = None, ap_decision = None, ap_error_deadline = None,
     ap_modal_scroll = 0, ap_exit_session = False, ap_return = None, ap_caps_lock = False\<rparr>"

definition boot_status_app :: "string \<Rightarrow> app" where
  "boot_status_app phase = (new_app [])\<lparr>ap_screen :=
     Status_Screen \<lparr>bs_phase = phase, bs_log_lines = [], bs_spinner = 0\<rparr>\<rparr>"

definition key_echo_app :: app where
  "key_echo_app = (new_app [])\<lparr>ap_screen := Key_Echo_Screen [] []\<rparr>"

definition toggled :: "log_source \<Rightarrow> log_source" where
  "toggled src = (case src of Nmbl_Log \<Rightarrow> Kernel_Log | Kernel_Log \<Rightarrow> Nmbl_Log)"

definition toggle_hint :: "log_source \<Rightarrow> string" where
  "toggle_hint src = (case src of Nmbl_Log \<Rightarrow> ''Ctrl+K: kernel logs'' | Kernel_Log \<Rightarrow> ''Ctrl+K: NMBL logs'')"

definition LOG_PAGE :: nat where
  "LOG_PAGE = 20"

definition KEY_ECHO_RING_CAP :: nat where
  "KEY_ECHO_RING_CAP = 20"

definition SPINNER_FRAMES :: nat where
  "SPINNER_FRAMES = 4"

definition u16_max :: nat where
  "u16_max = 65535"

definition char_key :: "char \<Rightarrow> key_code" where
  "char_key c = KChar (ord c)"

subsection \<open>The list\<close>

definition handle_list_key :: "key_code \<Rightarrow> app \<Rightarrow> bool \<times> app" where
  "handle_list_key code a =
     (let gens = ap_generations a; sel = ap_selected a; last_idx = length gens - 1 in
      if code = KUp \<or> code = char_key (CHR ''k'') then (False, a\<lparr>ap_selected := sel - 1\<rparr>)
      else if code = KDown \<or> code = char_key (CHR ''j'') then
        (False, if sel < last_idx then a\<lparr>ap_selected := sel + 1\<rparr> else a)
      else if code = KEnter then
        (if gens = [] then (False, a) else (True, a\<lparr>ap_decision := Some (BootGen sel None)\<rparr>))
      else if code = char_key (CHR ''e'') then
        (False, a\<lparr>ap_screen := Editing_Screen sel (with_text
           (case get_at gens sel of Some g \<Rightarrow> join '' '' (kernel_params g) | None \<Rightarrow> []))\<rparr>)
      else if code = char_key (CHR ''p'') then (False, a\<lparr>ap_show_params := \<not> ap_show_params a\<rparr>)
      else if code = char_key (CHR ''s'') then (True, a\<lparr>ap_decision := Some Shell\<rparr>)
      else if code = char_key (CHR ''q'') then (True, a\<lparr>ap_decision := Some Reboot\<rparr>)
      else (False, a))"

subsection \<open>The command line, the passphrase and the emergency screen\<close>

definition handle_editing_key :: "key_event \<Rightarrow> app \<Rightarrow> bool \<times> app" where
  "handle_editing_key key a =
     (case ap_screen a of
        Editing_Screen i line \<Rightarrow>
          if ke_code key = KEnter then
            (True, a\<lparr>ap_decision := Some (BootGen i (Some (el_buffer line)))\<rparr>)
          else if ke_code key = KEsc then (False, a\<lparr>ap_screen := List_Screen\<rparr>)
          else (False, a\<lparr>ap_screen := Editing_Screen i (fst (line_handle_key line key))\<rparr>)
      | _ \<Rightarrow> (False, a))"

definition handle_passphrase_key :: "key_event \<Rightarrow> app \<Rightarrow> bool \<times> app" where
  "handle_passphrase_key key a =
     (case ap_screen a of
        Passphrase_Screen p \<Rightarrow>
          if ke_code key = KEnter then (True, a)
          else if ke_code key = KEsc then (True, a\<lparr>ap_decision := Some Shell\<rparr>)
          else (case handle_key_on (pp_buffer p) (pp_cursor p) key False of
            ((b, c), _) \<Rightarrow> (False, a\<lparr>ap_screen := Passphrase_Screen (p\<lparr>pp_buffer := b, pp_cursor := c\<rparr>)\<rparr>))
      | _ \<Rightarrow> (False, a))"

definition hotkey :: "key_code \<Rightarrow> emergency_choice option" where
  "hotkey code =
     (if code = char_key (CHR ''r'') then Some Choose_Reboot
      else if code = char_key (CHR ''p'') then Some Choose_Pretty_Shell
      else if code = char_key (CHR ''s'') then Some Choose_Raw_Shell
      else if code = char_key (CHR ''t'') then Some Choose_Retry_Boot
      else if code = char_key (CHR ''v'') then Some Choose_Verify
      else None)"

definition handle_emergency_key :: "key_code \<Rightarrow> app \<Rightarrow> bool \<times> app" where
  "handle_emergency_key code a =
     (case ap_screen a of
        Emergency_Screen e \<Rightarrow>
          let sel = em_selected e; last_idx = length (em_items e) - 1;
              set_screen = (\<lambda>e'. a\<lparr>ap_screen := Emergency_Screen e'\<rparr>) in
          if code = KUp \<or> code = char_key (CHR ''k'') then (False, set_screen (e\<lparr>em_selected := sel - 1\<rparr>))
          else if code = KDown \<or> code = char_key (CHR ''j'') then
            (False, if sel < last_idx then set_screen (e\<lparr>em_selected := sel + 1\<rparr>) else a)
          else if code = KEnter then
            (case get_at (em_items e) sel of
               Some item \<Rightarrow> (True, set_screen (e\<lparr>em_chosen := Some (ei_choice item)\<rparr>))
             | None \<Rightarrow> (False, a))
          else (case hotkey code of
               Some choice \<Rightarrow> (True, set_screen (e\<lparr>em_chosen := Some choice\<rparr>))
             | None \<Rightarrow> (False, a))
      | _ \<Rightarrow> (False, a))"

subsection \<open>The log viewer\<close>

definition open_log :: "(log_source \<Rightarrow> string list) \<Rightarrow> screen" where
  "open_log read = Log_Screen \<lparr>ls_lines = read Nmbl_Log, ls_offset = 0, ls_follow_bottom = True,
     ls_source = Nmbl_Log\<rparr>"

definition close_log :: "app \<Rightarrow> app" where
  "close_log a = (case ap_return a of Some prev \<Rightarrow> a\<lparr>ap_screen := prev, ap_return := None\<rparr> | None \<Rightarrow> a)"

definition scroll_to :: "nat \<Rightarrow> log_screen \<Rightarrow> log_screen" where
  "scroll_to n l = l\<lparr>ls_offset := n, ls_follow_bottom := False\<rparr>"

definition handle_log_key :: "key_code \<Rightarrow> log_screen \<Rightarrow> app \<Rightarrow> app" where
  "handle_log_key code l a =
     (let cur = ls_offset l; set_log = (\<lambda>l'. a\<lparr>ap_screen := Log_Screen l'\<rparr>) in
      case code of
        KEsc \<Rightarrow> close_log a
      | KUp \<Rightarrow> set_log (scroll_to (cur - 1) l)
      | KPageUp \<Rightarrow> set_log (scroll_to (cur - LOG_PAGE) l)
      | KHome \<Rightarrow> set_log (scroll_to 0 l)
      | KDown \<Rightarrow> set_log (scroll_to (sat_add u16_max cur 1) l)
      | KPageDown \<Rightarrow> set_log (scroll_to (sat_add u16_max cur LOG_PAGE) l)
      | KEnd \<Rightarrow> set_log (l\<lparr>ls_follow_bottom := True\<rparr>)
      | _ \<Rightarrow> a)"

definition toggle_log :: "(log_source \<Rightarrow> string list) \<Rightarrow> app \<Rightarrow> app" where
  "toggle_log read a =
     (case ap_screen a of
        Log_Screen l \<Rightarrow>
          let src = toggled (ls_source l) in
          a\<lparr>ap_screen := Log_Screen \<lparr>ls_lines = read src, ls_offset = 0, ls_follow_bottom = True,
             ls_source = src\<rparr>\<rparr>
      | _ \<Rightarrow> a)"

subsection \<open>A key\<close>

text \<open>The shortcuts with Ctrl that work on every screen; \<open>None\<close> for any other key.\<close>

definition ctrl_shortcut :: "(log_source \<Rightarrow> string list) \<Rightarrow> key_code \<Rightarrow> app \<Rightarrow> app option" where
  "ctrl_shortcut read code a =
     (if code = char_key (CHR ''e'') then Some (a\<lparr>ap_exit_session := True\<rparr>)
      else if code = char_key (CHR ''l'') then
        Some (case ap_screen a of
                Log_Screen _ \<Rightarrow> close_log a
              | s \<Rightarrow> a\<lparr>ap_screen := open_log read, ap_return := Some s\<rparr>)
      else if code = char_key (CHR ''k'') then Some (toggle_log read a)
      else if code = char_key (CHR ''g'') then
        Some (case ap_screen a of
                Passphrase_Screen p \<Rightarrow>
                  a\<lparr>ap_screen := Passphrase_Screen (p\<lparr>pp_select_generation := \<not> pp_select_generation p\<rparr>)\<rparr>
              | _ \<Rightarrow> a)
      else None)"

definition screen_key :: "key_event \<Rightarrow> app \<Rightarrow> bool \<times> app" where
  "screen_key key a =
     (case ap_screen a of
        Log_Screen l \<Rightarrow> (False, handle_log_key (ke_code key) l a)
      | List_Screen \<Rightarrow> handle_list_key (ke_code key) a
      | Editing_Screen _ _ \<Rightarrow> handle_editing_key key a
      | Passphrase_Screen _ \<Rightarrow> handle_passphrase_key key a
      | Emergency_Screen _ \<Rightarrow> handle_emergency_key (ke_code key) a
      | Status_Screen _ \<Rightarrow> (False, a)
      | Key_Echo_Screen _ _ \<Rightarrow> (False, a))"

definition on_key :: "(log_source \<Rightarrow> string list) \<Rightarrow> key_event \<Rightarrow> app \<Rightarrow> bool \<times> app" where
  "on_key read key a =
     (if \<not> ke_press key then (ap_decision a \<noteq> None, a)
      else let a1 = a\<lparr>ap_countdown := None\<rparr> in
        case (if ke_ctrl key then ctrl_shortcut read (ke_code key) a1 else None) of
          Some a2 \<Rightarrow> (False, a2)
        | None \<Rightarrow> screen_key key a1)"

subsection \<open>The setters\<close>

definition modal_scroll_up :: "nat \<Rightarrow> app \<Rightarrow> app" where
  "modal_scroll_up n a = a\<lparr>ap_modal_scroll := ap_modal_scroll a - n\<rparr>"

definition modal_scroll_down :: "nat \<Rightarrow> nat \<Rightarrow> nat \<Rightarrow> app \<Rightarrow> app" where
  "modal_scroll_down n total_rows visible a =
     a\<lparr>ap_modal_scroll := min (sat_add u16_max (ap_modal_scroll a) n) (total_rows - visible)\<rparr>"

definition latch_error_countdown :: "nat \<Rightarrow> nat \<Rightarrow> app \<Rightarrow> app" where
  "latch_error_countdown now auto_reboot_in a =
     (if ap_error_deadline a = None then a\<lparr>ap_error_deadline := Some (now + auto_reboot_in)\<rparr> else a)"

definition set_emergency_message :: "string \<Rightarrow> app \<Rightarrow> app" where
  "set_emergency_message m a =
     (case ap_screen a of Emergency_Screen e \<Rightarrow> a\<lparr>ap_screen := Emergency_Screen (e\<lparr>em_message := m\<rparr>)\<rparr> | _ \<Rightarrow> a)"

definition push_echo :: "string \<Rightarrow> string list \<Rightarrow> string list" where
  "push_echo x ring = (if KEY_ECHO_RING_CAP \<le> length ring then drop 1 ring else ring) @ [x]"

definition push_key_echo_event :: "string \<Rightarrow> app \<Rightarrow> app" where
  "push_key_echo_event x a =
     (case ap_screen a of Key_Echo_Screen ev by \<Rightarrow> a\<lparr>ap_screen := Key_Echo_Screen (push_echo x ev) by\<rparr> | _ \<Rightarrow> a)"

definition push_key_echo_bytes :: "string \<Rightarrow> app \<Rightarrow> app" where
  "push_key_echo_bytes x a =
     (case ap_screen a of Key_Echo_Screen ev by \<Rightarrow> a\<lparr>ap_screen := Key_Echo_Screen ev (push_echo x by)\<rparr> | _ \<Rightarrow> a)"

definition set_boot_phase :: "string \<Rightarrow> app \<Rightarrow> app" where
  "set_boot_phase p a =
     (case ap_screen a of Status_Screen b \<Rightarrow> a\<lparr>ap_screen := Status_Screen (b\<lparr>bs_phase := p\<rparr>)\<rparr> | _ \<Rightarrow> a)"

definition set_boot_log_lines :: "string list \<Rightarrow> app \<Rightarrow> app" where
  "set_boot_log_lines ls a =
     (case ap_screen a of Status_Screen b \<Rightarrow> a\<lparr>ap_screen := Status_Screen (b\<lparr>bs_log_lines := ls\<rparr>)\<rparr> | _ \<Rightarrow> a)"

text \<open>The frame is a byte: the addition wraps before the remainder is taken.\<close>

definition next_frame :: "nat \<Rightarrow> nat" where
  "next_frame f = (f + 1) mod 256 mod SPINNER_FRAMES"

definition tick_boot_spinner :: "app \<Rightarrow> app" where
  "tick_boot_spinner a =
     (case ap_screen a of
        Status_Screen b \<Rightarrow> a\<lparr>ap_screen := Status_Screen (b\<lparr>bs_spinner := next_frame (bs_spinner b)\<rparr>)\<rparr>
      | _ \<Rightarrow> a)"

definition set_passphrase_verifying :: "bool \<Rightarrow> app \<Rightarrow> app" where
  "set_passphrase_verifying v a =
     (case ap_screen a of
        Passphrase_Screen p \<Rightarrow> a\<lparr>ap_screen := Passphrase_Screen
          (p\<lparr>pp_verifying := v, pp_spinner := if v then pp_spinner p else 0\<rparr>)\<rparr>
      | _ \<Rightarrow> a)"

definition tick_passphrase_spinner :: "app \<Rightarrow> app" where
  "tick_passphrase_spinner a =
     (case ap_screen a of
        Passphrase_Screen p \<Rightarrow> a\<lparr>ap_screen := Passphrase_Screen (p\<lparr>pp_spinner := next_frame (pp_spinner p)\<rparr>)\<rparr>
      | _ \<Rightarrow> a)"

definition clear_passphrase_buffer :: "app \<Rightarrow> app" where
  "clear_passphrase_buffer a =
     (case ap_screen a of
        Passphrase_Screen p \<Rightarrow> a\<lparr>ap_screen := Passphrase_Screen
          (p\<lparr>pp_buffer := [], pp_cursor := 0, pp_verifying := False, pp_spinner := 0\<rparr>)\<rparr>
      | _ \<Rightarrow> a)"

subsection \<open>Sound states\<close>

text \<open>
  The selection and the edited generation are in the list, every line that is edited is a line of
  characters with the cursor between two of them, and a screen is stashed exactly under the log
  viewer. On an empty list the selection is zero.
\<close>

definition idx_ok :: "generation list \<Rightarrow> nat \<Rightarrow> bool" where
  "idx_ok gens i \<longleftrightarrow> i < length gens \<or> (gens = [] \<and> i = 0)"

definition line_ok :: "string \<Rightarrow> nat \<Rightarrow> bool" where
  "line_ok b c \<longleftrightarrow> (\<exists>z. represents (b, c) z)"

definition is_log :: "screen \<Rightarrow> bool" where
  "is_log s \<longleftrightarrow> (case s of Log_Screen _ \<Rightarrow> True | _ \<Rightarrow> False)"

definition screen_ok :: "generation list \<Rightarrow> screen \<Rightarrow> bool" where
  "screen_ok gens s \<longleftrightarrow>
     (case s of
        Editing_Screen i l \<Rightarrow> idx_ok gens i \<and> line_ok (el_buffer l) (el_cursor l)
      | Passphrase_Screen p \<Rightarrow> line_ok (pp_buffer p) (pp_cursor p)
      | _ \<Rightarrow> True)"

definition stash_ok :: "generation list \<Rightarrow> screen \<Rightarrow> screen option \<Rightarrow> bool" where
  "stash_ok gens s ret \<longleftrightarrow>
     (case ret of
        None \<Rightarrow> \<not> is_log s
      | Some s' \<Rightarrow> is_log s \<and> \<not> is_log s' \<and> screen_ok gens s')"

definition decision_ok :: "generation list \<Rightarrow> decision option \<Rightarrow> bool" where
  "decision_ok gens d \<longleftrightarrow> (case d of Some (BootGen i over) \<Rightarrow> idx_ok gens i | _ \<Rightarrow> True)"

definition app_ok :: "app \<Rightarrow> bool" where
  "app_ok a \<longleftrightarrow> idx_ok (ap_generations a) (ap_selected a) \<and> screen_ok (ap_generations a) (ap_screen a)
     \<and> stash_ok (ap_generations a) (ap_screen a) (ap_return a)
     \<and> decision_ok (ap_generations a) (ap_decision a)"

definition gens_valid :: "generation list \<Rightarrow> bool" where
  "gens_valid gens \<longleftrightarrow> list_all (\<lambda>g. list_all valid_utf8 (kernel_params g)) gens"

lemma is_log_simps [simp]: "is_log (Log_Screen l)" "\<not> is_log List_Screen" "\<not> is_log (Editing_Screen i e)"
  "\<not> is_log (Passphrase_Screen p)" "\<not> is_log (Emergency_Screen em)" "\<not> is_log (Status_Screen b)"
  "\<not> is_log (Key_Echo_Screen ev by)"
  by (simp_all add: is_log_def)

lemma screen_ok_simps [simp]:
  "screen_ok gens (Log_Screen l)" "screen_ok gens List_Screen"
  "screen_ok gens (Editing_Screen i e) \<longleftrightarrow> idx_ok gens i \<and> line_ok (el_buffer e) (el_cursor e)"
  "screen_ok gens (Passphrase_Screen p) \<longleftrightarrow> line_ok (pp_buffer p) (pp_cursor p)"
  "screen_ok gens (Emergency_Screen em)" "screen_ok gens (Status_Screen b)"
  "screen_ok gens (Key_Echo_Screen ev by)"
  by (simp_all add: screen_ok_def)

lemma decision_ok_simps [simp]:
  "decision_ok gens None" "decision_ok gens (Some Shell)" "decision_ok gens (Some Reboot)"
  "decision_ok gens (Some (BootGen i over)) \<longleftrightarrow> idx_ok gens i"
  by (simp_all add: decision_ok_def)

lemma stash_ok_simps [simp]:
  "stash_ok gens s None \<longleftrightarrow> \<not> is_log s"
  "stash_ok gens s (Some s') \<longleftrightarrow> is_log s \<and> \<not> is_log s' \<and> screen_ok gens s'"
  by (simp_all add: stash_ok_def)

lemma stash_screens: "\<not> is_log s \<Longrightarrow> stash_ok gens s ret \<Longrightarrow> \<not> is_log s' \<Longrightarrow> stash_ok gens s' ret"
  by (cases ret) simp_all

lemma idx_steps: "idx_ok gens i \<Longrightarrow> idx_ok gens (i - 1)" "idx_ok gens i \<Longrightarrow> i < length gens - 1 \<Longrightarrow> idx_ok gens (Suc i)"
  by (auto simp: idx_ok_def)

lemma line_ok_text: "valid_utf8 t \<Longrightarrow> line_ok t (length t)"
proof -
  assume "valid_utf8 t"
  then obtain us where "units us" "t = concat us" using valid_units by blast
  then have "represents (t, length t) (rev us, [])"
    by (simp add: represents_def zline_ok_def buffer_of_def cursor_of_def)
  then show ?thesis unfolding line_ok_def by blast
qed

lemma line_ok_key:
  assumes "line_ok b c" "key_ok key" "handle_key_on b c key words = ((b', c'), h)"
  shows "line_ok b' c'"
proof -
  from assms(1) obtain z where z: "zline_ok z" "b = buffer_of z" "c = cursor_of z"
    by (auto simp: line_ok_def represents_def)
  have "represents (b', c') (edit_line key words z)"
    using edit_refines [OF z(1) assms(2), of words] assms(3) z by simp
  then show ?thesis unfolding line_ok_def by blast
qed

lemma valid_append: "valid_utf8 s \<Longrightarrow> valid_utf8 t \<Longrightarrow> valid_utf8 (s @ t)"
proof -
  assume "valid_utf8 s" "valid_utf8 t"
  then obtain us vs where "units us" "s = concat us" "units vs" "t = concat vs"
    using valid_units by metis
  then show ?thesis using units_valid [of "us @ vs"] by simp
qed

lemma valid_join: "list_all valid_utf8 ps \<Longrightarrow> valid_utf8 (join '' '' ps)"
proof (induction "'' ''" ps rule: join.induct)
  case 1
  then show ?case by (simp add: valid_utf8.simps [of "[]"])
next
  case (3 x y ys)
  have "valid_utf8 '' ''" by (rule valid_utf8_ascii) (simp add: is_ascii_def ord_def)
  then show ?case using 3 valid_append [of x "'' '' @ join '' '' (y # ys)"] valid_append [of "'' ''"] by simp
qed simp

text \<open>One screen after the other.\<close>

lemma list_key_ok:
  assumes "app_ok a" "ap_screen a = List_Screen" "gens_valid (ap_generations a)"
  shows "app_ok (snd (handle_list_key code a)) \<and> ap_generations (snd (handle_list_key code a)) = ap_generations a"
proof -
  define t where "t = (case get_at (ap_generations a) (ap_selected a) of
    Some g \<Rightarrow> join '' '' (kernel_params g) | None \<Rightarrow> [])"
  have "valid_utf8 t"
    using assms(3) valid_join unfolding t_def
    by (auto simp: get_at_Some_iff gens_valid_def list_all_length valid_utf8.simps [of "[]"] split: option.splits)
  then have "line_ok t (length t)" by (rule line_ok_text)
  moreover have "ap_return a = None" using assms(1,2) by (cases "ap_return a") (simp_all add: app_ok_def)
  ultimately show ?thesis
    using assms(1,2) unfolding handle_list_key_def Let_def t_def [symmetric] app_ok_def
    by (auto simp: with_text_def idx_steps [simplified])
qed

lemma editing_key_ok:
  assumes "app_ok a" "key_ok key" "ap_screen a = Editing_Screen i l"
  shows "app_ok (snd (handle_editing_key key a)) \<and> ap_generations (snd (handle_editing_key key a)) = ap_generations a"
proof -
  obtain b1 c1 h where h: "handle_key_on (el_buffer l) (el_cursor l) key True = ((b1, c1), h)"
    by (metis prod.exhaust)
  have "line_ok b1 c1"
    by (rule line_ok_key [OF _ assms(2) h]) (use assms(1,3) in \<open>simp add: app_ok_def\<close>)
  moreover have "ap_return a = None" using assms(1,3) by (cases "ap_return a") (simp_all add: app_ok_def)
  ultimately show ?thesis
    using assms(1,3) unfolding handle_editing_key_def line_handle_key_def
    by (simp add: h app_ok_def)
qed

lemma passphrase_key_ok:
  assumes "app_ok a" "key_ok key" "ap_screen a = Passphrase_Screen p"
  shows "app_ok (snd (handle_passphrase_key key a))
    \<and> ap_generations (snd (handle_passphrase_key key a)) = ap_generations a"
proof -
  obtain b1 c1 h where h: "handle_key_on (pp_buffer p) (pp_cursor p) key False = ((b1, c1), h)"
    by (metis prod.exhaust)
  have "line_ok b1 c1"
    by (rule line_ok_key [OF _ assms(2) h]) (use assms(1,3) in \<open>simp add: app_ok_def\<close>)
  moreover have "ap_return a = None" using assms(1,3) by (cases "ap_return a") (simp_all add: app_ok_def)
  ultimately show ?thesis
    using assms(1,3) unfolding handle_passphrase_key_def by (simp add: h app_ok_def)
qed

lemma emergency_key_ok:
  assumes "app_ok a" "ap_screen a = Emergency_Screen e"
  shows "app_ok (snd (handle_emergency_key code a))
    \<and> ap_generations (snd (handle_emergency_key code a)) = ap_generations a"
proof -
  have "ap_return a = None" using assms by (cases "ap_return a") (simp_all add: app_ok_def)
  then show ?thesis
    using assms unfolding handle_emergency_key_def Let_def by (simp add: app_ok_def split: option.split)
qed

lemma close_log_ok:
  "app_ok a \<Longrightarrow> app_ok (close_log a) \<and> ap_generations (close_log a) = ap_generations a"
  by (cases "ap_return a") (simp_all add: close_log_def app_ok_def)

lemma log_key_ok:
  assumes "app_ok a" "ap_screen a = Log_Screen l"
  shows "app_ok (handle_log_key code l a) \<and> ap_generations (handle_log_key code l a) = ap_generations a"
  using assms close_log_ok [OF assms(1)]
  by (cases code; cases "ap_return a") (simp_all add: handle_log_key_def Let_def app_ok_def)

lemma shortcut_ok:
  assumes "app_ok a" "ctrl_shortcut read code a = Some a'"
  shows "app_ok a' \<and> ap_generations a' = ap_generations a"
proof (cases "ap_screen a")
  case (Log_Screen l)
  then show ?thesis
    using assms close_log_ok [OF assms(1)]
    by (auto simp: ctrl_shortcut_def toggle_log_def Let_def app_ok_def stash_ok_def
        split: if_splits option.splits)
qed (use assms in \<open>cases "ap_return a";
  auto simp: ctrl_shortcut_def toggle_log_def open_log_def app_ok_def split: if_splits\<close>)+

lemma screen_key_ok:
  assumes "app_ok a" "key_ok key" "gens_valid (ap_generations a)"
  shows "app_ok (snd (screen_key key a)) \<and> ap_generations (snd (screen_key key a)) = ap_generations a"
  using assms list_key_ok editing_key_ok passphrase_key_ok emergency_key_ok log_key_ok
  by (cases "ap_screen a") (simp_all add: screen_key_def)

lemma on_key_ok:
  assumes "app_ok a" "key_ok key" "gens_valid (ap_generations a)"
  shows "app_ok (snd (on_key read key a)) \<and> ap_generations (snd (on_key read key a)) = ap_generations a"
proof -
  define a1 where "a1 = a\<lparr>ap_countdown := None\<rparr>"
  have a1: "app_ok a1" "ap_generations a1 = ap_generations a"
    using assms(1) by (simp_all add: app_ok_def a1_def)
  show ?thesis
  proof (cases "ke_press key")
    case True
    then show ?thesis
      using a1 assms screen_key_ok [of a1 key]
      by (cases "ke_ctrl key"; cases "ctrl_shortcut read (ke_code key) a1")
        (simp_all add: on_key_def Let_def flip: a1_def, use shortcut_ok [OF a1(1)] a1(2) in auto)
  qed (use assms in \<open>simp add: on_key_def\<close>)
qed

definition press_keys :: "(log_source \<Rightarrow> string list) \<Rightarrow> key_event list \<Rightarrow> app \<Rightarrow> app" where
  "press_keys read keys a = foldl (\<lambda>a key. snd (on_key read key a)) a keys"


lemma new_app_ok: "app_ok (new_app gens)"
  by (simp add: app_ok_def new_app_def idx_ok_def)

definition plain :: "key_code \<Rightarrow> key_event" where
  "plain code = \<lparr>ke_code = code, ke_press = True, ke_ctrl = False, ke_alt = False\<rparr>"

definition ctrl :: "char \<Rightarrow> key_event" where
  "ctrl c = \<lparr>ke_code = char_key c, ke_press = True, ke_ctrl = True, ke_alt = False\<rparr>"

definition demo_menu :: "generation list" where
  "demo_menu = [\<lparr>number = 7, profile_link = ''l'', toplevel = ''t'', kernel = ''k'', initrd = ''i'',
     init_path = ''n'', kernel_params = [''quiet''], gen_label = ''x''\<rparr>]"

lemma demo_menu_valid: "gens_valid demo_menu"
proof -
  have "valid_utf8 ''quiet''" by (rule valid_utf8_ascii) (auto simp: is_ascii_def ord_def)
  then show ?thesis by (simp add: gens_valid_def demo_menu_def)
qed


subsection \<open>The log viewer\<close>

text \<open>Keys that do not close it, and the state it is in until then.\<close>

definition keeps_log :: "key_event \<Rightarrow> bool" where
  "keeps_log key \<longleftrightarrow> \<not> (ke_press key \<and>
     (ke_code key = KEsc \<or> (ke_ctrl key \<and> ke_code key = char_key (CHR ''l''))))"

definition viewing :: "app \<Rightarrow> app \<Rightarrow> bool" where
  "viewing a b \<longleftrightarrow> (\<exists>l x. b = a\<lparr>ap_countdown := None, ap_exit_session := x, ap_screen := Log_Screen l,
     ap_return := Some (ap_screen a)\<rparr>)"

lemma log_key_scrolls:
  assumes "ap_screen b = Log_Screen l" "code \<noteq> KEsc"
  obtains l' where "handle_log_key code l b = b\<lparr>ap_screen := Log_Screen l'\<rparr>"
proof -
  define l' where "l' = (case code of KUp \<Rightarrow> scroll_to (ls_offset l - 1) l
    | KPageUp \<Rightarrow> scroll_to (ls_offset l - LOG_PAGE) l | KHome \<Rightarrow> scroll_to 0 l
    | KDown \<Rightarrow> scroll_to (sat_add u16_max (ls_offset l) 1) l
    | KPageDown \<Rightarrow> scroll_to (sat_add u16_max (ls_offset l) LOG_PAGE) l
    | KEnd \<Rightarrow> l\<lparr>ls_follow_bottom := True\<rparr> | _ \<Rightarrow> l)"
  have "handle_log_key code l b = b\<lparr>ap_screen := Log_Screen l'\<rparr>"
    using assms by (cases code) (simp_all add: handle_log_key_def l'_def Let_def)
  then show thesis by (rule that)
qed

lemma shortcut_in_log:
  assumes "ap_screen b = Log_Screen l" "code \<noteq> char_key (CHR ''l'')" "ctrl_shortcut read code b = Some b'"
  obtains l' x where "b' = b\<lparr>ap_exit_session := x, ap_screen := Log_Screen l'\<rparr>"
proof -
  define kernel_log where "kernel_log = \<lparr>ls_lines = read (toggled (ls_source l)), ls_offset = 0,
    ls_follow_bottom = True, ls_source = toggled (ls_source l)\<rparr>"
  have t: "toggle_log read b = b\<lparr>ap_screen := Log_Screen kernel_log\<rparr>"
    using assms(1) by (simp add: toggle_log_def kernel_log_def Let_def)
  have same: "b = b\<lparr>ap_exit_session := ap_exit_session b, ap_screen := Log_Screen l\<rparr>" using assms(1) by simp
  consider "b' = b\<lparr>ap_exit_session := True\<rparr>" | "b' = toggle_log read b" | "b' = b"
    using assms by (auto simp: ctrl_shortcut_def split: if_splits)
  then show thesis
  proof cases
    case 1
    then show thesis using assms(1) by (intro that [of l True]) simp
  next
    case 2
    then show thesis by (intro that [of kernel_log "ap_exit_session b"]) (simp add: t)
  next
    case 3
    then show thesis using same by (intro that [of l "ap_exit_session b"]) simp
  qed
qed

lemma viewing_key:
  assumes "viewing a b" "keeps_log key"
  shows "viewing a (snd (on_key read key b))"
proof -
  from assms(1) obtain l x where b: "b = a\<lparr>ap_countdown := None, ap_exit_session := x,
      ap_screen := Log_Screen l, ap_return := Some (ap_screen a)\<rparr>"
    unfolding viewing_def by blast
  then have scr: "ap_screen b = Log_Screen l" and same: "b\<lparr>ap_countdown := None\<rparr> = b" by simp_all
  have "\<exists>l' x'. snd (on_key read key b) = b\<lparr>ap_exit_session := x', ap_screen := Log_Screen l'\<rparr>"
  proof (cases "ke_press key")
    case True
    then have esc: "ke_code key \<noteq> KEsc" using assms(2) by (simp add: keeps_log_def)
    show ?thesis
    proof (cases "if ke_ctrl key then ctrl_shortcut read (ke_code key) b else None")
      case None
      obtain l' where l': "handle_log_key (ke_code key) l b = b\<lparr>ap_screen := Log_Screen l'\<rparr>"
        by (rule log_key_scrolls [OF scr esc])
      have "snd (on_key read key b) = b\<lparr>ap_exit_session := ap_exit_session b, ap_screen := Log_Screen l'\<rparr>"
        using True None l' scr by (simp add: on_key_def same screen_key_def)
      then show ?thesis by blast
    next
      case (Some b')
      then have c: "ke_ctrl key" "ctrl_shortcut read (ke_code key) b = Some b'" by (simp_all split: if_splits)
      then have "ke_code key \<noteq> char_key (CHR ''l'')" using assms(2) True by (simp add: keeps_log_def)
      then obtain l' x' where "b' = b\<lparr>ap_exit_session := x', ap_screen := Log_Screen l'\<rparr>"
        using shortcut_in_log [OF scr _ c(2)] by metis
      moreover have "snd (on_key read key b) = b'" using True Some by (simp add: on_key_def same)
      ultimately show ?thesis by blast
    qed
  next
    case False
    then show ?thesis
      by (intro exI [of _ l] exI [of _ "ap_exit_session b"]) (simp add: on_key_def scr)
  qed
  then obtain l' x' where "snd (on_key read key b) = b\<lparr>ap_exit_session := x', ap_screen := Log_Screen l'\<rparr>"
    by blast
  then show ?thesis unfolding viewing_def by (intro exI [of _ l'] exI [of _ x']) (simp add: b)
qed

lemma viewing_keys:
  "viewing a b \<Longrightarrow> list_all keeps_log keys \<Longrightarrow> viewing a (press_keys read keys b)"
  by (induction keys arbitrary: b) (simp_all add: press_keys_def viewing_key)

text \<open>The log viewer gives back the screen it was opened over. From any screen Ctrl+L opens it,
  and after any keys that do not close it Esc or Ctrl+L leaves the interface as it was: the same
  screen in the same state, the same selection, no decision.\<close>

theorem log_viewer_returns:
  assumes "\<not> is_log (ap_screen a)" "ap_return a = None" "list_all keeps_log keys"
    and "close = plain KEsc \<or> close = ctrl (CHR ''l'')"
  shows "\<exists>x. press_keys read (ctrl (CHR ''l'') # keys @ [close]) a = a\<lparr>ap_countdown := None, ap_exit_session := x\<rparr>"
proof -
  have split: "press_keys read (k # ks @ [c]) a = snd (on_key read c (press_keys read ks (snd (on_key read k a))))"
    for k ks c by (simp add: press_keys_def)
  have opened: "snd (on_key read (ctrl (CHR ''l'')) a) = a\<lparr>ap_countdown := None, ap_screen := open_log read,
      ap_return := Some (ap_screen a)\<rparr>"
    using assms(1)
    by (cases "ap_screen a") (simp_all add: on_key_def ctrl_def ctrl_shortcut_def char_key_def ord_def)
  have "viewing a (snd (on_key read (ctrl (CHR ''l'')) a))"
    unfolding opened viewing_def open_log_def
    by (rule exI, rule exI [of _ "ap_exit_session a"]) simp
  then have "viewing a (press_keys read keys (snd (on_key read (ctrl (CHR ''l'')) a)))"
    using assms(3) by (rule viewing_keys)
  then obtain l x where log: "press_keys read keys (snd (on_key read (ctrl (CHR ''l'')) a)) =
      a\<lparr>ap_countdown := None, ap_exit_session := x, ap_screen := Log_Screen l, ap_return := Some (ap_screen a)\<rparr>"
    unfolding viewing_def by blast
  have "snd (on_key read close (a\<lparr>ap_countdown := None, ap_exit_session := x, ap_screen := Log_Screen l,
      ap_return := Some (ap_screen a)\<rparr>)) = a\<lparr>ap_countdown := None, ap_exit_session := x\<rparr>"
    using assms(2,4)
    by (auto simp: on_key_def plain_def ctrl_def screen_key_def handle_log_key_def close_log_def
        ctrl_shortcut_def char_key_def ord_def Let_def)
  then show ?thesis unfolding split log by blast
qed

theorem log_viewer_returns_witness:
  "\<exists>x. press_keys (\<lambda>_. [''boot'']) [ctrl (CHR ''l''), plain KUp, ctrl (CHR ''k''), ctrl (CHR ''l'')]
     (new_app demo_menu) = (new_app demo_menu)\<lparr>ap_countdown := None, ap_exit_session := x\<rparr>"
  using log_viewer_returns [of "new_app demo_menu" "[plain KUp, ctrl (CHR ''k'')]" "ctrl (CHR ''l'')" "\<lambda>_. [''boot'']"]
  by (simp add: new_app_def keeps_log_def plain_def ctrl_def char_key_def ord_def)

subsection \<open>Two keys that do not do what they are said to do\<close>

text \<open>The guard of Enter on an empty list is not in the editor: \<open>e\<close> and Enter decide to boot the
  entry zero of nothing.\<close>

lemma empty_list_is_edited:
  "ap_decision (press_keys read [plain KEnter] (new_app [])) = None"
  "ap_decision (press_keys read [plain (char_key (CHR ''e'')), plain KEnter] (new_app [])) =
     Some (BootGen 0 (Some []))"
  by (simp_all add: press_keys_def on_key_def plain_def new_app_def screen_key_def handle_list_key_def
      handle_editing_key_def char_key_def get_at_def with_text_def ord_def)

text \<open>The editor binds Ctrl+E to the end of the line; the shortcut of the same name takes the key
  before any screen sees it, so the line is left as it is and the session is asked to end.\<close>

lemma ctrl_e_never_reaches_the_line:
  "handle_key_on b c (ctrl (CHR ''e'')) words = ((b, length b), True)"
  "snd (on_key read (ctrl (CHR ''e'')) a) = a\<lparr>ap_countdown := None, ap_exit_session := True\<rparr>"
  by (simp_all add: handle_key_on_def on_key_def ctrl_def ctrl_shortcut_def char_key_def ord_def
      ascii_lower_def)

end
