(* ===== verification/Selector.thy ===== *)
theory Selector
  imports App_Keys Poll_Loop
begin

text \<open>
  The interactive choice of a generation: the layer that notes the presence of the operator
  (\<open>ui/console/latch.rs\<close>), the countdown (\<open>ui/countdown.rs\<close>) and the event loop
  (\<open>ui/selector.rs\<close>). The back end of the console is a function from the number of the poll to what
  it surfaces, the clock one from the number of the reading to nanoseconds, and a frame may fail
  to be drawn. The loops are partial functions: a clock may stand and an operator may type for ever.
\<close>

subsection \<open>The console\<close>

datatype console_event = Key_Event key_event | Resize_Event | Scroll_Event | User_Has_Interacted

datatype ui_error = Poll_Failed | Render_Failed

record ui_world =
  uw_poll :: "nat \<Rightarrow> ui_error + console_event option"
  uw_now :: "nat \<Rightarrow> nat"
  uw_render :: "nat \<Rightarrow> bool"
  uw_log :: "log_source \<Rightarrow> string list"

text \<open>How often each was asked, and the latch of the session.\<close>

record ui_state =
  us_polls :: nat
  us_clock :: nat
  us_frames :: "(nat option) list"
  us_interaction :: bool
  us_emitted :: bool
  us_pending :: "console_event option"

definition intercept :: "console_event option \<Rightarrow> ui_state \<Rightarrow> console_event option \<times> ui_state" where
  "intercept fresh s =
     (if us_emitted s then (fresh, s)
      else case fresh of
        Some event \<Rightarrow> (Some User_Has_Interacted,
          s\<lparr>us_interaction := True, us_emitted := True, us_pending := Some event\<rparr>)
      | None \<Rightarrow> (None, s))"

definition poll_event :: "ui_world \<Rightarrow> ui_state \<Rightarrow> ui_error + console_event option \<times> ui_state" where
  "poll_event w s =
     (case us_pending s of
        Some ev \<Rightarrow> Inr (Some ev, s\<lparr>us_pending := None\<rparr>)
      | None \<Rightarrow>
          rbind (uw_poll w (us_polls s)) (\<lambda>fresh. Inr (intercept fresh (s\<lparr>us_polls := us_polls s + 1\<rparr>))))"

definition read_clock :: "ui_world \<Rightarrow> ui_state \<Rightarrow> nat \<times> ui_state" where
  "read_clock w s = (uw_now w (us_clock s), s\<lparr>us_clock := us_clock s + 1\<rparr>)"

text \<open>A frame is remembered by the seconds of the countdown it shows.\<close>

definition render :: "ui_world \<Rightarrow> app \<Rightarrow> ui_state \<Rightarrow> ui_error + ui_state" where
  "render w a s =
     (if uw_render w (length (us_frames s)) then Inr (s\<lparr>us_frames := us_frames s @ [ap_countdown a]\<rparr>)
      else Inl Render_Failed)"

subsection \<open>The countdown\<close>

datatype countdown_outcome = Expired | Cancelled

definition POLL_SLICE :: nat where
  "POLL_SLICE = 100000000"

definition ceil_secs :: "nat \<Rightarrow> nat" where
  "ceil_secs d = (if d mod 1000000000 > 0 then d div 1000000000 + 1 else d div 1000000000)"

definition on_tick :: "ui_world \<Rightarrow> nat \<Rightarrow> app \<Rightarrow> ui_state \<Rightarrow> ui_error + ui_state" where
  "on_tick w secs a s = render w (a\<lparr>ap_countdown := Some secs\<rparr>) s"

text \<open>
  One turn of the loop: an outcome ends it, else it goes on with the seconds last shown. A
  remaining time exists up to the deadline itself.
\<close>

definition countdown_turn ::
  "ui_world \<Rightarrow> (console_event \<Rightarrow> bool) \<Rightarrow> app \<Rightarrow> nat \<Rightarrow> nat \<Rightarrow> ui_state
     \<Rightarrow> ui_error + countdown_outcome option \<times> nat \<times> ui_state" where
  "countdown_turn w cancels a deadline shown s =
     (case read_clock w s of (now, s1) \<Rightarrow>
      if deadline < now then Inr (Some Expired, shown, s1)
      else rbind (poll_event w s1) (\<lambda>(ev, s2).
        if (case ev of Some e \<Rightarrow> cancels e | None \<Rightarrow> False) then Inr (Some Cancelled, shown, s2)
        else (case read_clock w s2 of (now', s3) \<Rightarrow>
          if deadline < now' then Inr (Some Expired, shown, s3)
          else let secs = ceil_secs (deadline - now') in
            if secs = shown then Inr (None, shown, s3)
            else rbind (on_tick w secs a s3) (\<lambda>s4. Inr (None, secs, s4)))))"

partial_function (option) countdown_loop ::
  "ui_world \<Rightarrow> (console_event \<Rightarrow> bool) \<Rightarrow> app \<Rightarrow> nat \<Rightarrow> nat \<Rightarrow> ui_state
     \<Rightarrow> (ui_error + countdown_outcome \<times> ui_state) option" where
  "countdown_loop w cancels a deadline shown s =
     (case countdown_turn w cancels a deadline shown s of
        Inl e \<Rightarrow> Some (Inl e)
      | Inr (Some outcome, _, s') \<Rightarrow> Some (Inr (outcome, s'))
      | Inr (None, shown', s') \<Rightarrow> countdown_loop w cancels a deadline shown' s')"

definition countdown_run ::
  "ui_world \<Rightarrow> nat \<Rightarrow> (console_event \<Rightarrow> bool) \<Rightarrow> app \<Rightarrow> ui_state
     \<Rightarrow> (ui_error + countdown_outcome \<times> ui_state) option" where
  "countdown_run w duration cancels a s =
     (case read_clock w s of (start, s1) \<Rightarrow>
      case on_tick w (ceil_secs duration) a s1 of
        Inl e \<Rightarrow> Some (Inl e)
      | Inr s2 \<Rightarrow> countdown_loop w cancels a (start + duration) (ceil_secs duration) s2)"

definition presence :: "console_event \<Rightarrow> bool" where
  "presence ev \<longleftrightarrow> ev = User_Has_Interacted"

definition run_console_countdown ::
  "ui_world \<Rightarrow> app \<Rightarrow> nat \<Rightarrow> ui_state \<Rightarrow> (ui_error + countdown_outcome \<times> ui_state) option" where
  "run_console_countdown w a duration s = countdown_run w duration presence a s"

subsection \<open>The event loop\<close>

definition FRAME_INTERVAL :: nat where
  "FRAME_INTERVAL = 1000000000 div 30"

text \<open>Whether to draw, and the bound of the first wait.\<close>

definition render_gate :: "bool \<Rightarrow> nat \<Rightarrow> nat \<Rightarrow> bool \<times> nat" where
  "render_gate dirty last_render now =
     (if \<not> dirty then (False, POLL_SLICE)
      else let elapsed = now - last_render in
        if FRAME_INTERVAL \<le> elapsed then (True, POLL_SLICE)
        else (False, min POLL_SLICE (FRAME_INTERVAL - elapsed)))"

text \<open>One event of the burst: \<open>True\<close> ends the burst.\<close>

definition drain_turn ::
  "ui_world \<Rightarrow> app \<Rightarrow> bool \<Rightarrow> ui_state \<Rightarrow> ui_error + bool \<times> app \<times> bool \<times> ui_state" where
  "drain_turn w a dirty s =
     rbind (poll_event w s) (\<lambda>(ev, s1). Inr
       (case ev of
          None \<Rightarrow> (True, a, dirty, s1)
        | Some (Key_Event key) \<Rightarrow>
            (case on_key (uw_log w) key a of (finished, a1) \<Rightarrow>
             if finished then (True, a1, dirty, s1) else (ap_decision a1 \<noteq> None, a1, True, s1))
        | Some Resize_Event \<Rightarrow> (ap_decision a \<noteq> None, a, True, s1)
        | Some _ \<Rightarrow> (ap_decision a \<noteq> None, a, dirty, s1)))"

partial_function (option) drain_events ::
  "ui_world \<Rightarrow> app \<Rightarrow> bool \<Rightarrow> ui_state \<Rightarrow> (ui_error + app \<times> bool \<times> ui_state) option" where
  "drain_events w a dirty s =
     (case drain_turn w a dirty s of
        Inl e \<Rightarrow> Some (Inl e)
      | Inr (stop, a1, dirty1, s1) \<Rightarrow>
          if stop then Some (Inr (a1, dirty1, s1)) else drain_events w a1 dirty1 s1)"

text \<open>A pass draws at most one frame; \<open>last_render\<close> is the time of the last one.\<close>

definition draw_turn ::
  "ui_world \<Rightarrow> app \<Rightarrow> bool \<Rightarrow> nat \<Rightarrow> ui_state \<Rightarrow> ui_error + bool \<times> nat \<times> ui_state" where
  "draw_turn w a dirty last_render s =
     (case read_clock w s of (now, s1) \<Rightarrow>
      if fst (render_gate dirty last_render now) then
        rbind (render w a s1) (\<lambda>s2. case read_clock w s2 of (now', s3) \<Rightarrow> Inr (False, now', s3))
      else Inr (dirty, last_render, s1))"

partial_function (option) event_loop ::
  "ui_world \<Rightarrow> app \<Rightarrow> bool \<Rightarrow> nat \<Rightarrow> ui_state \<Rightarrow> (ui_error + decision \<times> ui_state) option" where
  "event_loop w a dirty last_render s =
     (case draw_turn w a dirty last_render s of
        Inl e \<Rightarrow> Some (Inl e)
      | Inr (dirty1, last1, s1) \<Rightarrow>
          (case drain_events w a dirty1 s1 of
             None \<Rightarrow> None
           | Some (Inl e) \<Rightarrow> Some (Inl e)
           | Some (Inr (a2, dirty2, s2)) \<Rightarrow>
               (case ap_decision a2 of
                  Some d \<Rightarrow> Some (Inr (d, s2))
                | None \<Rightarrow> event_loop w a2 dirty2 last1 s2)))"

record selector_config =
  sc_timeout_ms :: nat
  sc_show_params :: bool

definition selector_app :: "selector_config \<Rightarrow> generation list \<Rightarrow> nat \<Rightarrow> app" where
  "selector_app cfg gens default_index =
     (new_app gens)\<lparr>ap_selected := default_index, ap_show_params := sc_show_params cfg\<rparr>"

text \<open>The first frame is due at once: the time of the last one is set an interval back.\<close>

definition run_selector_on_console ::
  "ui_world \<Rightarrow> selector_config \<Rightarrow> generation list \<Rightarrow> nat \<Rightarrow> ui_state
     \<Rightarrow> (ui_error + decision \<times> ui_state) option" where
  "run_selector_on_console w cfg gens default_index s =
     (let a = selector_app cfg gens default_index in
      case (if us_interaction s then Some (Inr (Cancelled, s))
            else run_console_countdown w a (sc_timeout_ms cfg * 1000000) s) of
        None \<Rightarrow> None
      | Some (Inl e) \<Rightarrow> Some (Inl e)
      | Some (Inr (Expired, s1)) \<Rightarrow> Some (Inr (BootGen default_index None, s1))
      | Some (Inr (Cancelled, s1)) \<Rightarrow>
          (case read_clock w s1 of (now, s2) \<Rightarrow>
           event_loop w a True (if FRAME_INTERVAL \<le> now then now - FRAME_INTERVAL else now) s2))"

subsection \<open>What comes from the operator\<close>

text \<open>An event came between a state and a number of polls: it was stashed, or was polled.\<close>

definition came :: "ui_world \<Rightarrow> ui_state \<Rightarrow> nat \<Rightarrow> console_event \<Rightarrow> bool" where
  "came w s k ev \<longleftrightarrow>
     us_pending s = Some ev \<or> (\<exists>n. us_polls s \<le> n \<and> n < k \<and> uw_poll w n = Inr (Some ev))"

definition entered :: "ui_world \<Rightarrow> ui_state \<Rightarrow> ui_state \<Rightarrow> bool" where
  "entered w s s' \<longleftrightarrow>
     (\<exists>key. came w s (us_polls s') (Key_Event key) \<and> ke_press key \<and> ke_code key = KEnter)"

definition unattended :: "ui_world \<Rightarrow> ui_state \<Rightarrow> ui_state \<Rightarrow> bool" where
  "unattended w s s' \<longleftrightarrow>
     \<not> us_interaction s' \<and> (\<forall>n. us_polls s \<le> n \<and> n < us_polls s' \<longrightarrow> uw_poll w n = Inr None)"

definition event_ok :: "console_event \<Rightarrow> bool" where
  "event_ok ev \<longleftrightarrow> (case ev of Key_Event key \<Rightarrow> key_ok key | _ \<Rightarrow> True)"

definition world_ok :: "ui_world \<Rightarrow> bool" where
  "world_ok w \<longleftrightarrow> (\<forall>n ev. uw_poll w n = Inr (Some ev) \<longrightarrow> event_ok ev)"

definition console_ok :: "ui_state \<Rightarrow> bool" where
  "console_ok s \<longleftrightarrow> (us_emitted s \<longrightarrow> us_interaction s)
     \<and> (us_pending s = None \<or> us_emitted s) \<and> pred_option event_ok (us_pending s)"

definition later :: "ui_world \<Rightarrow> ui_state \<Rightarrow> ui_state \<Rightarrow> bool" where
  "later w s s' \<longleftrightarrow> us_polls s \<le> us_polls s' \<and> (console_ok s \<longrightarrow> console_ok s')
     \<and> (\<forall>k ev. us_polls s' \<le> k \<and> came w s' k ev \<longrightarrow> came w s k ev)"

lemma later_refl: "later w s s" by (simp add: later_def)

lemma later_trans: "later w s s1 \<Longrightarrow> later w s1 s2 \<Longrightarrow> later w s s2"
  unfolding later_def by (meson order_trans)

lemma entered_earlier: "later w s s1 \<Longrightarrow> later w s1 s2 \<Longrightarrow> entered w s1 s2 \<Longrightarrow> entered w s s2"
  unfolding entered_def later_def by blast

lemma came_mono: "came w s k ev \<Longrightarrow> k \<le> k' \<Longrightarrow> came w s k' ev"
  unfolding came_def by (meson less_le_trans)

lemma entered_later: "entered w s s1 \<Longrightarrow> later w s1 s2 \<Longrightarrow> entered w s s2"
  unfolding entered_def later_def using came_mono by blast

text \<open>The clock and the drawing leave the input alone.\<close>

lemma later_clock: "read_clock w s = (t, s') \<Longrightarrow> later w s s'"
  by (auto simp: read_clock_def later_def came_def console_ok_def)

lemma later_render: "render w a s = Inr s' \<Longrightarrow> later w s s'"
  by (auto simp: render_def later_def came_def console_ok_def split: if_splits)

lemma later_draw: "draw_turn w a dirty lst s = Inr (dirty', lst', s') \<Longrightarrow> later w s s'"
proof -
  assume draw: "draw_turn w a dirty lst s = Inr (dirty', lst', s')"
  obtain now s1 where c: "read_clock w s = (now, s1)" by (metis prod.exhaust)
  show ?thesis
  proof (cases "fst (render_gate dirty lst now)")
    case True
    with draw c obtain s2 where r: "render w a s1 = Inr s2"
      by (cases "render w a s1") (simp_all add: draw_turn_def)
    obtain now' s3 where c': "read_clock w s2 = (now', s3)" by (metis prod.exhaust)
    have "s3 = s'" using draw c True r c' by (simp add: draw_turn_def)
    then show ?thesis
      using later_trans [OF later_trans [OF later_clock [OF c] later_render [OF r]] later_clock [OF c']] by simp
  next
    case False
    with draw c have "s1 = s'" by (simp add: draw_turn_def)
    then show ?thesis using later_clock [OF c] by simp
  qed
qed

lemma poll_cases:
  assumes "poll_event w s = Inr (ev, s')"
  obtains e where "us_pending s = Some e" "ev = Some e" "s' = s\<lparr>us_pending := None\<rparr>"
  | e where "us_pending s = None" "\<not> us_emitted s" "uw_poll w (us_polls s) = Inr (Some e)"
      "ev = Some User_Has_Interacted"
      "s' = s\<lparr>us_polls := us_polls s + 1, us_interaction := True, us_emitted := True, us_pending := Some e\<rparr>"
  | "us_pending s = None" "uw_poll w (us_polls s) = Inr ev" "us_emitted s \<or> ev = None"
      "s' = s\<lparr>us_polls := us_polls s + 1\<rparr>"
  using assms unfolding poll_event_def
  by (cases "us_pending s"; cases "uw_poll w (us_polls s)")
    (auto simp: intercept_def split: if_splits option.splits)

lemma later_poll:
  assumes "poll_event w s = Inr (ev, s')" "world_ok w"
  shows "later w s s'"
  using assms(1)
proof (cases rule: poll_cases)
  case (1 e)
  then show ?thesis by (auto simp: later_def came_def console_ok_def)
next
  case (2 e)
  have "came w s k e'" if "Suc (us_polls s) \<le> k" "came w s' k e'" for k e'
  proof -
    from that(2) consider "e' = e" | n where "Suc (us_polls s) \<le> n" "n < k" "uw_poll w n = Inr (Some e')"
      by (auto simp: came_def 2)
    then show ?thesis
    proof cases
      case 1
      then show ?thesis using 2 that(1) unfolding came_def by (intro disjI2 exI [of _ "us_polls s"]) simp
    next
      case (2 n)
      then show ?thesis unfolding came_def by (intro disjI2 exI [of _ n]) simp
    qed
  qed
  moreover have "event_ok e" using assms(2) 2(3) by (simp add: world_ok_def)
  ultimately show ?thesis by (simp add: later_def console_ok_def 2)
next
  case 3
  have "came w s k e'" if "came w s' k e'" for k e'
    using that 3 unfolding came_def by (auto intro: Suc_leD)
  then show ?thesis using 3 by (simp add: later_def console_ok_def)
qed

lemma poll_came:
  assumes "poll_event w s = Inr (Some (Key_Event key), s')"
  shows "came w s (us_polls s') (Key_Event key)"
  using assms by (cases rule: poll_cases) (auto simp: came_def)

lemma poll_ok:
  assumes "poll_event w s = Inr (Some ev, s')" "world_ok w" "console_ok s"
  shows "event_ok ev"
  using assms(1)
proof (cases rule: poll_cases)
  case (1 e)
  then show ?thesis using assms(3) by (simp add: console_ok_def)
next
  case (2 e)
  then show ?thesis by (simp add: event_ok_def)
next
  case 3
  then show ?thesis using assms(2) by (simp add: world_ok_def)
qed

subsection \<open>A boot is decided by Enter\<close>

lemma boot_needs_enter:
  assumes "on_key read key a = (fin, a')" "ap_decision a = None" "ap_decision a' = Some (BootGen i over)"
  shows "ke_press key \<and> ke_code key = KEnter"
proof -
  define a1 where "a1 = a\<lparr>ap_countdown := None\<rparr>"
  have press: "ke_press key" using assms by (auto simp: on_key_def split: if_splits)
  have a1: "ap_decision a1 = None" using assms(2) by (simp add: a1_def)
  have "ctrl_shortcut read (ke_code key) a1 = Some a' \<Longrightarrow> False"
    using a1 assms(3)
    by (auto simp: ctrl_shortcut_def close_log_def toggle_log_def Let_def split: if_splits screen.splits option.splits)
  then have "screen_key key a1 = (fin, a')"
    using assms(1) press
    by (auto simp: on_key_def Let_def a1_def split: if_splits option.splits)
  then have "ke_code key = KEnter"
  proof (cases "ap_screen a1")
    case List_Screen
    then show ?thesis using \<open>screen_key key a1 = (fin, a')\<close> a1 assms(3)
      by (auto simp: screen_key_def handle_list_key_def Let_def split: if_splits)
  next
    case (Log_Screen l)
    then show ?thesis using \<open>screen_key key a1 = (fin, a')\<close> a1 assms(3)
      by (auto simp: screen_key_def handle_log_key_def close_log_def Let_def split: key_code.splits option.splits)
  next
    case (Editing_Screen j l)
    then show ?thesis using \<open>screen_key key a1 = (fin, a')\<close> a1 assms(3)
      by (auto simp: screen_key_def handle_editing_key_def split: if_splits)
  next
    case (Passphrase_Screen p)
    then show ?thesis using \<open>screen_key key a1 = (fin, a')\<close> a1 assms(3)
      by (auto simp: screen_key_def handle_passphrase_key_def split: if_splits prod.splits)
  next
    case (Emergency_Screen e)
    then show ?thesis using \<open>screen_key key a1 = (fin, a')\<close> a1 assms(3)
      by (auto simp: screen_key_def handle_emergency_key_def Let_def split: if_splits option.splits)
  qed (use \<open>screen_key key a1 = (fin, a')\<close> a1 assms(3) in \<open>simp_all add: screen_key_def\<close>)
  with press show ?thesis by simp
qed

text \<open>What a loop that handles keys keeps: a sound state, and no boot without Enter.\<close>

definition handled :: "ui_world \<Rightarrow> app \<Rightarrow> ui_state \<Rightarrow> app \<Rightarrow> ui_state \<Rightarrow> bool" where
  "handled w a s a' s' \<longleftrightarrow>
     app_ok a' \<and> ap_generations a' = ap_generations a \<and> later w s s'
     \<and> (\<forall>i over. ap_decision a' = Some (BootGen i over) \<longrightarrow> entered w s s')"

definition ready :: "ui_world \<Rightarrow> app \<Rightarrow> ui_state \<Rightarrow> bool" where
  "ready w a s \<longleftrightarrow> world_ok w \<and> app_ok a \<and> gens_valid (ap_generations a) \<and> ap_decision a = None \<and> console_ok s"

lemma handled_trans:
  assumes "handled w a s a1 s1" "handled w a1 s1 a2 s2"
  shows "handled w a s a2 s2"
  using assms later_trans entered_earlier unfolding handled_def by metis

lemma ready_next: "ready w a s \<Longrightarrow> handled w a s a' s' \<Longrightarrow> ap_decision a' = None \<Longrightarrow> ready w a' s'"
  by (simp add: ready_def handled_def later_def)

lemma drain_turn_handled:
  assumes "ready w a s" "drain_turn w a dirty s = Inr (stop, a', dirty', s')"
  shows "handled w a s a' s' \<and> (\<not> stop \<longrightarrow> ap_decision a' = None)"
proof -
  obtain ev s1 where poll: "poll_event w s = Inr (ev, s1)"
    using assms(2) by (cases "poll_event w s") (auto simp: drain_turn_def)
  have lat: "later w s s1"
    using later_poll [OF poll] assms(1) by (simp add: ready_def)
  have same: "handled w a s a s1" using assms(1) lat by (simp add: handled_def ready_def)
  have none: "ap_decision a = None" using assms(1) by (simp add: ready_def)
  show ?thesis
  proof (cases ev)
    case None
    then show ?thesis using assms(2) poll same by (simp add: drain_turn_def)
  next
    case (Some e)
    show ?thesis
    proof (cases e)
      case (Key_Event key)
      obtain fin a1 where k: "on_key (uw_log w) key a = (fin, a1)" by (metis prod.exhaust)
      have "key_ok key"
        using poll_ok [of w s e s1] assms(1) poll Some Key_Event by (simp add: ready_def event_ok_def)
      then have ok: "app_ok a1 \<and> ap_generations a1 = ap_generations a"
        using on_key_ok [of a key "uw_log w"] assms(1) k by (simp add: ready_def)
      have "entered w s s1" if "ap_decision a1 = Some (BootGen i over)" for i over
        using boot_needs_enter [OF k none that] poll_came [of w s key s1] poll Some Key_Event
        unfolding entered_def by blast
      then have "handled w a s a1 s1" using ok lat by (simp add: handled_def)
      moreover have "a' = a1 \<and> s' = s1 \<and> (stop \<longleftrightarrow> fin \<or> ap_decision a1 \<noteq> None)"
        using assms(2) poll Some Key_Event k by (auto simp: drain_turn_def split: if_splits)
      ultimately show ?thesis by simp
    qed (use assms(2) poll Some same none in \<open>simp_all add: drain_turn_def\<close>)
  qed
qed

lemma drain_handled:
  assumes "drain_events w a dirty s = Some r"
  shows "\<forall>a' dirty' s'. r = Inr (a', dirty', s') \<longrightarrow> ready w a s \<longrightarrow> handled w a s a' s'"
proof (rule drain_events.raw_induct [OF _ assms], goal_cases)
  case (1 f w a dirty s r)
  show ?case
  proof (intro allI impI)
    fix a' dirty' s' assume r: "r = Inr (a', dirty', s')" and ready: "ready w a s"
    obtain stop a1 dirty1 s1 where turn: "drain_turn w a dirty s = Inr (stop, a1, dirty1, s1)"
      using 1(2) r by (cases "drain_turn w a dirty s") auto
    note one = drain_turn_handled [OF ready turn]
    show "handled w a s a' s'"
    proof (cases stop)
      case True
      then show ?thesis using 1(2) r turn one by simp
    next
      case False
      then have "f w a1 dirty1 s1 = Some r" using 1(2) turn by simp
      from 1(1) [OF this] r ready_next [OF ready] one False
      have "handled w a1 s1 a' s'" by blast
      then show ?thesis using handled_trans one by blast
    qed
  qed
qed

lemma later_handled: "ready w a s \<Longrightarrow> later w s s' \<Longrightarrow> handled w a s a s'"
  by (simp add: handled_def ready_def)

lemma event_loop_handled:
  assumes "event_loop w a dirty lst s = Some r"
  shows "\<forall>d s'. r = Inr (d, s') \<longrightarrow> ready w a s \<longrightarrow> (\<exists>a'. ap_decision a' = Some d \<and> handled w a s a' s')"
proof (rule event_loop.raw_induct [OF _ assms], goal_cases)
  case (1 f w a dirty lst s r)
  show ?case
  proof (intro allI impI)
    fix d s' assume r: "r = Inr (d, s')" and ready: "ready w a s"
    obtain dirty1 lst1 s1 where draw: "draw_turn w a dirty lst s = Inr (dirty1, lst1, s1)"
      using 1(2) r by (cases "draw_turn w a dirty lst s") auto
    have h1: "handled w a s a s1" by (rule later_handled [OF ready later_draw [OF draw]])
    have r1: "ready w a s1" using ready_next [OF ready h1] ready by (simp add: ready_def)
    obtain a2 dirty2 s2 where drain_events: "drain_events w a dirty1 s1 = Some (Inr (a2, dirty2, s2))"
      using 1(2) r draw by (auto split: option.splits sum.splits)
    have h2: "handled w a1 s1 a2 s2" if "a1 = a" for a1
      using drain_handled [OF drain_events] r1 that by simp
    have h: "handled w a s a2 s2" by (rule handled_trans [OF h1 h2]) (rule refl)
    show "\<exists>a'. ap_decision a' = Some d \<and> handled w a s a' s'"
    proof (cases "ap_decision a2")
      case (Some d2)
      then have "d2 = d \<and> s2 = s'" using 1(2) r draw drain_events by simp
      then show ?thesis using Some h by blast
    next
      case None
      then have "f w a2 dirty2 lst1 s2 = Some r" using 1(2) draw drain_events by simp
      from 1(1) [OF this] r ready_next [OF ready h None] obtain a' where
        "ap_decision a' = Some d" "handled w a2 s2 a' s'" by blast
      then show ?thesis using handled_trans [OF h] by blast
    qed
  qed
qed

subsection \<open>The countdown expires only when nobody is there\<close>

definition absent :: "ui_state \<Rightarrow> bool" where
  "absent s \<longleftrightarrow> \<not> us_interaction s \<and> \<not> us_emitted s \<and> us_pending s = None"

definition silent :: "ui_world \<Rightarrow> ui_state \<Rightarrow> ui_state \<Rightarrow> bool" where
  "silent w s s' \<longleftrightarrow> us_polls s \<le> us_polls s'
     \<and> (\<forall>n. us_polls s \<le> n \<and> n < us_polls s' \<longrightarrow> uw_poll w n = Inr None)"

lemma silent_trans: "silent w s s1 \<Longrightarrow> silent w s1 s2 \<Longrightarrow> silent w s s2"
  unfolding silent_def by (meson order_trans linorder_not_less)

lemma absent_clock:
  "read_clock w s = (t, s') \<Longrightarrow> absent s \<Longrightarrow> absent s' \<and> silent w s s'"
  by (auto simp: read_clock_def absent_def silent_def)

lemma absent_tick:
  "on_tick w secs a s = Inr s' \<Longrightarrow> absent s \<Longrightarrow> absent s' \<and> silent w s s'"
  by (auto simp: on_tick_def render_def absent_def silent_def split: if_splits)

lemma absent_poll:
  assumes "poll_event w s = Inr (ev, s')" "absent s"
  shows "(ev = None \<and> absent s' \<and> silent w s s') \<or> ev = Some User_Has_Interacted"
  using assms(1)
proof (cases rule: poll_cases)
  case 3
  then have "ev = None" using assms(2) by (simp add: absent_def)
  with 3 assms(2) show ?thesis by (auto simp: absent_def silent_def less_Suc_eq)
qed (use assms(2) in \<open>simp_all add: absent_def\<close>)

lemma countdown_turn_absent:
  assumes "countdown_turn w presence a deadline shown s = Inr (out, shown', s')" "absent s"
    "out \<noteq> Some Cancelled"
  shows "absent s' \<and> silent w s s'"
proof -
  obtain now s1 where c: "read_clock w s = (now, s1)" by (metis prod.exhaust)
  note h1 = absent_clock [OF c assms(2)]
  show ?thesis
  proof (cases "deadline < now")
    case True
    then show ?thesis using assms(1) c h1 by (simp add: countdown_turn_def)
  next
    case False
    obtain ev s2 where p: "poll_event w s1 = Inr (ev, s2)"
      using assms(1) c False by (cases "poll_event w s1") (auto simp: countdown_turn_def)
    have "ev \<noteq> Some User_Has_Interacted"
      using assms(1,3) c False p by (auto simp: countdown_turn_def presence_def)
    then have ev: "ev = None" and h2: "absent s2 \<and> silent w s1 s2"
      using absent_poll [OF p] h1 by auto
    obtain now' s3 where c': "read_clock w s2 = (now', s3)" by (metis prod.exhaust)
    have h3: "absent s3 \<and> silent w s s3"
      using absent_clock [OF c'] h1 h2 silent_trans by blast
    have rest: "(if deadline < now' then Inr (Some Expired, shown, s3)
        else if ceil_secs (deadline - now') = shown then Inr (None, shown, s3)
        else rbind (on_tick w (ceil_secs (deadline - now')) a s3)
          (\<lambda>s4. Inr (None, ceil_secs (deadline - now'), s4))) = Inr (out, shown', s')"
      using assms(1) c False p ev c' by (simp add: countdown_turn_def Let_def cong: if_cong)
    show ?thesis
    proof (cases "deadline < now' \<or> ceil_secs (deadline - now') = shown")
      case True
      then show ?thesis using rest h3 by (auto split: if_splits)
    next
      case False
      then obtain s4 where "on_tick w (ceil_secs (deadline - now')) a s3 = Inr s4" "s4 = s'"
        using rest by (cases "on_tick w (ceil_secs (deadline - now')) a s3") auto
      then show ?thesis using absent_tick h3 silent_trans by blast
    qed
  qed
qed

lemma countdown_loop_absent:
  assumes "countdown_loop w cancels a deadline shown s = Some r"
  shows "\<forall>s'. cancels = presence \<longrightarrow> r = Inr (Expired, s') \<longrightarrow> absent s \<longrightarrow> absent s' \<and> silent w s s'"
proof (rule countdown_loop.raw_induct [OF _ assms], goal_cases)
  case (1 f w cancels a deadline shown s r)
  show ?case
  proof (intro allI impI)
    fix s' assume p: "cancels = presence" and r: "r = Inr (Expired, s')" and ab: "absent s"
    obtain out shown1 s1 where turn: "countdown_turn w presence a deadline shown s = Inr (out, shown1, s1)"
      using 1(2) r p by (cases "countdown_turn w presence a deadline shown s") auto
    show "absent s' \<and> silent w s s'"
    proof (cases out)
      case None
      then have "f w cancels a deadline shown1 s1 = Some r" using 1(2) turn p by simp
      from 1(1) [OF this] p r countdown_turn_absent [OF turn ab] None
      show ?thesis using silent_trans by blast
    next
      case (Some oc)
      then have "oc = Expired \<and> s1 = s'" using 1(2) turn p r by simp
      then show ?thesis using countdown_turn_absent [OF turn ab] Some by simp
    qed
  qed
qed

text \<open>What a cancelled countdown leaves.\<close>

lemma countdown_turn_later:
  assumes "countdown_turn w cancels a deadline shown s = Inr (out, shown', s')" "world_ok w"
  shows "later w s s'"
proof -
  obtain now s1 where c: "read_clock w s = (now, s1)" by (metis prod.exhaust)
  show ?thesis
  proof (cases "deadline < now")
    case True
    then show ?thesis using assms(1) c later_clock [OF c] by (simp add: countdown_turn_def)
  next
    case False
    obtain ev s2 where p: "poll_event w s1 = Inr (ev, s2)"
      using assms(1) c False by (cases "poll_event w s1") (auto simp: countdown_turn_def)
    have l2: "later w s s2" by (rule later_trans [OF later_clock [OF c] later_poll [OF p assms(2)]])
    obtain now' s3 where c': "read_clock w s2 = (now', s3)" by (metis prod.exhaust)
    have l3: "later w s s3" by (rule later_trans [OF l2 later_clock [OF c']])
    from assms(1) c False p c' consider "s' = s2" | "s' = s3" | secs where "on_tick w secs a s3 = Inr s'"
      by (cases "on_tick w (ceil_secs (deadline - now')) a s3")
        (auto simp: countdown_turn_def Let_def split: if_splits)
    then show ?thesis
    proof cases
      case (3 secs)
      then have "later w s3 s'" using later_render by (simp add: on_tick_def)
      then show ?thesis by (rule later_trans [OF l3])
    qed (use l2 l3 in simp_all)
  qed
qed

lemma countdown_loop_later:
  assumes "countdown_loop w cancels a deadline shown s = Some r"
  shows "\<forall>out s'. world_ok w \<longrightarrow> r = Inr (out, s') \<longrightarrow> later w s s'"
proof (rule countdown_loop.raw_induct [OF _ assms], goal_cases)
  case (1 f w cancels a deadline shown s r)
  show ?case
  proof (intro allI impI)
    fix out s' assume w: "world_ok w" and r: "r = Inr (out, s')"
    obtain oc shown1 s1 where turn: "countdown_turn w cancels a deadline shown s = Inr (oc, shown1, s1)"
      using 1(2) r by (cases "countdown_turn w cancels a deadline shown s") auto
    show "later w s s'"
    proof (cases oc)
      case None
      then have "f w cancels a deadline shown1 s1 = Some r" using 1(2) turn by simp
      from 1(1) [OF this] w r show ?thesis
        using later_trans [OF countdown_turn_later [OF turn w]] by blast
    next
      case (Some x)
      then have "s1 = s'" using 1(2) turn r by simp
      then show ?thesis using countdown_turn_later [OF turn w] by simp
    qed
  qed
qed

lemma countdown_later:
  assumes "run_console_countdown w a duration s = Some (Inr (out, s'))" "world_ok w"
  shows "later w s s'"
proof -
  obtain start s1 where c: "read_clock w s = (start, s1)" by (metis prod.exhaust)
  obtain s2 where t: "on_tick w (ceil_secs duration) a s1 = Inr s2"
    using assms(1) c unfolding run_console_countdown_def countdown_run_def
    by (cases "on_tick w (ceil_secs duration) a s1") auto
  have "countdown_loop w presence a (start + duration) (ceil_secs duration) s2 = Some (Inr (out, s'))"
    using assms(1) c t by (simp add: run_console_countdown_def countdown_run_def)
  then have "later w s2 s'" using countdown_loop_later assms(2) by blast
  moreover have "later w s1 s2" using t later_render by (simp add: on_tick_def)
  ultimately show ?thesis using later_trans later_clock [OF c] by blast
qed

lemma countdown_absent:
  assumes "run_console_countdown w a duration s = Some (Inr (Expired, s'))" "absent s"
  shows "absent s' \<and> silent w s s'"
proof -
  obtain start s1 where c: "read_clock w s = (start, s1)" by (metis prod.exhaust)
  obtain s2 where t: "on_tick w (ceil_secs duration) a s1 = Inr s2"
    using assms(1) c unfolding run_console_countdown_def countdown_run_def
    by (cases "on_tick w (ceil_secs duration) a s1") auto
  have loop: "countdown_loop w presence a (start + duration) (ceil_secs duration) s2 = Some (Inr (Expired, s'))"
    using assms(1) c t by (simp add: run_console_countdown_def countdown_run_def)
  have "absent s2 \<and> silent w s s2"
    using absent_clock [OF c assms(2)] absent_tick [OF t] silent_trans by blast
  then show ?thesis using countdown_loop_absent [OF loop] silent_trans by blast
qed

lemma absent_console: "console_ok s \<Longrightarrow> \<not> us_interaction s \<Longrightarrow> absent s"
  by (auto simp: console_ok_def absent_def)

lemma selector_app_ok: "d < length gens \<Longrightarrow> app_ok (selector_app cfg gens d)"
  by (simp add: selector_app_def new_app_def app_ok_def idx_ok_def)


subsection \<open>A machine nobody attends boots\<close>

definition idle :: "ui_world \<Rightarrow> bool" where
  "idle w \<longleftrightarrow> (\<forall>n. uw_poll w n = Inr None \<and> uw_render w n)"

definition passes :: "ui_world \<Rightarrow> nat \<Rightarrow> nat \<Rightarrow> bool" where
  "passes w deadline n \<longleftrightarrow> (\<forall>m\<ge>n. deadline < uw_now w m)"

lemma idle_turn:
  assumes "idle w" "absent s"
  obtains shown' s' where "countdown_turn w presence a deadline shown s = Inr (Some Expired, shown', s')"
  | shown' s' where "countdown_turn w presence a deadline shown s = Inr (None, shown', s')" "absent s'"
      "us_clock s < us_clock s'" "uw_now w (us_clock s) \<le> deadline"
proof -
  have poll: "poll_event w s0 = Inr (None, s0\<lparr>us_polls := us_polls s0 + 1\<rparr>)" if "absent s0" for s0
    using assms(1) that by (simp add: poll_event_def idle_def absent_def intercept_def)
  have tick: "on_tick w secs a s0 = Inr (s0\<lparr>us_frames := us_frames s0 @ [Some secs]\<rparr>)" for secs s0
    using assms(1) by (simp add: on_tick_def render_def idle_def)
  define s1 where "s1 = s\<lparr>us_clock := us_clock s + 1\<rparr>"
  define s2 where "s2 = s1\<lparr>us_polls := us_polls s1 + 1\<rparr>"
  define s3 where "s3 = s2\<lparr>us_clock := us_clock s + 2\<rparr>"
  define secs where "secs = ceil_secs (deadline - uw_now w (us_clock s + 1))"
  have ab: "absent s1" "absent s3" using assms(2) by (simp_all add: absent_def s1_def s2_def s3_def)
  have "read_clock w s = (uw_now w (us_clock s), s1)" "poll_event w s1 = Inr (None, s2)"
    "read_clock w s2 = (uw_now w (us_clock s + 1), s3)"
    using poll [OF ab(1)] by (simp_all add: read_clock_def s1_def s2_def s3_def)
  then have turn: "countdown_turn w presence a deadline shown s =
      (if deadline < uw_now w (us_clock s) then Inr (Some Expired, shown, s1)
       else if deadline < uw_now w (us_clock s + 1) then Inr (Some Expired, shown, s3)
       else if secs = shown then Inr (None, shown, s3)
       else Inr (None, secs, s3\<lparr>us_frames := us_frames s3 @ [Some secs]\<rparr>))"
    by (simp add: countdown_turn_def tick Let_def secs_def)
  show thesis
  proof (cases "deadline < uw_now w (us_clock s) \<or> deadline < uw_now w (us_clock s + 1)")
    case True
    then show thesis using turn that(1) by (auto split: if_splits)
  next
    case False
    have "absent (s3\<lparr>us_frames := fr\<rparr>)" "us_clock s < us_clock (s3\<lparr>us_frames := fr\<rparr>)" for fr
      using ab(2) by (simp_all add: absent_def s3_def)
    moreover have "us_clock s < us_clock s3" by (simp add: s3_def)
    ultimately show thesis
      using turn False that(2) [of shown s3] that(2) ab(2) by (cases "secs = shown") simp_all
  qed
qed

lemma idle_loop_expires:
  assumes "idle w" "passes w deadline n" "absent s"
  shows "\<exists>s'. countdown_loop w presence a deadline shown s = Some (Inr (Expired, s'))"
  using assms(3)
proof (induction "n - us_clock s" arbitrary: s shown rule: less_induct)
  case less
  show ?case
  proof (rule idle_turn [OF assms(1) less.prems, of a deadline shown])
    fix shown' s' assume "countdown_turn w presence a deadline shown s = Inr (Some Expired, shown', s')"
    then show ?thesis by (subst countdown_loop.simps) simp
  next
    fix shown' s' assume go: "countdown_turn w presence a deadline shown s = Inr (None, shown', s')"
      "absent s'" "us_clock s < us_clock s'" "uw_now w (us_clock s) \<le> deadline"
    have "us_clock s < n" using assms(2) go(4) unfolding passes_def by (meson linorder_not_less)
    with go(3) have "n - us_clock s' < n - us_clock s" by simp
    from less.hyps [OF this go(2), of shown'] go(1) show ?thesis
      by (subst countdown_loop.simps) simp
  qed
qed

lemma idle_selector:
  assumes "idle w" "passes w (uw_now w (us_clock s) + sc_timeout_ms cfg * 1000000) n" "absent s"
  shows "\<exists>s'. run_selector_on_console w cfg gens d s = Some (Inr (BootGen d None, s'))"
proof -
  define a where "a = selector_app cfg gens d"
  define duration where "duration = sc_timeout_ms cfg * 1000000"
  define s1 where "s1 = s\<lparr>us_clock := us_clock s + 1\<rparr>"
  define s2 where "s2 = s1\<lparr>us_frames := us_frames s1 @ [Some (ceil_secs duration)]\<rparr>"
  have "on_tick w (ceil_secs duration) a s1 = Inr s2"
    using assms(1) by (simp add: on_tick_def render_def idle_def s2_def)
  moreover have "absent s2" using assms(3) by (simp add: absent_def s1_def s2_def)
  then obtain s' where "countdown_loop w presence a (uw_now w (us_clock s) + duration) (ceil_secs duration) s2 =
      Some (Inr (Expired, s'))"
    using idle_loop_expires [OF assms(1,2)] unfolding duration_def by blast
  ultimately have "run_console_countdown w a duration s = Some (Inr (Expired, s'))"
    by (simp add: run_console_countdown_def countdown_run_def read_clock_def s1_def)
  then have "run_selector_on_console w cfg gens d s = Some (Inr (BootGen d None, s'))"
    using assms(3) unfolding run_selector_on_console_def Let_def a_def [symmetric] duration_def [symmetric]
    by (simp add: absent_def)
  then show ?thesis by blast
qed

text \<open>C36: A machine nobody attends boots. When the console surfaces nothing, its frames are drawn and
  the clock passes the time-out for good, the selector returns, with the default entry.\<close>

theorem unattended_boot_happens:
  assumes "idle w" "passes w (uw_now w (us_clock s) + sc_timeout_ms cfg * 1000000) n"
    and "console_ok s" "\<not> us_interaction s"
  shows "\<exists>s'. run_selector_on_console w cfg gens d s = Some (Inr (BootGen d None, s'))"
  by (rule idle_selector [OF assms(1,2) absent_console [OF assms(3,4)]])

text \<open>A clock that advances by a second with each reading; in the second world the operator presses
  the key down, then Enter.\<close>

definition fresh_ui :: ui_state where
  "fresh_ui = \<lparr>us_polls = 0, us_clock = 0, us_frames = [], us_interaction = False, us_emitted = False,
     us_pending = None\<rparr>"

definition quiet_world :: ui_world where
  "quiet_world = \<lparr>uw_poll = \<lambda>_. Inr None, uw_now = \<lambda>n. n * 1000000000, uw_render = \<lambda>_. True, uw_log = \<lambda>_. []\<rparr>"

theorem unattended_boot_happens_witness:
  "\<exists>s'. run_selector_on_console quiet_world \<lparr>sc_timeout_ms = 5000, sc_show_params = False\<rparr> demo_menu 0 fresh_ui =
     Some (Inr (BootGen 0 None, s'))"
proof (rule unattended_boot_happens)
  show "idle quiet_world" by (simp add: idle_def quiet_world_def)
  show "passes quiet_world (uw_now quiet_world (us_clock fresh_ui) +
      sc_timeout_ms \<lparr>sc_timeout_ms = 5000, sc_show_params = False\<rparr> * 1000000) 6"
    by (simp add: passes_def quiet_world_def fresh_ui_def)
  show "console_ok fresh_ui" "\<not> us_interaction fresh_ui" by (simp_all add: console_ok_def fresh_ui_def)
qed

definition busy_world :: ui_world where
  "busy_world = quiet_world\<lparr>uw_poll := \<lambda>n. if n = 0 then Inr (Some (Key_Event (plain KDown)))
     else if n = 1 then Inr (Some (Key_Event (plain KEnter))) else Inr None\<rparr>"

lemma busy_turn:
  assumes "us_clock s = 1" "us_polls s = 0" "absent s"
  shows "countdown_turn busy_world presence a 5000000000 5 s = Inr (Some Cancelled, 5, s\<lparr>us_clock := 2,
    us_polls := 1, us_interaction := True, us_emitted := True, us_pending := Some (Key_Event (plain KDown))\<rparr>)"
  using assms by (simp add: countdown_turn_def read_clock_def poll_event_def intercept_def busy_world_def
      quiet_world_def presence_def absent_def)

definition cancelled_ui :: ui_state where
  "cancelled_ui = \<lparr>us_polls = 1, us_clock = 2, us_frames = [Some 5], us_interaction = True,
     us_emitted = True, us_pending = Some (Key_Event (plain KDown))\<rparr>"

lemma busy_countdown:
  "run_console_countdown busy_world a 5000000000 fresh_ui = Some (Inr (Cancelled, cancelled_ui))"
proof -
  define s1 where "s1 = fresh_ui\<lparr>us_clock := 1, us_frames := [Some 5]\<rparr>"
  have "absent s1" "us_clock s1 = 1" "us_polls s1 = 0" by (simp_all add: s1_def fresh_ui_def absent_def)
  then have "countdown_loop busy_world presence a 5000000000 5 s1 = Some (Inr (Cancelled, cancelled_ui))"
    by (subst countdown_loop.simps) (simp add: busy_turn, simp add: s1_def cancelled_ui_def fresh_ui_def)
  moreover have "read_clock busy_world fresh_ui = (0, fresh_ui\<lparr>us_clock := 1\<rparr>)"
    "on_tick busy_world 5 a (fresh_ui\<lparr>us_clock := 1\<rparr>) = Inr s1"
    by (simp_all add: read_clock_def on_tick_def render_def busy_world_def quiet_world_def fresh_ui_def s1_def)
  ultimately show ?thesis
    by (simp add: run_console_countdown_def countdown_run_def ceil_secs_def)
qed

lemma busy_keys:
  "on_key read (plain KDown) (selector_app cfg demo_menu 0) = (False, selector_app cfg demo_menu 0)"
  "on_key read (plain KEnter) (selector_app cfg demo_menu 0) =
     (True, (selector_app cfg demo_menu 0)\<lparr>ap_decision := Some (BootGen 0 None)\<rparr>)"
  by (simp_all add: on_key_def plain_def screen_key_def selector_app_def new_app_def handle_list_key_def
      char_key_def Let_def demo_menu_def)

lemma busy_drain:
  assumes "us_polls s = 1" "us_emitted s" "us_pending s = Some (Key_Event (plain KDown))"
  shows "\<exists>a' dirty' s'. drain_events busy_world (selector_app cfg demo_menu 0) dirty s = Some (Inr (a', dirty', s'))
    \<and> ap_decision a' = Some (BootGen 0 None)"
proof -
  define a where "a = selector_app cfg demo_menu 0"
  have "ap_decision a = None" by (simp add: a_def selector_app_def new_app_def)
  then have one: "drain_turn busy_world a dirty s = Inr (False, a, True, s\<lparr>us_pending := None\<rparr>)"
    using assms(3) by (simp add: drain_turn_def poll_event_def a_def busy_keys)
  have two: "drain_turn busy_world a True (s\<lparr>us_pending := None\<rparr>) =
      Inr (True, a\<lparr>ap_decision := Some (BootGen 0 None)\<rparr>, True, s\<lparr>us_pending := None, us_polls := 2\<rparr>)"
    using assms by (simp add: drain_turn_def poll_event_def a_def busy_keys busy_world_def intercept_def)
  show ?thesis
    unfolding a_def [symmetric]
    by (subst drain_events.simps, simp add: one, subst drain_events.simps, simp add: two, blast)
qed

lemma busy_run:
  "\<exists>s'. run_selector_on_console busy_world \<lparr>sc_timeout_ms = 5000, sc_show_params = False\<rparr> demo_menu 0 fresh_ui =
     Some (Inr (BootGen 0 None, s'))"
proof -
  define a where "a = selector_app \<lparr>sc_timeout_ms = 5000, sc_show_params = False\<rparr> demo_menu 0"
  define s2 where "s2 = cancelled_ui\<lparr>us_clock := 3\<rparr>"
  define lst where "lst = 2000000000 - FRAME_INTERVAL"
  define s3 where "s3 = s2\<lparr>us_clock := 5, us_frames := [Some 5, None]\<rparr>"
  have draw: "draw_turn busy_world a True lst s2 = Inr (False, 4000000000, s3)"
    by (simp add: draw_turn_def read_clock_def render_gate_def FRAME_INTERVAL_def lst_def busy_world_def
        quiet_world_def render_def Let_def s2_def s3_def cancelled_ui_def a_def selector_app_def new_app_def)
  have "us_polls s3 = 1" "us_emitted s3" "us_pending s3 = Some (Key_Event (plain KDown))"
    by (simp_all add: s3_def s2_def cancelled_ui_def)
  from busy_drain [OF this] obtain a' dirty' s' where "drain_events busy_world a False s3 = Some (Inr (a', dirty', s'))"
    "ap_decision a' = Some (BootGen 0 None)"
    unfolding a_def by blast
  then have "event_loop busy_world a True lst s2 = Some (Inr (BootGen 0 None, s'))"
    by (subst event_loop.simps) (simp add: draw)
  moreover have "read_clock busy_world cancelled_ui = (2000000000, s2)"
    by (simp add: read_clock_def busy_world_def quiet_world_def cancelled_ui_def s2_def)
  moreover have "\<not> us_interaction fresh_ui" by (simp add: fresh_ui_def)
  ultimately show ?thesis
    unfolding run_selector_on_console_def Let_def a_def [symmetric]
    by (simp add: busy_countdown lst_def FRAME_INTERVAL_def)
qed


end
