(* ===== verification/Spec2Isabelle.thy ===== *)
theory Spec2Isabelle
  imports Boot_Dispatch Logs Cpio Priority_Gate Update_Service Bundle_Receive Kernel_Modules
  Seal_Policy Tpm Driver_Images Staged_Boot Kexec_Handoff Activation_Run Rescue_Image Selector
begin

text \<open>
  A verification development for nmbl, a boot loader that runs as the init of a small kernel,
  chooses a NixOS generation and hands over to it with kexec. The code is the crate
  \<open>src/sirati-nmbl/nmbl-init-rs\<close>; the paths below are relative to its \<open>src\<close> directory, those
  that start with the name of another crate (\<open>nmbl-boot-update\<close>, \<open>nmbl-host-tools\<close>) to the
  directory of that crate, which stands beside it.

  How a boot goes. The volumes are brought up, a configured priority file is checked
  (\<open>policy/gate.rs\<close>), the profile links are scanned for generations
  (\<open>generations\<close>), and one of them is chosen: by a forced rescue (\<open>policy/sentinel.rs\<close>), by
  an operator's retry (\<open>boot_selection.rs\<close>), by the rollback decision over the persistent
  state (\<open>state\<close>), or by the operator in the selector (\<open>ui\<close>). A generation image carries
  a second, nested record of its own attempts (\<open>generation_state.rs\<close>). The
  generation that was chosen is checked against the baked keys (\<open>sig\<close>), measured into the TPM
  (\<open>tpm\<close>) and loaded, with a cpio fragment appended to its initrd (\<open>sys/cpio.rs\<close>,
  \<open>boot\<close>); the transcript of the boot is kept in rings (\<open>log\<close>) and travels with it. On the way
  signed driver images are mounted (\<open>imageload\<close>) and a signed fragment may replace tables of the
  configuration (\<open>staged\<close>). A boot that must not go on is refused, and before any shell the TPM is
  capped and the volumes it unsealed are closed (\<open>policy\<close>).

  How the loader itself is updated. A host tool signs the files of a boot set
  (\<open>nmbl-host-tools/src/sign.rs\<close>), the producer of \<open>nmbl-boot-update\<close> puts them with a signed
  manifest into a bundle, a peer that the operating system authenticates hands the bundle to the
  update service, and the service installs it on each mirror of the boot volume: into the slot
  that is not active, then a switch of one selector file.

  The theories, in the order they build on each other.

  \<^item> \<open>Nmbl_Prelude\<close>: bytes, results as sums, saturating counters, lists (the newest n
    entries, positions), the collections of simplification rules.
  \<^item> \<open>Text\<close>: the operations of \<open>str\<close> in use, as functions on UTF-8 byte strings: trimming,
    splitting, lines, decimal and hexadecimal parsing and printing, lossy decoding.
  \<^item> \<open>Fs_Path\<close>: \<open>std::path\<close> on Unix.
  \<^item> \<open>Interfaces\<close>: the contracts of several components as locales. \<open>text_format\<close> (a writer and
    a reader that reads it back) is interpreted for both selection files, the signature header and
    fingerprints; \<open>bounded_log\<close> for both log rings; \<open>guarded_machine\<close> (steps with an invariant)
    for the nested generation state. Each interpretation stands with its provider.
  \<^item> \<open>Generations\<close>: \<open>generations/scan.rs, resolve.rs, readiness.rs, gen_id.rs\<close>. The scan
    gives the generations sorted newest first; the file system is a record of answers.
  \<^item> \<open>Boot_State\<close>: \<open>state/types.rs, state/decide.rs\<close>. \<open>decide\<close> is translated branch by branch; the
    lemmas say what a forced pick is, that the state stays well-formed, that the ring rotates.
  \<^item> \<open>State_Io\<close>: \<open>state/io.rs, state/rescue_exit.rs\<close>. A state file is its bytes or absent; a
    write either succeeds, leaves the old file, or fails after the new one is in place. The CBOR
    codec is a parameter, and \<open>codec_ok\<close> its documented law; \<open>table_codec\<close> is an instance.
  \<^item> \<open>Boot_Selection\<close>: \<open>boot_selection.rs\<close>, with the ownership and mode checks on the retry
    marker and the order of removal and sync.
  \<^item> \<open>Generation_State\<close>: \<open>generation_state.rs\<close>. Each entry point is a plan, a list of file
    system operations, and a fuse that may cut it off after any of them.
  \<^item> \<open>Boot_Dispatch\<close>: \<open>main_parts/dispatch.rs, main_parts/stateful.rs, ui/instant_boot.rs,
    policy/sentinel.rs, generation_store.rs\<close>. The disk is a map from state directories to what
    they hold; the composition of the components above into the choice of one boot. The
    inductive \<open>failed_boots\<close> counts boots that fail one after the other.
  \<^item> \<open>Logs\<close>: \<open>log/ring.rs, log/byte_ring.rs, log/kmsg_read.rs, handover/logbuf.rs\<close>.
  \<^item> \<open>Cpio\<close>: \<open>sys/cpio.rs\<close> and the decoder \<open>handover/cpio.rs\<close>.
  \<^item> \<open>Sig_Wire\<close>: \<open>sig/alg.rs, sig/wire.rs, sig/sidecar.rs\<close>; \<open>Signatures\<close>: \<open>sig/keys.rs,
    verify.rs, scan.rs, gate.rs, boot_config.rs\<close>. The hash functions and the signature schemes are the
    parameter record \<open>crypto\<close>; nothing is assumed of them but the length of a digest where needed.
  \<^item> \<open>Mount_Options\<close>: the option table and the folding of \<open>sys/mount.rs\<close>.
  \<^item> \<open>Priority_Gate\<close>: \<open>policy/gate.rs, util/hex.rs\<close>.
  \<^item> \<open>Host_Tools\<close>: \<open>nmbl-host-tools/src/domain.rs, keyfile.rs, sign.rs, verify.rs\<close>. The roles,
    the private key container, signing and the verification under one key. Signing is the
    parameter record \<open>signer\<close>, its law that the verifier of the same scheme accepts what it makes.
  \<^item> \<open>Boot_Bundle\<close>: \<open>nmbl-boot-update/src/manifest.rs, validate.rs, prepare.rs\<close>. The JSON reader is a
    parameter; what the manifest must look like, the check of a bundle and the producer are
    written out, and the producer is shown to satisfy the check.
  \<^item> \<open>Slot_Transaction\<close>: \<open>nmbl-boot-update/src/transaction.rs\<close>. Every effect on the volume meets a
    fate: it succeeds, it fails after a number of effects, or the power is lost there. Programs
    are functions of the state in a small monad, and the triples \<open>triple P m Q E\<close> say what holds
    after a return and at every interruption. The contract \<open>update_is_atomic_switch\<close> refines the
    transaction to a switch between two checked slots.
  \<^item> \<open>Update_Service\<close>: \<open>nmbl-boot-update/src/protocol.rs\<close>. The peer checks around the request and
    the order of the mirrors.
  \<^item> \<open>Bundle_Receive\<close>: \<open>nmbl-host-tools/src/receive.rs\<close>. The stream of a generation bundle, its
    verification, installation and activation. The store and the selectors are those
    \<open>Generation_State\<close> reads, so the boots that follow a deployment are part of the same machine
    (the interpretation \<open>deploy\<close> of \<open>guarded_machine\<close>).
  \<^item> \<open>Kernel_Modules\<close>: \<open>sys/module/dep.rs, sys/module/load.rs, modules.rs\<close>. The walk over the
    dependency graph is a nested recursion; it ends because the modules being visited become more
    and are names of the dependency file. The calls of the kernel are a list in order.
  \<^item> \<open>Seal_Policy\<close>: \<open>policy/guard.rs, registry.rs, relock.rs, relock/argv.rs, activation/seal.rs\<close> and
    the sites that start a shell (\<open>shell, rescue, ui/remote, main_parts\<close>). Events are a trace and the
    world answers by the trace; the registry of open mappers is in memory and in a file, and a panic
    keeps the file. The machine \<open>seal_step\<close> takes the sites in any order; the locales
    \<open>mapper_cover\<close> and \<open>panic_cover\<close> say what memory and file must cover, and are interpreted on both.
  \<^item> \<open>Tpm\<close>: \<open>tpm\<close>. The transport loops are partial functions, since a device may interrupt them for
    ever; a scripted device shows that a sound frame is read whatever the pieces. The measurement is
    shown to be the prediction, and the prediction to bind what it hashes up to collisions.
  \<^item> \<open>Driver_Images\<close>: \<open>imageload, sys/loopdev/bind.rs\<close>. The world holds what a loop device serves; the
    invariant is that it is signed. \<open>Staged_Boot\<close>: \<open>staged, config/fragment.rs\<close>. The merge swaps tables
    and undoes the swaps; it is shown equal to an overlay that is taken whole or not at all.
  \<^item> \<open>Kexec_Handoff\<close>: \<open>boot, sys/kexec.rs, handover/cmdline.rs\<close>. What reaches the kexec slot, the TPM
    and the command line, composed from \<open>Signatures\<close>, \<open>Tpm\<close>, \<open>Driver_Images\<close>, \<open>Cpio\<close> and \<open>Logs\<close>.
  \<^item> \<open>Poll_Loop\<close>: the contract of a loop that asks until it is answered, as the locale \<open>poll_loop\<close>.
    \<open>Device_Wait\<close>: \<open>devices/mod.rs, activation/helpers/source_wait.rs\<close>, the two waits for a device node,
    interpretations of it.
  \<^item> \<open>Activation_Run\<close>: \<open>activation, sys/activation\<close>. The run over the activations: waits, the prompt and
    its retries, the exit status, the registration of mappers and the keys handed on. Every run is
    shown to be steps of the machine of \<open>Seal_Policy\<close>, and to end.
  \<^item> \<open>Net_Dhcp\<close>: \<open>net/dhcp\<close>, the framing, the messages, the receive loop (an interpretation of
    \<open>poll_loop\<close>) and the two exchanges; the message codec is a parameter. \<open>Net_Http\<close>: \<open>net/http\<close>, URL,
    request, status line, headers and body; a connection is the bytes it delivers.
  \<^item> \<open>Rescue_Image\<close>: \<open>rescue/image.rs, locate.rs, verify.rs, disk.rs, rescue/net\<close>. The image of the boot
    volume and the downloaded one up to the mount; the console is given to a signed one, and to
    another than the pinned one only where the operator says so.
  \<^item> \<open>Line_Editor\<close>: \<open>ui/editline\<close> and the masked line of the passphrase prompt. The code edits bytes
    at a byte index; the specification is a line of characters split at the cursor.
  \<^item> \<open>App_Keys\<close>: \<open>ui/app\<close>, every screen and what every key does to it, with the invariant all keys keep.
    \<open>Selector\<close>: \<open>ui/selector.rs, ui/countdown.rs, ui/console/latch.rs\<close>. The latch of the session, the
    countdown and the event loop: the choice that \<open>Boot_Dispatch\<close> takes as an argument. What is
    booted was entered, or is the default of a session without any input.

  Bounds and fuel. Counters of type \<open>u32\<close> are naturals with the saturation or the check of the code
  written out; \<open>NonMaxU32\<close> is a bound in the well-formedness of the state. Byte fields are
  characters, arithmetic on file modes is bitwise on naturals. No operation needs fuel: the recursion
  is structural, measured by the bytes that are left (decoders, file comparison, the loops of the
  load), or by the names not visited yet (the module walk). The loops over the TPM, the waits, the
  prompts, the receive loop, the rounds of the network rescue and the loops of the selector are
  partial functions with the value \<open>None\<close> for a device, a clock or an operator that goes on for
  ever; that they return is a theorem of its own where the code sees to it.

  Not modelled: system calls themselves (mount, kexec, reboot), their answers being
  parameters; the drawing of the user interface but for the masked line, its modals, the drivers
  of its other screens and the remote sessions; the ioctls, the sockets and the sysfs
  enumeration of the network; the processes and mounts around the rescue system; the TOML schema, the
  probing of block devices and the mounting of the configured file systems; of the tools
  beside the crate, the sockets, the command lines and the crates \<open>nmblctl, nmbl-simbox,
  nmbl-ui-preview\<close>, and \<open>vm-serial-man-rs\<close>, a helper for test machines. A loss of power keeps every completed effect of
  the transaction and none of the later ones; an effect that the disk reorders past a
  completed sync is outside the model. The threads' locks are taken as given: every operation
  of a log is one step.
\<close>

end
